(* ===== verification/Prelude.thy ===== *)
theory Prelude
  imports Main "HOL-Library.Word"
begin

unbundle bit_operations_syntax

section \<open>Prelude: types, outcomes, byte memory and shared lemmas\<close>

text \<open>
  What every component of the development shares.
  \<^item> The integer types of \<^verbatim>\<open>klibc/types.h\<close> as words of their width.
  \<^item> \<open>outcome\<close>: the result of kernel code that may stop instead of returning. A failed
    \<^verbatim>\<open>assert\<close> / \<^verbatim>\<open>assert_release\<close> is \<open>Inl AssertFail\<close>, a call of \<^verbatim>\<open>panic\<close> is
    \<open>Inl Panic\<close>, following a NULL pointer is \<open>Inl NullDeref\<close>, indexing past the end of a
    static array is \<open>Inl OutOfBounds\<close>, dividing by zero is \<open>Inl DivideError\<close>, and spinning on a lock that nobody else can release
    is \<open>Inl Deadlock\<close>. The development models the Debug build, in which both assertion
    macros of \<^verbatim>\<open>klibc/assert.h\<close> are enabled.
  \<^item> \<open>rbind\<close> sequences two such computations, \<open>for_r\<close> is a counting loop over one.
  \<^item> The byte-addressed memory, its 64-bit little-endian loads and stores, and the lemmas
    on page-aligned addresses that make distinct table entries distinct cells.
\<close>

subsection \<open>Integer types\<close>

type_synonym u8 = "8 word"
type_synonym u16 = "16 word"
type_synonym u32 = "32 word"
type_synonym u64 = "64 word"
type_synonym i32 = "32 word"
type_synonym i64 = "64 word"
type_synonym usize = "64 word"
type_synonym uptr = "64 word"

text \<open>A reference to an object of the kernel heap; \<open>None\<close> is the NULL pointer.\<close>

type_synonym ref = "nat option"

subsection \<open>Theorem collections\<close>

named_theorems outcome_simps \<open>decomposition of successful computations\<close>
named_theorems word_arith \<open>reading word arithmetic as arithmetic on natural numbers\<close>
named_theorems mem_simps \<open>reading memory after a write\<close>

subsection \<open>Outcomes\<close>

datatype fault = Panic | AssertFail | NullDeref | OutOfBounds | DivideError | Deadlock

type_synonym 'a outcome = "fault + 'a"

definition rbind :: "'a outcome \<Rightarrow> ('a \<Rightarrow> 'b outcome) \<Rightarrow> 'b outcome" where
  "rbind m f = (case m of Inl e \<Rightarrow> Inl e | Inr a \<Rightarrow> f a)"

text \<open>\<^verbatim>\<open>assert(cond)\<close> and \<^verbatim>\<open>assert_release(cond)\<close> before the rest of a computation.\<close>

definition check :: "bool \<Rightarrow> 'a outcome \<Rightarrow> 'a outcome" where
  "check b m = (if b then m else Inl AssertFail)"

lemma rbind_Inr [simp]: "rbind (Inr a) f = f a"
  by (simp add: rbind_def)

lemma rbind_Inl [simp]: "rbind (Inl e) f = Inl e"
  by (simp add: rbind_def)

lemma check_True [simp]: "check True m = m"
  by (simp add: check_def)

lemma check_False [simp]: "check False m = Inl AssertFail"
  by (simp add: check_def)

lemma rbind_eq_Inr [outcome_simps]: "rbind m f = Inr b \<longleftrightarrow> (\<exists>a. m = Inr a \<and> f a = Inr b)"
  by (cases m) auto

lemma check_eq_Inr [outcome_simps]: "check b m = Inr a \<longleftrightarrow> b \<and> m = Inr a"
  by (simp add: check_def)

lemma rbind_cong [fundef_cong]:
  "m = m' \<Longrightarrow> (\<And>a. m' = Inr a \<Longrightarrow> f a = f' a) \<Longrightarrow> rbind m f = rbind m' f'"
  by (cases m') auto

text \<open>A counting loop \<^verbatim>\<open>for (i = a; i < b; i++)\<close> over a computation that may stop.\<close>

fun for_r :: "(nat \<Rightarrow> 's \<Rightarrow> 's outcome) \<Rightarrow> nat list \<Rightarrow> 's \<Rightarrow> 's outcome" where
  "for_r f [] s = Inr s"
| "for_r f (i # is) s = rbind (f i s) (\<lambda>s'. for_r f is s')"

lemma for_r_append [simp]: "for_r f (is @ js) s = rbind (for_r f is s) (for_r f js)"
  by (induction "is" arbitrary: s) (auto simp: rbind_def split: sum.splits)

text \<open>The loop rule: an invariant indexed by the iterations done so far.\<close>

lemma for_r_rule:
  assumes "I 0 s"
    and "\<And>k s. k < n \<Longrightarrow> I k s \<Longrightarrow> \<exists>s'. f k s = Inr s' \<and> I (Suc k) s'"
  shows "\<exists>s'. for_r f [0..<n] s = Inr s' \<and> I n s'"
  using assms(2)
proof (induction n)
  case 0
  then show ?case using assms(1) by simp
next
  case (Suc n)
  then obtain s1 where "for_r f [0..<n] s = Inr s1" "I n s1" by force
  moreover obtain s2 where "f n s1 = Inr s2" "I (Suc n) s2"
    using Suc.prems[OF lessI \<open>I n s1\<close>] by blast
  ultimately show ?case by simp
qed

text \<open>The same with an invariant that is only claimed of runs that succeed.\<close>

lemma for_r_inv:
  assumes "for_r f is s = Inr s'" and "P s"
    and "\<And>i s s'. i \<in> set is \<Longrightarrow> P s \<Longrightarrow> f i s = Inr s' \<Longrightarrow> P s'"
  shows "P s'"
  using assms by (induction "is" arbitrary: s) (auto simp: outcome_simps)

subsection \<open>Words as natural numbers\<close>

lemma unat_of_nat_u64 [word_arith]: "n < 2 ^ 64 \<Longrightarrow> unat (of_nat n :: 64 word) = n"
  by (simp add: unat_of_nat)

lemma unat_lt_u64: "unat (x :: 64 word) < 18446744073709551616"
  using unsigned_less[of x, where ?'a = nat] by simp

lemma unat_add_u64 [word_arith]:
  "unat (a :: 64 word) + unat b < 2 ^ 64 \<Longrightarrow> unat (a + b) = unat a + unat b"
  by (simp add: unat_add_lem[symmetric])

lemma unat_sub_u64 [word_arith]: "b \<le> a \<Longrightarrow> unat (a - b) = unat (a :: 64 word) - unat b"
  by (rule unat_sub)

lemma unat_mult_u64 [word_arith]:
  "unat (a :: 64 word) * unat b < 2 ^ 64 \<Longrightarrow> unat (a * b) = unat a * unat b"
  by (simp add: unat_mult_lem[symmetric])

lemma word_eq_iff_unat: "(a :: 'a::len word) = b \<longleftrightarrow> unat a = unat b"
  by (simp add: word_unat_eq_iff)

lemma of_nat_eq_u64: "n < 2 ^ 64 \<Longrightarrow> k < 2 ^ 64 \<Longrightarrow> (of_nat n :: 64 word) = of_nat k \<longleftrightarrow> n = k"
  by (simp add: word_eq_iff_unat unat_of_nat_u64)

lemma unat_ucast_less:
  "unat (x :: 'a::len word) < 2 ^ LENGTH('b) \<Longrightarrow> unat (ucast x :: 'b::len word) = unat x"
  by (simp add: unsigned_ucast_eq take_bit_nat_eq_self)

subsection \<open>Page-aligned addresses\<close>

definition page_aligned :: "u64 \<Rightarrow> bool" where
  "page_aligned a \<longleftrightarrow> unat a mod 4096 = 0"

lemma page_alignedE:
  assumes "page_aligned b"
  obtains k where "unat b = 4096 * k" "k < 4503599627370496"
proof -
  have "unat b = 4096 * (unat b div 4096)" using assms by (auto simp: page_aligned_def)
  moreover have "unat b div 4096 < 4503599627370496" using unat_lt_u64[of b] by linarith
  ultimately show ?thesis by (rule that)
qed

lemma page_alignedI: "unat b = 4096 * k \<Longrightarrow> page_aligned b"
  by (simp add: page_aligned_def)

lemma unat_page_add:
  assumes "page_aligned b" "n < 4096"
  shows "unat (b + of_nat n) = unat b + n"
proof -
  obtain k where k: "unat b = 4096 * k" "k < 4503599627370496"
    using assms(1) by (rule page_alignedE)
  then have "unat b + n < 2 ^ 64" using assms(2) by simp
  with assms(2) show ?thesis by (simp add: unat_add_u64 unat_of_nat_u64)
qed

lemma page_split_unique:
  fixes k k' n n' :: nat
  assumes "4096 * k + n = 4096 * k' + n'" "n < 4096" "n' < 4096"
  shows "k = k' \<and> n = n'"
proof -
  have "(4096 * k + n) div 4096 = k" "(4096 * k' + n') div 4096 = k'" using assms(2,3) by simp_all
  with assms(1) have "k = k'" by metis
  with assms(1) show ?thesis by simp
qed

lemma page_add_eq_iff:
  assumes "page_aligned b" "page_aligned b'" "n < 4096" "n' < 4096"
  shows "b + of_nat n = b' + of_nat n' \<longleftrightarrow> b = b' \<and> n = n'"
proof
  assume "b + of_nat n = b' + of_nat n'"
  then have eq: "unat b + n = unat b' + n'"
    using unat_page_add[OF assms(1,3)] unat_page_add[OF assms(2,4)] by simp
  obtain k where k: "unat b = 4096 * k" using assms(1) by (rule page_alignedE)
  obtain k' where k': "unat b' = 4096 * k'" using assms(2) by (rule page_alignedE)
  have "k = k' \<and> n = n'" using page_split_unique[OF _ assms(3,4)] eq k k' by simp
  then show "b = b' \<and> n = n'" using k k' by (simp add: word_eq_iff_unat)
qed simp

lemma page_aligned_0 [simp]: "page_aligned 0"
  by (simp add: page_aligned_def)

lemma page_aligned_add: "page_aligned a \<Longrightarrow> page_aligned b \<Longrightarrow> page_aligned (a + b)"
proof -
  assume "page_aligned a" "page_aligned b"
  then have "(unat a + unat b) mod 4096 = 0" by (auto simp: page_aligned_def)
  then have "((unat a + unat b) mod 2 ^ 64) mod 4096 = 0"
    by (simp add: mod_mod_cancel)
  then show "page_aligned (a + b)" by (simp add: page_aligned_def unat_word_ariths)
qed

lemma page_aligned_uminus: "page_aligned a \<Longrightarrow> page_aligned (- a)"
proof (cases "a = 0")
  case False
  assume a: "page_aligned a"
  then obtain k where k: "unat a = 4096 * k" "k < 4503599627370496" by (rule page_alignedE)
  have "(unat (- a) + unat a) mod 2 ^ 64 = 0"
    using unat_word_ariths(1)[of "- a" a] by simp
  then obtain q where "unat (- a) + unat a = 2 ^ 64 * q" by (auto simp: mod_0_imp_dvd)
  moreover have "0 < unat a" using False by (simp add: unat_gt_0)
  ultimately have "unat (- a) + unat a = 2 ^ 64"
    using unat_lt_u64[of "- a"] unat_lt_u64[of a] by (cases q; cases "q - 1") auto
  then have "unat (- a) = 4096 * (4503599627370496 - k)" using k by simp
  then show ?thesis by (rule page_alignedI)
qed simp

lemma page_aligned_diff: "page_aligned a \<Longrightarrow> page_aligned b \<Longrightarrow> page_aligned (a - b)"
  using page_aligned_add[of a "- b"] page_aligned_uminus[of b] by simp

lemma page_aligned_mult4096: "page_aligned (x * 4096)"
proof -
  have "(unat x * 4096) mod 2 ^ 64 mod 4096 = 0"
    by (simp add: mod_mod_cancel)
  then show ?thesis by (simp add: page_aligned_def unat_word_ariths)
qed

subsection \<open>Byte memory and 64-bit cells\<close>

type_synonym memory = "uptr \<Rightarrow> u8"

definition load64 :: "memory \<Rightarrow> uptr \<Rightarrow> u64" where
  "load64 m a = word_rcat (rev (map (\<lambda>i. m (a + of_nat i)) [0..<8]))"

definition store64 :: "uptr \<Rightarrow> u64 \<Rightarrow> memory \<Rightarrow> memory" where
  "store64 a v m = (\<lambda>x. if unat (x - a) < 8 then ucast (drop_bit (8 * unat (x - a)) v) else m x)"

lemma bit_load64:
  "bit (load64 m a) n \<longleftrightarrow> n < 64 \<and> bit (m (a + of_nat (n div 8))) (n mod 8)"
proof (cases "n < 64")
  case True
  have d: "n div 8 < 8" using True by simp
  have "bit (load64 m a) n = bit (horner_sum uint (2 ^ LENGTH(8)) (map (\<lambda>i. m (a + of_nat i)) [0..<8])) n"
    using True by (simp add: load64_def word_rcat_def bit_word_of_int_iff del: upt_conv_Cons_Cons upt_rec_numeral)
  also have "\<dots> \<longleftrightarrow> bit (m (a + of_nat (n div 8))) (n mod 8)"
    unfolding bit_horner_sum_uint_exp_iff using d by simp
  finally show ?thesis using True by simp
next
  case False
  then show ?thesis using bit_imp_le_length[of "load64 m a" n] by auto
qed

lemma store64_at: "k < 8 \<Longrightarrow> store64 a v m (a + of_nat k) = ucast (drop_bit (8 * k) v)"
  by (simp add: store64_def unat_of_nat_u64)

lemma load64_store64_same [mem_simps]: "load64 (store64 a v m) a = v"
proof (rule bit_word_eqI)
  fix n assume n: "n < LENGTH(64)"
  then have "n div 8 < 8" by simp
  then have "store64 a v m (a + of_nat (n div 8)) = ucast (drop_bit (8 * (n div 8)) v)"
    by (rule store64_at)
  then show "bit (load64 (store64 a v m) a) n = bit v n"
    using n by (simp add: bit_load64 bit_ucast_iff bit_drop_bit_eq)
qed

lemma load64_cong:
  assumes "\<And>k. k < 8 \<Longrightarrow> m (a + of_nat k) = m' (a + of_nat k)"
  shows "load64 m a = load64 m' a"
  by (rule bit_word_eqI) (simp add: bit_load64 assms)

lemma load64_zero: "(\<And>k. k < 8 \<Longrightarrow> m (a + of_nat k) = 0) \<Longrightarrow> load64 m a = 0"
  by (rule bit_word_eqI) (simp add: bit_load64)

text \<open>A store leaves the cells that are at least eight bytes away.\<close>

lemma unat_diff_swap: "a \<noteq> b \<Longrightarrow> unat (a - b :: u64) = 2 ^ 64 - unat (b - a)"
  using unsigned_less[of a, where ?'a = nat] unsigned_less[of b, where ?'a = nat]
  by (auto simp: unat_sub_if' word_eq_iff_unat)

lemma load64_store64_far:
  assumes "8 \<le> unat (b - a)" "8 \<le> unat (a - b)"
  shows "load64 (store64 a v m) b = load64 m b"
proof (rule load64_cong)
  fix k :: nat
  assume k: "k < 8"
  have ne: "b \<noteq> a" using assms by auto
  have "unat (b - a) + k < 2 ^ 64" using unat_diff_swap[OF ne] assms k by simp
  then have "unat (b + of_nat k - a) = unat (b - a) + k"
    using k unat_add_u64[of "b - a" "of_nat k"] unat_of_nat_u64[of k] by (simp add: algebra_simps)
  then show "store64 a v m (b + of_nat k) = m (b + of_nat k)"
    using assms(1) by (simp add: store64_def)
qed

text \<open>
  Table entries: entry \<open>i\<close> of the 512-entry table at a page-aligned address \<open>t\<close>. Cells of
  one page or of two different pages never overlap, so a store to one leaves the others.
\<close>

definition cell :: "uptr \<Rightarrow> nat \<Rightarrow> uptr" where
  "cell t i = t + of_nat (8 * i)"

lemma cell_byte: "cell t i + of_nat k = t + of_nat (8 * i + k)"
  by (simp add: cell_def)

lemma store64_other_byte:
  assumes "page_aligned t" "page_aligned t'" "i < 512" "n < 4096"
    and "t \<noteq> t' \<or> n < 8 * i \<or> 8 * i + 8 \<le> n"
  shows "store64 (cell t i) v m (t' + of_nat n) = m (t' + of_nat n)"
proof -
  have "\<not> unat (t' + of_nat n - cell t i) < 8"
  proof
    assume "unat (t' + of_nat n - cell t i) < 8"
    then obtain k where k: "k < 8" "t' + of_nat n = cell t i + of_nat k"
      by (metis add.commute diff_add_cancel word_nat_cases unat_of_nat_u64 of_nat_unat ucast_id)
    then have "t' + of_nat n = t + of_nat (8 * i + k)" by (simp only: cell_byte)
    moreover have "8 * i + k < 4096" using assms(3) k(1) by simp
    ultimately have "t' = t \<and> n = 8 * i + k"
      using page_add_eq_iff[OF assms(2,1,4)] by blast
    with assms(5) k(1) show False by auto
  qed
  then show ?thesis by (simp add: store64_def)
qed

lemma load64_store64_cell [mem_simps]:
  assumes "page_aligned t" "page_aligned t'" "i < 512" "j < 512"
  shows "load64 (store64 (cell t i) v m) (cell t' j) =
    (if t = t' \<and> i = j then v else load64 m (cell t' j))"
proof (cases "t = t' \<and> i = j")
  case True
  then show ?thesis by (simp add: load64_store64_same)
next
  case False
  have "store64 (cell t i) v m (cell t' j + of_nat k) = m (cell t' j + of_nat k)" if "k < 8" for k
    unfolding cell_byte using assms that False by (intro store64_other_byte) auto
  then show ?thesis using False by (auto intro: load64_cong)
qed

text \<open>The bytes of the page at \<open>p\<close>.\<close>

definition in_page :: "uptr \<Rightarrow> uptr \<Rightarrow> bool" where
  "in_page p x \<longleftrightarrow> unat (x - p) < 4096"

lemma in_page_add [simp]: "n < 4096 \<Longrightarrow> in_page p (p + of_nat n)"
  by (simp add: in_page_def unat_of_nat_u64)

lemma in_page_iff: "in_page p x \<longleftrightarrow> (\<exists>n < 4096. x = p + of_nat n)"
proof
  assume "in_page p x"
  then have "unat (x - p) < 4096" "x = p + of_nat (unat (x - p))" by (simp_all add: in_page_def)
  then show "\<exists>n < 4096. x = p + of_nat n" by blast
qed auto

lemma in_page_unique:
  assumes "page_aligned p" "page_aligned q" "in_page p x" "in_page q x"
  shows "p = q"
  using assms page_add_eq_iff by (auto simp: in_page_iff)

lemma cell_in_page: "i < 512 \<Longrightarrow> k < 8 \<Longrightarrow> in_page t (cell t i + of_nat k)"
  unfolding cell_byte by (rule in_page_add) simp

lemma store64_outside_page:
  assumes "page_aligned t" "i < 512" "\<not> in_page t x"
  shows "store64 (cell t i) v m x = m x"
proof -
  have "\<not> unat (x - cell t i) < 8"
  proof
    assume lt: "unat (x - cell t i) < 8"
    have "x = cell t i + of_nat (unat (x - cell t i))" by simp
    with assms(2,3) lt show False by (metis cell_in_page)
  qed
  then show ?thesis by (simp add: store64_def)
qed

lemma load64_page_cong:
  "i < 512 \<Longrightarrow> (\<And>x. in_page t x \<Longrightarrow> m x = m' x) \<Longrightarrow> load64 m (cell t i) = load64 m' (cell t i)"
  by (rule load64_cong) (simp add: cell_in_page)

lemma load64_page_zero: "i < 512 \<Longrightarrow> (\<And>x. in_page t x \<Longrightarrow> m x = 0) \<Longrightarrow> load64 m (cell t i) = 0"
  by (rule load64_zero) (simp add: cell_in_page)

end
