(* ===== verification/Align.thy ===== *)
theory Align
  imports Prelude
begin

section \<open>Alignment arithmetic (klibc/mem/align.c)\<close>

text \<open>
  The seven functions of \<^verbatim>\<open>klibc/src/mem/align.c\<close> (\<^verbatim>\<open>ulibc/src/mem/align.c\<close> is the same
  code). The remainder by an alignment of zero is a divide error; the sums are taken at the
  width of \<^verbatim>\<open>usize\<close>, so rounding up may wrap around. The \<^verbatim>\<open>ptr\<close> variants have the same
  bodies as the \<^verbatim>\<open>size\<close> variants in the source and are written out the same way here.
\<close>

subsection \<open>Definitions\<close>

definition is_alignment_valid :: "usize \<Rightarrow> bool" where
  "is_alignment_valid alignment \<longleftrightarrow> alignment AND (alignment - 1) = 0"

definition is_size_aligned :: "usize \<Rightarrow> usize \<Rightarrow> bool outcome" where
  "is_size_aligned sz alignment =
     (if alignment = 0 then Inl DivideError else Inr (sz mod alignment = 0))"

definition align_size_up :: "usize \<Rightarrow> usize \<Rightarrow> usize outcome" where
  "align_size_up sz alignment =
     (if alignment = 0 then Inl DivideError
      else if sz mod alignment \<noteq> 0 then Inr (sz + (alignment - sz mod alignment))
      else Inr sz)"

definition align_size_down :: "usize \<Rightarrow> usize \<Rightarrow> usize outcome" where
  "align_size_down sz alignment =
     (if alignment = 0 then Inl DivideError
      else if sz mod alignment \<noteq> 0 then Inr (sz - sz mod alignment)
      else Inr sz)"

definition is_ptr_aligned :: "uptr \<Rightarrow> usize \<Rightarrow> bool outcome" where
  "is_ptr_aligned ptr alignment =
     (if alignment = 0 then Inl DivideError else Inr (ptr mod alignment = 0))"

definition align_ptr_up :: "uptr \<Rightarrow> usize \<Rightarrow> uptr outcome" where
  "align_ptr_up ptr alignment =
     (if alignment = 0 then Inl DivideError
      else if ptr mod alignment \<noteq> 0 then Inr (ptr + (alignment - ptr mod alignment))
      else Inr ptr)"

definition align_ptr_down :: "uptr \<Rightarrow> usize \<Rightarrow> uptr outcome" where
  "align_ptr_down ptr alignment =
     (if alignment = 0 then Inl DivideError
      else if ptr mod alignment \<noteq> 0 then Inr (ptr - ptr mod alignment)
      else Inr ptr)"

text \<open>The \<^verbatim>\<open>ptr\<close> functions compute what the \<^verbatim>\<open>size\<close> functions compute.\<close>

lemma ptr_as_size:
  "is_ptr_aligned = is_size_aligned" "align_ptr_up = align_size_up"
  "align_ptr_down = align_size_down"
  by (auto intro!: ext simp: is_ptr_aligned_def is_size_aligned_def align_ptr_up_def
      align_size_up_def align_ptr_down_def align_size_down_def)

subsection \<open>Rounding on natural numbers\<close>

definition round_up :: "nat \<Rightarrow> nat \<Rightarrow> nat" where
  "round_up s a = (s + (a - 1)) div a * a"

lemma round_up_eq: "0 < a \<Longrightarrow> round_up s a = (if s mod a = 0 then s else s + (a - s mod a))"
proof -
  assume a: "0 < a"
  define q r where "q = s div a" and "r = s mod a"
  have s: "s = q * a + r" and r: "r < a" using a by (simp_all add: q_def r_def)
  show ?thesis
  proof (cases "r = 0")
    case True
    have e: "s + (a - 1) = a - 1 + q * a" using s True by simp
    have "(s + (a - 1)) div a = q" unfolding e div_mult_self1[OF a[THEN less_imp_neq, symmetric]] using a by simp
    then have "round_up s a = s" using s True by (simp add: round_up_def)
    then show ?thesis using True by (simp add: r_def)
  next
    case False
    have e: "s + (a - 1) = r - 1 + (q + 1) * a" using s False a by (simp add: algebra_simps)
    have "(s + (a - 1)) div a = q + 1" unfolding e div_mult_self1[OF a[THEN less_imp_neq, symmetric]] using r by simp
    then show ?thesis using False s r by (simp add: round_up_def r_def[symmetric] algebra_simps)
  qed
qed

lemma round_up_least: "0 < a \<Longrightarrow> s \<le> k * a \<Longrightarrow> round_up s a \<le> k * a"
proof -
  assume a: "0 < a" and k: "s \<le> k * a"
  have "s + (a - 1) < (k + 1) * a" using a k by (simp add: algebra_simps)
  then have "(s + (a - 1)) div a < k + 1" by (simp add: less_mult_imp_div_less)
  then show ?thesis unfolding round_up_def by (intro mult_le_mono1) linarith
qed

lemma round_up_bounds:
  assumes "0 < a"
  shows "s \<le> round_up s a" "round_up s a < s + a"
  using assms mod_less_divisor[OF assms, of s] unfolding round_up_eq[OF assms]
  by (auto split: if_splits intro: less_imp_le)

lemma round_up_dvd [simp]: "a dvd round_up s a"
  by (simp add: round_up_def)

subsection \<open>What the functions compute\<close>

lemma unat_mod_eq_0: "(x :: 64 word) mod a = 0 \<longleftrightarrow> unat x mod unat a = 0"
  by (simp add: word_eq_iff_unat unat_mod)

lemma align_size_up_value:
  assumes "alignment \<noteq> 0"
  shows "\<exists>r. align_size_up sz alignment = Inr r \<and>
    unat r = round_up (unat sz) (unat alignment) mod 2 ^ 64"
proof -
  have a: "0 < unat alignment" using assms by (simp add: unat_gt_0)
  have lt: "sz mod alignment \<le> alignment"
    using assms word_mod_less_divisor[of alignment sz] by (simp add: word_gt_0)
  have "unat (sz + (alignment - sz mod alignment)) =
      (unat sz + (unat alignment - unat sz mod unat alignment)) mod 2 ^ 64"
    using unat_sub_u64[OF lt] by (simp add: unat_word_ariths(1) unat_mod)
  then show ?thesis
    using assms a unsigned_less[of sz, where ?'a = nat]
    by (auto simp: align_size_up_def round_up_eq unat_mod_eq_0)
qed

lemma align_size_up_exact:
  assumes "alignment \<noteq> 0" "round_up (unat sz) (unat alignment) < 2 ^ 64"
  obtains r where "align_size_up sz alignment = Inr r"
    "unat r = round_up (unat sz) (unat alignment)"
  using align_size_up_value[OF assms(1), of sz] assms(2) by auto

lemma align_size_down_value:
  assumes "alignment \<noteq> 0"
  shows "\<exists>r. align_size_down sz alignment = Inr r \<and>
    unat r = unat sz div unat alignment * unat alignment"
proof -
  have "unat (sz - sz mod alignment) = unat sz - unat sz mod unat alignment"
    using unat_sub_u64[of "sz mod alignment" sz] by (simp add: word_le_nat_alt unat_mod)
  then show ?thesis
    using assms by (auto simp: align_size_down_def minus_mod_eq_div_mult unat_mod_eq_0
        dest: mod_0_imp_dvd)
qed

lemma page_aligned_mod: "page_aligned x \<longleftrightarrow> x mod 4096 = 0"
  by (simp add: page_aligned_def unat_mod_eq_0)

lemma is_ptr_aligned_page [simp]: "is_ptr_aligned x 4096 = Inr (page_aligned x)"
  by (simp add: is_ptr_aligned_def page_aligned_mod)

subsection \<open>The power-of-two test\<close>

lemma bit_top:
  fixes x :: u64
  assumes "2 ^ k \<le> unat x" "unat x < 2 ^ Suc k"
  shows "bit x k"
proof -
  have "unat x div 2 ^ k = 1" using assms by (simp add: div_nat_eqI)
  then have "bit (unat x) k" by (simp add: bit_iff_odd)
  then show ?thesis by (simp add: bit_unsigned_iff)
qed

lemma power_of_two_valid: "k < 64 \<Longrightarrow> is_alignment_valid (2 ^ k)"
proof -
  assume k: "k < 64"
  have "(2 ^ k :: u64) AND mask k = 0"
    by (rule bit_word_eqI) (simp add: bit_and_iff bit_exp_iff bit_mask_iff)
  then show ?thesis by (simp add: is_alignment_valid_def mask_eq_exp_minus_1)
qed

lemma valid_power_of_two:
  assumes "is_alignment_valid a" "a \<noteq> 0"
  shows "\<exists>k < 64. a = 2 ^ k"
proof -
  have "1 \<le> unat a" using assms(2) by (simp add: Suc_leI unat_gt_0)
  then obtain k where k: "2 ^ k \<le> unat a" "unat a < 2 ^ Suc k"
    using ex_power_ivl1[of 2 "unat a"] by auto
  have "(2::nat) ^ k < 2 ^ 64" using k(1) unat_lt_u64[of a] by simp
  then have k64: "k < 64" using power_strict_increasing_iff[of "2::nat" k 64] by simp
  have "a = 2 ^ k"
  proof (rule ccontr)
    assume "a \<noteq> 2 ^ k"
    moreover have "unat (of_nat (2 ^ k) :: u64) = 2 ^ k"
      using \<open>(2::nat) ^ k < 2 ^ 64\<close> by (rule unat_of_nat_u64)
    ultimately have "unat a \<noteq> 2 ^ k" by (simp add: word_eq_iff_unat)
    then have "2 ^ k \<le> unat (a - 1)" "unat (a - 1) < 2 ^ Suc k"
      using k assms(2) unat_minus_one[OF assms(2)] by simp_all
    then have "bit (a - 1) k" by (rule bit_top)
    moreover have "bit a k" using k by (rule bit_top)
    ultimately have "bit (a AND (a - 1)) k" by (simp add: bit_and_iff)
    with assms(1) show False by (simp add: is_alignment_valid_def)
  qed
  with k64 show ?thesis by blast
qed

lemma is_alignment_valid_iff: "is_alignment_valid a \<longleftrightarrow> a = 0 \<or> (\<exists>k < 64. a = 2 ^ k)"
  using power_of_two_valid valid_power_of_two by (auto simp: is_alignment_valid_def)

subsection \<open>Properties\<close>

text \<open>
  Unless the result would exceed the address space, \<^verbatim>\<open>align_size_up\<close> returns the least
  multiple of the alignment that is not below the size.
\<close>

theorem align_size_up_least_multiple:
  assumes "alignment \<noteq> 0" "round_up (unat sz) (unat alignment) < 2 ^ 64"
  shows "\<exists>r. align_size_up sz alignment = Inr r \<and> unat alignment dvd unat r \<and> sz \<le> r \<and>
    (\<forall>k. unat sz \<le> k \<and> unat alignment dvd k \<longrightarrow> unat r \<le> k)"
proof -
  have pos: "0 < unat alignment" using assms(1) by (simp add: unat_gt_0)
  obtain r where r: "align_size_up sz alignment = Inr r" "unat r = round_up (unat sz) (unat alignment)"
    using align_size_up_exact[OF assms] .
  have "unat r \<le> k" if "unat sz \<le> k" "unat alignment dvd k" for k
    using that round_up_least[OF pos, of "unat sz" "k div unat alignment"] r(2) by simp
  with r round_up_bounds(1)[OF pos, of "unat sz"] show ?thesis by (auto simp: word_le_nat_alt)
qed

theorem align_size_up_least_multiple_witness:
  "\<exists>r. align_size_up 4097 4096 = Inr r \<and> unat (4096 :: u64) dvd unat r \<and> 4097 \<le> r \<and>
    (\<forall>k. unat (4097 :: u64) \<le> k \<and> unat (4096 :: u64) dvd k \<longrightarrow> unat r \<le> k)"
  by (rule align_size_up_least_multiple) (simp_all add: round_up_def)

end
