(* ===== verification/Bytes.thy ===== *)
theory Bytes
  imports Prelude
begin

section \<open>Byte operations (klibc/mem/bytes.c)\<close>

text \<open>
  The functions of \<^verbatim>\<open>klibc/src/mem/bytes.c\<close> (\<^verbatim>\<open>ulibc/src/mem/bytes.c\<close> is the same code)
  on the byte memory. A \<^verbatim>\<open>for (usize i = 0; i < n; i++)\<close> loop is a \<open>fold\<close> over
  \<open>[0..<unat n]\<close>; the byte at \<^verbatim>\<open>p[i]\<close> is the memory at \<open>p + of_nat i\<close>. The search loop
  of \<^verbatim>\<open>strlen\<close> has no bound, so it is a partial function: \<open>None\<close> is a search that never ends.
  The lemmas give each loop its closed form: what every byte of memory holds afterwards.
\<close>

subsection \<open>Definitions\<close>

text \<open>The loop bodies \<^verbatim>\<open>d[i] = s[i]\<close> and \<^verbatim>\<open>d[i] = b\<close>.\<close>

definition copy_byte :: "uptr \<Rightarrow> uptr \<Rightarrow> nat \<Rightarrow> memory \<Rightarrow> memory" where
  "copy_byte d s i m = m(d + of_nat i := m (s + of_nat i))"

definition set_byte :: "uptr \<Rightarrow> u8 \<Rightarrow> nat \<Rightarrow> memory \<Rightarrow> memory" where
  "set_byte d b i m = m(d + of_nat i := b)"

definition memcpy :: "uptr \<Rightarrow> uptr \<Rightarrow> usize \<Rightarrow> memory \<Rightarrow> (uptr \<times> memory) outcome" where
  "memcpy dst src n m =
     check (dst \<noteq> 0) (check (src \<noteq> 0)
       (Inr (dst, fold (copy_byte dst src) [0..<unat n] m)))"

definition memmove :: "uptr \<Rightarrow> uptr \<Rightarrow> usize \<Rightarrow> memory \<Rightarrow> (uptr \<times> memory) outcome" where
  "memmove dst src n m =
     check (dst \<noteq> 0) (check (src \<noteq> 0)
       (Inr (dst,
         (if dst < src then fold (copy_byte dst src) [0..<unat n] m
          else if dst > src then
            fold (\<lambda>i. copy_byte dst src (i - 1)) (rev [1..<unat n + 1]) m
          else m))))"

definition memset :: "uptr \<Rightarrow> i32 \<Rightarrow> usize \<Rightarrow> memory \<Rightarrow> (uptr \<times> memory) outcome" where
  "memset dst c n m =
     check (dst \<noteq> 0)
       (Inr (dst, fold (set_byte dst (ucast c)) [0..<unat n] m))"

fun memcmp_loop :: "uptr \<Rightarrow> uptr \<Rightarrow> nat \<Rightarrow> nat \<Rightarrow> memory \<Rightarrow> int" where
  "memcmp_loop a b i 0 m = 0"
| "memcmp_loop a b i (Suc r) m =
     (if m (a + of_nat i) < m (b + of_nat i) then - 1
      else if m (a + of_nat i) > m (b + of_nat i) then 1
      else memcmp_loop a b (Suc i) r m)"

definition memcmp :: "uptr \<Rightarrow> uptr \<Rightarrow> usize \<Rightarrow> memory \<Rightarrow> int outcome" where
  "memcmp a b n m = check (a \<noteq> 0) (check (b \<noteq> 0) (Inr (memcmp_loop a b 0 (unat n) m)))"

partial_function (option) strlen_loop :: "memory \<Rightarrow> uptr \<Rightarrow> usize \<Rightarrow> usize option" where
  "strlen_loop m s count = (if m s = 0 then Some count else strlen_loop m (s + 1) (count + 1))"

definition strlen :: "uptr \<Rightarrow> memory \<Rightarrow> usize option outcome" where
  "strlen s m = check (s \<noteq> 0) (Inr (strlen_loop m s 0))"

fun strnlen_loop :: "memory \<Rightarrow> uptr \<Rightarrow> nat \<Rightarrow> usize \<Rightarrow> usize" where
  "strnlen_loop m s 0 count = count"
| "strnlen_loop m s (Suc left) count =
     (if m s = 0 then count else strnlen_loop m (s + 1) left (count + 1))"

definition strnlen :: "uptr \<Rightarrow> usize \<Rightarrow> memory \<Rightarrow> usize outcome" where
  "strnlen s maxlen m = check (s \<noteq> 0) (Inr (strnlen_loop m s (unat maxlen) 0))"

subsection \<open>The bytes of a range\<close>

definition bytes_at :: "memory \<Rightarrow> uptr \<Rightarrow> nat \<Rightarrow> u8 list" where
  "bytes_at m a n = map (\<lambda>i. m (a + of_nat i)) [0..<n]"

definition in_range :: "uptr \<Rightarrow> nat \<Rightarrow> uptr \<Rightarrow> bool" where
  "in_range a n x \<longleftrightarrow> unat (x - a) < n"

lemma length_bytes_at [simp]: "length (bytes_at m a n) = n"
  by (simp add: bytes_at_def)

lemma nth_bytes_at [simp]: "i < n \<Longrightarrow> bytes_at m a n ! i = m (a + of_nat i)"
  by (simp add: bytes_at_def)

lemma bytes_at_cong: "(\<And>i. i < n \<Longrightarrow> m (a + of_nat i) = m' (a + of_nat i)) \<Longrightarrow> bytes_at m a n = bytes_at m' a n"
  by (simp add: bytes_at_def)

lemma in_range_add [simp]: "i < n \<Longrightarrow> n \<le> 2 ^ 64 \<Longrightarrow> in_range a n (a + of_nat i)"
  by (simp add: in_range_def unat_of_nat_u64)

lemma in_range_Suc: "in_range a (Suc n) x \<longleftrightarrow> in_range a n x \<or> (n < 2 ^ 64 \<and> x = a + of_nat n)"
proof (cases "n < 2 ^ 64")
  case True
  have "unat (x - a) = n \<longleftrightarrow> x = a + of_nat n"
  proof
    assume "unat (x - a) = n"
    then have "of_nat n = x - a" by auto
    then show "x = a + of_nat n" by simp
  qed (use True in \<open>simp add: unat_of_nat_u64\<close>)
  then show ?thesis using True by (auto simp: in_range_def less_Suc_eq)
next
  case False
  then show ?thesis using unat_lt_u64[of "x - a"] by (auto simp: in_range_def)
qed

lemma in_range_0 [simp]: "\<not> in_range a 0 x"
  by (simp add: in_range_def)

lemma in_range_page: "in_range p 4096 x \<longleftrightarrow> in_page p x"
  by (simp add: in_range_def in_page_def)

subsection \<open>memset\<close>

lemma memset_fold:
  "n \<le> 2 ^ 64 \<Longrightarrow> fold (set_byte dst b) [0..<n] m = (\<lambda>x. if in_range dst n x then b else m x)"
  by (induction n) (auto simp: in_range_Suc fun_eq_iff set_byte_def)

lemma memset_eq:
  "dst \<noteq> 0 \<Longrightarrow> memset dst c n m = Inr (dst, \<lambda>x. if in_range dst (unat n) x then ucast c else m x)"
  using unat_lt_u64[of n] by (simp add: memset_def memset_fold)

subsection \<open>memcpy and memmove\<close>

text \<open>
  A copy that runs upwards reads each source byte before it is overwritten as long as the
  source byte of a later step is never the destination byte of an earlier one.
\<close>

lemma copy_up:
  assumes "n \<le> 2 ^ 64" "\<And>i j. i < j \<Longrightarrow> j < n \<Longrightarrow> src + of_nat j \<noteq> dst + of_nat i"
  shows "fold (copy_byte dst src) [0..<n] m =
    (\<lambda>x. if in_range dst n x then m (src + (x - dst)) else m x)"
  using assms
proof (induction n)
  case (Suc n)
  have src_n: "\<not> in_range dst n (src + of_nat n)"
  proof
    assume "in_range dst n (src + of_nat n)"
    then have "unat (src + of_nat n - dst) < n" by (simp add: in_range_def)
    moreover have "src + of_nat n = dst + of_nat (unat (src + of_nat n - dst))" by simp
    ultimately show False using Suc.prems(2)[of "unat (src + of_nat n - dst)" n] by simp
  qed
  have IH: "fold (copy_byte dst src) [0..<n] m =
      (\<lambda>x. if in_range dst n x then m (src + (x - dst)) else m x)"
    by (rule Suc.IH) (use Suc.prems in auto)
  have "fold (copy_byte dst src) [0..<Suc n] m = copy_byte dst src n
      (\<lambda>x. if in_range dst n x then m (src + (x - dst)) else m x)"
    by (simp add: IH)
  also have "\<dots> = (\<lambda>x. if in_range dst (Suc n) x then m (src + (x - dst)) else m x)"
    using src_n Suc.prems(1) by (auto simp: copy_byte_def fun_eq_iff in_range_Suc)
  finally show ?case .
qed simp

lemma copy_down:
  assumes "n \<le> 2 ^ 64" "\<And>i j. i < j \<Longrightarrow> j < n \<Longrightarrow> src + of_nat i \<noteq> dst + of_nat j"
  shows "fold (\<lambda>i. copy_byte dst src (i - 1)) (rev [1..<n + 1]) m =
    (\<lambda>x. if in_range dst n x then m (src + (x - dst)) else m x)"
  using assms
proof (induction n arbitrary: m)
  case (Suc n)
  let ?m = "m(dst + of_nat n := m (src + of_nat n))"
  have "fold (\<lambda>i. copy_byte dst src (i - 1)) (rev [1..<Suc n + 1]) m =
      fold (\<lambda>i. copy_byte dst src (i - 1)) (rev [1..<n + 1]) ?m"
    by (simp add: copy_byte_def)
  also have "\<dots> = (\<lambda>x. if in_range dst n x then ?m (src + (x - dst)) else ?m x)"
    by (rule Suc.IH) (use Suc.prems in auto)
  also have "\<dots> = (\<lambda>x. if in_range dst (Suc n) x then m (src + (x - dst)) else m x)"
  proof
    fix x
    show "(if in_range dst n x then ?m (src + (x - dst)) else ?m x) =
        (if in_range dst (Suc n) x then m (src + (x - dst)) else m x)"
    proof (cases "in_range dst n x")
      case True
      then have "unat (x - dst) < n" by (simp add: in_range_def)
      then have "src + of_nat (unat (x - dst)) \<noteq> dst + of_nat n"
        by (rule Suc.prems(2)) simp
      then show ?thesis using True by (simp add: in_range_Suc)
    next
      case False
      then show ?thesis using Suc.prems(1) by (auto simp: in_range_Suc)
    qed
  qed
  finally show ?case .
qed simp

definition copied :: "memory \<Rightarrow> uptr \<Rightarrow> uptr \<Rightarrow> nat \<Rightarrow> memory" where
  "copied m dst src n = (\<lambda>x. if in_range dst n x then m (src + (x - dst)) else m x)"

lemma bytes_at_copied: "n \<le> 2 ^ 64 \<Longrightarrow> bytes_at (copied m dst src n) dst n = bytes_at m src n"
  by (auto simp: bytes_at_def copied_def)

lemma memcpy_eq:
  assumes "dst \<noteq> 0" "src \<noteq> 0"
    and "\<And>i j. i < unat n \<Longrightarrow> j < unat n \<Longrightarrow> src + of_nat j \<noteq> dst + of_nat i"
  shows "memcpy dst src n m = Inr (dst, copied m dst src (unat n))"
  using assms copy_up[of "unat n" src dst m] unat_lt_u64[of n]
  by (simp add: memcpy_def copied_def)

text \<open>Two ranges of \<open>n\<close> bytes that do not wrap around the address space.\<close>

lemma no_wrap_eq_iff:
  fixes a b :: u64
  assumes "unat a + n \<le> 2 ^ 64" "unat b + n \<le> 2 ^ 64" "i < n" "j < n"
  shows "a + of_nat i = b + of_nat j \<longleftrightarrow> unat a + i = unat b + j"
proof -
  have "unat (a + of_nat i) = unat a + i" "unat (b + of_nat j) = unat b + j"
    using assms by (simp_all add: unat_add_u64 unat_of_nat_u64)
  then show ?thesis by (simp add: word_eq_iff_unat)
qed

lemma memmove_eq:
  assumes "dst \<noteq> 0" "src \<noteq> 0"
    and "unat dst + unat n \<le> 2 ^ 64" "unat src + unat n \<le> 2 ^ 64"
  shows "memmove dst src n m = Inr (dst, copied m dst src (unat n))"
proof -
  note eq = no_wrap_eq_iff[OF assms(4,3)]
  have n: "unat n \<le> 2 ^ 64" using unat_lt_u64[of n] by simp
  consider (up) "dst < src" | (down) "dst > src" | (same) "dst = src" by fastforce
  then show ?thesis
  proof cases
    case up
    have "fold (copy_byte dst src) [0..<unat n] m = copied m dst src (unat n)"
      unfolding copied_def using up eq by (intro copy_up[OF n]) (auto simp: word_less_nat_alt)
    then show ?thesis using up assms(1,2) by (simp add: memmove_def)
  next
    case down
    have "fold (\<lambda>i. copy_byte dst src (i - 1)) (rev [1..<unat n + 1]) m
        = copied m dst src (unat n)"
      unfolding copied_def using down eq by (intro copy_down[OF n]) (auto simp: word_less_nat_alt)
    then show ?thesis using down order_less_not_sym[OF down] assms(1,2)
      by (simp add: memmove_def del: upt_Suc)
  next
    case same
    then show ?thesis using assms(1,2) by (simp add: memmove_def copied_def fun_eq_iff)
  qed
qed

subsection \<open>memcmp\<close>

text \<open>The three-way comparison of two byte strings of equal length.\<close>

fun cmp_bytes :: "u8 list \<Rightarrow> u8 list \<Rightarrow> int" where
  "cmp_bytes (x # xs) (y # ys) = (if x < y then - 1 else if x > y then 1 else cmp_bytes xs ys)"
| "cmp_bytes _ _ = 0"

lemma bytes_at_Cons: "bytes_at m a (Suc n) = m a # bytes_at m (a + 1) n"
  by (rule nth_equalityI) (auto simp: nth_Cons algebra_simps split: nat.splits)

lemma bytes_at_0 [simp]: "bytes_at m a 0 = []"
  by (simp add: bytes_at_def)

lemma memcmp_loop_eq:
  "memcmp_loop a b i r m = cmp_bytes (bytes_at m (a + of_nat i) r) (bytes_at m (b + of_nat i) r)"
  by (induction r arbitrary: i) (auto simp: bytes_at_Cons algebra_simps)

lemma cmp_bytes_0_iff: "length xs = length ys \<Longrightarrow> cmp_bytes xs ys = 0 \<longleftrightarrow> xs = ys"
  by (induction xs ys rule: cmp_bytes.induct) auto

lemma memcmp_0_iff:
  "a \<noteq> 0 \<Longrightarrow> b \<noteq> 0 \<Longrightarrow> memcmp a b n m = Inr 0 \<longleftrightarrow> bytes_at m a (unat n) = bytes_at m b (unat n)"
  by (simp add: memcmp_def memcmp_loop_eq cmp_bytes_0_iff)

subsection \<open>strlen and strnlen\<close>

lemma strlen_loop_least:
  assumes "m (s + of_nat k) = 0" "\<And>i. i < k \<Longrightarrow> m (s + of_nat i) \<noteq> 0"
  shows "strlen_loop m s count = Some (count + of_nat k)"
  using assms
proof (induction k arbitrary: s count)
  case 0
  then show ?case by (simp add: strlen_loop.simps)
next
  case (Suc k)
  have "m s \<noteq> 0" using Suc.prems(2)[of 0] by simp
  moreover have "strlen_loop m (s + 1) (count + 1) = Some (count + 1 + of_nat k)"
    using Suc.prems(1) Suc.prems(2)[of "Suc _"] by (intro Suc.IH) (simp_all add: algebra_simps)
  ultimately show ?case by (simp add: strlen_loop.simps[of m s] algebra_simps)
qed

lemma strnlen_loop_eq:
  "strnlen_loop m s r count = count + of_nat (length (takeWhile (\<lambda>c. c \<noteq> 0) (bytes_at m s r)))"
  by (induction r arbitrary: s count) (auto simp: bytes_at_Cons bytes_at_0 algebra_simps)

lemma strnlen_le: "strnlen s maxlen m = Inr r \<Longrightarrow> r \<le> maxlen"
proof -
  assume "strnlen s maxlen m = Inr r"
  moreover define l where "l = length (takeWhile (\<lambda>c. c \<noteq> 0) (bytes_at m s (unat maxlen)))"
  ultimately have r: "r = of_nat l" by (auto simp: strnlen_def strnlen_loop_eq outcome_simps)
  have "l \<le> unat maxlen" using length_takeWhile_le[of _ "bytes_at m s (unat maxlen)"] by (simp add: l_def)
  then show ?thesis using r unat_lt_u64[of maxlen] by (simp add: word_le_nat_alt unat_of_nat_u64)
qed

subsection \<open>Properties\<close>

text \<open>
  \<^verbatim>\<open>memmove\<close> copies between ranges that may overlap in either direction: afterwards the
  destination holds the bytes the source held before the call, and every byte outside the
  destination is unchanged.
\<close>

theorem memmove_copies:
  assumes "dst \<noteq> 0" "src \<noteq> 0" "unat dst + unat n \<le> 2 ^ 64" "unat src + unat n \<le> 2 ^ 64"
  shows "\<exists>m'. memmove dst src n m = Inr (dst, m') \<and>
    bytes_at m' dst (unat n) = bytes_at m src (unat n) \<and>
    (\<forall>x. \<not> in_range dst (unat n) x \<longrightarrow> m' x = m x)"
  using memmove_eq[OF assms] bytes_at_copied[of "unat n" m dst src] unat_lt_u64[of n]
  by (simp add: copied_def)

theorem memmove_copies_witness:
  "\<exists>m'. memmove 1001 1000 3 ((\<lambda>_. 0)(1000 := 7, 1001 := 8, 1002 := 9)) = Inr (1001, m') \<and>
     bytes_at m' 1001 3 = [7, 8, 9]"
  using memmove_copies[of 1001 1000 3 "(\<lambda>_. 0)(1000 := 7, 1001 := 8, 1002 := 9)"]
  by (auto simp: bytes_at_def upt_rec)

end
