(* ===== verification/Span.thy ===== *)
theory Span
  imports Bytes
begin

section \<open>Memory spans (klibc/mem/span.h, klibc/mem/span.c)\<close>

text \<open>
  The \<^verbatim>\<open>span\<close> and \<^verbatim>\<open>const_span\<close> structs and their constructors. Both structs have the
  same fields; \<^verbatim>\<open>span_null\<close>, \<^verbatim>\<open>const_span_null\<close> and \<^verbatim>\<open>span_as_const\<close> are macros of the header.
\<close>

record span =
  span_data :: uptr
  span_size :: usize

record const_span =
  cspan_data :: uptr
  cspan_size :: usize

definition span_null :: span where
  "span_null = \<lparr>span_data = 0, span_size = 0\<rparr>"

definition const_span_null :: const_span where
  "const_span_null = \<lparr>cspan_data = 0, cspan_size = 0\<rparr>"

definition span_as_const :: "span \<Rightarrow> const_span" where
  "span_as_const s = \<lparr>cspan_data = span_data s, cspan_size = span_size s\<rparr>"

definition make_span :: "uptr \<Rightarrow> usize \<Rightarrow> span outcome" where
  "make_span data sz = check (data \<noteq> 0 \<and> sz > 0) (Inr \<lparr>span_data = data, span_size = sz\<rparr>)"

definition make_const_span :: "uptr \<Rightarrow> usize \<Rightarrow> const_span outcome" where
  "make_const_span data sz = check (data \<noteq> 0 \<and> sz > 0) (Inr \<lparr>cspan_data = data, cspan_size = sz\<rparr>)"

lemma make_span_eq_Inr [outcome_simps]:
  "make_span d n = Inr s \<longleftrightarrow> d \<noteq> 0 \<and> 0 < n \<and> s = \<lparr>span_data = d, span_size = n\<rparr>"
  by (auto simp: make_span_def outcome_simps)

end
