(* ===== verification/Bitmap.thy ===== *)
theory Bitmap
  imports Span
begin

section \<open>Bitmaps (klibc/collections/bitmap.c)\<close>

text \<open>
  A bitmap is a buffer in memory; bit \<open>b\<close> is bit \<open>7 - b mod 8\<close> (counted from the least
  significant) of byte \<open>b div 8\<close>, because the mask of the source is \<^verbatim>\<open>0b10000000 >> bit_index\<close>.
  \<open>bm_bit\<close> is the abstract content, a predicate on bit numbers. The locale \<open>bit_array\<close> is the
  contract the page allocators rely on; it is interpreted on the bitmap functions below.
\<close>

subsection \<open>Definitions\<close>

record bitmap =
  bm_buffer :: span

definition bitmap_init :: "bitmap \<Rightarrow> span \<Rightarrow> memory \<Rightarrow> (bitmap \<times> memory) outcome" where
  "bitmap_init self buffer m =
     (let self = self\<lparr>bm_buffer := buffer\<rparr> in
      if span_data buffer \<noteq> 0 \<and> span_size buffer > 0
      then rbind (memset (span_data buffer) 0 (span_size buffer) m) (\<lambda>(_, m). Inr (self, m))
      else Inr (self, m))"

text \<open>\<^verbatim>\<open>byte_index\<close> and \<^verbatim>\<open>bitmask\<close>, computed the same way in the three accessors.\<close>

definition byte_index :: "u64 \<Rightarrow> u64" where
  "byte_index b = b div 8"

definition bitmask :: "u64 \<Rightarrow> u8" where
  "bitmask b = (let bit_index = (ucast (b mod 8) :: u8) in drop_bit (unat bit_index) 128)"

definition bitmap_isset :: "bitmap \<Rightarrow> u64 \<Rightarrow> memory \<Rightarrow> bool outcome" where
  "bitmap_isset self b m =
     check (span_data (bm_buffer self) \<noteq> 0 \<and> span_size (bm_buffer self) > 0)
     (let base = span_data (bm_buffer self) in
      check (byte_index b < span_size (bm_buffer self))
      (Inr (m (base + byte_index b) AND bitmask b = bitmask b)))"

definition bitmap_set :: "bitmap \<Rightarrow> u64 \<Rightarrow> memory \<Rightarrow> memory outcome" where
  "bitmap_set self b m =
     check (span_data (bm_buffer self) \<noteq> 0 \<and> span_size (bm_buffer self) > 0)
     (let base = span_data (bm_buffer self) in
      check (byte_index b < span_size (bm_buffer self))
      (Inr (m(base + byte_index b := m (base + byte_index b) OR bitmask b))))"

definition bitmap_clear :: "bitmap \<Rightarrow> u64 \<Rightarrow> memory \<Rightarrow> memory outcome" where
  "bitmap_clear self b m =
     check (span_data (bm_buffer self) \<noteq> 0 \<and> span_size (bm_buffer self) > 0)
     (let base = span_data (bm_buffer self) in
      check (byte_index b < span_size (bm_buffer self))
      (Inr (m(base + byte_index b := m (base + byte_index b) AND NOT (bitmask b)))))"

subsection \<open>Abstract content\<close>

definition bm_base :: "bitmap \<Rightarrow> uptr" where
  "bm_base bm = span_data (bm_buffer bm)"

definition bm_len :: "bitmap \<Rightarrow> nat" where
  "bm_len bm = unat (span_size (bm_buffer bm))"

definition bm_cap :: "bitmap \<Rightarrow> nat" where
  "bm_cap bm = 8 * bm_len bm"

definition bm_wf :: "bitmap \<Rightarrow> bool" where
  "bm_wf bm \<longleftrightarrow> bm_base bm \<noteq> 0 \<and> 0 < bm_len bm \<and> bm_len bm < 2 ^ 60"

definition bm_bit :: "bitmap \<Rightarrow> memory \<Rightarrow> nat \<Rightarrow> bool" where
  "bm_bit bm m i = bit (m (bm_base bm + of_nat (i div 8))) (7 - i mod 8)"

definition bm_same_outside :: "bitmap \<Rightarrow> memory \<Rightarrow> memory \<Rightarrow> bool" where
  "bm_same_outside bm m m' \<longleftrightarrow> (\<forall>x. \<not> in_range (bm_base bm) (bm_len bm) x \<longrightarrow> m' x = m x)"

lemma bm_bit_cong:
  assumes "\<And>x. in_range (bm_base bm) (bm_len bm) x \<Longrightarrow> m' x = m x" "i < bm_cap bm" "bm_wf bm"
  shows "bm_bit bm m' i = bm_bit bm m i"
proof -
  have "i div 8 < bm_len bm" using assms(2) by (auto simp: bm_cap_def)
  then have "in_range (bm_base bm) (bm_len bm) (bm_base bm + of_nat (i div 8))"
    using assms(3) by (intro in_range_add) (auto simp: bm_wf_def)
  with assms(1) show ?thesis by (simp add: bm_bit_def)
qed

lemma bm_same_outside_refl: "bm_same_outside bm m m"
  by (simp add: bm_same_outside_def)

lemma bm_same_outside_trans:
  "bm_same_outside bm m m' \<Longrightarrow> bm_same_outside bm m' m'' \<Longrightarrow> bm_same_outside bm m m''"
  by (simp add: bm_same_outside_def)

subsection \<open>The mask\<close>

lemma bit_bitmask: "i < 2 ^ 64 \<Longrightarrow> bit (bitmask (of_nat i)) k \<longleftrightarrow> k = 7 - i mod 8"
proof -
  assume i: "i < 2 ^ 64"
  have "unat (of_nat i mod 8 :: u64) = i mod 8"
    using i by (simp add: unat_mod unat_of_nat_u64)
  then have "unat (ucast (of_nat i mod 8 :: u64) :: u8) = i mod 8"
    by (subst unat_ucast_less) (simp_all add: less_trans[OF mod_less_divisor])
  moreover have "bit (128 :: u8) n \<longleftrightarrow> n = 7" for n
    using bit_exp_iff[of 7 n, where ?'a = "8 word"] by auto
  ultimately show ?thesis
    by (simp add: bitmask_def bit_drop_bit_eq) (use mod_less_divisor[of 8 i] in arith)
qed

lemma mask_test: "x AND bitmask (of_nat i) = bitmask (of_nat i) \<longleftrightarrow> bit x (7 - i mod 8)"
  if "i < 2 ^ 64" for x :: u8
proof -
  have "x AND bitmask (of_nat i) = bitmask (of_nat i) \<longleftrightarrow>
      (\<forall>k < 8. bit x k \<and> k = 7 - i mod 8 \<longleftrightarrow> k = 7 - i mod 8)"
    using that by (auto simp: bit_eq_iff bit_and_iff bit_bitmask)
  also have "\<dots> \<longleftrightarrow> bit x (7 - i mod 8)"
  proof -
    have "c < 8 \<Longrightarrow> (\<forall>k < 8. bit x k \<and> k = c \<longleftrightarrow> k = c) \<longleftrightarrow> bit x c" for c :: nat by auto
    then show ?thesis by simp
  qed
  finally show ?thesis .
qed

lemma of_nat_div8: "i < 2 ^ 64 \<Longrightarrow> (of_nat i :: u64) div 8 = of_nat (i div 8)"
  by (simp add: word_eq_iff_unat unat_div unat_of_nat_u64)

subsection \<open>Effect of the operations\<close>

text \<open>In range, the accessors do what their names say; out of range, the release assertion fires.\<close>

lemma bm_range: "bm_wf bm \<Longrightarrow> i < bm_cap bm \<Longrightarrow> i < 2 ^ 64 \<and> i div 8 < bm_len bm"
  by (auto simp: bm_wf_def bm_cap_def)

lemma byte_index_in: "i < 2 ^ 64 \<Longrightarrow> byte_index (of_nat i) < span_size (bm_buffer bm) \<longleftrightarrow> i div 8 < bm_len bm"
  by (simp add: byte_index_def of_nat_div8 word_less_nat_alt bm_len_def unat_of_nat_u64)

lemma bitmap_isset_eq:
  assumes "bm_wf bm" "i < bm_cap bm"
  shows "bitmap_isset bm (of_nat i) m = Inr (bm_bit bm m i)"
  using assms bm_range[OF assms] byte_index_in[of i bm]
  by (simp add: bitmap_isset_def bm_wf_def bm_base_def bm_len_def mask_test bm_bit_def
      byte_index_def of_nat_div8 unat_gt_0 word_gt_0 Let_def)

lemma bitmap_oob:
  assumes "bm_wf bm" "bm_cap bm \<le> i" "i < 2 ^ 64"
  shows "bitmap_isset bm (of_nat i) m = Inl AssertFail"
    "bitmap_set bm (of_nat i) m = Inl AssertFail"
    "bitmap_clear bm (of_nat i) m = Inl AssertFail"
proof -
  have "\<not> byte_index (of_nat i) < span_size (bm_buffer bm)"
    using assms byte_index_in[of i bm] by (auto simp: bm_cap_def)
  then show "bitmap_isset bm (of_nat i) m = Inl AssertFail"
    "bitmap_set bm (of_nat i) m = Inl AssertFail"
    "bitmap_clear bm (of_nat i) m = Inl AssertFail"
    by (simp_all add: bitmap_isset_def bitmap_set_def bitmap_clear_def check_def)
qed

text \<open>Two bits are in the same byte exactly when their byte addresses coincide.\<close>

lemma bm_byte_addr_eq:
  assumes "bm_wf bm" "i < bm_cap bm" "j < bm_cap bm"
  shows "bm_base bm + of_nat (i div 8) = bm_base bm + of_nat (j div 8) \<longleftrightarrow> i div 8 = j div 8"
  using bm_range[OF assms(1,2)] bm_range[OF assms(1,3)] assms(1)
  by (simp add: of_nat_eq_u64 bm_wf_def)

lemma bit_pos_eq: "i div 8 = j div 8 \<Longrightarrow> 7 - i mod 8 = 7 - j mod 8 \<longleftrightarrow> i = (j :: nat)"
proof -
  assume d: "i div 8 = j div 8"
  have "i mod 8 < 8" "j mod 8 < 8" by simp_all
  moreover have "i = 8 * (i div 8) + i mod 8" "j = 8 * (j div 8) + j mod 8" by simp_all
  ultimately show ?thesis using d by linarith
qed

lemma bitmap_set_spec:
  assumes "bm_wf bm" "i < bm_cap bm"
  shows "\<exists>m'. bitmap_set bm (of_nat i) m = Inr m' \<and> bm_same_outside bm m m' \<and>
    (\<forall>j < bm_cap bm. bm_bit bm m' j \<longleftrightarrow> j = i \<or> bm_bit bm m j)"
proof -
  let ?a = "bm_base bm + of_nat (i div 8)"
  let ?m = "m(?a := m ?a OR bitmask (of_nat i))"
  note r = bm_range[OF assms]
  have "bitmap_set bm (of_nat i) m = Inr ?m"
    using assms r byte_index_in[of i bm]
    by (simp add: bitmap_set_def bm_wf_def bm_base_def bm_len_def byte_index_def of_nat_div8
        unat_gt_0 word_gt_0 Let_def)
  moreover have "bm_same_outside bm m ?m"
    using r assms(1) by (auto simp: bm_same_outside_def bm_wf_def)
  moreover have "bm_bit bm ?m j \<longleftrightarrow> j = i \<or> bm_bit bm m j" if "j < bm_cap bm" for j
    using bm_byte_addr_eq[OF assms(1) that assms(2)] r bit_pos_eq[of j i]
    by (auto simp: bm_bit_def bit_or_iff bit_bitmask)
  ultimately show ?thesis by blast
qed

lemma bitmap_clear_spec:
  assumes "bm_wf bm" "i < bm_cap bm"
  shows "\<exists>m'. bitmap_clear bm (of_nat i) m = Inr m' \<and> bm_same_outside bm m m' \<and>
    (\<forall>j < bm_cap bm. bm_bit bm m' j \<longleftrightarrow> j \<noteq> i \<and> bm_bit bm m j)"
proof -
  let ?a = "bm_base bm + of_nat (i div 8)"
  let ?m = "m(?a := m ?a AND NOT (bitmask (of_nat i)))"
  note r = bm_range[OF assms]
  have "bitmap_clear bm (of_nat i) m = Inr ?m"
    using assms r byte_index_in[of i bm]
    by (simp add: bitmap_clear_def bm_wf_def bm_base_def bm_len_def byte_index_def of_nat_div8
        unat_gt_0 word_gt_0 Let_def)
  moreover have "bm_same_outside bm m ?m"
    using r assms(1) by (auto simp: bm_same_outside_def bm_wf_def)
  moreover have "bm_bit bm ?m j \<longleftrightarrow> j \<noteq> i \<and> bm_bit bm m j" if "j < bm_cap bm" for j
    using bm_byte_addr_eq[OF assms(1) that assms(2)] r bit_pos_eq[of j i]
    by (auto simp: bm_bit_def bit_and_iff bit_not_iff bit_bitmask)
  ultimately show ?thesis by blast
qed

lemma bitmap_init_spec:
  assumes "span_data buf \<noteq> 0" "span_size buf > 0" "unat (span_size buf) < 2 ^ 60"
  shows "\<exists>bm m'. bitmap_init bm0 buf m = Inr (bm, m') \<and> bm_wf bm \<and> bm_buffer bm = buf \<and>
    bm_same_outside bm m m' \<and> (\<forall>j < bm_cap bm. \<not> bm_bit bm m' j)"
proof -
  let ?bm = "bm0\<lparr>bm_buffer := buf\<rparr>"
  let ?m = "\<lambda>x. if in_range (span_data buf) (unat (span_size buf)) x then 0 else m x"
  have "bitmap_init bm0 buf m = Inr (?bm, ?m)"
    using assms by (simp add: bitmap_init_def memset_eq fun_eq_iff)
  moreover have wf: "bm_wf ?bm" using assms by (simp add: bm_wf_def bm_base_def bm_len_def unat_gt_0 word_gt_0)
  moreover have "bm_same_outside ?bm m ?m"
    by (simp add: bm_same_outside_def bm_base_def bm_len_def)
  moreover have "\<not> bm_bit ?bm ?m j" if "j < bm_cap ?bm" for j
  proof -
    have "bm_bit ?bm ?m j = bm_bit ?bm (\<lambda>_. 0) j"
      using wf that by (intro bm_bit_cong) (simp_all add: bm_base_def bm_len_def)
    then show ?thesis by (simp add: bm_bit_def)
  qed
  ultimately show ?thesis by (intro exI[of _ ?bm] exI[of _ ?m]) simp
qed

subsection \<open>The contract of a bit array\<close>

text \<open>
  \<open>'b\<close> is the handle of the array, \<open>'s\<close> the store its bits live in. Every operation works on
  the bits below the capacity, changes only the named bit, and leaves the rest of the store
  (\<open>same_outside\<close>); at or above the capacity it fails.
\<close>

locale bit_array =
  fixes wf :: "'b \<Rightarrow> bool"
    and cap :: "'b \<Rightarrow> nat"
    and test :: "'b \<Rightarrow> 's \<Rightarrow> nat \<Rightarrow> bool"
    and isset :: "'b \<Rightarrow> nat \<Rightarrow> 's \<Rightarrow> bool outcome"
    and set_bit :: "'b \<Rightarrow> nat \<Rightarrow> 's \<Rightarrow> 's outcome"
    and clear_bit :: "'b \<Rightarrow> nat \<Rightarrow> 's \<Rightarrow> 's outcome"
    and same_outside :: "'b \<Rightarrow> 's \<Rightarrow> 's \<Rightarrow> bool"
  assumes isset_test: "wf b \<Longrightarrow> i < cap b \<Longrightarrow> isset b i s = Inr (test b s i)"
    and set_spec: "wf b \<Longrightarrow> i < cap b \<Longrightarrow> \<exists>s'. set_bit b i s = Inr s' \<and> same_outside b s s' \<and>
      (\<forall>j < cap b. test b s' j \<longleftrightarrow> j = i \<or> test b s j)"
    and clear_spec: "wf b \<Longrightarrow> i < cap b \<Longrightarrow> \<exists>s'. clear_bit b i s = Inr s' \<and> same_outside b s s' \<and>
      (\<forall>j < cap b. test b s' j \<longleftrightarrow> j \<noteq> i \<and> test b s j)"
    and outside_refl: "same_outside b s s"
    and outside_trans: "same_outside b s s' \<Longrightarrow> same_outside b s' s'' \<Longrightarrow> same_outside b s s''"
begin

text \<open>Marking or clearing a range of bits one by one, as both page allocators do.\<close>

lemma set_range:
  assumes "wf b" "p + n \<le> cap b"
  shows "\<exists>s'. for_r (\<lambda>k s. set_bit b (p + k) s) [0..<n] s = Inr s' \<and> same_outside b s s' \<and>
    (\<forall>j < cap b. test b s' j \<longleftrightarrow> (p \<le> j \<and> j < p + n) \<or> test b s j)"
proof (rule for_r_rule)
  show "same_outside b s s \<and> (\<forall>j < cap b. test b s j \<longleftrightarrow> (p \<le> j \<and> j < p + 0) \<or> test b s j)"
    by (auto simp: outside_refl)
next
  fix k t
  assume k: "k < n" and I: "same_outside b s t \<and>
    (\<forall>j < cap b. test b t j \<longleftrightarrow> (p \<le> j \<and> j < p + k) \<or> test b s j)"
  from k assms(2) have "p + k < cap b" by simp
  from set_spec[OF assms(1) this, of t] obtain t' where
    t': "set_bit b (p + k) t = Inr t'" "same_outside b t t'"
    "\<forall>j < cap b. test b t' j \<longleftrightarrow> j = p + k \<or> test b t j" by blast
  have "\<forall>j < cap b. test b t' j \<longleftrightarrow> (p \<le> j \<and> j < p + Suc k) \<or> test b s j"
    using I t'(3) by (auto simp: less_Suc_eq)
  with t' I show "\<exists>t'. set_bit b (p + k) t = Inr t' \<and> same_outside b s t' \<and>
      (\<forall>j < cap b. test b t' j \<longleftrightarrow> (p \<le> j \<and> j < p + Suc k) \<or> test b s j)"
    by (blast intro: outside_trans)
qed

lemma clear_range:
  assumes "wf b" "p + n \<le> cap b"
  shows "\<exists>s'. for_r (\<lambda>k s. clear_bit b (p + k) s) [0..<n] s = Inr s' \<and> same_outside b s s' \<and>
    (\<forall>j < cap b. test b s' j \<longleftrightarrow> \<not> (p \<le> j \<and> j < p + n) \<and> test b s j)"
proof (rule for_r_rule)
  show "same_outside b s s \<and> (\<forall>j < cap b. test b s j \<longleftrightarrow> \<not> (p \<le> j \<and> j < p + 0) \<and> test b s j)"
    by (auto simp: outside_refl)
next
  fix k t
  assume k: "k < n" and I: "same_outside b s t \<and>
    (\<forall>j < cap b. test b t j \<longleftrightarrow> \<not> (p \<le> j \<and> j < p + k) \<and> test b s j)"
  from k assms(2) have "p + k < cap b" by simp
  from clear_spec[OF assms(1) this, of t] obtain t' where
    t': "clear_bit b (p + k) t = Inr t'" "same_outside b t t'"
    "\<forall>j < cap b. test b t' j \<longleftrightarrow> j \<noteq> p + k \<and> test b t j" by blast
  have "\<forall>j < cap b. test b t' j \<longleftrightarrow> \<not> (p \<le> j \<and> j < p + Suc k) \<and> test b s j"
    using I t'(3) by (auto simp: less_Suc_eq)
  with t' I show "\<exists>t'. clear_bit b (p + k) t = Inr t' \<and> same_outside b s t' \<and>
      (\<forall>j < cap b. test b t' j \<longleftrightarrow> \<not> (p \<le> j \<and> j < p + Suc k) \<and> test b s j)"
    by (blast intro: outside_trans)
qed

end

interpretation bm: bit_array bm_wf bm_cap bm_bit
  "\<lambda>b i. bitmap_isset b (of_nat i)" "\<lambda>b i. bitmap_set b (of_nat i)" "\<lambda>b i. bitmap_clear b (of_nat i)"
  bm_same_outside
  by unfold_locales
    (fact bitmap_isset_eq bitmap_set_spec bitmap_clear_spec bm_same_outside_refl
      bm_same_outside_trans)+

subsection \<open>Properties\<close>

text \<open>
  Setting and clearing a bit of a bitmap is read back by \<^verbatim>\<open>bitmap_isset\<close>: after
  \<^verbatim>\<open>bitmap_set\<close> of bit \<open>i\<close>, bit \<open>j\<close> reads as set if \<open>j = i\<close> and as before otherwise, and
  \<^verbatim>\<open>bitmap_clear\<close> of the same bit then makes it read as unset; bytes outside the buffer are
  never written, and a bit at or above the capacity stops at the assertion.
\<close>

theorem bitmap_set_clear_read:
  assumes "bm_wf bm" "i < bm_cap bm" "j < bm_cap bm"
  shows "\<exists>m1 m2. bitmap_set bm (of_nat i) m = Inr m1 \<and> bitmap_clear bm (of_nat i) m1 = Inr m2 \<and>
    bm_same_outside bm m m1 \<and> bm_same_outside bm m m2 \<and>
    bitmap_isset bm (of_nat j) m1 = Inr (j = i \<or> bm_bit bm m j) \<and>
    bitmap_isset bm (of_nat j) m2 = Inr (j \<noteq> i \<and> bm_bit bm m j) \<and>
    bitmap_isset bm (of_nat (bm_cap bm)) m = Inl AssertFail"
proof -
  obtain m1 where m1: "bitmap_set bm (of_nat i) m = Inr m1" "bm_same_outside bm m m1"
    "bm_bit bm m1 j \<longleftrightarrow> j = i \<or> bm_bit bm m j"
    using bitmap_set_spec[OF assms(1,2), of m] assms(3) by auto
  obtain m2 where m2: "bitmap_clear bm (of_nat i) m1 = Inr m2" "bm_same_outside bm m1 m2"
    "bm_bit bm m2 j \<longleftrightarrow> j \<noteq> i \<and> bm_bit bm m1 j"
    using bitmap_clear_spec[OF assms(1,2), of m1] assms(3) by auto
  have "bitmap_isset bm (of_nat (bm_cap bm)) m = Inl AssertFail"
    using assms(1) by (intro bitmap_oob) (auto simp: bm_cap_def bm_wf_def)
  with m1 m2 bm_same_outside_trans[OF m1(2) m2(2)] show ?thesis
    by (auto simp: bitmap_isset_eq[OF assms(1,3)])
qed

theorem bitmap_set_clear_read_witness:
  "\<exists>m1 m2. bitmap_set \<lparr>bm_buffer = \<lparr>span_data = 4096, span_size = 2\<rparr>\<rparr> 9 (\<lambda>_. 0) = Inr m1 \<and>
    bitmap_clear \<lparr>bm_buffer = \<lparr>span_data = 4096, span_size = 2\<rparr>\<rparr> 9 m1 = Inr m2 \<and>
    bitmap_isset \<lparr>bm_buffer = \<lparr>span_data = 4096, span_size = 2\<rparr>\<rparr> 9 m1 = Inr True \<and>
    bitmap_isset \<lparr>bm_buffer = \<lparr>span_data = 4096, span_size = 2\<rparr>\<rparr> 9 m2 = Inr False"
  using bitmap_set_clear_read[of "\<lparr>bm_buffer = \<lparr>span_data = 4096, span_size = 2\<rparr>\<rparr>" 9 9 "\<lambda>_. 0"]
  by (auto simp: bm_wf_def bm_base_def bm_len_def bm_cap_def)

end
