(* ===== verification/Lock.thy ===== *)
theory Lock
  imports Prelude
begin

section \<open>Spinlocks and syncpoints (klibc/sync/lock.c)\<close>

text \<open>
  Two views of the spinlock.
  \<^item> Inside the kernel's operations, which the other theories model one at a time, a lock is
    a flag: acquiring a free lock sets it, and acquiring a lock that is held spins for ever
    because no other code runs in between (\<open>Inl Deadlock\<close>). Every operation's lemmas then
    show that it gives back the lock it took.
  \<^item> Between CPUs the acquire loop is a machine whose atomic steps interleave: \<open>spin_step\<close>
    is one atomic access of one CPU to the flag, and mutual exclusion is an invariant of the
    reachable states.
  The syncpoint is the barrier the bootstrap CPU waits on (\<^verbatim>\<open>main.c\<close>).
\<close>

subsection \<open>Definitions\<close>

record spinlock =
  lock_val :: bool

definition spinlock_init :: "spinlock \<Rightarrow> spinlock" where
  "spinlock_init self = self\<lparr>lock_val := False\<rparr>"

definition spinlock_acquire :: "spinlock \<Rightarrow> spinlock outcome" where
  "spinlock_acquire self =
     (if \<not> lock_val self then Inr (self\<lparr>lock_val := True\<rparr>) else Inl Deadlock)"

definition spinlock_try_acquire :: "spinlock \<Rightarrow> bool \<times> spinlock" where
  "spinlock_try_acquire self =
     (if lock_val self then (False, self) else (True, self\<lparr>lock_val := True\<rparr>))"

definition spinlock_release :: "spinlock \<Rightarrow> spinlock" where
  "spinlock_release self = self\<lparr>lock_val := False\<rparr>"

abbreviation unlocked :: spinlock where
  "unlocked \<equiv> \<lparr>lock_val = False\<rparr>"

abbreviation locked :: spinlock where
  "locked \<equiv> \<lparr>lock_val = True\<rparr>"

lemma spinlock_simps [simp]:
  "spinlock_init l = unlocked" "spinlock_acquire unlocked = Inr locked"
  "spinlock_acquire locked = Inl Deadlock" "spinlock_release l = unlocked"
  by (simp_all add: spinlock_init_def spinlock_acquire_def spinlock_release_def)

lemma spinlock_acquire_eq_Inr [outcome_simps]:
  "spinlock_acquire l = Inr l' \<longleftrightarrow> l = unlocked \<and> l' = locked"
  by (cases l) (auto simp: spinlock_acquire_def)

text \<open>Syncpoints.\<close>

record syncpoint =
  sp_lock :: spinlock
  remaining :: usize

definition syncpoint_init :: "syncpoint \<Rightarrow> syncpoint" where
  "syncpoint_init self = self\<lparr>sp_lock := spinlock_init (sp_lock self), remaining := 0\<rparr>"

definition syncpoint_set :: "usize \<Rightarrow> syncpoint \<Rightarrow> syncpoint outcome" where
  "syncpoint_set count self =
     rbind (spinlock_acquire (sp_lock self)) (\<lambda>l.
     let self = self\<lparr>sp_lock := l, remaining := count\<rparr> in
     Inr (self\<lparr>sp_lock := spinlock_release (sp_lock self)\<rparr>))"

definition syncpoint_notify :: "syncpoint \<Rightarrow> syncpoint outcome" where
  "syncpoint_notify self =
     rbind (spinlock_acquire (sp_lock self)) (\<lambda>l.
     let self = self\<lparr>sp_lock := l\<rparr>;
         self = (if remaining self > 0 then self\<lparr>remaining := remaining self - 1\<rparr> else self) in
     Inr (self\<lparr>sp_lock := spinlock_release (sp_lock self)\<rparr>))"

text \<open>One turn of the polling loop: the count it reads, and the state after it.\<close>

definition syncpoint_poll :: "syncpoint \<Rightarrow> (usize \<times> syncpoint) outcome" where
  "syncpoint_poll self =
     rbind (spinlock_acquire (sp_lock self)) (\<lambda>l.
     let self = self\<lparr>sp_lock := l\<rparr>; count = remaining self in
     Inr (count, self\<lparr>sp_lock := spinlock_release (sp_lock self)\<rparr>))"

text \<open>
  The loop of \<^verbatim>\<open>syncpoint_wait\<close> against an environment: the list says, for each turn, how
  many other CPUs notify before the next turn. The result is the number of turns after which
  the loop returned, or \<open>None\<close> if it was still waiting when the list ended.
\<close>

fun notify_times :: "nat \<Rightarrow> syncpoint \<Rightarrow> syncpoint outcome" where
  "notify_times 0 s = Inr s"
| "notify_times (Suc n) s = rbind (syncpoint_notify s) (notify_times n)"

fun syncpoint_wait :: "nat list \<Rightarrow> syncpoint \<Rightarrow> (nat option \<times> syncpoint) outcome" where
  "syncpoint_wait env s =
     rbind (syncpoint_poll s) (\<lambda>(count, s).
     if count = 0 then Inr (Some (length env), s)
     else (case env of
         [] \<Rightarrow> Inr (None, s)
       | n # env' \<Rightarrow> rbind (notify_times n s) (syncpoint_wait env')))"

declare syncpoint_wait.simps [simp del]

subsection \<open>The barrier\<close>

lemma syncpoint_poll_eq [simp]: "sp_lock s = unlocked \<Longrightarrow> syncpoint_poll s = Inr (remaining s, s)"
  by (simp add: syncpoint_poll_def Let_def)

lemma syncpoint_notify_eq:
  "sp_lock s = unlocked \<Longrightarrow> syncpoint_notify s = Inr (s\<lparr>remaining := of_nat (unat (remaining s) - 1)\<rparr>)"
proof -
  assume u: "sp_lock s = unlocked"
  have "remaining s > 0 \<Longrightarrow> remaining s - 1 = of_nat (unat (remaining s) - 1)"
    by (metis unat_minus_one word_gt_0 of_nat_unat ucast_id)
  then show ?thesis using u
    by (cases s) (auto simp: syncpoint_notify_def Let_def word_gt_0)
qed

lemma notify_times_eq:
  "sp_lock s = unlocked \<Longrightarrow>
    notify_times n s = Inr (s\<lparr>remaining := of_nat (unat (remaining s) - n)\<rparr>)"
proof (induction n arbitrary: s)
  case (Suc n)
  have "unat (remaining s) - 1 < 2 ^ 64" using unat_lt_u64[of "remaining s"] by simp
  with Suc show ?case by (simp add: syncpoint_notify_eq unat_of_nat_u64)
qed simp

text \<open>
  The wait loop returns at the first turn at which as many notifications have arrived as the
  count demanded, and keeps waiting as long as fewer have.
\<close>

lemma syncpoint_wait_enough:
  assumes "sp_lock s = unlocked" "unat (remaining s) \<le> sum_list env"
  shows "\<exists>k s'. syncpoint_wait env s = Inr (Some k, s') \<and> sp_lock s' = unlocked \<and> remaining s' = 0"
  using assms
proof (induction env arbitrary: s)
  case Nil
  then have "remaining s = 0" by (simp add: unat_eq_0)
  with Nil.prems(1) show ?case by (simp add: syncpoint_wait.simps)
next
  case (Cons n env)
  show ?case
  proof (cases "remaining s = 0")
    case True
    with Cons.prems(1) show ?thesis by (simp add: syncpoint_wait.simps)
  next
    case False
    let ?s = "s\<lparr>remaining := of_nat (unat (remaining s) - n)\<rparr>"
    have "unat (remaining ?s) = unat (remaining s) - n"
      using unat_lt_u64[of "remaining s"] by (simp add: unat_of_nat_u64)
    then have "\<exists>k s'. syncpoint_wait env ?s = Inr (Some k, s') \<and> sp_lock s' = unlocked \<and> remaining s' = 0"
      using Cons.prems by (intro Cons.IH) simp_all
    then show ?thesis using False Cons.prems(1)
      by (simp add: syncpoint_wait.simps[of "n # env"] notify_times_eq)
  qed
qed

lemma syncpoint_wait_too_few:
  assumes "sp_lock s = unlocked" "sum_list env < unat (remaining s)"
  shows "\<exists>s'. syncpoint_wait env s = Inr (None, s') \<and> unat (remaining s') = unat (remaining s) - sum_list env"
  using assms
proof (induction env arbitrary: s)
  case Nil
  then show ?case by (auto simp: syncpoint_wait.simps)
next
  case (Cons n env)
  let ?s = "s\<lparr>remaining := of_nat (unat (remaining s) - n)\<rparr>"
  have r: "unat (remaining ?s) = unat (remaining s) - n"
    using unat_lt_u64[of "remaining s"] by (simp add: unat_of_nat_u64)
  then have "\<exists>s'. syncpoint_wait env ?s = Inr (None, s') \<and> unat (remaining s') = unat (remaining ?s) - sum_list env"
    using Cons.prems by (intro Cons.IH) simp_all
  moreover have "remaining s \<noteq> 0" using Cons.prems(2) by auto
  ultimately show ?case using Cons.prems r
    by (simp add: syncpoint_wait.simps[of "n # env"] notify_times_eq)
qed

subsection \<open>Interleaved acquisition by several CPUs\<close>

text \<open>
  Where a CPU is in the code: outside, before the atomic exchange of \<^verbatim>\<open>spinlock_acquire\<close>, in
  its relaxed-load loop, before the load and before the exchange of
  \<^verbatim>\<open>spinlock_try_acquire\<close>, or past a successful acquisition.
\<close>

datatype spin_pc = Outside | AtExchange | AtLoad | TryLoad | TryExchange | Holding

record spin_sys =
  flag :: bool
  pcs :: "nat \<Rightarrow> spin_pc"

definition spin_init :: spin_sys where
  "spin_init = \<lparr>flag = lock_val (spinlock_init unlocked), pcs = (\<lambda>_. Outside)\<rparr>"

inductive spin_step :: "spin_sys \<Rightarrow> spin_sys \<Rightarrow> bool" where
  call_acquire: "pcs s i = Outside \<Longrightarrow> spin_step s (s\<lparr>pcs := (pcs s)(i := AtExchange)\<rparr>)"
| exchange_free: "pcs s i = AtExchange \<Longrightarrow> \<not> flag s \<Longrightarrow>
    spin_step s (s\<lparr>flag := True, pcs := (pcs s)(i := Holding)\<rparr>)"
| exchange_held: "pcs s i = AtExchange \<Longrightarrow> flag s \<Longrightarrow>
    spin_step s (s\<lparr>flag := True, pcs := (pcs s)(i := AtLoad)\<rparr>)"
| load_held: "pcs s i = AtLoad \<Longrightarrow> flag s \<Longrightarrow> spin_step s s"
| load_free: "pcs s i = AtLoad \<Longrightarrow> \<not> flag s \<Longrightarrow>
    spin_step s (s\<lparr>pcs := (pcs s)(i := AtExchange)\<rparr>)"
| call_try: "pcs s i = Outside \<Longrightarrow> spin_step s (s\<lparr>pcs := (pcs s)(i := TryLoad)\<rparr>)"
| try_load_held: "pcs s i = TryLoad \<Longrightarrow> flag s \<Longrightarrow>
    spin_step s (s\<lparr>pcs := (pcs s)(i := Outside)\<rparr>)"
| try_load_free: "pcs s i = TryLoad \<Longrightarrow> \<not> flag s \<Longrightarrow>
    spin_step s (s\<lparr>pcs := (pcs s)(i := TryExchange)\<rparr>)"
| try_exchange_free: "pcs s i = TryExchange \<Longrightarrow> \<not> flag s \<Longrightarrow>
    spin_step s (s\<lparr>flag := True, pcs := (pcs s)(i := Holding)\<rparr>)"
| try_exchange_held: "pcs s i = TryExchange \<Longrightarrow> flag s \<Longrightarrow>
    spin_step s (s\<lparr>flag := True, pcs := (pcs s)(i := Outside)\<rparr>)"
| release: "pcs s i = Holding \<Longrightarrow>
    spin_step s (s\<lparr>flag := False, pcs := (pcs s)(i := Outside)\<rparr>)"

inductive spin_reachable :: "spin_sys \<Rightarrow> bool" where
  spin_start: "spin_reachable spin_init"
| spin_more: "spin_reachable s \<Longrightarrow> spin_step s t \<Longrightarrow> spin_reachable t"

inductive_cases spin_stepE: "spin_step s t"

text \<open>The flag is set exactly while some CPU holds the lock, and then only one does.\<close>

definition spin_inv :: "spin_sys \<Rightarrow> bool" where
  "spin_inv s \<longleftrightarrow> (flag s \<longleftrightarrow> (\<exists>i. pcs s i = Holding)) \<and>
    (\<forall>i j. pcs s i = Holding \<longrightarrow> pcs s j = Holding \<longrightarrow> i = j)"

lemma spin_inv_init: "spin_inv spin_init"
  by (simp add: spin_inv_def spin_init_def)

lemma spin_inv_holding:
  "spin_inv s \<Longrightarrow> pcs s i = Holding \<Longrightarrow> flag s \<and> (\<forall>j. pcs s j = Holding \<longrightarrow> j = i)"
  by (auto simp: spin_inv_def)

lemma spin_inv_move:
  "spin_inv s \<Longrightarrow> pcs s i \<noteq> Holding \<Longrightarrow> p \<noteq> Holding \<Longrightarrow> spin_inv (s\<lparr>pcs := (pcs s)(i := p)\<rparr>)"
  unfolding spin_inv_def by (simp add: fun_upd_def) metis

lemma spin_inv_take:
  "spin_inv s \<Longrightarrow> \<not> flag s \<Longrightarrow> spin_inv (s\<lparr>flag := True, pcs := (pcs s)(i := Holding)\<rparr>)"
  by (auto simp: spin_inv_def)

lemma spin_inv_give:
  "spin_inv s \<Longrightarrow> pcs s i = Holding \<Longrightarrow> spin_inv (s\<lparr>flag := False, pcs := (pcs s)(i := Outside)\<rparr>)"
  by (auto simp: spin_inv_def)

lemma spin_set_flag: "flag s \<Longrightarrow> s\<lparr>flag := True, pcs := p\<rparr> = s\<lparr>pcs := p\<rparr>"
  by simp

lemma spin_step_inv: "spin_step s t \<Longrightarrow> spin_inv s \<Longrightarrow> spin_inv t"
  by (erule spin_stepE) (auto simp: spin_set_flag intro: spin_inv_move spin_inv_take spin_inv_give)

lemma spin_reachable_inv: "spin_reachable s \<Longrightarrow> spin_inv s"
  by (induction rule: spin_reachable.induct) (auto intro: spin_inv_init spin_step_inv)

text \<open>A CPU that is about to exchange always can, and gets the lock if it is free.\<close>

lemma spin_exchange_progress:
  "pcs s i = AtExchange \<Longrightarrow> \<exists>t. spin_step s t \<and> (pcs t i = Holding \<longleftrightarrow> \<not> flag s)"
  by (cases "flag s") (force intro: exchange_free exchange_held)+

subsection \<open>Properties\<close>

text \<open>
  C3: Mutual exclusion. In every state that any number of CPUs can reach by interleaving the
  atomic accesses of \<^verbatim>\<open>spinlock_acquire\<close>, \<^verbatim>\<open>spinlock_try_acquire\<close> and
  \<^verbatim>\<open>spinlock_release\<close>, at most one CPU is past an acquisition, and the flag is set exactly
  while one is.
\<close>

theorem spinlock_mutual_exclusion:
  assumes "spin_reachable s"
  shows "(flag s \<longleftrightarrow> (\<exists>i. pcs s i = Holding)) \<and>
    (\<forall>i j. pcs s i = Holding \<and> pcs s j = Holding \<longrightarrow> i = j)"
  using spin_reachable_inv[OF assms] by (simp add: spin_inv_def)

theorem spinlock_mutual_exclusion_witness:
  "\<exists>s. spin_reachable s \<and> pcs s 0 = Holding \<and> (\<forall>j. pcs s j = Holding \<longrightarrow> j = 0)"
proof -
  let ?s1 = "spin_init\<lparr>pcs := (pcs spin_init)(0 := AtExchange)\<rparr>"
  let ?s2 = "?s1\<lparr>flag := True, pcs := (pcs ?s1)(0 := Holding)\<rparr>"
  have "spin_step spin_init ?s1" by (rule call_acquire) (simp add: spin_init_def)
  then have "spin_reachable ?s1" by (rule spin_more[OF spin_start])
  moreover have "spin_step ?s1 ?s2" by (rule exchange_free) (simp_all add: spin_init_def)
  ultimately have r: "spin_reachable ?s2" by (rule spin_more)
  moreover have "pcs ?s2 0 = Holding" by simp
  moreover have "\<forall>j. pcs ?s2 j = Holding \<longrightarrow> j = 0"
    using spinlock_mutual_exclusion[OF r] \<open>pcs ?s2 0 = Holding\<close> by blast
  ultimately show ?thesis by blast
qed

text \<open>
  A syncpoint set to \<open>c\<close> is a barrier for \<open>c\<close> notifications: however they are spread over
  the turns of the polling loop, \<^verbatim>\<open>syncpoint_wait\<close> returns if at least \<open>c\<close> arrive, and is
  still waiting with the difference outstanding if fewer do.
\<close>

theorem syncpoint_barrier:
  assumes "sp_lock s = unlocked"
  shows "\<exists>s0. syncpoint_set c s = Inr s0 \<and>
    (if unat c \<le> sum_list env
     then \<exists>k s'. syncpoint_wait env s0 = Inr (Some k, s') \<and> remaining s' = 0
     else \<exists>s'. syncpoint_wait env s0 = Inr (None, s') \<and> unat (remaining s') = unat c - sum_list env)"
proof -
  let ?s0 = "s\<lparr>sp_lock := unlocked, remaining := c\<rparr>"
  have "syncpoint_set c s = Inr ?s0" using assms by (simp add: syncpoint_set_def Let_def)
  then show ?thesis
    using syncpoint_wait_enough[of ?s0 env] syncpoint_wait_too_few[of ?s0 env] by auto
qed

theorem syncpoint_barrier_witness:
  "\<exists>s0. syncpoint_set 3 \<lparr>sp_lock = unlocked, remaining = 0\<rparr> = Inr s0 \<and>
    (\<exists>k s'. syncpoint_wait [1, 0, 2] s0 = Inr (Some k, s') \<and> remaining s' = 0)"
  using syncpoint_barrier[of "\<lparr>sp_lock = unlocked, remaining = 0\<rparr>" 3 "[1, 0, 2]"] by simp

end
