(* ===== verification/Pmm.thy ===== *)
theory Pmm
  imports Align Bitmap Lock
begin

section \<open>Physical memory: HHDM and page allocator (kernel/mem/hhdm.c, kernel/mem/pmm.c)\<close>

text \<open>
  The machine state the memory components share: the byte memory as the kernel addresses it,
  the boot loader's responses (the \<^verbatim>\<open>HHDM\<close> offset and the memory map, which the page allocator
  modifies), and the page allocator's static instance. The record is extended by the components
  built on it, so every operation here works on any extension of it.

  The allocator keeps one bit per physical page in a bitmap that itself lives in physical
  memory, inside a range taken from the memory map. \<open>pmm_inv\<close> is its invariant: in particular
  the pages under the bitmap are marked as allocated, so clearing a fresh page never damages it.
\<close>

subsection \<open>State\<close>

datatype memmap_type =
    LIMINE_MEMMAP_USABLE
  | LIMINE_MEMMAP_BOOTLOADER_RECLAIMABLE
  | LIMINE_MEMMAP_EXECUTABLE_AND_MODULES
  | LIMINE_MEMMAP_OTHER

record memmap_entry =
  entry_base :: u64
  entry_length :: u64
  entry_type :: memmap_type

record pmm =
  pmm_lock :: spinlock
  highest_page :: uptr
  allocated_pages :: bitmap

record machine =
  mem :: memory
  hhdm_resp :: "u64 option"
  memmap_resp :: "memmap_entry list option"
  pmm_inst :: pmm

abbreviation MM_PHYS_PAGE_SIZE :: u64 where
  "MM_PHYS_PAGE_SIZE \<equiv> 4096"

subsection \<open>The higher-half direct map\<close>

definition hhdm_p2v :: "u64 \<Rightarrow> 'a machine_scheme \<Rightarrow> u64 outcome" where
  "hhdm_p2v pa s = (case hhdm_resp s of None \<Rightarrow> Inl AssertFail | Some off \<Rightarrow> Inr (pa + off))"

definition hhdm_v2p :: "u64 \<Rightarrow> 'a machine_scheme \<Rightarrow> u64 outcome" where
  "hhdm_v2p va s = (case hhdm_resp s of None \<Rightarrow> Inl AssertFail | Some off \<Rightarrow> Inr (va - off))"

subsection \<open>Operations of the page allocator\<close>

definition pmm_init :: "'a machine_scheme \<Rightarrow> ('a machine_scheme) outcome" where
  "pmm_init s =
     (let inst = (pmm_inst s)\<lparr>pmm_lock := spinlock_init (pmm_lock (pmm_inst s))\<rparr> in
      rbind (bitmap_init (allocated_pages inst) span_null (mem s)) (\<lambda>(bm, m).
      Inr (s\<lparr>mem := m, pmm_inst := inst\<lparr>allocated_pages := bm\<rparr>\<rparr>)))"

text \<open>The body of the loop of \<^verbatim>\<open>pmm__find_highest_page\<close>, for one entry.\<close>

definition raise_highest :: "memmap_entry \<Rightarrow> 'a machine_scheme \<Rightarrow> 'a machine_scheme" where
  "raise_highest e s =
     (if entry_type e \<in> {LIMINE_MEMMAP_USABLE, LIMINE_MEMMAP_BOOTLOADER_RECLAIMABLE,
          LIMINE_MEMMAP_EXECUTABLE_AND_MODULES}
      then (let page = entry_base e + entry_length e in
        if page > highest_page (pmm_inst s)
        then s\<lparr>pmm_inst := (pmm_inst s)\<lparr>highest_page := page\<rparr>\<rparr> else s)
      else s)"

definition pmm__find_highest_page :: "'a machine_scheme \<Rightarrow> ('a machine_scheme) outcome" where
  "pmm__find_highest_page s =
     (case memmap_resp s of
        None \<Rightarrow> Inl NullDeref
      | Some entries \<Rightarrow> Inr (fold raise_highest entries s))"

definition pmm__get_page_count :: "pmm \<Rightarrow> usize outcome" where
  "pmm__get_page_count self =
     rbind (align_ptr_down (highest_page self) MM_PHYS_PAGE_SIZE) (\<lambda>top.
     Inr (top div MM_PHYS_PAGE_SIZE))"

text \<open>The loop of \<^verbatim>\<open>pmm__reserve_bitmap\<close>: \<open>idx\<close> is the index of the first entry of the rest.\<close>

fun pmm__reserve_loop ::
    "usize \<Rightarrow> nat \<Rightarrow> memmap_entry list \<Rightarrow> 'a machine_scheme \<Rightarrow> ('a machine_scheme) outcome" where
  "pmm__reserve_loop bitmap_size idx [] s = Inl Panic"
| "pmm__reserve_loop bitmap_size idx (e # es) s =
     (if entry_type e = LIMINE_MEMMAP_USABLE \<and> entry_length e \<ge> bitmap_size then
        rbind (hhdm_p2v (entry_base e) s) (\<lambda>bitmap_vaddr.
        let e' = e\<lparr>entry_base := entry_base e + bitmap_size,
                   entry_length := entry_length e - bitmap_size\<rparr>;
            s = s\<lparr>memmap_resp := map_option (\<lambda>es. es[idx := e']) (memmap_resp s)\<rparr> in
        rbind (make_span bitmap_vaddr bitmap_size) (\<lambda>buf.
        rbind (bitmap_init (allocated_pages (pmm_inst s)) buf (mem s)) (\<lambda>(bm, m).
        Inr (s\<lparr>mem := m, pmm_inst := (pmm_inst s)\<lparr>allocated_pages := bm\<rparr>\<rparr>))))
      else pmm__reserve_loop bitmap_size (Suc idx) es s)"

definition pmm__reserve_bitmap :: "'a machine_scheme \<Rightarrow> ('a machine_scheme) outcome" where
  "pmm__reserve_bitmap s =
     (case memmap_resp s of
        None \<Rightarrow> Inl NullDeref
      | Some entries \<Rightarrow>
          rbind (pmm__get_page_count (pmm_inst s)) (\<lambda>count.
          rbind (align_size_up (count div 8) MM_PHYS_PAGE_SIZE) (\<lambda>bitmap_size.
          pmm__reserve_loop bitmap_size 0 entries s)))"

fun pmm__available_loop :: "uptr \<Rightarrow> memmap_entry list \<Rightarrow> bool" where
  "pmm__available_loop page_addr [] = False"
| "pmm__available_loop page_addr (e # es) =
     (if page_addr \<ge> entry_base e \<and>
         page_addr + MM_PHYS_PAGE_SIZE \<le> entry_base e + entry_length e
      then entry_type e = LIMINE_MEMMAP_USABLE
      else pmm__available_loop page_addr es)"

definition pmm__is_page_available :: "uptr \<Rightarrow> 'a machine_scheme \<Rightarrow> bool outcome" where
  "pmm__is_page_available page_addr s =
     (case memmap_resp s of
        None \<Rightarrow> Inl NullDeref
      | Some entries \<Rightarrow> Inr (pmm__available_loop page_addr entries))"

definition pmm__scan_bitmap :: "'a machine_scheme \<Rightarrow> ('a machine_scheme) outcome" where
  "pmm__scan_bitmap s =
     rbind (pmm__get_page_count (pmm_inst s)) (\<lambda>page_count.
     for_r (\<lambda>page s.
       rbind (pmm__is_page_available (of_nat page * MM_PHYS_PAGE_SIZE) s) (\<lambda>avail.
       if \<not> avail then
         rbind (bitmap_set (allocated_pages (pmm_inst s)) (of_nat page) (mem s)) (\<lambda>m.
         Inr (s\<lparr>mem := m\<rparr>))
       else Inr s)) [0..<unat page_count] s)"

definition pmm__mark_pages :: "u64 \<Rightarrow> usize \<Rightarrow> 'a machine_scheme \<Rightarrow> ('a machine_scheme) outcome" where
  "pmm__mark_pages page len s =
     rbind (for_r (\<lambda>offset m. bitmap_set (allocated_pages (pmm_inst s)) (page + of_nat offset) m)
       [0..<unat len] (mem s)) (\<lambda>m.
     Inr (s\<lparr>mem := m\<rparr>))"

definition pmm_acquire :: "'a machine_scheme \<Rightarrow> ('a machine_scheme) outcome" where
  "pmm_acquire s = rbind (spinlock_acquire (pmm_lock (pmm_inst s))) (\<lambda>l.
     Inr (s\<lparr>pmm_inst := (pmm_inst s)\<lparr>pmm_lock := l\<rparr>\<rparr>))"

definition pmm_unlock :: "'a machine_scheme \<Rightarrow> 'a machine_scheme" where
  "pmm_unlock s = s\<lparr>pmm_inst := (pmm_inst s)\<lparr>pmm_lock := spinlock_release (pmm_lock (pmm_inst s))\<rparr>\<rparr>"

definition pmm__clear_pages :: "u64 \<Rightarrow> usize \<Rightarrow> 'a machine_scheme \<Rightarrow> ('a machine_scheme) outcome" where
  "pmm__clear_pages page len s =
     rbind (pmm_acquire s) (\<lambda>s.
     rbind (for_r (\<lambda>offset m. bitmap_clear (allocated_pages (pmm_inst s)) (page + of_nat offset) m)
       [0..<unat len] (mem s)) (\<lambda>m.
     Inr (pmm_unlock (s\<lparr>mem := m\<rparr>))))"

definition pmm_load :: "'a machine_scheme \<Rightarrow> ('a machine_scheme) outcome" where
  "pmm_load s =
     check (memmap_resp s \<noteq> None)
     (rbind (pmm__find_highest_page s) (\<lambda>s.
      rbind (pmm__reserve_bitmap s) (\<lambda>s.
      pmm__scan_bitmap s)))"

text \<open>
  The two loops of \<^verbatim>\<open>pmm_try_alloc\<close>. In the inner one \<open>left\<close> counts the turns that remain, so
  \<^verbatim>\<open>page_offset == page_count - 1\<close> is \<open>left = 0\<close> after the decrement; it answers whether the
  range starting at \<open>page_base\<close> is free. The outer one runs over the candidate bases.
\<close>

fun pmm_try_range :: "nat \<Rightarrow> nat \<Rightarrow> nat \<Rightarrow> 'a machine_scheme \<Rightarrow> bool outcome" where
  "pmm_try_range page_base page_offset 0 s = Inr False"
| "pmm_try_range page_base page_offset (Suc left) s =
     rbind (bitmap_isset (allocated_pages (pmm_inst s)) (of_nat (page_base + page_offset)) (mem s))
     (\<lambda>taken.
      if taken then Inr False
      else if left = 0 then Inr True
      else pmm_try_range page_base (Suc page_offset) left s)"

fun pmm_search :: "nat \<Rightarrow> nat \<Rightarrow> nat \<Rightarrow> 'a machine_scheme \<Rightarrow> nat option outcome" where
  "pmm_search page_base 0 page_count s = Inr None"
| "pmm_search page_base (Suc left) page_count s =
     rbind (pmm_try_range page_base 0 page_count s) (\<lambda>found.
     if found then Inr (Some page_base) else pmm_search (Suc page_base) left page_count s)"

definition pmm_try_alloc :: "usize \<Rightarrow> 'a machine_scheme \<Rightarrow> (u64 \<times> 'a machine_scheme) outcome" where
  "pmm_try_alloc page_count s =
     rbind (pmm_acquire s) (\<lambda>s.
     rbind (pmm__get_page_count (pmm_inst s)) (\<lambda>total_page_count.
     rbind (pmm_search 0 (unat total_page_count) (unat page_count) s) (\<lambda>r.
     case r of
       None \<Rightarrow> Inr (0, pmm_unlock s)
     | Some page_base \<Rightarrow>
         rbind (pmm__mark_pages (of_nat page_base) page_count s) (\<lambda>s.
         let s = pmm_unlock s; pa = of_nat page_base * MM_PHYS_PAGE_SIZE in
         rbind (hhdm_p2v pa s) (\<lambda>va.
         rbind (memset va 0 (page_count * MM_PHYS_PAGE_SIZE) (mem s)) (\<lambda>(va, m).
         let s = s\<lparr>mem := m\<rparr> in
         rbind (hhdm_v2p va s) (\<lambda>pa. Inr (pa, s))))))))"

definition pmm_alloc :: "usize \<Rightarrow> 'a machine_scheme \<Rightarrow> (u64 \<times> 'a machine_scheme) outcome" where
  "pmm_alloc page_count s =
     rbind (pmm_try_alloc page_count s) (\<lambda>(paddr, s).
     if paddr = 0 then Inl Panic else Inr (paddr, s))"

definition pmm_free :: "u64 \<Rightarrow> usize \<Rightarrow> 'a machine_scheme \<Rightarrow> ('a machine_scheme) outcome" where
  "pmm_free pa page_count s = pmm__clear_pages (pa div MM_PHYS_PAGE_SIZE) page_count s"

definition pmm_get_top :: "'a machine_scheme \<Rightarrow> uptr" where
  "pmm_get_top s = highest_page (pmm_inst s)"

subsection \<open>Abstract content and invariant\<close>

text \<open>
  \<open>npages\<close> physical pages are managed; page \<open>p\<close> is seen by the kernel at \<open>page_va s p\<close>;
  \<open>allocd s p\<close> is its bit in the bitmap. The bitmap may have more bits than there are pages
  (its size is rounded up to whole pages).
\<close>

definition npages :: "'a machine_scheme \<Rightarrow> nat" where
  "npages s = unat (highest_page (pmm_inst s)) div 4096"

definition hhdm_offset :: "'a machine_scheme \<Rightarrow> u64" where
  "hhdm_offset s = (case hhdm_resp s of None \<Rightarrow> 0 | Some off \<Rightarrow> off)"

definition page_va :: "'a machine_scheme \<Rightarrow> nat \<Rightarrow> uptr" where
  "page_va s p = of_nat p * 4096 + hhdm_offset s"

abbreviation page_bits :: "'a machine_scheme \<Rightarrow> bitmap" where
  "page_bits s \<equiv> allocated_pages (pmm_inst s)"

definition allocd :: "'a machine_scheme \<Rightarrow> nat \<Rightarrow> bool" where
  "allocd s p = bm_bit (page_bits s) (mem s) p"

definition range_free :: "'a machine_scheme \<Rightarrow> nat \<Rightarrow> nat \<Rightarrow> bool" where
  "range_free s n b \<longleftrightarrow> (\<forall>k < n. \<not> allocd s (b + k))"

text \<open>Page \<open>p\<close> shares a byte with the bitmap's own buffer.\<close>

definition under_bitmap :: "'a machine_scheme \<Rightarrow> nat \<Rightarrow> bool" where
  "under_bitmap s p \<longleftrightarrow>
     unat (hhdm_offset s) + 4096 * p < unat (bm_base (page_bits s)) + bm_len (page_bits s) \<and>
     unat (bm_base (page_bits s)) < unat (hhdm_offset s) + 4096 * p + 4096"

definition pmm_inv :: "'a machine_scheme \<Rightarrow> bool" where
  "pmm_inv s \<longleftrightarrow>
     hhdm_resp s \<noteq> None \<and> page_aligned (hhdm_offset s) \<and> hhdm_offset s \<noteq> 0 \<and>
     pmm_lock (pmm_inst s) = unlocked \<and> bm_wf (page_bits s) \<and>
     unat (bm_base (page_bits s)) + bm_len (page_bits s) \<le> 2 ^ 64 \<and>
     npages s \<le> bm_cap (page_bits s) \<and>
     unat (hhdm_offset s) + 4096 * bm_cap (page_bits s) \<le> 2 ^ 64 \<and>
     allocd s 0 \<and> (\<forall>p < bm_cap (page_bits s). under_bitmap s p \<longrightarrow> allocd s p)"

lemma in_range_iff:
  assumes "unat a + n \<le> 2 ^ 64"
  shows "in_range a n x \<longleftrightarrow> unat a \<le> unat x \<and> unat x < unat a + n"
proof (cases "a \<le> x")
  case True
  then show ?thesis by (auto simp: in_range_def unat_sub word_le_nat_alt)
next
  case False
  then have "unat x < unat a" by (simp add: word_le_nat_alt)
  moreover have "unat (x - a) = unat x + 2 ^ 64 - unat a"
    using \<open>unat x < unat a\<close> unat_sub_if'[of x a] by (simp add: word_le_nat_alt)
  ultimately show ?thesis using assms by (auto simp: in_range_def)
qed

lemma pmm__get_page_count_eq: "pmm__get_page_count (pmm_inst s) = Inr (of_nat (npages s))"
proof -
  obtain r where r: "align_size_down (highest_page (pmm_inst s)) 4096 = Inr r"
    "unat r = npages s * 4096"
    using align_size_down_value[of 4096 "highest_page (pmm_inst s)"] by (auto simp: npages_def)
  have "unat (r div 4096) = npages s" using r(2) by (simp add: unat_div)
  then have "r div 4096 = of_nat (npages s)" by (metis of_nat_unat ucast_id)
  with r(1) show ?thesis by (simp add: pmm__get_page_count_def ptr_as_size)
qed

lemma npages_bound: "npages s < 4503599627370496"
  using unat_lt_u64[of "highest_page (pmm_inst s)"] unfolding npages_def by linarith

lemma unat_npages [simp]: "unat (of_nat (npages s) :: u64) = npages s"
  using npages_bound[of s] by (simp add: unat_of_nat_u64)

lemma unat_page_va:
  assumes "unat (hhdm_offset s) + 4096 * cap \<le> 2 ^ 64" "p < cap"
  shows "unat (page_va s p) = unat (hhdm_offset s) + 4096 * p"
proof -
  have p: "p * 4096 < 2 ^ 64" using assms by linarith
  then have "unat (of_nat p * 4096 :: u64) = p * 4096"
    by (simp add: unat_mult_u64 unat_of_nat_u64)
  moreover have "p * 4096 + unat (hhdm_offset s) < 2 ^ 64" using assms by linarith
  ultimately show ?thesis by (simp add: page_va_def unat_add_u64)
qed

subsection \<open>First-fit search\<close>

lemma pmm_try_range_eq:
  assumes "bm_wf (page_bits s)" "b + off + n \<le> bm_cap (page_bits s)" "0 < n"
  shows "pmm_try_range b off n s = Inr (\<forall>k < n. \<not> allocd s (b + off + k))"
  using assms(2,3)
proof (induction n arbitrary: off)
  case (Suc n)
  have here: "bitmap_isset (page_bits s) (of_nat (b + off)) (mem s) = Inr (allocd s (b + off))"
    using Suc.prems assms(1) bitmap_isset_eq[of "page_bits s" "b + off" "mem s"]
    by (simp add: allocd_def)
  show ?case
  proof (cases "allocd s (b + off) \<or> n = 0")
    case True
    with here show ?thesis by (auto simp del: of_nat_add intro: exI[of _ 0])
  next
    case False
    then have "pmm_try_range b off (Suc n) s = Inr (\<forall>k < n. \<not> allocd s (b + Suc off + k))"
      using here Suc.IH[of "Suc off"] Suc.prems by (simp del: of_nat_add)
    with False show ?thesis by (simp add: All_less_Suc2)
  qed
qed simp

lemma pmm_search_eq:
  assumes "bm_wf (page_bits s)" "b + left + n \<le> bm_cap (page_bits s) + 1" "0 < n"
  shows "pmm_search b left n s = Inr (find (range_free s n) [b..<b + left])"
  using assms(2)
proof (induction left arbitrary: b)
  case (Suc left)
  have "pmm_try_range b 0 n s = Inr (range_free s n b)"
    using pmm_try_range_eq[of s b 0 n] assms Suc.prems by (simp add: range_free_def)
  moreover have "[b..<b + Suc left] = b # [Suc b..<Suc b + left]" by (simp add: upt_conv_Cons)
  ultimately show ?case using Suc.IH[of "Suc b"] Suc.prems by simp
qed simp

subsection \<open>Marking and clearing\<close>

lemma relock:
  "pmm_lock p = l \<Longrightarrow> p\<lparr>pmm_lock := l\<rparr> = p"
  "s\<lparr>mem := m, pmm_inst := pmm_inst s\<rparr> = s\<lparr>mem := m\<rparr>" "s\<lparr>pmm_inst := pmm_inst s\<rparr> = s"
  by (cases p; cases s; simp)+

lemma pmm__mark_pages_spec:
  assumes "bm_wf (page_bits s)" "b + n \<le> bm_cap (page_bits s)"
  obtains m' where "pmm__mark_pages (of_nat b) (of_nat n) s = Inr (s\<lparr>mem := m'\<rparr>)"
    "bm_same_outside (page_bits s) (mem s) m'"
    "\<And>j. j < bm_cap (page_bits s) \<Longrightarrow>
       bm_bit (page_bits s) m' j \<longleftrightarrow> (b \<le> j \<and> j < b + n) \<or> allocd s j"
proof -
  have "n < 2 ^ 64" using assms by (auto simp: bm_wf_def bm_cap_def)
  with bm.set_range[OF assms, of "mem s"] show ?thesis
    using that by (auto simp: pmm__mark_pages_def unat_of_nat_u64 allocd_def)
qed

lemma pmm__clear_pages_spec:
  assumes "pmm_inv s" "b + n \<le> bm_cap (page_bits s)"
  obtains m' where "pmm__clear_pages (of_nat b) (of_nat n) s = Inr (s\<lparr>mem := m'\<rparr>)"
    "bm_same_outside (page_bits s) (mem s) m'"
    "\<And>j. j < bm_cap (page_bits s) \<Longrightarrow>
       bm_bit (page_bits s) m' j \<longleftrightarrow> \<not> (b \<le> j \<and> j < b + n) \<and> allocd s j"
proof -
  have wf: "bm_wf (page_bits s)" and l: "pmm_lock (pmm_inst s) = unlocked"
    using assms(1) by (simp_all add: pmm_inv_def)
  have "n < 2 ^ 64" using assms(2) wf by (auto simp: bm_wf_def bm_cap_def)
  with bm.clear_range[OF wf assms(2), of "mem s"] l show ?thesis
    using that by (auto simp: pmm__clear_pages_def pmm_acquire_def pmm_unlock_def unat_of_nat_u64 allocd_def relock)
qed

lemma pmm_acquire_ok:
  "pmm_lock (pmm_inst s) = unlocked \<Longrightarrow>
     pmm_acquire s = Inr (s\<lparr>pmm_inst := (pmm_inst s)\<lparr>pmm_lock := locked\<rparr>\<rparr>)"
  by (simp add: pmm_acquire_def)

lemma locked_view [simp]:
  "allocd (s\<lparr>pmm_inst := (pmm_inst s)\<lparr>pmm_lock := l\<rparr>\<rparr>) = allocd s"
  "npages (s\<lparr>pmm_inst := (pmm_inst s)\<lparr>pmm_lock := l\<rparr>\<rparr>) = npages s"
  "range_free (s\<lparr>pmm_inst := (pmm_inst s)\<lparr>pmm_lock := l\<rparr>\<rparr>) = range_free s"
  by (simp_all add: allocd_def npages_def range_free_def fun_eq_iff)

subsection \<open>Allocation\<close>

text \<open>
  What a successful allocation of \<open>n\<close> pages at page \<open>b\<close> does to the memory: the pages are
  marked, their bytes are zero, and nothing else but the bitmap has changed.
\<close>

definition allocated_range :: "nat \<Rightarrow> nat \<Rightarrow> 'a machine_scheme \<Rightarrow> memory \<Rightarrow> bool" where
  "allocated_range b n s m' \<longleftrightarrow>
     (\<forall>j < bm_cap (page_bits s). bm_bit (page_bits s) m' j \<longleftrightarrow> (b \<le> j \<and> j < b + n) \<or> allocd s j) \<and>
     (\<forall>x. in_range (page_va s b) (4096 * n) x \<longrightarrow> m' x = 0) \<and>
     (\<forall>x. \<not> in_range (page_va s b) (4096 * n) x \<and>
          \<not> in_range (bm_base (page_bits s)) (bm_len (page_bits s)) x \<longrightarrow> m' x = mem s x)"

text \<open>Free pages and the bitmap's buffer are disjoint.\<close>

lemma free_range_off_bitmap:
  assumes inv: "pmm_inv s" and free: "range_free s n b" and cap: "b + n \<le> bm_cap (page_bits s)"
    and n: "0 < n"
    and x: "in_range (page_va s b) (4096 * n) x"
  shows "\<not> in_range (bm_base (page_bits s)) (bm_len (page_bits s)) x"
proof
  assume y: "in_range (bm_base (page_bits s)) (bm_len (page_bits s)) x"
  have off: "unat (hhdm_offset s) + 4096 * bm_cap (page_bits s) \<le> 2 ^ 64"
    using inv by (simp add: pmm_inv_def)
  have va: "unat (page_va s b) = unat (hhdm_offset s) + 4096 * b"
    using unat_page_va[OF off] cap n by simp
  have "unat (page_va s b) + 4096 * n \<le> 2 ^ 64" using va off cap by linarith
  with x va have x': "unat (hhdm_offset s) + 4096 * b \<le> unat x"
    "unat x < unat (hhdm_offset s) + 4096 * b + 4096 * n" by (simp_all add: in_range_iff)
  have "unat (bm_base (page_bits s)) + bm_len (page_bits s) \<le> 2 ^ 64"
    using inv by (simp add: pmm_inv_def)
  with y have y': "unat (bm_base (page_bits s)) \<le> unat x"
    "unat x < unat (bm_base (page_bits s)) + bm_len (page_bits s)" by (simp_all add: in_range_iff)
  define k where "k = (unat x - (unat (hhdm_offset s) + 4096 * b)) div 4096"
  have "k < n" using x' by (simp add: k_def less_mult_imp_div_less algebra_simps)
  moreover have "under_bitmap s (b + k)"
  proof -
    have "4096 * k \<le> unat x - (unat (hhdm_offset s) + 4096 * b)"
      "unat x - (unat (hhdm_offset s) + 4096 * b) < 4096 * k + 4096"
      unfolding k_def by linarith+
    then show ?thesis unfolding under_bitmap_def distrib_left using x' y' by linarith
  qed
  ultimately show False using inv free cap by (auto simp: pmm_inv_def range_free_def)
qed

lemma allocated_range_inv:
  assumes "pmm_inv s" "allocated_range b n s m'"
  shows "pmm_inv (s\<lparr>mem := m'\<rparr>)"
proof -
  have "allocd (s\<lparr>mem := m'\<rparr>) j" if "j < bm_cap (page_bits s)" "allocd s j" for j
    using assms(2) that by (simp add: allocated_range_def allocd_def)
  moreover have "0 < bm_cap (page_bits s)" using assms(1) by (simp add: pmm_inv_def bm_wf_def bm_cap_def)
  ultimately show ?thesis using assms(1)
    by (auto simp: pmm_inv_def npages_def under_bitmap_def hhdm_offset_def)
qed

theorem pmm_try_alloc_first_fit:
  assumes inv: "pmm_inv s" and n: "0 < n" and cap: "npages s + n \<le> bm_cap (page_bits s) + 1"
  shows "case find (range_free s n) [0..<npages s] of
      None \<Rightarrow> pmm_try_alloc (of_nat n) s = Inr (0, s)
    | Some b \<Rightarrow> \<exists>m'. pmm_try_alloc (of_nat n) s = Inr (of_nat b * 4096, s\<lparr>mem := m'\<rparr>) \<and>
        allocated_range b n s m'"
proof -
  let ?l = "s\<lparr>pmm_inst := (pmm_inst s)\<lparr>pmm_lock := locked\<rparr>\<rparr>"
  have l: "pmm_lock (pmm_inst s) = unlocked" and wf: "bm_wf (page_bits s)"
    and off: "unat (hhdm_offset s) + 4096 * bm_cap (page_bits s) \<le> 2 ^ 64" "hhdm_offset s \<noteq> 0"
    and some: "hhdm_resp s = Some (hhdm_offset s)"
    using inv by (auto simp: pmm_inv_def hhdm_offset_def)
  have nw: "n < 2 ^ 64" using cap off(1) by simp
  have search: "pmm_search 0 (npages s) n ?l = Inr (find (range_free s n) [0..<npages s])"
    using pmm_search_eq[of ?l 0 "npages s" n] wf cap n by simp
  show ?thesis
  proof (cases "find (range_free s n) [0..<npages s]")
    case None
    then show ?thesis using search l nw pmm__get_page_count_eq[of ?l]
      by (simp add: pmm_try_alloc_def pmm_acquire_ok pmm_unlock_def unat_of_nat_u64 relock)
  next
    case (Some b)
    then have free: "range_free s n b" and b: "b < npages s"
      by (auto simp: find_Some_iff)
    then have bn: "b + n \<le> bm_cap (page_bits s)" using cap by linarith
    obtain m1 where m1: "pmm__mark_pages (of_nat b) (of_nat n) ?l = Inr (?l\<lparr>mem := m1\<rparr>)"
      "bm_same_outside (page_bits s) (mem s) m1"
      "\<And>j. j < bm_cap (page_bits s) \<Longrightarrow> bm_bit (page_bits s) m1 j \<longleftrightarrow> (b \<le> j \<and> j < b + n) \<or> allocd s j"
      using pmm__mark_pages_spec[of ?l b n] wf bn by auto
    define m2 where "m2 = (\<lambda>x. if in_range (page_va s b) (4096 * n) x then 0 else m1 x)"
    have "unat (page_va s b) = unat (hhdm_offset s) + 4096 * b"
      using unat_page_va[OF off(1)] bn n by simp
    moreover have "0 < unat (hhdm_offset s)" using off(2) by (simp add: unat_gt_0)
    ultimately have nz: "page_va s b \<noteq> 0" and "n * 4096 < 2 ^ 64" using off(1) bn by auto
    then have "unat (of_nat n * 4096 :: u64) = 4096 * n"
      using nw by (simp add: unat_mult_u64 unat_of_nat_u64)
    with nz have clear: "memset (page_va s b) 0 (of_nat n * 4096) m1 = Inr (page_va s b, m2)"
      by (simp add: memset_eq m2_def fun_eq_iff)
    have "pmm_try_alloc (of_nat n) s = Inr (of_nat b * 4096, s\<lparr>mem := m2\<rparr>)"
      using search Some l nw pmm__get_page_count_eq[of ?l] m1(1) some clear
      by (simp add: pmm_try_alloc_def pmm_acquire_ok pmm_unlock_def unat_of_nat_u64 relock
          hhdm_p2v_def hhdm_v2p_def page_va_def Let_def)
    moreover have "bm_bit (page_bits s) m2 j = bm_bit (page_bits s) m1 j"
      if "j < bm_cap (page_bits s)" for j
      using free_range_off_bitmap[OF inv free bn n] that wf
      by (intro bm_bit_cong) (auto simp: m2_def)
    then have "allocated_range b n s m2"
      using m1(2,3) by (simp add: allocated_range_def m2_def bm_same_outside_def)
    ultimately show ?thesis using Some by auto
  qed
qed

text \<open>One page: the bitmap always has a bit for every page, so no side condition is left.\<close>

lemma range_free_1 [simp]: "range_free s (Suc 0) b \<longleftrightarrow> \<not> allocd s b"
  by (simp add: range_free_def)

lemma pmm_try_alloc_page:
  assumes inv: "pmm_inv s"
  shows "case find (\<lambda>b. \<not> allocd s b) [0..<npages s] of
      None \<Rightarrow> pmm_try_alloc 1 s = Inr (0, s)
    | Some b \<Rightarrow> \<exists>m'. pmm_try_alloc 1 s = Inr (of_nat b * 4096, s\<lparr>mem := m'\<rparr>) \<and>
        allocated_range b 1 s m'"
proof -
  have "npages s + 1 \<le> bm_cap (page_bits s) + 1" using inv by (simp add: pmm_inv_def)
  moreover have "range_free s 1 = (\<lambda>b. \<not> allocd s b)" by (rule ext) simp
  ultimately show ?thesis using pmm_try_alloc_first_fit[OF inv, of 1] by (simp split: option.splits)
qed

lemma page_number_nz:
  assumes "pmm_inv s" "\<not> allocd s b" "b < npages s"
  shows "of_nat b * 4096 \<noteq> (0 :: u64)" "0 < b"
proof -
  show "0 < b" using assms by (cases b) (auto simp: pmm_inv_def)
  moreover have "unat (of_nat b * 4096 :: u64) = b * 4096"
    using assms(3) npages_bound[of s] by (simp add: unat_mult_u64 unat_of_nat_u64)
  ultimately show "of_nat b * 4096 \<noteq> (0 :: u64)" by (metis mult_is_0 neq0_conv unat_0 zero_neq_numeral)
qed

text \<open>
  The allocator as its clients see it: with a free page left, \<^verbatim>\<open>pmm_alloc(1)\<close> returns a
  page that was free, zeroed, and keeps the invariant; with none left it panics.
\<close>

lemma pmm_alloc_page:
  assumes inv: "pmm_inv s" and free: "b < npages s" "\<not> allocd s b"
  obtains p m' where "pmm_alloc 1 s = Inr (of_nat p * 4096, s\<lparr>mem := m'\<rparr>)"
    "p < npages s" "0 < p" "\<not> allocd s p" "allocated_range p 1 s m'" "pmm_inv (s\<lparr>mem := m'\<rparr>)"
proof -
  have "find (\<lambda>b. \<not> allocd s b) [0..<npages s] \<noteq> None"
    using free by (auto simp: find_None_iff)
  then obtain p where p: "find (\<lambda>b. \<not> allocd s b) [0..<npages s] = Some p" by blast
  then have lt: "p < npages s" "\<not> allocd s p" by (auto simp: find_Some_iff)
  from pmm_try_alloc_page[OF inv] p obtain m' where
    m': "pmm_try_alloc 1 s = Inr (of_nat p * 4096, s\<lparr>mem := m'\<rparr>)" "allocated_range p 1 s m'"
    by auto
  then have "pmm_alloc 1 s = Inr (of_nat p * 4096, s\<lparr>mem := m'\<rparr>)"
    using page_number_nz(1)[OF inv lt(2,1)] by (simp add: pmm_alloc_def)
  with that m'(2) lt page_number_nz(2)[OF inv lt(2,1)] allocated_range_inv[OF inv m'(2)]
  show ?thesis by blast
qed

lemma pmm_alloc_exhausted:
  assumes "pmm_inv s" "\<And>b. b < npages s \<Longrightarrow> allocd s b"
  shows "pmm_alloc 1 s = Inl Panic"
proof -
  have "find (\<lambda>b. \<not> allocd s b) [0..<npages s] = None"
    using assms(2) by (auto simp: find_None_iff)
  then show ?thesis using pmm_try_alloc_page[OF assms(1)] by (simp add: pmm_alloc_def)
qed

subsection \<open>Release\<close>

lemma page_of_paddr: "b < 4503599627370496 \<Longrightarrow> (of_nat b * 4096 :: u64) div 4096 = of_nat b"
  by (simp add: word_eq_iff_unat unat_div unat_mult_u64 unat_of_nat_u64)

lemma cap_bound: "pmm_inv s \<Longrightarrow> bm_cap (page_bits s) \<le> 4503599627370496"
  by (simp add: pmm_inv_def)

lemma pmm_free_spec:
  assumes inv: "pmm_inv s" and b: "0 < n" "b + n \<le> bm_cap (page_bits s)"
    and safe: "0 < b" "\<And>k. k < n \<Longrightarrow> \<not> under_bitmap s (b + k)"
  shows "\<exists>m'. pmm_free (of_nat b * 4096) (of_nat n) s = Inr (s\<lparr>mem := m'\<rparr>) \<and>
    pmm_inv (s\<lparr>mem := m'\<rparr>) \<and> bm_same_outside (page_bits s) (mem s) m' \<and>
    (\<forall>j < bm_cap (page_bits s).
       allocd (s\<lparr>mem := m'\<rparr>) j \<longleftrightarrow> \<not> (b \<le> j \<and> j < b + n) \<and> allocd s j)"
proof -
  obtain m' where m': "pmm__clear_pages (of_nat b) (of_nat n) s = Inr (s\<lparr>mem := m'\<rparr>)"
    "bm_same_outside (page_bits s) (mem s) m'"
    "\<And>j. j < bm_cap (page_bits s) \<Longrightarrow>
       bm_bit (page_bits s) m' j \<longleftrightarrow> \<not> (b \<le> j \<and> j < b + n) \<and> allocd s j"
    using pmm__clear_pages_spec[OF inv b(2)] by blast
  have "b < 4503599627370496" using b cap_bound[OF inv] by linarith
  then have "pmm_free (of_nat b * 4096) (of_nat n) s = Inr (s\<lparr>mem := m'\<rparr>)"
    using m'(1) by (simp add: pmm_free_def page_of_paddr)
  moreover have bits: "allocd (s\<lparr>mem := m'\<rparr>) j \<longleftrightarrow> \<not> (b \<le> j \<and> j < b + n) \<and> allocd s j"
    if "j < bm_cap (page_bits s)" for j using m'(3)[OF that] by (simp add: allocd_def)
  moreover have "\<not> (b \<le> j \<and> j < b + n)" if "under_bitmap s j" for j
    using safe(2)[of "j - b"] that by (auto simp: less_diff_conv2)
  moreover have "0 < bm_cap (page_bits s)" using b by linarith
  ultimately have "pmm_inv (s\<lparr>mem := m'\<rparr>)"
    using inv safe(1) by (auto simp: pmm_inv_def npages_def under_bitmap_def hhdm_offset_def)
  with m'(2) bits \<open>pmm_free _ _ _ = _\<close> show ?thesis by blast
qed

subsection \<open>Properties\<close>

text \<open>A machine with eight pages whose bitmap is one byte in page 1; pages 0 and 1 are taken.\<close>

definition pmm_demo :: machine where
  "pmm_demo = \<lparr>mem = (\<lambda>x. if x = 268439552 then 192 else 255), hhdm_resp = Some 268435456,
     memmap_resp = None,
     pmm_inst = \<lparr>pmm_lock = unlocked, highest_page = 32768,
       allocated_pages = \<lparr>bm_buffer = \<lparr>span_data = 268439552, span_size = 1\<rparr>\<rparr>\<rparr>\<rparr>"

lemma pmm_demo_bits: "p < 8 \<Longrightarrow> allocd pmm_demo p \<longleftrightarrow> p < 2"
proof -
  assume "p < 8"
  then have "p \<in> {0, 1, 2, 3, 4, 5, 6, 7}" by auto
  then show ?thesis
    by (auto simp: allocd_def bm_bit_def bm_base_def pmm_demo_def bit_iff_odd)
qed

lemma pmm_demo_shape:
  "npages pmm_demo = 8" "bm_cap (page_bits pmm_demo) = 8" "under_bitmap pmm_demo p \<longleftrightarrow> p = 1"
  "hhdm_offset pmm_demo = 268435456"
  by (auto simp: npages_def pmm_demo_def bm_cap_def bm_len_def under_bitmap_def hhdm_offset_def bm_base_def)

lemma pmm_demo_inv: "pmm_inv pmm_demo"
  using pmm_demo_bits unfolding pmm_inv_def pmm_demo_shape
  by (simp add: pmm_demo_def bm_wf_def bm_base_def bm_len_def page_aligned_def)



text \<open>
  Allocating a page and freeing it restores the allocator. While a page is free,
  \<^verbatim>\<open>pmm_alloc(1)\<close> returns the address of a page that was free and is not page 0, and
  \<^verbatim>\<open>pmm_free\<close> of that address leads to a state with the same pages allocated as at the start.
\<close>

theorem pmm_alloc_free_roundtrip:
  assumes inv: "pmm_inv s" and free: "b < npages s" "\<not> allocd s b"
  shows "\<exists>p m1 m2. pmm_alloc 1 s = Inr (of_nat p * 4096, s\<lparr>mem := m1\<rparr>) \<and>
    0 < p \<and> p < npages s \<and> \<not> allocd s p \<and> allocd (s\<lparr>mem := m1\<rparr>) p \<and>
    pmm_free (of_nat p * 4096) 1 (s\<lparr>mem := m1\<rparr>) = Inr (s\<lparr>mem := m2\<rparr>) \<and>
    pmm_inv (s\<lparr>mem := m2\<rparr>) \<and>
    (\<forall>j < bm_cap (page_bits s). allocd (s\<lparr>mem := m2\<rparr>) j = allocd s j)"
proof -
  obtain p m1 where a: "pmm_alloc 1 s = Inr (of_nat p * 4096, s\<lparr>mem := m1\<rparr>)" "p < npages s"
    "0 < p" "\<not> allocd s p" "allocated_range p 1 s m1" "pmm_inv (s\<lparr>mem := m1\<rparr>)"
    using pmm_alloc_page[OF inv free] by blast
  have cap: "p + 1 \<le> bm_cap (page_bits s)" using a(2) inv by (simp add: pmm_inv_def)
  have bits1: "allocd (s\<lparr>mem := m1\<rparr>) j \<longleftrightarrow> j = p \<or> allocd s j" if "j < bm_cap (page_bits s)" for j
    using a(5) that by (auto simp: allocated_range_def allocd_def)
  have "\<not> under_bitmap s p" using inv cap a(4) by (auto simp: pmm_inv_def)
  then have "\<not> under_bitmap (s\<lparr>mem := m1\<rparr>) p" by (simp add: under_bitmap_def hhdm_offset_def)
  moreover have single: "(p \<le> j \<longrightarrow> \<not> j < Suc p) \<longleftrightarrow> j \<noteq> p" for j by auto
  ultimately obtain m2 where f: "pmm_free (of_nat p * 4096) 1 (s\<lparr>mem := m1\<rparr>) = Inr (s\<lparr>mem := m2\<rparr>)"
    "pmm_inv (s\<lparr>mem := m2\<rparr>)"
    "\<And>j. j < bm_cap (page_bits s) \<Longrightarrow> allocd (s\<lparr>mem := m2\<rparr>) j \<longleftrightarrow> j \<noteq> p \<and> allocd (s\<lparr>mem := m1\<rparr>) j"
    using pmm_free_spec[OF a(6), of 1 p] a(3) cap single by auto
  have "\<forall>j < bm_cap (page_bits s). allocd (s\<lparr>mem := m2\<rparr>) j = allocd s j"
    using f(3) bits1 a(4) by auto
  with a f(1,2) bits1[of p] cap show ?thesis by auto
qed

theorem pmm_alloc_free_roundtrip_witness:
  "\<exists>p m1 m2. pmm_alloc 1 pmm_demo = Inr (of_nat p * 4096, pmm_demo\<lparr>mem := m1\<rparr>) \<and>
    0 < p \<and> p < npages pmm_demo \<and> \<not> allocd pmm_demo p \<and> allocd (pmm_demo\<lparr>mem := m1\<rparr>) p \<and>
    pmm_free (of_nat p * 4096) 1 (pmm_demo\<lparr>mem := m1\<rparr>) = Inr (pmm_demo\<lparr>mem := m2\<rparr>) \<and>
    pmm_inv (pmm_demo\<lparr>mem := m2\<rparr>) \<and>
    (\<forall>j < bm_cap (page_bits pmm_demo). allocd (pmm_demo\<lparr>mem := m2\<rparr>) j = allocd pmm_demo j)"
  by (rule pmm_alloc_free_roundtrip[OF pmm_demo_inv, of 2])
    (simp_all add: pmm_demo_shape pmm_demo_bits)

end
