(* ===== verification/Pmm_Load.thy ===== *)
theory Pmm_Load
  imports Pmm
begin

section \<open>Loading the page allocator from the memory map (kernel/mem/pmm.c)\<close>

text \<open>
  \<^verbatim>\<open>pmm_load\<close> turns the boot loader's memory map into the bitmap of the page allocator. The
  theory shows that it establishes the allocator's invariant and that exactly the usable pages
  that do not hold the bitmap itself are left free. \<open>memmap_ok\<close> is what the boot protocol
  documents of the map it hands over: entries do not wrap around the address space, usable
  entries are page aligned, never contain page 0, and do not overlap any other entry.
\<close>

subsection \<open>The memory map\<close>

abbreviation usable :: "memmap_entry \<Rightarrow> bool" where
  "usable e \<equiv> entry_type e = LIMINE_MEMMAP_USABLE"

definition entry_end :: "memmap_entry \<Rightarrow> nat" where
  "entry_end e = unat (entry_base e) + unat (entry_length e)"

definition apart :: "memmap_entry \<Rightarrow> memmap_entry \<Rightarrow> bool" where
  "apart e f \<longleftrightarrow> entry_end e \<le> unat (entry_base f) \<or> entry_end f \<le> unat (entry_base e)"

definition memmap_apart :: "memmap_entry list \<Rightarrow> bool" where
  "memmap_apart es \<longleftrightarrow> (\<forall>i < length es. \<forall>j < length es.
     i \<noteq> j \<and> usable (es ! i) \<longrightarrow> apart (es ! i) (es ! j))"

definition memmap_ok :: "memmap_entry list \<Rightarrow> bool" where
  "memmap_ok es \<longleftrightarrow> (\<forall>e \<in> set es. entry_end e < 2 ^ 64) \<and>
     (\<forall>e \<in> set es. usable e \<longrightarrow>
        page_aligned (entry_base e) \<and> page_aligned (entry_length e) \<and> entry_base e \<noteq> 0) \<and>
     memmap_apart es"

text \<open>The end of the highest entry that counts as memory.\<close>

definition is_ram :: "memmap_entry \<Rightarrow> bool" where
  "is_ram e \<longleftrightarrow> entry_type e \<noteq> LIMINE_MEMMAP_OTHER"

definition memmap_top :: "memmap_entry list \<Rightarrow> nat" where
  "memmap_top es = fold (\<lambda>e t. if is_ram e then max (entry_end e) t else t) es 0"

definition page_in :: "nat \<Rightarrow> memmap_entry \<Rightarrow> bool" where
  "page_in p e \<longleftrightarrow> unat (entry_base e) \<le> 4096 * p \<and> 4096 * p + 4096 \<le> entry_end e"

definition usable_page :: "memmap_entry list \<Rightarrow> nat \<Rightarrow> bool" where
  "usable_page es p \<longleftrightarrow> (\<exists>e \<in> set es. usable e \<and> page_in p e)"

text \<open>The size of the bitmap that \<^verbatim>\<open>pmm__reserve_bitmap\<close> computes for \<open>n\<close> pages.\<close>

definition bitmap_bytes :: "nat \<Rightarrow> nat" where
  "bitmap_bytes n = round_up (n div 8) 4096"

subsubsection \<open>The highest page\<close>

lemma unat_entry_end: "entry_end e < 2 ^ 64 \<Longrightarrow> unat (entry_base e + entry_length e) = entry_end e"
  by (simp add: entry_end_def unat_add_u64)

lemma is_ram_iff: "is_ram e \<longleftrightarrow> entry_type e \<in> {LIMINE_MEMMAP_USABLE,
    LIMINE_MEMMAP_BOOTLOADER_RECLAIMABLE, LIMINE_MEMMAP_EXECUTABLE_AND_MODULES}"
  by (cases "entry_type e") (auto simp: is_ram_def)

lemma raise_highest_eq:
  assumes "entry_end e < 2 ^ 64" "h < 2 ^ 64"
  shows "raise_highest e (s\<lparr>pmm_inst := (pmm_inst s)\<lparr>highest_page := of_nat h\<rparr>\<rparr>) =
    s\<lparr>pmm_inst := (pmm_inst s)\<lparr>highest_page := of_nat (if is_ram e then max (entry_end e) h else h)\<rparr>\<rparr>"
proof -
  have "entry_base e + entry_length e = of_nat (entry_end e)"
    by (simp add: entry_end_def)
  moreover have "(of_nat h :: u64) < of_nat (entry_end e) \<longleftrightarrow> h < entry_end e"
    using assms by (simp add: word_less_nat_alt unat_of_nat_u64)
  ultimately show ?thesis
    by (auto simp: raise_highest_def is_ram_iff Let_def max_def)
qed

lemma highest_fold:
  assumes "\<forall>e \<in> set es. entry_end e < 2 ^ 64" "h < 2 ^ 64"
  shows "fold raise_highest es (s\<lparr>pmm_inst := (pmm_inst s)\<lparr>highest_page := of_nat h\<rparr>\<rparr>) =
    s\<lparr>pmm_inst := (pmm_inst s)\<lparr>highest_page :=
      of_nat (fold (\<lambda>e t. if is_ram e then max (entry_end e) t else t) es h)\<rparr>\<rparr>"
  using assms by (induction es arbitrary: h) (simp_all add: raise_highest_eq)

lemma memmap_top_fold:
  assumes "\<forall>e \<in> set es. entry_end e < 2 ^ 64" "h < 2 ^ 64"
  shows "fold (\<lambda>e t. if is_ram e then max (entry_end e) t else t) es h < 2 ^ 64 \<and>
    h \<le> fold (\<lambda>e t. if is_ram e then max (entry_end e) t else t) es h \<and>
    (\<forall>e \<in> set es. is_ram e \<longrightarrow>
       entry_end e \<le> fold (\<lambda>e t. if is_ram e then max (entry_end e) t else t) es h)"
  using assms
proof (induction es arbitrary: h)
  case (Cons e es)
  show ?case using Cons.prems Cons.IH[of "if is_ram e then max (entry_end e) h else h"]
    by (cases "is_ram e") simp_all
qed simp

lemma memmap_top_ge: "memmap_ok es \<Longrightarrow> e \<in> set es \<Longrightarrow> is_ram e \<Longrightarrow> entry_end e \<le> memmap_top es"
  and memmap_top_lt: "memmap_ok es \<Longrightarrow> memmap_top es < 2 ^ 64"
  using memmap_top_fold[of es 0] by (auto simp: memmap_ok_def memmap_top_def)

lemma pmm__find_highest_page_eq:
  assumes "memmap_resp s = Some es" "memmap_ok es" "highest_page (pmm_inst s) = 0"
  shows "pmm__find_highest_page s =
    Inr (s\<lparr>pmm_inst := (pmm_inst s)\<lparr>highest_page := of_nat (memmap_top es)\<rparr>\<rparr>)"
proof -
  have "s = s\<lparr>pmm_inst := (pmm_inst s)\<lparr>highest_page := of_nat 0\<rparr>\<rparr>"
    using assms(3) by (cases s; cases "pmm_inst s") simp
  then have "fold raise_highest es s =
      fold raise_highest es (s\<lparr>pmm_inst := (pmm_inst s)\<lparr>highest_page := of_nat 0\<rparr>\<rparr>)"
    by (rule arg_cong)
  then show ?thesis using assms(1,2) highest_fold[of es 0 s]
    by (simp add: pmm__find_highest_page_def memmap_ok_def memmap_top_def)
qed

subsubsection \<open>Which pages are available\<close>

lemma entry_contains:
  assumes "entry_end e < 2 ^ 64" "p < 4503599627370495"
  shows "(of_nat p * 4096 \<ge> entry_base e \<and> of_nat p * 4096 + 4096 \<le> entry_base e + entry_length e)
    \<longleftrightarrow> page_in p e"
proof -
  have "unat (of_nat p * 4096 :: u64) = p * 4096"
    using assms(2) by (simp add: unat_mult_u64 unat_of_nat_u64)
  moreover from this have "unat (of_nat p * 4096 + 4096 :: u64) = p * 4096 + 4096"
    using assms(2) by (simp add: unat_add_u64)
  ultimately show ?thesis
    using assms(1) by (simp add: word_le_nat_alt unat_entry_end page_in_def mult.commute)
qed

lemma apart_pages: "apart e f \<Longrightarrow> page_in p e \<Longrightarrow> \<not> page_in p f"
  by (auto simp: apart_def page_in_def)

lemma memmap_apart_Cons:
  assumes "memmap_apart (e # es)"
  shows "memmap_apart es" "\<forall>f \<in> set es. usable e \<or> usable f \<longrightarrow> apart e f"
proof -
  show "memmap_apart es" unfolding memmap_apart_def
  proof (intro allI impI)
    fix i j assume "i < length es" "j < length es" "i \<noteq> j \<and> usable (es ! i)"
    then show "apart (es ! i) (es ! j)"
      using assms unfolding memmap_apart_def by (elim allE[of _ "Suc i"] allE[of _ "Suc j"]) auto
  qed
  show "\<forall>f \<in> set es. usable e \<or> usable f \<longrightarrow> apart e f"
  proof (intro ballI impI)
    fix f assume "f \<in> set es" and u: "usable e \<or> usable f"
    then obtain j where j: "j < length es" "es ! j = f" by (auto simp: in_set_conv_nth)
    have "usable e \<Longrightarrow> apart e f" "usable f \<Longrightarrow> apart f e"
      using assms j unfolding memmap_apart_def by fastforce+
    with u show "apart e f" by (auto simp: apart_def)
  qed
qed

lemma pmm__available_loop_eq:
  assumes "\<forall>e \<in> set es. entry_end e < 2 ^ 64" "memmap_apart es" "p < 4503599627370495"
  shows "pmm__available_loop (of_nat p * 4096) es \<longleftrightarrow> usable_page es p"
  using assms(1,2)
proof (induction es)
  case (Cons e es)
  have c: "(of_nat p * 4096 \<ge> entry_base e \<and> of_nat p * 4096 + 4096 \<le> entry_base e + entry_length e)
      \<longleftrightarrow> page_in p e"
    using entry_contains Cons.prems(1) assms(3) by simp
  have IH: "pmm__available_loop (of_nat p * 4096) es \<longleftrightarrow> usable_page es p"
    using Cons memmap_apart_Cons(1) by simp
  have "pmm__available_loop (of_nat p * 4096) (e # es) \<longleftrightarrow>
      (if page_in p e then usable e else usable_page es p)"
    unfolding pmm__available_loop.simps c IH ..
  also have "\<dots> \<longleftrightarrow> usable_page (e # es) p"
    using memmap_apart_Cons(2)[OF Cons.prems(2)] apart_pages[of e _ p] by (auto simp: usable_page_def)
  finally show ?case .
qed (simp add: usable_page_def)

subsubsection \<open>Taking the bitmap out of an entry\<close>

definition cut_entry :: "usize \<Rightarrow> memmap_entry \<Rightarrow> memmap_entry" where
  "cut_entry sz e = e\<lparr>entry_base := entry_base e + sz, entry_length := entry_length e - sz\<rparr>"

lemma cut_entry_bounds:
  assumes "entry_end e < 2 ^ 64" "sz \<le> entry_length e"
  shows "unat (entry_base (cut_entry sz e)) = unat (entry_base e) + unat sz"
    "entry_end (cut_entry sz e) = entry_end e" "entry_type (cut_entry sz e) = entry_type e"
proof -
  have "unat (entry_base e) + unat sz < 2 ^ 64" "unat sz \<le> unat (entry_length e)"
    using assms by (simp_all add: entry_end_def word_le_nat_alt)
  then show "unat (entry_base (cut_entry sz e)) = unat (entry_base e) + unat sz"
    "entry_end (cut_entry sz e) = entry_end e" "entry_type (cut_entry sz e) = entry_type e"
    using assms(2) by (simp_all add: cut_entry_def unat_add_u64 entry_end_def unat_sub)
qed

lemma cut_entry_apart:
  "entry_end e < 2 ^ 64 \<Longrightarrow> sz \<le> entry_length e \<Longrightarrow> apart e f \<Longrightarrow> apart (cut_entry sz e) f"
  "entry_end e < 2 ^ 64 \<Longrightarrow> sz \<le> entry_length e \<Longrightarrow> apart f e \<Longrightarrow> apart f (cut_entry sz e)"
  by (auto simp: apart_def cut_entry_bounds)

lemma memmap_apart_cut:
  assumes ok: "memmap_ok es" and i: "i < length es" "sz \<le> entry_length (es ! i)"
  shows "memmap_apart (es[i := cut_entry sz (es ! i)])"
proof -
  have e: "entry_end (es ! i) < 2 ^ 64" using ok i(1) by (simp add: memmap_ok_def)
  note c = cut_entry_bounds(3)[OF e i(2)] cut_entry_apart[OF e i(2)]
  have "memmap_apart es" using ok by (simp add: memmap_ok_def)
  then have "apart (es[i := cut_entry sz (es ! i)] ! j) (es[i := cut_entry sz (es ! i)] ! k)"
    if "j < length es" "k < length es" "j \<noteq> k" "usable (es[i := cut_entry sz (es ! i)] ! j)" for j k
    using c that by (cases "j = i"; cases "k = i") (simp_all add: memmap_apart_def)
  then show ?thesis by (simp add: memmap_apart_def)
qed

lemma memmap_ends_cut:
  assumes ok: "memmap_ok es" and i: "i < length es" "sz \<le> entry_length (es ! i)"
  shows "\<forall>e \<in> set (es[i := cut_entry sz (es ! i)]). entry_end e < 2 ^ 64"
proof -
  have e: "entry_end (es ! i) < 2 ^ 64" using ok i(1) by (simp add: memmap_ok_def)
  then show ?thesis using ok cut_entry_bounds(2)[OF e i(2)]
    by (auto simp: memmap_ok_def dest!: set_update_subset_insert[THEN subsetD])
qed

text \<open>What remains usable is what was usable, without the pages that were cut.\<close>

lemma usable_page_cut:
  assumes ok: "memmap_ok es" and i: "i < length es" "usable (es ! i)" "sz \<le> entry_length (es ! i)"
    and base: "unat (entry_base (es ! i)) = 4096 * b" "unat sz = 4096 * k"
  shows "usable_page (es[i := cut_entry sz (es ! i)]) p \<longleftrightarrow>
    usable_page es p \<and> \<not> (b \<le> p \<and> p < b + k)"
proof -
  have e: "entry_end (es ! i) < 2 ^ 64" using ok i(1) by (simp add: memmap_ok_def)
  have "unat sz \<le> unat (entry_length (es ! i))" using i(3) by (simp add: word_le_nat_alt)
  then have "4096 * b + 4096 * k \<le> entry_end (es ! i)" using base by (simp add: entry_end_def)
  then have cut: "page_in p (cut_entry sz (es ! i)) \<longleftrightarrow> page_in p (es ! i) \<and> \<not> (b \<le> p \<and> p < b + k)"
    and full: "b \<le> p \<and> p < b + k \<Longrightarrow> page_in p (es ! i)"
    using base by (auto simp: page_in_def cut_entry_bounds[OF e i(3)])
  have other: "\<not> page_in p (es ! j)" if "j < length es" "j \<noteq> i" "page_in p (es ! i)" for j
    using ok i that apart_pages[of "es ! i" "es ! j" p] by (simp add: memmap_ok_def memmap_apart_def)
  have "usable_page (es[i := cut_entry sz (es ! i)]) p \<longleftrightarrow>
      (\<exists>j < length es. if j = i then page_in p (cut_entry sz (es ! i))
        else usable (es ! j) \<and> page_in p (es ! j))"
    using i cut_entry_bounds(3)[OF e i(3)]
    by (auto simp: usable_page_def in_set_conv_nth Bex_def nth_list_update split: if_splits)
  also have "\<dots> \<longleftrightarrow> (\<exists>j < length es. usable (es ! j) \<and> page_in p (es ! j)) \<and> \<not> (b \<le> p \<and> p < b + k)"
    using cut full other i(1,2) by (auto split: if_splits)
  also have "\<dots> \<longleftrightarrow> usable_page es p \<and> \<not> (b \<le> p \<and> p < b + k)"
    by (auto simp: usable_page_def in_set_conv_nth Bex_def)
  finally show ?thesis .
qed

text \<open>The loop stops at the first usable entry that is large enough.\<close>

definition reserve_in :: "usize \<Rightarrow> nat \<Rightarrow> memmap_entry \<Rightarrow> 'a machine_scheme \<Rightarrow> ('a machine_scheme) outcome" where
  "reserve_in sz idx e s =
     rbind (hhdm_p2v (entry_base e) s) (\<lambda>va.
     let s = s\<lparr>memmap_resp := map_option (\<lambda>es. es[idx := cut_entry sz e]) (memmap_resp s)\<rparr> in
     rbind (make_span va sz) (\<lambda>buf.
     rbind (bitmap_init (allocated_pages (pmm_inst s)) buf (mem s)) (\<lambda>(bm, m).
     Inr (s\<lparr>mem := m, pmm_inst := (pmm_inst s)\<lparr>allocated_pages := bm\<rparr>\<rparr>))))"

lemma pmm__reserve_loop_finds:
  assumes "\<exists>e \<in> set es. usable e \<and> sz \<le> entry_length e"
  shows "\<exists>i < length es. usable (es ! i) \<and> sz \<le> entry_length (es ! i) \<and>
    pmm__reserve_loop sz idx es s = reserve_in sz (idx + i) (es ! i) s"
  using assms
proof (induction es arbitrary: idx)
  case (Cons e es)
  show ?case
  proof (cases "usable e \<and> sz \<le> entry_length e")
    case True
    then have "pmm__reserve_loop sz idx (e # es) s = reserve_in sz idx e s"
      by (simp add: reserve_in_def cut_entry_def Let_def)
    with True show ?thesis by (intro exI[of _ 0]) simp
  next
    case False
    with Cons.prems have "\<exists>e \<in> set es. usable e \<and> sz \<le> entry_length e" by auto
    from Cons.IH[OF this, of "Suc idx"] obtain i where "i < length es" "usable (es ! i)"
      "sz \<le> entry_length (es ! i)"
      "pmm__reserve_loop sz (Suc idx) es s = reserve_in sz (Suc idx + i) (es ! i) s" by blast
    then show ?thesis using False by (intro exI[of _ "Suc i"]) auto
  qed
qed simp

subsubsection \<open>Scanning\<close>

lemma pmm__scan_bitmap_eq:
  assumes es: "memmap_resp s = Some es" "\<forall>e \<in> set es. entry_end e < 2 ^ 64" "memmap_apart es"
    and bm: "bm_wf (page_bits s)" "npages s \<le> bm_cap (page_bits s)" "npages s < 4503599627370496"
    and zero: "\<And>j. j < bm_cap (page_bits s) \<Longrightarrow> \<not> allocd s j"
  obtains m' where "pmm__scan_bitmap s = Inr (s\<lparr>mem := m'\<rparr>)"
    "bm_same_outside (page_bits s) (mem s) m'"
    "\<And>j. j < bm_cap (page_bits s) \<Longrightarrow>
       bm_bit (page_bits s) m' j \<longleftrightarrow> j < npages s \<and> \<not> usable_page es j"
proof -
  let ?body = "\<lambda>page s. rbind (pmm__is_page_available (of_nat page * MM_PHYS_PAGE_SIZE) s) (\<lambda>avail.
     if \<not> avail then rbind (bitmap_set (page_bits s) (of_nat page) (mem s)) (\<lambda>m. Inr (s\<lparr>mem := m\<rparr>))
     else Inr s)"
  let ?I = "\<lambda>k t. \<exists>m. t = s\<lparr>mem := m\<rparr> \<and> bm_same_outside (page_bits s) (mem s) m \<and>
     (\<forall>j < bm_cap (page_bits s). bm_bit (page_bits s) m j \<longleftrightarrow> j < k \<and> \<not> usable_page es j)"
  have "\<exists>t. for_r ?body [0..<npages s] s = Inr t \<and> ?I (npages s) t"
  proof (rule for_r_rule)
    show "?I 0 s" using zero by (intro exI[of _ "mem s"]) (simp add: bm_same_outside_refl allocd_def)
  next
    fix k t assume k: "k < npages s" and "?I k t"
    then obtain m where t: "t = s\<lparr>mem := m\<rparr>" and m: "bm_same_outside (page_bits s) (mem s) m"
      "\<And>j. j < bm_cap (page_bits s) \<Longrightarrow> bm_bit (page_bits s) m j \<longleftrightarrow> j < k \<and> \<not> usable_page es j" by blast
    have avail: "pmm__is_page_available (of_nat k * MM_PHYS_PAGE_SIZE) t = Inr (usable_page es k)"
      using es k bm(3) t by (simp add: pmm__is_page_available_def pmm__available_loop_eq)
    show "\<exists>t'. ?body k t = Inr t' \<and> ?I (Suc k) t'"
    proof (cases "usable_page es k")
      case True
      then show ?thesis using avail m t by (auto simp: less_Suc_eq)
    next
      case False
      obtain m' where m': "bitmap_set (page_bits s) (of_nat k) m = Inr m'"
        "bm_same_outside (page_bits s) m m'"
        "\<And>j. j < bm_cap (page_bits s) \<Longrightarrow> bm_bit (page_bits s) m' j \<longleftrightarrow> j = k \<or> bm_bit (page_bits s) m j"
        using bitmap_set_spec[OF bm(1), of k m] k bm(2) by auto
      have "?body k t = Inr (s\<lparr>mem := m'\<rparr>)" using avail False t m'(1) by simp
      moreover have "?I (Suc k) (s\<lparr>mem := m'\<rparr>)"
        using False m m'(2,3) bm_same_outside_trans by (intro exI[of _ m']) (auto simp: less_Suc_eq)
      ultimately show ?thesis by blast
    qed
  qed
  then show ?thesis using that pmm__get_page_count_eq[of s] by (auto simp: pmm__scan_bitmap_def)
qed

subsubsection \<open>The whole of \<^verbatim>\<open>pmm_load\<close>\<close>

text \<open>
  \<open>loadable\<close>: the state after \<^verbatim>\<open>pmm_init\<close> together with a documented memory map that has
  enough bits per page once rounded up and a usable entry that can hold the bitmap. The bound
  on the offset says that the direct map covers every page the bitmap can name.
\<close>

definition loadable :: "memmap_entry list \<Rightarrow> 'a machine_scheme \<Rightarrow> bool" where
  "loadable es s \<longleftrightarrow>
     (let n = memmap_top es div 4096 in
      memmap_resp s = Some es \<and> memmap_ok es \<and>
      hhdm_resp s \<noteq> None \<and> page_aligned (hhdm_offset s) \<and> hhdm_offset s \<noteq> 0 \<and>
      highest_page (pmm_inst s) = 0 \<and> pmm_lock (pmm_inst s) = unlocked \<and>
      unat (hhdm_offset s) + 4096 * (8 * bitmap_bytes n) \<le> 2 ^ 64 \<and>
      0 < n \<and> n \<le> 8 * bitmap_bytes n \<and>
      (\<exists>e \<in> set es. usable e \<and> bitmap_bytes n \<le> unat (entry_length e)))"

lemma reserve_in_ok:
  assumes off: "hhdm_resp s = Some (hhdm_offset s)" "hhdm_offset s \<noteq> 0"
    and es: "memmap_resp s = Some es" and sz: "0 < sz" "unat sz < 2 ^ 60"
    and fit: "unat (hhdm_offset s) + unat (entry_base e) < 2 ^ 64"
  obtains m bm where "reserve_in sz i e s = Inr (s\<lparr>memmap_resp := Some (es[i := cut_entry sz e]),
      mem := m, pmm_inst := (pmm_inst s)\<lparr>allocated_pages := bm\<rparr>\<rparr>)"
    "bm_wf bm" "unat (bm_base bm) = unat (hhdm_offset s) + unat (entry_base e)" "bm_len bm = unat sz"
    "bm_same_outside bm (mem s) m" "\<And>j. j < bm_cap bm \<Longrightarrow> \<not> bm_bit bm m j"
proof -
  let ?va = "entry_base e + hhdm_offset s"
  have va: "unat ?va = unat (hhdm_offset s) + unat (entry_base e)"
    using fit by (simp add: unat_add_u64)
  moreover have "0 < unat (hhdm_offset s)" using off(2) by (simp add: unat_gt_0)
  ultimately have nz: "?va \<noteq> 0" by (metis add_gr_0 less_irrefl unat_0)
  obtain bm m where b: "bitmap_init (page_bits s) \<lparr>span_data = ?va, span_size = sz\<rparr> (mem s) = Inr (bm, m)"
    "bm_wf bm" "bm_buffer bm = \<lparr>span_data = ?va, span_size = sz\<rparr>"
    "bm_same_outside bm (mem s) m" "\<forall>j < bm_cap bm. \<not> bm_bit bm m j"
    using bitmap_init_spec[of "\<lparr>span_data = ?va, span_size = sz\<rparr>" "page_bits s" "mem s"] nz sz by auto
  have "reserve_in sz i e s = Inr (s\<lparr>memmap_resp := Some (es[i := cut_entry sz e]),
      mem := m, pmm_inst := (pmm_inst s)\<lparr>allocated_pages := bm\<rparr>\<rparr>)"
    using b(1) off nz sz(1) es by (simp add: reserve_in_def hhdm_p2v_def make_span_def Let_def)
  with that b va show ?thesis by (simp add: bm_base_def bm_len_def)
qed

lemma reserved_entry:
  assumes ok: "memmap_ok es" and i: "i < length es" "usable (es ! i)" "sz \<le> entry_length (es ! i)"
    and sz: "unat sz = 4096 * k"
  obtains b where "unat (entry_base (es ! i)) = 4096 * b" "0 < b" "b + k \<le> memmap_top es div 4096"
proof -
  have mem: "es ! i \<in> set es" using i(1) by simp
  then have "page_aligned (entry_base (es ! i))" "entry_base (es ! i) \<noteq> 0"
    using ok i(2) by (auto simp: memmap_ok_def)
  then obtain b where b: "unat (entry_base (es ! i)) = 4096 * b" "0 < b"
    by (metis page_alignedE mult_0_right neq0_conv unat_eq_zero)
  have "is_ram (es ! i)" using i(2) by (simp add: is_ram_def)
  with memmap_top_ge[OF ok mem] have "entry_end (es ! i) \<le> memmap_top es" .
  moreover have "unat sz \<le> unat (entry_length (es ! i))" using i(3) by (simp add: word_le_nat_alt)
  ultimately have "4096 * (b + k) \<le> memmap_top es" using b sz by (simp add: entry_end_def)
  then have "b + k \<le> memmap_top es div 4096"
    by (simp add: less_eq_div_iff_mult_less_eq algebra_simps)
  with that b show ?thesis by blast
qed

lemma usable_page_0: "memmap_ok es \<Longrightarrow> \<not> usable_page es 0"
  by (auto simp: memmap_ok_def usable_page_def page_in_def unat_eq_zero)

lemma pmm__reserve_bitmap_ok:
  assumes ld: "loadable es s0" and n: "n = memmap_top es div 4096"
    and s: "s = s0\<lparr>pmm_inst := (pmm_inst s0)\<lparr>highest_page := of_nat (memmap_top es)\<rparr>\<rparr>"
  obtains i sz b m bm where
    "pmm__reserve_bitmap s = Inr (s\<lparr>memmap_resp := Some (es[i := cut_entry sz (es ! i)]), mem := m,
       pmm_inst := (pmm_inst s)\<lparr>allocated_pages := bm\<rparr>\<rparr>)"
    "i < length es" "usable (es ! i)" "sz \<le> entry_length (es ! i)" "unat sz = bitmap_bytes n"
    "unat (entry_base (es ! i)) = 4096 * b" "b + bitmap_bytes n div 4096 \<le> n"
    "bm_wf bm" "unat (bm_base bm) = unat (hhdm_offset s) + 4096 * b" "bm_len bm = bitmap_bytes n"
    "\<And>j. j < bm_cap bm \<Longrightarrow> \<not> bm_bit bm m j"
proof -
  have ok: "memmap_ok es" and es: "memmap_resp s = Some es" and nn: "0 < n" "n \<le> 8 * bitmap_bytes n"
    and off: "hhdm_resp s = Some (hhdm_offset s)" "hhdm_offset s \<noteq> 0"
      "unat (hhdm_offset s) + 4096 * (8 * bitmap_bytes n) \<le> 2 ^ 64"
    and room: "\<exists>e \<in> set es. usable e \<and> bitmap_bytes n \<le> unat (entry_length e)"
    using ld n s by (auto simp: loadable_def Let_def hhdm_offset_def)
  have np: "npages s = n" using memmap_top_lt[OF ok] s n by (simp add: npages_def unat_of_nat_u64)
  have small: "bitmap_bytes n < 2 ^ 60" using off(3) by simp
  have "unat ((of_nat n :: u64) div 8) = n div 8"
    using npages_bound[of s] np by (simp add: unat_div unat_of_nat_u64)
  then obtain sz where sz: "align_size_up (of_nat n div 8) 4096 = Inr sz" "unat sz = bitmap_bytes n"
    using align_size_up_exact[of 4096 "of_nat n div 8"] small by (auto simp: bitmap_bytes_def)
  then have pos: "0 < sz" using nn by (simp add: word_less_nat_alt)
  have k: "unat sz = 4096 * (bitmap_bytes n div 4096)" using sz(2) by (simp add: bitmap_bytes_def)
  obtain i where i: "i < length es" "usable (es ! i)" "sz \<le> entry_length (es ! i)"
    and loop: "pmm__reserve_loop sz 0 es s = reserve_in sz i (es ! i) s"
    using pmm__reserve_loop_finds[of es sz 0 s] room sz(2) by (auto simp: word_le_nat_alt)
  obtain b where b: "unat (entry_base (es ! i)) = 4096 * b" "b + bitmap_bytes n div 4096 \<le> n"
    using reserved_entry[OF ok i k] n by metis
  have "unat (hhdm_offset s) + unat (entry_base (es ! i)) < 2 ^ 64"
    using b off(3) nn k sz(2) pos by (simp add: word_less_nat_alt)
  then obtain m bm where r: "reserve_in sz i (es ! i) s = Inr (s\<lparr>memmap_resp := Some (es[i := cut_entry sz (es ! i)]),
      mem := m, pmm_inst := (pmm_inst s)\<lparr>allocated_pages := bm\<rparr>\<rparr>)"
    "bm_wf bm" "unat (bm_base bm) = unat (hhdm_offset s) + unat (entry_base (es ! i))" "bm_len bm = unat sz"
    "\<And>j. j < bm_cap bm \<Longrightarrow> \<not> bm_bit bm m j"
    using reserve_in_ok[OF off(1,2) es pos] small sz(2) by metis
  have "pmm__reserve_bitmap s = reserve_in sz i (es ! i) s"
    using es pmm__get_page_count_eq[of s] np sz(1) loop by (simp add: pmm__reserve_bitmap_def)
  with r i b sz(2) that show ?thesis by metis
qed

lemma pmm_load_ok:
  assumes ld: "loadable es s"
  shows "\<exists>s'. pmm_load s = Inr s' \<and> pmm_inv s' \<and> npages s' = memmap_top es div 4096 \<and>
    (\<forall>p < npages s'. \<not> allocd s' p \<longleftrightarrow> usable_page es p \<and> \<not> under_bitmap s' p)"
proof -
  define n where "n = memmap_top es div 4096"
  define s1 where "s1 = s\<lparr>pmm_inst := (pmm_inst s)\<lparr>highest_page := of_nat (memmap_top es)\<rparr>\<rparr>"
  have ok: "memmap_ok es" and es: "memmap_resp s = Some es" and nn: "0 < n" "n \<le> 8 * bitmap_bytes n"
    and off: "hhdm_resp s \<noteq> None" "page_aligned (hhdm_offset s)" "hhdm_offset s \<noteq> 0"
      "unat (hhdm_offset s) + 4096 * (8 * bitmap_bytes n) \<le> 2 ^ 64"
    and init: "highest_page (pmm_inst s) = 0" "pmm_lock (pmm_inst s) = unlocked"
    using ld by (auto simp: loadable_def Let_def n_def)
  have find: "pmm__find_highest_page s = Inr s1"
    using pmm__find_highest_page_eq[OF es ok init(1)] by (simp add: s1_def)
  obtain i sz b m bm where r: "pmm__reserve_bitmap s1 = Inr (s1\<lparr>memmap_resp := Some (es[i := cut_entry sz (es ! i)]),
       mem := m, pmm_inst := (pmm_inst s1)\<lparr>allocated_pages := bm\<rparr>\<rparr>)"
    and i: "i < length es" "usable (es ! i)" "sz \<le> entry_length (es ! i)" and sz: "unat sz = bitmap_bytes n"
    and b: "unat (entry_base (es ! i)) = 4096 * b" "b + bitmap_bytes n div 4096 \<le> n"
    and bm: "bm_wf bm" "unat (bm_base bm) = unat (hhdm_offset s1) + 4096 * b" "bm_len bm = bitmap_bytes n"
      "\<And>j. j < bm_cap bm \<Longrightarrow> \<not> bm_bit bm m j"
    by (rule pmm__reserve_bitmap_ok[OF ld n_def s1_def]) (rule that; assumption)
  define s2 where "s2 = s1\<lparr>memmap_resp := Some (es[i := cut_entry sz (es ! i)]), mem := m,
    pmm_inst := (pmm_inst s1)\<lparr>allocated_pages := bm\<rparr>\<rparr>"
  have s2: "page_bits s2 = bm" "memmap_resp s2 = Some (es[i := cut_entry sz (es ! i)])" "mem s2 = m"
    "pmm_lock (pmm_inst s2) = unlocked" "hhdm_resp s2 = hhdm_resp s" "hhdm_offset s2 = hhdm_offset s"
    "hhdm_offset s1 = hhdm_offset s"
    using init(2) by (simp_all add: s2_def s1_def hhdm_offset_def)
  define k where "k = bitmap_bytes n div 4096"
  have k: "bitmap_bytes n = 4096 * k" by (simp add: k_def bitmap_bytes_def)
  have np: "npages s2 = n" using memmap_top_lt[OF ok] by (simp add: s2_def s1_def npages_def unat_of_nat_u64 n_def)
  have cap: "n \<le> bm_cap bm" using nn bm(3) by (simp add: bm_cap_def)
  have pn: "n < 4503599627370496" using npages_bound[of s2] np by simp
  have z: "\<not> allocd s2 j" if "j < bm_cap bm" for j using bm(4)[OF that] by (simp add: allocd_def s2)
  note ends = memmap_ends_cut[OF ok i(1,3)] memmap_apart_cut[OF ok i(1,3)]
  obtain m' where m': "pmm__scan_bitmap s2 = Inr (s2\<lparr>mem := m'\<rparr>)" 
    "\<And>j. j < bm_cap bm \<Longrightarrow>
       bm_bit bm m' j \<longleftrightarrow> j < n \<and> \<not> usable_page (es[i := cut_entry sz (es ! i)]) j"
    by (rule pmm__scan_bitmap_eq[of s2, OF s2(2) ends]) (use bm(1) cap pn np z s2(1,3) that in auto)
  have ub: "under_bitmap (s2\<lparr>mem := m'\<rparr>) p \<longleftrightarrow> b \<le> p \<and> p < b + k" for p
    using bm(2,3) k s2(6,7) by (auto simp: under_bitmap_def hhdm_offset_def s2(1))
  have bits: "allocd (s2\<lparr>mem := m'\<rparr>) p \<longleftrightarrow> p < n \<and> (usable_page es p \<longrightarrow> b \<le> p \<and> p < b + k)" if "p < bm_cap bm" for p
    using m'(2)[OF that] usable_page_cut[OF ok i b(1), of k p] sz k by (auto simp: allocd_def s2(1))
  have load: "pmm_load s = Inr (s2\<lparr>mem := m'\<rparr>)" using find r m'(1) es by (simp add: pmm_load_def s2_def)
  have np3: "npages (s2\<lparr>mem := m'\<rparr>) = n" using np by (simp add: npages_def)
  have fixed: "hhdm_resp (s2\<lparr>mem := m'\<rparr>) = hhdm_resp s" "hhdm_offset (s2\<lparr>mem := m'\<rparr>) = hhdm_offset s"
    "pmm_lock (pmm_inst (s2\<lparr>mem := m'\<rparr>)) = unlocked" "page_bits (s2\<lparr>mem := m'\<rparr>) = bm" "hhdm_offset s1 = hhdm_offset s"
    using s2 by (simp_all add: hhdm_offset_def)
  have a0: "allocd (s2\<lparr>mem := m'\<rparr>) 0" using bits[of 0] nn(1) cap usable_page_0[OF ok] by auto
  have au: "\<forall>p < bm_cap bm. under_bitmap (s2\<lparr>mem := m'\<rparr>) p \<longrightarrow> allocd (s2\<lparr>mem := m'\<rparr>) p"
    unfolding ub using bits b(2)[folded k_def] by auto
  have "4096 * b + bm_len bm \<le> 4096 * (8 * bitmap_bytes n)"
    using b(2)[folded k_def] bm(3) k nn(2) by linarith
  then have top: "unat (bm_base bm) + bm_len bm \<le> 2 ^ 64"
    unfolding bm(2) fixed(5) using off(4) by linarith
  have "pmm_inv (s2\<lparr>mem := m'\<rparr>)" unfolding pmm_inv_def fixed np3
    using off bm(1,3) cap a0 au top by (simp add: bm_cap_def)
  moreover have "\<forall>p < n. \<not> allocd (s2\<lparr>mem := m'\<rparr>) p \<longleftrightarrow> usable_page es p \<and> \<not> under_bitmap (s2\<lparr>mem := m'\<rparr>) p"
    using bits ub cap by auto
  ultimately show ?thesis using load np3 by (auto simp: n_def)
qed

subsection \<open>Properties\<close>

definition boot_demo :: "memmap_entry list \<Rightarrow> machine" where
  "boot_demo es = \<lparr>mem = (\<lambda>_. 255), hhdm_resp = Some 268435456, memmap_resp = Some es,
     pmm_inst = \<lparr>pmm_lock = unlocked, highest_page = 0,
       allocated_pages = \<lparr>bm_buffer = \<lparr>span_data = 0, span_size = 0\<rparr>\<rparr>\<rparr>\<rparr>"

definition memmap_demo :: "u64 \<Rightarrow> memmap_entry list" where
  "memmap_demo len = [\<lparr>entry_base = 0, entry_length = 4096, entry_type = LIMINE_MEMMAP_OTHER\<rparr>,
     \<lparr>entry_base = 4096, entry_length = len, entry_type = LIMINE_MEMMAP_USABLE\<rparr>]"

lemma memmap_demo_ok:
  assumes "len \<in> {24576, 61440}"
  shows "memmap_ok (memmap_demo len)"
proof -
  have "memmap_apart (memmap_demo len)" using assms
    by (auto simp: memmap_apart_def memmap_demo_def less_Suc_eq apart_def entry_end_def)
  moreover have "page_aligned len" using assms by (auto simp: page_aligned_def)
  ultimately show ?thesis using assms
    by (auto simp: memmap_ok_def memmap_demo_def entry_end_def page_aligned_def)
qed

text \<open>
  C2: \<^verbatim>\<open>pmm_load\<close> establishes the allocator's invariant. Given a memory map as the boot protocol
  documents it, with room for the bitmap, the load returns; it manages the pages below the
  top of memory, and a page is free exactly when it is usable and does not hold the bitmap.
\<close>

theorem pmm_load_establishes_inv:
  assumes "loadable es s"
  shows "\<exists>s'. pmm_load s = Inr s' \<and> pmm_inv s' \<and> npages s' = memmap_top es div 4096 \<and>
    (\<forall>p < npages s'. \<not> allocd s' p \<longleftrightarrow> usable_page es p \<and> \<not> under_bitmap s' p)"
  using assms by (rule pmm_load_ok)

theorem pmm_load_establishes_inv_witness:
  "\<exists>s'. pmm_load (boot_demo (memmap_demo 61440)) = Inr s' \<and> pmm_inv s' \<and> npages s' = 16 \<and>
    (\<forall>p < npages s'. \<not> allocd s' p \<longleftrightarrow>
       usable_page (memmap_demo 61440) p \<and> \<not> under_bitmap s' p)"
proof -
  have top: "memmap_top (memmap_demo 61440) = 65536"
    by (simp add: memmap_top_def memmap_demo_def is_ram_def entry_end_def)
  have "loadable (memmap_demo 61440) (boot_demo (memmap_demo 61440))"
    using memmap_demo_ok[of 61440] unfolding loadable_def top
    by (simp add: boot_demo_def hhdm_offset_def page_aligned_def bitmap_bytes_def round_up_def)
      (simp add: memmap_demo_def)
  from pmm_load_establishes_inv[OF this] show ?thesis unfolding top by simp
qed

text \<open>
  The size computation of \<^verbatim>\<open>pmm__reserve_bitmap\<close> rounds the number of bytes down before it
  rounds up to pages. With fewer than eight pages of memory the size is 0, and loading stops at
  the assertion of \<^verbatim>\<open>make_span\<close> although the memory map is a documented one.
\<close>

theorem pmm_load_small_machine:
  assumes "memmap_resp s = Some es" "memmap_ok es" "hhdm_resp s = Some off"
    "highest_page (pmm_inst s) = 0" "memmap_top es div 4096 < 8" "\<exists>e \<in> set es. usable e"
  shows "pmm_load s = Inl AssertFail"
proof -
  define s1 where "s1 = s\<lparr>pmm_inst := (pmm_inst s)\<lparr>highest_page := of_nat (memmap_top es)\<rparr>\<rparr>"
  have np: "npages s1 < 8" using memmap_top_lt[OF assms(2)] assms(5)
    by (simp add: s1_def npages_def unat_of_nat_u64)
  then have "unat ((of_nat (npages s1) :: u64) div 8) = 0"
    by (simp only: unat_div unat_npages) simp
  then have "(of_nat (npages s1) :: u64) div 8 = 0" by (simp only: unat_eq_zero)
  then have sz: "align_size_up (of_nat (npages s1) div 8) 4096 = Inr 0"
    by (simp add: align_size_up_def)
  obtain i where loop: "pmm__reserve_loop 0 0 es s1 = reserve_in 0 i (es ! i) s1"
    using pmm__reserve_loop_finds[of es 0 0 s1] assms(6) by auto
  have "pmm__reserve_bitmap s1 = Inl AssertFail"
    using assms(1,3) pmm__get_page_count_eq[of s1] sz loop
    by (simp add: pmm__reserve_bitmap_def s1_def reserve_in_def hhdm_p2v_def make_span_def)
  then show ?thesis using pmm__find_highest_page_eq[OF assms(1,2,4)] assms(1)
    by (simp add: pmm_load_def s1_def)
qed

theorem pmm_load_small_machine_witness:
  "pmm_load (boot_demo (memmap_demo 24576)) = Inl AssertFail"
proof -
  have top: "memmap_top (memmap_demo 24576) div 4096 < 8"
    by (simp add: memmap_top_def memmap_demo_def is_ram_def entry_end_def)
  show ?thesis
    by (rule pmm_load_small_machine[OF _ memmap_demo_ok _ _ top, where off = 268435456])
      (simp_all add: boot_demo_def memmap_demo_def)
qed

end
