(* ===== verification/Cpu.thy ===== *)
theory Cpu
  imports Prelude
begin

section \<open>Processor identification (kernel/cpu/cpuid.c)\<close>

text \<open>
  \<^verbatim>\<open>cpuid\<close> first asks the instruction for the highest leaf of the range the requested leaf
  belongs to and only then executes it for that leaf. The instruction itself is hardware: it is
  a parameter, a function from leaf and subleaf to the four registers.
\<close>

record cpuid_regs =
  r_eax :: u32
  r_ebx :: u32
  r_ecx :: u32
  r_edx :: u32

type_synonym cpuid_insn = "u32 \<Rightarrow> u32 \<Rightarrow> cpuid_regs"

definition cpuid__range_base :: "u32 \<Rightarrow> u32" where
  "cpuid__range_base leaf =
     (if leaf \<ge> 0x80000000 then 0x80000000 else if leaf \<ge> 0x40000000 then 0x40000000 else 0)"

text \<open>\<open>None\<close> is the result \<^verbatim>\<open>false\<close>, in which the output registers are not written.\<close>

definition cpuid :: "cpuid_insn \<Rightarrow> u32 \<Rightarrow> u32 \<Rightarrow> cpuid_regs option" where
  "cpuid insn leaf subleaf =
     (let base = cpuid__range_base leaf; max_leaf = r_eax (insn base 0) in
      if leaf > max_leaf then None else Some (insn leaf subleaf))"

lemma cpuid_range_base_le: "cpuid__range_base leaf \<le> leaf"
  by (simp add: cpuid__range_base_def)

text \<open>A leaf is only read when the processor announces it for its own range.\<close>

lemma cpuid_eq_Some:
  "cpuid insn leaf subleaf = Some r \<longleftrightarrow>
     leaf \<le> r_eax (insn (cpuid__range_base leaf) 0) \<and> r = insn leaf subleaf"
  by (auto simp: cpuid_def Let_def not_less)

end
