(* ===== verification/PageTable.thy ===== *)
theory PageTable
  imports Prelude "HOL-Library.Sublist"
begin

section \<open>Page tables in memory\<close>

text \<open>
  The entry format of \<^verbatim>\<open>kernel/include/kernel/mem/vmm.h\<close> and the helpers of
  \<^verbatim>\<open>kernel/src/mem/vmm.c\<close> on single entries, followed by what the hardware sees: a table is a
  page of 512 entries, the tables of an address space form a tree, and a path of indices leads
  from the root to a table (\<open>tbl\<close>) or to the entry that translates an address (\<open>walk\<close>).

  \<open>pt_wf\<close> is the well-formedness of such a tree: different paths lead to different tables, all
  of them pages of a given set. Under it the effect of storing one entry is local: only paths
  through that entry are affected. The three kinds of store that the code performs (a leaf, a
  new table, a change of flags) are treated once here.
\<close>

subsection \<open>Entries\<close>

abbreviation MM_PAGE_4KB :: u64 where "MM_PAGE_4KB \<equiv> 4096"
abbreviation MM_PAGE_2MB :: u64 where "MM_PAGE_2MB \<equiv> 2097152"
abbreviation MM_PAGE_1GB :: u64 where "MM_PAGE_1GB \<equiv> 1073741824"

definition MM_PT_FLAG_VALID :: u64 where "MM_PT_FLAG_VALID = push_bit 0 1"
definition MM_PT_FLAG_WRITE :: u64 where "MM_PT_FLAG_WRITE = push_bit 1 1"
definition MM_PT_FLAG_USER :: u64 where "MM_PT_FLAG_USER = push_bit 2 1"
definition MM_PT_FLAG_LARGE :: u64 where "MM_PT_FLAG_LARGE = push_bit 7 1"
definition MM_PT_FLAG_GLOBAL :: u64 where "MM_PT_FLAG_GLOBAL = push_bit 8 1"
definition MM_PT_FLAG_NX :: u64 where "MM_PT_FLAG_NX = push_bit 63 1"
definition MM_PT_PADDR_MASK :: u64 where "MM_PT_PADDR_MASK = 0x0000FFFFFFFFF000"

definition MM_PT_KERN_TABLE_FLAGS :: u64 where
  "MM_PT_KERN_TABLE_FLAGS = MM_PT_FLAG_VALID OR MM_PT_FLAG_WRITE"

definition MM_PT_USER_TABLE_FLAGS :: u64 where
  "MM_PT_USER_TABLE_FLAGS = MM_PT_FLAG_VALID OR MM_PT_FLAG_WRITE OR MM_PT_FLAG_USER"

definition MM_PT_DEFAULT_FLAGS :: "u64 \<Rightarrow> u64" where
  "MM_PT_DEFAULT_FLAGS x = x AND (MM_PT_FLAG_WRITE OR MM_PT_FLAG_NX)"

definition pml5_index :: "u64 \<Rightarrow> usize" where "pml5_index va = drop_bit 48 va AND 0x1FF"
definition pml4_index :: "u64 \<Rightarrow> usize" where "pml4_index va = drop_bit 39 va AND 0x1FF"
definition pml3_index :: "u64 \<Rightarrow> usize" where "pml3_index va = drop_bit 30 va AND 0x1FF"
definition pml2_index :: "u64 \<Rightarrow> usize" where "pml2_index va = drop_bit 21 va AND 0x1FF"
definition pml1_index :: "u64 \<Rightarrow> usize" where "pml1_index va = drop_bit 12 va AND 0x1FF"

definition pte_present :: "u64 \<Rightarrow> bool" where
  "pte_present pte \<longleftrightarrow> pte AND MM_PT_FLAG_VALID \<noteq> 0"

definition pte_large :: "u64 \<Rightarrow> bool" where
  "pte_large pte \<longleftrightarrow> pte AND MM_PT_FLAG_LARGE \<noteq> 0"

text \<open>The entries read bit by bit.\<close>

lemma bit_single: "n < 64 \<Longrightarrow> bit (push_bit n (1 :: u64)) k \<longleftrightarrow> k = n"
  by (auto simp: bit_exp_iff)

lemma mask_bits:
  "bit MM_PT_FLAG_VALID k \<longleftrightarrow> k = 0" "bit MM_PT_FLAG_WRITE k \<longleftrightarrow> k = 1"
  "bit MM_PT_FLAG_USER k \<longleftrightarrow> k = 2" "bit MM_PT_FLAG_LARGE k \<longleftrightarrow> k = 7"
  "bit MM_PT_FLAG_GLOBAL k \<longleftrightarrow> k = 8" "bit MM_PT_FLAG_NX k \<longleftrightarrow> k = 63"
  unfolding MM_PT_FLAG_VALID_def MM_PT_FLAG_WRITE_def MM_PT_FLAG_USER_def MM_PT_FLAG_LARGE_def
    MM_PT_FLAG_GLOBAL_def MM_PT_FLAG_NX_def
  by (rule bit_single, simp)+

lemma paddr_mask_bits: "bit MM_PT_PADDR_MASK k \<longleftrightarrow> 12 \<le> k \<and> k < 48"
proof -
  have "MM_PT_PADDR_MASK = push_bit 12 (mask 36)"
    by (simp add: MM_PT_PADDR_MASK_def mask_eq_exp_minus_1 push_bit_eq_mult)
  moreover have "bit (push_bit 12 (mask 36 :: u64)) k \<longleftrightarrow> 12 \<le> k \<and> k < 48"
    by (auto simp: bit_push_bit_iff bit_mask_iff)
  ultimately show ?thesis by metis
qed

lemma word_and_single:
  assumes "\<And>k. bit b k \<longleftrightarrow> k = n"
  shows "(a :: u64) AND b \<noteq> 0 \<longleftrightarrow> bit a n"
  using bit_eq_iff[of "a AND b" 0] assms bit_imp_le_length[of b n] by (auto simp: bit_and_iff)

lemma pte_present_bit: "pte_present e \<longleftrightarrow> bit e 0"
  unfolding pte_present_def by (rule word_and_single) (rule mask_bits)

lemma pte_large_bit: "pte_large e \<longleftrightarrow> bit e 7"
  unfolding pte_large_def by (rule word_and_single) (rule mask_bits)

lemma pte_user_bit: "e AND MM_PT_FLAG_USER \<noteq> 0 \<longleftrightarrow> bit e 2"
  by (rule word_and_single) (rule mask_bits)

lemmas pte_bits = pte_present_bit pte_large_bit mask_bits paddr_mask_bits bit_or_iff bit_and_iff
  MM_PT_KERN_TABLE_FLAGS_def MM_PT_USER_TABLE_FLAGS_def MM_PT_DEFAULT_FLAGS_def

lemma pte_zero [simp]: "\<not> pte_present 0"
  by (simp add: pte_present_def)

text \<open>The frame of an entry: the physical address it points to.\<close>

definition pte_frame :: "u64 \<Rightarrow> u64" where
  "pte_frame e = e AND MM_PT_PADDR_MASK"

definition pte_child :: "u64 \<Rightarrow> u64 \<Rightarrow> uptr" where
  "pte_child off e = pte_frame e + off"

subsection \<open>Paths\<close>

fun tbl :: "memory \<Rightarrow> u64 \<Rightarrow> uptr \<Rightarrow> nat list \<Rightarrow> uptr option" where
  "tbl m off t [] = Some t"
| "tbl m off t (i # is) =
     (if pte_present (load64 m (cell t i)) \<and> \<not> pte_large (load64 m (cell t i))
      then tbl m off (pte_child off (load64 m (cell t i))) is else None)"

text \<open>
  The translating entry, with the number of levels below it: 0 for a 4 KB page, 1 for a 2 MB
  page, 2 for a 1 GB page.
\<close>

fun walk :: "memory \<Rightarrow> u64 \<Rightarrow> uptr \<Rightarrow> nat list \<Rightarrow> (u64 \<times> nat) option" where
  "walk m off t [] = None"
| "walk m off t (i # is) =
     (if \<not> pte_present (load64 m (cell t i)) then None
      else if is = [] \<or> pte_large (load64 m (cell t i)) then Some (load64 m (cell t i), length is)
      else walk m off (pte_child off (load64 m (cell t i))) is)"

lemma tbl_append: "tbl m off t (p @ q) = Option.bind (tbl m off t p) (\<lambda>a. tbl m off a q)"
  by (induction p arbitrary: t) auto

lemma walk_append: "tbl m off t p = Some a \<Longrightarrow> q \<noteq> [] \<Longrightarrow> walk m off t (p @ q) = walk m off a q"
  by (induction p arbitrary: t) (auto split: if_splits)

definition valid_path :: "nat \<Rightarrow> nat list \<Rightarrow> bool" where
  "valid_path n p \<longleftrightarrow> length p \<le> n \<and> (\<forall>i \<in> set p. i < 512)"

lemma valid_path_simps [simp]:
  "valid_path n []" "valid_path n (i # p) \<longleftrightarrow> 0 < n \<and> i < 512 \<and> valid_path (n - 1) p"
  by (auto simp: valid_path_def)

lemma valid_path_appendD: "valid_path n (p @ q) \<Longrightarrow> valid_path n p"
  by (auto simp: valid_path_def)

text \<open>
  A tree of depth \<open>n\<close>: \<open>n = 3\<close> for a PML4 root, \<open>n = 4\<close> for a PML5 root. \<open>Own\<close> is the set of
  pages that may serve as tables.
\<close>

definition pt_wf :: "memory \<Rightarrow> u64 \<Rightarrow> nat \<Rightarrow> uptr \<Rightarrow> uptr set \<Rightarrow> bool" where
  "pt_wf m off n t Own \<longleftrightarrow> (\<forall>a \<in> Own. page_aligned a) \<and>
     (\<forall>p a. valid_path n p \<and> tbl m off t p = Some a \<longrightarrow> a \<in> Own) \<and>
     (\<forall>p q a. valid_path n p \<and> valid_path n q \<and> tbl m off t p = Some a \<and> tbl m off t q = Some a \<longrightarrow> p = q)"

text \<open>
  Large leaves occur only where the hardware has them and point to a frame of their size.
\<close>

definition large_entry_ok :: "nat \<Rightarrow> u64 \<Rightarrow> bool" where
  "large_entry_ok r e \<longleftrightarrow> (pte_present e \<and> pte_large e \<longrightarrow>
     r \<le> 2 \<and> take_bit (12 + 9 * r) (pte_frame e) = 0)"

definition large_ok :: "memory \<Rightarrow> u64 \<Rightarrow> nat \<Rightarrow> uptr \<Rightarrow> bool" where
  "large_ok m off n t \<longleftrightarrow> (\<forall>p a i. valid_path n p \<and> length p < n \<and> tbl m off t p = Some a \<and> i < 512 \<longrightarrow>
     large_entry_ok (n - length p) (load64 m (cell a i)))"

lemma pt_wfD:
  assumes "pt_wf m off n t Own"
  shows "valid_path n p \<Longrightarrow> tbl m off t p = Some a \<Longrightarrow> a \<in> Own \<and> page_aligned a"
    "valid_path n p \<Longrightarrow> valid_path n q \<Longrightarrow> tbl m off t p = Some a \<Longrightarrow> tbl m off t q = Some a \<Longrightarrow> p = q"
  using assms by (auto simp: pt_wf_def)

lemma large_okD:
  assumes "large_ok m off n t" "valid_path n p" "length p < n" "tbl m off t p = Some a" "i < 512"
  shows "large_entry_ok (n - length p) (load64 m (cell a i))"
  using assms by (auto simp: large_ok_def)

text \<open>Memories that agree on the pages of \<open>Own\<close> have the same tree.\<close>

definition same_pages :: "uptr set \<Rightarrow> memory \<Rightarrow> memory \<Rightarrow> bool" where
  "same_pages Own m m' \<longleftrightarrow> (\<forall>a \<in> Own. \<forall>x. in_page a x \<longrightarrow> m' x = m x)"

lemma same_pages_load: "same_pages Own m m' \<Longrightarrow> a \<in> Own \<Longrightarrow> i < 512 \<Longrightarrow>
    load64 m' (cell a i) = load64 m (cell a i)"
  by (rule load64_page_cong) (auto simp: same_pages_def)

lemma tbl_same_pages:
  assumes "same_pages Own m m'" "\<And>p a. valid_path n p \<Longrightarrow> tbl m off t p = Some a \<Longrightarrow> a \<in> Own"
    "valid_path n q"
  shows "tbl m' off t q = tbl m off t q"
  using assms(2,3)
proof (induction q arbitrary: t n)
  case (Cons i q)
  have t: "t \<in> Own" using Cons.prems(1)[of "[]" t] by simp
  have same: "load64 m' (cell t i) = load64 m (cell t i)"
    using same_pages_load[OF assms(1) t] Cons.prems(2) by simp
  show ?case
  proof (cases "pte_present (load64 m (cell t i)) \<and> \<not> pte_large (load64 m (cell t i))")
    case True
    have "tbl m' off (pte_child off (load64 m (cell t i))) q = tbl m off (pte_child off (load64 m (cell t i))) q"
    proof (rule Cons.IH)
      fix p a assume "valid_path (n - 1) p" "tbl m off (pte_child off (load64 m (cell t i))) p = Some a"
      then show "a \<in> Own" using Cons.prems True by (intro Cons.prems(1)[of "i # p"]) auto
    qed (use Cons.prems(2) in simp)
    with True same show ?thesis by simp
  qed (use same in auto)
qed simp

lemma walk_same_pages:
  assumes "same_pages Own m m'" "\<And>p a. valid_path n p \<Longrightarrow> tbl m off t p = Some a \<Longrightarrow> a \<in> Own"
    "length q \<le> Suc n" "\<forall>i \<in> set q. i < 512"
  shows "walk m' off t q = walk m off t q"
  using assms(2,3,4)
proof (induction q arbitrary: t n)
  case (Cons i q)
  have t: "t \<in> Own" using Cons.prems(1)[of "[]" t] by simp
  have same: "load64 m' (cell t i) = load64 m (cell t i)"
    using same_pages_load[OF assms(1) t] Cons.prems(3) by simp
  show ?case
  proof (cases "pte_present (load64 m (cell t i)) \<and> \<not> pte_large (load64 m (cell t i)) \<and> q \<noteq> []")
    case True
    then have n: "0 < n" using Cons.prems(2) by (cases q) auto
    have "walk m' off (pte_child off (load64 m (cell t i))) q = walk m off (pte_child off (load64 m (cell t i))) q"
    proof (rule Cons.IH)
      fix p a assume "valid_path (n - 1) p" "tbl m off (pte_child off (load64 m (cell t i))) p = Some a"
      then show "a \<in> Own" using Cons.prems True n by (intro Cons.prems(1)[of "i # p"]) auto
    qed (use Cons.prems n in auto)
    with True same show ?thesis by simp
  qed (use same in auto)
qed simp

subsection \<open>Storing one entry\<close>

text \<open>
  Throughout, \<open>a\<close> is the table at path \<open>p\<close> and entry \<open>i\<close> of it receives the value \<open>v\<close>. Paths
  that do not pass through that entry are not affected.
\<close>

lemma load_after_store:
  assumes wf: "pt_wf m off n t Own" and p: "valid_path n p" "tbl m off t p = Some a"
    and q: "valid_path n q" "tbl m off t q = Some b" and ij: "i < 512" "j < 512"
  shows "load64 (store64 (cell a i) v m) (cell b j) =
    (if q = p \<and> j = i then v else load64 m (cell b j))"
proof -
  have "page_aligned a" "page_aligned b" using pt_wfD(1)[OF wf] p q by blast+
  moreover have "a = b \<longleftrightarrow> q = p" using pt_wfD(2)[OF wf q(1) p(1)] p(2) q(2) by auto
  ultimately show ?thesis using ij by (auto simp: load64_store64_cell)
qed

lemma tbl_store_other:
  assumes wf: "pt_wf m off n t Own" and p: "valid_path n p" "tbl m off t p = Some a" and i: "i < 512"
    and q: "valid_path n q" "\<not> prefix (p @ [i]) q"
  shows "tbl (store64 (cell a i) v m) off t q = tbl m off t q"
  using q
proof (induction q rule: rev_induct)
  case (snoc j q)
  have "\<not> prefix (p @ [i]) q" using snoc.prems(2) by (auto simp: prefix_def)
  moreover have q: "valid_path n q" "j < 512" using snoc.prems(1) by (auto simp: valid_path_def)
  ultimately have IH: "tbl (store64 (cell a i) v m) off t q = tbl m off t q" using snoc.IH by blast
  show ?case
  proof (cases "tbl m off t q")
    case (Some b)
    have "\<not> (q = p \<and> j = i)" using snoc.prems(2) by auto
    then have "load64 (store64 (cell a i) v m) (cell b j) = load64 m (cell b j)"
      using load_after_store[OF wf p q(1) Some i q(2)] by auto
    then show ?thesis using IH Some by (simp add: tbl_append)
  qed (use IH in \<open>simp add: tbl_append\<close>)
qed simp

lemma walk_store_other:
  assumes wf: "pt_wf m off n t Own" and p: "valid_path n p" "tbl m off t p = Some a" and i: "i < 512"
    and q: "length q = Suc n" "\<forall>k \<in> set q. k < 512" "\<not> prefix (p @ [i]) q"
  shows "walk (store64 (cell a i) v m) off t q = walk m off t q"
proof -
  have "walk (store64 (cell a i) v m) off b r = walk m off b r"
    if "tbl m off t p' = Some b" "p' @ r = q" "r \<noteq> []" for p' b r
    using that
  proof (induction r arbitrary: p' b)
    case (Cons j r)
    have p': "valid_path n p'" "j < 512" using Cons.prems(2) q by (auto simp: valid_path_def)
    have "\<not> (p' = p \<and> j = i)" using Cons.prems(2) q(3) by auto
    then have same: "load64 (store64 (cell a i) v m) (cell b j) = load64 m (cell b j)"
      using load_after_store[OF wf p p'(1) Cons.prems(1) i p'(2)] by auto
    have "walk (store64 (cell a i) v m) off (pte_child off (load64 m (cell b j))) r =
        walk m off (pte_child off (load64 m (cell b j))) r"
      if "pte_present (load64 m (cell b j))" "\<not> pte_large (load64 m (cell b j))" "r \<noteq> []"
      using Cons.IH[of "p' @ [j]"] Cons.prems that by (simp add: tbl_append)
    with same show ?case by auto
  qed simp
  moreover have "q \<noteq> []" using q(1) by auto
  ultimately show ?thesis using tbl.simps(1) by (metis append_Nil)
qed

lemma tbl_store_same:
  assumes wf: "pt_wf m off n t Own" and p: "valid_path n p" "tbl m off t p = Some a" and i: "i < 512"
  shows "tbl (store64 (cell a i) v m) off t p = Some a"
    "load64 (store64 (cell a i) v m) (cell a i) = v"
  using tbl_store_other[OF wf p i p(1)] p(2) by (auto simp: load64_store64_same prefix_def)

lemma tbl_store_through:
  assumes wf: "pt_wf m off n t Own" and p: "valid_path n p" "tbl m off t p = Some a" and i: "i < 512"
  shows "tbl (store64 (cell a i) v m) off t (p @ i # r) =
    (if pte_present v \<and> \<not> pte_large v then tbl (store64 (cell a i) v m) off (pte_child off v) r else None)"
  using tbl_store_same[OF assms] by (simp add: tbl_append)

lemma walk_store_through:
  assumes wf: "pt_wf m off n t Own" and p: "valid_path n p" "tbl m off t p = Some a" and i: "i < 512"
  shows "walk (store64 (cell a i) v m) off t (p @ i # r) =
    (if \<not> pte_present v then None else if r = [] \<or> pte_large v then Some (v, length r)
     else walk (store64 (cell a i) v m) off (pte_child off v) r)"
  using tbl_store_same[OF assms] by (simp add: walk_append)

text \<open>A leaf: an entry of a lowest table, or one that is absent or large.\<close>

lemma store_leaf:
  assumes wf: "pt_wf m off n t Own" and p: "valid_path n p" "tbl m off t p = Some a" and i: "i < 512"
    and v: "length p = n \<or> \<not> pte_present v \<or> pte_large v"
  shows "pt_wf (store64 (cell a i) v m) off n t Own"
    "\<And>q b. valid_path n q \<Longrightarrow> tbl (store64 (cell a i) v m) off t q = Some b \<Longrightarrow> tbl m off t q = Some b"
proof -
  let ?m = "store64 (cell a i) v m"
  show sub: "tbl ?m off t q = Some b \<Longrightarrow> tbl m off t q = Some b" if q: "valid_path n q" for q b
  proof (cases "prefix (p @ [i]) q")
    case True
    then obtain r where r: "q = p @ i # r" by (auto simp: prefix_def)
    then have "length p < n" using q by (auto simp: valid_path_def)
    then show "tbl ?m off t q = Some b \<Longrightarrow> tbl m off t q = Some b"
      using v tbl_store_through[OF wf p i, of v r] r by auto
  qed (use tbl_store_other[OF wf p i q] in simp)
  then show "pt_wf ?m off n t Own" using wf unfolding pt_wf_def by blast
qed

text \<open>A new table: a page \<open>c\<close> of \<open>Own\<close> that is not yet in the tree and holds no tables itself.\<close>

lemma store_table:
  assumes wf: "pt_wf m off n t Own" and p: "valid_path n p" "tbl m off t p = Some a" and i: "i < 512"
    and v: "pte_present v" "\<not> pte_large v" "pte_child off v = c" and c: "c \<in> Own" and n: "length p < n"
    and fresh: "\<And>q. valid_path n q \<Longrightarrow> tbl m off t q \<noteq> Some c"
    and flat: "\<And>j. j < 512 \<Longrightarrow> Suc (length p) < n \<Longrightarrow>
      \<not> pte_present (load64 m (cell c j)) \<or> pte_large (load64 m (cell c j))"
  shows "pt_wf (store64 (cell a i) v m) off n t Own"
    "tbl (store64 (cell a i) v m) off t (p @ [i]) = Some c"
    "\<And>q b. valid_path n q \<Longrightarrow> tbl (store64 (cell a i) v m) off t q = Some b \<Longrightarrow>
       if q = p @ [i] then b = c else tbl m off t q = Some b"
proof -
  let ?m = "store64 (cell a i) v m"
  have ac: "a \<noteq> c" using fresh[OF p(1)] p(2) by auto
  have al: "page_aligned a" "page_aligned c" using pt_wfD(1)[OF wf p] c wf by (auto simp: pt_wf_def)
  have at_c: "load64 ?m (cell c j) = load64 m (cell c j)" if "j < 512" for j
    using al ac i that by (simp add: load64_store64_cell)
  show new: "tbl ?m off t (p @ [i]) = Some c" using tbl_store_through[OF wf p i, of v "[]"] v by simp
  show key: "if q = p @ [i] then b = c else tbl m off t q = Some b"
    if q: "valid_path n q" and some: "tbl ?m off t q = Some b" for q b
  proof (cases "prefix (p @ [i]) q")
    case True
    then obtain r where r: "q = p @ i # r" by (auto simp: prefix_def)
    show ?thesis
    proof (cases r)
      case Nil
      then show ?thesis using some r new by simp
    next
      case (Cons j r')
      then have "j < 512" "Suc (length p) < n" using q r by (auto simp: valid_path_def)
      then have "tbl ?m off c (j # r') = None" using at_c flat by auto
      then show ?thesis using some r Cons tbl_store_through[OF wf p i, of v r] v by simp
    qed
  next
    case False
    then show ?thesis using some tbl_store_other[OF wf p i q] by auto
  qed
  have "q = q'" if q: "valid_path n q" "valid_path n q'" "tbl ?m off t q = Some b" "tbl ?m off t q' = Some b" for q q' b
    using key[OF q(1,3)] key[OF q(2,4)] fresh[OF q(1)] fresh[OF q(2)] pt_wfD(2)[OF wf q(1,2)]
    by (auto split: if_splits)
  moreover have "b \<in> Own" if "valid_path n q" "tbl ?m off t q = Some b" for q b
    using key[OF that] c pt_wfD(1)[OF wf that(1)] by (auto split: if_splits)
  ultimately show "pt_wf ?m off n t Own" using wf unfolding pt_wf_def by blast
qed

text \<open>A change of flags: the entry still leads to the same table.\<close>

lemma store_flags:
  assumes wf: "pt_wf m off n t Own" and p: "valid_path n p" "tbl m off t p = Some a" and i: "i < 512"
    and old: "pte_present (load64 m (cell a i))" "\<not> pte_large (load64 m (cell a i))"
    and v: "pte_present v" "\<not> pte_large v" "pte_child off v = pte_child off (load64 m (cell a i))"
    and q: "valid_path n q" and n: "length p < n"
  shows "tbl (store64 (cell a i) v m) off t q = tbl m off t q"
  using q
proof (induction q rule: rev_induct)
  case (snoc j q)
  have q: "valid_path n q" "j < 512" using snoc.prems by (auto simp: valid_path_def)
  with snoc.IH have IH: "tbl (store64 (cell a i) v m) off t q = tbl m off t q" by blast
  show ?case
  proof (cases "tbl m off t q")
    case (Some b)
    then have "load64 (store64 (cell a i) v m) (cell b j) = (if q = p \<and> j = i then v else load64 m (cell b j))"
      using load_after_store[OF wf p q(1) Some i q(2)] by simp
    then show ?thesis using IH Some old v p(2) by (auto simp: tbl_append)
  qed (use IH in \<open>simp add: tbl_append\<close>)
qed simp

lemma walk_store_flags:
  assumes wf: "pt_wf m off n t Own" and p: "valid_path n p" "tbl m off t p = Some a" and i: "i < 512"
    and old: "pte_present (load64 m (cell a i))" "\<not> pte_large (load64 m (cell a i))"
    and v: "pte_present v" "\<not> pte_large v" "pte_child off v = pte_child off (load64 m (cell a i))"
    and n: "length p < n" and q: "length q = Suc n" "\<forall>k \<in> set q. k < 512"
  shows "walk (store64 (cell a i) v m) off t q = walk m off t q"
proof -
  have "walk (store64 (cell a i) v m) off b r = walk m off b r"
    if "tbl m off t p' = Some b" "p' @ r = q" "r \<noteq> []" for p' b r
    using that
  proof (induction r arbitrary: p' b)
    case (Cons j r)
    have p': "valid_path n p'" "j < 512" using Cons.prems(2) q by (auto simp: valid_path_def)
    have new: "load64 (store64 (cell a i) v m) (cell b j) = (if p' = p \<and> j = i then v else load64 m (cell b j))"
      using load_after_store[OF wf p p'(1) Cons.prems(1) i p'(2)] by simp
    have b: "p' = p \<Longrightarrow> b = a \<and> r \<noteq> []" using Cons.prems p(2) q(1) n by auto
    have "walk (store64 (cell a i) v m) off (pte_child off (load64 m (cell b j))) r =
        walk m off (pte_child off (load64 m (cell b j))) r"
      if "pte_present (load64 m (cell b j))" "\<not> pte_large (load64 m (cell b j))" "r \<noteq> []"
      using Cons.IH[of "p' @ [j]"] Cons.prems that by (simp add: tbl_append)
    with new b old v show ?case by auto
  qed simp
  moreover have "q \<noteq> []" using q(1) by auto
  ultimately show ?thesis using tbl.simps(1) by (metis append_Nil)
qed

lemma pt_wf_tbl_cong:
  "pt_wf m off n t Own \<Longrightarrow> (\<And>q. valid_path n q \<Longrightarrow> tbl m' off t q = tbl m off t q) \<Longrightarrow> pt_wf m' off n t Own"
  unfolding pt_wf_def by auto

lemma large_ok_store:
  assumes wf: "pt_wf m off n t Own" and p: "valid_path n p" "tbl m off t p = Some a" and i: "i < 512"
    and old: "large_ok m off n t" and v: "length p < n \<Longrightarrow> large_entry_ok (n - length p) v"
    and key: "\<And>q b. valid_path n q \<Longrightarrow> tbl (store64 (cell a i) v m) off t q = Some b \<Longrightarrow>
      tbl m off t q = Some b \<or> (b \<noteq> a \<and> page_aligned b \<and>
        (\<forall>j < 512. length q < n \<longrightarrow> large_entry_ok (n - length q) (load64 m (cell b j))))"
  shows "large_ok (store64 (cell a i) v m) off n t"
  unfolding large_ok_def
proof (intro allI impI, elim conjE)
  fix q b and j :: nat
  assume q: "valid_path n q" "length q < n" "tbl (store64 (cell a i) v m) off t q = Some b" "j < 512"
  from key[OF q(1,3)] show "large_entry_ok (n - length q) (load64 (store64 (cell a i) v m) (cell b j))"
  proof
    assume b: "tbl m off t q = Some b"
    show ?thesis using load_after_store[OF wf p q(1) b i q(4), of v] large_okD[OF old q(1,2) b q(4)] v q(2)
      by auto
  next
    assume b: "b \<noteq> a \<and> page_aligned b \<and>
      (\<forall>j < 512. length q < n \<longrightarrow> large_entry_ok (n - length q) (load64 m (cell b j)))"
    moreover have "page_aligned a" using pt_wfD(1)[OF wf p] by simp
    ultimately show ?thesis using i q by (auto simp: load64_store64_cell)
  qed
qed

lemma large_ok_same_pages:
  assumes "same_pages Own m m'" "pt_wf m off n t Own" "large_ok m off n t"
  shows "large_ok m' off n t" "pt_wf m' off n t Own"
proof -
  have own: "\<And>p a. valid_path n p \<Longrightarrow> tbl m off t p = Some a \<Longrightarrow> a \<in> Own" using pt_wfD(1)[OF assms(2)] by blast
  have same: "tbl m' off t q = tbl m off t q" if "valid_path n q" for q
    using tbl_same_pages[OF assms(1), of n off t q] own that by blast
  show "pt_wf m' off n t Own" using assms(2) same by (rule pt_wf_tbl_cong)
  show "large_ok m' off n t" unfolding large_ok_def
  proof (intro allI impI, elim conjE)
    fix p a i assume p: "valid_path n p" "length p < n" "tbl m' off t p = Some a" "i < (512 :: nat)"
    then have a: "tbl m off t p = Some a" using same by simp
    show "large_entry_ok (n - length p) (load64 m' (cell a i))"
      using large_okD[OF assms(3) p(1,2) a p(4)] same_pages_load[OF assms(1) own[OF p(1) a] p(4)] by simp
  qed
qed

subsection \<open>Translation\<close>

text \<open>The physical address a walk gives: the frame of the entry and the offset in a page of its size.\<close>

definition xlate :: "memory \<Rightarrow> u64 \<Rightarrow> uptr \<Rightarrow> nat list \<Rightarrow> u64 \<Rightarrow> u64 option" where
  "xlate m off t q va = map_option (\<lambda>(e, r). pte_frame e OR take_bit (12 + 9 * r) va) (walk m off t q)"

text \<open>The indices of an address, from the root of a tree of depth \<open>n\<close> down.\<close>

definition va_index :: "nat \<Rightarrow> u64 \<Rightarrow> nat" where
  "va_index k va = unat (drop_bit (12 + 9 * k) va AND 0x1FF)"

definition va_path :: "nat \<Rightarrow> u64 \<Rightarrow> nat list" where
  "va_path n va = map (\<lambda>k. va_index k va) (rev [0..<Suc n])"

lemma va_index_lt [simp]: "va_index k va < 512"
proof -
  have "drop_bit (12 + 9 * k) va AND 0x1FF = take_bit 9 (drop_bit (12 + 9 * k) va)"
    by (simp add: take_bit_eq_mask mask_eq_exp_minus_1)
  then have "va_index k va = take_bit 9 (unat (drop_bit (12 + 9 * k) va))"
    by (simp add: va_index_def unsigned_take_bit_eq)
  then show ?thesis using take_bit_nat_less_exp[of 9 "unat (drop_bit (12 + 9 * k) va)"] by simp
qed

lemma va_path_props: "length (va_path n va) = Suc n" "\<forall>i \<in> set (va_path n va). i < 512"
  by (auto simp: va_path_def)

lemma pml_indices:
  "unat (pml1_index va) = va_index 0 va" "unat (pml2_index va) = va_index 1 va"
  "unat (pml3_index va) = va_index 2 va" "unat (pml4_index va) = va_index 3 va"
  "unat (pml5_index va) = va_index 4 va"
  by (simp_all add: pml1_index_def pml2_index_def pml3_index_def pml4_index_def pml5_index_def va_index_def)

end
