(* ===== verification/Vmm.thy ===== *)
theory Vmm
  imports Pmm PageTable Cpu
begin

section \<open>Virtual memory (kernel/mem/vmm.c)\<close>

text \<open>
  The operations of \<^verbatim>\<open>kernel/src/mem/vmm.c\<close> on the machine state, extended by what the file
  keeps: the kernel's page map, its lock, and the variables of the TLB shootdown. A table is
  reached through the higher-half direct map, so \<^verbatim>\<open>pd[index]\<close> is a 64-bit load at
  \<open>cell pd index\<close>. The test \<^verbatim>\<open>pmap == &kernel_page_map\<close> is on the pointer: \<open>pmap_ptr\<close> says
  whether an operation was handed the kernel's map or another one. \<^verbatim>\<open>invlpg\<close> appends to a log
  the CPU and the address it was executed for.
\<close>

subsection \<open>State\<close>

datatype page_map_level = PML1 | PML2 | PML3 | PML4 | PML5

record page_map =
  pm_level :: page_map_level
  pm_directory :: uptr

datatype pmap_ptr = KernelMap | OtherMap page_map

record vmachine = machine +
  kernel_page_map :: page_map
  vmm_lock :: spinlock
  tlb_shootdown_lock :: spinlock
  tlb_shootdown_base :: uptr
  tlb_shootdown_count :: usize
  tlb_shootdown_ack :: usize
  paging_mode_resp :: "bool option" \<comment> \<open>whether the mode is the five-level one\<close>
  cr3 :: u64
  cpu_insn :: cpuid_insn
  cpu_count :: usize
  this_cpu :: nat
  invlpg_log :: "(nat \<times> u64) list"

definition pmap_of :: "pmap_ptr \<Rightarrow> 'a vmachine_scheme \<Rightarrow> page_map" where
  "pmap_of p s = (case p of KernelMap \<Rightarrow> kernel_page_map s | OtherMap m \<Rightarrow> m)"

subsection \<open>Reading and writing tables\<close>

definition pd_read :: "uptr \<Rightarrow> usize \<Rightarrow> 'a machine_scheme \<Rightarrow> u64 outcome" where
  "pd_read pd index s = (if pd = 0 then Inl NullDeref else Inr (load64 (mem s) (cell pd (unat index))))"

definition pd_write :: "uptr \<Rightarrow> usize \<Rightarrow> u64 \<Rightarrow> 'a machine_scheme \<Rightarrow> ('a machine_scheme) outcome" where
  "pd_write pd index v s =
     (if pd = 0 then Inl NullDeref else Inr (s\<lparr>mem := store64 (cell pd (unat index)) v (mem s)\<rparr>))"

definition pte_p2v :: "u64 \<Rightarrow> 'a machine_scheme \<Rightarrow> uptr outcome" where
  "pte_p2v pte s = hhdm_p2v (pte AND MM_PT_PADDR_MASK) s"

definition vmm__pages_1gb_support :: "'a vmachine_scheme \<Rightarrow> bool" where
  "vmm__pages_1gb_support s =
     (case cpuid (cpu_insn s) 0x80000001 0 of
        Some r \<Rightarrow> r_edx r AND push_bit 26 1 = push_bit 26 1
      | None \<Rightarrow> False)"

definition pd_split :: "uptr \<Rightarrow> usize \<Rightarrow> u64 \<Rightarrow> u64 \<Rightarrow> u64 \<Rightarrow> 'a machine_scheme \<Rightarrow> (uptr \<times> 'a machine_scheme) outcome" where
  "pd_split pd index old_page_size new_page_size table_flags s =
     rbind (pd_read pd index s) (\<lambda>pte.
     if \<not> pte_present pte \<or> \<not> pte_large pte then Inl Panic
     else if \<not> (old_page_size = MM_PAGE_1GB \<and> new_page_size = MM_PAGE_2MB \<or>
                old_page_size = MM_PAGE_2MB \<and> new_page_size = MM_PAGE_4KB) then Inl Panic
     else
       let phys_base = pte AND MM_PT_PADDR_MASK;
           leaf_flags = MM_PT_DEFAULT_FLAGS pte OR MM_PT_FLAG_VALID;
           leaf_flags = (if new_page_size = MM_PAGE_2MB then leaf_flags OR MM_PT_FLAG_LARGE else leaf_flags) in
       rbind (pmm_alloc 1 s) (\<lambda>(child_paddr, s).
       rbind (hhdm_p2v child_paddr s) (\<lambda>child.
       let count = old_page_size div new_page_size in
       rbind (for_r (\<lambda>i s. pd_write child (of_nat i) ((phys_base + of_nat i * new_page_size) OR leaf_flags) s)
         [0..<unat count] s) (\<lambda>s.
       rbind (pd_write pd index (child_paddr OR table_flags) s) (\<lambda>s.
       Inr (child, s))))))"

text \<open>A NULL result is address 0.\<close>

definition pd_get :: "uptr \<Rightarrow> usize \<Rightarrow> 'a machine_scheme \<Rightarrow> uptr outcome" where
  "pd_get pd index s =
     rbind (pd_read pd index s) (\<lambda>pte.
     if pte_present pte \<and> \<not> pte_large pte then pte_p2v pte s else Inr 0)"

definition pd_get_or_create :: "uptr \<Rightarrow> usize \<Rightarrow> page_map_level \<Rightarrow> u64 \<Rightarrow> 'a machine_scheme \<Rightarrow>
    (uptr \<times> 'a machine_scheme) outcome" where
  "pd_get_or_create pd index level table_flags s =
     rbind (pd_read pd index s) (\<lambda>pte.
     if \<not> pte_present pte then
       rbind (pmm_alloc 1 s) (\<lambda>(t_paddr, s).
       rbind (hhdm_p2v t_paddr s) (\<lambda>t_vaddr.
       rbind (pd_write pd index (t_paddr OR table_flags) s) (\<lambda>s.
       Inr (t_vaddr, s))))
     else if \<not> pte_large pte then
       rbind (if table_flags AND MM_PT_FLAG_USER \<noteq> 0 \<and> pte AND MM_PT_FLAG_USER = 0
              then pd_write pd index (pte OR MM_PT_FLAG_USER) s else Inr s) (\<lambda>s.
       rbind (pte_p2v pte s) (\<lambda>t. Inr (t, s)))
     else (case level of
         PML3 \<Rightarrow> pd_split pd index MM_PAGE_1GB MM_PAGE_2MB table_flags s
       | PML2 \<Rightarrow> pd_split pd index MM_PAGE_2MB MM_PAGE_4KB table_flags s
       | _ \<Rightarrow> Inl Panic))"

subsection \<open>Loading\<close>

definition vmm_init :: "'a vmachine_scheme \<Rightarrow> 'a vmachine_scheme" where
  "vmm_init s = s\<lparr>vmm_lock := spinlock_init (vmm_lock s),
     tlb_shootdown_lock := spinlock_init (tlb_shootdown_lock s)\<rparr>"

text \<open>Installing the page-fault callback is part of the exception component.\<close>

definition vmm_load :: "'a vmachine_scheme \<Rightarrow> ('a vmachine_scheme) outcome" where
  "vmm_load s =
     check (paging_mode_resp s \<noteq> None)
     (rbind (hhdm_p2v (cr3 s) s) (\<lambda>pmd_vaddr.
      Inr (s\<lparr>kernel_page_map := \<lparr>pm_level = (if paging_mode_resp s = Some True then PML5 else PML4),
        pm_directory = pmd_vaddr\<rparr>\<rparr>)))"

definition vmm_get_kernel_page_map :: "pmap_ptr" where
  "vmm_get_kernel_page_map = KernelMap"

subsection \<open>Mapping\<close>

lemma for_r_cong [fundef_cong]:
  "xs = ys \<Longrightarrow> s = s' \<Longrightarrow> (\<And>i t. i \<in> set ys \<Longrightarrow> f i t = g i t) \<Longrightarrow> for_r f xs s = for_r g ys s'"
proof -
  assume "xs = ys" "s = s'" and eq: "\<And>i t. i \<in> set ys \<Longrightarrow> f i t = g i t"
  moreover have "for_r f ys s' = for_r g ys s'" using eq by (induction ys arbitrary: s') (auto intro!: rbind_cong)
  ultimately show ?thesis by simp
qed

text \<open>
  \<^verbatim>\<open>vmm_map_impl\<close> as it is written: a 1 GB request on a processor without 1 GB pages first
  calls itself 512 times with 2 MB pages; in every case a 1 GB request then goes on to the code
  below, which treats it like a 2 MB one.
\<close>

function vmm_map_impl :: "page_map \<Rightarrow> u64 \<Rightarrow> u64 \<Rightarrow> u64 \<Rightarrow> u64 \<Rightarrow> 'a vmachine_scheme \<Rightarrow> ('a vmachine_scheme) outcome" where
  "vmm_map_impl pmap va pa flags0 sz s =
     check (sz = MM_PAGE_4KB \<or> sz = MM_PAGE_2MB \<or> sz = MM_PAGE_1GB)
     (rbind (is_ptr_aligned va sz) (\<lambda>va_ok.
      rbind (is_ptr_aligned pa sz) (\<lambda>pa_ok.
      check (va_ok \<and> pa_ok)
      (let flags = flags0 OR MM_PT_FLAG_VALID;
           table_flags = (if flags AND MM_PT_FLAG_USER \<noteq> 0 then MM_PT_USER_TABLE_FLAGS
             else MM_PT_KERN_TABLE_FLAGS) in
       rbind (case pm_level pmap of
           PML5 \<Rightarrow> pd_get_or_create (pm_directory pmap) (pml5_index va) PML5 table_flags s
         | PML4 \<Rightarrow> Inr (pm_directory pmap, s)
         | _ \<Rightarrow> Inl Panic) (\<lambda>(pml4, s).
       rbind (pd_get_or_create pml4 (pml4_index va) PML4 table_flags s) (\<lambda>(pml3, s).
       rbind (if sz = MM_PAGE_1GB then
                (if vmm__pages_1gb_support s
                 then pd_write pml3 (pml3_index va) (pa OR flags OR MM_PT_FLAG_LARGE) s
                 else for_r (\<lambda>k s. vmm_map_impl pmap (va + of_nat k * MM_PAGE_2MB)
                        (pa + of_nat k * MM_PAGE_2MB) flags MM_PAGE_2MB s) [0..<512] s)
              else Inr s) (\<lambda>s.
       rbind (pd_get_or_create pml3 (pml3_index va) PML3 table_flags s) (\<lambda>(pml2, s).
       if sz \<noteq> MM_PAGE_4KB then
         pd_write pml2 (pml2_index va) (pa OR flags OR MM_PT_FLAG_LARGE) s
       else
         rbind (pd_get_or_create pml2 (pml2_index va) PML2 table_flags s) (\<lambda>(pml1, s).
         pd_write pml1 (pml1_index va) (pa OR flags) s)))))))))"
  by pat_completeness auto
termination
  by (relation "measure (\<lambda>(pmap, va, pa, flags, sz, s). if sz = MM_PAGE_1GB then 1 else 0)") auto

declare vmm_map_impl.simps [simp del]

text \<open>The kernel's map is only changed under its lock.\<close>

definition vmm_acquire :: "pmap_ptr \<Rightarrow> 'a vmachine_scheme \<Rightarrow> ('a vmachine_scheme) outcome" where
  "vmm_acquire p s = (if p = KernelMap
     then rbind (spinlock_acquire (vmm_lock s)) (\<lambda>l. Inr (s\<lparr>vmm_lock := l\<rparr>)) else Inr s)"

definition vmm_release :: "pmap_ptr \<Rightarrow> 'a vmachine_scheme \<Rightarrow> 'a vmachine_scheme" where
  "vmm_release p s = (if p = KernelMap then s\<lparr>vmm_lock := spinlock_release (vmm_lock s)\<rparr> else s)"

definition vmm_map :: "pmap_ptr \<Rightarrow> u64 \<Rightarrow> u64 \<Rightarrow> u64 \<Rightarrow> u64 \<Rightarrow> 'a vmachine_scheme \<Rightarrow> ('a vmachine_scheme) outcome" where
  "vmm_map p va pa flags sz s =
     rbind (vmm_acquire p s) (\<lambda>s.
     rbind (vmm_map_impl (pmap_of p s) va pa flags sz s) (\<lambda>s.
     Inr (vmm_release p s)))"

subsection \<open>Unmapping\<close>

definition vmm_invalidate_page :: "u64 \<Rightarrow> 'a vmachine_scheme \<Rightarrow> 'a vmachine_scheme" where
  "vmm_invalidate_page va s = s\<lparr>invlpg_log := invlpg_log s @ [(this_cpu s, va)]\<rparr>"

text \<open>The code of \<^verbatim>\<open>vmm_unmap_impl\<close> after its switch, from the PML4 table on; likewise below.\<close>

definition vmm_unmap_pml4 :: "uptr \<Rightarrow> u64 \<Rightarrow> 'a vmachine_scheme \<Rightarrow> ('a vmachine_scheme) outcome" where
  "vmm_unmap_pml4 pml4 va s =
     rbind (pd_read pml4 (pml4_index va) s) (\<lambda>e.
     if \<not> pte_present e then Inr s
     else if pte_large e then Inl Panic
     else rbind (pd_get pml4 (pml4_index va) s) (\<lambda>pml3.
     rbind (pd_read pml3 (pml3_index va) s) (\<lambda>e.
     if \<not> pte_present e then Inr s
     else if pte_large e then
       rbind (pd_write pml3 (pml3_index va) 0 s) (\<lambda>s. Inr (vmm_invalidate_page va s))
     else rbind (pd_get pml3 (pml3_index va) s) (\<lambda>pml2.
     rbind (pd_read pml2 (pml2_index va) s) (\<lambda>e.
     if \<not> pte_present e then Inr s
     else if pte_large e then
       rbind (pd_write pml2 (pml2_index va) 0 s) (\<lambda>s. Inr (vmm_invalidate_page va s))
     else rbind (pd_get pml2 (pml2_index va) s) (\<lambda>pml1.
     rbind (pd_read pml1 (pml1_index va) s) (\<lambda>e.
     if \<not> pte_present e then Inr s
     else rbind (pd_write pml1 (pml1_index va) 0 s) (\<lambda>s. Inr (vmm_invalidate_page va s)))))))))"

definition vmm_unmap_impl :: "page_map \<Rightarrow> u64 \<Rightarrow> 'a vmachine_scheme \<Rightarrow> ('a vmachine_scheme) outcome" where
  "vmm_unmap_impl pmap va s =
     (case pm_level pmap of
        PML5 \<Rightarrow>
          rbind (pd_read (pm_directory pmap) (pml5_index va) s) (\<lambda>e.
          if \<not> pte_present e then Inr s
          else if pte_large e then Inl Panic
          else rbind (pd_get (pm_directory pmap) (pml5_index va) s) (\<lambda>pml4. vmm_unmap_pml4 pml4 va s))
      | PML4 \<Rightarrow> vmm_unmap_pml4 (pm_directory pmap) va s
      | _ \<Rightarrow> Inl Panic)"

definition vmm_unmap :: "pmap_ptr \<Rightarrow> u64 \<Rightarrow> 'a vmachine_scheme \<Rightarrow> ('a vmachine_scheme) outcome" where
  "vmm_unmap p va s =
     rbind (vmm_acquire p s) (\<lambda>s.
     rbind (vmm_unmap_impl (pmap_of p s) va s) (\<lambda>s.
     Inr (vmm_release p s)))"

definition vmm_switch_page_map :: "pmap_ptr \<Rightarrow> 'a vmachine_scheme \<Rightarrow> ('a vmachine_scheme) outcome" where
  "vmm_switch_page_map p s =
     rbind (hhdm_v2p (pm_directory (pmap_of p s)) s) (\<lambda>pa. Inr (s\<lparr>cr3 := pa\<rparr>))"

subsection \<open>TLB shootdown\<close>

definition invalidate_range :: "u64 \<Rightarrow> usize \<Rightarrow> 'a vmachine_scheme \<Rightarrow> 'a vmachine_scheme" where
  "invalidate_range base count s =
     fold (\<lambda>i. vmm_invalidate_page (base + of_nat i * 4096)) [0..<unat count] s"

definition vmm_tlb_flush_handle :: "'a vmachine_scheme \<Rightarrow> 'a vmachine_scheme" where
  "vmm_tlb_flush_handle s =
     (let base = tlb_shootdown_base s; count = tlb_shootdown_count s;
          s = invalidate_range base count s in
      s\<lparr>tlb_shootdown_ack := tlb_shootdown_ack s + 1\<rparr>)"

text \<open>The handler as it runs on another CPU, in answer to the interrupt.\<close>

definition on_cpu :: "nat \<Rightarrow> ('a vmachine_scheme \<Rightarrow> 'a vmachine_scheme) \<Rightarrow> 'a vmachine_scheme \<Rightarrow> 'a vmachine_scheme" where
  "on_cpu k f s = (f (s\<lparr>this_cpu := k\<rparr>))\<lparr>this_cpu := this_cpu s\<rparr>"

text \<open>
  \<open>responders\<close> are the CPUs that take the interrupt before the wait ends. With fewer
  acknowledgements than expected the last loop spins for ever.
\<close>

definition vmm_shootdown_range :: "nat list \<Rightarrow> u64 \<Rightarrow> usize \<Rightarrow> 'a vmachine_scheme \<Rightarrow> ('a vmachine_scheme) outcome" where
  "vmm_shootdown_range responders va_base page_count s =
     (if page_count = 0 then Inr s
      else if cpu_count s \<le> 1 then Inr (invalidate_range va_base page_count s)
      else rbind (spinlock_acquire (tlb_shootdown_lock s)) (\<lambda>l.
        let s = s\<lparr>tlb_shootdown_lock := l, tlb_shootdown_base := va_base,
              tlb_shootdown_count := page_count, tlb_shootdown_ack := 0\<rparr>;
            s = fold (\<lambda>k. on_cpu k vmm_tlb_flush_handle) responders s;
            s = invalidate_range va_base page_count s;
            expected = cpu_count s - 1 in
        if tlb_shootdown_ack s < expected then Inl Deadlock
        else Inr (s\<lparr>tlb_shootdown_lock := spinlock_release (tlb_shootdown_lock s)\<rparr>)))"

subsection \<open>Translation\<close>

definition vmm_translate_pml4 :: "uptr \<Rightarrow> u64 \<Rightarrow> 'a vmachine_scheme \<Rightarrow> u64 outcome" where
  "vmm_translate_pml4 pml4 va s =
     rbind (pd_read pml4 (pml4_index va) s) (\<lambda>e.
     if \<not> pte_present e then Inl Panic
     else if pte_large e then Inr ((e AND MM_PT_PADDR_MASK) OR (va AND (MM_PAGE_1GB - 1)))
     else rbind (pte_p2v e s) (\<lambda>pml3.
     rbind (pd_read pml3 (pml3_index va) s) (\<lambda>e.
     if \<not> pte_present e then Inl Panic
     else if pte_large e then Inr ((e AND MM_PT_PADDR_MASK) OR (va AND (MM_PAGE_2MB - 1)))
     else rbind (pte_p2v e s) (\<lambda>pml2.
     rbind (pd_read pml2 (pml2_index va) s) (\<lambda>e.
     if \<not> pte_present e then Inl Panic
     else if pte_large e then Inr ((e AND MM_PT_PADDR_MASK) OR (va AND (MM_PAGE_2MB - 1)))
     else rbind (pte_p2v e s) (\<lambda>pml1.
     rbind (pd_read pml1 (pml1_index va) s) (\<lambda>e.
     if \<not> pte_present e then Inl Panic
     else Inr ((e AND MM_PT_PADDR_MASK) OR (va AND (MM_PAGE_4KB - 1))))))))))"

definition vmm_translate_impl :: "page_map \<Rightarrow> u64 \<Rightarrow> 'a vmachine_scheme \<Rightarrow> u64 outcome" where
  "vmm_translate_impl pmap va s =
     (case pm_level pmap of
        PML5 \<Rightarrow>
          rbind (pd_read (pm_directory pmap) (pml5_index va) s) (\<lambda>e.
          if \<not> pte_present e then Inl Panic
          else if pte_large e then Inr ((e AND MM_PT_PADDR_MASK) OR (va AND (MM_PAGE_1GB - 1)))
          else rbind (pte_p2v e s) (\<lambda>pml4. vmm_translate_pml4 pml4 va s))
      | PML4 \<Rightarrow> vmm_translate_pml4 (pm_directory pmap) va s
      | _ \<Rightarrow> Inl Panic)"

definition vmm_translate :: "pmap_ptr \<Rightarrow> u64 \<Rightarrow> 'a vmachine_scheme \<Rightarrow> (u64 \<times> 'a vmachine_scheme) outcome" where
  "vmm_translate p va s =
     rbind (vmm_acquire p s) (\<lambda>s.
     rbind (vmm_translate_impl (pmap_of p s) va s) (\<lambda>pa.
     Inr (pa, vmm_release p s)))"

definition vmm_is_mapped_pml4 :: "uptr \<Rightarrow> u64 \<Rightarrow> 'a vmachine_scheme \<Rightarrow> bool outcome" where
  "vmm_is_mapped_pml4 pml4 va s =
     rbind (pd_read pml4 (pml4_index va) s) (\<lambda>e.
     if \<not> pte_present e then Inr False
     else if pte_large e then Inr True
     else rbind (pte_p2v e s) (\<lambda>pml3.
     rbind (pd_read pml3 (pml3_index va) s) (\<lambda>e.
     if \<not> pte_present e then Inr False
     else if pte_large e then Inr True
     else rbind (pte_p2v e s) (\<lambda>pml2.
     rbind (pd_read pml2 (pml2_index va) s) (\<lambda>e.
     if \<not> pte_present e then Inr False
     else if pte_large e then Inr True
     else rbind (pte_p2v e s) (\<lambda>pml1.
     rbind (pd_read pml1 (pml1_index va) s) (\<lambda>e.
     Inr (pte_present e))))))))"

definition vmm_is_mapped_impl :: "page_map \<Rightarrow> u64 \<Rightarrow> 'a vmachine_scheme \<Rightarrow> bool outcome" where
  "vmm_is_mapped_impl pmap va s =
     (case pm_level pmap of
        PML5 \<Rightarrow>
          rbind (pd_read (pm_directory pmap) (pml5_index va) s) (\<lambda>e.
          if \<not> pte_present e then Inr False
          else if pte_large e then Inr True
          else rbind (pte_p2v e s) (\<lambda>pml4. vmm_is_mapped_pml4 pml4 va s))
      | PML4 \<Rightarrow> vmm_is_mapped_pml4 (pm_directory pmap) va s
      | _ \<Rightarrow> Inl Panic)"

definition vmm_is_mapped :: "pmap_ptr \<Rightarrow> u64 \<Rightarrow> 'a vmachine_scheme \<Rightarrow> (bool \<times> 'a vmachine_scheme) outcome" where
  "vmm_is_mapped p va s =
     rbind (vmm_acquire p s) (\<lambda>s.
     rbind (vmm_is_mapped_impl (pmap_of p s) va s) (\<lambda>b.
     Inr (b, vmm_release p s)))"

subsection \<open>Making, destroying and cloning page maps\<close>

definition vmm_make_page_map :: "'a vmachine_scheme \<Rightarrow> (page_map \<times> 'a vmachine_scheme) outcome" where
  "vmm_make_page_map s =
     check (paging_mode_resp s \<noteq> None)
     (let level = (if paging_mode_resp s = Some True then PML5 else PML4) in
      rbind (pmm_alloc 1 s) (\<lambda>(pa, s).
      rbind (hhdm_p2v pa s) (\<lambda>va.
      rbind (for_r (\<lambda>i s.
          rbind (pd_read (pm_directory (kernel_page_map s)) (of_nat i) s) (\<lambda>e.
          pd_write va (of_nat i) e s)) [256..<512] s) (\<lambda>s.
      Inr (\<lparr>pm_level = level, pm_directory = va\<rparr>, s)))))"

fun next_level :: "page_map_level \<Rightarrow> page_map_level outcome" where
  "next_level PML5 = Inr PML4"
| "next_level PML4 = Inr PML3"
| "next_level PML3 = Inr PML2"
| "next_level PML2 = Inr PML1"
| "next_level PML1 = Inl Panic"

fun level_nat :: "page_map_level \<Rightarrow> nat" where
  "level_nat PML1 = 0"
| "level_nat PML2 = 1"
| "level_nat PML3 = 2"
| "level_nat PML4 = 3"
| "level_nat PML5 = 4"

lemma next_level_decreases: "next_level l = Inr l' \<Longrightarrow> level_nat l' < level_nat l"
  by (cases l) auto

function vmm_destroy_tables :: "uptr \<Rightarrow> page_map_level \<Rightarrow> 'a vmachine_scheme \<Rightarrow> ('a vmachine_scheme) outcome" where
  "vmm_destroy_tables pt level s =
     (if pt = 0 then Inr s
      else if level = PML1 then Inr s
      else
        let entry_limit = (if level = PML4 \<or> level = PML5 then 256 else 512) in
        for_r (\<lambda>i s.
          rbind (pd_read pt (of_nat i) s) (\<lambda>pte.
          if \<not> pte_present pte \<or> pte_large pte \<or> pte AND MM_PT_FLAG_USER = 0 then Inr s
          else rbind (pte_p2v pte s) (\<lambda>child.
          rbind (next_level level) (\<lambda>next_lv.
          rbind (if next_lv \<noteq> PML1 then vmm_destroy_tables child next_lv s else Inr s) (\<lambda>s.
          rbind (hhdm_v2p child s) (\<lambda>child_paddr.
          rbind (pmm_free child_paddr 1 s) (\<lambda>s.
          pd_write pt (of_nat i) 0 s))))))) [0..<entry_limit] s)"
  by pat_completeness auto
termination
  by (relation "measure (\<lambda>(pt, level, s). level_nat level)") (auto dest: next_level_decreases)

declare vmm_destroy_tables.simps [simp del]

text \<open>\<open>None\<close> is a NULL pointer to a page map. The result is the map after the call.\<close>

definition vmm_destroy_page_map :: "pmap_ptr option \<Rightarrow> 'a vmachine_scheme \<Rightarrow> (pmap_ptr option \<times> 'a vmachine_scheme) outcome" where
  "vmm_destroy_page_map p s =
     (case p of
        None \<Rightarrow> Inr (None, s)
      | Some q \<Rightarrow>
          if pm_directory (pmap_of q s) = 0 then Inr (p, s)
          else (case q of
              KernelMap \<Rightarrow> Inl Panic
            | OtherMap pmap \<Rightarrow>
                rbind (vmm_destroy_tables (pm_directory pmap) (pm_level pmap) s) (\<lambda>s.
                rbind (hhdm_v2p (pm_directory pmap) s) (\<lambda>pa.
                rbind (pmm_free pa 1 s) (\<lambda>s.
                Inr (Some (OtherMap (pmap\<lparr>pm_directory := 0\<rparr>)), s))))))"

function vmm_clone_tables :: "uptr \<Rightarrow> uptr \<Rightarrow> page_map_level \<Rightarrow> 'a vmachine_scheme \<Rightarrow> ('a vmachine_scheme) outcome" where
  "vmm_clone_tables dst_tbl src_tbl level s =
     for_r (\<lambda>i s.
       rbind (pd_read src_tbl (of_nat i) s) (\<lambda>src_pte.
       if \<not> pte_present src_pte then Inr s
       else if src_pte AND MM_PT_FLAG_USER = 0 then pd_write dst_tbl (of_nat i) src_pte s
       else if pte_large src_pte then pd_write dst_tbl (of_nat i) src_pte s
       else rbind (pmm_alloc 1 s) (\<lambda>(child_paddr, s).
       rbind (hhdm_p2v child_paddr s) (\<lambda>child.
       rbind (pd_write dst_tbl (of_nat i) (child_paddr OR MM_PT_USER_TABLE_FLAGS) s) (\<lambda>s.
       rbind (pte_p2v src_pte s) (\<lambda>src_child.
       rbind (next_level level) (\<lambda>next_lv.
       vmm_clone_tables child src_child next_lv s))))))) [0..<512] s"
  by pat_completeness auto
termination
  by (relation "measure (\<lambda>(d, t, level, s). level_nat level)") (auto dest: next_level_decreases)

declare vmm_clone_tables.simps [simp del]

definition vmm_clone_page_map :: "page_map \<Rightarrow> 'a vmachine_scheme \<Rightarrow> (page_map \<times> 'a vmachine_scheme) outcome" where
  "vmm_clone_page_map src s =
     rbind (pmm_alloc 1 s) (\<lambda>(pa, s).
     rbind (hhdm_p2v pa s) (\<lambda>va.
     rbind (vmm_clone_tables va (pm_directory src) (pm_level src) s) (\<lambda>s.
     Inr (\<lparr>pm_level = pm_level src, pm_directory = va\<rparr>, s))))"

end
