(* ===== verification/Vmm_Tables.thy ===== *)
theory Vmm_Tables
  imports Vmm
begin

section \<open>Creating and splitting page tables\<close>

text \<open>
  The invariant of an address space (\<open>vm_inv\<close>) and its preservation by \<^verbatim>\<open>pd_get_or_create\<close>,
  the step from one level of the tree to the next that every mapping takes. The step keeps the
  translation of every address, whether it finds a table, creates an empty one, or splits a
  large page into a table of smaller ones.
\<close>

subsection \<open>The invariant of an address space\<close>

definition table_pages :: "'a machine_scheme \<Rightarrow> uptr set" where
  "table_pages s = {page_va s k |k. 0 < k \<and> k < npages s \<and> allocd s k \<and> \<not> under_bitmap s k}"

definition free_pages :: "'a machine_scheme \<Rightarrow> nat set" where
  "free_pages s = {k. k < npages s \<and> \<not> allocd s k}"

text \<open>
  \<open>n\<close> is the depth of the tree. Physical memory ends below \<open>2^48\<close>, so that every frame fits
  the address field of an entry.
\<close>

definition vm_inv :: "nat \<Rightarrow> uptr \<Rightarrow> 'a machine_scheme \<Rightarrow> bool" where
  "vm_inv n root s \<longleftrightarrow> pmm_inv s \<and> npages s \<le> 2 ^ 36 \<and>
     pt_wf (mem s) (hhdm_offset s) n root (table_pages s) \<and> large_ok (mem s) (hhdm_offset s) n root"

lemma finite_free_pages [simp]: "finite (free_pages s)"
  by (simp add: free_pages_def)

lemma mem_update_view [simp]:
  "npages (s\<lparr>mem := m\<rparr>) = npages s" "hhdm_offset (s\<lparr>mem := m\<rparr>) = hhdm_offset s"
  "page_va (s\<lparr>mem := m\<rparr>) = page_va s" "under_bitmap (s\<lparr>mem := m\<rparr>) = under_bitmap s"
  by (simp_all add: npages_def hhdm_offset_def page_va_def under_bitmap_def fun_eq_iff)

lemma pmm_inv_facts:
  assumes "pmm_inv s"
  shows "page_aligned (hhdm_offset s)" "hhdm_offset s \<noteq> 0" "hhdm_resp s = Some (hhdm_offset s)"
    "npages s \<le> bm_cap (page_bits s)" "unat (hhdm_offset s) + 4096 * bm_cap (page_bits s) \<le> 2 ^ 64"
    "bm_wf (page_bits s)"
  using assms by (auto simp: pmm_inv_def hhdm_offset_def)

lemma page_va_facts:
  assumes "pmm_inv s" "k < npages s"
  shows "page_aligned (page_va s k)" "page_va s k \<noteq> 0"
    "unat (page_va s k) = unat (hhdm_offset s) + 4096 * k"
proof -
  note f = pmm_inv_facts[OF assms(1)]
  show "page_aligned (page_va s k)"
    unfolding page_va_def by (intro page_aligned_add page_aligned_mult4096 f(1))
  show u: "unat (page_va s k) = unat (hhdm_offset s) + 4096 * k"
    using unat_page_va[OF f(5)] f(4) assms(2) by simp
  have "0 < unat (hhdm_offset s)" using f(2) by (simp add: unat_gt_0)
  with u show "page_va s k \<noteq> 0" by auto
qed

lemma page_va_inj:
  assumes "pmm_inv s" "k < npages s" "j < npages s"
  shows "page_va s k = page_va s j \<longleftrightarrow> k = j"
proof
  assume "page_va s k = page_va s j"
  then have "unat (page_va s k) = unat (page_va s j)" by (rule arg_cong)
  then have "unat (hhdm_offset s) + 4096 * k = unat (hhdm_offset s) + 4096 * j"
    unfolding page_va_facts(3)[OF assms(1,2)] page_va_facts(3)[OF assms(1,3)] .
  then show "k = j" by linarith
qed simp

lemma table_page_cases:
  assumes "pmm_inv s" "a \<in> table_pages s"
  obtains k where "a = page_va s k" "0 < k" "k < npages s" "allocd s k" "\<not> under_bitmap s k"
    "page_aligned a" "a \<noteq> 0"
proof -
  obtain k where k: "a = page_va s k" "0 < k" "k < npages s" "allocd s k" "\<not> under_bitmap s k"
    using assms(2) unfolding table_pages_def by blast
  with that page_va_facts(1,2)[OF assms(1) k(3)] show ?thesis by blast
qed

lemma page_off_bitmap:
  assumes inv: "pmm_inv s" and k: "k < npages s" "\<not> under_bitmap s k" and x: "in_page (page_va s k) x"
  shows "\<not> in_range (bm_base (page_bits s)) (bm_len (page_bits s)) x"
proof
  assume y: "in_range (bm_base (page_bits s)) (bm_len (page_bits s)) x"
  note f = pmm_inv_facts[OF inv]
  have va: "unat (page_va s k) = unat (hhdm_offset s) + 4096 * k" using page_va_facts(3)[OF inv k(1)] .
  have "unat (page_va s k) + 4096 \<le> 2 ^ 64" using va f(4,5) k(1) by linarith
  then have x': "unat (page_va s k) \<le> unat x \<and> unat x < unat (page_va s k) + 4096"
    using x in_range_iff[of "page_va s k" 4096 x] by (simp add: in_range_page)
  have "unat (bm_base (page_bits s)) + bm_len (page_bits s) \<le> 2 ^ 64" using inv by (simp add: pmm_inv_def)
  then have "unat (bm_base (page_bits s)) \<le> unat x \<and> unat x < unat (bm_base (page_bits s)) + bm_len (page_bits s)"
    using y by (simp add: in_range_iff)
  with x' va have "under_bitmap s k" unfolding under_bitmap_def by linarith
  with k(2) show False by simp
qed

text \<open>Memories that agree under the bitmap have the same pages allocated.\<close>

lemma bitmap_same:
  assumes inv: "pmm_inv s"
    and same: "\<And>x. in_range (bm_base (page_bits s)) (bm_len (page_bits s)) x \<Longrightarrow> m' x = mem s x"
  shows "pmm_inv (s\<lparr>mem := m'\<rparr>)" "table_pages (s\<lparr>mem := m'\<rparr>) = table_pages s"
    "free_pages (s\<lparr>mem := m'\<rparr>) = free_pages s"
proof -
  note f = pmm_inv_facts[OF inv]
  have bits: "allocd (s\<lparr>mem := m'\<rparr>) j = allocd s j" if "j < bm_cap (page_bits s)" for j
    unfolding allocd_def using bm_bit_cong[OF same that f(6)] by simp
  have "0 < bm_cap (page_bits s)" using f(6) by (simp add: bm_wf_def bm_cap_def)
  with bits show "pmm_inv (s\<lparr>mem := m'\<rparr>)" using inv by (auto simp: pmm_inv_def)
  show "table_pages (s\<lparr>mem := m'\<rparr>) = table_pages s" "free_pages (s\<lparr>mem := m'\<rparr>) = free_pages s"
    using bits f(4) by (auto simp: table_pages_def free_pages_def)
qed

lemma store_in_table:
  assumes inv: "pmm_inv s" and a: "a \<in> table_pages s" and i: "i < 512"
  shows "pmm_inv (s\<lparr>mem := store64 (cell a i) v (mem s)\<rparr>)"
    "table_pages (s\<lparr>mem := store64 (cell a i) v (mem s)\<rparr>) = table_pages s"
    "free_pages (s\<lparr>mem := store64 (cell a i) v (mem s)\<rparr>) = free_pages s"
proof -
  obtain k where k: "a = page_va s k" "k < npages s" "\<not> under_bitmap s k" "page_aligned a"
    using table_page_cases[OF inv a] by blast
  have "store64 (cell a i) v (mem s) x = mem s x"
    if "in_range (bm_base (page_bits s)) (bm_len (page_bits s)) x" for x
    using store64_outside_page[OF k(4) i] page_off_bitmap[OF inv k(2,3)] that k(1) by blast
  from bitmap_same[OF inv this] show "pmm_inv (s\<lparr>mem := store64 (cell a i) v (mem s)\<rparr>)"
    "table_pages (s\<lparr>mem := store64 (cell a i) v (mem s)\<rparr>) = table_pages s"
    "free_pages (s\<lparr>mem := store64 (cell a i) v (mem s)\<rparr>) = free_pages s" by auto
qed

subsection \<open>A fresh page\<close>

lemma pmm_alloc_table:
  assumes inv: "pmm_inv s" and free: "free_pages s \<noteq> {}"
  obtains k m' where "pmm_alloc 1 s = Inr (of_nat k * 4096, s\<lparr>mem := m'\<rparr>)" "pmm_inv (s\<lparr>mem := m'\<rparr>)"
    "0 < k" "k < npages s" "page_va s k \<notin> table_pages s"
    "table_pages (s\<lparr>mem := m'\<rparr>) = insert (page_va s k) (table_pages s)"
    "free_pages (s\<lparr>mem := m'\<rparr>) = free_pages s - {k}"
    "same_pages (table_pages s) (mem s) m'" "\<And>j. j < 512 \<Longrightarrow> load64 m' (cell (page_va s k) j) = 0"
proof -
  note f = pmm_inv_facts[OF inv]
  obtain b where "b < npages s" "\<not> allocd s b" using free by (auto simp: free_pages_def)
  then obtain k m' where a: "pmm_alloc 1 s = Inr (of_nat k * 4096, s\<lparr>mem := m'\<rparr>)" "k < npages s" "0 < k"
    "\<not> allocd s k" "allocated_range k 1 s m'" "pmm_inv (s\<lparr>mem := m'\<rparr>)"
    using pmm_alloc_page[OF inv] by blast
  have bits: "allocd (s\<lparr>mem := m'\<rparr>) j \<longleftrightarrow> j = k \<or> allocd s j" if "j < npages s" for j
    using a(5) that f(4) by (auto simp: allocated_range_def allocd_def)
  have nub: "\<not> under_bitmap s k" using inv a(2,4) f(4) by (auto simp: pmm_inv_def)
  have notin: "page_va s k \<notin> table_pages s"
    using a(2,4) page_va_inj[OF inv] by (auto simp: table_pages_def)
  have tp: "table_pages (s\<lparr>mem := m'\<rparr>) = insert (page_va s k) (table_pages s)"
    using bits a(2,3) nub by (auto simp: table_pages_def)
  have fp: "free_pages (s\<lparr>mem := m'\<rparr>) = free_pages s - {k}"
    using bits by (auto simp: free_pages_def)
  have page: "in_range (page_va s k) 4096 x \<longleftrightarrow> in_page (page_va s k) x" for x by (rule in_range_page)
  have zero: "load64 m' (cell (page_va s k) j) = 0" if "j < 512" for j
    using a(5) page that by (intro load64_page_zero) (simp_all add: allocated_range_def)
  have "m' x = mem s x" if t: "t \<in> table_pages s" and x: "in_page t x" for t x
  proof -
    obtain j where j: "t = page_va s j" "j < npages s" "\<not> under_bitmap s j" "page_aligned t"
      using table_page_cases[OF inv t] by blast
    have "\<not> in_page (page_va s k) x"
      using in_page_unique[OF j(4) page_va_facts(1)[OF inv a(2)] x] notin t by auto
    moreover have "\<not> in_range (bm_base (page_bits s)) (bm_len (page_bits s)) x"
      using page_off_bitmap[OF inv j(2,3)] x j(1) by blast
    ultimately show ?thesis using a(5) page by (simp add: allocated_range_def)
  qed
  then have "same_pages (table_pages s) (mem s) m'" by (auto simp: same_pages_def)
  with that a(1,2,3,6) notin tp fp zero show ?thesis by blast
qed

subsection \<open>Frames of entries\<close>

definition flags_ok :: "u64 \<Rightarrow> bool" where
  "flags_ok f \<longleftrightarrow> pte_frame f = 0"

lemma bit_pte_frame: "bit (pte_frame e) k \<longleftrightarrow> 12 \<le> k \<and> k < 48 \<and> bit e k"
  by (auto simp: pte_frame_def pte_bits)

lemma pte_frame_or: "pte_frame (a OR b) = pte_frame a OR pte_frame b"
  by (rule bit_word_eqI) (auto simp: bit_pte_frame bit_or_iff)

lemma pte_frame_idem [simp]: "pte_frame (pte_frame e) = pte_frame e"
  by (rule bit_word_eqI) (auto simp: bit_pte_frame)

lemma pte_frame_fits:
  assumes "page_aligned pa" "unat pa < 2 ^ 48"
  shows "pte_frame pa = pa"
proof -
  have "take_bit 48 pa = pa" using assms(2)
    by (simp add: word_eq_iff_unat unsigned_take_bit_eq take_bit_nat_eq_self)
  then have hi: "bit pa k \<Longrightarrow> k < 48" for k by (metis bit_take_bit_iff)
  have "take_bit 12 (unat pa) = 0" using assms(1) by (simp add: page_aligned_def take_bit_eq_mod)
  then have "take_bit 12 pa = 0" by (simp add: word_eq_iff_unat unsigned_take_bit_eq)
  then have lo: "bit pa k \<Longrightarrow> 12 \<le> k" for k by (metis bit_0_eq bit_take_bit_iff bot_apply bot_bool_def not_le)
  show ?thesis by (rule bit_word_eqI) (auto simp: bit_pte_frame hi lo)
qed

lemma page_frame:
  assumes "k < 2 ^ 36"
  shows "pte_frame (of_nat k * 4096) = of_nat k * 4096"
proof (rule pte_frame_fits)
  show "unat (of_nat k * 4096 :: u64) < 2 ^ 48"
    using assms by (simp add: unat_mult_u64 unat_of_nat_u64)
qed (rule page_aligned_mult4096)

lemma table_flags_ok:
  assumes "tf \<in> {MM_PT_KERN_TABLE_FLAGS, MM_PT_USER_TABLE_FLAGS}"
  shows "flags_ok tf" "bit tf 0" "\<not> bit tf 7"
proof -
  have "bit (pte_frame tf) k = bit 0 k" for k using assms by (auto simp: bit_pte_frame pte_bits)
  then show "flags_ok tf" by (simp add: flags_ok_def bit_eq_iff)
  show "bit tf 0" "\<not> bit tf 7" using assms by (auto simp: pte_bits)
qed

lemma paddr_low_bits: "k < 12 \<Longrightarrow> \<not> bit (of_nat p * 4096 :: u64) k"
  by (auto simp: push_bit_eq_mult[of 12, symmetric, simplified] bit_push_bit_iff)

lemma table_entry:
  assumes "tf \<in> {MM_PT_KERN_TABLE_FLAGS, MM_PT_USER_TABLE_FLAGS}" "k < 2 ^ 36"
  shows "pte_present (of_nat k * 4096 OR tf)" "\<not> pte_large (of_nat k * 4096 OR tf)"
    "pte_child off (of_nat k * 4096 OR tf) = of_nat k * 4096 + off"
  using table_flags_ok[OF assms(1)] page_frame[OF assms(2)] paddr_low_bits[of 7 k]
  by (simp_all add: pte_present_bit pte_large_bit bit_or_iff pte_child_def pte_frame_or flags_ok_def)

subsection \<open>Changes outside the tree\<close>

lemma pt_wf_mono:
  "pt_wf m off n t Own \<Longrightarrow> Own \<subseteq> Own' \<Longrightarrow> (\<And>a. a \<in> Own' \<Longrightarrow> page_aligned a) \<Longrightarrow> pt_wf m off n t Own'"
  unfolding pt_wf_def by blast

lemma table_pages_aligned: "pmm_inv s \<Longrightarrow> a \<in> table_pages s \<Longrightarrow> page_aligned a"
  by (erule table_page_cases) auto

lemma xlate_same_pages:
  assumes "same_pages Own m m'" "pt_wf m off n t Own"
  shows "xlate m' off t (va_path n va) va = xlate m off t (va_path n va) va"
  using walk_same_pages[OF assms(1), of n off t "va_path n va"] pt_wfD(1)[OF assms(2)] va_path_props[of n va]
  by (simp add: xlate_def)

lemma off_tree:
  assumes vm: "vm_inv n root s" and inv: "pmm_inv (s\<lparr>mem := m'\<rparr>)"
    and own: "table_pages s \<subseteq> table_pages (s\<lparr>mem := m'\<rparr>)" and same: "same_pages (table_pages s) (mem s) m'"
  shows "vm_inv n root (s\<lparr>mem := m'\<rparr>)"
    "xlate m' (hhdm_offset s) root (va_path n va) va = xlate (mem s) (hhdm_offset s) root (va_path n va) va"
    "valid_path n q \<Longrightarrow> tbl m' (hhdm_offset s) root q = tbl (mem s) (hhdm_offset s) root q"
proof -
  have wf: "pt_wf (mem s) (hhdm_offset s) n root (table_pages s)" and lg: "large_ok (mem s) (hhdm_offset s) n root"
    using vm by (auto simp: vm_inv_def)
  have "pt_wf m' (hhdm_offset s) n root (table_pages (s\<lparr>mem := m'\<rparr>))"
    by (rule pt_wf_mono[OF large_ok_same_pages(2)[OF same wf lg] own]) (rule table_pages_aligned[OF inv])
  then show "vm_inv n root (s\<lparr>mem := m'\<rparr>)"
    using vm inv large_ok_same_pages(1)[OF same wf lg] by (simp add: vm_inv_def)
  show "xlate m' (hhdm_offset s) root (va_path n va) va = xlate (mem s) (hhdm_offset s) root (va_path n va) va"
    by (rule xlate_same_pages[OF same wf])
  show "valid_path n q \<Longrightarrow> tbl m' (hhdm_offset s) root q = tbl (mem s) (hhdm_offset s) root q"
    using tbl_same_pages[OF same, of n] pt_wfD(1)[OF wf] by blast
qed

subsection \<open>Attaching a table\<close>

text \<open>What a step to the next level does: the table at path \<open>q\<close> is \<open>c\<close>, no translation changes.\<close>

definition stepped :: "nat \<Rightarrow> uptr \<Rightarrow> nat list \<Rightarrow> 'a machine_scheme \<Rightarrow> uptr \<Rightarrow> 'a machine_scheme \<Rightarrow> bool" where
  "stepped n root q s c s' \<longleftrightarrow> (\<exists>m'. s' = s\<lparr>mem := m'\<rparr>) \<and> vm_inv n root s' \<and>
     tbl (mem s') (hhdm_offset s) root q = Some c \<and>
     (\<forall>va. xlate (mem s') (hhdm_offset s) root (va_path n va) va = xlate (mem s) (hhdm_offset s) root (va_path n va) va) \<and>
     card (free_pages s) \<le> card (free_pages s') + 1"

lemma attach_table:
  assumes vm: "vm_inv n root s" and p: "valid_path n p" "tbl (mem s) (hhdm_offset s) root p = Some a"
    and i: "i < 512" and n: "length p < n"
    and c: "c \<in> table_pages s" "\<And>q. valid_path n q \<Longrightarrow> tbl (mem s) (hhdm_offset s) root q \<noteq> Some c"
    and v: "pte_present v" "\<not> pte_large v" "pte_child (hhdm_offset s) v = c"
    and flat: "\<And>j. j < 512 \<Longrightarrow> Suc (length p) < n \<Longrightarrow>
      \<not> pte_present (load64 (mem s) (cell c j)) \<or> pte_large (load64 (mem s) (cell c j))"
    and large: "\<And>j. j < 512 \<Longrightarrow> Suc (length p) < n \<Longrightarrow>
      large_entry_ok (n - Suc (length p)) (load64 (mem s) (cell c j))"
    and tr: "\<And>va r. va_path n va = p @ i # r \<Longrightarrow>
      xlate (mem s) (hhdm_offset s) c r va = xlate (mem s) (hhdm_offset s) root (va_path n va) va"
  shows "stepped n root (p @ [i]) s c (s\<lparr>mem := store64 (cell a i) v (mem s)\<rparr>)"
    "free_pages (s\<lparr>mem := store64 (cell a i) v (mem s)\<rparr>) = free_pages s"
proof -
  let ?off = "hhdm_offset s" and ?m = "store64 (cell a i) v (mem s)"
  have inv: "pmm_inv s" and wf: "pt_wf (mem s) ?off n root (table_pages s)" and lg: "large_ok (mem s) ?off n root"
    using vm by (auto simp: vm_inv_def)
  note T = store_table[OF wf p i v c(1) n c(2) flat]
  have ac: "a \<noteq> c" "page_aligned a" "page_aligned c" "a \<in> table_pages s"
    using c(2)[OF p(1)] p(2) pt_wfD(1)[OF wf p] table_pages_aligned[OF inv c(1)] by auto
  note S = store_in_table[OF inv ac(4) i, of v]
  have "large_ok ?m ?off n root"
    by (rule large_ok_store[OF wf p i lg]) (use T(3) ac large v(2) in \<open>force simp: large_entry_ok_def split: if_splits\<close>)+
  then have vm': "vm_inv n root (s\<lparr>mem := ?m\<rparr>)" using vm S(1,2) T(1) by (simp add: vm_inv_def)
  have "xlate ?m ?off root (va_path n va) va = xlate (mem s) ?off root (va_path n va) va" for va
  proof (cases "prefix (p @ [i]) (va_path n va)")
    case True
    then obtain r where r: "va_path n va = p @ i # r" by (auto simp: prefix_def)
    then have len: "length r = n - length p" using va_path_props(1)[of n va] by simp
    then obtain j r' where j: "r = j # r'" using n by (cases r) auto
    then have j512: "j < 512" using r va_path_props(2)[of n va] by auto
    have same: "load64 ?m (cell c j) = load64 (mem s) (cell c j)"
      using ac i j512 by (simp add: load64_store64_cell)
    have "r' \<noteq> [] \<Longrightarrow> Suc (length p) < n" using len j by (cases r') auto
    with flat[OF j512] have "r' \<noteq> [] \<Longrightarrow>
        \<not> pte_present (load64 (mem s) (cell c j)) \<or> pte_large (load64 (mem s) (cell c j))" by blast
    then have "walk ?m ?off c r = walk (mem s) ?off c r" using same j by auto
    then have "walk ?m ?off root (va_path n va) = walk (mem s) ?off c r"
      using walk_store_through[OF wf p i, of v r] v j r by simp
    then show ?thesis using tr[OF r] by (simp add: xlate_def)
  next
    case False
    then show ?thesis using walk_store_other[OF wf p i va_path_props(1,2)] by (simp add: xlate_def)
  qed
  then show "stepped n root (p @ [i]) s c (s\<lparr>mem := ?m\<rparr>)" using vm' T(2) S(3) by (auto simp: stepped_def)
  show "free_pages (s\<lparr>mem := ?m\<rparr>) = free_pages s" by (rule S(3))
qed

text \<open>A page taken for the new table, filled, and attached.\<close>

lemma stepped_alloc:
  assumes alloc: "vm_inv n root s" "pmm_inv (s\<lparr>mem := m1\<rparr>)"
    "table_pages s \<subseteq> table_pages (s\<lparr>mem := m1\<rparr>)" "same_pages (table_pages s) (mem s) m1"
    "free_pages (s\<lparr>mem := m1\<rparr>) = free_pages s - {k}"
    and step: "stepped n root q (s\<lparr>mem := m1\<rparr>) c s2" "free_pages s2 = free_pages (s\<lparr>mem := m1\<rparr>)"
  shows "stepped n root q s c s2"
proof -
  obtain m2 where m2: "s2 = (s\<lparr>mem := m1\<rparr>)\<lparr>mem := m2\<rparr>" using step(1) by (auto simp: stepped_def)
  have "card (free_pages s) \<le> card (free_pages s2) + 1"
    unfolding step(2) alloc(5) using card_Diff1_le[of "free_pages s" k]
    by (cases "k \<in> free_pages s") (simp_all add: card_Suc_Diff1)
  then show ?thesis using step(1) m2 off_tree(2)[OF alloc(1-4)] by (auto simp: stepped_def)
qed

lemma pd_create_ok:
  assumes vm: "vm_inv n root s" and p: "valid_path n p" "tbl (mem s) (hhdm_offset s) root p = Some a"
    and i: "i < 512" and n: "length p < n" and free: "free_pages s \<noteq> {}"
    and tf: "tf \<in> {MM_PT_KERN_TABLE_FLAGS, MM_PT_USER_TABLE_FLAGS}"
    and absent: "\<not> pte_present (load64 (mem s) (cell a i))"
  shows "\<exists>c s'. pd_get_or_create a (of_nat i) level tf s = Inr (c, s') \<and> stepped n root (p @ [i]) s c s'"
proof -
  let ?off = "hhdm_offset s"
  have inv: "pmm_inv s" and wf: "pt_wf (mem s) ?off n root (table_pages s)" and np: "npages s \<le> 2 ^ 36"
    using vm by (auto simp: vm_inv_def)
  have a: "a \<in> table_pages s" using pt_wfD(1)[OF wf p] by simp
  then have a0: "a \<noteq> 0" using table_page_cases[OF inv] by metis
  obtain k m1 where al: "pmm_alloc 1 s = Inr (of_nat k * 4096, s\<lparr>mem := m1\<rparr>)" and inv1: "pmm_inv (s\<lparr>mem := m1\<rparr>)"
    and k: "k < npages s" and fr: "page_va s k \<notin> table_pages s"
    and tp: "table_pages (s\<lparr>mem := m1\<rparr>) = insert (page_va s k) (table_pages s)"
    and fp: "free_pages (s\<lparr>mem := m1\<rparr>) = free_pages s - {k}"
    and same: "same_pages (table_pages s) (mem s) m1"
    and zero: "\<And>j. j < 512 \<Longrightarrow> load64 m1 (cell (page_va s k) j) = 0"
    using pmm_alloc_table[OF inv free] by metis
  let ?s1 = "s\<lparr>mem := m1\<rparr>" and ?c = "page_va s k" and ?v = "of_nat k * 4096 OR tf"
  have sub: "table_pages s \<subseteq> table_pages ?s1" using tp by auto
  note O = off_tree[OF vm inv1 sub same]
  have k36: "k < 2 ^ 36" using k np by simp
  have child: "pte_child ?off ?v = ?c" using table_entry(3)[OF tf k36] by (simp add: page_va_def)
  have not_in: "tbl m1 ?off root q \<noteq> Some ?c" if "valid_path n q" for q
    using O(3)[OF that] pt_wfD(1)[OF wf that] fr by auto
  have ai: "load64 m1 (cell a i) = load64 (mem s) (cell a i)" using same_pages_load[OF same a i] .
  have tr: "xlate m1 ?off ?c r va = xlate m1 ?off root (va_path n va) va" if r: "va_path n va = p @ i # r" for r va
  proof -
    have "length r = n - length p" using va_path_props(1)[of n va] r by simp
    then obtain j r' where j: "r = j # r'" using n by (cases r) auto
    then have "j < 512" using r va_path_props(2)[of n va] by auto
    then have "walk m1 ?off ?c r = None" using zero j by simp
    moreover have "walk m1 ?off root (p @ i # r) = None"
      using walk_append[of m1 ?off root p a "i # r"] O(3)[OF p(1)] p(2) absent ai by simp
    ultimately show ?thesis using r by (simp add: xlate_def)
  qed
  have empty: "\<not> pte_present (load64 m1 (cell ?c j))" if "j < 512" for j using zero[OF that] by simp
  have A: "stepped n root (p @ [i]) ?s1 ?c (?s1\<lparr>mem := store64 (cell a i) ?v (mem ?s1)\<rparr>)"
    "free_pages (?s1\<lparr>mem := store64 (cell a i) ?v (mem ?s1)\<rparr>) = free_pages ?s1"
  proof -
    have t: "tbl (mem ?s1) (hhdm_offset ?s1) root p = Some a" using O(3)[OF p(1)] p(2) by simp
    note attach = attach_table[OF O(1) p(1) t i n, of ?c ?v]
    show "stepped n root (p @ [i]) ?s1 ?c (?s1\<lparr>mem := store64 (cell a i) ?v (mem ?s1)\<rparr>)"
      "free_pages (?s1\<lparr>mem := store64 (cell a i) ?v (mem ?s1)\<rparr>) = free_pages ?s1"
      by (rule attach; use tp not_in table_entry(1,2)[OF tf k36] child empty tr
          in \<open>auto simp: large_entry_ok_def\<close>)+
  qed
  have "pd_get_or_create a (of_nat i) level tf s = Inr (?c, ?s1\<lparr>mem := store64 (cell a i) ?v (mem ?s1)\<rparr>)"
    using a0 absent i al pmm_inv_facts(3)[OF inv]
    by (simp add: pd_get_or_create_def pd_read_def pd_write_def hhdm_p2v_def page_va_def unat_of_nat_u64)
  with stepped_alloc[OF vm inv1 sub same fp A] show ?thesis by blast
qed

subsection \<open>Following a table\<close>

lemma pd_follow_ok:
  assumes vm: "vm_inv n root s" and p: "valid_path n p" "tbl (mem s) (hhdm_offset s) root p = Some a"
    and i: "i < 512" and n: "length p < n"
    and tbl_e: "pte_present (load64 (mem s) (cell a i))" "\<not> pte_large (load64 (mem s) (cell a i))"
  shows "\<exists>c s'. pd_get_or_create a (of_nat i) level tf s = Inr (c, s') \<and> stepped n root (p @ [i]) s c s'"
proof -
  let ?off = "hhdm_offset s" and ?e = "load64 (mem s) (cell a i)"
  let ?v = "?e OR MM_PT_FLAG_USER" and ?c = "pte_child (hhdm_offset s) (load64 (mem s) (cell a i))"
  let ?m = "store64 (cell a i) ?v (mem s)"
  have inv: "pmm_inv s" and wf: "pt_wf (mem s) ?off n root (table_pages s)" and lg: "large_ok (mem s) ?off n root"
    using vm by (auto simp: vm_inv_def)
  have a: "a \<in> table_pages s" using pt_wfD(1)[OF wf p] by simp
  then have a0: "a \<noteq> 0" using table_page_cases[OF inv] by metis
  have c: "tbl (mem s) ?off root (p @ [i]) = Some ?c" using p(2) tbl_e by (simp add: tbl_append)
  have uf: "pte_frame MM_PT_FLAG_USER = 0" by (rule bit_word_eqI) (auto simp: bit_pte_frame mask_bits)
  have v: "pte_present ?v" "\<not> pte_large ?v" "pte_child ?off ?v = ?c"
    using tbl_e uf by (simp_all add: pte_bits pte_child_def pte_frame_or)
  have same: "tbl ?m ?off root q = tbl (mem s) ?off root q" if "valid_path n q" for q
    using store_flags[OF wf p i tbl_e v that n] .
  have "large_ok ?m ?off n root"
    by (rule large_ok_store[OF wf p i lg]) (use same v(2) in \<open>auto simp: large_entry_ok_def\<close>)
  then have vm': "vm_inv n root (s\<lparr>mem := ?m\<rparr>)"
    using vm store_in_table(1,2)[OF inv a i] pt_wf_tbl_cong[OF wf same] by (simp add: vm_inv_def)
  have x: "xlate ?m ?off root (va_path n va) va = xlate (mem s) ?off root (va_path n va) va" for va
    using walk_store_flags[OF wf p i tbl_e v n va_path_props] by (simp add: xlate_def)
  have vp: "valid_path n (p @ [i])" using p(1) i n by (auto simp: valid_path_def)
  have st: "stepped n root (p @ [i]) s ?c (s\<lparr>mem := ?m\<rparr>)"
    using vm' same[OF vp] c x store_in_table(3)[OF inv a i] by (auto simp: stepped_def)
  have st0: "stepped n root (p @ [i]) s ?c s"
    using vm c by (auto simp: stepped_def intro: exI[of _ "mem s"])
  have "pd_get_or_create a (of_nat i) level tf s =
      Inr (?c, if tf AND MM_PT_FLAG_USER \<noteq> 0 \<and> ?e AND MM_PT_FLAG_USER = 0 then s\<lparr>mem := ?m\<rparr> else s)"
    using a0 tbl_e i pmm_inv_facts(3)[OF inv]
    by (simp add: pd_get_or_create_def pd_read_def pd_write_def pte_p2v_def hhdm_p2v_def unat_of_nat_u64
        pte_child_def pte_frame_def)
  with st st0 show ?thesis by (auto split: if_splits)
qed

subsection \<open>Splitting a large page\<close>

lemma fill_table:
  assumes c: "page_aligned c" "c \<noteq> 0"
  obtains m' where
    "for_r (\<lambda>i s. pd_write c (of_nat i) (f i) s) [0..<512] s = Inr (s\<lparr>mem := m'\<rparr>)"
    "\<And>j. j < 512 \<Longrightarrow> load64 m' (cell c j) = f j" "\<And>x. \<not> in_page c x \<Longrightarrow> m' x = mem s x"
proof -
  let ?I = "\<lambda>k t. \<exists>m. t = s\<lparr>mem := m\<rparr> \<and> (\<forall>j < k. load64 m (cell c j) = f j) \<and> (\<forall>x. \<not> in_page c x \<longrightarrow> m x = mem s x)"
  have "\<exists>t. for_r (\<lambda>i s. pd_write c (of_nat i) (f i) s) [0..<512] s = Inr t \<and> ?I 512 t"
  proof (rule for_r_rule)
    show "?I 0 s" by (intro exI[of _ "mem s"]) simp
  next
    fix k t assume k: "k < (512 :: nat)" and "?I k t"
    then obtain m where t: "t = s\<lparr>mem := m\<rparr>" "\<And>j. j < k \<Longrightarrow> load64 m (cell c j) = f j"
      "\<And>x. \<not> in_page c x \<Longrightarrow> m x = mem s x" by auto
    have "pd_write c (of_nat k) (f k) t = Inr (s\<lparr>mem := store64 (cell c k) (f k) m\<rparr>)"
      using t(1) c(2) k by (simp add: pd_write_def unat_of_nat_u64)
    moreover have "load64 (store64 (cell c k) (f k) m) (cell c j) = f j" if "j < Suc k" for j
      using that k t(2) by (auto simp: load64_store64_cell[OF c(1) c(1)] less_Suc_eq)
    moreover have "store64 (cell c k) (f k) m x = mem s x" if "\<not> in_page c x" for x
      using store64_outside_page[OF c(1) k that] t(3)[OF that] by simp
    ultimately show "\<exists>t'. pd_write c (of_nat k) (f k) t = Inr t' \<and> ?I (Suc k) t'" by blast
  qed
  with that show ?thesis by blast
qed

text \<open>The arithmetic of a split: \<open>r\<close> levels below, entry \<open>j\<close> of the new table.\<close>

definition split_entry :: "u64 \<Rightarrow> nat \<Rightarrow> nat \<Rightarrow> u64" where
  "split_entry e r j = (pte_frame e + of_nat j * 2 ^ (12 + 9 * (r - 1))) OR
     (if r = 2 then MM_PT_DEFAULT_FLAGS e OR MM_PT_FLAG_VALID OR MM_PT_FLAG_LARGE
      else MM_PT_DEFAULT_FLAGS e OR MM_PT_FLAG_VALID)"

lemma split_entry_facts:
  assumes r: "r = 1 \<or> r = 2" and al: "take_bit (12 + 9 * r) (pte_frame e) = 0" and j: "j < 512"
  shows "pte_present (split_entry e r j)" "pte_large (split_entry e r j) \<longleftrightarrow> r = 2"
    "pte_frame (split_entry e r j) = pte_frame e OR push_bit (12 + 9 * (r - 1)) (of_nat j)"
proof -
  let ?k = "12 + 9 * (r - 1)"
  have jb: "bit (of_nat j :: u64) b \<Longrightarrow> b < 9" for b
  proof -
    have "take_bit 9 (of_nat j :: u64) = of_nat j"
      using j by (simp add: word_eq_iff_unat unsigned_take_bit_eq unat_of_nat_u64 take_bit_nat_eq_self)
    then show "bit (of_nat j :: u64) b \<Longrightarrow> b < 9" by (metis bit_take_bit_iff)
  qed
  have eb: "bit (pte_frame e) b \<Longrightarrow> 12 + 9 * r \<le> b" for b
    using al by (metis bit_0_eq bit_take_bit_iff bot_apply bot_bool_def not_le)
  have sum: "pte_frame e + of_nat j * 2 ^ ?k = pte_frame e OR push_bit ?k (of_nat j)"
    unfolding push_bit_eq_mult[symmetric]
    by (rule disjunctive_add) (use eb jb r in \<open>force simp: bit_push_bit_iff\<close>)
  have hi: "bit (push_bit ?k (of_nat j :: u64)) b \<Longrightarrow> 12 \<le> b \<and> b < 48" for b
    using jb[of "b - ?k"] r by (auto simp: bit_push_bit_iff)
  show "pte_present (split_entry e r j)" by (simp add: split_entry_def pte_bits)
  show "pte_large (split_entry e r j) \<longleftrightarrow> r = 2"
    unfolding split_entry_def sum using hi[of 7] eb[of 7] by (auto simp: pte_bits)
  show "pte_frame (split_entry e r j) = pte_frame e OR push_bit ?k (of_nat j)"
    unfolding split_entry_def sum
    by (rule bit_word_eqI) (use hi in \<open>auto simp: bit_pte_frame pte_bits\<close>)
qed

text \<open>The offset in the large page is the index in the new table and the offset in the small page.\<close>

lemma split_offset:
  assumes "1 \<le> r"
  shows "take_bit (12 + 9 * r) va =
    push_bit (12 + 9 * (r - 1)) (of_nat (va_index (r - 1) va)) OR take_bit (12 + 9 * (r - 1)) (va :: u64)"
proof (rule bit_word_eqI)
  fix b
  have idx: "of_nat (va_index (r - 1) va) = take_bit 9 (drop_bit (12 + 9 * (r - 1)) va)"
    by (simp add: va_index_def take_bit_eq_mask mask_eq_exp_minus_1)
  show "bit (take_bit (12 + 9 * r) va) b = bit (push_bit (12 + 9 * (r - 1)) (of_nat (va_index (r - 1) va)) OR
      take_bit (12 + 9 * (r - 1)) va) b"
    unfolding idx using assms
    by (cases "b < 12 + 9 * (r - 1)") (auto simp: bit_or_iff bit_push_bit_iff bit_take_bit_iff
        bit_drop_bit_eq dest: bit_imp_le_length)
qed

lemma va_path_nth: "k \<le> n \<Longrightarrow> va_path n va ! k = va_index (n - k) va"
  by (simp add: va_path_def rev_nth del: upt_Suc)

lemma pd_split_eq:
  assumes a: "a \<noteq> 0" "i < 512" and e: "e = load64 (mem s) (cell a i)" "pte_present e" "pte_large e"
    and r: "(r = 1 \<and> old = MM_PAGE_2MB \<and> new = MM_PAGE_4KB) \<or> (r = 2 \<and> old = MM_PAGE_1GB \<and> new = MM_PAGE_2MB)"
    and al: "pmm_alloc 1 s = Inr (pa, s1)" "hhdm_resp s1 = Some off"
  shows "pd_split a (of_nat i) old new tf s =
    rbind (for_r (\<lambda>j s. pd_write (pa + off) (of_nat j) (split_entry e r j) s) [0..<512] s1) (\<lambda>s.
    Inr (pa + off, s\<lparr>mem := store64 (cell a i) (pa OR tf) (mem s)\<rparr>))"
proof -
  have idx: "unat (of_nat i :: u64) = i" using a(2) by (simp add: unat_of_nat_u64)
  have cnt: "unat (old div new) = 512" using r by auto
  show ?thesis
    unfolding pd_split_def pd_read_def pd_write_def[of a] idx e(1)[symmetric] pte_frame_def[symmetric] Let_def cnt
    using a(1) e(2,3) r al by (auto simp: hhdm_p2v_def split_entry_def or.assoc)
qed

lemma pd_split_ok:
  assumes vm: "vm_inv n root s" and p: "valid_path n p" "tbl (mem s) (hhdm_offset s) root p = Some a"
    and i: "i < 512" and n: "length p < n" and free: "free_pages s \<noteq> {}"
    and tf: "tf \<in> {MM_PT_KERN_TABLE_FLAGS, MM_PT_USER_TABLE_FLAGS}"
    and big: "pte_present (load64 (mem s) (cell a i))" "pte_large (load64 (mem s) (cell a i))"
    and r: "(n - length p = 1 \<and> old = MM_PAGE_2MB \<and> new = MM_PAGE_4KB) \<or>
      (n - length p = 2 \<and> old = MM_PAGE_1GB \<and> new = MM_PAGE_2MB)"
  shows "\<exists>c s'. pd_split a (of_nat i) old new tf s = Inr (c, s') \<and> stepped n root (p @ [i]) s c s'"
proof -
  let ?off = "hhdm_offset s" and ?e = "load64 (mem s) (cell a i)" and ?r = "n - length p"
  have inv: "pmm_inv s" and wf: "pt_wf (mem s) ?off n root (table_pages s)" and np: "npages s \<le> 2 ^ 36"
    and lg: "large_ok (mem s) ?off n root"
    using vm by (auto simp: vm_inv_def)
  have a: "a \<in> table_pages s" using pt_wfD(1)[OF wf p] by simp
  then have a0: "a \<noteq> 0" using table_page_cases[OF inv] by metis
  have al12: "take_bit (12 + 9 * ?r) (pte_frame ?e) = 0"
    using large_okD[OF lg p(1) n p(2) i] big by (simp add: large_entry_ok_def)
  have r12: "?r = 1 \<or> ?r = 2" using r by auto
  note SE = split_entry_facts[OF r12 al12]
  obtain k m1 where al: "pmm_alloc 1 s = Inr (of_nat k * 4096, s\<lparr>mem := m1\<rparr>)" and inv1: "pmm_inv (s\<lparr>mem := m1\<rparr>)"
    and k: "0 < k" "k < npages s" and fr: "page_va s k \<notin> table_pages s"
    and tp: "table_pages (s\<lparr>mem := m1\<rparr>) = insert (page_va s k) (table_pages s)"
    and fp: "free_pages (s\<lparr>mem := m1\<rparr>) = free_pages s - {k}"
    and same1: "same_pages (table_pages s) (mem s) m1"
    using pmm_alloc_table[OF inv free] by metis
  let ?c = "page_va s k" and ?v = "of_nat k * 4096 OR tf"
  have c: "page_aligned ?c" "?c \<noteq> 0" using page_va_facts(1,2)[OF inv k(2)] .
  obtain m2 where fill: "for_r (\<lambda>j s. pd_write ?c (of_nat j) (split_entry ?e ?r j) s) [0..<512] (s\<lparr>mem := m1\<rparr>)
      = Inr ((s\<lparr>mem := m1\<rparr>)\<lparr>mem := m2\<rparr>)"
    and ent: "\<And>j. j < 512 \<Longrightarrow> load64 m2 (cell ?c j) = split_entry ?e ?r j"
    and out: "\<And>x. \<not> in_page ?c x \<Longrightarrow> m2 x = mem (s\<lparr>mem := m1\<rparr>) x"
    by (rule fill_table[OF c, of "split_entry ?e ?r" "s\<lparr>mem := m1\<rparr>"]) (rule that; assumption)
  let ?s2 = "s\<lparr>mem := m2\<rparr>"
  have "m2 x = mem s x" if t: "t \<in> table_pages s" "in_page t x" for t x
  proof -
    have "\<not> in_page ?c x" using in_page_unique[OF table_pages_aligned[OF inv t(1)] c(1) t(2)] t(1) fr by blast
    then show ?thesis using out[of x] same1 t by (simp add: same_pages_def)
  qed
  then have same: "same_pages (table_pages s) (mem s) m2" by (simp add: same_pages_def)
  have "\<not> under_bitmap (s\<lparr>mem := m1\<rparr>) k"
  proof -
    have "?c \<in> table_pages (s\<lparr>mem := m1\<rparr>)" using tp by simp
    then obtain j where "?c = page_va s j" "j < npages s" "\<not> under_bitmap s j"
      by (auto simp: table_pages_def)
    then show ?thesis using page_va_inj[OF inv k(2)] by auto
  qed
  then have "m2 x = mem (s\<lparr>mem := m1\<rparr>) x" if "in_range (bm_base (page_bits s)) (bm_len (page_bits s)) x" for x
    using out page_off_bitmap[OF inv1, of k x] k(2) that by auto
  then have B: "pmm_inv ?s2" "table_pages ?s2 = insert ?c (table_pages s)" "free_pages ?s2 = free_pages s - {k}"
    using bitmap_same[OF inv1, of m2] tp fp by simp_all
  have sub: "table_pages s \<subseteq> table_pages ?s2" using B(2) by auto
  note O = off_tree[OF vm B(1) sub same]
  have k36: "k < 2 ^ 36" using k np by simp
  have child: "pte_child ?off ?v = ?c" using table_entry(3)[OF tf k36] by (simp add: page_va_def)
  have not_in: "tbl m2 ?off root q \<noteq> Some ?c" if "valid_path n q" for q
    using O(3)[OF that] pt_wfD(1)[OF wf that] fr by auto
  have ai: "load64 m2 (cell a i) = ?e" using same_pages_load[OF same a i] .
  have tr: "xlate m2 ?off ?c q va = xlate m2 ?off root (va_path n va) va" if q: "va_path n va = p @ i # q" for q va
  proof -
    have len: "length q = ?r" using va_path_props(1)[of n va] q by simp
    then obtain j q' where j: "q = j # q'" using n by (cases q) auto
    have "j = va_path n va ! Suc (length p)" using q j by (simp add: nth_append)
    then have jv: "j = va_index (?r - 1) va" using va_path_nth[of "Suc (length p)" n va] n by simp
    have "q' \<noteq> [] \<Longrightarrow> ?r = 2" using len j r12 by auto
    then have "walk m2 ?off ?c q = Some (split_entry ?e ?r j, ?r - 1)"
      using ent[of j] jv j len SE(1,2)[of j] by auto
    moreover have "walk m2 ?off root (p @ i # q) = Some (?e, ?r)"
      using walk_append[of m2 ?off root p a "i # q"] O(3)[OF p(1)] p(2) big ai len by simp
    moreover have "pte_frame (split_entry ?e ?r j) OR take_bit (12 + 9 * (?r - 1)) va =
        pte_frame ?e OR take_bit (12 + 9 * ?r) va"
      using SE(3)[of j] jv split_offset[of ?r va] r12 by (auto simp: or.assoc)
    ultimately show ?thesis using q by (simp add: xlate_def)
  qed
  have flat: "Suc (length p) < n \<Longrightarrow> j < 512 \<Longrightarrow> pte_large (load64 m2 (cell ?c j)) \<and>
      large_entry_ok (n - Suc (length p)) (load64 m2 (cell ?c j))" for j
  proof -
    assume n2: "Suc (length p) < n" and j: "j < 512"
    then have r2: "?r = 2" using r12 by auto
    have "take_bit 21 (pte_frame ?e OR push_bit 21 (of_nat j)) = 0"
      using al12 r2 by (auto simp: bit_eq_iff bit_take_bit_iff bit_or_iff bit_push_bit_iff)
    moreover have "n - Suc (length p) = 1" using r2 by simp
    ultimately show ?thesis using ent[OF j] SE[OF j] r2 by (simp add: large_entry_ok_def)
  qed
  have A: "stepped n root (p @ [i]) ?s2 ?c (?s2\<lparr>mem := store64 (cell a i) ?v (mem ?s2)\<rparr>)"
    "free_pages (?s2\<lparr>mem := store64 (cell a i) ?v (mem ?s2)\<rparr>) = free_pages ?s2"
  proof -
    have t: "tbl (mem ?s2) (hhdm_offset ?s2) root p = Some a" using O(3)[OF p(1)] p(2) by simp
    note attach = attach_table[OF O(1) p(1) t i n, of ?c ?v]
    show "stepped n root (p @ [i]) ?s2 ?c (?s2\<lparr>mem := store64 (cell a i) ?v (mem ?s2)\<rparr>)"
      "free_pages (?s2\<lparr>mem := store64 (cell a i) ?v (mem ?s2)\<rparr>) = free_pages ?s2"
      by (rule attach; use B(2) not_in table_entry(1,2)[OF tf k36] child flat tr in auto)+
  qed
  have "pd_split a (of_nat i) old new tf s = Inr (?c, ?s2\<lparr>mem := store64 (cell a i) ?v (mem ?s2)\<rparr>)"
    using pd_split_eq[OF a0 i refl big r al, of ?off] pmm_inv_facts(3)[OF inv] fill
    by (simp add: page_va_def)
  with stepped_alloc[OF vm B(1) sub same B(3) A] show ?thesis by blast
qed

lemma pd_get_or_create_ok:
  assumes vm: "vm_inv n root s" and p: "valid_path n p" "tbl (mem s) (hhdm_offset s) root p = Some a"
    and i: "i < 512" and lv: "level_nat level = n - length p" "length p < n" and free: "free_pages s \<noteq> {}"
    and tf: "tf \<in> {MM_PT_KERN_TABLE_FLAGS, MM_PT_USER_TABLE_FLAGS}"
  shows "\<exists>c s'. pd_get_or_create a (of_nat i) level tf s = Inr (c, s') \<and> stepped n root (p @ [i]) s c s'"
proof (cases "pte_present (load64 (mem s) (cell a i)) \<and> pte_large (load64 (mem s) (cell a i))")
  case True
  have wf: "pt_wf (mem s) (hhdm_offset s) n root (table_pages s)" "pmm_inv s" "large_ok (mem s) (hhdm_offset s) n root"
    using vm by (auto simp: vm_inv_def)
  then have a0: "a \<noteq> 0" using table_page_cases[OF wf(2)] pt_wfD(1)[OF wf(1) p] by metis
  have "n - length p \<le> 2" using large_okD[OF wf(3) p(1) lv(2) p(2) i] True by (simp add: large_entry_ok_def)
  then have "level = PML2 \<and> n - length p = 1 \<or> level = PML3 \<and> n - length p = 2"
    using lv by (cases level) auto
  then show ?thesis
    using pd_split_ok[OF vm p i lv(2) free tf] True a0 i
    by (auto simp: pd_get_or_create_def pd_read_def unat_of_nat_u64)
next
  case False
  then show ?thesis
    using pd_create_ok[OF vm p i lv(2) free tf] pd_follow_ok[OF vm p i lv(2)] by blast
qed

end
