(* ===== verification/Vmm_Map.thy ===== *)
theory Vmm_Map
  imports Vmm_Tables
begin

section \<open>Mapping, translating and unmapping pages\<close>

text \<open>
  The operations on whole addresses, over the step lemma of \<^verbatim>\<open>Vmm_Tables\<close>. The abstract view
  of an address space is its translation function \<open>xlate\<close> (what the hardware computes);
  \<^verbatim>\<open>vmm_map\<close> changes it exactly on the page that is mapped, \<^verbatim>\<open>vmm_unmap\<close> removes exactly the
  page that contains the address, and \<^verbatim>\<open>vmm_translate\<close> and \<^verbatim>\<open>vmm_is_mapped\<close> read it.
\<close>

subsection \<open>Addresses and paths\<close>

text \<open>Two addresses lie in the same page of \<open>2^(12 + 9 * k)\<close> bytes, in a tree of depth \<open>n\<close>.\<close>

definition same_page :: "nat \<Rightarrow> nat \<Rightarrow> u64 \<Rightarrow> u64 \<Rightarrow> bool" where
  "same_page n k va va' \<longleftrightarrow>
     drop_bit (12 + 9 * k) (take_bit (12 + 9 * Suc n) va) = drop_bit (12 + 9 * k) (take_bit (12 + 9 * Suc n) va')"

lemma same_page_bits:
  "same_page n k va va' \<longleftrightarrow> (\<forall>b. 12 + 9 * k \<le> b \<and> b < 12 + 9 * Suc n \<longrightarrow> bit va b = bit va' b)"
  (is "?l \<longleftrightarrow> ?r")
proof
  assume l: ?l
  show ?r
  proof (intro allI impI)
    fix b assume b: "12 + 9 * k \<le> b \<and> b < 12 + 9 * Suc n"
    have "bit (drop_bit (12 + 9 * k) (take_bit (12 + 9 * Suc n) va)) (b - (12 + 9 * k)) =
        bit (drop_bit (12 + 9 * k) (take_bit (12 + 9 * Suc n) va')) (b - (12 + 9 * k))"
      using l by (simp only: same_page_def)
    then show "bit va b = bit va' b" using b by (simp add: bit_drop_bit_eq bit_take_bit_iff)
  qed
next
  assume r: ?r
  show ?l unfolding same_page_def
    by (rule bit_word_eqI) (use r in \<open>auto simp: bit_drop_bit_eq bit_take_bit_iff\<close>)
qed

lemma va_index_bits: "va_index j va = va_index j va' \<longleftrightarrow> (\<forall>b < 9. bit va (12 + 9 * j + b) = bit va' (12 + 9 * j + b))"
proof -
  have idx: "va_index j x = unat (take_bit 9 (drop_bit (12 + 9 * j) x))" for x
    by (simp add: va_index_def take_bit_eq_mask mask_eq_exp_minus_1)
  have "va_index j va = va_index j va' \<longleftrightarrow> take_bit 9 (drop_bit (12 + 9 * j) va) = take_bit 9 (drop_bit (12 + 9 * j) va')"
    by (simp add: idx word_eq_iff_unat)
  also have "\<dots> \<longleftrightarrow> (\<forall>b < 64. b < 9 \<longrightarrow> bit va (12 + 9 * j + b) = bit va' (12 + 9 * j + b))"
    by (auto simp: bit_eq_iff bit_take_bit_iff bit_drop_bit_eq)
  also have "\<dots> \<longleftrightarrow> (\<forall>b < 9. bit va (12 + 9 * j + b) = bit va' (12 + 9 * j + b))"
    using less_trans[of _ 9 "64 :: nat"] by auto
  finally show ?thesis .
qed

lemma same_page_indices:
  assumes "k \<le> n"
  shows "same_page n k va va' \<longleftrightarrow> (\<forall>j. k \<le> j \<and> j \<le> n \<longrightarrow> va_index j va = va_index j va')"
proof
  assume l: "same_page n k va va'"
  show "\<forall>j. k \<le> j \<and> j \<le> n \<longrightarrow> va_index j va = va_index j va'"
    using l unfolding same_page_bits va_index_bits by auto
next
  assume r: "\<forall>j. k \<le> j \<and> j \<le> n \<longrightarrow> va_index j va = va_index j va'"
  show "same_page n k va va'" unfolding same_page_bits
  proof (intro allI impI)
    fix b assume b: "12 + 9 * k \<le> b \<and> b < 12 + 9 * Suc n"
    let ?j = "(b - 12) div 9"
    have j: "k \<le> ?j" "?j \<le> n" using b by auto
    have "b = 12 + 9 * ?j + (b - 12) mod 9" using b by simp
    moreover have "(b - 12) mod 9 < 9" by simp
    ultimately show "bit va b = bit va' b"
      using r[rule_format, of ?j] j unfolding va_index_bits by metis
  qed
qed

lemma take_va_path_eq:
  assumes "k \<le> n"
  shows "take (Suc (n - k)) (va_path n va) = take (Suc (n - k)) (va_path n va') \<longleftrightarrow> same_page n k va va'"
proof -
  have "take (Suc (n - k)) (va_path n va) = take (Suc (n - k)) (va_path n va') \<longleftrightarrow>
      (\<forall>i < Suc (n - k). va_path n va ! i = va_path n va' ! i)"
    using va_path_props(1) by (simp add: list_eq_iff_nth_eq)
  also have "\<dots> \<longleftrightarrow> (\<forall>i \<le> n - k. va_index (n - i) va = va_index (n - i) va')"
    by (auto simp: less_Suc_eq_le va_path_nth)
  also have "\<dots> \<longleftrightarrow> (\<forall>j. k \<le> j \<and> j \<le> n \<longrightarrow> va_index j va = va_index j va')"
  proof
    assume l: "\<forall>i \<le> n - k. va_index (n - i) va = va_index (n - i) va'"
    show "\<forall>j. k \<le> j \<and> j \<le> n \<longrightarrow> va_index j va = va_index j va'"
    proof (intro allI impI)
      fix j assume "k \<le> j \<and> j \<le> n"
      then have "n - j \<le> n - k" "n - (n - j) = j" by auto
      with l show "va_index j va = va_index j va'" by metis
    qed
  qed (use assms in auto)
  finally show ?thesis using same_page_indices[OF assms] by simp
qed

text \<open>The path to the table of level \<open>k\<close> on the way to an address.\<close>

definition table_path :: "nat \<Rightarrow> nat \<Rightarrow> u64 \<Rightarrow> nat list" where
  "table_path n k va = take (n - k) (va_path n va)"

lemma table_path_facts:
  assumes "k \<le> n"
  shows "length (table_path n k va) = n - k" "valid_path n (table_path n k va)"
    "table_path n k va @ [va_index k va] = take (Suc (n - k)) (va_path n va)"
proof -
  show len: "length (table_path n k va) = n - k" using va_path_props(1) by (simp add: table_path_def)
  then show "valid_path n (table_path n k va)"
    using va_path_props(2)[of n va] by (auto simp: valid_path_def table_path_def dest: in_set_takeD)
  show "table_path n k va @ [va_index k va] = take (Suc (n - k)) (va_path n va)"
    using va_path_props(1)[of n va] va_path_nth[of "n - k" n va] assms
    by (simp add: table_path_def take_Suc_conv_app_nth)
qed

lemma prefix_table_path:
  assumes "k \<le> n"
  shows "prefix (table_path n k va @ [va_index k va]) (va_path n va') \<longleftrightarrow> same_page n k va va'"
proof -
  have "prefix (take (Suc (n - k)) (va_path n va)) (va_path n va') \<longleftrightarrow>
      take (Suc (n - k)) (va_path n va) = take (Suc (n - k)) (va_path n va')"
    using va_path_props(1) by (metis append_eq_conv_conj length_take min.absorb2 diff_le_self le_SucI Suc_le_mono prefix_def take_is_prefix)
  then show ?thesis unfolding table_path_facts(3)[OF assms] take_va_path_eq[OF assms] .
qed

subsection \<open>Descending to a level\<close>

text \<open>
  \<open>at_level n root va k s a s'\<close>: the code has reached the table \<open>a\<close> of level \<open>k\<close> for the
  address; from \<open>s\<close> to \<open>s'\<close> only memory has changed, no translation has, and at most one page
  per level was taken.
\<close>

definition at_level :: "nat \<Rightarrow> uptr \<Rightarrow> u64 \<Rightarrow> nat \<Rightarrow> 'a machine_scheme \<Rightarrow> uptr \<Rightarrow> 'a machine_scheme \<Rightarrow> bool" where
  "at_level n root va k s a s' \<longleftrightarrow> (\<exists>m'. s' = s\<lparr>mem := m'\<rparr>) \<and> vm_inv n root s' \<and>
     tbl (mem s') (hhdm_offset s) root (table_path n k va) = Some a \<and>
     (\<forall>x. xlate (mem s') (hhdm_offset s) root (va_path n x) x = xlate (mem s) (hhdm_offset s) root (va_path n x) x) \<and>
     card (free_pages s) \<le> card (free_pages s') + (n - k)"

lemma at_level_root: "vm_inv n root s \<Longrightarrow> at_level n root va n s root s"
  by (auto simp: at_level_def table_path_def intro: exI[of _ "mem s"])

lemma at_level_step:
  assumes at: "at_level n root va (Suc k) s a s1" and k: "Suc k \<le> n" and free: "n \<le> card (free_pages s)"
    and tf: "tf \<in> {MM_PT_KERN_TABLE_FLAGS, MM_PT_USER_TABLE_FLAGS}"
    and lv: "level_nat level = Suc k" and idx: "unat idx = va_index (Suc k) va"
  obtains c s2 where "pd_get_or_create a idx level tf s1 = Inr (c, s2)" "at_level n root va k s c s2"
proof -
  obtain m1 where m1: "s1 = s\<lparr>mem := m1\<rparr>" using at by (auto simp: at_level_def)
  have vm: "vm_inv n root s1" and t: "tbl (mem s1) (hhdm_offset s1) root (table_path n (Suc k) va) = Some a"
    and fr: "card (free_pages s) \<le> card (free_pages s1) + (n - Suc k)"
    using at m1 by (auto simp: at_level_def)
  note P = table_path_facts[OF k, of va]
  have "0 < card (free_pages s1)" using fr free k by linarith
  then have ne: "free_pages s1 \<noteq> {}" by auto
  have i: "idx = of_nat (va_index (Suc k) va)" using idx by (metis of_nat_unat ucast_id)
  have lp: "level_nat level = n - length (table_path n (Suc k) va)" "length (table_path n (Suc k) va) < n"
    using P(1) lv k by simp_all
  obtain c s2 where c: "pd_get_or_create a idx level tf s1 = Inr (c, s2)"
    "stepped n root (table_path n (Suc k) va @ [va_index (Suc k) va]) s1 c s2"
    using pd_get_or_create_ok[OF vm P(2) t va_index_lt lp ne tf] i by blast
  have "table_path n (Suc k) va @ [va_index (Suc k) va] = table_path n k va"
    unfolding P(3) using k by (simp add: table_path_def Suc_diff_Suc)
  then have "at_level n root va k s c s2"
    using c(2) at fr k m1 by (auto simp: at_level_def stepped_def)
  with that c(1) show ?thesis by blast
qed

subsection \<open>Writing a leaf\<close>

lemma leaf_write:
  assumes at: "at_level n root va k s a s1" and k: "k \<le> n" "k \<le> 2" "k < n"
    and v: "pte_present v" "k = 0 \<or> pte_large v" "0 < k \<Longrightarrow> large_entry_ok k v"
    and idx: "unat idx = va_index k va"
  obtains m' where "pd_write a idx v s1 = Inr (s\<lparr>mem := m'\<rparr>)" "vm_inv n root (s\<lparr>mem := m'\<rparr>)"
    "\<And>x. same_page n k va x \<Longrightarrow> walk m' (hhdm_offset s) root (va_path n x) = Some (v, k)"
    "\<And>x. \<not> same_page n k va x \<Longrightarrow>
       xlate m' (hhdm_offset s) root (va_path n x) x = xlate (mem s) (hhdm_offset s) root (va_path n x) x"
proof -
  obtain m1 where m1: "s1 = s\<lparr>mem := m1\<rparr>" using at by (auto simp: at_level_def)
  let ?off = "hhdm_offset s" and ?p = "table_path n k va" and ?i = "va_index k va"
  let ?m = "store64 (cell a ?i) v m1"
  have vm: "vm_inv n root s1" and t: "tbl m1 ?off root ?p = Some a"
    and x1: "\<And>x. xlate m1 ?off root (va_path n x) x = xlate (mem s) ?off root (va_path n x) x"
    using at m1 by (auto simp: at_level_def)
  have inv: "pmm_inv s1" and wf: "pt_wf m1 ?off n root (table_pages s1)" and lg: "large_ok m1 ?off n root"
    using vm m1 by (auto simp: vm_inv_def)
  note P = table_path_facts[OF k(1), of va]
  have a: "a \<in> table_pages s1" using pt_wfD(1)[OF wf P(2) t] by simp
  then have "a \<noteq> 0" using table_page_cases[OF inv] by metis
  then have wr: "pd_write a idx v s1 = Inr (s\<lparr>mem := ?m\<rparr>)" using m1 idx by (simp add: pd_write_def)
  have leaf: "length ?p = n \<or> \<not> pte_present v \<or> pte_large v" using v(2) P(1) by auto
  note L = store_leaf[OF wf P(2) t va_index_lt[of k va] leaf]
  have "large_ok ?m ?off n root"
    by (rule large_ok_store[OF wf P(2) t va_index_lt[of k va] lg]) (use L(2) v(3) P(1) k in auto)
  then have vm': "vm_inv n root (s\<lparr>mem := ?m\<rparr>)"
    using vm m1 store_in_table(1,2)[OF inv a va_index_lt[of k va], of v] L(1) by (simp add: vm_inv_def)
  have hit: "walk ?m ?off root (va_path n x) = Some (v, k)" if same: "same_page n k va x" for x
  proof -
    obtain r where r: "va_path n x = ?p @ ?i # r"
      using prefix_table_path[OF k(1), of va x] same by (auto simp: prefix_def)
    then have "length r = k" using va_path_props(1)[of n x] P(1) k by simp
    then show ?thesis using walk_store_through[OF wf P(2) t va_index_lt[of k va], of v r] v r by auto
  qed
  have miss: "xlate ?m ?off root (va_path n x) x = xlate (mem s) ?off root (va_path n x) x" if "\<not> same_page n k va x" for x
    using walk_store_other[OF wf P(2) t va_index_lt[of k va] va_path_props[of n x], of v] prefix_table_path[OF k(1), of va x] that x1[of x]
    by (simp add: xlate_def)
  show ?thesis by (rule that[OF wr vm' hit miss])
qed

subsection \<open>vmm_map\<close>

text \<open>An address space as the operations see it: its page map, root, depth and invariant.\<close>

definition space :: "pmap_ptr \<Rightarrow> nat \<Rightarrow> uptr \<Rightarrow> 'a vmachine_scheme \<Rightarrow> bool" where
  "space p n root s \<longleftrightarrow> pm_directory (pmap_of p s) = root \<and> pm_level (pmap_of p s) \<in> {PML4, PML5} \<and>
     level_nat (pm_level (pmap_of p s)) = n \<and> vmm_lock s = unlocked \<and> vm_inv n root s"

abbreviation xl :: "'a machine_scheme \<Rightarrow> nat \<Rightarrow> uptr \<Rightarrow> u64 \<Rightarrow> u64 option" where
  "xl s n root va \<equiv> xlate (mem s) (hhdm_offset s) root (va_path n va) va"

lemma pmap_of_mem [simp]: "pmap_of p (s\<lparr>mem := m\<rparr>) = pmap_of p s" "pmap_of p (s\<lparr>vmm_lock := l\<rparr>) = pmap_of p s"
  by (cases p; simp add: pmap_of_def)+

lemma vmm_locked:
  assumes "vmm_lock s = unlocked"
  obtains l where "vmm_acquire p s = Inr (s\<lparr>vmm_lock := l\<rparr>)"
    "\<And>m. vmm_release p (s\<lparr>vmm_lock := l, mem := m\<rparr>) = s\<lparr>mem := m\<rparr>"
proof (cases p)
  case KernelMap
  have "s\<lparr>vmm_lock := unlocked, mem := m\<rparr> = s\<lparr>mem := m\<rparr>" for m using assms by (cases s) simp
  then show ?thesis using that[of locked] assms KernelMap by (simp add: vmm_acquire_def vmm_release_def)
next
  case (OtherMap q)
  have "s\<lparr>vmm_lock := unlocked\<rparr> = s" using assms by (cases s) simp
  then show ?thesis using that[of unlocked] OtherMap by (simp add: vmm_acquire_def vmm_release_def)
qed

lemma view_lock [simp]:
  "vm_inv n root (s\<lparr>vmm_lock := l\<rparr>) = vm_inv n root s" "hhdm_offset (s\<lparr>vmm_lock := l\<rparr>) = hhdm_offset s"
  "free_pages (s\<lparr>vmm_lock := l\<rparr>) = free_pages s"
proof -
  have v: "npages (s\<lparr>vmm_lock := l\<rparr>) = npages s" "hhdm_offset (s\<lparr>vmm_lock := l\<rparr>) = hhdm_offset s"
    "allocd (s\<lparr>vmm_lock := l\<rparr>) = allocd s" "under_bitmap (s\<lparr>vmm_lock := l\<rparr>) = under_bitmap s"
    by (simp_all add: npages_def hhdm_offset_def allocd_def under_bitmap_def fun_eq_iff)
  then have "table_pages (s\<lparr>vmm_lock := l\<rparr>) = table_pages s" "pmm_inv (s\<lparr>vmm_lock := l\<rparr>) = pmm_inv s"
    by (simp_all add: table_pages_def pmm_inv_def page_va_def)
  with v show "vm_inv n root (s\<lparr>vmm_lock := l\<rparr>) = vm_inv n root s" "hhdm_offset (s\<lparr>vmm_lock := l\<rparr>) = hhdm_offset s"
    "free_pages (s\<lparr>vmm_lock := l\<rparr>) = free_pages s"
    by (simp_all add: vm_inv_def free_pages_def)
qed

text \<open>The table flags that \<^verbatim>\<open>vmm_map_impl\<close> derives from the flags of the mapping.\<close>

definition table_flags_of :: "u64 \<Rightarrow> u64" where
  "table_flags_of flags = (if (flags OR MM_PT_FLAG_VALID) AND MM_PT_FLAG_USER \<noteq> 0
     then MM_PT_USER_TABLE_FLAGS else MM_PT_KERN_TABLE_FLAGS)"

lemma table_flags_of_ok: "table_flags_of f \<in> {MM_PT_KERN_TABLE_FLAGS, MM_PT_USER_TABLE_FLAGS}"
  by (simp add: table_flags_of_def)

lemma reach_pml4:
  assumes vm: "vm_inv n root s" and free: "n \<le> card (free_pages s)"
    and lv: "level \<in> {PML4, PML5}" "level_nat level = n"
  obtains a s1 where "(case level of
       PML5 \<Rightarrow> pd_get_or_create root (pml5_index va) PML5 (table_flags_of f) s
     | PML4 \<Rightarrow> Inr (root, s) | _ \<Rightarrow> Inl Panic) = Inr (a, s1)" "at_level n root va 3 s a s1"
proof (cases "level = PML4")
  case True
  then show ?thesis using that at_level_root[OF vm] lv by auto
next
  case False
  then have l: "level = PML5" "n = 4" using lv by auto
  obtain c s2 where "pd_get_or_create root (pml5_index va) PML5 (table_flags_of f) s = Inr (c, s2)"
    "at_level n root va 3 s c s2"
    using at_level_step[of n root va 3 s root s "table_flags_of f" PML5 "pml5_index va"]
      at_level_root[OF vm, of va] free table_flags_of_ok l pml_indices(5) by (auto simp: numeral_eq_Suc)
  with that l show ?thesis by auto
qed

text \<open>The two steps below PML4 that 4 KB and 2 MB mappings share.\<close>

lemma reach_pml2:
  assumes at: "at_level n root va 3 s a s1" and n: "3 \<le> n" "n \<le> card (free_pages s)"
  obtains b s2 c s3 where "pd_get_or_create a (pml4_index va) PML4 (table_flags_of f) s1 = Inr (b, s2)"
    "pd_get_or_create b (pml3_index va) PML3 (table_flags_of f) s2 = Inr (c, s3)" "at_level n root va 1 s c s3"
proof -
  obtain b s2 where b: "pd_get_or_create a (pml4_index va) PML4 (table_flags_of f) s1 = Inr (b, s2)"
    "at_level n root va 2 s b s2"
    using at_level_step[of n root va 2 s a s1 "table_flags_of f" PML4 "pml4_index va"] at n table_flags_of_ok pml_indices(4)
    by (auto simp: numeral_eq_Suc)
  obtain c s3 where "pd_get_or_create b (pml3_index va) PML3 (table_flags_of f) s2 = Inr (c, s3)"
    "at_level n root va 1 s c s3"
    using at_level_step[of n root va 1 s b s2 "table_flags_of f" PML3 "pml3_index va"] b(2) n table_flags_of_ok pml_indices(3)
    by (auto simp: numeral_eq_Suc)
  with that b(1) show ?thesis by blast
qed

lemma vmm_map_impl_4kb:
  assumes vm: "vm_inv n root s" and free: "n \<le> card (free_pages s)"
    and lv: "pm_level pmap \<in> {PML4, PML5}" "level_nat (pm_level pmap) = n" "pm_directory pmap = root"
    and al: "page_aligned va" "page_aligned pa"
  shows "\<exists>m'. vmm_map_impl pmap va pa flags 4096 s = Inr (s\<lparr>mem := m'\<rparr>) \<and> vm_inv n root (s\<lparr>mem := m'\<rparr>) \<and>
    (\<forall>x. same_page n 0 va x \<longrightarrow> walk m' (hhdm_offset s) root (va_path n x) = Some (pa OR flags OR MM_PT_FLAG_VALID, 0)) \<and>
    (\<forall>x. \<not> same_page n 0 va x \<longrightarrow> xlate m' (hhdm_offset s) root (va_path n x) x = xl s n root x)"
proof -
  let ?v = "pa OR flags OR MM_PT_FLAG_VALID" and ?tf = "table_flags_of flags"
  have n: "3 \<le> n" using lv by auto
  obtain a s1 where a: "(case pm_level pmap of PML5 \<Rightarrow> pd_get_or_create root (pml5_index va) PML5 ?tf s
     | PML4 \<Rightarrow> Inr (root, s) | _ \<Rightarrow> Inl Panic) = Inr (a, s1)" "at_level n root va 3 s a s1"
    using reach_pml4[OF vm free lv(1,2)] by blast
  obtain b s2 c s3 where b: "pd_get_or_create a (pml4_index va) PML4 ?tf s1 = Inr (b, s2)"
    "pd_get_or_create b (pml3_index va) PML3 ?tf s2 = Inr (c, s3)" "at_level n root va 1 s c s3"
    using reach_pml2[OF a(2) n free] by blast
  obtain d s4 where d: "pd_get_or_create c (pml2_index va) PML2 ?tf s3 = Inr (d, s4)" "at_level n root va 0 s d s4"
    using at_level_step[of n root va 0 s c s3 ?tf PML2 "pml2_index va"] b(3) n free table_flags_of_ok pml_indices(2)
    by auto
  have v: "pte_present ?v" by (simp add: pte_bits)
  obtain m' where w: "pd_write d (pml1_index va) ?v s4 = Inr (s\<lparr>mem := m'\<rparr>)" "vm_inv n root (s\<lparr>mem := m'\<rparr>)"
    "\<And>x. same_page n 0 va x \<Longrightarrow> walk m' (hhdm_offset s) root (va_path n x) = Some (?v, 0)"
    "\<And>x. \<not> same_page n 0 va x \<Longrightarrow> xlate m' (hhdm_offset s) root (va_path n x) x = xl s n root x"
    using leaf_write[OF d(2) _ _ _ v, of "pml1_index va"] n pml_indices(1) by auto
  have "vmm_map_impl pmap va pa flags 4096 s = Inr (s\<lparr>mem := m'\<rparr>)"
    unfolding vmm_map_impl.simps[of pmap va pa flags 4096 s] Let_def table_flags_of_def[symmetric] lv(3)
    using a(1) b(1,2) d(1) w(1) al by simp
  with w(2-4) show ?thesis by blast
qed

lemma take_bit_or_flags:
  assumes "take_bit 21 pa = 0" "flags_ok flags"
  shows "take_bit 21 (pte_frame (pa OR flags OR MM_PT_FLAG_VALID OR MM_PT_FLAG_LARGE)) = 0"
proof -
  have f: "pte_frame MM_PT_FLAG_VALID = 0" "pte_frame MM_PT_FLAG_LARGE = 0"
    by (rule bit_word_eqI, auto simp: bit_pte_frame mask_bits)+
  have "take_bit 21 (pte_frame pa) = take_bit 21 pa AND MM_PT_PADDR_MASK"
    by (rule bit_word_eqI) (auto simp: bit_take_bit_iff pte_frame_def bit_and_iff)
  with assms f show ?thesis by (simp add: pte_frame_or flags_ok_def)
qed

lemma vmm_map_impl_2mb:
  assumes vm: "vm_inv n root s" and free: "n \<le> card (free_pages s)"
    and lv: "pm_level pmap \<in> {PML4, PML5}" "level_nat (pm_level pmap) = n" "pm_directory pmap = root"
    and al: "take_bit 21 va = 0" "take_bit 21 pa = 0" and fl: "flags_ok flags"
  shows "\<exists>m'. vmm_map_impl pmap va pa flags MM_PAGE_2MB s = Inr (s\<lparr>mem := m'\<rparr>) \<and> vm_inv n root (s\<lparr>mem := m'\<rparr>) \<and>
    (\<forall>x. same_page n 1 va x \<longrightarrow> walk m' (hhdm_offset s) root (va_path n x) = Some (pa OR flags OR MM_PT_FLAG_VALID OR MM_PT_FLAG_LARGE, 1)) \<and>
    (\<forall>x. \<not> same_page n 1 va x \<longrightarrow> xlate m' (hhdm_offset s) root (va_path n x) x = xl s n root x)"
proof -
  let ?v = "pa OR flags OR MM_PT_FLAG_VALID OR MM_PT_FLAG_LARGE" and ?tf = "table_flags_of flags"
  have n: "3 \<le> n" using lv by auto
  obtain a s1 where a: "(case pm_level pmap of PML5 \<Rightarrow> pd_get_or_create root (pml5_index va) PML5 ?tf s
     | PML4 \<Rightarrow> Inr (root, s) | _ \<Rightarrow> Inl Panic) = Inr (a, s1)" "at_level n root va 3 s a s1"
    using reach_pml4[OF vm free lv(1,2)] by blast
  obtain b s2 c s3 where b: "pd_get_or_create a (pml4_index va) PML4 ?tf s1 = Inr (b, s2)"
    "pd_get_or_create b (pml3_index va) PML3 ?tf s2 = Inr (c, s3)" "at_level n root va 1 s c s3"
    using reach_pml2[OF a(2) n free] by blast
  have v: "pte_present ?v" "pte_large ?v" by (simp_all add: pte_bits)
  have lok: "large_entry_ok 1 ?v" using take_bit_or_flags[OF al(2) fl] by (simp add: large_entry_ok_def)
  obtain m' where w: "pd_write c (pml2_index va) ?v s3 = Inr (s\<lparr>mem := m'\<rparr>)" "vm_inv n root (s\<lparr>mem := m'\<rparr>)"
    "\<And>x. same_page n 1 va x \<Longrightarrow> walk m' (hhdm_offset s) root (va_path n x) = Some (?v, 1)"
    "\<And>x. \<not> same_page n 1 va x \<Longrightarrow> xlate m' (hhdm_offset s) root (va_path n x) x = xl s n root x"
    using leaf_write[OF b(3) _ _ _ v(1), of "pml2_index va"] n pml_indices(2) v(2) lok by auto
  have ok: "is_ptr_aligned va MM_PAGE_2MB = Inr True" "is_ptr_aligned pa MM_PAGE_2MB = Inr True"
    using al by (simp_all add: is_ptr_aligned_def take_bit_eq_mod)
  have "vmm_map_impl pmap va pa flags MM_PAGE_2MB s = Inr (s\<lparr>mem := m'\<rparr>)"
    unfolding vmm_map_impl.simps[of pmap va pa flags MM_PAGE_2MB s] Let_def table_flags_of_def[symmetric] lv(3) ok
    using a(1) b(1,2) w(1) by (simp add: or.assoc)
  with w(2-4) show ?thesis by blast
qed

end
