(* ===== verification/Vmm_Read.thy ===== *)
theory Vmm_Read
  imports Vmm_Map
begin

section \<open>Reading and removing translations\<close>

text \<open>
  \<^verbatim>\<open>vmm_translate\<close>, \<^verbatim>\<open>vmm_is_mapped\<close> and \<^verbatim>\<open>vmm_unmap\<close> against the hardware's walk of the
  same tables, the TLB shootdown, and the properties of the virtual memory component.
\<close>

subsection \<open>Reading along a path\<close>

lemma tree_table_nz:
  assumes "vm_inv n root s" "valid_path n p" "tbl (mem s) (hhdm_offset s) root p = Some a"
  shows "a \<noteq> 0"
proof -
  have "pmm_inv s" "pt_wf (mem s) (hhdm_offset s) n root (table_pages s)" using assms(1) by (auto simp: vm_inv_def)
  then show ?thesis using pt_wfD(1)[OF _ assms(2,3)] table_page_cases by metis
qed

lemma pd_read_nz: "a \<noteq> 0 \<Longrightarrow> pd_read a idx s = Inr (load64 (mem s) (cell a (unat idx)))"
  by (simp add: pd_read_def)

lemma pte_p2v_eq: "vm_inv n root s \<Longrightarrow> pte_p2v e s = Inr (pte_child (hhdm_offset s) e)"
  using pmm_inv_facts(3)[of s] by (simp add: vm_inv_def pte_p2v_def hhdm_p2v_def pte_child_def pte_frame_def)

lemma va_path_unfold:
  "va_path 3 va = [va_index 3 va, va_index 2 va, va_index 1 va, va_index 0 va]"
  "va_path 4 va = [va_index 4 va, va_index 3 va, va_index 2 va, va_index 1 va, va_index 0 va]"
  by (simp_all add: va_path_def numeral_eq_Suc)

lemma page_offsets:
  "(va :: u64) AND 4095 = take_bit 12 va" "va AND 2097151 = take_bit 21 va"
  by (simp_all add: take_bit_eq_mask mask_eq_exp_minus_1)

text \<open>No large entry above level 2, in the shape in which the walks meet it.\<close>

lemma no_large_high:
  assumes vm: "vm_inv n root s" and p: "valid_path n p" "tbl (mem s) (hhdm_offset s) root p = Some a"
    and n: "length p + 3 \<le> n" and e: "pte_present (load64 (mem s) (cell a i))" "i < 512"
  shows "\<not> pte_large (load64 (mem s) (cell a i))"
proof
  assume l: "pte_large (load64 (mem s) (cell a i))"
  have "large_ok (mem s) (hhdm_offset s) n root" using vm by (simp add: vm_inv_def)
  from large_okD[OF this p(1) _ p(2) e(2)] n e(1) l have "n - length p \<le> 2"
    by (simp add: large_entry_ok_def)
  with n show False by simp
qed

text \<open>
  The walk from a PML4 table, the part all three functions share: the entries on the way, and
  that the tables they lead to are not at address 0.
\<close>

definition ent :: "'a machine_scheme \<Rightarrow> uptr \<Rightarrow> nat \<Rightarrow> u64 \<Rightarrow> u64" where
  "ent s a k va = load64 (mem s) (cell a (va_index k va))"

definition is_table :: "u64 \<Rightarrow> bool" where
  "is_table e \<longleftrightarrow> pte_present e \<and> \<not> pte_large e"

lemma table_step:
  assumes "tbl (mem s) (hhdm_offset s) root (table_path n (Suc k) va) = Some a" "Suc k \<le> n" "is_table (ent s a (Suc k) va)"
  shows "tbl (mem s) (hhdm_offset s) root (table_path n k va) = Some (pte_child (hhdm_offset s) (ent s a (Suc k) va))"
proof -
  have "table_path n k va = table_path n (Suc k) va @ [va_index (Suc k) va]"
    unfolding table_path_facts(3)[OF assms(2)] using assms(2) by (simp add: table_path_def Suc_diff_Suc)
  then show ?thesis using assms(1,3) by (simp add: tbl_append is_table_def ent_def)
qed

lemma walk_from_pml4:
  assumes vm: "vm_inv n root s" and n: "3 \<le> n"
    and a: "tbl (mem s) (hhdm_offset s) root (table_path n 3 va) = Some a"
  obtains b c d where
    "a \<noteq> 0" "pte_present (ent s a 3 va) \<Longrightarrow> \<not> pte_large (ent s a 3 va)"
    "b = pte_child (hhdm_offset s) (ent s a 3 va)" "is_table (ent s a 3 va) \<Longrightarrow> b \<noteq> 0"
    "c = pte_child (hhdm_offset s) (ent s b 2 va)" "is_table (ent s a 3 va) \<Longrightarrow> is_table (ent s b 2 va) \<Longrightarrow> c \<noteq> 0"
    "d = pte_child (hhdm_offset s) (ent s c 1 va)"
    "is_table (ent s a 3 va) \<Longrightarrow> is_table (ent s b 2 va) \<Longrightarrow> is_table (ent s c 1 va) \<Longrightarrow> d \<noteq> 0"
    "walk (mem s) (hhdm_offset s) root (va_path n va) =
      (if \<not> pte_present (ent s a 3 va) then None
       else if \<not> pte_present (ent s b 2 va) then None
       else if pte_large (ent s b 2 va) then Some (ent s b 2 va, 2)
       else if \<not> pte_present (ent s c 1 va) then None
       else if pte_large (ent s c 1 va) then Some (ent s c 1 va, 1)
       else if \<not> pte_present (ent s d 0 va) then None else Some (ent s d 0 va, 0))"
proof -
  let ?off = "hhdm_offset s"
  define b c d where "b = pte_child ?off (ent s a 3 va)" and "c = pte_child ?off (ent s b 2 va)"
    and "d = pte_child ?off (ent s c 1 va)"
  note nz = tree_table_nz[OF vm table_path_facts(2)]
  have a0: "a \<noteq> 0" using nz[OF n a] .
  have nl: "pte_present (ent s a 3 va) \<Longrightarrow> \<not> pte_large (ent s a 3 va)"
    using no_large_high[OF vm table_path_facts(2)[OF n] a] table_path_facts(1)[OF n, of va] n by (simp add: ent_def)
  have tb: "is_table (ent s a 3 va) \<Longrightarrow> tbl (mem s) ?off root (table_path n 2 va) = Some b"
    using table_step[of s root n 2 va a] a n by (simp add: b_def)
  have tc: "is_table (ent s a 3 va) \<Longrightarrow> is_table (ent s b 2 va) \<Longrightarrow> tbl (mem s) ?off root (table_path n 1 va) = Some c"
    using table_step[of s root n 1 va b] tb n by (simp add: c_def numeral_2_eq_2)
  have td: "is_table (ent s a 3 va) \<Longrightarrow> is_table (ent s b 2 va) \<Longrightarrow> is_table (ent s c 1 va) \<Longrightarrow>
      tbl (mem s) ?off root (table_path n 0 va) = Some d"
    using table_step[of s root n 0 va c] tc n by (simp add: d_def)
  have path: "va_path n va = table_path n 3 va @ [va_index 3 va, va_index 2 va, va_index 1 va, va_index 0 va]"
  proof -
    have "drop (n - 3) (va_path n va) = [va_index 3 va, va_index 2 va, va_index 1 va, va_index 0 va]"
      by (rule nth_equalityI) (use n va_path_props(1)[of n va] in \<open>auto simp: va_path_nth less_Suc_eq numeral_eq_Suc\<close>)
    then show ?thesis by (metis append_take_drop_id table_path_def)
  qed
  have "walk (mem s) ?off root (va_path n va) =
      walk (mem s) ?off a [va_index 3 va, va_index 2 va, va_index 1 va, va_index 0 va]"
    unfolding path using a by (simp add: walk_append)
  also have "\<dots> = (if \<not> pte_present (ent s a 3 va) then None
       else if \<not> pte_present (ent s b 2 va) then None
       else if pte_large (ent s b 2 va) then Some (ent s b 2 va, 2)
       else if \<not> pte_present (ent s c 1 va) then None
       else if pte_large (ent s c 1 va) then Some (ent s c 1 va, 1)
       else if \<not> pte_present (ent s d 0 va) then None else Some (ent s d 0 va, 0))"
    using nl by (simp add: ent_def b_def c_def d_def)
  finally show ?thesis
    using that[of b c d] a0 nl nz[OF _ tb] nz[OF _ tc] nz[OF _ td] n b_def c_def d_def by auto
qed

text \<open>How the functions get from the root to the PML4 table.\<close>

lemma root_cases:
  assumes vm: "vm_inv n root s" and lv: "level \<in> {PML4, PML5}" "level_nat level = n"
  obtains (pml4) "level = PML4" "n = 3" "tbl (mem s) (hhdm_offset s) root (table_path n 3 va) = Some root"
    | (absent) "level = PML5" "n = 4" "root \<noteq> 0" "\<not> pte_present (ent s root 4 va)"
        "walk (mem s) (hhdm_offset s) root (va_path n va) = None"
    | (pml5) a where "level = PML5" "n = 4" "root \<noteq> 0" "pte_present (ent s root 4 va)" "\<not> pte_large (ent s root 4 va)"
        "a = pte_child (hhdm_offset s) (ent s root 4 va)"
        "tbl (mem s) (hhdm_offset s) root (table_path n 3 va) = Some a"
proof (cases "level = PML4")
  case True
  then show ?thesis using pml4 lv by (simp add: table_path_def)
next
  case False
  then have l: "level = PML5" "n = 4" using lv by auto
  have r0: "root \<noteq> 0" using tree_table_nz[OF vm, of "[]" root] by simp
  have t: "tbl (mem s) (hhdm_offset s) root (table_path n 4 va) = Some root" using l by (simp add: table_path_def)
  show ?thesis
  proof (cases "pte_present (ent s root 4 va)")
    case False
    then show ?thesis using absent l r0 by (simp add: va_path_unfold ent_def)
  next
    case True
    have nl: "\<not> pte_large (ent s root 4 va)"
      using no_large_high[OF vm, of "[]" root] True l by (simp add: ent_def)
    then show ?thesis using pml5 l r0 True table_step[of s root n 3 va root] t by (simp add: is_table_def)
  qed
qed

subsection \<open>vmm_translate and vmm_is_mapped\<close>

lemma translate_pml4:
  assumes vm: "vm_inv n root s" and n: "3 \<le> n"
    and a: "tbl (mem s) (hhdm_offset s) root (table_path n 3 va) = Some a"
  shows "vmm_translate_pml4 a va s = (case walk (mem s) (hhdm_offset s) root (va_path n va) of
      None \<Rightarrow> Inl Panic | Some (e, r) \<Rightarrow> Inr (pte_frame e OR take_bit (12 + 9 * min r 1) va))"
    "vmm_is_mapped_pml4 a va s = Inr (walk (mem s) (hhdm_offset s) root (va_path n va) \<noteq> None)"
proof -
  obtain b c d where w: "a \<noteq> 0" "pte_present (ent s a 3 va) \<Longrightarrow> \<not> pte_large (ent s a 3 va)"
    "b = pte_child (hhdm_offset s) (ent s a 3 va)" "is_table (ent s a 3 va) \<Longrightarrow> b \<noteq> 0"
    "c = pte_child (hhdm_offset s) (ent s b 2 va)" "is_table (ent s a 3 va) \<Longrightarrow> is_table (ent s b 2 va) \<Longrightarrow> c \<noteq> 0"
    "d = pte_child (hhdm_offset s) (ent s c 1 va)"
    "is_table (ent s a 3 va) \<Longrightarrow> is_table (ent s b 2 va) \<Longrightarrow> is_table (ent s c 1 va) \<Longrightarrow> d \<noteq> 0"
    "walk (mem s) (hhdm_offset s) root (va_path n va) =
      (if \<not> pte_present (ent s a 3 va) then None
       else if \<not> pte_present (ent s b 2 va) then None
       else if pte_large (ent s b 2 va) then Some (ent s b 2 va, 2)
       else if \<not> pte_present (ent s c 1 va) then None
       else if pte_large (ent s c 1 va) then Some (ent s c 1 va, 1)
       else if \<not> pte_present (ent s d 0 va) then None else Some (ent s d 0 va, 0))"
    by (rule walk_from_pml4[OF vm n a]) (rule that; assumption)
  note rd = pd_read_nz pte_p2v_eq[OF vm] pml_indices ent_def[symmetric] page_offsets pte_frame_def[symmetric]
  show "vmm_translate_pml4 a va s = (case walk (mem s) (hhdm_offset s) root (va_path n va) of
      None \<Rightarrow> Inl Panic | Some (e, r) \<Rightarrow> Inr (pte_frame e OR take_bit (12 + 9 * min r 1) va))"
    unfolding w(9) vmm_translate_pml4_def using w(1,2,4,6,8)
    by (simp add: rd w(3)[symmetric] w(5)[symmetric] w(7)[symmetric] is_table_def del: One_nat_def)
  show "vmm_is_mapped_pml4 a va s = Inr (walk (mem s) (hhdm_offset s) root (va_path n va) \<noteq> None)"
    unfolding w(9) vmm_is_mapped_pml4_def using w(1,2,4,6,8)
    by (simp add: rd w(3)[symmetric] w(5)[symmetric] w(7)[symmetric] is_table_def del: One_nat_def)
qed

lemma vmm_translate_impl_walk:
  assumes vm: "vm_inv n root s" and lv: "pm_level pmap \<in> {PML4, PML5}" "level_nat (pm_level pmap) = n"
    "pm_directory pmap = root"
  shows "vmm_translate_impl pmap va s = (case walk (mem s) (hhdm_offset s) root (va_path n va) of
      None \<Rightarrow> Inl Panic | Some (e, r) \<Rightarrow> Inr (pte_frame e OR take_bit (12 + 9 * min r 1) va))"
    "vmm_is_mapped_impl pmap va s = Inr (walk (mem s) (hhdm_offset s) root (va_path n va) \<noteq> None)"
  by (cases rule: root_cases[OF vm lv(1,2), of va];
      simp add: vmm_translate_impl_def vmm_is_mapped_impl_def lv(3) pd_read_nz pte_p2v_eq[OF vm]
        pml_indices ent_def[symmetric] translate_pml4[OF vm])+

subsection \<open>vmm_unmap\<close>

lemma leaf_clear:
  assumes vm: "vm_inv n root s" and k: "k \<le> n"
    and t: "tbl (mem s) (hhdm_offset s) root (table_path n k va) = Some a"
  defines "m' \<equiv> store64 (cell a (va_index k va)) 0 (mem s)"
  shows "vm_inv n root (s\<lparr>mem := m'\<rparr>)"
    "same_page n k va x \<Longrightarrow> walk m' (hhdm_offset s) root (va_path n x) = None"
    "\<not> same_page n k va x \<Longrightarrow>
       walk m' (hhdm_offset s) root (va_path n x) = walk (mem s) (hhdm_offset s) root (va_path n x)"
proof -
  let ?off = "hhdm_offset s" and ?p = "table_path n k va" and ?i = "va_index k va"
  have inv: "pmm_inv s" and wf: "pt_wf (mem s) ?off n root (table_pages s)" and lg: "large_ok (mem s) ?off n root"
    using vm by (auto simp: vm_inv_def)
  note P = table_path_facts[OF k, of va]
  note I = va_index_lt[of k va]
  have a: "a \<in> table_pages s" using pt_wfD(1)[OF wf P(2) t] by simp
  have L: "pt_wf m' ?off n root (table_pages s)"
    "\<And>q b. valid_path n q \<Longrightarrow> tbl m' ?off root q = Some b \<Longrightarrow> tbl (mem s) ?off root q = Some b"
    unfolding m'_def by (rule store_leaf[OF wf P(2) t I]; simp)+
  have "large_ok m' ?off n root"
    unfolding m'_def by (rule large_ok_store[OF wf P(2) t I lg])
      (use L(2) in \<open>auto simp: large_entry_ok_def m'_def\<close>)
  then show "vm_inv n root (s\<lparr>mem := m'\<rparr>)"
    using vm store_in_table(1,2)[OF inv a I, of 0] L(1) by (simp add: vm_inv_def m'_def)
  show "walk m' ?off root (va_path n x) = None" if same: "same_page n k va x"
  proof -
    obtain r where r: "va_path n x = ?p @ ?i # r"
      using prefix_table_path[OF k, of va x] same by (auto simp: prefix_def)
    show ?thesis unfolding r m'_def using walk_store_through[OF wf P(2) t I, of 0 r] by simp
  qed
  show "walk m' ?off root (va_path n x) = walk (mem s) ?off root (va_path n x)" if "\<not> same_page n k va x"
    unfolding m'_def
    using walk_store_other[OF wf P(2) t I va_path_props[of n x]] prefix_table_path[OF k, of va x] that by simp
qed

text \<open>
  What unmapping does: nothing when the address is not mapped; otherwise the entry that
  translates it is cleared and the address is invalidated in the TLB.
\<close>

lemma pd_get_nz:
  "vm_inv n root s \<Longrightarrow> a \<noteq> 0 \<Longrightarrow> pte_present (load64 (mem s) (cell a (unat idx))) \<Longrightarrow>
     \<not> pte_large (load64 (mem s) (cell a (unat idx))) \<Longrightarrow>
     pd_get a idx s = Inr (pte_child (hhdm_offset s) (load64 (mem s) (cell a (unat idx))))"
  by (simp add: pd_get_def pd_read_nz pte_p2v_eq)

lemma pd_write_nz: "a \<noteq> 0 \<Longrightarrow> pd_write a idx v s = Inr (s\<lparr>mem := store64 (cell a (unat idx)) v (mem s)\<rparr>)"
  by (simp add: pd_write_def)

lemma unmap_pml4:
  assumes vm: "vm_inv n root s" and n: "3 \<le> n"
    and a: "tbl (mem s) (hhdm_offset s) root (table_path n 3 va) = Some a"
  shows "case walk (mem s) (hhdm_offset s) root (va_path n va) of
      None \<Rightarrow> vmm_unmap_pml4 a va s = Inr s
    | Some (e, r) \<Rightarrow> r \<le> n \<and> (\<exists>t. tbl (mem s) (hhdm_offset s) root (table_path n r va) = Some t \<and>
        vmm_unmap_pml4 a va s =
          Inr (vmm_invalidate_page va (s\<lparr>mem := store64 (cell t (va_index r va)) 0 (mem s)\<rparr>)))"
proof -
  let ?off = "hhdm_offset s"
  obtain b c d where w: "a \<noteq> 0" "pte_present (ent s a 3 va) \<Longrightarrow> \<not> pte_large (ent s a 3 va)"
    "b = pte_child (hhdm_offset s) (ent s a 3 va)" "is_table (ent s a 3 va) \<Longrightarrow> b \<noteq> 0"
    "c = pte_child (hhdm_offset s) (ent s b 2 va)" "is_table (ent s a 3 va) \<Longrightarrow> is_table (ent s b 2 va) \<Longrightarrow> c \<noteq> 0"
    "d = pte_child (hhdm_offset s) (ent s c 1 va)"
    "is_table (ent s a 3 va) \<Longrightarrow> is_table (ent s b 2 va) \<Longrightarrow> is_table (ent s c 1 va) \<Longrightarrow> d \<noteq> 0"
    "walk (mem s) (hhdm_offset s) root (va_path n va) =
      (if \<not> pte_present (ent s a 3 va) then None
       else if \<not> pte_present (ent s b 2 va) then None
       else if pte_large (ent s b 2 va) then Some (ent s b 2 va, 2)
       else if \<not> pte_present (ent s c 1 va) then None
       else if pte_large (ent s c 1 va) then Some (ent s c 1 va, 1)
       else if \<not> pte_present (ent s d 0 va) then None else Some (ent s d 0 va, 0))"
    by (rule walk_from_pml4[OF vm n a]) (rule that; assumption)
  have tb: "is_table (ent s a 3 va) \<Longrightarrow> tbl (mem s) ?off root (table_path n 2 va) = Some b"
    using table_step[of s root n 2 va a] a n w(3) by simp
  have tc: "is_table (ent s a 3 va) \<Longrightarrow> is_table (ent s b 2 va) \<Longrightarrow> tbl (mem s) ?off root (table_path n 1 va) = Some c"
    using table_step[of s root n 1 va b] tb n w(5) by (simp add: numeral_2_eq_2)
  have td: "is_table (ent s a 3 va) \<Longrightarrow> is_table (ent s b 2 va) \<Longrightarrow> is_table (ent s c 1 va) \<Longrightarrow>
      tbl (mem s) ?off root (table_path n 0 va) = Some d"
    using table_step[of s root n 0 va c] tc n w(7) by simp
  note rd = pd_read_nz pd_get_nz[OF vm] pd_write_nz pml_indices ent_def[symmetric]
  show ?thesis
    unfolding w(9) vmm_unmap_pml4_def using w(1,2,4,6,8) tb tc td n
    by (simp add: rd w(3)[symmetric] w(5)[symmetric] w(7)[symmetric] is_table_def del: One_nat_def)
qed

lemma vmm_unmap_impl_walk:
  assumes vm: "vm_inv n root s" and lv: "pm_level pmap \<in> {PML4, PML5}" "level_nat (pm_level pmap) = n"
    "pm_directory pmap = root"
  shows "case walk (mem s) (hhdm_offset s) root (va_path n va) of
      None \<Rightarrow> vmm_unmap_impl pmap va s = Inr s
    | Some (e, r) \<Rightarrow> r \<le> n \<and> (\<exists>t. tbl (mem s) (hhdm_offset s) root (table_path n r va) = Some t \<and>
        vmm_unmap_impl pmap va s =
          Inr (vmm_invalidate_page va (s\<lparr>mem := store64 (cell t (va_index r va)) 0 (mem s)\<rparr>)))"
proof (cases rule: root_cases[OF vm lv(1,2), of va, case_names pml4 absent pml5])
  case pml4
  then have eq: "vmm_unmap_impl pmap va s = vmm_unmap_pml4 root va s" using lv(3) by (simp add: vmm_unmap_impl_def)
  show ?thesis unfolding eq by (rule unmap_pml4[OF vm _ pml4(3)]) (simp add: pml4(2))
next
  case absent
  then show ?thesis using lv(3) by (simp add: vmm_unmap_impl_def pd_read_nz pml_indices ent_def)
next
  case (pml5 a)
  then have eq: "vmm_unmap_impl pmap va s = vmm_unmap_pml4 a va s"
    using lv(3) by (simp add: vmm_unmap_impl_def pd_read_nz pd_get_nz[OF vm] pml_indices ent_def)
  show ?thesis unfolding eq by (rule unmap_pml4[OF vm _ pml5(7)]) (simp add: pml5(2))
qed

subsection \<open>TLB shootdown\<close>

lemma invalidate_range_eq:
  "invalidate_range base count s =
     s\<lparr>invlpg_log := invlpg_log s @ map (\<lambda>i. (this_cpu s, base + of_nat i * 4096)) [0..<unat count]\<rparr>"
proof -
  have "fold (\<lambda>i. vmm_invalidate_page (base + of_nat i * 4096)) xs s =
      s\<lparr>invlpg_log := invlpg_log s @ map (\<lambda>i. (this_cpu s, base + of_nat i * 4096)) xs\<rparr>" for xs
    by (induction xs arbitrary: s) (simp_all add: vmm_invalidate_page_def)
  then show ?thesis by (simp add: invalidate_range_def)
qed

lemma responders_eq:
  "fold (\<lambda>k. on_cpu k vmm_tlb_flush_handle) ks s =
     s\<lparr>tlb_shootdown_ack := tlb_shootdown_ack s + of_nat (length ks),
       invlpg_log := invlpg_log s @ concat (map (\<lambda>k. map (\<lambda>i. (k, tlb_shootdown_base s + of_nat i * 4096))
         [0..<unat (tlb_shootdown_count s)]) ks)\<rparr>"
  by (induction ks arbitrary: s)
    (simp_all add: on_cpu_def vmm_tlb_flush_handle_def invalidate_range_eq algebra_simps)

lemma vmm_shootdown_range_eq:
  assumes "page_count \<noteq> 0" "1 < cpu_count s" "tlb_shootdown_lock s = unlocked" "length ks < 2 ^ 64"
  shows "vmm_shootdown_range ks va page_count s =
    (if length ks < unat (cpu_count s) - 1 then Inl Deadlock
     else Inr (s\<lparr>tlb_shootdown_base := va, tlb_shootdown_count := page_count,
       tlb_shootdown_ack := of_nat (length ks),
       invlpg_log := invlpg_log s @ concat (map (\<lambda>k. map (\<lambda>i. (k, va + of_nat i * 4096)) [0..<unat page_count]) ks) @
         map (\<lambda>i. (this_cpu s, va + of_nat i * 4096)) [0..<unat page_count]\<rparr>))"
proof -
  have "unat (cpu_count s - 1) = unat (cpu_count s) - 1"
    using assms(2) by (simp add: unat_sub word_le_nat_alt word_less_nat_alt)
  then have "(of_nat (length ks) :: u64) < cpu_count s - 1 \<longleftrightarrow> length ks < unat (cpu_count s) - 1"
    using assms(4) by (simp add: word_less_nat_alt unat_of_nat_u64)
  moreover have "\<not> cpu_count s \<le> 1" using assms(2) by simp
  ultimately show ?thesis using assms(1,3)
    by (cases s) (auto simp: vmm_shootdown_range_def responders_eq invalidate_range_eq Let_def)
qed

end
