(* ===== verification/Vmm_Props.thy ===== *)
theory Vmm_Props
  imports Vmm_Read
begin

section \<open>Properties of virtual memory\<close>

text \<open>
  The statements about the operations a client calls, each with a witness: a machine of eight
  pages whose page 2 is an empty PML4 table.
\<close>

subsection \<open>A concrete address space\<close>

definition vm_demo :: vmachine where
  "vm_demo = \<lparr>mem = (\<lambda>x. if x = 268439552 then 224 else 0), hhdm_resp = Some 268435456,
     memmap_resp = None,
     pmm_inst = \<lparr>pmm_lock = unlocked, highest_page = 32768,
       allocated_pages = \<lparr>bm_buffer = \<lparr>span_data = 268439552, span_size = 1\<rparr>\<rparr>\<rparr>,
     kernel_page_map = \<lparr>pm_level = PML4, pm_directory = 268443648\<rparr>,
     vmm_lock = unlocked, tlb_shootdown_lock = unlocked, tlb_shootdown_base = 0,
     tlb_shootdown_count = 0, tlb_shootdown_ack = 0, paging_mode_resp = Some False, cr3 = 8192,
     cpu_insn = (\<lambda>_ _. \<lparr>r_eax = 0xFFFFFFFF, r_ebx = 0, r_ecx = 0, r_edx = 0xFFFFFFFF\<rparr>),
     cpu_count = 2, this_cpu = 0, invlpg_log = []\<rparr>"

lemma vm_demo_bits: "p < 8 \<Longrightarrow> allocd vm_demo p \<longleftrightarrow> p < 3"
proof -
  assume "p < 8"
  then have "p \<in> {0, 1, 2, 3, 4, 5, 6, 7}" by auto
  then show ?thesis
    by (auto simp: allocd_def bm_bit_def bm_base_def vm_demo_def bit_iff_odd)
qed

lemma vm_demo_shape:
  "npages vm_demo = 8" "bm_cap (page_bits vm_demo) = 8" "under_bitmap vm_demo p \<longleftrightarrow> p = 1"
  "hhdm_offset vm_demo = 268435456"
  by (auto simp: npages_def vm_demo_def bm_cap_def bm_len_def under_bitmap_def hhdm_offset_def bm_base_def)

lemma vm_demo_pmm: "pmm_inv vm_demo"
  using vm_demo_bits unfolding pmm_inv_def vm_demo_shape
  by (simp add: vm_demo_def bm_wf_def bm_base_def bm_len_def page_aligned_def)

lemma vm_demo_root: "268443648 \<in> table_pages vm_demo"
  unfolding table_pages_def using vm_demo_bits[of 2]
  by (auto simp: vm_demo_shape page_va_def intro!: exI[of _ 2])

lemma vm_demo_free: "3 \<le> card (free_pages vm_demo)"
proof -
  have "free_pages vm_demo = {3, 4, 5, 6, 7}"
    using vm_demo_bits by (auto simp: free_pages_def vm_demo_shape)
  then show ?thesis by simp
qed

lemma vm_demo_inv: "vm_inv 3 268443648 vm_demo"
proof -
  have "mem vm_demo x = 0" if "in_page 268443648 x" for x
    using that by (auto simp: vm_demo_def in_page_def)
  then have z: "load64 (mem vm_demo) (cell 268443648 j) = 0" if "j < 512" for j
    using that by (intro load64_page_zero)
  have t: "tbl (mem vm_demo) off 268443648 q = Some a \<Longrightarrow> valid_path 3 q \<Longrightarrow> q = [] \<and> a = 268443648" for off q a
    using z by (cases q) (auto split: if_splits)
  have al: "\<forall>a \<in> table_pages vm_demo. page_aligned a" using table_pages_aligned[OF vm_demo_pmm] by blast
  have "pt_wf (mem vm_demo) (hhdm_offset vm_demo) 3 268443648 (table_pages vm_demo)"
    unfolding pt_wf_def using t vm_demo_root al by blast
  moreover have "large_entry_ok (3 - length p) (load64 (mem vm_demo) (cell a i))"
    if "valid_path 3 p" "tbl (mem vm_demo) (hhdm_offset vm_demo) 268443648 p = Some a" "i < 512" for p a i
    using t[OF that(2,1)] z[OF that(3)] by (simp add: large_entry_ok_def)
  then have "large_ok (mem vm_demo) (hhdm_offset vm_demo) 3 268443648" by (simp add: large_ok_def)
  ultimately show ?thesis using vm_demo_pmm by (simp add: vm_inv_def vm_demo_shape)
qed

lemma vm_demo_space: "space KernelMap 3 268443648 vm_demo"
  using vm_demo_inv by (simp add: space_def pmap_of_def vm_demo_def)

lemma space_mem:
  "space p n root s \<Longrightarrow> vm_inv n root (s\<lparr>mem := m\<rparr>) \<Longrightarrow> space p n root (s\<lparr>mem := m\<rparr>)"
  by (simp add: space_def)

subsection \<open>Reading\<close>

lemma vmm_translate_eq:
  assumes "space p n root s"
  shows "vmm_translate p va s = (case walk (mem s) (hhdm_offset s) root (va_path n va) of
      None \<Rightarrow> Inl Panic | Some (e, r) \<Rightarrow> Inr (pte_frame e OR take_bit (12 + 9 * min r 1) va, s))"
    "vmm_is_mapped p va s = Inr (walk (mem s) (hhdm_offset s) root (va_path n va) \<noteq> None, s)"
proof -
  obtain l where l: "vmm_acquire p s = Inr (s\<lparr>vmm_lock := l\<rparr>)"
    "\<And>m. vmm_release p (s\<lparr>vmm_lock := l, mem := m\<rparr>) = s\<lparr>mem := m\<rparr>"
    using vmm_locked assms by (auto simp: space_def)
  have rel: "vmm_release p (s\<lparr>vmm_lock := l\<rparr>) = s" using l(2)[of "mem s"] by simp
  have vm: "vm_inv n root (s\<lparr>vmm_lock := l\<rparr>)" using assms by (simp add: space_def)
  have lv: "pm_level (pmap_of p s) \<in> {PML4, PML5}" "level_nat (pm_level (pmap_of p s)) = n" "pm_directory (pmap_of p s) = root"
    using assms by (simp_all add: space_def)
  show "vmm_translate p va s = (case walk (mem s) (hhdm_offset s) root (va_path n va) of
      None \<Rightarrow> Inl Panic | Some (e, r) \<Rightarrow> Inr (pte_frame e OR take_bit (12 + 9 * min r 1) va, s))"
    using vmm_translate_impl_walk(1)[OF vm lv, of va] l(1) rel
    by (simp add: vmm_translate_def split: option.splits)
  show "vmm_is_mapped p va s = Inr (walk (mem s) (hhdm_offset s) root (va_path n va) \<noteq> None, s)"
    using vmm_translate_impl_walk(2)[OF vm lv, of va] l(1) rel by (simp add: vmm_is_mapped_def)
qed

subsection \<open>Mapping\<close>

lemma leaf_frame: "flags_ok f \<Longrightarrow> pte_frame pa = pa \<Longrightarrow> pte_frame (pa OR f OR MM_PT_FLAG_VALID) = pa"
  "flags_ok f \<Longrightarrow> pte_frame pa = pa \<Longrightarrow> pte_frame (pa OR f OR MM_PT_FLAG_VALID OR MM_PT_FLAG_LARGE) = pa"
proof -
  have "pte_frame MM_PT_FLAG_VALID = 0" "pte_frame MM_PT_FLAG_LARGE = 0"
    by (rule bit_word_eqI, auto simp: bit_pte_frame mask_bits)+
  then show "flags_ok f \<Longrightarrow> pte_frame pa = pa \<Longrightarrow> pte_frame (pa OR f OR MM_PT_FLAG_VALID) = pa"
    "flags_ok f \<Longrightarrow> pte_frame pa = pa \<Longrightarrow> pte_frame (pa OR f OR MM_PT_FLAG_VALID OR MM_PT_FLAG_LARGE) = pa"
    by (simp_all add: pte_frame_or flags_ok_def)
qed

text \<open>What both mapping theorems share: the lock is taken and given back around the work.\<close>

lemma vmm_map_locked:
  assumes sp: "space p n root s"
  obtains l where "vm_inv n root (s\<lparr>vmm_lock := l\<rparr>)"
    "\<And>va pa flags sz m'. vmm_map_impl (pmap_of p s) va pa flags sz (s\<lparr>vmm_lock := l\<rparr>) =
       Inr (s\<lparr>vmm_lock := l, mem := m'\<rparr>) \<Longrightarrow> vmm_map p va pa flags sz s = Inr (s\<lparr>mem := m'\<rparr>)"
proof -
  obtain l where "vmm_acquire p s = Inr (s\<lparr>vmm_lock := l\<rparr>)"
    "\<And>m. vmm_release p (s\<lparr>vmm_lock := l, mem := m\<rparr>) = s\<lparr>mem := m\<rparr>"
    using vmm_locked sp by (auto simp: space_def)
  then show ?thesis using that[of l] sp by (simp add: vmm_map_def space_def)
qed

lemma vm_inv_lock_mem:
  "vm_inv n root (s\<lparr>vmm_lock := l, mem := m\<rparr>) = vm_inv n root (s\<lparr>mem := m\<rparr>)"
proof -
  have "s\<lparr>vmm_lock := l, mem := m\<rparr> = (s\<lparr>mem := m\<rparr>)\<lparr>vmm_lock := l\<rparr>" by simp
  then show ?thesis by (simp only: view_lock(1))
qed

lemma vmm_map_result:
  assumes sp: "space p n root s" and vm: "vm_inv n root (s\<lparr>mem := m'\<rparr>)" and k: "k \<le> 1"
    and hit: "\<And>x. same_page n k va x \<Longrightarrow> walk m' (hhdm_offset s) root (va_path n x) = Some (v, k)"
    and v: "pte_frame v = pa" and x: "same_page n k va x"
  shows "vmm_translate p x (s\<lparr>mem := m'\<rparr>) = Inr (pa OR take_bit (12 + 9 * k) x, s\<lparr>mem := m'\<rparr>)"
    "xl (s\<lparr>mem := m'\<rparr>) n root x = Some (pa OR take_bit (12 + 9 * k) x)"
  using vmm_translate_eq(1)[OF space_mem[OF sp vm], of x] hit[OF x] v k by (simp_all add: xlate_def min_def)

lemma vmm_map_4kb_walk:
  assumes sp: "space p n root s" and free: "n \<le> card (free_pages s)"
    and va: "page_aligned va" and pa: "page_aligned pa"
  shows "\<exists>m'. vmm_map p va pa flags MM_PAGE_4KB s = Inr (s\<lparr>mem := m'\<rparr>) \<and> vm_inv n root (s\<lparr>mem := m'\<rparr>) \<and>
    (\<forall>x. same_page n 0 va x \<longrightarrow>
       walk m' (hhdm_offset s) root (va_path n x) = Some (pa OR flags OR MM_PT_FLAG_VALID, 0)) \<and>
    (\<forall>x. \<not> same_page n 0 va x \<longrightarrow> xlate m' (hhdm_offset s) root (va_path n x) x = xl s n root x)"
proof -
  obtain l where l: "vm_inv n root (s\<lparr>vmm_lock := l\<rparr>)"
    "\<And>va pa flags sz m'. vmm_map_impl (pmap_of p s) va pa flags sz (s\<lparr>vmm_lock := l\<rparr>) =
       Inr (s\<lparr>vmm_lock := l, mem := m'\<rparr>) \<Longrightarrow> vmm_map p va pa flags sz s = Inr (s\<lparr>mem := m'\<rparr>)"
    using vmm_map_locked[OF sp] by blast
  have lv: "pm_level (pmap_of p s) \<in> {PML4, PML5}" "level_nat (pm_level (pmap_of p s)) = n" "pm_directory (pmap_of p s) = root"
    using sp by (simp_all add: space_def)
  obtain m' where m: "vmm_map_impl (pmap_of p s) va pa flags 4096 (s\<lparr>vmm_lock := l\<rparr>) = Inr (s\<lparr>vmm_lock := l, mem := m'\<rparr>)"
    "vm_inv n root (s\<lparr>vmm_lock := l, mem := m'\<rparr>)"
    "\<forall>x. same_page n 0 va x \<longrightarrow> walk m' (hhdm_offset s) root (va_path n x) = Some (pa OR flags OR MM_PT_FLAG_VALID, 0)"
    "\<forall>x. \<not> same_page n 0 va x \<longrightarrow> xlate m' (hhdm_offset s) root (va_path n x) x = xl s n root x"
    using vmm_map_impl_4kb[OF l(1) _ lv va pa, where flags = flags] free by auto
  have "vm_inv n root (s\<lparr>mem := m'\<rparr>)" using m(2) by (simp only: vm_inv_lock_mem)
  then show ?thesis using l(2)[OF m(1)] m(3,4) by blast
qed

text \<open>
  C6: Mapping a 4 KB page. In an address space that satisfies the invariant, with a free page
  for each level, \<^verbatim>\<open>vmm_map\<close> returns; afterwards \<^verbatim>\<open>vmm_translate\<close> gives the mapped frame plus
  the offset for every address of the page, the hardware's translation agrees, every other
  address is translated as before (also those of a large page that had to be split), and the
  invariant still holds.
\<close>

theorem vmm_map_4kb_correct:
  assumes sp: "space p n root s" and free: "n \<le> card (free_pages s)"
    and va: "page_aligned va" and pa: "page_aligned pa" "unat pa < 2 ^ 48" and fl: "flags_ok flags"
  shows "\<exists>m'. vmm_map p va pa flags MM_PAGE_4KB s = Inr (s\<lparr>mem := m'\<rparr>) \<and> space p n root (s\<lparr>mem := m'\<rparr>) \<and>
    (\<forall>x. same_page n 0 va x \<longrightarrow>
       vmm_translate p x (s\<lparr>mem := m'\<rparr>) = Inr (pa OR take_bit 12 x, s\<lparr>mem := m'\<rparr>) \<and>
       xl (s\<lparr>mem := m'\<rparr>) n root x = Some (pa OR take_bit 12 x)) \<and>
    (\<forall>x. \<not> same_page n 0 va x \<longrightarrow> xl (s\<lparr>mem := m'\<rparr>) n root x = xl s n root x)"
proof -
  let ?v = "pa OR flags OR MM_PT_FLAG_VALID"
  obtain m' where m: "vmm_map p va pa flags MM_PAGE_4KB s = Inr (s\<lparr>mem := m'\<rparr>)" "vm_inv n root (s\<lparr>mem := m'\<rparr>)"
    "\<And>x. same_page n 0 va x \<Longrightarrow> walk m' (hhdm_offset s) root (va_path n x) = Some (?v, 0)"
    "\<And>x. \<not> same_page n 0 va x \<Longrightarrow> xlate m' (hhdm_offset s) root (va_path n x) x = xl s n root x"
    using vmm_map_4kb_walk[OF sp free va pa(1), of flags] by blast
  have fr: "pte_frame ?v = pa" using leaf_frame(1)[OF fl pte_frame_fits[OF pa]] .
  note R = vmm_map_result[OF sp m(2) _ m(3) fr, simplified]
  show ?thesis using m(1,4) space_mem[OF sp m(2)] R by auto
qed

theorem vmm_map_4kb_correct_witness:
  "\<exists>m'. vmm_map KernelMap 0x40000000 0x5000 6 MM_PAGE_4KB vm_demo = Inr (vm_demo\<lparr>mem := m'\<rparr>) \<and>
    vmm_translate KernelMap 0x40000123 (vm_demo\<lparr>mem := m'\<rparr>) = Inr (0x5123, vm_demo\<lparr>mem := m'\<rparr>)"
proof -
  have "flags_ok 6" by (simp add: flags_ok_def pte_frame_def MM_PT_PADDR_MASK_def)
  moreover have "same_page 3 0 0x40000000 0x40000123" by (simp add: same_page_def take_bit_eq_mod)
  ultimately show ?thesis
    using vmm_map_4kb_correct[OF vm_demo_space vm_demo_free, of "0x40000000" "0x5000" 6]
    by (auto simp: page_aligned_def take_bit_eq_mod)
qed

text \<open>
  Mapping a 2 MB page. As for 4 KB pages, with the whole 2 MB page translated to
  consecutive addresses through one large entry.
\<close>

theorem vmm_map_2mb_correct:
  assumes sp: "space p n root s" and free: "n \<le> card (free_pages s)"
    and va: "take_bit 21 va = 0" and pa: "take_bit 21 pa = 0" "unat pa < 2 ^ 48" and fl: "flags_ok flags"
  shows "\<exists>m'. vmm_map p va pa flags MM_PAGE_2MB s = Inr (s\<lparr>mem := m'\<rparr>) \<and> space p n root (s\<lparr>mem := m'\<rparr>) \<and>
    (\<forall>x. same_page n 1 va x \<longrightarrow>
       vmm_translate p x (s\<lparr>mem := m'\<rparr>) = Inr (pa OR take_bit 21 x, s\<lparr>mem := m'\<rparr>) \<and>
       xl (s\<lparr>mem := m'\<rparr>) n root x = Some (pa OR take_bit 21 x)) \<and>
    (\<forall>x. \<not> same_page n 1 va x \<longrightarrow> xl (s\<lparr>mem := m'\<rparr>) n root x = xl s n root x)"
proof -
  obtain l where l: "vm_inv n root (s\<lparr>vmm_lock := l\<rparr>)"
    "\<And>va pa flags sz m'. vmm_map_impl (pmap_of p s) va pa flags sz (s\<lparr>vmm_lock := l\<rparr>) =
       Inr (s\<lparr>vmm_lock := l, mem := m'\<rparr>) \<Longrightarrow> vmm_map p va pa flags sz s = Inr (s\<lparr>mem := m'\<rparr>)"
    using vmm_map_locked[OF sp] by blast
  have lv: "pm_level (pmap_of p s) \<in> {PML4, PML5}" "level_nat (pm_level (pmap_of p s)) = n" "pm_directory (pmap_of p s) = root"
    using sp by (simp_all add: space_def)
  let ?v = "pa OR flags OR MM_PT_FLAG_VALID OR MM_PT_FLAG_LARGE"
  obtain m' where m: "vmm_map_impl (pmap_of p s) va pa flags MM_PAGE_2MB (s\<lparr>vmm_lock := l\<rparr>) = Inr (s\<lparr>vmm_lock := l, mem := m'\<rparr>)"
    "vm_inv n root (s\<lparr>vmm_lock := l, mem := m'\<rparr>)"
    "\<And>x. same_page n 1 va x \<Longrightarrow> walk m' (hhdm_offset s) root (va_path n x) = Some (?v, 1)"
    "\<And>x. \<not> same_page n 1 va x \<Longrightarrow> xlate m' (hhdm_offset s) root (va_path n x) x = xl s n root x"
    using vmm_map_impl_2mb[OF l(1) _ lv va pa(1) fl] free by auto
  have vm: "vm_inv n root (s\<lparr>mem := m'\<rparr>)" using m(2) by (simp only: vm_inv_lock_mem)
  have "take_bit 12 pa = 0" using pa(1) by (auto simp: bit_eq_iff bit_take_bit_iff)
  then have "page_aligned pa" by (simp add: page_aligned_def take_bit_eq_mod word_eq_iff_unat unat_mod)
  then have fr: "pte_frame ?v = pa" using leaf_frame(2)[OF fl pte_frame_fits] pa(2) by blast
  note R = vmm_map_result[OF sp vm _ m(3) fr, simplified]
  show ?thesis using l(2)[OF m(1)] space_mem[OF sp vm] R m(4) by auto
qed

theorem vmm_map_2mb_correct_witness:
  "\<exists>m'. vmm_map KernelMap 0x40000000 0x200000 2 MM_PAGE_2MB vm_demo = Inr (vm_demo\<lparr>mem := m'\<rparr>) \<and>
    vmm_translate KernelMap 0x40012345 (vm_demo\<lparr>mem := m'\<rparr>) = Inr (0x212345, vm_demo\<lparr>mem := m'\<rparr>)"
proof -
  have "flags_ok 2" by (simp add: flags_ok_def pte_frame_def MM_PT_PADDR_MASK_def)
  moreover have "same_page 3 1 0x40000000 0x40012345" by (simp add: same_page_def take_bit_eq_mod drop_bit_eq_div)
  ultimately show ?thesis
    using vmm_map_2mb_correct[OF vm_demo_space vm_demo_free, of "0x40000000" "0x200000" 2]
    by (auto simp: take_bit_eq_mod)
qed

subsection \<open>Unmapping\<close>

lemma view_log:
  "vm_inv n root (s\<lparr>invlpg_log := g\<rparr>) = vm_inv n root s" "hhdm_offset (s\<lparr>invlpg_log := g\<rparr>) = hhdm_offset s"
proof -
  have v: "npages (s\<lparr>invlpg_log := g\<rparr>) = npages s" "hhdm_offset (s\<lparr>invlpg_log := g\<rparr>) = hhdm_offset s"
    "allocd (s\<lparr>invlpg_log := g\<rparr>) = allocd s" "under_bitmap (s\<lparr>invlpg_log := g\<rparr>) = under_bitmap s"
    by (simp_all add: npages_def hhdm_offset_def allocd_def under_bitmap_def fun_eq_iff)
  then have "table_pages (s\<lparr>invlpg_log := g\<rparr>) = table_pages s" "pmm_inv (s\<lparr>invlpg_log := g\<rparr>) = pmm_inv s"
    by (simp_all add: table_pages_def pmm_inv_def page_va_def)
  with v show "vm_inv n root (s\<lparr>invlpg_log := g\<rparr>) = vm_inv n root s" "hhdm_offset (s\<lparr>invlpg_log := g\<rparr>) = hhdm_offset s"
    by (simp_all add: vm_inv_def)
qed

lemma vmm_unmap_eq:
  assumes sp: "space p n root s"
  shows "case walk (mem s) (hhdm_offset s) root (va_path n va) of
      None \<Rightarrow> vmm_unmap p va s = Inr s
    | Some (e, r) \<Rightarrow> r \<le> n \<and> (\<exists>t. tbl (mem s) (hhdm_offset s) root (table_path n r va) = Some t \<and>
        vmm_unmap p va s = Inr (s\<lparr>mem := store64 (cell t (va_index r va)) 0 (mem s),
          invlpg_log := invlpg_log s @ [(this_cpu s, va)]\<rparr>))"
proof -
  obtain l where l: "vmm_acquire p s = Inr (s\<lparr>vmm_lock := l\<rparr>)"
    "\<And>m. vmm_release p (s\<lparr>vmm_lock := l, mem := m\<rparr>) = s\<lparr>mem := m\<rparr>"
    using vmm_locked sp by (auto simp: space_def)
  have r0: "vmm_release p (s\<lparr>vmm_lock := l\<rparr>) = s" using l(2)[of "mem s"] by simp
  have r1: "vmm_release p (s\<lparr>vmm_lock := l, mem := m, invlpg_log := g\<rparr>) = s\<lparr>mem := m, invlpg_log := g\<rparr>" for m g
    using l(2)[of m] by (cases p; cases s) (simp_all add: vmm_release_def)
  have vm: "vm_inv n root (s\<lparr>vmm_lock := l\<rparr>)" using sp by (simp add: space_def)
  have lv: "pm_level (pmap_of p s) \<in> {PML4, PML5}" "level_nat (pm_level (pmap_of p s)) = n" "pm_directory (pmap_of p s) = root"
    using sp by (simp_all add: space_def)
  show ?thesis using vmm_unmap_impl_walk[OF vm lv, of va] l(1) r0
    by (auto simp: vmm_unmap_def vmm_invalidate_page_def r1 split: option.splits)
qed

text \<open>
  C7: Unmapping. \<^verbatim>\<open>vmm_unmap\<close> of an address that is not mapped changes nothing. Otherwise it
  returns, no address of the page that contained it (of whatever size) is mapped any more, the
  address has been invalidated in the TLB of the CPU, every other address is translated as
  before, and the invariant still holds.
\<close>

theorem vmm_unmap_correct:
  assumes sp: "space p n root s"
  shows "case walk (mem s) (hhdm_offset s) root (va_path n va) of
      None \<Rightarrow> vmm_unmap p va s = Inr s
    | Some (e, r) \<Rightarrow> \<exists>s'. vmm_unmap p va s = Inr s' \<and> space p n root s' \<and>
        invlpg_log s' = invlpg_log s @ [(this_cpu s, va)] \<and>
        (\<forall>x. same_page n r va x \<longrightarrow> vmm_is_mapped p x s' = Inr (False, s')) \<and>
        (\<forall>x. \<not> same_page n r va x \<longrightarrow> xl s' n root x = xl s n root x)"
proof (cases "walk (mem s) (hhdm_offset s) root (va_path n va)")
  case None
  then show ?thesis using vmm_unmap_eq[OF sp, of va] by simp
next
  case (Some er)
  obtain e r where er: "er = (e, r)" by (cases er)
  obtain t where t: "r \<le> n" "tbl (mem s) (hhdm_offset s) root (table_path n r va) = Some t"
    "vmm_unmap p va s = Inr (s\<lparr>mem := store64 (cell t (va_index r va)) 0 (mem s),
        invlpg_log := invlpg_log s @ [(this_cpu s, va)]\<rparr>)" (is "_ = Inr ?s")
    using vmm_unmap_eq[OF sp, of va] Some er by auto
  have vm: "vm_inv n root s" using sp by (simp add: space_def)
  note C = leaf_clear[OF vm t(1,2)]
  have sp': "space p n root ?s" using sp C(1) by (cases p) (simp_all add: space_def view_log pmap_of_def)
  have "vmm_is_mapped p x ?s = Inr (False, ?s)" if "same_page n r va x" for x
    using vmm_translate_eq(2)[OF sp', of x] C(2)[OF that] by (simp add: view_log)
  moreover have "xl ?s n root x = xl s n root x" if "\<not> same_page n r va x" for x
    using C(3)[OF that] by (simp add: xlate_def view_log)
  ultimately show ?thesis using Some er t(3) sp' by auto
qed

theorem vmm_unmap_correct_witness:
  "\<exists>m' s'. vmm_map KernelMap 0x40000000 0x5000 6 MM_PAGE_4KB vm_demo = Inr (vm_demo\<lparr>mem := m'\<rparr>) \<and>
    vmm_unmap KernelMap 0x40000000 (vm_demo\<lparr>mem := m'\<rparr>) = Inr s' \<and>
    vmm_is_mapped KernelMap 0x40000123 s' = Inr (False, s')"
proof -
  have sp: "same_page 3 0 0x40000000 0x40000123" "same_page 3 0 0x40000000 0x40000000"
    by (simp_all add: same_page_def take_bit_eq_mod)
  have al: "page_aligned 0x40000000" "page_aligned 0x5000" by (simp_all add: page_aligned_def)
  obtain m' where m: "vmm_map KernelMap 0x40000000 0x5000 6 MM_PAGE_4KB vm_demo = Inr (vm_demo\<lparr>mem := m'\<rparr>)"
    "vm_inv 3 268443648 (vm_demo\<lparr>mem := m'\<rparr>)"
    "walk m' (hhdm_offset vm_demo) 268443648 (va_path 3 0x40000000) = Some (0x5000 OR 6 OR MM_PT_FLAG_VALID, 0)"
    using vmm_map_4kb_walk[OF vm_demo_space vm_demo_free al, of 6] sp(2) by blast
  from vmm_unmap_correct[OF space_mem[OF vm_demo_space m(2)], of "0x40000000"] m(1,3) sp(1) show ?thesis by auto
qed

text \<open>
  \<^verbatim>\<open>vmm_translate\<close> and 1 GB pages. Where the tables hold a 1 GB page, \<^verbatim>\<open>vmm_translate\<close>
  keeps only the low 21 bits of the address as the offset, while the hardware uses the low 30
  bits: for an address beyond the first 2 MB of the page the two differ.
\<close>

theorem vmm_translate_1gb_offset:
  assumes sp: "space p n root s" and w: "walk (mem s) (hhdm_offset s) root (va_path n va) = Some (e, 2)"
    and al: "take_bit 30 (pte_frame e) = 0" and far: "take_bit 21 va \<noteq> take_bit 30 va"
  shows "\<exists>pa pa'. vmm_translate p va s = Inr (pa, s) \<and> xl s n root va = Some pa' \<and>
    pa = pte_frame e OR take_bit 21 va \<and> pa' = pte_frame e OR take_bit 30 va \<and> pa \<noteq> pa'"
proof -
  have "take_bit 30 (pte_frame e OR take_bit 21 va) = take_bit 21 va"
    "take_bit 30 (pte_frame e OR take_bit 30 va) = take_bit 30 va" using al by (simp_all add: take_bit_or)
  with far have "pte_frame e OR take_bit 21 va \<noteq> pte_frame e OR take_bit 30 va" by metis
  then show ?thesis using vmm_translate_eq(1)[OF sp, of va] w by (simp add: xlate_def)
qed

text \<open>A 1 GB entry in the tables of the example machine.\<close>

lemma vm_demo_1gb:
  "\<exists>s :: vmachine. space KernelMap 3 268443648 s \<and>
     walk (mem s) (hhdm_offset s) 268443648 (va_path 3 0x40200000) = Some (0x40000083, 2)"
proof -
  obtain c s2 where "pd_get_or_create 268443648 (pml4_index 0x40000000) PML4 MM_PT_KERN_TABLE_FLAGS vm_demo = Inr (c, s2)"
    and c: "at_level 3 268443648 0x40000000 2 vm_demo c s2"
    using at_level_step[of 3 268443648 "0x40000000" 2 vm_demo 268443648 vm_demo MM_PT_KERN_TABLE_FLAGS PML4
        "pml4_index 0x40000000"] at_level_root[OF vm_demo_inv, of "0x40000000"] vm_demo_free pml_indices(4)
    by (auto simp: numeral_eq_Suc)
  have e: "pte_present 0x40000083" "pte_large 0x40000083" "large_entry_ok 2 0x40000083"
    by (simp_all add: pte_present_def pte_large_def MM_PT_FLAG_VALID_def MM_PT_FLAG_LARGE_def large_entry_ok_def
        pte_frame_def MM_PT_PADDR_MASK_def take_bit_eq_mod)
  obtain m' where "pd_write c (pml3_index 0x40000000) 0x40000083 s2 = Inr (vm_demo\<lparr>mem := m'\<rparr>)"
    and m: "vm_inv 3 268443648 (vm_demo\<lparr>mem := m'\<rparr>)"
    "\<And>x. same_page 3 2 0x40000000 x \<Longrightarrow> walk m' (hhdm_offset vm_demo) 268443648 (va_path 3 x) = Some (0x40000083, 2)"
    and "\<And>x. \<not> same_page 3 2 0x40000000 x \<Longrightarrow>
      xlate m' (hhdm_offset vm_demo) 268443648 (va_path 3 x) x = xl vm_demo 3 268443648 x"
    using leaf_write[OF c _ _ _ e(1), of "pml3_index 0x40000000"] e(2,3) pml_indices(3) by auto
  have "same_page 3 2 0x40000000 0x40200000" by (simp add: same_page_def take_bit_eq_mod drop_bit_eq_div)
  then show ?thesis using space_mem[OF vm_demo_space m(1)] m(2)
    by (intro exI[of _ "vm_demo\<lparr>mem := m'\<rparr>"]) simp
qed

theorem vmm_translate_1gb_offset_witness:
  "\<exists>(s :: vmachine) pa pa'. vmm_translate KernelMap 0x40200000 s = Inr (pa, s) \<and> xl s 3 268443648 0x40200000 = Some pa' \<and> pa \<noteq> pa'"
proof -
  obtain s :: vmachine where s: "space KernelMap 3 268443648 s"
    "walk (mem s) (hhdm_offset s) 268443648 (va_path 3 0x40200000) = Some (0x40000083, 2)"
    using vm_demo_1gb by blast
  have "take_bit 30 (pte_frame 0x40000083) = 0"
    by (simp add: pte_frame_def MM_PT_PADDR_MASK_def take_bit_eq_mod)
  moreover have "take_bit 21 (0x40200000 :: u64) \<noteq> take_bit 30 0x40200000" by (simp add: take_bit_eq_mod)
  ultimately have "\<exists>pa pa'. vmm_translate KernelMap 0x40200000 s = Inr (pa, s) \<and>
      xl s 3 268443648 0x40200000 = Some pa' \<and> pa = pte_frame 0x40000083 OR take_bit 21 0x40200000 \<and>
      pa' = pte_frame 0x40000083 OR take_bit 30 0x40200000 \<and> pa \<noteq> pa'"
    by (rule vmm_translate_1gb_offset[OF s])
  then show ?thesis by blast
qed

subsection \<open>Shootdown and cloning\<close>



text \<open>
  Cloning panics on the first 4 KB user page. At the lowest level every present entry is a
  page, but \<^verbatim>\<open>vmm_clone_tables\<close> treats a user entry there like a table: it allocates a table
  for it and then panics because there is no next level.
\<close>

theorem vmm_clone_user_page_panics:
  assumes inv: "pmm_inv s" and ptr: "dst \<noteq> 0" "src \<noteq> 0" and i: "i < 512"
    and before: "\<And>j. j < i \<Longrightarrow> \<not> pte_present (load64 (mem s) (cell src j))"
    and user: "pte_present (load64 (mem s) (cell src i))" "\<not> pte_large (load64 (mem s) (cell src i))"
      "load64 (mem s) (cell src i) AND MM_PT_FLAG_USER \<noteq> 0"
  shows "vmm_clone_tables dst src PML1 s = Inl Panic"
proof -
  let ?body = "\<lambda>i s. rbind (pd_read src (of_nat i) s) (\<lambda>src_pte.
       if \<not> pte_present src_pte then Inr s
       else if src_pte AND MM_PT_FLAG_USER = 0 then pd_write dst (of_nat i) src_pte s
       else if pte_large src_pte then pd_write dst (of_nat i) src_pte s
       else rbind (pmm_alloc 1 s) (\<lambda>(child_paddr, s).
       rbind (hhdm_p2v child_paddr s) (\<lambda>child.
       rbind (pd_write dst (of_nat i) (child_paddr OR MM_PT_USER_TABLE_FLAGS) s) (\<lambda>s.
       rbind (pte_p2v src_pte s) (\<lambda>src_child.
       rbind (next_level PML1) (\<lambda>next_lv.
       vmm_clone_tables child src_child next_lv s))))))"
  have "k \<le> i \<Longrightarrow> for_r ?body [0..<k] s = Inr s" for k
    by (induction k) (use before ptr(2) i in \<open>simp_all add: pd_read_nz unat_of_nat_u64\<close>)
  then have skip: "for_r ?body [0..<i] s = Inr s" by simp
  have alloc: "pmm_alloc 1 s = Inl Panic \<or> (\<exists>k m'. pmm_alloc 1 s = Inr (of_nat k * 4096, s\<lparr>mem := m'\<rparr>))"
  proof (cases "\<forall>b < npages s. allocd s b")
    case True
    then show ?thesis using pmm_alloc_exhausted[OF inv] by blast
  next
    case False
    then show ?thesis using pmm_alloc_page[OF inv] by blast
  qed
  have "?body i s = Inl Panic"
    using alloc user ptr i pmm_inv_facts(3)[OF inv]
    by (auto simp: pd_read_nz pd_write_nz unat_of_nat_u64 hhdm_p2v_def pte_p2v_def)
  moreover have "[0..<512] = [0..<i] @ i # [Suc i..<512]" using i
    by (metis less_imp_le_nat upt_conv_Cons upt_add_eq_append zero_le le_add_diff_inverse)
  ultimately show ?thesis unfolding vmm_clone_tables.simps[of dst src PML1 s] using skip by simp
qed

theorem vmm_clone_user_page_panics_witness:
  "vmm_clone_tables 268447744 268443648 PML1
     (vm_demo\<lparr>mem := store64 (cell 268443648 0) 0x5007 (mem vm_demo)\<rparr>) = Inl Panic"
proof -
  have "pmm_inv (vm_demo\<lparr>mem := store64 (cell 268443648 0) 0x5007 (mem vm_demo)\<rparr>)"
    using store_in_table(1)[OF vm_demo_pmm vm_demo_root, of 0] by simp
  then show ?thesis
    by (rule vmm_clone_user_page_panics[where i = 0])
      (simp_all add: load64_store64_same pte_present_def pte_large_def MM_PT_FLAG_VALID_def MM_PT_FLAG_LARGE_def
        MM_PT_FLAG_USER_def)
qed

end
