(* ===== verification/Dllist.thy ===== *)
theory Dllist
  imports Prelude
begin

section \<open>Doubly linked lists\<close>

text \<open>
  The kernel keeps its wait queues, run queues, sleepers and task mappings in doubly linked
  lists threaded through the objects themselves (\<^verbatim>\<open>siblings.prev\<close>, \<^verbatim>\<open>siblings.next\<close>). The
  links of a store are two maps from objects to references. \<open>dll p n h t xs\<close> says that the
  objects \<open>xs\<close> are linked in this order between the head \<open>h\<close> and the tail \<open>t\<close>. The lemmas give
  the updates the code performs (append at the tail, push at or take from the head, unlink or
  replace anywhere) pointwise, so that each component only has to show which links it wrote.
\<close>

subsection \<open>Segments\<close>

fun first_of :: "nat list \<Rightarrow> ref \<Rightarrow> ref" where
  "first_of [] nx = nx"
| "first_of (x # xs) nx = Some x"

definition last_of :: "nat list \<Rightarrow> ref \<Rightarrow> ref" where
  "last_of xs pr = (if xs = [] then pr else Some (last xs))"

fun seg :: "(nat \<Rightarrow> ref) \<Rightarrow> (nat \<Rightarrow> ref) \<Rightarrow> ref \<Rightarrow> nat list \<Rightarrow> ref \<Rightarrow> bool" where
  "seg p n pr [] nx = True"
| "seg p n pr (x # xs) nx \<longleftrightarrow> p x = pr \<and> n x = first_of xs nx \<and> seg p n (Some x) xs nx"

definition dll :: "(nat \<Rightarrow> ref) \<Rightarrow> (nat \<Rightarrow> ref) \<Rightarrow> ref \<Rightarrow> ref \<Rightarrow> nat list \<Rightarrow> bool" where
  "dll p n h t xs \<longleftrightarrow> distinct xs \<and> h = first_of xs None \<and> t = last_of xs None \<and> seg p n None xs None"

lemma last_of_simps [simp]:
  "last_of [] pr = pr" "last_of (x # xs) pr = last_of xs (Some x)" "last_of (xs @ [x]) pr = Some x"
  by (simp_all add: last_of_def)

lemma first_of_append [simp]: "first_of (xs @ ys) nx = first_of xs (first_of ys nx)"
  by (cases xs) simp_all

lemma last_of_append [simp]: "last_of (xs @ ys) pr = last_of ys (last_of xs pr)"
  by (simp add: last_of_def)

lemma first_of_None [simp]: "first_of xs None = None \<longleftrightarrow> xs = []" "None = first_of xs None \<longleftrightarrow> xs = []"
  by (cases xs; simp)+

lemma last_of_None [simp]: "last_of xs None = None \<longleftrightarrow> xs = []" "None = last_of xs None \<longleftrightarrow> xs = []"
  by (auto simp: last_of_def)

lemma first_of_in: "first_of xs nx = Some y \<Longrightarrow> y \<in> set xs \<or> nx = Some y"
  by (cases xs) auto

lemma last_of_in: "last_of xs pr = Some y \<Longrightarrow> y \<in> set xs \<or> pr = Some y"
  by (auto simp: last_of_def split: if_splits)

lemma first_of_set: "first_of xs None = Some y \<Longrightarrow> y \<in> set xs"
  using first_of_in by fastforce

lemma last_of_set: "last_of xs None = Some y \<Longrightarrow> y \<in> set xs"
  using last_of_in by fastforce

lemma seg_append: "seg p n pr (xs @ ys) nx \<longleftrightarrow> seg p n pr xs (first_of ys nx) \<and> seg p n (last_of xs pr) ys nx"
  by (induction xs arbitrary: pr) auto

lemma seg_cong:
  "(\<And>z. z \<in> set xs \<Longrightarrow> p' z = p z \<and> n' z = n z) \<Longrightarrow> seg p' n' pr xs nx = seg p n pr xs nx"
  by (induction xs arbitrary: pr) auto

text \<open>Changing what follows or precedes a segment changes one link at its end.\<close>

lemma seg_renext:
  assumes "seg p n pr xs nx" "distinct xs"
    and "\<And>z. z \<in> set xs \<Longrightarrow> p' z = p z"
    and "\<And>z. z \<in> set xs \<Longrightarrow> n' z = (if last_of xs None = Some z then nx' else n z)"
  shows "seg p' n' pr xs nx'"
  using assms
proof (induction xs arbitrary: pr)
  case (Cons x xs)
  show ?case
  proof (cases xs)
    case Nil
    then show ?thesis using Cons.prems by simp
  next
    case (Cons y ys)
    then have l: "last_of (x # xs) None = last_of xs None" "last_of xs None \<noteq> Some x"
      using Cons.prems(2) last_of_set[of xs] by (auto simp: last_of_def)
    have "seg p' n' (Some x) xs nx'"
      using Cons.prems l(1) by (intro Cons.IH) auto
    then show ?thesis using Cons.prems l \<open>xs = y # ys\<close> by auto
  qed
qed simp

lemma seg_reprev:
  assumes "seg p n pr xs nx" "distinct xs"
    and "\<And>z. z \<in> set xs \<Longrightarrow> n' z = n z"
    and "\<And>z. z \<in> set xs \<Longrightarrow> p' z = (if first_of xs None = Some z then pr' else p z)"
  shows "seg p' n' pr' xs nx"
proof (cases xs)
  case (Cons x ys)
  have "seg p' n' (Some x) ys nx = seg p n (Some x) ys nx"
    using assms(2-4) Cons by (intro seg_cong) auto
  then show ?thesis using assms Cons by auto
qed simp

subsection \<open>Updates of a list\<close>

lemma dll_empty [simp]: "dll p n None None []" "dll p n h t [] \<longleftrightarrow> h = None \<and> t = None"
  by (auto simp: dll_def)

lemma dll_head: "dll p n h t xs \<Longrightarrow> h = None \<longleftrightarrow> xs = []" "dll p n h t xs \<Longrightarrow> t = None \<longleftrightarrow> xs = []"
  "dll p n h t (x # xs) \<Longrightarrow> h = Some x"
  by (auto simp: dll_def)

lemma dll_cong:
  "(\<And>z. z \<in> set xs \<Longrightarrow> p' z = p z \<and> n' z = n z) \<Longrightarrow> dll p' n' h t xs = dll p n h t xs"
  unfolding dll_def using seg_cong[of xs p' p n' n None None] by auto

lemma dll_unique:
  assumes "dll p n h t xs" "dll p n h t ys"
  shows "xs = ys"
proof -
  have "seg p n pr as None \<Longrightarrow> seg p n pr bs None \<Longrightarrow> first_of as None = first_of bs None \<Longrightarrow> as = bs" for pr as bs
  proof (induction as arbitrary: pr bs)
    case (Cons a as)
    then obtain bs' where "bs = a # bs'" by (cases bs) auto
    with Cons show ?case by auto
  qed (metis first_of_None(1) first_of.simps(1))
  then show ?thesis using assms unfolding dll_def by metis
qed

lemma dll_push_back:
  assumes "dll p n h t xs" "x \<notin> set xs"
    and "p' x = t" "n' x = None"
    and "\<And>z. z \<in> set xs \<Longrightarrow> p' z = p z" "\<And>z. z \<in> set xs \<Longrightarrow> n' z = (if t = Some z then Some x else n z)"
    and "h' = (if h = None then Some x else h)"
  shows "dll p' n' h' (Some x) (xs @ [x])"
proof -
  have d: "distinct xs" "h = first_of xs None" "t = last_of xs None" "seg p n None xs None"
    using assms(1) by (auto simp: dll_def)
  have "seg p' n' None xs (Some x)"
    using assms d by (intro seg_renext[OF d(4,1)]) auto
  then show ?thesis using assms d by (cases xs) (auto simp: dll_def seg_append)
qed

lemma dll_push_front:
  assumes "dll p n h t xs" "x \<notin> set xs"
    and "p' x = None" "n' x = h"
    and "\<And>z. z \<in> set xs \<Longrightarrow> n' z = n z" "\<And>z. z \<in> set xs \<Longrightarrow> p' z = (if h = Some z then Some x else p z)"
    and "t' = (if t = None then Some x else t)"
  shows "dll p' n' (Some x) t' (x # xs)"
proof -
  have d: "distinct xs" "h = first_of xs None" "t = last_of xs None" "seg p n None xs None"
    using assms(1) by (auto simp: dll_def)
  have "seg p' n' (Some x) xs None"
    using assms d by (intro seg_reprev[OF d(4,1)]) auto
  then show ?thesis using assms d by (cases xs) (auto simp: dll_def last_of_def)
qed

lemma dll_unlink:
  assumes "dll p n h t (xs @ x # ys)"
    and "\<And>z. z \<in> set xs \<union> set ys \<Longrightarrow> p' z = (if n x = Some z then p x else p z)"
    and "\<And>z. z \<in> set xs \<union> set ys \<Longrightarrow> n' z = (if p x = Some z then n x else n z)"
    and "h' = (if p x = None then n x else h)" "t' = (if n x = None then p x else t)"
  shows "dll p' n' h' t' (xs @ ys)"
proof -
  have s: "distinct xs" "distinct ys" "x \<notin> set xs" "x \<notin> set ys" "set xs \<inter> set ys = {}"
    "seg p n None xs (Some x)" "p x = last_of xs None" "n x = first_of ys None" "seg p n (Some x) ys None"
    using assms(1) by (auto simp: dll_def seg_append)
  have "seg p' n' None xs (first_of ys None)"
    using s first_of_set[of ys] by (intro seg_renext[OF s(6,1)]) (auto simp: assms(2,3))
  moreover have "seg p' n' (last_of xs None) ys None"
    using s last_of_set[of xs] by (intro seg_reprev[OF s(9,2)]) (auto simp: assms(2,3))
  ultimately show ?thesis
    using assms(1,4,5) s by (cases xs; cases ys) (auto simp: dll_def seg_append last_of_def)
qed

text \<open>An object takes the place of another.\<close>

lemma dll_replace:
  assumes "dll p n h t (xs @ x # ys)" "y \<notin> set xs \<union> set ys"
    and "p' y = p x" "n' y = n x"
    and "\<And>z. z \<in> set xs \<union> set ys \<Longrightarrow> p' z = (if n x = Some z then Some y else p z)"
    and "\<And>z. z \<in> set xs \<union> set ys \<Longrightarrow> n' z = (if p x = Some z then Some y else n z)"
    and "h' = (if p x = None then Some y else h)" "t' = (if n x = None then Some y else t)"
  shows "dll p' n' h' t' (xs @ y # ys)"
proof -
  have s: "distinct xs" "distinct ys" "x \<notin> set xs" "x \<notin> set ys" "set xs \<inter> set ys = {}"
    "seg p n None xs (Some x)" "p x = last_of xs None" "n x = first_of ys None" "seg p n (Some x) ys None"
    using assms(1) by (auto simp: dll_def seg_append)
  have "seg p' n' None xs (Some y)"
    using s first_of_set[of ys] by (intro seg_renext[OF s(6,1)]) (auto simp: assms(5,6))
  moreover have "seg p' n' (Some y) ys None"
    using s last_of_set[of xs] by (intro seg_reprev[OF s(9,2)]) (auto simp: assms(5,6))
  ultimately show ?thesis
    using assms s by (cases xs; cases ys) (auto simp: dll_def seg_append last_of_def)
qed

lemma dll_links_in:
  assumes "dll p n h t xs" "x \<in> set xs"
  shows "p x = Some y \<Longrightarrow> y \<in> set xs \<and> y \<noteq> x" "n x = Some y \<Longrightarrow> y \<in> set xs \<and> y \<noteq> x"
proof -
  obtain as bs where x: "xs = as @ x # bs" using assms(2) by (auto simp: in_set_conv_decomp)
  then have "p x = last_of as None" "n x = first_of bs None" "x \<notin> set as" "x \<notin> set bs"
    using assms(1) by (auto simp: dll_def seg_append)
  then show "p x = Some y \<Longrightarrow> y \<in> set xs \<and> y \<noteq> x" "n x = Some y \<Longrightarrow> y \<in> set xs \<and> y \<noteq> x"
    using last_of_set[of as y] first_of_set[of bs y] x by auto
qed

text \<open>Taking the head is unlinking it.\<close>

lemma dll_pop_front:
  assumes "dll p n h t (x # xs)"
    and "\<And>z. z \<in> set xs \<Longrightarrow> p' z = (if n x = Some z then None else p z)"
    and "\<And>z. z \<in> set xs \<Longrightarrow> n' z = n z" and "t' = (if n x = None then None else t)"
  shows "dll p' n' (n x) t' xs"
proof -
  have "p x = None" using assms(1) by (simp add: dll_def)
  with dll_unlink[of p n h t "[]" x xs p' n' "n x" t'] assms show ?thesis by auto
qed

subsection \<open>The contract of a queue of linked objects\<close>

text \<open>
  \<open>'q\<close> is the queue's own structure, \<open>'s\<close> the store its objects live in; \<open>holds q s xs\<close>: the
  queue is unlocked and holds \<open>xs\<close> in this order; \<open>fresh x s\<close>: object \<open>x\<close> may be linked.
\<close>

fun enq_all :: "(nat \<Rightarrow> 'q \<Rightarrow> 's \<Rightarrow> ('q \<times> 's) outcome) \<Rightarrow> nat list \<Rightarrow> 'q \<Rightarrow> 's \<Rightarrow> ('q \<times> 's) outcome" where
  "enq_all enq [] q s = Inr (q, s)"
| "enq_all enq (x # xs) q s = rbind (enq x q s) (\<lambda>(q, s). enq_all enq xs q s)"

fun deq_n :: "('q \<Rightarrow> 's \<Rightarrow> (ref \<times> 'q \<times> 's) outcome) \<Rightarrow> nat \<Rightarrow> 'q \<Rightarrow> 's \<Rightarrow> (ref list \<times> 'q \<times> 's) outcome" where
  "deq_n deq 0 q s = Inr ([], q, s)"
| "deq_n deq (Suc k) q s = rbind (deq q s) (\<lambda>(x, q, s). rbind (deq_n deq k q s) (\<lambda>(xs, q, s). Inr (x # xs, q, s)))"

locale fifo =
  fixes holds :: "'q \<Rightarrow> 's \<Rightarrow> nat list \<Rightarrow> bool"
    and fresh :: "nat \<Rightarrow> 's \<Rightarrow> bool"
    and enq :: "nat \<Rightarrow> 'q \<Rightarrow> 's \<Rightarrow> ('q \<times> 's) outcome"
    and deq :: "'q \<Rightarrow> 's \<Rightarrow> (ref \<times> 'q \<times> 's) outcome"
  assumes enq_spec: "holds q s xs \<Longrightarrow> x \<notin> set xs \<Longrightarrow> fresh x s \<Longrightarrow>
      \<exists>q' s'. enq x q s = Inr (q', s') \<and> holds q' s' (xs @ [x]) \<and> (\<forall>y. y \<noteq> x \<longrightarrow> y \<notin> set xs \<longrightarrow> fresh y s' = fresh y s)"
    and deq_empty: "holds q s [] \<Longrightarrow> \<exists>q' s'. deq q s = Inr (None, q', s') \<and> holds q' s' []"
    and deq_spec: "holds q s (x # xs) \<Longrightarrow>
      \<exists>q' s'. deq q s = Inr (Some x, q', s') \<and> holds q' s' xs \<and> fresh x s'"
begin

lemma enq_all_holds:
  assumes "holds q s xs" "distinct (xs @ ys)" "\<And>y. y \<in> set ys \<Longrightarrow> fresh y s"
  shows "\<exists>q' s'. enq_all enq ys q s = Inr (q', s') \<and> holds q' s' (xs @ ys)"
  using assms
proof (induction ys arbitrary: q s xs)
  case (Cons y ys)
  obtain q1 s1 where e: "enq y q s = Inr (q1, s1)" "holds q1 s1 (xs @ [y])"
    "\<forall>z. z \<noteq> y \<longrightarrow> z \<notin> set xs \<longrightarrow> fresh z s1 = fresh z s"
    using enq_spec[OF Cons.prems(1), of y] Cons.prems(2,3) by auto
  have "\<exists>q' s'. enq_all enq ys q1 s1 = Inr (q', s') \<and> holds q' s' ((xs @ [y]) @ ys)"
  proof (rule Cons.IH[OF e(2)])
    show "distinct ((xs @ [y]) @ ys)" using Cons.prems(2) by auto
    show "fresh z s1" if "z \<in> set ys" for z
      using e(3)[rule_format, of z] that Cons.prems(2) Cons.prems(3)[of z] by auto
  qed
  then show ?case using e(1) by auto
qed auto

lemma deq_n_holds:
  "holds q s (xs @ ys) \<Longrightarrow> \<exists>q' s'. deq_n deq (length xs) q s = Inr (map Some xs, q', s') \<and> holds q' s' ys"
proof (induction xs arbitrary: q s)
  case (Cons x xs)
  obtain q1 s1 where d: "deq q s = Inr (Some x, q1, s1)" "holds q1 s1 (xs @ ys)"
    using deq_spec[of q s x "xs @ ys"] Cons.prems by auto
  from Cons.IH[OF d(2)] d(1) show ?case by auto
qed auto

text \<open>First in, first out.\<close>

lemma fifo_order:
  assumes "holds q s []" "distinct ys" "\<And>y. y \<in> set ys \<Longrightarrow> fresh y s"
  shows "\<exists>q1 s1 q2 s2. enq_all enq ys q s = Inr (q1, s1) \<and> deq_n deq (length ys) q1 s1 = Inr (map Some ys, q2, s2) \<and>
    holds q2 s2 []"
proof -
  obtain q1 s1 where e: "enq_all enq ys q s = Inr (q1, s1)" "holds q1 s1 ys"
    using enq_all_holds[of q s "[]" ys] assms by auto
  with deq_n_holds[of q1 s1 ys "[]"] show ?thesis by auto
qed

end

end
