(* ===== verification/WaitQueue.thy ===== *)
theory WaitQueue
  imports Dllist Lock
begin

section \<open>Wait queues (klibc/sync/waitqueue.c)\<close>

text \<open>
  The items of all wait queues live in one store: their links and their waiters are maps from
  items to values. The store is an extensible record, so that the kernel's process state can be
  an extension of it. A waiter's function pointer is a number (\<open>None\<close> is NULL); what calling it
  does is the parameter \<open>call\<close> of the operations that wake, because the code pointed to belongs to
  the caller. A queue is a value; the operations return the queue after the call.

  The loop of \<^verbatim>\<open>waitqueue_wake_all\<close> follows links, so it is a partial function;
  \<open>waitqueue_wake_all_ok\<close> shows that it ends on a well-formed queue and wakes every waiter once,
  in order.
\<close>

subsection \<open>Definitions\<close>

record waiter =
  wake :: "nat option"
  udata :: ref

record wq_heap =
  wq_prev :: "nat \<Rightarrow> ref"
  wq_next :: "nat \<Rightarrow> ref"
  wq_waiter :: "nat \<Rightarrow> waiter"

record waitqueue =
  wq_lock :: spinlock
  wq_head :: ref
  wq_tail :: ref

type_synonym 'a wake_fn = "nat \<Rightarrow> ref \<Rightarrow> 'a wq_heap_scheme \<Rightarrow> ('a wq_heap_scheme) outcome"

definition waitqueue_item_init :: "ref \<Rightarrow> waiter \<Rightarrow> 'a wq_heap_scheme \<Rightarrow> ('a wq_heap_scheme) outcome" where
  "waitqueue_item_init self w s =
     (case self of
        None \<Rightarrow> Inl AssertFail
      | Some i \<Rightarrow> Inr (s\<lparr>wq_waiter := (wq_waiter s)(i := w), wq_prev := (wq_prev s)(i := None),
          wq_next := (wq_next s)(i := None)\<rparr>))"

definition waitqueue_init :: "waitqueue \<Rightarrow> waitqueue" where
  "waitqueue_init self = self\<lparr>wq_lock := spinlock_init (wq_lock self), wq_head := None, wq_tail := None\<rparr>"

definition waitqueue_add :: "ref \<Rightarrow> waitqueue \<Rightarrow> 'a wq_heap_scheme \<Rightarrow> (waitqueue \<times> 'a wq_heap_scheme) outcome" where
  "waitqueue_add entry self s =
     (case entry of
        None \<Rightarrow> Inl AssertFail
      | Some e \<Rightarrow>
          check (wq_prev s e = None) (check (wq_next s e = None)
          (rbind (spinlock_acquire (wq_lock self)) (\<lambda>l.
           let self = self\<lparr>wq_lock := l\<rparr> in
           let (self, s) = (case wq_tail self of
               None \<Rightarrow>
                 (self\<lparr>wq_head := Some e, wq_tail := Some e\<rparr>,
                  s\<lparr>wq_prev := (wq_prev s)(e := None), wq_next := (wq_next s)(e := None)\<rparr>)
             | Some t \<Rightarrow>
                 (self\<lparr>wq_tail := Some e\<rparr>,
                  s\<lparr>wq_prev := (wq_prev s)(e := Some t), wq_next := ((wq_next s)(e := None))(t := Some e)\<rparr>)) in
           Inr (self\<lparr>wq_lock := spinlock_release (wq_lock self)\<rparr>, s)))))"

definition waitqueue_del :: "ref \<Rightarrow> waitqueue \<Rightarrow> 'a wq_heap_scheme \<Rightarrow> (waitqueue \<times> 'a wq_heap_scheme) outcome" where
  "waitqueue_del entry self s =
     (case entry of
        None \<Rightarrow> Inl AssertFail
      | Some e \<Rightarrow>
          rbind (spinlock_acquire (wq_lock self)) (\<lambda>l.
          let self = self\<lparr>wq_lock := l\<rparr> in
          if wq_prev s e = None \<and> wq_next s e = None \<and> wq_head self \<noteq> Some e
          then Inr (self\<lparr>wq_lock := spinlock_release (wq_lock self)\<rparr>, s)
          else
            let (self, s) = (case wq_prev s e of
                Some p \<Rightarrow> (self, s\<lparr>wq_next := (wq_next s)(p := wq_next s e)\<rparr>)
              | None \<Rightarrow> (self\<lparr>wq_head := wq_next s e\<rparr>, s));
                (self, s) = (case wq_next s e of
                Some n \<Rightarrow> (self, s\<lparr>wq_prev := (wq_prev s)(n := wq_prev s e)\<rparr>)
              | None \<Rightarrow> (self\<lparr>wq_tail := wq_prev s e\<rparr>, s));
                s = s\<lparr>wq_prev := (wq_prev s)(e := None), wq_next := (wq_next s)(e := None)\<rparr> in
            Inr (self\<lparr>wq_lock := spinlock_release (wq_lock self)\<rparr>, s)))"

text \<open>The part of \<^verbatim>\<open>waitqueue_wake_one\<close> under the lock: the item taken from the head.\<close>

definition waitqueue_pop :: "waitqueue \<Rightarrow> 'a wq_heap_scheme \<Rightarrow> (ref \<times> waitqueue \<times> 'a wq_heap_scheme) outcome" where
  "waitqueue_pop self s =
     rbind (spinlock_acquire (wq_lock self)) (\<lambda>l.
     let self = self\<lparr>wq_lock := l\<rparr> in
     case wq_head self of
       None \<Rightarrow> Inr (None, self\<lparr>wq_lock := spinlock_release (wq_lock self)\<rparr>, s)
     | Some e \<Rightarrow>
         let self = self\<lparr>wq_head := wq_next s e\<rparr>;
             (self, s) = (case wq_head self of
                 Some h \<Rightarrow> (self, s\<lparr>wq_prev := (wq_prev s)(h := None)\<rparr>)
               | None \<Rightarrow> (self\<lparr>wq_tail := None\<rparr>, s));
             s = s\<lparr>wq_prev := (wq_prev s)(e := None), wq_next := (wq_next s)(e := None)\<rparr> in
         Inr (Some e, self\<lparr>wq_lock := spinlock_release (wq_lock self)\<rparr>, s))"

definition call_waiter :: "'a wake_fn \<Rightarrow> waiter \<Rightarrow> 'a wq_heap_scheme \<Rightarrow> ('a wq_heap_scheme) outcome" where
  "call_waiter call w s = (case wake w of None \<Rightarrow> Inr s | Some f \<Rightarrow> call f (udata w) s)"

definition waitqueue_wake_one :: "'a wake_fn \<Rightarrow> waitqueue \<Rightarrow> 'a wq_heap_scheme \<Rightarrow> (waitqueue \<times> 'a wq_heap_scheme) outcome" where
  "waitqueue_wake_one call self s =
     rbind (waitqueue_pop self s) (\<lambda>(entry, self, s).
     case entry of
       None \<Rightarrow> Inr (self, s)
     | Some e \<Rightarrow> rbind (call_waiter call (wq_waiter s e) s) (\<lambda>s. Inr (self, s)))"

text \<open>One turn of the loop of \<^verbatim>\<open>waitqueue_wake_all\<close>, then the loop.\<close>

definition wake_item :: "'a wake_fn \<Rightarrow> nat \<Rightarrow> 'a wq_heap_scheme \<Rightarrow> ('a wq_heap_scheme) outcome" where
  "wake_item call e s =
     (let s = s\<lparr>wq_prev := (wq_prev s)(e := None), wq_next := (wq_next s)(e := None)\<rparr> in
      call_waiter call (wq_waiter s e) s)"

partial_function (option) wake_all_loop ::
    "'a wake_fn \<Rightarrow> ref \<Rightarrow> 'a wq_heap_scheme \<Rightarrow> (('a wq_heap_scheme) outcome) option" where
  "wake_all_loop call entry s =
     (case entry of
        None \<Rightarrow> Some (Inr s)
      | Some e \<Rightarrow>
          let next = wq_next s e in
          (case wake_item call e s of
             Inl f \<Rightarrow> Some (Inl f)
           | Inr s' \<Rightarrow> wake_all_loop call next s'))"

text \<open>A loop that never ends is \<open>Inl Deadlock\<close> where it is part of an operation.\<close>

definition ended :: "('a outcome) option \<Rightarrow> 'a outcome" where
  "ended r = (case r of None \<Rightarrow> Inl Deadlock | Some x \<Rightarrow> x)"

definition waitqueue_wake_all :: "'a wake_fn \<Rightarrow> waitqueue \<Rightarrow> 'a wq_heap_scheme \<Rightarrow> (waitqueue \<times> 'a wq_heap_scheme) outcome" where
  "waitqueue_wake_all call self s =
     rbind (spinlock_acquire (wq_lock self)) (\<lambda>l.
     let self = self\<lparr>wq_lock := l\<rparr>; entry = wq_head self;
         self = self\<lparr>wq_head := None, wq_tail := None\<rparr>;
         self = self\<lparr>wq_lock := spinlock_release (wq_lock self)\<rparr> in
     rbind (ended (wake_all_loop call entry s)) (\<lambda>s. Inr (self, s)))"

definition waitqueue_is_empty :: "waitqueue \<Rightarrow> (bool \<times> waitqueue) outcome" where
  "waitqueue_is_empty self =
     rbind (spinlock_acquire (wq_lock self)) (\<lambda>l.
     let self = self\<lparr>wq_lock := l\<rparr>; empty = (wq_head self = None) in
     Inr (empty, self\<lparr>wq_lock := spinlock_release (wq_lock self)\<rparr>))"

subsection \<open>What a queue holds\<close>

definition wq_holds :: "waitqueue \<Rightarrow> 'a wq_heap_scheme \<Rightarrow> nat list \<Rightarrow> bool" where
  "wq_holds q s xs \<longleftrightarrow> wq_lock q = unlocked \<and> dll (wq_prev s) (wq_next s) (wq_head q) (wq_tail q) xs"

definition wq_fresh :: "nat \<Rightarrow> 'a wq_heap_scheme \<Rightarrow> bool" where
  "wq_fresh e s \<longleftrightarrow> wq_prev s e = None \<and> wq_next s e = None"

lemma waitqueue_init_holds: "wq_holds (waitqueue_init q) s []"
  by (simp add: wq_holds_def waitqueue_init_def)

lemma waitqueue_add_holds:
  assumes "wq_holds q s xs" "e \<notin> set xs" "wq_fresh e s"
  shows "\<exists>q' s'. waitqueue_add (Some e) q s = Inr (q', s') \<and> wq_holds q' s' (xs @ [e]) \<and>
    (\<forall>y. y \<noteq> e \<longrightarrow> y \<notin> set xs \<longrightarrow> wq_fresh y s' = wq_fresh y s) \<and> wq_waiter s' = wq_waiter s"
proof (cases "wq_tail q")
  case None
  then have "xs = []" "wq_head q = None" using assms(1) by (auto simp: wq_holds_def dll_def)
  then show ?thesis using assms None
    by (auto simp: waitqueue_add_def wq_holds_def wq_fresh_def dll_def Let_def)
next
  case (Some t)
  have d: "dll (wq_prev s) (wq_next s) (wq_head q) (Some t) xs" "wq_lock q = unlocked"
    using assms(1) Some by (auto simp: wq_holds_def)
  then have t: "t \<in> set xs" "t \<noteq> e" "wq_head q \<noteq> None"
    using assms(2) last_of_set[of xs t] by (auto simp: dll_def)
  let ?p = "(wq_prev s)(e := Some t)" and ?n = "((wq_next s)(e := None))(t := Some e)"
  have "dll ?p ?n (wq_head q) (Some e) (xs @ [e])"
    using assms(2) t by (intro dll_push_back[OF d(1)]) auto
  then show ?thesis using assms Some d t
    by (auto simp: waitqueue_add_def wq_holds_def wq_fresh_def Let_def)
qed

lemma waitqueue_pop_empty: "wq_holds q s [] \<Longrightarrow> waitqueue_pop q s = Inr (None, q, s)"
  by (cases q) (auto simp: waitqueue_pop_def wq_holds_def Let_def)

lemma waitqueue_pop_holds:
  assumes "wq_holds q s (e # xs)"
  shows "\<exists>q' s'. waitqueue_pop q s = Inr (Some e, q', s') \<and> wq_holds q' s' xs \<and> wq_fresh e s' \<and>
    wq_waiter s' = wq_waiter s"
proof -
  have d: "dll (wq_prev s) (wq_next s) (wq_head q) (wq_tail q) (e # xs)" "wq_lock q = unlocked"
    using assms by (auto simp: wq_holds_def)
  then have h: "wq_head q = Some e" "e \<notin> set xs" by (auto simp: dll_def)
  show ?thesis
  proof (cases "wq_next s e")
    case None
    then have "xs = []" using d(1) by (auto simp: dll_def)
    then show ?thesis using d h None by (simp add: waitqueue_pop_def wq_holds_def wq_fresh_def Let_def)
  next
    case (Some y)
    let ?p = "((wq_prev s)(y := None))(e := None)" and ?n = "(wq_next s)(e := None)"
    have "dll ?p ?n (wq_next s e) (wq_tail q) xs"
      using h(2) Some by (intro dll_pop_front[OF d(1)]) auto
    then show ?thesis using d h Some by (auto simp: waitqueue_pop_def wq_holds_def wq_fresh_def Let_def)
  qed
qed

interpretation wq: fifo wq_holds wq_fresh "\<lambda>e. waitqueue_add (Some e)" waitqueue_pop
proof
  fix q :: waitqueue and s :: "'a wq_heap_scheme" and xs x
  show "wq_holds q s xs \<Longrightarrow> x \<notin> set xs \<Longrightarrow> wq_fresh x s \<Longrightarrow>
      \<exists>q' s'. waitqueue_add (Some x) q s = Inr (q', s') \<and> wq_holds q' s' (xs @ [x]) \<and>
        (\<forall>y. y \<noteq> x \<longrightarrow> y \<notin> set xs \<longrightarrow> wq_fresh y s' = wq_fresh y s)"
    using waitqueue_add_holds by blast
  show "wq_holds q s [] \<Longrightarrow> \<exists>q' s'. waitqueue_pop q s = Inr (None, q', s') \<and> wq_holds q' s' []"
    using waitqueue_pop_empty by blast
  show "wq_holds q s (x # xs) \<Longrightarrow>
      \<exists>q' s'. waitqueue_pop q s = Inr (Some x, q', s') \<and> wq_holds q' s' xs \<and> wq_fresh x s'"
    using waitqueue_pop_holds by blast
qed

subsection \<open>Removing an item and waking\<close>

lemma waitqueue_del_holds:
  assumes "wq_holds q s (xs @ e # ys)"
  shows "\<exists>q' s'. waitqueue_del (Some e) q s = Inr (q', s') \<and> wq_holds q' s' (xs @ ys) \<and> wq_fresh e s' \<and>
    (\<forall>z. z \<notin> set (xs @ e # ys) \<longrightarrow> wq_fresh z s' = wq_fresh z s) \<and> wq_waiter s' = wq_waiter s"
proof -
  have d: "dll (wq_prev s) (wq_next s) (wq_head q) (wq_tail q) (xs @ e # ys)" "wq_lock q = unlocked"
    using assms by (auto simp: wq_holds_def)
  let ?p = "\<lambda>z. if wq_next s e = Some z then wq_prev s e else wq_prev s z"
  let ?n = "\<lambda>z. if wq_prev s e = Some z then wq_next s e else wq_next s z"
  let ?s = "s\<lparr>wq_prev := ?p(e := None), wq_next := ?n(e := None)\<rparr>"
  let ?h = "if wq_prev s e = None then wq_next s e else wq_head q"
  let ?t = "if wq_next s e = None then wq_prev s e else wq_tail q"
  have ne: "wq_prev s e \<noteq> Some e" "wq_next s e \<noteq> Some e"
    using dll_links_in[OF d(1), of e] by auto
  have "\<not> (wq_prev s e = None \<and> wq_next s e = None \<and> wq_head q \<noteq> Some e)"
    using d(1) by (auto simp: dll_def seg_append)
  then have "waitqueue_del (Some e) q s = Inr (q\<lparr>wq_head := ?h, wq_tail := ?t\<rparr>, ?s)"
    using d(2) ne
    by (cases q; cases "wq_prev s e"; cases "wq_next s e") (auto simp: waitqueue_del_def Let_def fun_eq_iff)
  moreover have "dll (wq_prev ?s) (wq_next ?s) ?h ?t (xs @ ys)"
    using d(1) by (intro dll_unlink[OF d(1)]) (auto simp: dll_def)
  moreover have "wq_fresh z ?s = wq_fresh z s" if "z \<notin> set (xs @ e # ys)" for z
    using that dll_links_in[OF d(1), of e] by (auto simp: wq_fresh_def)
  ultimately show ?thesis using d(2) by (auto simp: wq_holds_def wq_fresh_def)
qed

lemma waitqueue_del_absent:
  assumes "wq_holds q s xs" "e \<notin> set xs" "wq_fresh e s"
  shows "waitqueue_del (Some e) q s = Inr (q, s)"
proof -
  have "wq_head q \<noteq> Some e" using assms(1,2) first_of_set[of xs e] by (auto simp: wq_holds_def dll_def)
  then show ?thesis using assms by (cases q) (auto simp: waitqueue_del_def wq_fresh_def wq_holds_def Let_def)
qed

text \<open>A wake function does not touch the links of wait queue items.\<close>

definition keeps_links :: "'a wake_fn \<Rightarrow> bool" where
  "keeps_links call \<longleftrightarrow> (\<forall>f u s s'. call f u s = Inr s' \<longrightarrow> wq_prev s' = wq_prev s \<and> wq_next s' = wq_next s)"

lemma wake_item_links:
  assumes "keeps_links call" "wake_item call e s = Inr s'"
  shows "wq_prev s' = (wq_prev s)(e := None)" "wq_next s' = (wq_next s)(e := None)"
  using assms by (auto simp: wake_item_def call_waiter_def keeps_links_def Let_def split: option.splits)

lemma wake_all_loop_eq:
  assumes "keeps_links call" "seg p (wq_next s) pr xs None" "distinct xs"
  shows "wake_all_loop call (first_of xs None) s = Some (for_r (wake_item call) xs s)"
  using assms(2,3)
proof (induction xs arbitrary: s pr p)
  case Nil
  then show ?case by (simp add: wake_all_loop.simps)
next
  case (Cons x xs)
  have n: "wq_next s x = first_of xs None" using Cons.prems(1) by simp
  show ?case
  proof (cases "wake_item call x s")
    case (Inl f)
    then show ?thesis by (simp add: wake_all_loop.simps)
  next
    case (Inr s')
    have "seg p (wq_next s') (Some x) xs None = seg p (wq_next s) (Some x) xs None"
      using Cons.prems(2) wake_item_links[OF assms(1) Inr] by (intro seg_cong) auto
    then have "seg p (wq_next s') (Some x) xs None" using Cons.prems(1) by simp
    from Cons.IH[OF this] Cons.prems(2) Inr n show ?thesis by (subst wake_all_loop.simps) (simp add: Let_def)
  qed
qed

lemma waitqueue_wake_all_eq:
  assumes "keeps_links call" "wq_holds q s xs"
  shows "waitqueue_wake_all call q s =
    rbind (for_r (wake_item call) xs s) (\<lambda>s. Inr (q\<lparr>wq_head := None, wq_tail := None\<rparr>, s))"
proof -
  have "wq_head q = first_of xs None" "seg (wq_prev s) (wq_next s) None xs None" "distinct xs"
    using assms(2) by (auto simp: wq_holds_def dll_def)
  then show ?thesis using assms(2) wake_all_loop_eq[OF assms(1)]
    by (cases q) (auto simp: waitqueue_wake_all_def wq_holds_def ended_def Let_def)
qed

lemma for_r_wake_links:
  assumes "keeps_links call" "for_r (wake_item call) xs s = Inr s'"
  shows "wq_prev s' z = (if z \<in> set xs then None else wq_prev s z)"
    "wq_next s' z = (if z \<in> set xs then None else wq_next s z)"
proof -
  have "wq_prev s' z = (if z \<in> set xs then None else wq_prev s z) \<and>
    wq_next s' z = (if z \<in> set xs then None else wq_next s z)"
    using assms(2)
  proof (induction xs arbitrary: s)
    case (Cons x xs)
    then obtain s1 where "wake_item call x s = Inr s1" "for_r (wake_item call) xs s1 = Inr s'"
      by (auto simp: outcome_simps)
    with Cons.IH[of s1] wake_item_links[OF assms(1), of x s s1] show ?case by auto
  qed simp
  then show "wq_prev s' z = (if z \<in> set xs then None else wq_prev s z)"
    "wq_next s' z = (if z \<in> set xs then None else wq_next s z)" by auto
qed

text \<open>
  Waking all waiters ends, leaves the queue empty and every item ready to be linked again, and
  its effect is that of waking the items one by one in queue order.
\<close>

lemma waitqueue_wake_all_ok:
  assumes "keeps_links call" "wq_holds q s xs" "for_r (wake_item call) xs s = Inr s'"
  shows "\<exists>q'. waitqueue_wake_all call q s = Inr (q', s') \<and> wq_holds q' s' [] \<and> (\<forall>e \<in> set xs. wq_fresh e s')"
proof -
  have "wq_fresh e s'" if "e \<in> set xs" for e
    using for_r_wake_links[OF assms(1,3), of e] that by (simp add: wq_fresh_def)
  then show ?thesis using waitqueue_wake_all_eq[OF assms(1,2)] assms(2,3) by (simp add: wq_holds_def)
qed

lemma waitqueue_wake_one_eq:
  assumes "wq_holds q s (e # xs)"
  shows "\<exists>q' s'. waitqueue_pop q s = Inr (Some e, q', s') \<and> wq_holds q' s' xs \<and> wq_fresh e s' \<and>
    waitqueue_wake_one call q s = rbind (call_waiter call (wq_waiter s e) s') (\<lambda>s. Inr (q', s))"
proof -
  obtain q' s' where "waitqueue_pop q s = Inr (Some e, q', s')" "wq_holds q' s' xs" "wq_fresh e s'"
    "wq_waiter s' = wq_waiter s"
    using waitqueue_pop_holds[OF assms] by blast
  then show ?thesis by (auto simp: waitqueue_wake_one_def)
qed

lemma waitqueue_wake_one_empty: "wq_holds q s [] \<Longrightarrow> waitqueue_wake_one call q s = Inr (q, s)"
  by (simp add: waitqueue_wake_one_def waitqueue_pop_empty)

text \<open>A wake function that never stops the kernel.\<close>

definition call_total :: "'a wake_fn \<Rightarrow> bool" where
  "call_total call \<longleftrightarrow> (\<forall>f u s. \<exists>s'. call f u s = Inr s')"

lemma waitqueue_wake_one_holds:
  assumes "wq_holds q s (e # xs)" "keeps_links call" "call_total call"
  shows "\<exists>q' s'. waitqueue_wake_one call q s = Inr (q', s') \<and> wq_holds q' s' xs \<and> wq_fresh e s'"
proof -
  obtain q' s1 where p: "wq_holds q' s1 xs" "wq_fresh e s1"
    "waitqueue_wake_one call q s = rbind (call_waiter call (wq_waiter s e) s1) (\<lambda>s. Inr (q', s))"
    using waitqueue_wake_one_eq[OF assms(1), of call] by blast
  obtain s2 where s2: "call_waiter call (wq_waiter s e) s1 = Inr s2"
    using assms(3) unfolding call_waiter_def call_total_def by (cases "wake (wq_waiter s e)") (simp, metis option.simps(5))
  then have "wq_prev s2 = wq_prev s1 \<and> wq_next s2 = wq_next s1"
    using assms(2) by (auto simp: call_waiter_def keeps_links_def split: option.splits)
  then show ?thesis using p s2 by (simp add: wq_holds_def wq_fresh_def)
qed

end
