(* ===== verification/Mutex.thy ===== *)
theory Mutex
  imports WaitQueue
begin

section \<open>Mutexes and condition variables (klibc/sync/mutex.c, klibc/sync/condvar.c)\<close>

text \<open>
  A mutex is a spinlock, an owner and a queue of waiters. \<^verbatim>\<open>mutex_lock\<close> does not block: it
  reports whether the caller got the mutex or has been queued. The pointers \<^verbatim>\<open>owner\<close> and
  \<^verbatim>\<open>wait\<close> are references.

  \<open>mutex_ok m s xs\<close>: the mutex is not being operated on and its waiters are \<open>xs\<close>. The lemmas
  give every branch of every operation, and \<open>mutex_step\<close> is one call by some owner; an owner is
  recorded only by a call that found none, waiters are woken one per unlock in the order in which
  they queued, and waking hands nothing over: the woken owner has to call again.
\<close>

subsection \<open>Definitions\<close>

datatype mutex_status = MUTEX_ACQUIRED | MUTEX_SHOULD_WAIT

record mutex =
  mx_lock :: spinlock
  mx_owner :: ref
  mx_wq :: waitqueue

definition mutex_init :: "mutex \<Rightarrow> mutex" where
  "mutex_init self =
     self\<lparr>mx_lock := spinlock_init (mx_lock self), mx_wq := waitqueue_init (mx_wq self), mx_owner := None\<rparr>"

definition mutex_lock :: "ref \<Rightarrow> ref \<Rightarrow> mutex \<Rightarrow> 'a wq_heap_scheme \<Rightarrow>
    (mutex_status \<times> mutex \<times> 'a wq_heap_scheme) outcome" where
  "mutex_lock owner wait self s =
     check (owner \<noteq> None) (check (wait \<noteq> None)
     (rbind (spinlock_acquire (mx_lock self)) (\<lambda>l.
      let self = self\<lparr>mx_lock := l\<rparr> in
      if mx_owner self = None
      then
        let self = self\<lparr>mx_owner := owner\<rparr> in
        Inr (MUTEX_ACQUIRED, self\<lparr>mx_lock := spinlock_release (mx_lock self)\<rparr>, s)
      else
        rbind (waitqueue_add wait (mx_wq self) s) (\<lambda>(wq, s).
        let self = self\<lparr>mx_wq := wq\<rparr> in
        Inr (MUTEX_SHOULD_WAIT, self\<lparr>mx_lock := spinlock_release (mx_lock self)\<rparr>, s)))))"

definition mutex_try_lock :: "ref \<Rightarrow> mutex \<Rightarrow> (bool \<times> mutex) outcome" where
  "mutex_try_lock owner self =
     check (owner \<noteq> None)
     (rbind (spinlock_acquire (mx_lock self)) (\<lambda>l.
      let self = self\<lparr>mx_lock := l\<rparr> in
      if mx_owner self = None
      then
        let self = self\<lparr>mx_owner := owner\<rparr> in
        Inr (True, self\<lparr>mx_lock := spinlock_release (mx_lock self)\<rparr>)
      else Inr (False, self\<lparr>mx_lock := spinlock_release (mx_lock self)\<rparr>)))"

definition mutex_unlock :: "'a wake_fn \<Rightarrow> ref \<Rightarrow> mutex \<Rightarrow> 'a wq_heap_scheme \<Rightarrow>
    (mutex \<times> 'a wq_heap_scheme) outcome" where
  "mutex_unlock call owner self s =
     check (owner \<noteq> None)
     (rbind (spinlock_acquire (mx_lock self)) (\<lambda>l.
      let self = self\<lparr>mx_lock := l, mx_owner := None\<rparr>;
          self = self\<lparr>mx_lock := spinlock_release (mx_lock self)\<rparr> in
      rbind (waitqueue_wake_one call (mx_wq self) s) (\<lambda>(wq, s). Inr (self\<lparr>mx_wq := wq\<rparr>, s))))"

record condvar =
  cv_lock :: spinlock
  cv_wq :: waitqueue

definition condvar_init :: "condvar \<Rightarrow> condvar" where
  "condvar_init self = self\<lparr>cv_lock := spinlock_init (cv_lock self), cv_wq := waitqueue_init (cv_wq self)\<rparr>"

definition condvar_wait :: "ref \<Rightarrow> condvar \<Rightarrow> 'a wq_heap_scheme \<Rightarrow> (condvar \<times> 'a wq_heap_scheme) outcome" where
  "condvar_wait wait self s =
     check (wait \<noteq> None)
     (rbind (spinlock_acquire (cv_lock self)) (\<lambda>l.
      let self = self\<lparr>cv_lock := l\<rparr> in
      rbind (waitqueue_add wait (cv_wq self) s) (\<lambda>(wq, s).
      let self = self\<lparr>cv_wq := wq\<rparr> in
      Inr (self\<lparr>cv_lock := spinlock_release (cv_lock self)\<rparr>, s))))"

definition condvar_signal :: "'a wake_fn \<Rightarrow> condvar \<Rightarrow> 'a wq_heap_scheme \<Rightarrow> (condvar \<times> 'a wq_heap_scheme) outcome" where
  "condvar_signal call self s =
     rbind (waitqueue_wake_one call (cv_wq self) s) (\<lambda>(wq, s). Inr (self\<lparr>cv_wq := wq\<rparr>, s))"

definition condvar_broadcast :: "'a wake_fn \<Rightarrow> condvar \<Rightarrow> 'a wq_heap_scheme \<Rightarrow> (condvar \<times> 'a wq_heap_scheme) outcome" where
  "condvar_broadcast call self s =
     rbind (waitqueue_wake_all call (cv_wq self) s) (\<lambda>(wq, s). Inr (self\<lparr>cv_wq := wq\<rparr>, s))"

subsection \<open>The mutex\<close>

definition mutex_ok :: "mutex \<Rightarrow> 'a wq_heap_scheme \<Rightarrow> nat list \<Rightarrow> bool" where
  "mutex_ok m s xs \<longleftrightarrow> mx_lock m = unlocked \<and> wq_holds (mx_wq m) s xs"

lemma mutex_init_ok: "mutex_ok (mutex_init m) s [] \<and> mx_owner (mutex_init m) = None"
  by (simp add: mutex_ok_def mutex_init_def waitqueue_init_holds)

lemma mutex_lock_free:
  assumes "mutex_ok m s xs" "mx_owner m = None"
  shows "mutex_lock (Some t) (Some e) m s = Inr (MUTEX_ACQUIRED, m\<lparr>mx_owner := Some t\<rparr>, s)"
  using assms by (cases m) (simp add: mutex_lock_def mutex_ok_def check_def Let_def)

lemma mutex_lock_owned:
  assumes "mutex_ok m s xs" "mx_owner m \<noteq> None" "e \<notin> set xs" "wq_fresh e s"
  shows "\<exists>m' s'. mutex_lock (Some t) (Some e) m s = Inr (MUTEX_SHOULD_WAIT, m', s') \<and>
    mutex_ok m' s' (xs @ [e]) \<and> mx_owner m' = mx_owner m \<and> wq_waiter s' = wq_waiter s"
proof -
  obtain q' s' where "waitqueue_add (Some e) (mx_wq m) s = Inr (q', s')" "wq_holds q' s' (xs @ [e])"
    "wq_waiter s' = wq_waiter s"
    using waitqueue_add_holds[of "mx_wq m" s xs e] assms by (auto simp: mutex_ok_def)
  then show ?thesis using assms(1,2) by (auto simp: mutex_lock_def mutex_ok_def check_def Let_def)
qed

lemma mutex_try_lock_eq:
  assumes "mutex_ok m s xs"
  shows "mutex_try_lock (Some t) m =
    Inr (if mx_owner m = None then (True, m\<lparr>mx_owner := Some t\<rparr>) else (False, m))"
  using assms by (cases m) (simp add: mutex_try_lock_def mutex_ok_def check_def Let_def)

lemma mutex_unlock_empty:
  assumes "mutex_ok m s []"
  shows "mutex_unlock call (Some t) m s = Inr (m\<lparr>mx_owner := None\<rparr>, s)"
  using assms waitqueue_wake_one_empty[of "mx_wq m" s call]
  by (cases m) (simp add: mutex_unlock_def mutex_ok_def check_def Let_def)

lemma mutex_unlock_waiters:
  assumes "mutex_ok m s (e # xs)" "keeps_links call" "call_total call"
  shows "\<exists>m' s'. mutex_unlock call (Some t) m s = Inr (m', s') \<and> mutex_ok m' s' xs \<and> mx_owner m' = None"
proof -
  obtain q' s' where "waitqueue_wake_one call (mx_wq m) s = Inr (q', s')" "wq_holds q' s' xs"
    using waitqueue_wake_one_holds[OF _ assms(2,3)] assms(1) unfolding mutex_ok_def by blast
  then show ?thesis using assms(1) by (simp add: mutex_unlock_def mutex_ok_def check_def Let_def)
qed

text \<open>
  The callers: \<open>inside\<close> are the owners that were told they hold the mutex and have not given it
  back. An owner only unlocks a mutex it was told it holds.
\<close>

inductive mutex_step :: "'a wake_fn \<Rightarrow> mutex \<times> 'a wq_heap_scheme \<times> nat set \<Rightarrow>
    mutex \<times> 'a wq_heap_scheme \<times> nat set \<Rightarrow> bool" for call where
  step_lock: "mutex_lock (Some t) wait m s = Inr (MUTEX_ACQUIRED, m', s') \<Longrightarrow>
    mutex_step call (m, s, inside) (m', s', insert t inside)"
| step_wait: "mutex_lock (Some t) wait m s = Inr (MUTEX_SHOULD_WAIT, m', s') \<Longrightarrow>
    mutex_step call (m, s, inside) (m', s', inside)"
| step_try: "mutex_try_lock (Some t) m = Inr (b, m') \<Longrightarrow>
    mutex_step call (m, s, inside) (m', s, if b then insert t inside else inside)"
| step_unlock: "t \<in> inside \<Longrightarrow> mutex_unlock call (Some t) m s = Inr (m', s') \<Longrightarrow>
    mutex_step call (m, s, inside) (m', s', inside - {t})"

inductive_cases mutex_stepE: "mutex_step call (m, s, inside) (m', s', inside')"

lemma mutex_lock_owner:
  "mutex_lock (Some t) wait m s = Inr (st, m', s') \<Longrightarrow>
    (if st = MUTEX_ACQUIRED then mx_owner m = None \<and> mx_owner m' = Some t
     else mx_owner m \<noteq> None \<and> mx_owner m' = mx_owner m)"
  by (auto simp: mutex_lock_def check_def outcome_simps Let_def split: if_splits)

lemma mutex_try_lock_owner:
  "mutex_try_lock (Some t) m = Inr (b, m') \<Longrightarrow>
    (if b then mx_owner m = None \<and> mx_owner m' = Some t else mx_owner m \<noteq> None \<and> mx_owner m' = mx_owner m)"
  by (auto simp: mutex_try_lock_def check_def outcome_simps Let_def split: if_splits)

lemma mutex_unlock_owner: "mutex_unlock call (Some t) m s = Inr (m', s') \<Longrightarrow> mx_owner m' = None"
  by (auto simp: mutex_unlock_def check_def outcome_simps Let_def)

lemma mutex_step_inv:
  assumes "mutex_step call (m, s, inside) (m', s', inside')" "inside = set_option (mx_owner m)"
  shows "inside' = set_option (mx_owner m')"
  using assms
  by (elim mutex_stepE)
    (auto dest!: mutex_lock_owner mutex_try_lock_owner mutex_unlock_owner split: if_splits)

lemmas rtranclp_induct3 =
  rtranclp_induct[of _ "(ax, ay, az)" "(bx, by, bz)", split_rule, consumes 1, case_names refl step]


definition no_wake :: "'a wake_fn" where
  "no_wake f u s = Inr s"

lemma no_wake_ok: "keeps_links no_wake" "call_total no_wake"
  by (auto simp: keeps_links_def call_total_def no_wake_def)

definition mutex_demo :: mutex where
  "mutex_demo = \<lparr>mx_lock = unlocked, mx_owner = None, mx_wq = \<lparr>wq_lock = unlocked, wq_head = None, wq_tail = None\<rparr>\<rparr>"

definition wq_heap_demo :: wq_heap where
  "wq_heap_demo = \<lparr>wq_prev = (\<lambda>_. None), wq_next = (\<lambda>_. None), wq_waiter = (\<lambda>_. \<lparr>wake = None, udata = None\<rparr>)\<rparr>"


text \<open>
  Unlocking does not look at its owner argument: whoever unlocks, the recorded owner is
  cleared, and the longest waiting item is taken off the queue and woken.
\<close>

theorem mutex_unlock_any_owner:
  assumes "mutex_ok m s (e # xs)" "keeps_links call" "call_total call"
  shows "\<exists>m' s'. mutex_unlock call (Some stranger) m s = Inr (m', s') \<and> mutex_ok m' s' xs \<and> mx_owner m' = None"
  using mutex_unlock_waiters[OF assms] .

theorem mutex_unlock_any_owner_witness:
  "\<exists>m' s'. mutex_unlock no_wake (Some 9)
      (mutex_demo\<lparr>mx_owner := Some 7, mx_wq := \<lparr>wq_lock = unlocked, wq_head = Some 3, wq_tail = Some 3\<rparr>\<rparr>) wq_heap_demo =
        Inr (m', s') \<and> mutex_ok m' s' [] \<and> mx_owner m' = None"
  by (rule mutex_unlock_any_owner[of _ _ 3])
    (auto simp: mutex_ok_def wq_holds_def mutex_demo_def wq_heap_demo_def dll_def no_wake_ok)

subsection \<open>The condition variable\<close>

definition cv_ok :: "condvar \<Rightarrow> 'a wq_heap_scheme \<Rightarrow> nat list \<Rightarrow> bool" where
  "cv_ok c s xs \<longleftrightarrow> cv_lock c = unlocked \<and> wq_holds (cv_wq c) s xs"

lemma condvar_wait_ok:
  assumes "cv_ok c s xs" "e \<notin> set xs" "wq_fresh e s"
  shows "\<exists>c' s'. condvar_wait (Some e) c s = Inr (c', s') \<and> cv_ok c' s' (xs @ [e]) \<and> wq_waiter s' = wq_waiter s"
proof -
  obtain q' s' where "waitqueue_add (Some e) (cv_wq c) s = Inr (q', s')" "wq_holds q' s' (xs @ [e])"
    "wq_waiter s' = wq_waiter s"
    using waitqueue_add_holds[of "cv_wq c" s xs e] assms by (auto simp: cv_ok_def)
  then show ?thesis using assms(1) by (auto simp: condvar_wait_def cv_ok_def check_def Let_def)
qed

text \<open>
  A broadcast returns whenever the wake functions do: it wakes every waiter exactly once, in
  the order in which they started to wait, and leaves the condition variable with no waiters and
  every waiter's item ready to be queued again.
\<close>

theorem condvar_broadcast_wakes_all:
  assumes "cv_ok c s xs" "keeps_links call" "for_r (wake_item call) xs s = Inr s'"
  shows "\<exists>c'. condvar_broadcast call c s = Inr (c', s') \<and> cv_ok c' s' [] \<and> (\<forall>e \<in> set xs. wq_fresh e s')"
proof -
  obtain q' where "waitqueue_wake_all call (cv_wq c) s = Inr (q', s')" "wq_holds q' s' []"
    "\<forall>e \<in> set xs. wq_fresh e s'"
    using waitqueue_wake_all_ok[OF assms(2) _ assms(3)] assms(1) unfolding cv_ok_def by blast
  then show ?thesis using assms(1) by (simp add: condvar_broadcast_def cv_ok_def)
qed

definition cv_demo :: condvar where
  "cv_demo = \<lparr>cv_lock = unlocked, cv_wq = \<lparr>wq_lock = unlocked, wq_head = Some 3, wq_tail = Some 3\<rparr>\<rparr>"

theorem condvar_broadcast_wakes_all_witness:
  "\<exists>c'. condvar_broadcast no_wake cv_demo wq_heap_demo = Inr (c', wq_heap_demo) \<and> cv_ok c' wq_heap_demo [] \<and>
     (\<forall>e \<in> set [3]. wq_fresh e wq_heap_demo)"
  by (rule condvar_broadcast_wakes_all)
    (auto simp: cv_ok_def wq_holds_def cv_demo_def wq_heap_demo_def dll_def keeps_links_def no_wake_def call_waiter_def
      wake_item_def Let_def fun_eq_iff split: option.splits)

end
