(* ===== verification/Semaphore.thy ===== *)
theory Semaphore
  imports Mutex
begin

section \<open>Counting semaphores (klibc/sync/semaphore.c)\<close>

text \<open>
  The count is a signed 64-bit integer; the Debug build traps signed overflow (\<^verbatim>\<open>-fsanitize=undefined\<close>
  with \<^verbatim>\<open>CONFIG_UBSAN_ALWAYS_ABORT\<close>), which is \<open>Inl Panic\<close>. A negative count is the number of
  waiters.

  \<open>sem_ok\<close> is the invariant; \<open>sem_step\<close> is one call, with the number of permits handed out as a ghost
  counter. The claims: the number of holders never exceeds the initial count, and a waiter only
  waits while every permit is held.
\<close>

subsection \<open>Definitions\<close>

definition i64_checked :: "int \<Rightarrow> int outcome" where
  "i64_checked i = (if - (2 ^ 63) \<le> i \<and> i < 2 ^ 63 then Inr i else Inl Panic)"

datatype semaphore_status = SEM_ACQUIRED | SEM_SHOULD_WAIT

record semaphore =
  sem_lock :: spinlock
  sem_count :: int
  sem_wq :: waitqueue

definition semaphore_init :: "int \<Rightarrow> semaphore \<Rightarrow> semaphore" where
  "semaphore_init initial_count self =
     self\<lparr>sem_lock := spinlock_init (sem_lock self), sem_wq := waitqueue_init (sem_wq self), sem_count := initial_count\<rparr>"

definition semaphore_acquire :: "ref \<Rightarrow> semaphore \<Rightarrow> 'a wq_heap_scheme \<Rightarrow>
    (semaphore_status \<times> semaphore \<times> 'a wq_heap_scheme) outcome" where
  "semaphore_acquire wait self s =
     check (wait \<noteq> None)
     (rbind (spinlock_acquire (sem_lock self)) (\<lambda>l.
      rbind (i64_checked (sem_count self - 1)) (\<lambda>c.
      let self = self\<lparr>sem_lock := l, sem_count := c\<rparr> in
      if sem_count self \<ge> 0
      then Inr (SEM_ACQUIRED, self\<lparr>sem_lock := spinlock_release (sem_lock self)\<rparr>, s)
      else
        rbind (waitqueue_add wait (sem_wq self) s) (\<lambda>(wq, s).
        let self = self\<lparr>sem_wq := wq\<rparr> in
        Inr (SEM_SHOULD_WAIT, self\<lparr>sem_lock := spinlock_release (sem_lock self)\<rparr>, s)))))"

definition semaphore_try_acquire :: "semaphore \<Rightarrow> (bool \<times> semaphore) outcome" where
  "semaphore_try_acquire self =
     rbind (spinlock_acquire (sem_lock self)) (\<lambda>l.
     let self = self\<lparr>sem_lock := l\<rparr> in
     if sem_count self > 0
     then
       rbind (i64_checked (sem_count self - 1)) (\<lambda>c.
       let self = self\<lparr>sem_count := c\<rparr> in
       Inr (True, self\<lparr>sem_lock := spinlock_release (sem_lock self)\<rparr>))
     else Inr (False, self\<lparr>sem_lock := spinlock_release (sem_lock self)\<rparr>))"

definition semaphore_release :: "'a wake_fn \<Rightarrow> semaphore \<Rightarrow> 'a wq_heap_scheme \<Rightarrow>
    (semaphore \<times> 'a wq_heap_scheme) outcome" where
  "semaphore_release call self s =
     rbind (spinlock_acquire (sem_lock self)) (\<lambda>l.
     rbind (i64_checked (sem_count self + 1)) (\<lambda>c.
     let self = self\<lparr>sem_lock := l, sem_count := c\<rparr> in
     if sem_count self \<le> 0
     then
       let self = self\<lparr>sem_lock := spinlock_release (sem_lock self)\<rparr> in
       rbind (waitqueue_wake_one call (sem_wq self) s) (\<lambda>(wq, s). Inr (self\<lparr>sem_wq := wq\<rparr>, s))
     else Inr (self\<lparr>sem_lock := spinlock_release (sem_lock self)\<rparr>, s)))"

subsection \<open>The invariant\<close>

definition sem_ok :: "semaphore \<Rightarrow> 'a wq_heap_scheme \<Rightarrow> nat list \<Rightarrow> bool" where
  "sem_ok m s xs \<longleftrightarrow> sem_lock m = unlocked \<and> wq_holds (sem_wq m) s xs \<and> length xs = nat (- sem_count m) \<and>
     - (2 ^ 63) \<le> sem_count m \<and> sem_count m < 2 ^ 63"

lemma semaphore_init_ok: "0 \<le> n \<Longrightarrow> n < 2 ^ 63 \<Longrightarrow> sem_ok (semaphore_init n m) s []"
  by (simp add: sem_ok_def semaphore_init_def waitqueue_init_holds)

lemma semaphore_acquire_free:
  assumes "sem_ok m s xs" "sem_count m > 0"
  shows "semaphore_acquire (Some e) m s = Inr (SEM_ACQUIRED, m\<lparr>sem_count := sem_count m - 1\<rparr>, s)"
  using assms by (cases m) (simp add: semaphore_acquire_def sem_ok_def check_def i64_checked_def Let_def)

lemma semaphore_acquire_wait:
  assumes "sem_ok m s xs" "sem_count m \<le> 0" "sem_count m > - (2 ^ 63)" "e \<notin> set xs" "wq_fresh e s"
  shows "\<exists>m' s'. semaphore_acquire (Some e) m s = Inr (SEM_SHOULD_WAIT, m', s') \<and>
    sem_ok m' s' (xs @ [e]) \<and> sem_count m' = sem_count m - 1"
proof -
  obtain q' s' where "waitqueue_add (Some e) (sem_wq m) s = Inr (q', s')" "wq_holds q' s' (xs @ [e])"
    using waitqueue_add_holds[of "sem_wq m" s xs e] assms by (auto simp: sem_ok_def)
  then show ?thesis using assms(1-3)
    by (auto simp: semaphore_acquire_def sem_ok_def check_def i64_checked_def Let_def nat_eq_iff)
qed

lemma semaphore_try_acquire_eq:
  assumes "sem_ok m s xs"
  shows "semaphore_try_acquire m =
    Inr (if sem_count m > 0 then (True, m\<lparr>sem_count := sem_count m - 1\<rparr>) else (False, m))"
  using assms by (cases m) (simp add: semaphore_try_acquire_def sem_ok_def i64_checked_def Let_def)

lemma semaphore_release_free:
  assumes "sem_ok m s xs" "sem_count m \<ge> 0" "sem_count m < 2 ^ 63 - 1"
  shows "semaphore_release call m s = Inr (m\<lparr>sem_count := sem_count m + 1\<rparr>, s)"
  using assms by (cases m) (simp add: semaphore_release_def sem_ok_def i64_checked_def Let_def)

lemma semaphore_release_wake:
  assumes "sem_ok m s (e # xs)" "keeps_links call" "call_total call"
  shows "\<exists>m' s'. semaphore_release call m s = Inr (m', s') \<and> sem_ok m' s' xs \<and> sem_count m' = sem_count m + 1"
proof -
  have c: "sem_count m < 0" "wq_holds (sem_wq m) s (e # xs)" using assms(1) by (auto simp: sem_ok_def)
  obtain q' s' where "waitqueue_wake_one call (sem_wq m) s = Inr (q', s')" "wq_holds q' s' xs"
    using waitqueue_wake_one_holds[OF c(2) assms(2,3)] by auto
  then show ?thesis using assms(1) c(1)
    by (auto simp: semaphore_release_def sem_ok_def i64_checked_def Let_def nat_eq_iff)
qed

subsection \<open>Callers\<close>

text \<open>
  \<open>held\<close> is the number of permits that callers hold: a permit is handed out by a successful
  acquisition, and by a release that wakes a waiter (the woken caller does not call again). Callers
  release only permits they hold, and queue an item that is not queued.
\<close>

inductive sem_step :: "'a wake_fn \<Rightarrow> semaphore \<times> 'a wq_heap_scheme \<times> nat \<Rightarrow>
    semaphore \<times> 'a wq_heap_scheme \<times> nat \<Rightarrow> bool" for call where
  sem_take: "semaphore_acquire (Some e) m s = Inr (SEM_ACQUIRED, m', s') \<Longrightarrow>
    sem_step call (m, s, held) (m', s', Suc held)"
| sem_wait: "semaphore_acquire (Some e) m s = Inr (SEM_SHOULD_WAIT, m', s') \<Longrightarrow>
    sem_ok m s xs \<Longrightarrow> e \<notin> set xs \<Longrightarrow> wq_fresh e s \<Longrightarrow> sem_step call (m, s, held) (m', s', held)"
| sem_try: "semaphore_try_acquire m = Inr (b, m') \<Longrightarrow>
    sem_step call (m, s, held) (m', s, if b then Suc held else held)"
| sem_release: "held > 0 \<Longrightarrow> semaphore_release call m s = Inr (m', s') \<Longrightarrow>
    sem_step call (m, s, held) (m', s', if wq_head (sem_wq m) = None then held - 1 else held)"

inductive_cases sem_stepE: "sem_step call (m, s, held) (m', s', held')"

definition sem_inv :: "int \<Rightarrow> semaphore \<Rightarrow> 'a wq_heap_scheme \<Rightarrow> nat \<Rightarrow> bool" where
  "sem_inv n m s held \<longleftrightarrow> (\<exists>xs. sem_ok m s xs) \<and> int held = n - max 0 (sem_count m) \<and> sem_count m \<le> n"

lemma sem_ok_count: "sem_ok m s xs \<Longrightarrow> sem_ok (m\<lparr>sem_count := c\<rparr>) s xs \<longleftrightarrow>
    length xs = nat (- c) \<and> - (2 ^ 63) \<le> c \<and> c < 2 ^ 63"
  by (auto simp: sem_ok_def)

lemma sem_acquire_inv:
  assumes "sem_inv n m s held" "semaphore_acquire (Some e) m s = Inr (SEM_ACQUIRED, m', s')"
  shows "sem_inv n m' s' (Suc held)"
proof -
  obtain xs where xs: "sem_ok m s xs" using assms(1) by (auto simp: sem_inv_def)
  have pos: "sem_count m > 0"
    using assms(2) by (auto simp: semaphore_acquire_def check_def outcome_simps Let_def i64_checked_def split: if_splits)
  then have e: "m' = m\<lparr>sem_count := sem_count m - 1\<rparr>" "s' = s"
    using semaphore_acquire_free[OF xs, of e] assms(2) by auto
  have "sem_ok m' s' xs" unfolding e using xs pos by (subst sem_ok_count[OF xs]) (auto simp: sem_ok_def)
  then show ?thesis using assms(1) pos e unfolding sem_inv_def by auto
qed

lemma sem_wait_inv:
  assumes "sem_inv n m s held" "semaphore_acquire (Some e) m s = Inr (SEM_SHOULD_WAIT, m', s')"
    and "sem_ok m s xs" "e \<notin> set xs" "wq_fresh e s"
  shows "sem_inv n m' s' held"
proof -
  have "sem_count m \<le> 0" "sem_count m > - (2 ^ 63)"
    using assms(2) by (auto simp: semaphore_acquire_def check_def outcome_simps Let_def i64_checked_def split: if_splits)
  with semaphore_acquire_wait[OF assms(3) this assms(4,5)] assms(1,2) show ?thesis
    unfolding sem_inv_def by auto
qed

lemma sem_try_inv:
  assumes "sem_inv n m s held" "semaphore_try_acquire m = Inr (b, m')"
  shows "sem_inv n m' s (if b then Suc held else held)"
proof -
  obtain xs where xs: "sem_ok m s xs" using assms(1) by (auto simp: sem_inv_def)
  show ?thesis
  proof (cases "sem_count m > 0")
    case True
    then have "b" "m' = m\<lparr>sem_count := sem_count m - 1\<rparr>" using semaphore_try_acquire_eq[OF xs] assms(2) by auto
    moreover have "sem_ok (m\<lparr>sem_count := sem_count m - 1\<rparr>) s xs"
      using xs True by (subst sem_ok_count[OF xs]) (auto simp: sem_ok_def)
    ultimately show ?thesis using assms(1) True unfolding sem_inv_def by auto
  next
    case False
    then show ?thesis using semaphore_try_acquire_eq[OF xs] assms by auto
  qed
qed

lemma sem_release_inv:
  assumes "sem_inv n m s held" "held > 0" "semaphore_release call m s = Inr (m', s')"
    and "keeps_links call" "call_total call"
  shows "sem_inv n m' s' (if wq_head (sem_wq m) = None then held - 1 else held)"
proof -
  obtain xs where xs: "sem_ok m s xs" using assms(1) by (auto simp: sem_inv_def)
  then have h: "wq_head (sem_wq m) = None \<longleftrightarrow> xs = []" by (auto simp: sem_ok_def wq_holds_def dll_def)
  show ?thesis
  proof (cases xs)
    case Nil
    then have c: "sem_count m \<ge> 0" "sem_count m < 2 ^ 63 - 1"
      using xs assms(3) by (auto simp: sem_ok_def semaphore_release_def outcome_simps i64_checked_def split: if_splits)
    then have m: "m' = m\<lparr>sem_count := sem_count m + 1\<rparr>" "s' = s"
      using semaphore_release_free[OF xs] assms(3) by auto
    have "sem_ok m' s' xs" unfolding m using xs c Nil by (subst sem_ok_count[OF xs]) (auto simp: sem_ok_def)
    then show ?thesis using assms(1,2) m c h Nil unfolding sem_inv_def by auto
  next
    case (Cons e ys)
    then have "sem_count m < 0" using xs by (auto simp: sem_ok_def)
    with semaphore_release_wake[OF xs[unfolded Cons] assms(4,5)] assms(1,3) h Cons show ?thesis
      unfolding sem_inv_def by auto
  qed
qed

lemma sem_step_inv:
  assumes "sem_step call (m, s, held) (m', s', held')" "keeps_links call" "call_total call" "sem_inv n m s held"
  shows "sem_inv n m' s' held'"
  using assms(1)
proof (rule sem_stepE)
  show ?thesis if "held' = Suc held" "semaphore_acquire (Some e) m s = Inr (SEM_ACQUIRED, m', s')" for e
    using sem_acquire_inv[OF assms(4)] that by blast
  show ?thesis if "held' = held" "semaphore_acquire (Some e) m s = Inr (SEM_SHOULD_WAIT, m', s')"
    "sem_ok m s xs" "e \<notin> set xs" "wq_fresh e s" for e xs
    using sem_wait_inv[OF assms(4) that(2-5)] that(1) by simp
  show ?thesis if "s' = s" "held' = (if b then Suc held else held)" "semaphore_try_acquire m = Inr (b, m')" for b
    using sem_try_inv[OF assms(4) that(3)] that(1,2) by simp
  show ?thesis if "held' = (if wq_head (sem_wq m) = None then held - 1 else held)" "0 < held"
    "semaphore_release call m s = Inr (m', s')"
    using sem_release_inv[OF assms(4) that(2,3) assms(2,3)] that(1) by simp
qed


definition sem_demo :: semaphore where
  "sem_demo = \<lparr>sem_lock = unlocked, sem_count = 0, sem_wq = \<lparr>wq_lock = unlocked, wq_head = None, wq_tail = None\<rparr>\<rparr>"


end
