(* ===== verification/Objects.thy ===== *)
theory Objects
  imports WaitQueue
begin

section \<open>Heap objects (klibc/mem/alloc.c on the kernel heap)\<close>

text \<open>
  The structures the kernel allocates one by one (capability objects, tasks, mappings, sleepers)
  are objects named by a number. \<open>live\<close> are the ones allocated and not freed. Which number
  \<^verbatim>\<open>malloc\<close> (liballoc, vendored) picks for a request of some size is the field \<open>malloc_obj\<close> of
  the state: \<open>None\<close> is NULL. What the kernel relies on is \<open>malloc_ok\<close>: an allocation never
  returns an object that is still live.

  Freeing an object that is not live makes \<^verbatim>\<open>heap__hdr_for\<close> return NULL, which
  \<^verbatim>\<open>heap_deallocate\<close> follows (\<open>Inl NullDeref\<close>).
\<close>

record obj_heap = wq_heap +
  live :: "nat set"
  malloc_obj :: "nat \<Rightarrow> nat set \<Rightarrow> ref"

definition malloc_ok :: "'a obj_heap_scheme \<Rightarrow> bool" where
  "malloc_ok s \<longleftrightarrow> (\<forall>sz U i. malloc_obj s sz U = Some i \<longrightarrow> i \<notin> U)"

definition allocate_obj :: "nat \<Rightarrow> 'a obj_heap_scheme \<Rightarrow> (nat \<times> 'a obj_heap_scheme) outcome" where
  "allocate_obj sz s =
     check (sz > 0)
     (case malloc_obj s sz (live s) of
        None \<Rightarrow> Inl AssertFail
      | Some i \<Rightarrow> Inr (i, s\<lparr>live := insert i (live s)\<rparr>))"

definition deallocate_obj :: "ref \<Rightarrow> 'a obj_heap_scheme \<Rightarrow> ('a obj_heap_scheme) outcome" where
  "deallocate_obj p s =
     (case p of
        None \<Rightarrow> Inr s
      | Some i \<Rightarrow> if i \<in> live s then Inr (s\<lparr>live := live s - {i}\<rparr>) else Inl NullDeref)"

lemma allocate_obj_fresh:
  assumes "malloc_ok s" "allocate_obj sz s = Inr (i, s')"
  shows "i \<notin> live s" "s' = s\<lparr>live := insert i (live s)\<rparr>" "malloc_ok s'"
  using assms by (auto simp: allocate_obj_def check_def malloc_ok_def split: if_splits option.splits)

lemma allocate_obj_eq:
  "malloc_obj s sz (live s) = Some i \<Longrightarrow> 0 < sz \<Longrightarrow> allocate_obj sz s = Inr (i, s\<lparr>live := insert i (live s)\<rparr>)"
  by (simp add: allocate_obj_def)

lemma deallocate_allocated:
  assumes "malloc_ok s" "allocate_obj sz s = Inr (i, s')"
  shows "deallocate_obj (Some i) s' = Inr s"
  using allocate_obj_fresh[OF assms] by (simp add: deallocate_obj_def)

end
