(* ===== verification/Capabilities.thy ===== *)
theory Capabilities
  imports Objects
begin

unbundle bit_operations_syntax

section \<open>Capability tables (kernel/proc/capabilities.c)\<close>

text \<open>
  A task names kernel objects by 32-bit ids: the low half is a slot of its table, the high half
  the generation the slot had when the capability was added. Freed slots form a list threaded
  through \<^verbatim>\<open>next_free\<close>. The slot array is a list, \<open>None\<close> when the pointer is NULL (after a
  \<^verbatim>\<open>reallocate\<close> that failed). The operations of an object are function pointers, numbers here;
  calling \<^verbatim>\<open>release\<close> is the parameter \<open>rel\<close>.
\<close>

subsection \<open>Definitions\<close>

record cap_ops =
  op_release :: "nat option"
  op_read :: "nat option"
  op_write :: "nat option"
  op_invoke :: "nat option"
  op_map :: "nat option"
  op_ctl :: "nat option"

record cap_obj =
  co_ops :: cap_ops
  co_refcount :: u32
  co_flags :: u32

record cap_slot =
  sl_obj :: ref
  sl_rights :: u32
  sl_flags :: u32
  sl_gen :: u16
  sl_next_free :: u16

record cap_table =
  slots :: "cap_slot list option"
  capacity :: usize
  next_unused :: u16
  free_head :: u16
  ct_lock :: spinlock

record cap_heap = obj_heap +
  cap_objs :: "nat \<Rightarrow> cap_obj"

type_synonym 'a release_fn = "nat \<Rightarrow> nat \<Rightarrow> 'a cap_heap_scheme \<Rightarrow> ('a cap_heap_scheme) outcome"

abbreviation CAP_INVALID_INDEX :: u16 where
  "CAP_INVALID_INDEX \<equiv> 0xFFFF"

definition SIZEOF_CAP_SLOT :: nat where
  "SIZEOF_CAP_SLOT = 24"

definition SIZEOF_CAP_OBJ :: nat where
  "SIZEOF_CAP_OBJ = 56"

definition CAP_RIGHT_WRITE :: u32 where
  "CAP_RIGHT_WRITE = 2"

definition cap_id_make :: "u16 \<Rightarrow> u16 \<Rightarrow> u32" where
  "cap_id_make index gen = push_bit 16 (ucast gen) OR ucast index"

definition cap_id_get_index :: "u32 \<Rightarrow> u16" where
  "cap_id_get_index i = ucast (i AND 0xFFFF)"

definition cap_id_get_gen :: "u32 \<Rightarrow> u16" where
  "cap_id_get_gen i = ucast (drop_bit 16 i)"

text \<open>Objects.\<close>

definition upd_obj :: "nat \<Rightarrow> (cap_obj \<Rightarrow> cap_obj) \<Rightarrow> 'a cap_heap_scheme \<Rightarrow> 'a cap_heap_scheme" where
  "upd_obj i f s = s\<lparr>cap_objs := (cap_objs s)(i := f (cap_objs s i))\<rparr>"

definition cap_obj_init :: "ref \<Rightarrow> cap_ops \<Rightarrow> 'a cap_heap_scheme \<Rightarrow> ('a cap_heap_scheme) outcome" where
  "cap_obj_init self ops s =
     (case self of
        None \<Rightarrow> Inl AssertFail
      | Some i \<Rightarrow> Inr (upd_obj i (\<lambda>o'. o'\<lparr>co_refcount := 1, co_ops := ops, co_flags := 0\<rparr>) s))"

definition cap_obj_incref :: "ref \<Rightarrow> 'a cap_heap_scheme \<Rightarrow> (ref \<times> 'a cap_heap_scheme) outcome" where
  "cap_obj_incref self s =
     (case self of
        None \<Rightarrow> Inl AssertFail
      | Some i \<Rightarrow> Inr (self, upd_obj i (\<lambda>o'. o'\<lparr>co_refcount := co_refcount o' + 1\<rparr>) s))"

definition cap_obj_decref :: "'a release_fn \<Rightarrow> ref \<Rightarrow> 'a cap_heap_scheme \<Rightarrow> ('a cap_heap_scheme) outcome" where
  "cap_obj_decref rel self s =
     (case self of
        None \<Rightarrow> Inl AssertFail
      | Some i \<Rightarrow>
          let prev = co_refcount (cap_objs s i);
              s = upd_obj i (\<lambda>o'. o'\<lparr>co_refcount := co_refcount o' - 1\<rparr>) s in
          if prev = 1
          then rbind (case op_release (co_ops (cap_objs s i)) of None \<Rightarrow> Inr s | Some f \<Rightarrow> rel f i s) (\<lambda>s.
            deallocate_obj self s)
          else Inr s)"

text \<open>Slots.\<close>

definition slot_get :: "u16 \<Rightarrow> cap_table \<Rightarrow> cap_slot outcome" where
  "slot_get idx t =
     (case slots t of
        None \<Rightarrow> Inl NullDeref
      | Some sl \<Rightarrow> if unat idx < length sl then Inr (sl ! unat idx) else Inl OutOfBounds)"

definition slot_put :: "u16 \<Rightarrow> cap_slot \<Rightarrow> cap_table \<Rightarrow> cap_table outcome" where
  "slot_put idx v t =
     (case slots t of
        None \<Rightarrow> Inl NullDeref
      | Some sl \<Rightarrow> if unat idx < length sl then Inr (t\<lparr>slots := Some (sl[unat idx := v])\<rparr>) else Inl OutOfBounds)"

definition empty_slot :: cap_slot where
  "empty_slot = \<lparr>sl_obj = None, sl_rights = 0, sl_flags = 0, sl_gen = 1, sl_next_free = CAP_INVALID_INDEX\<rparr>"

text \<open>
  The loop over the new slots runs over \<^verbatim>\<open>u16\<close> indices below \<open>0xFFFF\<close>: it sets every slot from
  the old capacity on.
\<close>

definition cap_table__ensure_capacity :: "'a obj_heap_scheme \<Rightarrow> cap_table \<Rightarrow> cap_table outcome" where
  "cap_table__ensure_capacity s self =
     (if ucast (next_unused self) < capacity self then Inr self
      else if capacity self = 0xFFFF then Inr self
      else
        let old_capacity = capacity self;
            new_capacity = (if old_capacity = 0 then 1 else old_capacity * 2);
            new_capacity = (if new_capacity > 0xFFFF then 0xFFFF else new_capacity) in
        (case (slots self, malloc_obj s (unat new_capacity * SIZEOF_CAP_SLOT) (live s)) of
           (Some sl, Some _) \<Rightarrow>
             Inr (self\<lparr>slots := Some (sl @ replicate (unat new_capacity - unat old_capacity) empty_slot),
               capacity := new_capacity\<rparr>)
         | (None, Some _) \<Rightarrow>
             Inr (self\<lparr>slots := Some (replicate (unat new_capacity) empty_slot), capacity := new_capacity\<rparr>)
         | _ \<Rightarrow> Inl NullDeref))"

partial_function (option) free_list_loop :: "u16 \<Rightarrow> u16 \<Rightarrow> cap_table \<Rightarrow> ((bool \<times> cap_table) outcome) option" where
  "free_list_loop idx prev self =
     (if prev = CAP_INVALID_INDEX then Some (Inr (False, self))
      else (case slot_get prev self of
          Inl f \<Rightarrow> Some (Inl f)
        | Inr sp \<Rightarrow>
            let cur = sl_next_free sp in
            if cur = CAP_INVALID_INDEX then Some (Inr (False, self))
            else if cur = idx then
              Some (rbind (slot_get cur self) (\<lambda>sc.
                rbind (slot_put prev (sp\<lparr>sl_next_free := sl_next_free sc\<rparr>) self) (\<lambda>self.
                Inr (True, self))))
            else free_list_loop idx cur self))"

definition cap_table__free_list_remove :: "u16 \<Rightarrow> cap_table \<Rightarrow> (bool \<times> cap_table) outcome" where
  "cap_table__free_list_remove idx self =
     check (idx \<noteq> CAP_INVALID_INDEX)
     (if free_head self = CAP_INVALID_INDEX then Inr (False, self)
      else if free_head self = idx then
        rbind (slot_get idx self) (\<lambda>sl. Inr (True, self\<lparr>free_head := sl_next_free sl\<rparr>))
      else ended (free_list_loop idx (free_head self) self))"

definition cap_table_init :: "usize \<Rightarrow> cap_table \<Rightarrow> 'a obj_heap_scheme \<Rightarrow> cap_table outcome" where
  "cap_table_init initial_capacity self s =
     check (initial_capacity \<le> 0xFFFF) (check (initial_capacity > 0)
     (case malloc_obj s (unat initial_capacity * SIZEOF_CAP_SLOT) (live s) of
        None \<Rightarrow> Inl AssertFail
      | Some _ \<Rightarrow>
          Inr (self\<lparr>slots := Some (replicate (unat initial_capacity) empty_slot), capacity := initial_capacity,
            next_unused := 0, free_head := CAP_INVALID_INDEX, ct_lock := spinlock_init (ct_lock self)\<rparr>)))"

definition cap_table_deinit :: "'a release_fn \<Rightarrow> cap_table \<Rightarrow> 'a cap_heap_scheme \<Rightarrow> (cap_table \<times> 'a cap_heap_scheme) outcome" where
  "cap_table_deinit rel self s =
     rbind (for_r (\<lambda>i s.
         rbind (slot_get (of_nat i) self) (\<lambda>slot.
         if sl_obj slot \<noteq> None then cap_obj_decref rel (sl_obj slot) s else Inr s))
       [0..<unat (capacity self)] s) (\<lambda>s.
     Inr (\<lparr>slots = None, capacity = 0, next_unused = 0, free_head = 0, ct_lock = unlocked\<rparr>, s))"

text \<open>Filling a slot, the same four assignments in \<^verbatim>\<open>cap_table_add\<close> and \<^verbatim>\<open>cap_table_set\<close>.\<close>

definition slot_fill :: "u16 \<Rightarrow> ref \<Rightarrow> u32 \<Rightarrow> u32 \<Rightarrow> cap_table \<Rightarrow> 'a cap_heap_scheme \<Rightarrow> (cap_table \<times> 'a cap_heap_scheme) outcome" where
  "slot_fill idx obj rights flags self s =
     rbind (slot_get idx self) (\<lambda>slot.
     rbind (cap_obj_incref obj s) (\<lambda>(o', s).
     rbind (slot_put idx (slot\<lparr>sl_obj := o', sl_rights := rights, sl_flags := flags, sl_next_free := CAP_INVALID_INDEX\<rparr>) self)
       (\<lambda>self. Inr (self, s))))"

definition cap_table_add :: "ref \<Rightarrow> u32 \<Rightarrow> u32 \<Rightarrow> cap_table \<Rightarrow> 'a cap_heap_scheme \<Rightarrow>
    (u32 \<times> cap_table \<times> 'a cap_heap_scheme) outcome" where
  "cap_table_add obj rights flags self s =
     check (obj \<noteq> None)
     (rbind (spinlock_acquire (ct_lock self)) (\<lambda>l.
      let self = self\<lparr>ct_lock := l\<rparr> in
      rbind (if free_head self \<noteq> CAP_INVALID_INDEX
             then
               let idx = free_head self in
               rbind (slot_get idx self) (\<lambda>sl. Inr (idx, self\<lparr>free_head := sl_next_free sl\<rparr>))
             else
               rbind (cap_table__ensure_capacity s self) (\<lambda>self.
               check (ucast (next_unused self) < capacity self)
               (Inr (next_unused self, self\<lparr>next_unused := next_unused self + 1\<rparr>))))
        (\<lambda>(idx, self).
      rbind (slot_get idx self) (\<lambda>slot.
      check (sl_obj slot = None)
      (rbind (slot_fill idx obj rights flags self s) (\<lambda>(self, s).
       Inr (cap_id_make idx (sl_gen slot), self\<lparr>ct_lock := spinlock_release (ct_lock self)\<rparr>, s)))))))"

text \<open>The loop that grows the table up to the wanted index; \<open>False\<close> when it cannot grow.\<close>

lemma unat_lt_u16: "unat (x :: u16) < 65536"
  using unsigned_less[of x, where ?'a = nat] by simp

lemma unat_ucast_u16 [simp]: "unat (ucast (x :: u16) :: usize) = unat x"
  using unat_lt_u16[of x] by (intro unat_ucast_less) simp

lemma grown_capacity:
  fixes c :: usize
  assumes "unat c < 65535"
  defines "n \<equiv> (if c = 0 then 1 else c * 2)"
  shows "unat (if n > 0xFFFF then 0xFFFF else n) = (if c = 0 then 1 else min 0xFFFF (2 * unat c))"
proof -
  have "unat (c * 2) = unat c * 2" using assms by (subst unat_mult_u64) auto
  then show ?thesis unfolding n_def by (auto simp: word_less_nat_alt word_le_nat_alt min_def unat_gt_0)
qed

lemma ensure_capacity_eq:
  assumes "cap_table__ensure_capacity s t = Inr t'" "\<not> unat (next_unused t) < unat (capacity t)" "unat (capacity t) \<noteq> 0xFFFF"
  shows "unat (capacity t) < 0xFFFF"
    "unat (capacity t') = (if capacity t = 0 then 1 else min 0xFFFF (2 * unat (capacity t)))"
    "slots t' = Some ((case slots t of None \<Rightarrow> [] | Some sl \<Rightarrow> sl) @
       replicate (unat (capacity t') - (if slots t = None then 0 else unat (capacity t))) empty_slot)"
    "t' = t\<lparr>slots := slots t', capacity := capacity t'\<rparr>"
proof -
  show c: "unat (capacity t) < 0xFFFF" using assms(2,3) unat_lt_u16[of "next_unused t"] by linarith
  have "\<not> ucast (next_unused t) < capacity t" "capacity t \<noteq> 0xFFFF"
    using assms(2,3) by (auto simp: word_less_nat_alt)
  note u = assms(1)[unfolded cap_table__ensure_capacity_def Let_def, simplified this if_False]
  from u show "unat (capacity t') = (if capacity t = 0 then 1 else min 0xFFFF (2 * unat (capacity t)))"
    using grown_capacity[OF c[simplified]] by (auto split: option.splits)
  from u show "slots t' = Some ((case slots t of None \<Rightarrow> [] | Some sl \<Rightarrow> sl) @
       replicate (unat (capacity t') - (if slots t = None then 0 else unat (capacity t))) empty_slot)"
    "t' = t\<lparr>slots := slots t', capacity := capacity t'\<rparr>"
    by (auto split: option.splits)
qed

lemma ensure_capacity_noop:
  "unat (next_unused t) < unat (capacity t) \<or> unat (capacity t) = 0xFFFF \<Longrightarrow> cap_table__ensure_capacity s t = Inr t"
  by (auto simp: cap_table__ensure_capacity_def word_less_nat_alt word_eq_iff_unat)

lemma ensure_capacity_grows:
  assumes "cap_table__ensure_capacity s t = Inr t'" "capacity t' \<noteq> capacity t"
  shows "unat (capacity t) < 0xFFFF \<and> unat (capacity t) < unat (capacity t') \<and> unat (capacity t') \<le> 0xFFFF"
proof -
  have "\<not> (unat (next_unused t) < unat (capacity t) \<or> unat (capacity t) = 0xFFFF)"
    using ensure_capacity_noop[of t s] assms by auto
  then show ?thesis
    using ensure_capacity_eq(1,2)[OF assms(1)] by (auto simp: min_def unat_gt_0)
qed

function set_grow :: "'a obj_heap_scheme \<Rightarrow> u16 \<Rightarrow> cap_table \<Rightarrow> (bool \<times> cap_table) outcome" where
  "set_grow s idx self =
     (if ucast idx \<ge> capacity self
      then rbind (cap_table__ensure_capacity s self) (\<lambda>self'.
        if capacity self' = capacity self then Inr (False, self') else set_grow s idx self')
      else Inr (True, self))"
  by pat_completeness auto
termination
  by (relation "measure (\<lambda>(s, idx, t). 0xFFFF - unat (capacity t))") (auto dest: ensure_capacity_grows intro: diff_less_mono2)

declare set_grow.simps [simp del]

text \<open>Threading the skipped slots into the free list: indices \<open>idx - 1\<close> down to \<^verbatim>\<open>next_unused\<close>.\<close>

definition free_push :: "nat \<Rightarrow> cap_table \<Rightarrow> cap_table outcome" where
  "free_push free_idx self =
     rbind (slot_get (of_nat free_idx) self) (\<lambda>sl.
     rbind (slot_put (of_nat free_idx) (sl\<lparr>sl_next_free := free_head self\<rparr>) self) (\<lambda>self.
     Inr (self\<lparr>free_head := of_nat free_idx\<rparr>)))"

definition cap_table_set :: "u32 \<Rightarrow> ref \<Rightarrow> u32 \<Rightarrow> u32 \<Rightarrow> cap_table \<Rightarrow> 'a cap_heap_scheme \<Rightarrow>
    (bool \<times> cap_table \<times> 'a cap_heap_scheme) outcome" where
  "cap_table_set hint obj rights flags self s =
     check (obj \<noteq> None)
     (let idx = cap_id_get_index hint; gen = cap_id_get_gen hint;
          fail = (\<lambda>self. Inr (False, self\<lparr>ct_lock := spinlock_release (ct_lock self)\<rparr>, s)) in
      if idx = CAP_INVALID_INDEX \<or> gen = 0 then Inr (False, self, s)
      else
        rbind (spinlock_acquire (ct_lock self)) (\<lambda>l.
        rbind (set_grow s idx (self\<lparr>ct_lock := l\<rparr>)) (\<lambda>(grown, self).
        if \<not> grown then fail self
        else
          rbind (slot_get idx self) (\<lambda>slot.
          if sl_obj slot \<noteq> None \<or> sl_gen slot \<noteq> gen then fail self
          else
            rbind (if idx < next_unused self then cap_table__free_list_remove idx self
                   else rbind (for_r free_push (rev [unat (next_unused self)..<unat idx]) self) (\<lambda>self.
                     Inr (True, self\<lparr>next_unused := idx + 1\<rparr>)))
              (\<lambda>(ok, self).
            if \<not> ok then fail self
            else
              rbind (slot_fill idx obj rights flags self s) (\<lambda>(self, s).
              Inr (True, self\<lparr>ct_lock := spinlock_release (ct_lock self)\<rparr>, s)))))))"

definition cap_table_get :: "u32 \<Rightarrow> u32 \<Rightarrow> cap_table \<Rightarrow> 'a cap_heap_scheme \<Rightarrow>
    (ref \<times> cap_table \<times> 'a cap_heap_scheme) outcome" where
  "cap_table_get i required_rights self s =
     (let idx = cap_id_get_index i; gen = cap_id_get_gen i;
          fail = (\<lambda>self. Inr (None, self\<lparr>ct_lock := spinlock_release (ct_lock self)\<rparr>, s)) in
      rbind (spinlock_acquire (ct_lock self)) (\<lambda>l.
      let self = self\<lparr>ct_lock := l\<rparr> in
      if ucast idx \<ge> capacity self then fail self
      else
        rbind (slot_get idx self) (\<lambda>slot.
        if sl_obj slot = None then fail self
        else if sl_gen slot \<noteq> gen then fail self
        else if sl_rights slot AND required_rights \<noteq> required_rights then fail self
        else
          rbind (cap_obj_incref (sl_obj slot) s) (\<lambda>(obj, s).
          Inr (obj, self\<lparr>ct_lock := spinlock_release (ct_lock self)\<rparr>, s)))))"

definition cap_table_del :: "'a release_fn \<Rightarrow> u32 \<Rightarrow> cap_table \<Rightarrow> 'a cap_heap_scheme \<Rightarrow>
    (cap_table \<times> 'a cap_heap_scheme) outcome" where
  "cap_table_del rel i self s =
     (let idx = cap_id_get_index i; gen = cap_id_get_gen i;
          fail = (\<lambda>self. Inr (self\<lparr>ct_lock := spinlock_release (ct_lock self)\<rparr>, s)) in
      rbind (spinlock_acquire (ct_lock self)) (\<lambda>l.
      let self = self\<lparr>ct_lock := l\<rparr> in
      if ucast idx \<ge> capacity self then fail self
      else
        rbind (slot_get idx self) (\<lambda>slot.
        if sl_obj slot = None \<or> sl_gen slot \<noteq> gen then fail self
        else
          let obj = sl_obj slot; g = sl_gen slot + 1; g = (if g = 0 then 1 else g);
              slot' = slot\<lparr>sl_obj := None, sl_rights := 0, sl_flags := 0, sl_gen := g, sl_next_free := free_head self\<rparr> in
          rbind (slot_put idx slot' self) (\<lambda>self.
          let self = self\<lparr>free_head := idx, ct_lock := spinlock_release (ct_lock self)\<rparr> in
          rbind (cap_obj_decref rel obj s) (\<lambda>s. Inr (self, s))))))"

subsection \<open>Ids\<close>

lemma bit_low_half: "bit (0xFFFF :: int) n \<longleftrightarrow> n < 16"
proof -
  have "bit (mask 16 :: int) n \<longleftrightarrow> n < 16" unfolding bit_mask_iff by auto
  then show ?thesis by (simp add: mask_eq_exp_minus_1)
qed

lemmas id_bits = bit_ucast_iff bit_and_iff bit_or_iff bit_push_bit_iff bit_drop_bit_eq bit_low_half

lemma cap_id_index [simp]: "cap_id_get_index (cap_id_make i g) = i"
  by (rule bit_word_eqI) (auto simp: cap_id_get_index_def cap_id_make_def id_bits)

lemma cap_id_gen [simp]: "cap_id_get_gen (cap_id_make i g) = g"
  by (rule bit_word_eqI)
    (auto simp: cap_id_get_gen_def cap_id_make_def id_bits dest: bit_imp_le_length)

lemma cap_id_split: "cap_id_make (cap_id_get_index i) (cap_id_get_gen i) = i"
  by (rule bit_word_eqI) (auto simp: cap_id_get_gen_def cap_id_get_index_def cap_id_make_def id_bits)

lemma cap_id_eq_iff: "i = j \<longleftrightarrow> cap_id_get_index i = cap_id_get_index j \<and> cap_id_get_gen i = cap_id_get_gen j"
  by (metis cap_id_split)

subsection \<open>The invariant\<close>

text \<open>The free list as the indices it visits.\<close>

fun chain :: "cap_slot list \<Rightarrow> u16 \<Rightarrow> nat list \<Rightarrow> bool" where
  "chain sl h [] \<longleftrightarrow> h = CAP_INVALID_INDEX"
| "chain sl h (i # is) \<longleftrightarrow> unat h = i \<and> i < length sl \<and> chain sl (sl_next_free (sl ! i)) is"

definition slots_ok :: "cap_slot list \<Rightarrow> nat \<Rightarrow> u16 \<Rightarrow> nat list \<Rightarrow> bool" where
  "slots_ok sl nu fh fl \<longleftrightarrow>
     length sl \<le> 0xFFFF \<and> nu \<le> length sl \<and> chain sl fh fl \<and> distinct fl \<and>
     set fl = {i. i < nu \<and> sl_obj (sl ! i) = None} \<and>
     (\<forall>i < length sl. sl_gen (sl ! i) \<noteq> 0) \<and>
     (\<forall>i. nu \<le> i \<longrightarrow> i < length sl \<longrightarrow> sl ! i = empty_slot)"

definition cap_inv :: "cap_table \<Rightarrow> bool" where
  "cap_inv t \<longleftrightarrow> ct_lock t = unlocked \<and>
     (\<exists>sl fl. slots t = Some sl \<and> length sl = unat (capacity t) \<and> slots_ok sl (unat (next_unused t)) (free_head t) fl)"

text \<open>What the table means: a partial map from ids to an object with rights and flags.\<close>

definition slot_cap :: "cap_slot \<Rightarrow> u16 \<Rightarrow> (nat \<times> u32 \<times> u32) option" where
  "slot_cap sl gen = (if sl_gen sl = gen then map_option (\<lambda>o'. (o', sl_rights sl, sl_flags sl)) (sl_obj sl) else None)"

definition caps_of :: "cap_table \<Rightarrow> u32 \<rightharpoonup> nat \<times> u32 \<times> u32" where
  "caps_of t i =
     (case slots t of
        None \<Rightarrow> None
      | Some sl \<Rightarrow>
          if unat (cap_id_get_index i) < length sl
          then slot_cap (sl ! unat (cap_id_get_index i)) (cap_id_get_gen i) else None)"

lemma chain_update: "i \<notin> set fl \<Longrightarrow> chain (sl[i := v]) h fl = chain sl h fl"
  by (induction fl arbitrary: h) auto

lemma chain_extend: "chain sl h fl \<Longrightarrow> chain (sl @ xs) h fl"
  by (induction fl arbitrary: h) (auto simp: nth_append)

lemma chain_bound: "chain sl h fl \<Longrightarrow> i \<in> set fl \<Longrightarrow> i < length sl"
  by (induction fl arbitrary: h) auto

lemma chain_head: "chain sl h fl \<Longrightarrow> length sl \<le> 0xFFFF \<Longrightarrow> h = CAP_INVALID_INDEX \<longleftrightarrow> fl = []"
  by (cases fl) auto

lemma slots_okD:
  assumes "slots_ok sl nu fh fl"
  shows "length sl \<le> 0xFFFF" "nu \<le> length sl" "chain sl fh fl" "distinct fl"
    "i \<in> set fl \<longleftrightarrow> i < nu \<and> sl_obj (sl ! i) = None" "i < length sl \<Longrightarrow> sl_gen (sl ! i) \<noteq> 0"
    "nu \<le> i \<Longrightarrow> i < length sl \<Longrightarrow> sl ! i = empty_slot"
  using assms unfolding slots_ok_def by auto

lemma caps_of_update:
  assumes "slots t = Some sl" "unat idx < length sl" "slots t' = Some (sl[unat idx := v])"
  shows "caps_of t' i = (if cap_id_get_index i = idx then slot_cap v (cap_id_get_gen i) else caps_of t i)"
  using assms by (auto simp: caps_of_def nth_list_update word_eq_iff_unat)

lemma caps_of_extend:
  assumes "slots t = Some sl" "slots t' = Some (sl @ replicate n empty_slot)"
  shows "caps_of t' = caps_of t"
  using assms by (auto simp: caps_of_def nth_append slot_cap_def empty_slot_def fun_eq_iff)

lemma caps_of_cong: "slots t' = slots t \<Longrightarrow> caps_of t' = caps_of t"
  by (simp add: caps_of_def fun_eq_iff)

subsection \<open>Lookup\<close>

lemma cap_table_get_eq:
  assumes "cap_inv t"
  shows "cap_table_get i req t s =
    (case caps_of t i of
       None \<Rightarrow> Inr (None, t, s)
     | Some (o', r, f) \<Rightarrow>
         if r AND req = req then Inr (Some o', t, upd_obj o' (\<lambda>c. c\<lparr>co_refcount := co_refcount c + 1\<rparr>) s)
         else Inr (None, t, s))"
proof -
  obtain sl fl where t: "slots t = Some sl" "length sl = unat (capacity t)" "ct_lock t = unlocked"
    using assms by (auto simp: cap_inv_def)
  have c: "capacity t \<le> ucast (cap_id_get_index i) \<longleftrightarrow> \<not> unat (cap_id_get_index i) < length sl"
    by (auto simp: word_le_nat_alt t(2))
  have l: "t\<lparr>ct_lock := unlocked\<rparr> = t" using t(3) by simp
  show ?thesis using t l
    by (auto simp: cap_table_get_def caps_of_def Let_def c slot_get_def slot_cap_def cap_obj_incref_def
        split: option.splits)
qed

subsection \<open>How the slots change\<close>

text \<open>Relinking only changes \<^verbatim>\<open>next_free\<close>, which the meaning of a table does not see.\<close>

definition relinked :: "cap_slot list \<Rightarrow> cap_slot list \<Rightarrow> bool" where
  "relinked sl sl' \<longleftrightarrow> length sl' = length sl \<and>
     (\<forall>j < length sl. \<exists>n. sl' ! j = (sl ! j)\<lparr>sl_next_free := n\<rparr>)"

lemma relinked_refl [simp]: "relinked sl sl"
proof -
  have "\<exists>n. x = x\<lparr>sl_next_free := n\<rparr>" for x :: cap_slot
    by (rule exI[of _ "sl_next_free x"]) simp
  then show ?thesis by (simp add: relinked_def)
qed

lemma relinked_update:
  assumes "relinked sl sl'"
  shows "relinked sl (sl'[j := (sl' ! j)\<lparr>sl_next_free := n\<rparr>])"
  unfolding relinked_def
proof (intro conjI allI impI)
  fix k assume "k < length sl"
  then obtain m where "sl' ! k = (sl ! k)\<lparr>sl_next_free := m\<rparr>" "k < length sl'"
    using assms by (auto simp: relinked_def)
  then show "\<exists>m. sl'[j := (sl' ! j)\<lparr>sl_next_free := n\<rparr>] ! k = (sl ! k)\<lparr>sl_next_free := m\<rparr>"
    by (cases "k = j") auto
qed (use assms in \<open>simp add: relinked_def\<close>)

lemma relinkedD:
  assumes "relinked sl sl'" "j < length sl"
  shows "sl_obj (sl' ! j) = sl_obj (sl ! j)" "sl_gen (sl' ! j) = sl_gen (sl ! j)" "slot_cap (sl' ! j) g = slot_cap (sl ! j) g"
proof -
  obtain n where "sl' ! j = (sl ! j)\<lparr>sl_next_free := n\<rparr>" using assms unfolding relinked_def by blast
  then show "sl_obj (sl' ! j) = sl_obj (sl ! j)" "sl_gen (sl' ! j) = sl_gen (sl ! j)"
    "slot_cap (sl' ! j) g = slot_cap (sl ! j) g" by (simp_all add: slot_cap_def)
qed

lemma caps_of_relinked: "slots t = Some sl \<Longrightarrow> slots t' = Some sl' \<Longrightarrow> relinked sl sl' \<Longrightarrow> caps_of t' = caps_of t"
  using relinkedD(3)[of sl sl'] by (auto simp: caps_of_def fun_eq_iff relinked_def)

lemma slots_ok_free:
  assumes "slots_ok sl nu fh fl" "i < length sl" "sl_obj (sl ! i) \<noteq> None"
    and "sl_obj v = None" "sl_gen v \<noteq> 0" "sl_next_free v = fh" "unat h = i"
  shows "slots_ok (sl[i := v]) nu h (i # fl)"
proof -
  note ok = slots_okD[OF assms(1)]
  have "i \<notin> set fl" "\<not> nu \<le> i" using ok(5,7)[of i] assms(2,3) by (auto simp: empty_slot_def)
  then show ?thesis unfolding slots_ok_def using ok assms(2-7)
    by (auto simp: chain_update nth_list_update)
qed

lemma slots_ok_take:
  assumes "slots_ok sl nu fh (i # fl)" "sl_obj v \<noteq> None" "sl_gen v \<noteq> 0"
  shows "slots_ok (sl[i := v]) nu (sl_next_free (sl ! i)) fl"
proof -
  note ok = slots_okD[OF assms(1)]
  have "i < nu" "i \<notin> set fl" using ok(4) ok(5)[of i] by auto
  moreover have "set fl = {j. j < nu \<and> sl_obj (sl ! j) = None} - {i}"
    using ok(4,5) by auto
  ultimately show ?thesis unfolding slots_ok_def using ok assms(2,3)
    by (auto simp: chain_update nth_list_update)
qed

lemma slots_ok_extend_list:
  assumes "slots_ok sl nu fh fl" "length sl + n \<le> 0xFFFF"
  shows "slots_ok (sl @ replicate n empty_slot) nu fh fl"
  using assms unfolding slots_ok_def by (auto simp: chain_extend nth_append empty_slot_def)

text \<open>Using a slot past the ones in use, after threading the ones skipped into the free list.\<close>

lemma slots_ok_skip:
  assumes "slots_ok sl nu fh fl" "nu \<le> i" "i < length sl" "relinked sl sl'" "chain sl' fh' ([nu..<i] @ fl)"
    and "\<And>j. i \<le> j \<Longrightarrow> j < length sl \<Longrightarrow> sl' ! j = sl ! j" "sl_obj v \<noteq> None" "sl_gen v \<noteq> 0"
  shows "slots_ok (sl'[i := v]) (Suc i) fh' ([nu..<i] @ fl)"
proof -
  note ok = slots_okD[OF assms(1)]
  have len: "length sl' = length sl" using assms(4) by (simp add: relinked_def)
  have o: "sl_obj (sl' ! j) = sl_obj (sl ! j)" "sl_gen (sl' ! j) = sl_gen (sl ! j)" if "j < length sl" for j
    using relinkedD[OF assms(4) that] by auto
  have un: "sl_obj (sl ! j) = None" if "nu \<le> j" "j < length sl" for j
    using ok(7)[OF that] by (simp add: empty_slot_def)
  have s: "set ([nu..<i] @ fl) = {j. j < Suc i \<and> sl_obj ((sl'[i := v]) ! j) = None}"
  proof (rule set_eqI)
    fix j
    consider "j < nu" | "nu \<le> j" "j < i" | "j = i" | "i < j" by linarith
    then show "j \<in> set ([nu..<i] @ fl) \<longleftrightarrow> j \<in> {j. j < Suc i \<and> sl_obj ((sl'[i := v]) ! j) = None}"
    proof cases
      case 1
      then show ?thesis using ok(5)[of j] assms(2,3) o(1)[of j] by auto
    next
      case 2
      then show ?thesis using assms(3) o(1)[of j] un[of j] by auto
    next
      case 3
      then show ?thesis using ok(5)[of j] assms(2,3,7) len by auto
    next
      case 4
      then show ?thesis using ok(5)[of j] assms(2) by auto
    qed
  qed
  have "j < nu" if "j \<in> set fl" for j using ok(5)[of j] that by simp
  then have d: "distinct ([nu..<i] @ fl)" using ok(4) by fastforce
  have "i \<notin> set ([nu..<i] @ fl)" using ok(5)[of i] assms(2) by auto
  then have c: "chain (sl'[i := v]) fh' ([nu..<i] @ fl)" using assms(5) by (simp only: chain_update not_False_eq_True)
  have g: "\<forall>j < length (sl'[i := v]). sl_gen ((sl'[i := v]) ! j) \<noteq> 0"
    using ok(6) o(2) assms(8) len by (metis nth_list_update_eq nth_list_update_neq length_list_update)
  have e: "\<forall>j. Suc i \<le> j \<longrightarrow> j < length (sl'[i := v]) \<longrightarrow> (sl'[i := v]) ! j = empty_slot"
    using ok(7) assms(2,6) len by simp
  have "length (sl'[i := v]) \<le> 0xFFFF" "Suc i \<le> length (sl'[i := v])" using ok(1) assms(3) len by simp_all
  with c d s g e show ?thesis unfolding slots_ok_def by blast
qed

lemma free_push_loop:
  assumes "slots t = Some sl" "length sl \<le> 0xFFFF" "idx \<le> length sl" "chain sl (free_head t) fl"
    and "set fl \<inter> {k..<idx} = {}" "k \<le> idx"
  shows "\<exists>sl' fh'. for_r free_push (rev [k..<idx]) t = Inr (t\<lparr>slots := Some sl', free_head := fh'\<rparr>) \<and>
    relinked sl sl' \<and> chain sl' fh' ([k..<idx] @ fl) \<and> (\<forall>j. \<not> (k \<le> j \<and> j < idx) \<longrightarrow> sl' ! j = sl ! j)"
  using assms(6,5)
proof (induction "idx - k" arbitrary: k)
  case 0
  then show ?case using assms(1,4) by (intro exI[of _ sl] exI[of _ "free_head t"]) (cases t, auto)
next
  case (Suc d)
  then have k: "k < idx" "k < 65536" using assms(2,3) by auto
  have "set fl \<inter> {Suc k..<idx} = {}" using Suc.prems(2) by auto
  then obtain sl' fh' where IH: "for_r free_push (rev [Suc k..<idx]) t = Inr (t\<lparr>slots := Some sl', free_head := fh'\<rparr>)"
    "relinked sl sl'" "chain sl' fh' ([Suc k..<idx] @ fl)" "\<forall>j. \<not> (Suc k \<le> j \<and> j < idx) \<longrightarrow> sl' ! j = sl ! j"
    using Suc.hyps(1)[of "Suc k"] Suc.hyps(2) k by (metis Suc_leI diff_Suc_Suc Suc_diff_Suc diff_Suc_1)
  let ?v = "(sl' ! k)\<lparr>sl_next_free := fh'\<rparr>"
  have len: "length sl' = length sl" using IH(2) by (simp add: relinked_def)
  have uk: "unat (of_nat k :: u16) = k" using k(2) by (simp add: unat_of_nat)
  have "free_push k (t\<lparr>slots := Some sl', free_head := fh'\<rparr>) =
      Inr (t\<lparr>slots := Some (sl'[k := ?v]), free_head := of_nat k\<rparr>)"
    using k(1) assms(3) by (simp add: free_push_def slot_get_def slot_put_def uk len)
  moreover have "rev [k..<idx] = rev [Suc k..<idx] @ [k]" using k(1) by (simp add: upt_conv_Cons)
  moreover have "k \<notin> set ([Suc k..<idx] @ fl)" using Suc.prems(2) k(1) by auto
  then have "chain (sl'[k := ?v]) (of_nat k) ([k..<idx] @ fl)"
    using k(1) assms(3) IH(3) chain_update[of k "[Suc k..<idx] @ fl" sl' ?v fh'] by (simp add: upt_conv_Cons uk len)
  moreover have "relinked sl (sl'[k := ?v])" using IH(2) by (rule relinked_update)
  ultimately show ?case using IH(1,4) k(1)
    by (intro exI[of _ "sl'[k := ?v]"] exI[of _ "of_nat k"]) (auto simp: nth_list_update)
qed

text \<open>The walk that unlinks a free slot.\<close>

lemma free_list_loop_ok:
  assumes "slots t = Some sl" "length sl \<le> 0xFFFF" "chain sl prev (j # xs @ i # ys)" "distinct (j # xs @ i # ys)"
    and "unat idx = i"
  shows "\<exists>sl' k. free_list_loop idx prev t = Some (Inr (True, t\<lparr>slots := Some sl'\<rparr>)) \<and> k \<in> set (j # xs) \<and>
    sl' = sl[k := (sl ! k)\<lparr>sl_next_free := sl_next_free (sl ! i)\<rparr>] \<and> chain sl' prev (j # xs @ ys)"
  using assms(3,4)
proof (induction xs arbitrary: j prev)
  case Nil
  then have j: "unat prev = j" "j < length sl" "unat (sl_next_free (sl ! j)) = i" "i < length sl" "j \<noteq> i" "j \<notin> set ys"
    "chain sl (sl_next_free (sl ! i)) ys" by auto
  have e: "sl_next_free (sl ! j) = idx" "prev \<noteq> CAP_INVALID_INDEX" "idx \<noteq> CAP_INVALID_INDEX"
    using j assms(2,5) by (auto simp: word_eq_iff_unat)
  show ?case using j e assms(1,5)
    by (subst free_list_loop.simps) (auto simp: slot_get_def slot_put_def Let_def chain_update intro!: exI[of _ j])
next
  case (Cons x xs)
  then have j: "unat prev = j" "j < length sl" "unat (sl_next_free (sl ! j)) = x" "x < length sl"
    "chain sl (sl_next_free (sl ! j)) (x # xs @ i # ys)" "distinct (x # xs @ i # ys)" "j \<notin> set (x # xs @ i # ys)"
    by auto
  have e: "sl_next_free (sl ! j) \<noteq> idx" "prev \<noteq> CAP_INVALID_INDEX" "sl_next_free (sl ! j) \<noteq> CAP_INVALID_INDEX"
    using j assms(2,5) by (auto simp: word_eq_iff_unat)
  obtain sl' k where IH: "free_list_loop idx (sl_next_free (sl ! j)) t = Some (Inr (True, t\<lparr>slots := Some sl'\<rparr>))"
    "k \<in> set (x # xs)" "sl' = sl[k := (sl ! k)\<lparr>sl_next_free := sl_next_free (sl ! i)\<rparr>]"
    "chain sl' (sl_next_free (sl ! j)) (x # xs @ ys)"
    using Cons.IH[OF j(5,6)] by blast
  have "k \<noteq> j" using IH(2) j(7) by auto
  then have "chain sl' prev (j # x # xs @ ys)" using IH(3,4) j(1,2) by simp
  moreover have "free_list_loop idx prev t = Some (Inr (True, t\<lparr>slots := Some sl'\<rparr>))"
    using IH(1) j(1,2) e assms(1) by (subst free_list_loop.simps) (simp add: slot_get_def Let_def)
  moreover have "k \<in> set (j # x # xs)" using IH(2) by simp
  ultimately show ?case using IH(3) unfolding append_Cons by blast
qed

lemma slots_ok_unlink:
  assumes "slots_ok sl nu fh (xs @ i # ys)" "relinked sl sl'" "chain sl' fh' (xs @ ys)"
    and "\<And>j. nu \<le> j \<Longrightarrow> j < length sl \<Longrightarrow> sl' ! j = sl ! j" "sl_obj v \<noteq> None" "sl_gen v \<noteq> 0"
  shows "slots_ok (sl'[i := v]) nu fh' (xs @ ys)"
proof -
  note ok = slots_okD[OF assms(1)]
  have len: "length sl' = length sl" using assms(2) by (simp add: relinked_def)
  have o: "sl_obj (sl' ! j) = sl_obj (sl ! j)" "sl_gen (sl' ! j) = sl_gen (sl ! j)" if "j < length sl" for j
    using relinkedD[OF assms(2) that] by auto
  have i: "i < nu" "i \<notin> set (xs @ ys)" using ok(4) ok(5)[of i] by auto
  have s: "set (xs @ ys) = {j. j < nu \<and> sl_obj ((sl'[i := v]) ! j) = None}"
  proof (rule set_eqI)
    fix j
    show "j \<in> set (xs @ ys) \<longleftrightarrow> j \<in> {j. j < nu \<and> sl_obj ((sl'[i := v]) ! j) = None}"
    proof (cases "j = i")
      case True
      then show ?thesis using i assms(5) len ok(2) by auto
    next
      case False
      then have "j \<in> set (xs @ ys) \<longleftrightarrow> j \<in> set (xs @ i # ys)" by auto
      then show ?thesis using ok(2) ok(5)[of j] o(1)[of j] False by auto
    qed
  qed
  have c: "chain (sl'[i := v]) fh' (xs @ ys)" using assms(3) chain_update[OF i(2), of sl' v fh'] by simp
  have g: "\<forall>j < length (sl'[i := v]). sl_gen ((sl'[i := v]) ! j) \<noteq> 0"
    using ok(6) o(2) assms(6) len by (metis nth_list_update_eq nth_list_update_neq length_list_update)
  have e: "\<forall>j. nu \<le> j \<longrightarrow> j < length (sl'[i := v]) \<longrightarrow> (sl'[i := v]) ! j = empty_slot"
    using ok(7) assms(4) len i(1) by simp
  have "distinct (xs @ ys)" "length (sl'[i := v]) \<le> 0xFFFF" "nu \<le> length (sl'[i := v])"
    using ok(1,2,4) len by simp_all
  with c s g e show ?thesis unfolding slots_ok_def by blast
qed

lemma free_list_remove_ok:
  assumes "slots t = Some sl" "slots_ok sl (unat (next_unused t)) (free_head t) fl"
    and "unat idx \<in> set fl"
  shows "\<exists>sl' fh'. cap_table__free_list_remove idx t = Inr (True, t\<lparr>slots := Some sl', free_head := fh'\<rparr>) \<and>
    relinked sl sl' \<and> sl' ! unat idx = sl ! unat idx \<and>
    (\<forall>v. sl_obj v \<noteq> None \<longrightarrow> sl_gen v \<noteq> 0 \<longrightarrow> (\<exists>fl'. slots_ok (sl'[unat idx := v]) (unat (next_unused t)) fh' fl'))"
proof -
  note ok = slots_okD[OF assms(2)]
  obtain xs ys where fl: "fl = xs @ unat idx # ys" using assms(3) by (auto simp: in_set_conv_decomp)
  have idx: "unat idx < length sl" "unat idx < 65535" using chain_bound[OF ok(3) assms(3)] ok(1) by auto
  then have inv: "idx \<noteq> CAP_INVALID_INDEX" by auto
  show ?thesis
  proof (cases xs)
    case Nil
    then have h: "free_head t = idx" using ok(3) fl by (simp add: word_eq_iff_unat)
    have "cap_table__free_list_remove idx t = Inr (True, t\<lparr>slots := Some sl, free_head := sl_next_free (sl ! unat idx)\<rparr>)"
      using h idx inv assms(1) by (cases t) (simp add: cap_table__free_list_remove_def slot_get_def)
    moreover have "\<exists>fl'. slots_ok (sl[unat idx := v]) (unat (next_unused t)) (sl_next_free (sl ! unat idx)) fl'"
      if "sl_obj v \<noteq> None" "sl_gen v \<noteq> 0" for v
      using slots_ok_take[OF assms(2)[unfolded fl Nil append_Nil] that] by blast
    ultimately show ?thesis by fastforce
  next
    case (Cons j zs)
    have c: "chain sl (free_head t) (j # zs @ unat idx # ys)" "distinct (j # zs @ unat idx # ys)"
      using ok(3,4) fl Cons by auto
    have h: "free_head t \<noteq> idx" "free_head t \<noteq> CAP_INVALID_INDEX" using c ok(1) by (auto simp: word_eq_iff_unat)
    obtain sl' k where l: "free_list_loop idx (free_head t) t = Some (Inr (True, t\<lparr>slots := Some sl'\<rparr>))" "k \<in> set (j # zs)"
      "sl' = sl[k := (sl ! k)\<lparr>sl_next_free := sl_next_free (sl ! unat idx)\<rparr>]" "chain sl' (free_head t) (j # zs @ ys)"
      using free_list_loop_ok[OF assms(1) ok(1) c refl] by blast
    have k: "k < unat (next_unused t)" "k \<noteq> unat idx" using ok(5)[of k] l(2) fl Cons c(2) by auto
    have r: "relinked sl sl'" unfolding l(3) by (rule relinked_update) simp
    have "slots_ok (sl'[unat idx := v]) (unat (next_unused t)) (free_head t) ((j # zs) @ ys)"
      if "sl_obj v \<noteq> None" "sl_gen v \<noteq> 0" for v
      using assms(2) fl Cons r l(3,4) k(1) that by (intro slots_ok_unlink[of sl]) auto
    moreover have "cap_table__free_list_remove idx t = Inr (True, t\<lparr>slots := Some sl', free_head := free_head t\<rparr>)"
      using h inv l(1) by (cases t) (simp add: cap_table__free_list_remove_def ended_def)
    ultimately show ?thesis using r k(2) l(3) by fastforce
  qed
qed

end
