(* ===== verification/Cap_Ops.thy ===== *)
theory Cap_Ops
  imports Capabilities
begin

unbundle bit_operations_syntax

section \<open>The capability table as a map\<close>

text \<open>
  Every operation of \<^verbatim>\<open>kernel/src/proc/capabilities.c\<close> keeps the invariant \<open>cap_inv\<close> and acts on
  the map \<open>caps_of\<close> as a map operation: adding and setting insert under an id that was free,
  deleting removes, looking up reads. The locale \<open>cap_space\<close> is this contract; what its clients need
  is derived there once, and it is interpreted on the table.
\<close>

subsection \<open>Operations\<close>

definition heap_avail :: "'a obj_heap_scheme \<Rightarrow> bool" where
  "heap_avail s \<longleftrightarrow> (\<forall>n. malloc_obj s n (live s) \<noteq> None)"

lemma empty_slot_simps [simp]: "sl_obj empty_slot = None" "sl_gen empty_slot = 1"
  by (simp_all add: empty_slot_def)

definition incref :: "nat \<Rightarrow> 'a cap_heap_scheme \<Rightarrow> 'a cap_heap_scheme" where
  "incref o' s = upd_obj o' (\<lambda>c. c\<lparr>co_refcount := co_refcount c + 1\<rparr>) s"

lemma cap_obj_incref_eq: "cap_obj_incref (Some o') s = Inr (Some o', incref o' s)"
  by (simp add: cap_obj_incref_def incref_def)

lemma ensure_capacity_ok:
  assumes "slots t = Some sl" "length sl = unat (capacity t)" "length sl \<le> 0xFFFF" "heap_avail s"
  shows "\<exists>n c. cap_table__ensure_capacity s t = Inr (t\<lparr>slots := Some (sl @ replicate n empty_slot), capacity := c\<rparr>) \<and>
    unat c = length sl + n \<and> length sl + n \<le> 0xFFFF \<and>
    (unat (next_unused t) \<le> length sl \<longrightarrow> unat (next_unused t) < 0xFFFF \<longrightarrow> unat (next_unused t) < length sl + n)"
proof (cases "unat (next_unused t) < unat (capacity t) \<or> unat (capacity t) = 0xFFFF")
  case True
  have "t\<lparr>slots := Some (sl @ replicate 0 empty_slot), capacity := capacity t\<rparr> = t" using assms(1) by simp
  with ensure_capacity_noop[OF True, of s] True assms(2,3) show ?thesis
    by (intro exI[of _ 0] exI[of _ "capacity t"]) auto
next
  case False
  obtain t' where t': "cap_table__ensure_capacity s t = Inr t'"
    using assms(1,4) by (cases "cap_table__ensure_capacity s t")
      (auto simp: cap_table__ensure_capacity_def heap_avail_def Let_def simp del: not_None_eq split: option.splits if_splits)
  note e = ensure_capacity_eq[OF t'] False
  have c: "unat (capacity t') = (if capacity t = 0 then 1 else min 0xFFFF (2 * unat (capacity t)))"
    and l: "unat (capacity t) < 0xFFFF" using e by auto
  have g: "unat (capacity t) < unat (capacity t')" "unat (capacity t') \<le> 0xFFFF"
    using c l by (auto simp: min_def unat_gt_0)
  have "slots t' = Some (sl @ replicate (unat (capacity t') - unat (capacity t)) empty_slot)"
    "t' = t\<lparr>slots := slots t', capacity := capacity t'\<rparr>"
    using e(3,4) e(5) assms(1) by auto
  with t' g assms(2) show ?thesis
    by (intro exI[of _ "unat (capacity t') - unat (capacity t)"] exI[of _ "capacity t'"]) auto
qed

text \<open>Filling slot \<open>idx\<close> of a table whose lock is held.\<close>

lemma slot_fill_ok:
  assumes "slots t = Some sl" "unat idx < length sl"
  shows "slot_fill idx (Some o') r f t s = Inr (t\<lparr>slots := Some (sl[unat idx := (sl ! unat idx)\<lparr>sl_obj := Some o',
    sl_rights := r, sl_flags := f, sl_next_free := CAP_INVALID_INDEX\<rparr>])\<rparr>, incref o' s)"
  using assms by (simp add: slot_fill_def slot_get_def slot_put_def cap_obj_incref_eq)

lemma caps_of_fill:
  assumes "slots t = Some sl" "unat idx < length sl" "sl_obj (sl ! unat idx) = None"
    and "slots t' = Some (sl[unat idx := (sl ! unat idx)\<lparr>sl_obj := Some o',
      sl_rights := r, sl_flags := f, sl_next_free := n\<rparr>])"
  shows "caps_of t' = (caps_of t)(cap_id_make idx (sl_gen (sl ! unat idx)) \<mapsto> (o', r, f))"
    "caps_of t (cap_id_make idx g) = None"
proof -
  show "caps_of t (cap_id_make idx g) = None" using assms by (simp add: caps_of_def slot_cap_def)
  show "caps_of t' = (caps_of t)(cap_id_make idx (sl_gen (sl ! unat idx)) \<mapsto> (o', r, f))"
  proof
    fix i
    show "caps_of t' i = ((caps_of t)(cap_id_make idx (sl_gen (sl ! unat idx)) \<mapsto> (o', r, f))) i"
      using assms unfolding caps_of_update[OF assms(1,2,4)] fun_upd_apply
      by (cases "cap_id_get_index i = idx") (auto simp: slot_cap_def cap_id_eq_iff caps_of_def)
  qed
qed

definition has_room :: "cap_table \<Rightarrow> bool" where
  "has_room t \<longleftrightarrow> free_head t \<noteq> CAP_INVALID_INDEX \<or> unat (next_unused t) < 0xFFFF"

lemma cap_table_add_ok:
  assumes "cap_inv t" "has_room t" "heap_avail s"
  shows "\<exists>i t'. cap_table_add (Some o') r f t s = Inr (i, t', incref o' s) \<and> cap_inv t' \<and>
    caps_of t i = None \<and> caps_of t' = (caps_of t)(i \<mapsto> (o', r, f)) \<and>
    (\<forall>sl. slots t = Some sl \<longrightarrow> unat (cap_id_get_index i) < length sl \<longrightarrow>
      sl_gen (sl ! unat (cap_id_get_index i)) = cap_id_get_gen i)"
proof -
  obtain sl fl where t: "slots t = Some sl" "length sl = unat (capacity t)" "ct_lock t = unlocked"
    and ok: "slots_ok sl (unat (next_unused t)) (free_head t) fl"
    using assms(1) by (auto simp: cap_inv_def)
  note okD = slots_okD[OF ok]
  let ?v = "\<lambda>sl idx. (sl ! unat idx)\<lparr>sl_obj := Some o', sl_rights := r, sl_flags := f, sl_next_free := CAP_INVALID_INDEX\<rparr>"
  let ?fill = "\<lambda>sl idx. sl[unat idx := ?v sl idx]"
  show ?thesis
  proof (cases fl)
    case (Cons i fl')
    let ?h = "free_head t"
    have i: "i < length sl" "unat ?h = i" "?h \<noteq> CAP_INVALID_INDEX" "sl_obj (sl ! i) = None" "sl_gen (sl ! i) \<noteq> 0"
      using okD(3) okD(1) okD(5)[of i] okD(6)[of i] Cons by auto
    let ?t = "t\<lparr>free_head := sl_next_free (sl ! i), slots := Some (?fill sl ?h)\<rparr>"
    have "cap_table_add (Some o') r f t s = Inr (cap_id_make ?h (sl_gen (sl ! i)), ?t, incref o' s)"
      using i t by (cases t) (simp add: cap_table_add_def slot_get_def Let_def slot_fill_ok check_def)
    moreover have "slots_ok (?fill sl ?h) (unat (next_unused t)) (sl_next_free (sl ! i)) fl'"
      using slots_ok_take[OF ok[unfolded Cons], of "?v sl ?h"] i by simp
    then have "cap_inv ?t" using t by (auto simp: cap_inv_def)
    moreover have "caps_of ?t = (caps_of t)(cap_id_make ?h (sl_gen (sl ! i)) \<mapsto> (o', r, f))"
      "caps_of t (cap_id_make ?h (sl_gen (sl ! i))) = None"
      using caps_of_fill[where t = t and sl = sl and idx = ?h and t' = ?t and o' = o' and r = r and f = f] t(1) i by simp_all
    moreover have "\<forall>sl'. slots t = Some sl' \<longrightarrow> sl_gen (sl' ! unat ?h) = sl_gen (sl ! i)" using t(1) i(2) by simp
    ultimately show ?thesis by (intro exI[of _ "cap_id_make ?h (sl_gen (sl ! i))"] exI[of _ ?t]) simp
  next
    case Nil
    then have h: "free_head t = CAP_INVALID_INDEX" using okD(3) by simp
    let ?t0 = "t\<lparr>ct_lock := locked\<rparr>" and ?n = "next_unused t"
    obtain n c where e: "cap_table__ensure_capacity s ?t0 =
        Inr (?t0\<lparr>slots := Some (sl @ replicate n empty_slot), capacity := c\<rparr>)" "unat c = length sl + n"
      "length sl + n \<le> 0xFFFF" "unat ?n < length sl + n"
      using ensure_capacity_ok[of ?t0 sl s] t okD(1,2) assms(2,3) h by (auto simp: has_room_def)
    define sl' where "sl' = sl @ replicate n empty_slot"
    have ok': "slots_ok sl' (unat ?n) CAP_INVALID_INDEX []"
      unfolding sl'_def using slots_ok_extend_list[OF ok e(3)] Nil h by simp
    have s': "sl' ! unat ?n = empty_slot" "length sl' = unat c" "unat ?n < length sl'"
      using slots_okD(7)[OF ok', of "unat ?n"] e(2,4) by (auto simp: sl'_def)
    let ?t1 = "t\<lparr>slots := Some sl', capacity := c\<rparr>"
    let ?t = "?t1\<lparr>next_unused := ?n + 1, slots := Some (?fill sl' ?n)\<rparr>"
    have u: "unat (?n + 1) = Suc (unat ?n)" using e(3,4) unat_lt_u16[of ?n] by (simp add: unat_word_ariths)
    have "ucast ?n < c" using e(2,4) by (simp add: word_less_nat_alt)
    then have "cap_table_add (Some o') r f t s = Inr (cap_id_make ?n (sl_gen empty_slot), ?t, incref o' s)"
      using e(1)[folded sl'_def] s' t h by (cases t)
        (simp add: cap_table_add_def slot_get_def Let_def slot_fill_ok check_def)
    moreover have "slots_ok (?fill sl' ?n) (Suc (unat ?n)) CAP_INVALID_INDEX ([unat ?n..<unat ?n] @ [])"
      using s' by (intro slots_ok_skip[OF ok' _ _ relinked_refl]) auto
    then have "cap_inv ?t" using t s'(2) u h by (auto simp: cap_inv_def)
    moreover have "caps_of ?t1 = caps_of t" using caps_of_extend[OF t(1), of ?t1 n] by (simp add: sl'_def)
    then have "caps_of ?t = (caps_of t)(cap_id_make ?n (sl_gen empty_slot) \<mapsto> (o', r, f))"
      "caps_of t (cap_id_make ?n (sl_gen empty_slot)) = None"
      using caps_of_fill[where t = ?t1 and sl = sl' and idx = ?n and t' = ?t and o' = o' and r = r and f = f] s' by simp_all
    moreover have "\<forall>sl. slots t = Some sl \<longrightarrow> unat ?n < length sl \<longrightarrow> sl_gen (sl ! unat ?n) = sl_gen empty_slot"
      using t(1) s'(1) by (auto simp: sl'_def nth_append)
    ultimately show ?thesis by (intro exI[of _ "cap_id_make ?n (sl_gen empty_slot)"] exI[of _ ?t]) simp
  qed
qed

definition next_gen :: "u16 \<Rightarrow> u16" where
  "next_gen g = (if g + 1 = 0 then 1 else g + 1)"

lemma next_gen_nz: "next_gen g \<noteq> 0"
  by (simp add: next_gen_def)

lemma next_gen_neq: "g \<noteq> 0 \<Longrightarrow> next_gen g \<noteq> g"
proof -
  have "(1 :: u16) + 1 \<noteq> 0" "g + 1 \<noteq> g" by simp_all
  then show "next_gen g \<noteq> g" unfolding next_gen_def by (metis add.commute)
qed

text \<open>The table after a deletion; deleting what is not there changes nothing.\<close>

lemma cap_table_del_absent:
  assumes "cap_inv t" "caps_of t i = None"
  shows "cap_table_del rel i t s = Inr (t, s)"
proof -
  obtain sl where t: "slots t = Some sl" "length sl = unat (capacity t)" "ct_lock t = unlocked"
    using assms(1) by (auto simp: cap_inv_def)
  have c: "capacity t \<le> ucast (cap_id_get_index i) \<longleftrightarrow> \<not> unat (cap_id_get_index i) < length sl"
    by (auto simp: word_le_nat_alt t(2))
  have l: "t\<lparr>ct_lock := unlocked\<rparr> = t" using t(3) by simp
  show ?thesis using t l assms(2)
    by (auto simp: cap_table_del_def caps_of_def Let_def c slot_get_def slot_cap_def split: if_splits)
qed

lemma cap_table_del_ok:
  assumes "cap_inv t" "caps_of t i = Some (o', r, f)"
  shows "\<exists>t'. cap_table_del rel i t s = rbind (cap_obj_decref rel (Some o') s) (\<lambda>s. Inr (t', s)) \<and> cap_inv t' \<and>
    caps_of t' = (caps_of t)(i := None) \<and> has_room t' \<and>
    (\<exists>sl. slots t' = Some sl \<and> unat (cap_id_get_index i) < length sl \<and>
      sl_gen (sl ! unat (cap_id_get_index i)) = next_gen (cap_id_get_gen i))"
proof -
  obtain sl fl where t: "slots t = Some sl" "length sl = unat (capacity t)" "ct_lock t = unlocked"
    and ok: "slots_ok sl (unat (next_unused t)) (free_head t) fl"
    using assms(1) by (auto simp: cap_inv_def)
  define idx where "idx = cap_id_get_index i"
  have x: "unat idx < length sl" "sl_obj (sl ! unat idx) = Some o'" "sl_gen (sl ! unat idx) = cap_id_get_gen i"
    using assms(2) t(1) by (auto simp: caps_of_def slot_cap_def idx_def split: if_splits)
  have c: "\<not> capacity t \<le> ucast idx" using x(1) by (simp add: word_le_nat_alt t(2))
  define v where "v = (sl ! unat idx)\<lparr>sl_obj := None, sl_rights := 0, sl_flags := 0,
    sl_gen := next_gen (cap_id_get_gen i), sl_next_free := free_head t\<rparr>"
  let ?t = "t\<lparr>slots := Some (sl[unat idx := v]), free_head := idx\<rparr>"
  have "cap_table_del rel i t s = rbind (cap_obj_decref rel (Some o') s) (\<lambda>s. Inr (?t, s))"
    using t x c unfolding idx_def v_def next_gen_def
    by (cases t) (simp add: cap_table_del_def Let_def slot_get_def slot_put_def)
  moreover have "slots_ok (sl[unat idx := v]) (unat (next_unused t)) idx (unat idx # fl)"
    using x next_gen_nz by (intro slots_ok_free[OF ok]) (auto simp: v_def)
  then have "cap_inv ?t" using t by (auto simp: cap_inv_def)
  moreover have "caps_of ?t = (caps_of t)(i := None)"
  proof
    fix j
    show "caps_of ?t j = ((caps_of t)(i := None)) j"
      using x t(1) caps_of_update[OF t(1) x(1), of ?t v j]
      by (auto simp: slot_cap_def v_def cap_id_eq_iff[of j i] idx_def caps_of_def)
  qed
  moreover have "idx \<noteq> CAP_INVALID_INDEX" using x(1) slots_okD(1)[OF ok] by auto
  then have "has_room ?t" by (simp add: has_room_def)
  ultimately show ?thesis using x(1) by (intro exI[of _ ?t]) (auto simp: idx_def v_def)
qed

subsection \<open>Setting a chosen id\<close>

lemma set_grow_ok:
  assumes "slots t = Some sl" "length sl = unat (capacity t)" "length sl \<le> 0xFFFF" "heap_avail s"
  shows "\<exists>n c. set_grow s idx t = Inr (unat idx < length sl + n, t\<lparr>slots := Some (sl @ replicate n empty_slot), capacity := c\<rparr>) \<and>
    unat c = length sl + n \<and> length sl + n \<le> 0xFFFF"
  using assms
proof (induction s idx t arbitrary: sl rule: set_grow.induct)
  case (1 s idx t)
  have ge: "capacity t \<le> ucast idx \<longleftrightarrow> \<not> unat idx < length sl" by (auto simp: word_le_nat_alt 1(3))
  have same: "t\<lparr>slots := Some (sl @ replicate 0 empty_slot), capacity := capacity t\<rparr> = t" using 1(2) by simp
  show ?case
  proof (cases "unat idx < length sl")
    case True
    then show ?thesis using ge same 1(3,4)
      by (intro exI[of _ 0] exI[of _ "capacity t"]) (subst set_grow.simps, simp)
  next
    case False
    obtain n c where e: "cap_table__ensure_capacity s t = Inr (t\<lparr>slots := Some (sl @ replicate n empty_slot), capacity := c\<rparr>)"
      "unat c = length sl + n" "length sl + n \<le> 0xFFFF"
      using ensure_capacity_ok[OF 1(2-5)] by blast
    let ?t = "t\<lparr>slots := Some (sl @ replicate n empty_slot), capacity := c\<rparr>"
    show ?thesis
    proof (cases "n = 0")
      case True
      then have "c = capacity t" using e(2) 1(3) by (simp add: word_eq_iff_unat)
      then show ?thesis using e True False ge
        by (intro exI[of _ 0] exI[of _ c]) (subst set_grow.simps, simp)
    next
      case n: False
      then have ne: "c \<noteq> capacity t" using e(2) 1(3) by (auto simp: word_eq_iff_unat)
      obtain m d where IH: "set_grow s idx ?t = Inr (unat idx < length (sl @ replicate n empty_slot) + m,
          ?t\<lparr>slots := Some ((sl @ replicate n empty_slot) @ replicate m empty_slot), capacity := d\<rparr>)"
        "unat d = length (sl @ replicate n empty_slot) + m" "length (sl @ replicate n empty_slot) + m \<le> 0xFFFF"
        using 1(1)[OF _ e(1), of "sl @ replicate n empty_slot"] ge False ne e(2,3) 1(5) by auto
      then show ?thesis using e(1) ge False ne
        by (intro exI[of _ "n + m"] exI[of _ d]) (subst set_grow.simps, simp add: replicate_add add.assoc)
    qed
  qed
qed

text \<open>Claiming slot \<open>idx\<close>: from the free list, or past the slots in use.\<close>

lemma set_claim_ok:
  assumes "slots t = Some sl" "slots_ok sl (unat (next_unused t)) (free_head t) fl"
    and "unat idx < length sl" "sl_obj (sl ! unat idx) = None"
  shows "\<exists>sl' fh' nu'. (if idx < next_unused t then cap_table__free_list_remove idx t
      else rbind (for_r free_push (rev [unat (next_unused t)..<unat idx]) t) (\<lambda>self. Inr (True, self\<lparr>next_unused := idx + 1\<rparr>))) =
    Inr (True, t\<lparr>slots := Some sl', free_head := fh', next_unused := nu'\<rparr>) \<and> relinked sl sl' \<and>
    sl' ! unat idx = sl ! unat idx \<and>
    (\<forall>v. sl_obj v \<noteq> None \<longrightarrow> sl_gen v \<noteq> 0 \<longrightarrow> (\<exists>fl'. slots_ok (sl'[unat idx := v]) (unat nu') fh' fl'))"
proof (cases "idx < next_unused t")
  case True
  then have "unat idx \<in> set fl" using slots_okD(5)[OF assms(2)] assms(4) by (simp add: word_less_nat_alt)
  from free_list_remove_ok[OF assms(1,2) this] True show ?thesis
    by (elim exE conjE, intro exI[of _ "next_unused t"] exI conjI) (assumption | simp)+
next
  case False
  note ok = slots_okD[OF assms(2)]
  have nu: "unat (next_unused t) \<le> unat idx" using False by (simp add: word_less_nat_alt)
  have "j < unat (next_unused t)" if "j \<in> set fl" for j using ok(5)[of j] that by simp
  then have "set fl \<inter> {unat (next_unused t)..<unat idx} = {}" by fastforce
  then obtain sl' fh' where l: "for_r free_push (rev [unat (next_unused t)..<unat idx]) t =
      Inr (t\<lparr>slots := Some sl', free_head := fh'\<rparr>)" "relinked sl sl'"
    "chain sl' fh' ([unat (next_unused t)..<unat idx] @ fl)"
    "\<forall>j. \<not> (unat (next_unused t) \<le> j \<and> j < unat idx) \<longrightarrow> sl' ! j = sl ! j"
    using free_push_loop[OF assms(1) ok(1) _ ok(3) _ nu] assms(3) by auto
  have u: "unat (idx + 1) = Suc (unat idx)" using assms(3) ok(1) by (simp add: unat_word_ariths)
  have "slots_ok (sl'[unat idx := v]) (unat (idx + 1)) fh' ([unat (next_unused t)..<unat idx] @ fl)"
    if "sl_obj v \<noteq> None" "sl_gen v \<noteq> 0" for v
    unfolding u using l(2-4) nu assms(3) that by (intro slots_ok_skip[OF assms(2)]) auto
  then show ?thesis using l False
    by (intro exI[of _ sl'] exI[of _ fh'] exI[of _ "idx + 1"]) auto
qed

lemma cap_table_set_ok:
  assumes "cap_inv t" "heap_avail s"
  shows "\<exists>b t'. cap_table_set i (Some o') r f t s = Inr (b, t', if b then incref o' s else s) \<and> cap_inv t' \<and>
    (if b then caps_of t i = None \<and> caps_of t' = (caps_of t)(i \<mapsto> (o', r, f)) else caps_of t' = caps_of t)"
proof (cases "cap_id_get_index i = CAP_INVALID_INDEX \<or> cap_id_get_gen i = 0")
  case True
  then show ?thesis using assms(1) by (intro exI[of _ False] exI[of _ t]) (simp add: cap_table_set_def Let_def)
next
  case False
  obtain sl0 fl where t: "slots t = Some sl0" "length sl0 = unat (capacity t)" "ct_lock t = unlocked"
    and ok0: "slots_ok sl0 (unat (next_unused t)) (free_head t) fl"
    using assms(1) by (auto simp: cap_inv_def)
  define idx where "idx = cap_id_get_index i"
  let ?t0 = "t\<lparr>ct_lock := locked\<rparr>"
  obtain n c where g: "set_grow s idx ?t0 =
      Inr (unat idx < length sl0 + n, ?t0\<lparr>slots := Some (sl0 @ replicate n empty_slot), capacity := c\<rparr>)"
    "unat c = length sl0 + n" "length sl0 + n \<le> 0xFFFF"
    using set_grow_ok[of ?t0 sl0 s idx] t slots_okD(1)[OF ok0] assms(2) by auto
  define sl where "sl = sl0 @ replicate n empty_slot"
  let ?t1 = "?t0\<lparr>slots := Some sl, capacity := c\<rparr>" and ?t2 = "t\<lparr>slots := Some sl, capacity := c\<rparr>"
  have ok: "slots_ok sl (unat (next_unused t)) (free_head t) fl" "length sl = unat c" "unat idx < length sl0 + n \<longleftrightarrow> unat idx < length sl"
    using slots_ok_extend_list[OF ok0 g(3)] g(2) by (simp_all add: sl_def)
  have caps: "caps_of ?t2 = caps_of t" "cap_inv ?t2"
    using caps_of_extend[OF t(1), of ?t2 n] ok t(3) by (auto simp: sl_def[symmetric] cap_inv_def)
  have unlock: "?t1\<lparr>ct_lock := unlocked\<rparr> = ?t2" using t(3) by simp
  show ?thesis
  proof (cases "unat idx < length sl \<and> sl_obj (sl ! unat idx) = None \<and> sl_gen (sl ! unat idx) = cap_id_get_gen i")
    case F: False
    have "cap_table_set i (Some o') r f t s = Inr (False, ?t2, s)"
      using F False g(1)[folded sl_def] t(3) ok(3) unlock unfolding idx_def
      by (auto simp: cap_table_set_def Let_def slot_get_def check_def)
    then show ?thesis using caps by (intro exI[of _ False] exI[of _ ?t2]) simp
  next
    case T: True
    obtain sl' fh' nu' where cl: "(if idx < next_unused ?t1 then cap_table__free_list_remove idx ?t1
        else rbind (for_r free_push (rev [unat (next_unused ?t1)..<unat idx]) ?t1) (\<lambda>self. Inr (True, self\<lparr>next_unused := idx + 1\<rparr>))) =
      Inr (True, ?t1\<lparr>slots := Some sl', free_head := fh', next_unused := nu'\<rparr>)" "relinked sl sl'" "sl' ! unat idx = sl ! unat idx"
      and v: "\<And>v. sl_obj v \<noteq> None \<Longrightarrow> sl_gen v \<noteq> 0 \<Longrightarrow> \<exists>fl'. slots_ok (sl'[unat idx := v]) (unat nu') fh' fl'"
      using set_claim_ok[of ?t1 sl fl idx] ok(1) T by auto
    have len: "length sl' = length sl" using cl(2) by (simp add: relinked_def)
    let ?v = "(sl' ! unat idx)\<lparr>sl_obj := Some o', sl_rights := r, sl_flags := f, sl_next_free := CAP_INVALID_INDEX\<rparr>"
    let ?t3 = "?t2\<lparr>slots := Some sl', free_head := fh', next_unused := nu'\<rparr>"
    let ?t = "?t3\<lparr>slots := Some (sl'[unat idx := ?v])\<rparr>"
    have "cap_table_set i (Some o') r f t s = Inr (True, ?t, incref o' s)"
      using T False g(1)[folded sl_def] t(3) ok(3) cl(1) len unfolding idx_def
      by (simp add: cap_table_set_def Let_def slot_get_def check_def slot_fill_ok)
    moreover have "cap_inv ?t"
      using v[of ?v] T cl(3) False ok(2) len t(3) by (auto simp: cap_inv_def)
    moreover have i: "cap_id_make idx (sl_gen (sl' ! unat idx)) = i" using T cl(3) cap_id_split[of i] by (simp add: idx_def)
    have "caps_of ?t3 = caps_of t" using caps_of_relinked[of ?t2 sl ?t3 sl'] cl(2) caps(1) by simp
    then have "caps_of ?t = (caps_of t)(i \<mapsto> (o', r, f))"
      using caps_of_fill(1)[where t = ?t3 and sl = sl' and idx = idx and t' = ?t and o' = o' and r = r and f = f and n = CAP_INVALID_INDEX] i T cl(3) len by simp
    moreover have "caps_of t i = None"
      using caps_of_fill(2)[where t = ?t3 and sl = sl' and idx = idx and t' = ?t and o' = o' and r = r and f = f and n = CAP_INVALID_INDEX and g = "sl_gen (sl' ! unat idx)"] i T cl(3) len
        \<open>caps_of ?t3 = caps_of t\<close> by simp
    ultimately show ?thesis by (intro exI[of _ True] exI[of _ ?t]) simp
  qed
qed

subsection \<open>The contract\<close>

text \<open>
  A space of capabilities: \<open>caps\<close> is the map it stands for, \<open>view\<close> what a holder of an id who asks
  for some rights is given.
\<close>

definition view :: "(u32 \<rightharpoonup> nat \<times> u32 \<times> u32) \<Rightarrow> u32 \<Rightarrow> u32 \<Rightarrow> ref" where
  "view m i req = (case m i of None \<Rightarrow> None | Some (o', r, f) \<Rightarrow> if r AND req = req then Some o' else None)"

locale cap_space =
  fixes inv :: "'t \<Rightarrow> bool"
    and caps :: "'t \<Rightarrow> u32 \<rightharpoonup> nat \<times> u32 \<times> u32"
    and room :: "'t \<Rightarrow> 's \<Rightarrow> bool"
    and add :: "nat \<Rightarrow> u32 \<Rightarrow> u32 \<Rightarrow> 't \<Rightarrow> 's \<Rightarrow> (u32 \<times> 't \<times> 's) outcome"
    and get :: "u32 \<Rightarrow> u32 \<Rightarrow> 't \<Rightarrow> 's \<Rightarrow> (ref \<times> 't \<times> 's) outcome"
  assumes add_spec: "inv t \<Longrightarrow> room t s \<Longrightarrow> \<exists>i t' s'. add o' r f t s = Inr (i, t', s') \<and> inv t' \<and>
      caps t i = None \<and> caps t' = (caps t)(i \<mapsto> (o', r, f))"
    and get_spec: "inv t \<Longrightarrow> \<exists>s'. get i req t s = Inr (view (caps t) i req, t, s')"
begin

text \<open>What is added is found, by exactly those who ask for no more than its rights; no other id changes.\<close>

lemma get_after_add:
  assumes "inv t" "room t s"
  shows "\<exists>i t' s'. add o' r f t s = Inr (i, t', s') \<and> inv t' \<and> view (caps t) i req = None \<and>
    (\<exists>s''. get i req t' s' = Inr (if r AND req = req then Some o' else None, t', s'')) \<and>
    (\<forall>j. j \<noteq> i \<longrightarrow> (\<exists>s''. get j req t' s' = Inr (view (caps t) j req, t', s'')))"
proof -
  obtain i t' s' where a: "add o' r f t s = Inr (i, t', s')" "inv t'" "caps t i = None"
    "caps t' = (caps t)(i \<mapsto> (o', r, f))"
    using add_spec[OF assms] by blast
  have "view (caps t') i req = (if r AND req = req then Some o' else None)" using a(4) by (simp add: view_def)
  then have "\<exists>s''. get i req t' s' = Inr (if r AND req = req then Some o' else None, t', s'')"
    using get_spec[OF a(2), of i req s'] by simp
  moreover have "\<exists>s''. get j req t' s' = Inr (view (caps t) j req, t', s'')" if "j \<noteq> i" for j
    using get_spec[OF a(2), of j req s'] a(4) that by (simp add: view_def)
  moreover have "view (caps t) i req = None" using a(3) by (simp add: view_def)
  ultimately show ?thesis using a(1,2) by blast
qed

end

interpretation ct: cap_space cap_inv caps_of "\<lambda>t s. has_room t \<and> heap_avail s"
  "\<lambda>o'. cap_table_add (Some o')" cap_table_get
proof
  fix t :: cap_table and s :: "'a cap_heap_scheme" and o' r f i req
  show "cap_inv t \<Longrightarrow> has_room t \<and> heap_avail s \<Longrightarrow>
      \<exists>i t' s'. cap_table_add (Some o') r f t s = Inr (i, t', s') \<and> cap_inv t' \<and>
        caps_of t i = None \<and> caps_of t' = (caps_of t)(i \<mapsto> (o', r, f))"
    using cap_table_add_ok[of t s o' r f] by blast
  show "cap_inv t \<Longrightarrow> \<exists>s'. cap_table_get i req t s = Inr (view (caps_of t) i req, t, s')"
    using cap_table_get_eq[of t i req s] by (auto simp: view_def split: option.splits)
qed

lemma cap_table_init_ok:
  assumes "0 < n" "n \<le> 0xFFFF" "heap_avail s"
  shows "\<exists>t'. cap_table_init n t s = Inr t' \<and> cap_inv t' \<and> caps_of t' = Map.empty \<and> has_room t'"
proof -
  let ?t = "t\<lparr>slots := Some (replicate (unat n) empty_slot), capacity := n, next_unused := 0,
    free_head := CAP_INVALID_INDEX, ct_lock := unlocked\<rparr>"
  have "cap_table_init n t s = Inr ?t"
    using assms by (auto simp: cap_table_init_def heap_avail_def simp del: not_None_eq split: option.splits)
  moreover have "slots_ok (replicate (unat n) empty_slot) 0 CAP_INVALID_INDEX []"
    using assms(2) by (auto simp: slots_ok_def word_le_nat_alt)
  then have "cap_inv ?t" by (auto simp: cap_inv_def)
  moreover have "caps_of ?t = Map.empty" by (auto simp: caps_of_def slot_cap_def fun_eq_iff)
  ultimately show ?thesis by (auto simp: has_room_def)
qed

end
