(* ===== verification/Cap_Props.thy ===== *)
theory Cap_Props
  imports Cap_Ops
begin

unbundle bit_operations_syntax

section \<open>Properties of capability tables\<close>

text \<open>
  The claims about \<^verbatim>\<open>kernel/src/proc/capabilities.c\<close>: what is added is found with its rights,
  setting a chosen id refines inserting into a map, a deleted id stays dead when its slot is
  used again, and the case in which a table that could grow does not.
\<close>

definition cap_demo :: cap_table where
  "cap_demo = \<lparr>slots = Some [empty_slot], capacity = 1, next_unused = 0, free_head = CAP_INVALID_INDEX, ct_lock = unlocked\<rparr>"

definition cap_heap_demo :: cap_heap where
  "cap_heap_demo = \<lparr>wq_prev = (\<lambda>_. None), wq_next = (\<lambda>_. None), wq_waiter = (\<lambda>_. \<lparr>wake = None, udata = None\<rparr>),
     live = {4}, malloc_obj = (\<lambda>_ _. Some 5),
     cap_objs = (\<lambda>_. \<lparr>co_ops = \<lparr>op_release = None, op_read = None, op_write = None, op_invoke = None, op_map = None,
       op_ctl = None\<rparr>, co_refcount = 1, co_flags = 0\<rparr>)\<rparr>"

lemma cap_demo_ok: "cap_inv cap_demo" "has_room cap_demo" "heap_avail cap_heap_demo"
proof -
  have "slots_ok [empty_slot] 0 CAP_INVALID_INDEX []" by (auto simp: slots_ok_def)
  then show "cap_inv cap_demo" by (auto simp: cap_inv_def cap_demo_def)
qed (simp_all add: has_room_def cap_demo_def heap_avail_def cap_heap_demo_def)

text \<open>
  C11: Adding a capability to a table that has room returns an id that was not in use; a lookup of it
  gives the object exactly when the rights asked for are among the rights it was added with, and
  lookups of every other id give what they gave before.
\<close>

theorem cap_add_get_roundtrip:
  assumes "cap_inv t" "has_room t" "heap_avail s"
  shows "\<exists>i t' s'. cap_table_add (Some o') r f t s = Inr (i, t', s') \<and> cap_inv t' \<and> view (caps_of t) i req = None \<and>
    (\<exists>s''. cap_table_get i req t' s' = Inr (if r AND req = req then Some o' else None, t', s'')) \<and>
    (\<forall>j. j \<noteq> i \<longrightarrow> (\<exists>s''. cap_table_get j req t' s' = Inr (view (caps_of t) j req, t', s'')))"
  using ct.get_after_add[of t s o' r f req] assms by blast

theorem cap_add_get_roundtrip_witness:
  "\<exists>i t' s'. cap_table_add (Some 4) CAP_RIGHT_WRITE 0 cap_demo cap_heap_demo = Inr (i, t', s') \<and> cap_inv t' \<and>
    view (caps_of cap_demo) i 1 = None \<and>
    (\<exists>s''. cap_table_get i 1 t' s' = Inr (if CAP_RIGHT_WRITE AND 1 = 1 then Some 4 else None, t', s'')) \<and>
    (\<forall>j. j \<noteq> i \<longrightarrow> (\<exists>s''. cap_table_get j 1 t' s' = Inr (view (caps_of cap_demo) j 1, t', s'')))"
  by (rule cap_add_get_roundtrip[OF cap_demo_ok])

text \<open>
  C12: \<^verbatim>\<open>cap_table_set\<close> refines inserting into a map: when it returns true, the id was free, the table
  afterwards stands for the map with the capability inserted under it, and the object has one more
  reference; when it returns false, the table stands for the same map and no object changed. The
  invariant of the table holds in both cases.
\<close>

theorem cap_set_refines_map:
  assumes "cap_inv t" "heap_avail s"
  shows "\<exists>b t'. cap_table_set i (Some o') r f t s = Inr (b, t', if b then incref o' s else s) \<and> cap_inv t' \<and>
    (if b then caps_of t i = None \<and> caps_of t' = (caps_of t)(i \<mapsto> (o', r, f)) else caps_of t' = caps_of t)"
  using cap_table_set_ok[OF assms] .

theorem cap_set_refines_map_witness:
  "\<exists>b t'. cap_table_set 0x10000 (Some 4) 2 0 cap_demo cap_heap_demo = Inr (b, t', if b then incref 4 cap_heap_demo else cap_heap_demo) \<and>
    cap_inv t' \<and>
    (if b then caps_of cap_demo 0x10000 = None \<and> caps_of t' = (caps_of cap_demo)(0x10000 \<mapsto> (4, 2, 0)) else caps_of t' = caps_of cap_demo)"
  by (rule cap_set_refines_map[OF cap_demo_ok(1,3)])

text \<open>
  C13: Deleting a capability revokes its id for good: also after another capability has been added,
  in the same slot or elsewhere, the new id is a different one and looking up the deleted id gives
  nothing.
\<close>

theorem cap_del_revokes:
  assumes "cap_inv t" "caps_of t i = Some (o', r, f)" "cap_table_del rel i t s = Inr (t1, s1)"
    and "heap_avail s1" "cap_table_add (Some p) r' f' t1 s1 = Inr (j, t2, s2)"
  shows "j \<noteq> i \<and> (\<forall>req. cap_table_get i req t2 s2 = Inr (None, t2, s2))"
proof -
  obtain t1' sl where d: "cap_table_del rel i t s = rbind (cap_obj_decref rel (Some o') s) (\<lambda>s. Inr (t1', s))" "cap_inv t1'"
    "caps_of t1' = (caps_of t)(i := None)" "has_room t1'" "slots t1' = Some sl" "unat (cap_id_get_index i) < length sl"
    "sl_gen (sl ! unat (cap_id_get_index i)) = next_gen (cap_id_get_gen i)"
    using cap_table_del_ok[OF assms(1,2), of rel s] by blast
  have t1: "t1' = t1" using assms(3) unfolding d(1) by (auto simp: outcome_simps)
  have a: "cap_inv t2" "caps_of t2 = (caps_of t1)(j \<mapsto> (p, r', f'))"
    "\<forall>sl. slots t1 = Some sl \<longrightarrow> unat (cap_id_get_index j) < length sl \<longrightarrow>
      sl_gen (sl ! unat (cap_id_get_index j)) = cap_id_get_gen j"
    using cap_table_add_ok[of t1 s1 p r' f'] d(2,4) assms(4,5) t1 by auto
  have g: "cap_id_get_gen i \<noteq> 0"
    using assms(1,2) by (auto simp: cap_inv_def caps_of_def slot_cap_def slots_ok_def split: if_splits)
  have "j \<noteq> i" using a(3) d(5-7) t1 next_gen_neq[OF g] by auto
  moreover have "caps_of t2 i = None" using a(2) d(3) t1 \<open>j \<noteq> i\<close> by simp
  ultimately show ?thesis by (simp add: cap_table_get_eq[OF a(1)])
qed

definition cap_one :: cap_table where
  "cap_one = \<lparr>slots = Some [\<lparr>sl_obj = Some 4, sl_rights = 2, sl_flags = 0, sl_gen = 0xFFFF, sl_next_free = CAP_INVALID_INDEX\<rparr>],
     capacity = 1, next_unused = 1, free_head = CAP_INVALID_INDEX, ct_lock = unlocked\<rparr>"

lemma cap_one_ok: "cap_inv cap_one" "caps_of cap_one 0xFFFF0000 = Some (4, 2, 0)"
proof -
  have "slots_ok [\<lparr>sl_obj = Some 4, sl_rights = 2, sl_flags = 0, sl_gen = 0xFFFF, sl_next_free = CAP_INVALID_INDEX\<rparr>] 1 CAP_INVALID_INDEX []"
    by (auto simp: slots_ok_def)
  then show "cap_inv cap_one" by (auto simp: cap_inv_def cap_one_def)
  show "caps_of cap_one 0xFFFF0000 = Some (4, 2, 0)"
    by (simp add: caps_of_def cap_one_def slot_cap_def cap_id_get_index_def cap_id_get_gen_def drop_bit_eq_div)
qed

text \<open>The witness: a capability in its slot's last generation, deleted, and the slot used again.\<close>

theorem cap_del_revokes_witness:
  "\<exists>t1 s1 j t2 s2. cap_table_del (\<lambda>_ _ s. Inr s) 0xFFFF0000 cap_one cap_heap_demo = Inr (t1, s1) \<and>
    cap_table_add (Some 4) 2 0 t1 s1 = Inr (j, t2, s2) \<and> j \<noteq> 0xFFFF0000 \<and>
    (\<forall>req. cap_table_get 0xFFFF0000 req t2 s2 = Inr (None, t2, s2))"
proof -
  let ?s1 = "upd_obj 4 (\<lambda>o'. o'\<lparr>co_refcount := co_refcount o' - 1\<rparr>) cap_heap_demo\<lparr>live := {}\<rparr>"
  have dec: "cap_obj_decref (\<lambda>_ _ s. Inr s) (Some 4) cap_heap_demo = Inr ?s1"
    by (simp add: cap_obj_decref_def cap_heap_demo_def upd_obj_def deallocate_obj_def Let_def)
  obtain t1 where d: "cap_table_del (\<lambda>_ _ s. Inr s) 0xFFFF0000 cap_one cap_heap_demo = Inr (t1, ?s1)" "cap_inv t1" "has_room t1"
    using cap_table_del_ok[OF cap_one_ok, of "\<lambda>_ _ s. Inr s" cap_heap_demo] dec by auto
  have av: "heap_avail ?s1" by (simp add: heap_avail_def cap_heap_demo_def upd_obj_def)
  obtain j t2 s2 where a: "cap_table_add (Some 4) 2 0 t1 ?s1 = Inr (j, t2, s2)"
    using cap_table_add_ok[OF d(2,3) av] by blast
  from cap_del_revokes[OF cap_one_ok d(1) av a] d(1) a show ?thesis by blast
qed

text \<open>
  \<^verbatim>\<open>cap_table_set\<close> refuses an id past the end of the table as long as the table still has an
  unused slot, although the table could grow: the helper that grows it only does so when every
  slot is in use. The table and the objects are unchanged.
\<close>

theorem cap_set_beyond_capacity_fails:
  assumes "cap_inv t" "unat (next_unused t) < unat (capacity t)"
    and "unat (capacity t) \<le> unat (cap_id_get_index i)" "cap_id_get_gen i \<noteq> 0"
  shows "cap_table_set i (Some o') r f t s = Inr (False, t, s)"
proof -
  have u: "ct_lock t = unlocked" "t\<lparr>ct_lock := unlocked\<rparr> = t" using assms(1) by (auto simp: cap_inv_def)
  have "set_grow s (cap_id_get_index i) (t\<lparr>ct_lock := locked\<rparr>) = Inr (False, t\<lparr>ct_lock := locked\<rparr>)"
    using ensure_capacity_noop[of "t\<lparr>ct_lock := locked\<rparr>" s] assms(2,3)
    by (subst set_grow.simps) (simp add: word_le_nat_alt)
  then show ?thesis using u by (simp add: cap_table_set_def Let_def check_def)
qed

theorem cap_set_beyond_capacity_fails_witness:
  "cap_table_set 0x10001 (Some 4) 2 0 cap_demo cap_heap_demo = Inr (False, cap_demo, cap_heap_demo)"
  by (rule cap_set_beyond_capacity_fails[OF cap_demo_ok(1)])
    (simp_all add: cap_demo_def cap_id_get_index_def cap_id_get_gen_def drop_bit_eq_div)

end
