(* ===== verification/Alloc.thy ===== *)
theory Alloc
  imports Span Align
begin

section \<open>Allocators (klibc/mem/alloc.c, klibc/mem/arena.c)\<close>

text \<open>
  An \<^verbatim>\<open>allocator\<close> is a record of function pointers with a state (\<^verbatim>\<open>udata\<close>); the functions act on
  that state and on memory, and \<open>None\<close> is a NULL pointer. \<open>allocate\<close> and its companions are the checked
  wrappers of \<^verbatim>\<open>alloc.c\<close>: they assert, zero the memory they hand out, and never return NULL.

  The locale \<open>alloc_laws\<close> is the contract clients rely on: a block is disjoint from everything handed
  out before. What follows from it for the wrappers is proved once, and it is interpreted on the arena.
\<close>

subsection \<open>The wrappers\<close>

record 's allocator =
  al_allocate :: "(usize \<Rightarrow> 's \<times> memory \<Rightarrow> (uptr \<times> 's \<times> memory) outcome) option"
  al_allocate_aligned :: "(usize \<Rightarrow> usize \<Rightarrow> 's \<times> memory \<Rightarrow> (uptr \<times> 's \<times> memory) outcome) option"
  al_reallocate :: "(uptr \<Rightarrow> usize \<Rightarrow> usize \<Rightarrow> 's \<times> memory \<Rightarrow> (uptr \<times> 's \<times> memory) outcome) option"
  al_deallocate :: "(uptr \<Rightarrow> usize \<Rightarrow> 's \<times> memory \<Rightarrow> ('s \<times> memory) outcome) option"

definition fn :: "'a option \<Rightarrow> ('a \<Rightarrow> 'b outcome) \<Rightarrow> 'b outcome" where
  "fn p k = (case p of None \<Rightarrow> Inl AssertFail | Some f \<Rightarrow> k f)"

text \<open>The end of the allocating wrappers: the result is asserted and zeroed.\<close>

definition zeroed :: "usize \<Rightarrow> uptr \<times> 's \<times> memory \<Rightarrow> (uptr \<times> 's \<times> memory) outcome" where
  "zeroed sz r =
     (case r of (ptr, s, m) \<Rightarrow>
        check (ptr \<noteq> 0) (rbind (memset ptr 0 sz m) (\<lambda>(_, m). Inr (ptr, s, m))))"

definition allocate :: "('s, 'z) allocator_scheme \<Rightarrow> usize \<Rightarrow> 's \<times> memory \<Rightarrow> (uptr \<times> 's \<times> memory) outcome" where
  "allocate a sz st = fn (al_allocate a) (\<lambda>f. check (sz > 0) (rbind (f sz st) (zeroed sz)))"

definition allocate_aligned :: "('s, 'z) allocator_scheme \<Rightarrow> usize \<Rightarrow> usize \<Rightarrow> 's \<times> memory \<Rightarrow> (uptr \<times> 's \<times> memory) outcome" where
  "allocate_aligned a sz align st =
     fn (al_allocate_aligned a) (\<lambda>f.
       check (sz > 0) (check (align mod 2 = 0) (check (align \<ge> 16) (rbind (f sz align st) (zeroed sz)))))"

definition allocate_v :: "('s, 'z) allocator_scheme \<Rightarrow> usize \<Rightarrow> usize \<Rightarrow> 's \<times> memory \<Rightarrow> (uptr \<times> 's \<times> memory) outcome" where
  "allocate_v a nmemb membsz st =
     fn (al_allocate a) (\<lambda>f.
       check (nmemb > 0) (check (membsz > 0) (check (- 1 div nmemb \<ge> membsz)
       (let sz = nmemb * membsz in allocate a sz st))))"

definition reallocate :: "('s, 'z) allocator_scheme \<Rightarrow> uptr \<Rightarrow> usize \<Rightarrow> usize \<Rightarrow> 's \<times> memory \<Rightarrow> (uptr \<times> 's \<times> memory) outcome" where
  "reallocate a ptr oldsz newsz st =
     fn (al_reallocate a) (\<lambda>f.
       rbind (f ptr oldsz newsz st) (\<lambda>(newptr, s, m).
       rbind (if newptr \<noteq> 0 \<and> newsz > oldsz then memset (newptr + oldsz) 0 (newsz - oldsz) m else Inr (newptr, m)) (\<lambda>(_, m).
       Inr (newptr, s, m))))"

definition deallocate :: "('s, 'z) allocator_scheme \<Rightarrow> uptr \<Rightarrow> usize \<Rightarrow> 's \<times> memory \<Rightarrow> ('s \<times> memory) outcome" where
  "deallocate a ptr sz st = fn (al_deallocate a) (\<lambda>f. if ptr \<noteq> 0 then f ptr sz st else Inr st)"

subsection \<open>The arena\<close>

record arena =
  ar_memory :: span
  ar_offset :: usize

definition arena_init :: "span \<Rightarrow> arena \<Rightarrow> arena outcome" where
  "arena_init memory a =
     check (span_data memory \<noteq> 0 \<and> span_size memory > 0) (Inr (a\<lparr>ar_memory := memory, ar_offset := 0\<rparr>))"

definition arena_reset :: "arena \<Rightarrow> arena" where
  "arena_reset a = a\<lparr>ar_offset := 0\<rparr>"

definition arena_allocate :: "usize \<Rightarrow> arena \<times> memory \<Rightarrow> (uptr \<times> arena \<times> memory) outcome" where
  "arena_allocate sz st =
     (case st of (a, m) \<Rightarrow>
        rbind (align_size_up sz 16) (\<lambda>sz.
        check (span_size (ar_memory a) - ar_offset a \<ge> sz)
        (Inr (span_data (ar_memory a) + ar_offset a, a\<lparr>ar_offset := ar_offset a + sz\<rparr>, m))))"

definition arena_allocate_aligned :: "usize \<Rightarrow> usize \<Rightarrow> arena \<times> memory \<Rightarrow> (uptr \<times> arena \<times> memory) outcome" where
  "arena_allocate_aligned sz align st =
     (case st of (a, m) \<Rightarrow>
        check (is_alignment_valid align)
        (let current_addr = span_data (ar_memory a) + ar_offset a in
         rbind (align_ptr_up current_addr align) (\<lambda>aligned_addr.
         let padding = aligned_addr - current_addr in
         if span_size (ar_memory a) - ar_offset a < sz + padding then Inr (0, a, m)
         else Inr (aligned_addr, a\<lparr>ar_offset := ar_offset a + (padding + sz)\<rparr>, m))))"

definition arena_reallocate :: "uptr \<Rightarrow> usize \<Rightarrow> usize \<Rightarrow> arena \<times> memory \<Rightarrow> (uptr \<times> arena \<times> memory) outcome" where
  "arena_reallocate ptr oldsz newsz st =
     (if newsz = 0 then Inr (0, st)
      else
        rbind (arena_allocate newsz st) (\<lambda>(newptr, a, m).
        rbind (if ptr \<noteq> 0 then memcpy newptr ptr (if oldsz < newsz then oldsz else newsz) m else Inr (newptr, m)) (\<lambda>(_, m).
        Inr (newptr, a, m))))"

definition arena_deallocate :: "uptr \<Rightarrow> usize \<Rightarrow> arena \<times> memory \<Rightarrow> (arena \<times> memory) outcome" where
  "arena_deallocate ptr sz st = Inr st"

definition arena_allocator :: "arena allocator" where
  "arena_allocator = \<lparr>al_allocate = Some arena_allocate, al_allocate_aligned = Some arena_allocate_aligned,
     al_reallocate = Some arena_reallocate, al_deallocate = Some arena_deallocate\<rparr>"

subsection \<open>The contract\<close>

definition block :: "uptr \<Rightarrow> usize \<Rightarrow> nat set" where
  "block p sz = {unat p ..< unat p + unat sz}"

text \<open>A sequence of allocations, and the blocks it gives.\<close>

fun allocs :: "('s, 'z) allocator_scheme \<Rightarrow> usize list \<Rightarrow> 's \<times> memory \<Rightarrow> (uptr list \<times> 's \<times> memory) outcome" where
  "allocs a [] st = Inr ([], st)"
| "allocs a (sz # szs) st =
     rbind (allocate a sz st) (\<lambda>(p, st). rbind (allocs a szs st) (\<lambda>(ps, st). Inr (p # ps, st)))"

lemma zeroed_eq:
  "zeroed sz (p, s, m) =
     (if p = 0 then Inl AssertFail else Inr (p, s, \<lambda>x. if in_range p (unat sz) x then 0 else m x))"
  using memset_eq[of p 0 sz m] by (auto simp: zeroed_def fun_eq_iff)

lemma in_range_block:
  assumes "unat p + unat sz \<le> 2 ^ 64"
  shows "in_range p (unat sz) x \<longleftrightarrow> unat x \<in> block p sz"
proof (cases "p \<le> x")
  case True
  then show ?thesis using unat_sub_u64[OF True] by (auto simp: in_range_def block_def word_le_nat_alt)
next
  case False
  then have "unat (x - p) = unat x + 2 ^ 64 - unat p" by (simp add: unat_sub_if' word_le_nat_alt)
  then show ?thesis using False assms by (auto simp: in_range_def block_def word_le_nat_alt)
qed

text \<open>
  What an allocator promises. \<open>used\<close> are the addresses handed out so far: a new block is outside them,
  does not wrap around, and is in them afterwards.
\<close>

locale alloc_laws =
  fixes a :: "'s allocator"
    and f :: "usize \<Rightarrow> 's \<times> memory \<Rightarrow> (uptr \<times> 's \<times> memory) outcome"
    and inv :: "'s \<Rightarrow> bool"
    and used :: "'s \<Rightarrow> nat set"
    and ok_size :: "usize \<Rightarrow> bool"
  assumes impl: "al_allocate a = Some f"
    and fresh_block: "inv s \<Longrightarrow> sz > 0 \<Longrightarrow> ok_size sz \<Longrightarrow> f sz (s, m) = Inr (p, s', m') \<Longrightarrow>
      inv s' \<and> m' = m \<and> block p sz \<inter> used s = {} \<and> used s \<union> block p sz \<subseteq> used s' \<and>
      unat p + unat sz \<le> 2 ^ 64"
begin

lemma allocate_block:
  assumes "allocate a sz (s, m) = Inr (p, s', m')" "inv s" "ok_size sz"
  shows "inv s'" "block p sz \<inter> used s = {}" "used s \<union> block p sz \<subseteq> used s'"
    "m' = (\<lambda>x. if unat x \<in> block p sz then 0 else m x)"
proof -
  obtain p1 s1 m1 where f: "f sz (s, m) = Inr (p1, s1, m1)" and sz: "sz > 0"
    and z: "zeroed sz (p1, s1, m1) = Inr (p, s', m')"
    using assms(1) by (auto simp: allocate_def fn_def impl outcome_simps)
  have eq: "p1 = p" "s1 = s'" "m' = (\<lambda>x. if in_range p (unat sz) x then 0 else m1 x)"
    using z by (auto simp: zeroed_eq split: if_splits)
  have l: "inv s' \<and> m1 = m \<and> block p sz \<inter> used s = {} \<and> used s \<union> block p sz \<subseteq> used s' \<and> unat p + unat sz \<le> 2 ^ 64"
    using fresh_block[OF assms(2) sz assms(3) f] eq by simp
  then show "inv s'" "block p sz \<inter> used s = {}" "used s \<union> block p sz \<subseteq> used s'" by auto
  show "m' = (\<lambda>x. if unat x \<in> block p sz then 0 else m x)" using eq l by (auto simp: in_range_block fun_eq_iff)
qed

lemma allocs_blocks:
  assumes "allocs a szs (s, m) = Inr (ps, s', m')" "inv s" "\<forall>sz\<in>set szs. ok_size sz"
  shows "length ps = length szs \<and> inv s' \<and> used s \<subseteq> used s' \<and>
    (\<forall>i < length ps. block (ps ! i) (szs ! i) \<inter> used s = {} \<and> block (ps ! i) (szs ! i) \<subseteq> used s' \<and>
       (\<forall>x. unat x \<in> block (ps ! i) (szs ! i) \<longrightarrow> m' x = 0)) \<and>
    (\<forall>i j. i < j \<longrightarrow> j < length ps \<longrightarrow> block (ps ! i) (szs ! i) \<inter> block (ps ! j) (szs ! j) = {}) \<and>
    (\<forall>x. unat x \<in> used s \<longrightarrow> m' x = m x) \<and> (\<forall>x. unat x \<notin> used s' \<longrightarrow> m' x = m x)"
  using assms
proof (induction szs arbitrary: s m ps)
  case Nil
  then show ?case by simp
next
  case (Cons sz szs)
  obtain p s1 m1 ps1 where h: "allocate a sz (s, m) = Inr (p, s1, m1)"
    and t: "allocs a szs (s1, m1) = Inr (ps1, s', m')" and ps: "ps = p # ps1"
    using Cons.prems(1) by (auto simp: outcome_simps)
  note b = allocate_block[OF h Cons.prems(2)]
  have ok: "ok_size sz" "\<forall>sz\<in>set szs. ok_size sz" using Cons.prems(3) by auto
  note IH = Cons.IH[OF t b(1)[OF ok(1)] ok(2)]
  have d: "block (ps1 ! i) (szs ! i) \<inter> used s = {}" "block p sz \<inter> block (ps1 ! i) (szs ! i) = {}" if "i < length ps1" for i
    using IH b(3)[OF ok(1)] that by blast+
  have keep: "m' x = m x" if "unat x \<in> used s" for x
  proof -
    have "m1 x = m x" "unat x \<in> used s1" using b(2,3,4)[OF ok(1)] that by auto
    then show ?thesis using IH by simp
  qed
  have zero: "m' x = 0" if "unat x \<in> block p sz" for x
  proof -
    have "m1 x = 0" "unat x \<in> used s1" using b(3,4)[OF ok(1)] that by auto
    then show ?thesis using IH by simp
  qed
  have outside: "m' x = m x" if "unat x \<notin> used s'" for x
  proof -
    have "unat x \<notin> used s1" using IH that by blast
    then have "m1 x = m x" using b(3,4)[OF ok(1)] by auto
    then show ?thesis using IH that by simp
  qed
  show ?case using IH b(2,3)[OF ok(1)] d keep zero outside
    by (auto simp: ps nth_Cons less_Suc_eq_0_disj split: nat.split)
qed

end

subsection \<open>The arena keeps the contract\<close>

definition arena_inv :: "arena \<Rightarrow> bool" where
  "arena_inv a \<longleftrightarrow> span_data (ar_memory a) \<noteq> 0 \<and> ar_offset a \<le> span_size (ar_memory a) \<and>
     unat (span_data (ar_memory a)) + unat (span_size (ar_memory a)) \<le> 2 ^ 64"

definition arena_used :: "arena \<Rightarrow> nat set" where
  "arena_used a = block (span_data (ar_memory a)) (ar_offset a)"

lemma arena_allocate_eq:
  assumes "arena_inv a" "round_up (unat sz) 16 + unat (ar_offset a) \<le> unat (span_size (ar_memory a))" "sz > 0"
  shows "\<exists>n. unat n = round_up (unat sz) 16 \<and> ar_offset a + n \<le> span_size (ar_memory a) \<and>
    unat (ar_offset a + n) = unat (ar_offset a) + unat n \<and>
    unat (span_data (ar_memory a) + ar_offset a) = unat (span_data (ar_memory a)) + unat (ar_offset a) \<and>
    arena_allocate sz (a, m) = Inr (span_data (ar_memory a) + ar_offset a, a\<lparr>ar_offset := ar_offset a + n\<rparr>, m)"
proof -
  have lt: "round_up (unat sz) 16 < 2 ^ 64" using assms(2) unat_lt_u64[of "span_size (ar_memory a)"] by simp
  obtain n where n: "align_size_up sz 16 = Inr n" "unat n = round_up (unat sz) 16"
    using align_size_up_value[of 16 sz] lt by auto
  have "0 < unat n" using assms(3) round_up_bounds(1)[of 16 "unat sz"] n(2) by (simp add: word_less_nat_alt)
  then have s: "unat (ar_offset a + n) = unat (ar_offset a) + unat n"
    "unat (span_data (ar_memory a) + ar_offset a) = unat (span_data (ar_memory a)) + unat (ar_offset a)"
    using assms n(2) unat_lt_u64[of "span_size (ar_memory a)"] by (simp_all add: unat_add_u64 arena_inv_def)
  have "n \<le> span_size (ar_memory a) - ar_offset a"
    using assms(1,2) n(2) unat_sub_u64[of "ar_offset a" "span_size (ar_memory a)"] by (simp add: word_le_nat_alt arena_inv_def)
  then show ?thesis using n s assms(2) by (intro exI[of _ n]) (simp add: arena_allocate_def word_le_nat_alt)
qed

lemma arena_allocate_fits:
  assumes "arena_inv a" "unat sz \<le> 2 ^ 64 - 16" "arena_allocate sz (a, m) = Inr r"
  shows "round_up (unat sz) 16 + unat (ar_offset a) \<le> unat (span_size (ar_memory a))"
proof -
  have lt: "round_up (unat sz) 16 < 2 ^ 64" using round_up_bounds(2)[of 16 "unat sz"] round_up_least[of 16 "unat sz" "2 ^ 60 - 1"] assms(2) by simp
  obtain n where n: "align_size_up sz 16 = Inr n" "unat n = round_up (unat sz) 16"
    using align_size_up_value[of 16 sz] lt by auto
  then have "n \<le> span_size (ar_memory a) - ar_offset a" using assms(3) by (simp add: arena_allocate_def outcome_simps)
  then show ?thesis using assms(1) n(2) unat_sub_u64[of "ar_offset a" "span_size (ar_memory a)"]
    by (auto simp: word_le_nat_alt arena_inv_def)
qed

interpretation arena: alloc_laws arena_allocator arena_allocate arena_inv arena_used "\<lambda>sz. unat sz \<le> 2 ^ 64 - 16"
proof
  show "al_allocate arena_allocator = Some arena_allocate" by (simp add: arena_allocator_def)
next
  fix a a' :: arena and sz p m m'
  assume h: "arena_inv a" "sz > 0" "unat sz \<le> 2 ^ 64 - 16" "arena_allocate sz (a, m) = Inr (p, a', m')"
  note fits = arena_allocate_fits[OF h(1,3,4)]
  obtain n where n: "unat n = round_up (unat sz) 16" "ar_offset a + n \<le> span_size (ar_memory a)"
    "unat (ar_offset a + n) = unat (ar_offset a) + unat n"
    "unat p = unat (span_data (ar_memory a)) + unat (ar_offset a)" "a' = a\<lparr>ar_offset := ar_offset a + n\<rparr>" "m' = m"
    using arena_allocate_eq[OF h(1) fits h(2), of m] h(4) by auto
  have "unat sz \<le> unat n" using n(1) round_up_bounds(1)[of 16 "unat sz"] by simp
  then show "arena_inv a' \<and> m' = m \<and> block p sz \<inter> arena_used a = {} \<and> arena_used a \<union> block p sz \<subseteq> arena_used a' \<and>
      unat p + unat sz \<le> 2 ^ 64"
    using n fits h(1) by (auto simp: arena_inv_def arena_used_def block_def)
qed

text \<open>As long as the sizes, each rounded up to 16 bytes, fit in what is left, every allocation succeeds.\<close>

lemma arena_allocs_succeed:
  assumes "arena_inv a" "\<forall>sz\<in>set szs. sz > 0"
    "sum_list (map (\<lambda>sz. round_up (unat sz) 16) szs) + unat (ar_offset a) \<le> unat (span_size (ar_memory a))"
  shows "\<exists>ps a' m'. allocs arena_allocator szs (a, m) = Inr (ps, a', m') \<and> ar_memory a' = ar_memory a"
  using assms
proof (induction szs arbitrary: a m)
  case Nil
  then show ?case by simp
next
  case (Cons sz szs)
  have fit: "round_up (unat sz) 16 + unat (ar_offset a) \<le> unat (span_size (ar_memory a))" using Cons.prems(3) by simp
  obtain n where n: "unat n = round_up (unat sz) 16" "ar_offset a + n \<le> span_size (ar_memory a)"
    "unat (ar_offset a + n) = unat (ar_offset a) + unat n"
    "unat (span_data (ar_memory a) + ar_offset a) = unat (span_data (ar_memory a)) + unat (ar_offset a)"
    "arena_allocate sz (a, m) = Inr (span_data (ar_memory a) + ar_offset a, a\<lparr>ar_offset := ar_offset a + n\<rparr>, m)"
    using arena_allocate_eq[OF Cons.prems(1) fit, of m] Cons.prems(2) by auto
  let ?a = "a\<lparr>ar_offset := ar_offset a + n\<rparr>"
  have nz: "span_data (ar_memory a) + ar_offset a \<noteq> 0"
    using Cons.prems(1) n(4) by (auto simp: arena_inv_def word_eq_iff_unat)
  have "arena_inv ?a" using Cons.prems(1) n(2) by (simp add: arena_inv_def)
  moreover have "sum_list (map (\<lambda>sz. round_up (unat sz) 16) szs) + unat (ar_offset ?a) \<le> unat (span_size (ar_memory ?a))"
    using Cons.prems(3) n(1,3) by simp
  ultimately have IH: "\<exists>ps a' m'. allocs arena_allocator szs (?a, m1) = Inr (ps, a', m') \<and> ar_memory a' = ar_memory a" for m1
    using Cons.IH[of ?a m1] Cons.prems(2) by simp
  have "allocate arena_allocator sz (a, m) =
      Inr (span_data (ar_memory a) + ar_offset a, ?a,
        \<lambda>x. if in_range (span_data (ar_memory a) + ar_offset a) (unat sz) x then 0 else m x)"
    using n(5) nz Cons.prems(2) by (simp add: allocate_def fn_def arena_allocator_def zeroed_eq)
  then show ?case
    using IH[of "\<lambda>x. if in_range (span_data (ar_memory a) + ar_offset a) (unat sz) x then 0 else m x"] by auto
qed

text \<open>
  C17: A sequence of allocations from a fresh arena succeeds when the sizes, each rounded up to 16 bytes,
  fit in its memory. The blocks lie in the memory of the arena, no two of them overlap, all of them are zeroed
  at the end of the sequence, and nothing outside the memory of the arena changes.
\<close>

theorem arena_allocs_disjoint:
  assumes "arena_init mem a0 = Inr a" "unat (span_data mem) + unat (span_size mem) \<le> 2 ^ 64"
    "\<forall>sz\<in>set szs. sz > 0" "sum_list (map (\<lambda>sz. round_up (unat sz) 16) szs) \<le> unat (span_size mem)"
  shows "\<exists>ps a' m'. allocs arena_allocator szs (a, m) = Inr (ps, a', m') \<and> length ps = length szs \<and>
    (\<forall>i < length ps. block (ps ! i) (szs ! i) \<subseteq> block (span_data mem) (span_size mem) \<and>
       (\<forall>x. unat x \<in> block (ps ! i) (szs ! i) \<longrightarrow> m' x = 0)) \<and>
    (\<forall>i j. i < j \<longrightarrow> j < length ps \<longrightarrow> block (ps ! i) (szs ! i) \<inter> block (ps ! j) (szs ! j) = {}) \<and>
    (\<forall>x. unat x \<notin> block (span_data mem) (span_size mem) \<longrightarrow> m' x = m x)"
proof -
  have a: "ar_memory a = mem" "ar_offset a = 0" and inv: "arena_inv a"
    using assms(1,2) by (auto simp: arena_init_def arena_inv_def outcome_simps)
  obtain ps a' m' where r: "allocs arena_allocator szs (a, m) = Inr (ps, a', m')" "ar_memory a' = mem"
    using arena_allocs_succeed[OF inv assms(3), of m] assms(4) a by auto
  have "unat sz \<le> 2 ^ 64 - 16" if "sz \<in> set szs" for sz
  proof -
    have "round_up (unat sz) 16 < 2 ^ 64"
      using member_le_sum_list[of "round_up (unat sz) 16" "map (\<lambda>sz. round_up (unat sz) 16) szs"] that assms(4)
        unat_lt_u64[of "span_size mem"] by auto
    moreover obtain k where "round_up (unat sz) 16 = 16 * k" using dvdE[OF round_up_dvd[of 16 "unat sz"]] by metis
    ultimately show ?thesis using round_up_bounds(1)[of 16 "unat sz"] by simp
  qed
  then have l: "length ps = length szs \<and> arena_inv a' \<and> arena_used a \<subseteq> arena_used a' \<and>
    (\<forall>i < length ps. block (ps ! i) (szs ! i) \<inter> arena_used a = {} \<and> block (ps ! i) (szs ! i) \<subseteq> arena_used a' \<and>
       (\<forall>x. unat x \<in> block (ps ! i) (szs ! i) \<longrightarrow> m' x = 0)) \<and>
    (\<forall>i j. i < j \<longrightarrow> j < length ps \<longrightarrow> block (ps ! i) (szs ! i) \<inter> block (ps ! j) (szs ! j) = {}) \<and>
    (\<forall>x. unat x \<in> arena_used a \<longrightarrow> m' x = m x) \<and> (\<forall>x. unat x \<notin> arena_used a' \<longrightarrow> m' x = m x)"
    using arena.allocs_blocks[OF r(1) inv] by blast
  have "arena_used a' \<subseteq> block (span_data mem) (span_size mem)"
    using l r(2) by (auto simp: arena_inv_def arena_used_def block_def word_le_nat_alt)
  then show ?thesis using l r(1) by (intro exI[of _ ps] exI[of _ a'] exI[of _ m']) blast
qed

theorem arena_allocs_disjoint_witness:
  "\<exists>ps a' m'. allocs arena_allocator [24, 8] (\<lparr>ar_memory = \<lparr>span_data = 0x1000, span_size = 64\<rparr>, ar_offset = 0\<rparr>, \<lambda>_. 7) =
      Inr (ps, a', m') \<and> length ps = 2 \<and> block (ps ! 0) 24 \<inter> block (ps ! 1) 8 = {}"
proof -
  let ?mem = "\<lparr>span_data = 0x1000, span_size = 64\<rparr>" and ?szs = "[24, 8] :: usize list"
  have h: "arena_init ?mem \<lparr>ar_memory = span_null, ar_offset = 5\<rparr> = Inr \<lparr>ar_memory = ?mem, ar_offset = 0\<rparr>"
    "unat (span_data ?mem) + unat (span_size ?mem) \<le> 2 ^ 64" "\<forall>sz\<in>set ?szs. sz > 0"
    "sum_list (map (\<lambda>sz. round_up (unat sz) 16) ?szs) \<le> unat (span_size ?mem)"
    by (simp_all add: arena_init_def round_up_def)
  obtain ps a' m' where r: "allocs arena_allocator ?szs (\<lparr>ar_memory = ?mem, ar_offset = 0\<rparr>, \<lambda>_. 7) = Inr (ps, a', m')"
    "length ps = length ?szs"
    "\<forall>i j. i < j \<longrightarrow> j < length ps \<longrightarrow> block (ps ! i) (?szs ! i) \<inter> block (ps ! j) (?szs ! j) = {}"
    using arena_allocs_disjoint[OF h, of "\<lambda>_. 7"] by (elim exE conjE)
  have "block (ps ! 0) 24 \<inter> block (ps ! 1) 8 = {}" using r(2) r(3)[rule_format, of 0 1] by simp
  then show ?thesis using r(1,2) by (intro exI[of _ ps] exI[of _ a'] exI[of _ m'] conjI) (simp_all del: allocs.simps)
qed

end
