(* ===== verification/Timer.thy ===== *)
theory Timer
  imports Prelude
begin

section \<open>Timers (klibc/chrono/timer.c)\<close>

text \<open>
  A timer reads a clock through a function pointer. The pointer is a number (\<open>None\<close> is NULL), and the
  value the clock gives at a call is the argument \<open>now\<close> of the operations that read it.
  The claim: whatever pauses a timer has seen, the elapsed time is the time since the start less the
  time spent paused, in 64-bit arithmetic, also when the clock wraps around.
\<close>

record timer =
  get_time_ns :: "nat option"
  started_at :: u64
  paused_at :: u64
  started :: bool
  paused :: bool

definition timer_init :: "nat option \<Rightarrow> timer \<Rightarrow> timer outcome" where
  "timer_init f self =
     check (f \<noteq> None)
     (Inr (self\<lparr>get_time_ns := f, started_at := 0, paused_at := 0, started := False, paused := False\<rparr>))"

definition timer_start :: "u64 \<Rightarrow> timer \<Rightarrow> timer" where
  "timer_start now self = self\<lparr>started_at := now, paused_at := 0, started := True, paused := False\<rparr>"

definition timer_stop :: "timer \<Rightarrow> timer" where
  "timer_stop self = self\<lparr>started_at := 0, paused_at := 0, started := False, paused := False\<rparr>"

definition timer_pause :: "u64 \<Rightarrow> timer \<Rightarrow> timer outcome" where
  "timer_pause now self =
     check (started self) (check (\<not> paused self)
     (Inr (self\<lparr>paused_at := now, paused := True\<rparr>)))"

definition timer_resume :: "u64 \<Rightarrow> timer \<Rightarrow> timer outcome" where
  "timer_resume now self =
     check (started self) (check (paused self)
     (let pause_duration = now - paused_at self in
      Inr (self\<lparr>started_at := started_at self + pause_duration, paused_at := 0, paused := False\<rparr>)))"

definition timer_is_started :: "timer \<Rightarrow> bool" where
  "timer_is_started self = started self"

definition timer_is_paused :: "timer \<Rightarrow> bool" where
  "timer_is_paused self = paused self"

definition timer_elapsed_ns :: "u64 \<Rightarrow> timer \<Rightarrow> u64 outcome" where
  "timer_elapsed_ns now self =
     check (started self)
     (Inr (if paused self then paused_at self - started_at self else now - started_at self))"

text \<open>A run of pauses, each the clock at its beginning and at its end.\<close>

fun pauses :: "(u64 \<times> u64) list \<Rightarrow> timer \<Rightarrow> timer outcome" where
  "pauses [] self = Inr self"
| "pauses ((p, r) # prs) self = rbind (timer_pause p self) (\<lambda>self. rbind (timer_resume r self) (pauses prs))"

lemma pauses_eq:
  "started t \<Longrightarrow> \<not> paused t \<Longrightarrow> paused_at t = 0 \<Longrightarrow>
    pauses prs t = Inr (t\<lparr>started_at := started_at t + (\<Sum>(p, r) \<leftarrow> prs. r - p)\<rparr>)"
proof (induction prs arbitrary: t)
  case (Cons pr prs)
  obtain p r where pr: "pr = (p, r)" by (cases pr)
  have "pauses (pr # prs) t = pauses prs (t\<lparr>started_at := started_at t + (r - p), paused_at := 0, paused := False\<rparr>)"
    using Cons.prems by (simp add: pr timer_pause_def timer_resume_def Let_def)
  also have "\<dots> = Inr (t\<lparr>started_at := started_at t + (\<Sum>(p, r) \<leftarrow> pr # prs. r - p)\<rparr>)"
    using Cons.IH[of "t\<lparr>started_at := started_at t + (r - p), paused_at := 0, paused := False\<rparr>"] Cons.prems
    by (cases t) (simp add: pr add.assoc)
  finally show ?case .
qed simp

text \<open>
  A timer started at clock value \<open>t0\<close> and paused any number of times shows, at clock value \<open>now\<close>,
  the time since the start less the pauses, in 64-bit arithmetic; while it is paused it shows the
  time at which the pause began, whatever the clock says.
\<close>

theorem timer_elapsed_excludes_pauses:
  "rbind (pauses prs (timer_start t0 t)) (timer_elapsed_ns now) = Inr (now - t0 - (\<Sum>(p, r) \<leftarrow> prs. r - p)) \<and>
   rbind (pauses prs (timer_start t0 t)) (\<lambda>t. rbind (timer_pause p t) (timer_elapsed_ns now)) =
     Inr (p - t0 - (\<Sum>(p, r) \<leftarrow> prs. r - p))"
  by (subst (1 2) pauses_eq) (simp_all add: timer_start_def timer_elapsed_ns_def timer_pause_def)

end
