(* ===== verification/Task.thy ===== *)
theory Task
  imports Cap_Ops Vmm_Props Timer
begin

unbundle bit_operations_syntax

section \<open>Tasks and the process state (kernel/proc/task.h, kernel/proc/task.c)\<close>

text \<open>
  The state of the process subsystem: the heap objects with wait queue items and capability objects
  (\<open>cap_heap\<close>), extended by the machine \<open>km\<close> of the memory subsystem, the tasks, their mappings, the
  sleepers, the per-CPU data (\<^verbatim>\<open>kernel/cpu/percpu.h\<close>) and the scheduler's globals.
  \<^item> A task's wait queue item \<^verbatim>\<open>lifecycle.blocker\<close> is the item with the task's own number.
  \<^item> The union \<^verbatim>\<open>task_state\<close> is a datatype.
  \<^item> \<^verbatim>\<open>pmap\<close> is a reference to a page map object in \<open>pmaps\<close>.
  \<^item> Blocks of raw memory (stacks) come from \<^verbatim>\<open>allocate_aligned\<close> on the kernel heap; which address it
    returns is the field \<open>malloc_raw\<close> (0 is NULL). Memory is indexed by kernel virtual addresses.
  \<^item> \<open>pc_regs\<close> are the registers a context switch saves.
\<close>

subsection \<open>Data\<close>

datatype task_state = TH_TASK_STATE_NEW | TH_TASK_STATE_READY | TH_TASK_STATE_RUNNING usize
  | TH_TASK_STATE_BLOCKED | TH_TASK_STATE_ZOMBIE i32

record task_pin =
  pin_enabled :: bool
  pin_processor_id :: usize

record task_context =
  c_rsp :: u64
  c_rbp :: u64
  c_rbx :: u64
  c_r12 :: u64
  c_r13 :: u64
  c_r14 :: u64
  c_r15 :: u64
  c_rip :: u64
  c_rflags :: u64

record task_stack =
  st_base :: uptr
  st_limit :: uptr
  st_size :: usize

record task_mapping =
  tm_vaddr :: uptr
  tm_flags :: u64
  tm_page_count :: usize
  tm_prev :: ref
  tm_next :: ref

record task =
  t_id :: u32
  t_pin :: task_pin
  t_flags :: u8
  t_state :: task_state
  refcount :: usize
  t_uid :: u32
  t_gid :: u32
  capabilities :: cap_table
  t_context :: task_context
  kstack :: task_stack
  ustack :: task_stack
  pmap :: ref
  mappings :: ref
  last_processor_id :: usize
  sib_prev :: ref
  sib_next :: ref
  joiners :: waitqueue

record sleeper =
  sl_timer :: timer
  sl_duration_ns :: u64
  sl_w :: ref
  sl_prev :: ref
  sl_next :: ref

record runqueue =
  rq_lock :: spinlock
  rq_head :: ref
  rq_tail :: ref
  rq_count :: usize

record sleeperlist =
  sll_lock :: spinlock
  sll_head :: ref
  sll_tail :: ref
  sll_count :: usize

record scheduler =
  sc_uptime_ns :: u64
  sc_tasks :: runqueue
  sc_cleanup :: runqueue
  sc_sleepers :: sleeperlist
  sc_current :: ref
  sc_idle :: ref

record percpu_data =
  syscall_kernel_rsp :: u64
  processor_id :: usize
  lapic_id :: u32
  is_bootstrap :: bool
  pc_scheduler :: scheduler
  tss_rsp0 :: u64
  pc_regs :: task_context
  current_fn :: ref
  tss_ist1 :: u64

record ksys = cap_heap +
  km :: vmachine
  tasks :: "nat \<Rightarrow> task"
  pmaps :: "nat \<Rightarrow> page_map"
  maps :: "nat \<Rightarrow> task_mapping"
  sleepers :: "nat \<Rightarrow> sleeper"
  cpus :: "percpu_data list"
  scheduler_lock :: spinlock
  next_task_id :: u32
  raw_live :: "(uptr \<times> usize) set"
  malloc_raw :: "usize \<Rightarrow> usize \<Rightarrow> (uptr \<times> usize) set \<Rightarrow> uptr"

definition TH_TASK_FLAG_DETACHED :: u8 where "TH_TASK_FLAG_DETACHED = 1"
definition TH_TASK_FLAG_GUARDPAGE :: u8 where "TH_TASK_FLAG_GUARDPAGE = 2"
definition TH_TASK_FLAG_KERNEL :: u8 where "TH_TASK_FLAG_KERNEL = 4"

definition has_flag :: "u8 \<Rightarrow> u8 \<Rightarrow> bool" where
  "has_flag fl f \<longleftrightarrow> fl AND f \<noteq> 0"

definition SIZEOF_TASK :: nat where "SIZEOF_TASK = 344"
definition SIZEOF_TASK_MAPPING :: nat where "SIZEOF_TASK_MAPPING = 40"
definition SIZEOF_SLEEPER :: nat where "SIZEOF_SLEEPER = 64"
definition SIZEOF_PAGE_MAP :: nat where "SIZEOF_PAGE_MAP = 16"

subsection \<open>Access to objects and per-CPU data\<close>

definition upd_task :: "nat \<Rightarrow> (task \<Rightarrow> task) \<Rightarrow> 'a ksys_scheme \<Rightarrow> 'a ksys_scheme" where
  "upd_task t f s = s\<lparr>tasks := (tasks s)(t := f (tasks s t))\<rparr>"

lemma upd_task_simps [simp]:
  "tasks (upd_task t f s) = (tasks s)(t := f (tasks s t))" "maps (upd_task t f s) = maps s" "pmaps (upd_task t f s) = pmaps s"
  "sleepers (upd_task t f s) = sleepers s" "cpus (upd_task t f s) = cpus s" "km (upd_task t f s) = km s"
  "scheduler_lock (upd_task t f s) = scheduler_lock s" "next_task_id (upd_task t f s) = next_task_id s"
  "live (upd_task t f s) = live s" "malloc_obj (upd_task t f s) = malloc_obj s"
  "ksys.more (upd_task t f s) = ksys.more s"
  "wq_prev (upd_task t f s) = wq_prev s" "wq_next (upd_task t f s) = wq_next s" "wq_waiter (upd_task t f s) = wq_waiter s"
  "cap_objs (upd_task t f s) = cap_objs s" "raw_live (upd_task t f s) = raw_live s" "malloc_raw (upd_task t f s) = malloc_raw s"
  by (simp_all add: upd_task_def)

definition mp_get_cpu_count :: "'a ksys_scheme \<Rightarrow> usize" where
  "mp_get_cpu_count s = cpu_count (km s)"

text \<open>The per-CPU data of the running CPU, found through its segment base, and of a CPU by its number.\<close>

definition mp_get_percpu_data :: "'a ksys_scheme \<Rightarrow> (nat \<times> percpu_data) outcome" where
  "mp_get_percpu_data s =
     (if this_cpu (km s) < length (cpus s) then Inr (this_cpu (km s), cpus s ! this_cpu (km s)) else Inl OutOfBounds)"

definition mp_get_percpu_data_of :: "usize \<Rightarrow> 'a ksys_scheme \<Rightarrow> (nat \<times> percpu_data) outcome" where
  "mp_get_percpu_data_of pid s =
     check (pid < mp_get_cpu_count s)
     (if unat pid < length (cpus s) then Inr (unat pid, cpus s ! unat pid) else Inl OutOfBounds)"

definition upd_cpu :: "nat \<Rightarrow> (percpu_data \<Rightarrow> percpu_data) \<Rightarrow> 'a ksys_scheme \<Rightarrow> 'a ksys_scheme" where
  "upd_cpu i f s = s\<lparr>cpus := (cpus s)[i := f (cpus s ! i)]\<rparr>"

definition upd_sched :: "nat \<Rightarrow> (scheduler \<Rightarrow> scheduler) \<Rightarrow> 'a ksys_scheme \<Rightarrow> 'a ksys_scheme" where
  "upd_sched i f = upd_cpu i (\<lambda>c. c\<lparr>pc_scheduler := f (pc_scheduler c)\<rparr>)"

lemma upd_cpu_simps [simp]:
  "tasks (upd_cpu i g s) = tasks s" "maps (upd_cpu i g s) = maps s" "pmaps (upd_cpu i g s) = pmaps s" "km (upd_cpu i g s) = km s"
  "sleepers (upd_cpu i g s) = sleepers s" "length (cpus (upd_cpu i g s)) = length (cpus s)"
  "i < length (cpus s) \<Longrightarrow> cpus (upd_cpu i g s) ! i = g (cpus s ! i)"
  "j \<noteq> i \<Longrightarrow> cpus (upd_cpu i g s) ! j = cpus s ! j"
  "live (upd_cpu i g s) = live s" "malloc_obj (upd_cpu i g s) = malloc_obj s"
  "ksys.more (upd_cpu i g s) = ksys.more s" "scheduler_lock (upd_cpu i g s) = scheduler_lock s" "next_task_id (upd_cpu i g s) = next_task_id s"
  "wq_prev (upd_cpu i g s) = wq_prev s" "wq_next (upd_cpu i g s) = wq_next s" "wq_waiter (upd_cpu i g s) = wq_waiter s"
  by (simp_all add: upd_cpu_def)

definition uptime_ns :: "'a ksys_scheme \<Rightarrow> u64 outcome" where
  "uptime_ns s = rbind (mp_get_percpu_data s) (\<lambda>(i, cpu). Inr (sc_uptime_ns (pc_scheduler cpu)))"

text \<open>Following a task pointer.\<close>

definition the_task :: "ref \<Rightarrow> nat outcome" where
  "the_task t = (case t of None \<Rightarrow> Inl NullDeref | Some i \<Rightarrow> Inr i)"

lemma the_task_simps [simp]: "the_task None = Inl NullDeref" "the_task (Some i) = Inr i"
  by (simp_all add: the_task_def)

text \<open>A step of the memory subsystem.\<close>

definition with_km :: "(vmachine \<Rightarrow> ('b \<times> vmachine) outcome) \<Rightarrow> 'a ksys_scheme \<Rightarrow> ('b \<times> 'a ksys_scheme) outcome" where
  "with_km f s = rbind (f (km s)) (\<lambda>(r, m). Inr (r, s\<lparr>km := m\<rparr>))"

definition on_km :: "(vmachine \<Rightarrow> vmachine outcome) \<Rightarrow> 'a ksys_scheme \<Rightarrow> ('a ksys_scheme) outcome" where
  "on_km f s = rbind (f (km s)) (\<lambda>m. Inr (s\<lparr>km := m\<rparr>))"

subsection \<open>Lifecycle\<close>

definition task_set_ready :: "ref \<Rightarrow> 'a ksys_scheme \<Rightarrow> ('a ksys_scheme) outcome" where
  "task_set_ready self s =
     (case self of None \<Rightarrow> Inl AssertFail | Some t \<Rightarrow> Inr (upd_task t (\<lambda>k. k\<lparr>t_state := TH_TASK_STATE_READY\<rparr>) s))"

definition task_set_running :: "ref \<Rightarrow> usize \<Rightarrow> 'a ksys_scheme \<Rightarrow> ('a ksys_scheme) outcome" where
  "task_set_running self cpu s =
     (case self of
        None \<Rightarrow> Inl AssertFail
      | Some t \<Rightarrow> Inr (upd_task t (\<lambda>k. k\<lparr>t_state := TH_TASK_STATE_RUNNING cpu, last_processor_id := cpu\<rparr>) s))"

definition task_set_blocked :: "ref \<Rightarrow> 'a ksys_scheme \<Rightarrow> ('a ksys_scheme) outcome" where
  "task_set_blocked self s =
     (case self of None \<Rightarrow> Inl AssertFail | Some t \<Rightarrow> Inr (upd_task t (\<lambda>k. k\<lparr>t_state := TH_TASK_STATE_BLOCKED\<rparr>) s))"

definition task_set_zombie :: "ref \<Rightarrow> i32 \<Rightarrow> 'a ksys_scheme \<Rightarrow> ('a ksys_scheme) outcome" where
  "task_set_zombie self code s =
     (case self of None \<Rightarrow> Inl AssertFail | Some t \<Rightarrow> Inr (upd_task t (\<lambda>k. k\<lparr>t_state := TH_TASK_STATE_ZOMBIE code\<rparr>) s))"

subsection \<open>Reference counts\<close>

text \<open>
  The counter is written before the assertion looks at its old value. The compare-and-exchange loop of
  \<^verbatim>\<open>task_try_acquire\<close> is run by one CPU at a time here, so it succeeds at its first turn.
\<close>

definition task_acquire :: "ref \<Rightarrow> 'a ksys_scheme \<Rightarrow> ('a ksys_scheme) outcome" where
  "task_acquire self s =
     (case self of
        None \<Rightarrow> Inl AssertFail
      | Some t \<Rightarrow>
          let prev = refcount (tasks s t); s = upd_task t (\<lambda>k. k\<lparr>refcount := refcount k + 1\<rparr>) s in
          check (prev \<noteq> 0) (Inr s))"

definition task_try_acquire :: "ref \<Rightarrow> 'a ksys_scheme \<Rightarrow> (bool \<times> 'a ksys_scheme) outcome" where
  "task_try_acquire self s =
     (case self of
        None \<Rightarrow> Inl AssertFail
      | Some t \<Rightarrow>
          if refcount (tasks s t) \<noteq> 0 then Inr (True, upd_task t (\<lambda>k. k\<lparr>refcount := refcount k + 1\<rparr>) s)
          else Inr (False, s))"

definition task_release :: "ref \<Rightarrow> 'a ksys_scheme \<Rightarrow> (bool \<times> 'a ksys_scheme) outcome" where
  "task_release self s =
     (case self of
        None \<Rightarrow> Inl AssertFail
      | Some t \<Rightarrow>
          let prev = refcount (tasks s t); s = upd_task t (\<lambda>k. k\<lparr>refcount := refcount k - 1\<rparr>) s in
          check (prev \<noteq> 0) (Inr (prev = 1, s)))"

subsection \<open>A concrete state\<close>

text \<open>One CPU with empty queues, running its idle task 0, over the machine \<open>vm_demo\<close>.\<close>

definition rq_empty :: runqueue where
  "rq_empty = \<lparr>rq_lock = unlocked, rq_head = None, rq_tail = None, rq_count = 0\<rparr>"

definition context_zero :: task_context where
  "context_zero = \<lparr>c_rsp = 0, c_rbp = 0, c_rbx = 0, c_r12 = 0, c_r13 = 0, c_r14 = 0, c_r15 = 0, c_rip = 0, c_rflags = 0\<rparr>"

definition task_demo :: task where
  "task_demo = \<lparr>t_id = 1, t_pin = \<lparr>pin_enabled = False, pin_processor_id = 0\<rparr>, t_flags = TH_TASK_FLAG_KERNEL,
     t_state = TH_TASK_STATE_READY, refcount = 1, t_uid = 0, t_gid = 0,
     capabilities = \<lparr>slots = Some [empty_slot], capacity = 1, next_unused = 0, free_head = CAP_INVALID_INDEX, ct_lock = unlocked\<rparr>,
     t_context = context_zero, kstack = \<lparr>st_base = 0x40000000, st_limit = 0x40000000, st_size = 0x4000\<rparr>,
     ustack = \<lparr>st_base = 0, st_limit = 0, st_size = 0\<rparr>,
     pmap = Some 0, mappings = None, last_processor_id = 0,
     sib_prev = None, sib_next = None, joiners = \<lparr>wq_lock = unlocked, wq_head = None, wq_tail = None\<rparr>\<rparr>"

definition percpu_demo :: percpu_data where
  "percpu_demo = \<lparr>syscall_kernel_rsp = 0, processor_id = 0, lapic_id = 0, is_bootstrap = True,
     pc_scheduler = \<lparr>sc_uptime_ns = 100, sc_tasks = rq_empty, sc_cleanup = rq_empty,
       sc_sleepers = \<lparr>sll_lock = unlocked, sll_head = None, sll_tail = None, sll_count = 0\<rparr>,
       sc_current = Some 0, sc_idle = Some 0\<rparr>,
     tss_rsp0 = 0, pc_regs = context_zero, current_fn = None, tss_ist1 = 0\<rparr>"

definition ksys_demo :: ksys where
  "ksys_demo = \<lparr>wq_prev = (\<lambda>_. None), wq_next = (\<lambda>_. None), wq_waiter = (\<lambda>_. \<lparr>wake = None, udata = None\<rparr>),
     live = {0}, malloc_obj = (\<lambda>_ U. if U = {0} then Some 1 else if U = {0, 1} then Some 2 else None),
     cap_objs = (\<lambda>_. \<lparr>co_ops = \<lparr>op_release = None, op_read = None, op_write = None, op_invoke = None, op_map = None,
       op_ctl = None\<rparr>, co_refcount = 1, co_flags = 0\<rparr>),
     km = vm_demo, tasks = (\<lambda>_. task_demo),
     pmaps = (\<lambda>_. \<lparr>pm_level = PML4, pm_directory = 268443648\<rparr>),
     maps = (\<lambda>_. \<lparr>tm_vaddr = 0, tm_flags = 0, tm_page_count = 0, tm_prev = None, tm_next = None\<rparr>),
     sleepers = (\<lambda>_. \<lparr>sl_timer = \<lparr>get_time_ns = Some 1, started_at = 0, paused_at = 0, started = True, paused = False\<rparr>,
       sl_duration_ns = 0, sl_w = None, sl_prev = None, sl_next = None\<rparr>),
     cpus = [percpu_demo], scheduler_lock = unlocked, next_task_id = 2,
     raw_live = {}, malloc_raw = (\<lambda>_ _ _. 0x40000000)\<rparr>"

end
