(* ===== verification/RunQueue.thy ===== *)
theory RunQueue
  imports Task
begin

section \<open>Run queues (kernel/proc/scheduler/runqueue.c)\<close>

text \<open>
  A run queue links tasks through \<^verbatim>\<open>scheduling.siblings\<close> and counts them. \<open>rq_holds q s ts\<close>: the queue
  is unlocked, its links are the tasks \<open>ts\<close> in this order and the counter is their number. The queue
  is an interpretation of the contract \<open>fifo\<close>.
\<close>

subsection \<open>Definitions\<close>

definition runqueue_init :: "runqueue \<Rightarrow> runqueue" where
  "runqueue_init self =
     self\<lparr>rq_lock := spinlock_init (rq_lock self), rq_head := None, rq_tail := None, rq_count := 0\<rparr>"

definition set_prev :: "nat \<Rightarrow> ref \<Rightarrow> 'a ksys_scheme \<Rightarrow> 'a ksys_scheme" where
  "set_prev t p = upd_task t (\<lambda>k. k\<lparr>sib_prev := p\<rparr>)"

definition set_next :: "nat \<Rightarrow> ref \<Rightarrow> 'a ksys_scheme \<Rightarrow> 'a ksys_scheme" where
  "set_next t n = upd_task t (\<lambda>k. k\<lparr>sib_next := n\<rparr>)"

definition runqueue_enqueue :: "ref \<Rightarrow> runqueue \<Rightarrow> 'a ksys_scheme \<Rightarrow> (runqueue \<times> 'a ksys_scheme) outcome" where
  "runqueue_enqueue t self s =
     (case t of
        None \<Rightarrow> Inl AssertFail
      | Some i \<Rightarrow>
          rbind (spinlock_acquire (rq_lock self)) (\<lambda>l.
          let self = self\<lparr>rq_lock := l\<rparr>;
              s = set_prev i (rq_tail self) s;
              s = set_next i None s;
              s = (case rq_tail self of Some e \<Rightarrow> set_next e t s | None \<Rightarrow> s);
              self = self\<lparr>rq_tail := t\<rparr>;
              self = (if rq_head self = None then self\<lparr>rq_head := t\<rparr> else self);
              self = self\<lparr>rq_count := rq_count self + 1\<rparr> in
          Inr (self\<lparr>rq_lock := spinlock_release (rq_lock self)\<rparr>, s)))"

definition runqueue_dequeue :: "runqueue \<Rightarrow> 'a ksys_scheme \<Rightarrow> (ref \<times> runqueue \<times> 'a ksys_scheme) outcome" where
  "runqueue_dequeue self s =
     rbind (spinlock_acquire (rq_lock self)) (\<lambda>l.
     let self = self\<lparr>rq_lock := l\<rparr>; t = rq_head self;
         (self, s) = (case t of
             None \<Rightarrow> (self, s)
           | Some i \<Rightarrow>
               let self = self\<lparr>rq_head := sib_next (tasks s i)\<rparr>;
                   (self, s) = (case rq_head self of
                       Some h \<Rightarrow> (self, set_prev h None s)
                     | None \<Rightarrow> (self\<lparr>rq_tail := None\<rparr>, s));
                   s = set_prev i None s;
                   s = set_next i None s in
               (self\<lparr>rq_count := rq_count self - 1\<rparr>, s)) in
     Inr (t, self\<lparr>rq_lock := spinlock_release (rq_lock self)\<rparr>, s))"

definition runqueue_remove :: "ref \<Rightarrow> runqueue \<Rightarrow> 'a ksys_scheme \<Rightarrow> (runqueue \<times> 'a ksys_scheme) outcome" where
  "runqueue_remove t self s =
     (case t of
        None \<Rightarrow> Inl AssertFail
      | Some i \<Rightarrow>
          rbind (spinlock_acquire (rq_lock self)) (\<lambda>l.
          let self = self\<lparr>rq_lock := l\<rparr>;
              (self, s) = (case sib_prev (tasks s i) of
                  Some p \<Rightarrow> (self, set_next p (sib_next (tasks s i)) s)
                | None \<Rightarrow> (self\<lparr>rq_head := sib_next (tasks s i)\<rparr>, s));
              (self, s) = (case sib_next (tasks s i) of
                  Some n \<Rightarrow> (self, set_prev n (sib_prev (tasks s i)) s)
                | None \<Rightarrow> (self\<lparr>rq_tail := sib_prev (tasks s i)\<rparr>, s));
              s = set_prev i None s;
              s = set_next i None s;
              self = self\<lparr>rq_count := rq_count self - 1\<rparr> in
          Inr (self\<lparr>rq_lock := spinlock_release (rq_lock self)\<rparr>, s)))"

definition runqueue_is_empty :: "runqueue \<Rightarrow> (bool \<times> runqueue) outcome" where
  "runqueue_is_empty self =
     rbind (spinlock_acquire (rq_lock self)) (\<lambda>l.
     let self = self\<lparr>rq_lock := l\<rparr>; is_empty = (rq_count self = 0) in
     Inr (is_empty, self\<lparr>rq_lock := spinlock_release (rq_lock self)\<rparr>))"

text \<open>The search follows the links: the first task with the id, or none.\<close>

partial_function (option) find_loop :: "u32 \<Rightarrow> ref \<Rightarrow> 'a ksys_scheme \<Rightarrow> ref option" where
  "find_loop tid iter s =
     (case iter of
        None \<Rightarrow> Some None
      | Some i \<Rightarrow> if t_id (tasks s i) = tid then Some (Some i) else find_loop tid (sib_next (tasks s i)) s)"

definition runqueue_find_by_id :: "u32 \<Rightarrow> runqueue \<Rightarrow> 'a ksys_scheme \<Rightarrow> (ref \<times> runqueue \<times> 'a ksys_scheme) outcome" where
  "runqueue_find_by_id tid self s =
     rbind (spinlock_acquire (rq_lock self)) (\<lambda>l.
     let self = self\<lparr>rq_lock := l\<rparr> in
     rbind (ended (map_option Inr (find_loop tid (rq_head self) s))) (\<lambda>r.
     rbind (if r \<noteq> None then task_acquire r s else Inr s) (\<lambda>s.
     Inr (r, self\<lparr>rq_lock := spinlock_release (rq_lock self)\<rparr>, s))))"

subsection \<open>What a run queue holds\<close>

definition rq_holds :: "runqueue \<Rightarrow> 'a ksys_scheme \<Rightarrow> nat list \<Rightarrow> bool" where
  "rq_holds q s ts \<longleftrightarrow> rq_lock q = unlocked \<and> rq_count q = of_nat (length ts) \<and>
     dll (\<lambda>t. sib_prev (tasks s t)) (\<lambda>t. sib_next (tasks s t)) (rq_head q) (rq_tail q) ts"

lemma set_link_simps [simp]:
  "tasks (set_prev t p s) = (tasks s)(t := (tasks s t)\<lparr>sib_prev := p\<rparr>)"
  "tasks (set_next t p s) = (tasks s)(t := (tasks s t)\<lparr>sib_next := p\<rparr>)"
  "maps (set_prev t p s) = maps s" "maps (set_next t p s) = maps s"
  "cpus (set_prev t p s) = cpus s" "cpus (set_next t p s) = cpus s"
  "km (set_prev t p s) = km s" "km (set_next t p s) = km s"
  "sleepers (set_prev t p s) = sleepers s" "sleepers (set_next t p s) = sleepers s"
  "live (set_prev t p s) = live s" "live (set_next t p s) = live s"
  "wq_prev (set_prev t p s) = wq_prev s" "wq_prev (set_next t p s) = wq_prev s"
  "wq_next (set_prev t p s) = wq_next s" "wq_next (set_next t p s) = wq_next s"
  "wq_waiter (set_prev t p s) = wq_waiter s" "wq_waiter (set_next t p s) = wq_waiter s"
  by (simp_all add: set_prev_def set_next_def)

text \<open>Queue operations change nothing but the links.\<close>

definition unlinked :: "task \<Rightarrow> task" where
  "unlinked k = k\<lparr>sib_prev := None, sib_next := None\<rparr>"

definition base :: "'a ksys_scheme \<Rightarrow> 'a ksys_scheme" where
  "base s = s\<lparr>tasks := unlinked \<circ> tasks s\<rparr>"

lemma base_set [simp]: "base (set_prev t p s) = base s" "base (set_next t p s) = base s"
  by (simp_all add: base_def set_prev_def set_next_def upd_task_def unlinked_def fun_eq_iff)

text \<open>The state is its part without links and the links.\<close>

lemma task_eq_unlinked: "k = (unlinked k)\<lparr>sib_prev := sib_prev k, sib_next := sib_next k\<rparr>"
  by (simp add: unlinked_def)

lemma base_eqD:
  assumes "base s' = base s"
  shows "cpus s' = cpus s" "km s' = km s" "maps s' = maps s" "live s' = live s" "wq_prev s' = wq_prev s"
    "wq_next s' = wq_next s" "wq_waiter s' = wq_waiter s" "sleepers s' = sleepers s" "unlinked (tasks s' t) = unlinked (tasks s t)"
proof -
  note e = arg_cong[OF assms]
  show "cpus s' = cpus s" "km s' = km s" "maps s' = maps s" "live s' = live s" "wq_prev s' = wq_prev s"
    "wq_next s' = wq_next s" "wq_waiter s' = wq_waiter s" "sleepers s' = sleepers s"
    using e[of cpus] e[of km] e[of maps] e[of live] e[of wq_prev] e[of wq_next] e[of wq_waiter] e[of sleepers]
    by (simp_all add: base_def)
  show "unlinked (tasks s' t) = unlinked (tasks s t)" using e[of "\<lambda>s. tasks s t"] by (simp add: base_def)
qed

lemma unlinked_eqD:
  assumes "unlinked k = unlinked k'"
  shows "t_id k = t_id k'" "t_state k = t_state k'" "refcount k = refcount k'" "t_pin k = t_pin k'"
    "last_processor_id k = last_processor_id k'" "joiners k = joiners k'" "t_flags k = t_flags k'" "pmap k = pmap k'" "kstack k = kstack k'"
  using arg_cong[OF assms, of t_id] arg_cong[OF assms, of t_state] arg_cong[OF assms, of refcount]
    arg_cong[OF assms, of t_pin] arg_cong[OF assms, of last_processor_id] arg_cong[OF assms, of joiners]
    arg_cong[OF assms, of t_flags] arg_cong[OF assms, of pmap] arg_cong[OF assms, of kstack]
  by (simp_all add: unlinked_def)

lemma runqueue_init_holds: "rq_holds (runqueue_init q) s []"
  by (simp add: rq_holds_def runqueue_init_def)

lemma runqueue_enqueue_holds:
  assumes "rq_holds q s ts" "t \<notin> set ts"
  shows "\<exists>q' s'. runqueue_enqueue (Some t) q s = Inr (q', s') \<and> rq_holds q' s' (ts @ [t]) \<and> base s' = base s \<and>
    (\<forall>u. u \<noteq> t \<longrightarrow> u \<notin> set ts \<longrightarrow> tasks s' u = tasks s u)"
proof -
  have d: "dll (\<lambda>t. sib_prev (tasks s t)) (\<lambda>t. sib_next (tasks s t)) (rq_head q) (rq_tail q) ts"
    "rq_lock q = unlocked" "rq_count q = of_nat (length ts)"
    using assms(1) by (auto simp: rq_holds_def)
  let ?s = "(case rq_tail q of Some e \<Rightarrow> set_next e (Some t) (set_next t None (set_prev t (rq_tail q) s))
    | None \<Rightarrow> set_next t None (set_prev t (rq_tail q) s))"
  let ?q = "q\<lparr>rq_tail := Some t, rq_head := if rq_head q = None then Some t else rq_head q, rq_count := rq_count q + 1\<rparr>"
  have e: "rq_tail q = Some e \<Longrightarrow> e \<in> set ts" for e using d(1) last_of_set[of ts e] by (simp add: dll_def)
  have "runqueue_enqueue (Some t) q s = Inr (?q, ?s)"
    using d(2) by (cases q; cases "rq_tail q") (auto simp: runqueue_enqueue_def Let_def)
  moreover have "dll (\<lambda>t. sib_prev (tasks ?s t)) (\<lambda>t. sib_next (tasks ?s t)) (rq_head ?q) (Some t) (ts @ [t])"
    using assms(2) e by (intro dll_push_back[OF d(1)]) (auto split: option.splits)
  then have "rq_holds ?q ?s (ts @ [t])" using d(2,3) by (simp add: rq_holds_def)
  moreover have "base ?s = base s" by (simp split: option.splits)
  moreover have "tasks ?s u = tasks s u" if "u \<noteq> t" "u \<notin> set ts" for u
    using that e by (auto split: option.splits)
  ultimately show ?thesis by blast
qed

lemma runqueue_dequeue_empty: "rq_holds q s [] \<Longrightarrow> runqueue_dequeue q s = Inr (None, q, s)"
  by (cases q) (auto simp: runqueue_dequeue_def rq_holds_def Let_def)

lemma runqueue_dequeue_holds:
  assumes "rq_holds q s (t # ts)"
  shows "\<exists>q' s'. runqueue_dequeue q s = Inr (Some t, q', s') \<and> rq_holds q' s' ts \<and> base s' = base s \<and>
    sib_prev (tasks s' t) = None \<and> sib_next (tasks s' t) = None \<and> (\<forall>u. u \<notin> set (t # ts) \<longrightarrow> tasks s' u = tasks s u)"
proof -
  have d: "dll (\<lambda>t. sib_prev (tasks s t)) (\<lambda>t. sib_next (tasks s t)) (rq_head q) (rq_tail q) (t # ts)"
    "rq_lock q = unlocked" "rq_count q = of_nat (length (t # ts))"
    using assms by (auto simp: rq_holds_def)
  then have h: "rq_head q = Some t" "t \<notin> set ts" by (auto simp: dll_def)
  let ?n = "sib_next (tasks s t)"
  have n: "?n = Some y \<Longrightarrow> y \<in> set ts" for y using dll_links_in(2)[OF d(1), of t y] by auto
  let ?s0 = "(case ?n of Some h \<Rightarrow> set_prev h None s | None \<Rightarrow> s)"
  let ?s = "set_next t None (set_prev t None ?s0)"
  let ?q = "q\<lparr>rq_head := ?n, rq_tail := if ?n = None then None else rq_tail q, rq_count := rq_count q - 1\<rparr>"
  have "runqueue_dequeue q s = Inr (Some t, ?q, ?s)"
    using d(2) h(1) by (cases q; cases ?n) (auto simp: runqueue_dequeue_def Let_def)
  moreover have "dll (\<lambda>t. sib_prev (tasks ?s t)) (\<lambda>t. sib_next (tasks ?s t)) ?n (rq_tail ?q) ts"
    using h(2) n by (intro dll_pop_front[OF d(1)]) (auto split: option.splits)
  then have "rq_holds ?q ?s ts" using d(2,3) by (simp add: rq_holds_def)
  moreover have "base ?s = base s" by (simp split: option.splits)
  moreover have "tasks ?s u = tasks s u" if "u \<notin> set (t # ts)" for u
    using that n by (auto split: option.splits)
  moreover have "sib_prev (tasks ?s t) = None" "sib_next (tasks ?s t) = None" by simp_all
  ultimately show ?thesis by blast
qed

interpretation rq: fifo rq_holds "\<lambda>t s. True" "\<lambda>t. runqueue_enqueue (Some t)" runqueue_dequeue
proof
  fix q :: runqueue and s :: "'a ksys_scheme" and xs x
  show "rq_holds q s xs \<Longrightarrow> x \<notin> set xs \<Longrightarrow> True \<Longrightarrow>
      \<exists>q' s'. runqueue_enqueue (Some x) q s = Inr (q', s') \<and> rq_holds q' s' (xs @ [x]) \<and>
        (\<forall>y. y \<noteq> x \<longrightarrow> y \<notin> set xs \<longrightarrow> True = True)"
    using runqueue_enqueue_holds by blast
  show "rq_holds q s [] \<Longrightarrow> \<exists>q' s'. runqueue_dequeue q s = Inr (None, q', s') \<and> rq_holds q' s' []"
    using runqueue_dequeue_empty by blast
  show "rq_holds q s (x # xs) \<Longrightarrow>
      \<exists>q' s'. runqueue_dequeue q s = Inr (Some x, q', s') \<and> rq_holds q' s' xs \<and> True"
    using runqueue_dequeue_holds by blast
qed

lemma runqueue_remove_holds:
  assumes "rq_holds q s (ts @ t # us)"
  shows "\<exists>q' s'. runqueue_remove (Some t) q s = Inr (q', s') \<and> rq_holds q' s' (ts @ us) \<and> base s' = base s"
proof -
  have d: "dll (\<lambda>t. sib_prev (tasks s t)) (\<lambda>t. sib_next (tasks s t)) (rq_head q) (rq_tail q) (ts @ t # us)"
    "rq_lock q = unlocked" "rq_count q = of_nat (length (ts @ t # us))"
    using assms by (auto simp: rq_holds_def)
  let ?p = "sib_prev (tasks s t)" and ?n = "sib_next (tasks s t)"
  have ne: "?p \<noteq> Some t" "?n \<noteq> Some t" using dll_links_in[OF d(1), of t] by auto
  have pn: "t \<notin> set ts" "t \<notin> set us" using d(1) by (auto simp: dll_def)
  let ?s1 = "(case ?p of Some p \<Rightarrow> set_next p ?n s | None \<Rightarrow> s)"
  let ?s2 = "(case ?n of Some n \<Rightarrow> set_prev n ?p ?s1 | None \<Rightarrow> ?s1)"
  let ?s = "set_next t None (set_prev t None ?s2)"
  let ?q = "q\<lparr>rq_head := if ?p = None then ?n else rq_head q, rq_tail := if ?n = None then ?p else rq_tail q, rq_count := rq_count q - 1\<rparr>"
  have "runqueue_remove (Some t) q s = Inr (?q, ?s)"
    using d(2) ne by (cases q; cases ?p; cases ?n) (auto simp: runqueue_remove_def Let_def)
  moreover have "dll (\<lambda>t. sib_prev (tasks ?s t)) (\<lambda>t. sib_next (tasks ?s t)) (rq_head ?q) (rq_tail ?q) (ts @ us)"
    using pn ne by (intro dll_unlink[OF d(1)]) (auto split: option.splits)
  then have "rq_holds ?q ?s (ts @ us)" using d(2,3) by (simp add: rq_holds_def)
  moreover have "base ?s = base s" by (simp split: option.splits)
  ultimately show ?thesis by blast
qed

subsection \<open>Searching\<close>

lemma find_loop_eq:
  assumes "seg p (\<lambda>t. sib_next (tasks s t)) pr ts None"
  shows "find_loop tid (first_of ts None) s = Some (List.find (\<lambda>t. t_id (tasks s t) = tid) ts)"
  using assms
proof (induction ts arbitrary: pr)
  case Nil
  then show ?case by (simp add: find_loop.simps)
next
  case (Cons t ts)
  then show ?case by (subst find_loop.simps) auto
qed

lemma runqueue_find_by_id_eq:
  assumes "rq_holds q s ts"
  shows "runqueue_find_by_id tid q s =
    (case List.find (\<lambda>t. t_id (tasks s t) = tid) ts of
       None \<Rightarrow> Inr (None, q, s)
     | Some t \<Rightarrow> rbind (task_acquire (Some t) s) (\<lambda>s. Inr (Some t, q, s)))"
proof -
  have "rq_head q = first_of ts None" "rq_lock q = unlocked"
    "seg (\<lambda>t. sib_prev (tasks s t)) (\<lambda>t. sib_next (tasks s t)) None ts None"
    using assms by (auto simp: rq_holds_def dll_def)
  then show ?thesis using find_loop_eq[of _ s None ts tid]
    by (cases q) (auto simp: runqueue_find_by_id_def ended_def Let_def split: option.splits)
qed

text \<open>
  C16: Tasks leave a run queue in the order in which they entered it: after enqueuing any distinct
  tasks into an empty queue, as many dequeues give exactly these tasks in this order and leave the
  queue empty.
\<close>

theorem runqueue_fifo:
  assumes "rq_holds q s []" "distinct ts"
  shows "\<exists>q1 s1 q2 s2. enq_all (\<lambda>t. runqueue_enqueue (Some t)) ts q s = Inr (q1, s1) \<and> deq_n runqueue_dequeue (length ts) q1 s1 = Inr (map Some ts, q2, s2) \<and>
    rq_holds q2 s2 []"
  using rq.fifo_order[OF assms] by simp

theorem runqueue_fifo_witness:
  "\<exists>q1 s1 q2 s2. enq_all (\<lambda>t. runqueue_enqueue (Some t)) [3, 1, 2] rq_empty ksys_demo = Inr (q1, s1) \<and>
    deq_n runqueue_dequeue (length [3, 1, 2 :: nat]) q1 s1 = Inr (map Some [3, 1, 2], q2, s2) \<and> rq_holds q2 s2 []"
  by (rule runqueue_fifo) (simp_all add: rq_holds_def rq_empty_def)

end
