(* ===== verification/Sleeper.thy ===== *)
theory Sleeper
  imports RunQueue
begin

section \<open>Sleepers (kernel/proc/scheduler/sleeperlist.c)\<close>

text \<open>
  The sleepers of a CPU form a doubly linked list of heap objects, each with a timer, a duration and a
  wait queue item to wake. \<open>sll_holds l s xs\<close>: the list is unlocked, links the live objects \<open>xs\<close> in this
  order, counts them, and their timers run. The walk of \<^verbatim>\<open>sleeperlist_tick\<close> follows links while it
  unlinks and frees; \<open>sleeperlist_tick_ok\<close> shows that it ends and removes exactly the sleepers whose time
  has come.
\<close>

subsection \<open>Definitions\<close>

definition sleeperlist_init :: "sleeperlist \<Rightarrow> sleeperlist" where
  "sleeperlist_init self =
     self\<lparr>sll_lock := spinlock_init (sll_lock self), sll_head := None, sll_tail := None, sll_count := 0\<rparr>"

definition upd_sleeper :: "nat \<Rightarrow> (sleeper \<Rightarrow> sleeper) \<Rightarrow> 'a ksys_scheme \<Rightarrow> 'a ksys_scheme" where
  "upd_sleeper i f s = s\<lparr>sleepers := (sleepers s)(i := f (sleepers s i))\<rparr>"

text \<open>The timer of a new sleeper reads \<^verbatim>\<open>uptime_ns\<close>, function pointer 1.\<close>

definition sleeperlist_add :: "u64 \<Rightarrow> ref \<Rightarrow> sleeperlist \<Rightarrow> 'a ksys_scheme \<Rightarrow> (sleeperlist \<times> 'a ksys_scheme) outcome" where
  "sleeperlist_add duration w self s =
     check (w \<noteq> None)
     (rbind (allocate_obj SIZEOF_SLEEPER s) (\<lambda>(i, s).
      rbind (timer_init (Some 1) \<lparr>get_time_ns = None, started_at = 0, paused_at = 0, started = False, paused = False\<rparr>) (\<lambda>t.
      rbind (uptime_ns s) (\<lambda>now.
      let s = upd_sleeper i (\<lambda>_. \<lparr>sl_timer = timer_start now t, sl_duration_ns = duration, sl_w = w,
            sl_prev = None, sl_next = None\<rparr>) s in
      rbind (spinlock_acquire (sll_lock self)) (\<lambda>l.
      let self = self\<lparr>sll_lock := l\<rparr>;
          s = upd_sleeper i (\<lambda>k. k\<lparr>sl_prev := sll_tail self, sl_next := None\<rparr>) s;
          s = (case sll_tail self of Some e \<Rightarrow> upd_sleeper e (\<lambda>k. k\<lparr>sl_next := Some i\<rparr>) s | None \<Rightarrow> s);
          self = self\<lparr>sll_tail := Some i\<rparr>;
          self = (if sll_head self = None then self\<lparr>sll_head := Some i\<rparr> else self);
          self = self\<lparr>sll_count := sll_count self + 1\<rparr> in
      Inr (self\<lparr>sll_lock := spinlock_release (sll_lock self)\<rparr>, s))))))"

text \<open>One turn of the loop of \<^verbatim>\<open>sleeperlist_tick\<close>, then the loop.\<close>

definition sleeper_unlink :: "nat \<Rightarrow> sleeperlist \<Rightarrow> 'a ksys_scheme \<Rightarrow> sleeperlist \<times> 'a ksys_scheme" where
  "sleeper_unlink i self s =
     (let (self, s) = (case sl_prev (sleepers s i) of
            Some p \<Rightarrow> (self, upd_sleeper p (\<lambda>k. k\<lparr>sl_next := sl_next (sleepers s i)\<rparr>) s)
          | None \<Rightarrow> (self\<lparr>sll_head := sl_next (sleepers s i)\<rparr>, s));
          (self, s) = (case sl_next (sleepers s i) of
            Some n \<Rightarrow> (self, upd_sleeper n (\<lambda>k. k\<lparr>sl_prev := sl_prev (sleepers s i)\<rparr>) s)
          | None \<Rightarrow> (self\<lparr>sll_tail := sl_prev (sleepers s i)\<rparr>, s)) in
      (self\<lparr>sll_count := sll_count self - 1\<rparr>, s))"

definition sleeper_turn :: "(nat \<Rightarrow> ref \<Rightarrow> 'a ksys_scheme \<Rightarrow> ('a ksys_scheme) outcome) \<Rightarrow> nat \<Rightarrow> sleeperlist \<Rightarrow>
    'a ksys_scheme \<Rightarrow> (sleeperlist \<times> 'a ksys_scheme) outcome" where
  "sleeper_turn call i self s =
     rbind (uptime_ns s) (\<lambda>now.
     rbind (timer_elapsed_ns now (sl_timer (sleepers s i))) (\<lambda>elapsed.
     if elapsed \<ge> sl_duration_ns (sleepers s i)
     then
       rbind (case sl_w (sleepers s i) of
           None \<Rightarrow> Inl NullDeref
         | Some w \<Rightarrow> call_waiter call (wq_waiter s w) s) (\<lambda>s.
       let (self, s) = sleeper_unlink i self s in
       rbind (deallocate_obj (Some i) s) (\<lambda>s. Inr (self, s)))
     else Inr (self, s)))"

partial_function (option) tick_loop :: "(nat \<Rightarrow> ref \<Rightarrow> 'a ksys_scheme \<Rightarrow> ('a ksys_scheme) outcome) \<Rightarrow> ref \<Rightarrow> sleeperlist \<Rightarrow>
    'a ksys_scheme \<Rightarrow> ((sleeperlist \<times> 'a ksys_scheme) outcome) option" where
  "tick_loop call cur self s =
     (case cur of
        None \<Rightarrow> Some (Inr (self, s))
      | Some i \<Rightarrow>
          let next = sl_next (sleepers s i) in
          (case sleeper_turn call i self s of
             Inl f \<Rightarrow> Some (Inl f)
           | Inr r \<Rightarrow> tick_loop call next (fst r) (snd r)))"

definition sleeperlist_tick :: "(nat \<Rightarrow> ref \<Rightarrow> 'a ksys_scheme \<Rightarrow> ('a ksys_scheme) outcome) \<Rightarrow> sleeperlist \<Rightarrow>
    'a ksys_scheme \<Rightarrow> (sleeperlist \<times> 'a ksys_scheme) outcome" where
  "sleeperlist_tick call self s =
     rbind (spinlock_acquire (sll_lock self)) (\<lambda>l.
     let self = self\<lparr>sll_lock := l\<rparr> in
     rbind (ended (tick_loop call (sll_head self) self s)) (\<lambda>(self, s).
     Inr (self\<lparr>sll_lock := spinlock_release (sll_lock self)\<rparr>, s)))"

subsection \<open>What a list holds\<close>

abbreviation sl_links :: "sleeperlist \<Rightarrow> 'a ksys_scheme \<Rightarrow> nat list \<Rightarrow> bool" where
  "sl_links l s xs \<equiv> dll (\<lambda>i. sl_prev (sleepers s i)) (\<lambda>i. sl_next (sleepers s i)) (sll_head l) (sll_tail l) xs"

definition sleeper_ok :: "'a ksys_scheme \<Rightarrow> nat \<Rightarrow> bool" where
  "sleeper_ok s i \<longleftrightarrow> i \<in> live s \<and> started (sl_timer (sleepers s i)) \<and> \<not> paused (sl_timer (sleepers s i)) \<and>
     sl_w (sleepers s i) \<noteq> None"

definition sll_holds :: "sleeperlist \<Rightarrow> 'a ksys_scheme \<Rightarrow> nat list \<Rightarrow> bool" where
  "sll_holds l s xs \<longleftrightarrow> sll_lock l = unlocked \<and> sll_count l = of_nat (length xs) \<and> sl_links l s xs \<and>
     (\<forall>i \<in> set xs. sleeper_ok s i)"

text \<open>The time of sleeper \<open>i\<close> has come at clock value \<open>now\<close>.\<close>

definition due :: "u64 \<Rightarrow> sleeper \<Rightarrow> bool" where
  "due now k \<longleftrightarrow> sl_duration_ns k \<le> now - started_at (sl_timer k)"

lemma sleeperlist_init_holds: "sll_holds (sleeperlist_init l) s []"
  by (simp add: sll_holds_def sleeperlist_init_def)

lemma uptime_cong: "cpus s' = cpus s \<Longrightarrow> this_cpu (km s') = this_cpu (km s) \<Longrightarrow> uptime_ns s' = uptime_ns s"
  by (simp add: uptime_ns_def mp_get_percpu_data_def)

lemma upd_sleeper_simps [simp]:
  "sleepers (upd_sleeper i f s) = (sleepers s)(i := f (sleepers s i))" "live (upd_sleeper i f s) = live s"
  "uptime_ns (upd_sleeper i f s) = uptime_ns s" "tasks (upd_sleeper i f s) = tasks s" "cpus (upd_sleeper i f s) = cpus s"
  "wq_waiter (upd_sleeper i f s) = wq_waiter s" "km (upd_sleeper i f s) = km s"
  by (simp_all add: upd_sleeper_def uptime_ns_def mp_get_percpu_data_def)

lemma sleeperlist_add_holds:
  assumes "sll_holds l s xs" "malloc_ok s" "malloc_obj s SIZEOF_SLEEPER (live s) = Some i" "uptime_ns s = Inr now"
  shows "\<exists>l' s'. sleeperlist_add d (Some w) l s = Inr (l', s') \<and> sll_holds l' s' (xs @ [i]) \<and>
    sl_duration_ns (sleepers s' i) = d \<and> sl_w (sleepers s' i) = Some w \<and> started_at (sl_timer (sleepers s' i)) = now"
proof -
  have h: "sll_lock l = unlocked" "sll_count l = of_nat (length xs)" "sl_links l s xs" "\<forall>j \<in> set xs. sleeper_ok s j"
    using assms(1) by (auto simp: sll_holds_def)
  have i: "i \<notin> live s" using assms(2,3) by (auto simp: malloc_ok_def)
  then have x: "i \<notin> set xs" using h(4) by (auto simp: sleeper_ok_def)
  have e: "sll_tail l = Some e \<Longrightarrow> e \<in> set xs" for e using h(3) last_of_set[of xs e] by (simp add: dll_def)
  let ?t = "timer_start now \<lparr>get_time_ns = Some 1, started_at = 0, paused_at = 0, started = False, paused = False\<rparr>"
  let ?k = "\<lparr>sl_timer = ?t, sl_duration_ns = d, sl_w = Some w, sl_prev = sll_tail l, sl_next = None\<rparr>"
  let ?s1 = "upd_sleeper i (\<lambda>_. ?k) (s\<lparr>live := insert i (live s)\<rparr>)"
  let ?s = "case sll_tail l of Some e \<Rightarrow> upd_sleeper e (\<lambda>k. k\<lparr>sl_next := Some i\<rparr>) ?s1 | None \<Rightarrow> ?s1"
  let ?l = "l\<lparr>sll_tail := Some i, sll_head := if sll_head l = None then Some i else sll_head l, sll_count := sll_count l + 1\<rparr>"
  have u: "uptime_ns (s\<lparr>live := L\<rparr>) = Inr now" for L
    using assms(4) uptime_cong[of "s\<lparr>live := L\<rparr>" s] by simp
  have "sleeperlist_add d (Some w) l s = Inr (?l, ?s)"
    using allocate_obj_eq[OF assms(3)] h(1) u
    by (cases l; cases "sll_tail l") (auto simp: sleeperlist_add_def SIZEOF_SLEEPER_def timer_init_def Let_def upd_sleeper_def check_def)
  moreover have "dll (\<lambda>i. sl_prev (sleepers ?s i)) (\<lambda>i. sl_next (sleepers ?s i)) (sll_head ?l) (Some i) (xs @ [i])"
    using x e by (intro dll_push_back[OF h(3)]) (auto split: option.splits)
  then have "sl_links ?l ?s (xs @ [i])" by simp
  moreover have "\<forall>j \<in> set (xs @ [i]). sleeper_ok ?s j"
    using h(4) x e by (auto simp: sleeper_ok_def timer_start_def split: option.splits)
  ultimately show ?thesis using h(1,2) x e
    by (intro exI[of _ ?l] exI[of _ ?s]) (auto simp: sll_holds_def timer_start_def split: option.splits)
qed

subsection \<open>A tick\<close>

definition sl_core :: "sleeper \<Rightarrow> sleeper" where
  "sl_core k = k\<lparr>sl_prev := None, sl_next := None\<rparr>"

lemma sl_core_eqD:
  assumes "sl_core k = sl_core k'"
  shows "due now k = due now k'" "sl_timer k = sl_timer k'" "sl_w k = sl_w k'"
  using arg_cong[OF assms, of sl_timer] arg_cong[OF assms, of sl_duration_ns] arg_cong[OF assms, of sl_w]
  by (simp_all add: sl_core_def due_def)

lemma sleeper_unlink_links:
  assumes "sl_links l s (xs @ i # ys)"
  shows "sl_links (fst (sleeper_unlink i l s)) (snd (sleeper_unlink i l s)) (xs @ ys)"
    "sl_core (sleepers (snd (sleeper_unlink i l s)) j) = sl_core (sleepers s j)"
proof -
  let ?p = "sl_prev (sleepers s i)" and ?n = "sl_next (sleepers s i)"
  have ne: "?p \<noteq> Some i" "?n \<noteq> Some i" using dll_links_in[OF assms, of i] by auto
  have di: "i \<notin> set xs" "i \<notin> set ys" using assms by (auto simp: dll_def)
  show "sl_links (fst (sleeper_unlink i l s)) (snd (sleeper_unlink i l s)) (xs @ ys)"
    using ne di by (intro dll_unlink[OF assms]) (auto simp: sleeper_unlink_def Let_def split: option.splits)
  show "sl_core (sleepers (snd (sleeper_unlink i l s)) j) = sl_core (sleepers s j)"
    by (auto simp: sleeper_unlink_def Let_def sl_core_def split: option.splits)
qed

lemma sleeper_unlink_frame:
  "sleeper_unlink i l s = (l', s') \<Longrightarrow> live s' = live s \<and> uptime_ns s' = uptime_ns s \<and> wq_waiter s' = wq_waiter s \<and>
    sll_count l' = sll_count l - 1 \<and> sll_lock l' = sll_lock l"
  by (auto simp: sleeper_unlink_def Let_def split: option.splits)

text \<open>
  The walk, with a ghost list of the waiters called so far: \<open>P ws s\<close> says what the state is after calling
  the waiters \<open>ws\<close>. Calling a waiter must not change sleepers, live objects or the clock.
\<close>

definition waiter_of :: "'a ksys_scheme \<Rightarrow> nat \<Rightarrow> waiter" where
  "waiter_of s i = wq_waiter s (the (sl_w (sleepers s i)))"

lemma sleeper_turn_due:
  assumes "uptime_ns s = Inr now" "sleeper_ok s i" "due now (sleepers s i)"
    and "call_waiter call (waiter_of s i) s = Inr s1" "sleepers s1 = sleepers s" "live s1 = live s"
    and "sl_links l s (xs @ i # ys)"
  shows "\<exists>l' s2. sleeper_turn call i l s = Inr (l', s2\<lparr>live := live s1 - {i}\<rparr>) \<and> sleeper_unlink i l s1 = (l', s2)"
proof -
  obtain l' s2 where u: "sleeper_unlink i l s1 = (l', s2)" by (cases "sleeper_unlink i l s1")
  then have "i \<in> live s2" using sleeper_unlink_frame[OF u] assms(2,6) by (auto simp: sleeper_ok_def)
  moreover obtain w where "sl_w (sleepers s i) = Some w" using assms(2) by (auto simp: sleeper_ok_def)
  moreover have "live s2 = live s1" using sleeper_unlink_frame[OF u] by blast
  ultimately show ?thesis using assms(1-4) u
    by (auto simp: sleeper_turn_def sleeper_ok_def timer_elapsed_ns_def due_def waiter_of_def deallocate_obj_def)
qed

lemma sleeper_turn_not_due:
  assumes "uptime_ns s = Inr now" "sleeper_ok s i" "\<not> due now (sleepers s i)"
  shows "sleeper_turn call i l s = Inr (l, s)"
  using assms by (simp add: sleeper_turn_def sleeper_ok_def timer_elapsed_ns_def due_def)

lemma tick_loop_ok:
  assumes call: "\<And>ws s i. P ws s \<Longrightarrow> uptime_ns s = Inr now \<Longrightarrow> i \<in> set ys0 \<Longrightarrow> w0 i = waiter_of s i \<Longrightarrow> w0 i \<notin> set ws \<Longrightarrow>
      \<exists>s'. call_waiter call (w0 i) s = Inr s' \<and> P (ws @ [w0 i]) s' \<and> sleepers s' = sleepers s \<and> live s' = live s \<and>
        uptime_ns s' = Inr now \<and> wq_waiter s' = wq_waiter s"
    and upd: "\<And>ws s s'. P ws s \<Longrightarrow> s' = s\<lparr>sleepers := sleepers s', live := live s'\<rparr> \<Longrightarrow> P ws s'"
  shows "set ys \<subseteq> set ys0 \<Longrightarrow> P ws s \<Longrightarrow> uptime_ns s = Inr now \<Longrightarrow> sl_links l s (xs @ ys) \<Longrightarrow> \<forall>i \<in> set (xs @ ys). sleeper_ok s i \<Longrightarrow>
    \<forall>i \<in> set ys. w0 i = waiter_of s i \<Longrightarrow> sll_count l = of_nat (length (xs @ ys)) \<Longrightarrow>
    distinct (map w0 ys) \<Longrightarrow> set ws \<inter> w0 ` set ys = {} \<Longrightarrow>
    \<exists>l' s'. tick_loop call (first_of ys None) l s = Some (Inr (l', s')) \<and>
      sl_links l' s' (xs @ [i \<leftarrow> ys. \<not> due now (sleepers s i)]) \<and> sll_lock l' = sll_lock l \<and>
      (\<forall>i \<in> set (xs @ [i \<leftarrow> ys. \<not> due now (sleepers s i)]). sleeper_ok s' i) \<and>
      sll_count l' = of_nat (length (xs @ [i \<leftarrow> ys. \<not> due now (sleepers s i)])) \<and>
      P (ws @ map w0 [i \<leftarrow> ys. due now (sleepers s i)]) s' \<and>
      live s' = live s - {i \<in> set ys. due now (sleepers s i)}"
proof (induction ys arbitrary: xs ws s l)
  case Nil
  then show ?case by (simp add: tick_loop.simps)
next
  case (Cons i ys)
  have i: "sleeper_ok s i" "i \<in> set ys0" "w0 i = waiter_of s i" "w0 i \<notin> set ws" using Cons.prems by auto
  have nx: "sl_next (sleepers s i) = first_of ys None" using Cons.prems(4) by (auto simp: dll_def seg_append)
  have di: "i \<notin> set xs" "i \<notin> set ys" "distinct ys" using Cons.prems(4) by (auto simp: dll_def)
  show ?case
  proof (cases "due now (sleepers s i)")
    case False
    have "tick_loop call (first_of (i # ys) None) l s = tick_loop call (first_of ys None) l s"
      using sleeper_turn_not_due[OF Cons.prems(3) i(1) False] nx by (subst tick_loop.simps) (simp add: Let_def)
    moreover have "set ws \<inter> w0 ` set ys = {}" using Cons.prems(9) by auto
    ultimately show ?thesis using Cons.IH[of ws s l "xs @ [i]"] Cons.prems(1-8) False by auto
  next
    case True
    obtain s1 where c: "call_waiter call (w0 i) s = Inr s1" "P (ws @ [w0 i]) s1" "sleepers s1 = sleepers s" "live s1 = live s"
      "uptime_ns s1 = Inr now" "wq_waiter s1 = wq_waiter s"
      using call[OF Cons.prems(2,3) i(2-4)] by blast
    obtain l2 s2 where t: "sleeper_turn call i l s = Inr (l2, s2\<lparr>live := live s1 - {i}\<rparr>)" "sleeper_unlink i l s1 = (l2, s2)"
      using sleeper_turn_due[OF Cons.prems(3) i(1) True c(1)[unfolded i(3)] c(3,4) Cons.prems(4)] by blast
    have fr: "uptime_ns s2 = Inr now" "wq_waiter s2 = wq_waiter s" "sll_count l2 = sll_count l - 1" "sll_lock l2 = sll_lock l"
      "live s2 = live s" using sleeper_unlink_frame[OF t(2)] c by auto
    let ?s = "s2\<lparr>live := live s1 - {i}\<rparr>"
    have lk: "sl_links l s1 (xs @ i # ys)" using Cons.prems(4) c(3) by simp
    have links: "sl_links l2 ?s (xs @ ys)" using sleeper_unlink_links(1)[OF lk] t(2) by simp
    have core: "sl_core (sleepers ?s j) = sl_core (sleepers s j)" for j
      using sleeper_unlink_links(2)[OF lk, of j] t(2) c(3) by simp
    have eq: "due now (sleepers ?s j) = due now (sleepers s j)" "sl_timer (sleepers ?s j) = sl_timer (sleepers s j)"
      "sl_w (sleepers ?s j) = sl_w (sleepers s j)" for j
      using sl_core_eqD[OF core[of j]] by auto
    have s2: "s2 = s1\<lparr>sleepers := sleepers s2\<rparr>" using t(2)
      by (auto simp: sleeper_unlink_def Let_def upd_sleeper_def split: option.splits)
    have "?s = s1\<lparr>sleepers := sleepers ?s, live := live ?s\<rparr>" by (subst s2) simp
    then have P: "P (ws @ [w0 i]) ?s" using upd[OF c(2)] by blast
    have ok: "\<forall>j \<in> set (xs @ ys). sleeper_ok ?s j"
      using Cons.prems(5) di eq c(4) by (auto simp: sleeper_ok_def)
    have w: "\<forall>j \<in> set ys. w0 j = waiter_of ?s j" using Cons.prems(6) eq(3) fr(2) by (auto simp: waiter_of_def)
    have up: "uptime_ns ?s = Inr now" using uptime_cong[of ?s s2] fr(1) by simp
    have cnt: "sll_count l2 = of_nat (length (xs @ ys))" using fr(3) Cons.prems(7) by simp
    have "tick_loop call (first_of (i # ys) None) l s = tick_loop call (first_of ys None) l2 ?s"
      using t(1) nx by (subst tick_loop.simps) (simp add: Let_def)
    moreover have "set ys \<subseteq> set ys0" using Cons.prems(1) by simp
    moreover have "distinct (map w0 ys)" "set (ws @ [w0 i]) \<inter> w0 ` set ys = {}" using Cons.prems(8,9) by auto
    ultimately show ?thesis
      using Cons.IH[OF _ P up links ok w cnt] True eq(1) fr(4) c(4) by (auto simp: Diff_insert2[symmetric] Collect_conv_if)
  qed
qed

lemma sleeperlist_tick_ok:
  assumes "sll_holds l s xs" "uptime_ns s = Inr now" "P [] s" and dist: "distinct (map (waiter_of s) xs)"
    and call: "\<And>ws s' i. P ws s' \<Longrightarrow> uptime_ns s' = Inr now \<Longrightarrow> i \<in> set xs \<Longrightarrow> waiter_of s i = waiter_of s' i \<Longrightarrow>
      waiter_of s i \<notin> set ws \<Longrightarrow>
      \<exists>s''. call_waiter call (waiter_of s i) s' = Inr s'' \<and> P (ws @ [waiter_of s i]) s'' \<and> sleepers s'' = sleepers s' \<and>
        live s'' = live s' \<and> uptime_ns s'' = Inr now \<and> wq_waiter s'' = wq_waiter s'"
    and upd: "\<And>ws s s'. P ws s \<Longrightarrow> s' = s\<lparr>sleepers := sleepers s', live := live s'\<rparr> \<Longrightarrow> P ws s'"
  shows "\<exists>l' s'. sleeperlist_tick call l s = Inr (l', s') \<and> sll_holds l' s' [i \<leftarrow> xs. \<not> due now (sleepers s i)] \<and>
    P (map (waiter_of s) [i \<leftarrow> xs. due now (sleepers s i)]) s' \<and> live s' = live s - {i \<in> set xs. due now (sleepers s i)}"
proof -
  have h: "sll_lock l = unlocked" "sll_count l = of_nat (length xs)" "sl_links l s xs" "\<forall>i \<in> set xs. sleeper_ok s i"
    using assms(1) by (auto simp: sll_holds_def)
  let ?l = "l\<lparr>sll_lock := locked\<rparr>"
  have hd: "sll_head ?l = first_of xs None" using h(3) by (simp add: dll_def)
  obtain l' s' where t: "tick_loop call (first_of xs None) ?l s = Some (Inr (l', s'))"
    "sl_links l' s' [i \<leftarrow> xs. \<not> due now (sleepers s i)]" "\<forall>i \<in> set [i \<leftarrow> xs. \<not> due now (sleepers s i)]. sleeper_ok s' i"
    "sll_count l' = of_nat (length [i \<leftarrow> xs. \<not> due now (sleepers s i)])"
    "P (map (waiter_of s) [i \<leftarrow> xs. due now (sleepers s i)]) s'" "live s' = live s - {i \<in> set xs. due now (sleepers s i)}"
  proof -
    have "\<exists>l' s'. tick_loop call (first_of xs None) ?l s = Some (Inr (l', s')) \<and>
      sl_links l' s' ([] @ [i \<leftarrow> xs. \<not> due now (sleepers s i)]) \<and> sll_lock l' = sll_lock ?l \<and>
      (\<forall>i \<in> set ([] @ [i \<leftarrow> xs. \<not> due now (sleepers s i)]). sleeper_ok s' i) \<and>
      sll_count l' = of_nat (length ([] @ [i \<leftarrow> xs. \<not> due now (sleepers s i)])) \<and>
      P ([] @ map (waiter_of s) [i \<leftarrow> xs. due now (sleepers s i)]) s' \<and>
      live s' = live s - {i \<in> set xs. due now (sleepers s i)}"
      by (rule tick_loop_ok[where P = P and ?ys0.0 = xs, OF call upd]) (use assms(2,3) dist h in \<open>simp_all\<close>)
    then show ?thesis using that unfolding append_Nil by blast
  qed
  then show ?thesis using h(1) hd
    by (auto simp: sleeperlist_tick_def ended_def sll_holds_def Let_def)
qed

end
