(* ===== verification/Task_Mem.thy ===== *)
theory Task_Mem
  imports Task
begin

unbundle bit_operations_syntax

section \<open>The address space of a task (kernel/proc/task.c)\<close>

text \<open>
  Mappings, \<^verbatim>\<open>task_mmap\<close> and \<^verbatim>\<open>task_munmap\<close>. A task's mappings are heap objects linked from
  \<^verbatim>\<open>task.mappings\<close>. \<^verbatim>\<open>length\<close> and addresses are 64-bit words; the sum \<^verbatim>\<open>base + length\<close> wraps as in the code.
  The search for a free range tries one page after the other; it is a partial function, and
  \<open>mmap_search_first\<close> shows that it ends with the first candidate that fits, if there is one.
  The CPUs that answer a TLB shootdown are a parameter, as in \<^verbatim>\<open>vmm_shootdown_range\<close>.
\<close>

subsection \<open>Definitions\<close>

definition USER_STACK_TOP :: u64 where "USER_STACK_TOP = 0x00007FFFFFFFE000"
definition USER_STARTUP_BASE :: u64 where "USER_STARTUP_BASE = 0x00007FFFFF000000"
definition MMAP_SEARCH_BASE :: u64 where "MMAP_SEARCH_BASE = 0x000100000000000"
definition MM_VIRT_PAGE_SIZE :: u64 where "MM_VIRT_PAGE_SIZE = 4096"

definition TASK_MMAP_ACCESS_READ :: u64 where "TASK_MMAP_ACCESS_READ = 1"
definition TASK_MMAP_ACCESS_WRITE :: u64 where "TASK_MMAP_ACCESS_WRITE = 2"
definition TASK_MMAP_ACCESS_EXEC :: u64 where "TASK_MMAP_ACCESS_EXEC = 4"
definition TASK_MMAP_FIXED :: u64 where "TASK_MMAP_FIXED = 8"

definition upd_map :: "nat \<Rightarrow> (task_mapping \<Rightarrow> task_mapping) \<Rightarrow> 'a ksys_scheme \<Rightarrow> 'a ksys_scheme" where
  "upd_map m f s = s\<lparr>maps := (maps s)(m := f (maps s m))\<rparr>"

definition task__add_mapping :: "nat \<Rightarrow> 'a ksys_scheme \<Rightarrow> (nat \<times> 'a ksys_scheme) outcome" where
  "task__add_mapping self s =
     rbind (allocate_obj SIZEOF_TASK_MAPPING s) (\<lambda>(m, s).
     let s = upd_map m (\<lambda>_. \<lparr>tm_vaddr = 0, tm_flags = 0, tm_page_count = 0, tm_prev = None, tm_next = mappings (tasks s self)\<rparr>) s;
         s = (case mappings (tasks s self) of Some h \<Rightarrow> upd_map h (\<lambda>k. k\<lparr>tm_prev := Some m\<rparr>) s | None \<Rightarrow> s);
         s = upd_map m (\<lambda>k. k\<lparr>tm_prev := None\<rparr>) s;
         s = upd_task self (\<lambda>t. t\<lparr>mappings := Some m\<rparr>) s in
     Inr (m, s))"

definition tm_end :: "task_mapping \<Rightarrow> u64" where
  "tm_end m = tm_vaddr m + tm_page_count m * MM_VIRT_PAGE_SIZE"

partial_function (option) overlap_loop :: "u64 \<Rightarrow> u64 \<Rightarrow> ref \<Rightarrow> 'a ksys_scheme \<Rightarrow> bool option" where
  "overlap_loop b e m s =
     (case m of
        None \<Rightarrow> Some False
      | Some i \<Rightarrow>
          if \<not> (e \<le> tm_vaddr (maps s i) \<or> b \<ge> tm_end (maps s i)) then Some True
          else overlap_loop b e (tm_next (maps s i)) s)"

definition task__mapping_overlaps :: "nat \<Rightarrow> u64 \<Rightarrow> usize \<Rightarrow> 'a ksys_scheme \<Rightarrow> bool outcome" where
  "task__mapping_overlaps self b len s =
     ended (map_option Inr (overlap_loop b (b + len) (mappings (tasks s self)) s))"

definition task__range_hits_reserved :: "u64 \<Rightarrow> usize \<Rightarrow> bool" where
  "task__range_hits_reserved b len \<longleftrightarrow> \<not> (b + len \<le> USER_STARTUP_BASE \<or> b \<ge> USER_STACK_TOP)"

definition task__del_mapping :: "nat \<Rightarrow> ref \<Rightarrow> 'a ksys_scheme \<Rightarrow> ('a ksys_scheme) outcome" where
  "task__del_mapping self mapping s =
     (case mapping of
        None \<Rightarrow> Inl AssertFail
      | Some m \<Rightarrow>
          let s = (case tm_prev (maps s m) of
                Some p \<Rightarrow> upd_map p (\<lambda>k. k\<lparr>tm_next := tm_next (maps s m)\<rparr>) s
              | None \<Rightarrow> upd_task self (\<lambda>t. t\<lparr>mappings := tm_next (maps s m)\<rparr>) s);
              s = (case tm_next (maps s m) of
                Some n \<Rightarrow> upd_map n (\<lambda>k. k\<lparr>tm_prev := tm_prev (maps s m)\<rparr>) s
              | None \<Rightarrow> s) in
          deallocate_obj (Some m) s)"

definition task__round_to_page :: "usize \<Rightarrow> (usize option) outcome" where
  "task__round_to_page len =
     (if len = 0 then Inr None
      else if len > - 1 - (MM_VIRT_PAGE_SIZE - 1) then Inr None
      else rbind (align_size_up len MM_VIRT_PAGE_SIZE) (\<lambda>r. Inr (Some r)))"

text \<open>The first candidate that overlaps no mapping, from \<open>cand\<close> on; \<open>Some None\<close> when there is none.\<close>

partial_function (option) mmap_search :: "nat \<Rightarrow> usize \<Rightarrow> u64 \<Rightarrow> u64 \<Rightarrow> 'a ksys_scheme \<Rightarrow> ((u64 option) outcome) option" where
  "mmap_search self len lst cand s =
     (if cand \<le> lst
      then (case task__mapping_overlaps self cand len s of
          Inl f \<Rightarrow> Some (Inl f)
        | Inr ov \<Rightarrow>
            if ov then mmap_search self len lst (cand + MM_VIRT_PAGE_SIZE) s
            else Some (Inr (Some cand)))
      else Some (Inr None))"

text \<open>Choosing the address: the checks of a fixed mapping, or the search.\<close>

definition mmap_place :: "nat \<Rightarrow> u64 \<Rightarrow> usize \<Rightarrow> u64 \<Rightarrow> 'a ksys_scheme \<Rightarrow> (u64 option) outcome" where
  "mmap_place self addr len flags s =
     (if flags AND TASK_MMAP_FIXED \<noteq> 0
      then
        if addr = 0 then Inr None
        else rbind (is_ptr_aligned addr MM_VIRT_PAGE_SIZE) (\<lambda>ok.
          if \<not> ok \<or> addr > USER_STACK_TOP \<or> len > USER_STACK_TOP - addr \<or> task__range_hits_reserved addr len then Inr None
          else rbind (task__mapping_overlaps self addr len s) (\<lambda>ov. Inr (if ov then None else Some addr)))
      else if len > USER_STARTUP_BASE - MMAP_SEARCH_BASE then Inr None
      else ended (mmap_search self len (USER_STARTUP_BASE - len) MMAP_SEARCH_BASE s))"

text \<open>Giving a page back, in the rollback and in \<^verbatim>\<open>task_munmap\<close>.\<close>

definition drop_page :: "pmap_ptr \<Rightarrow> u64 \<Rightarrow> nat \<Rightarrow> vmachine \<Rightarrow> vmachine outcome" where
  "drop_page pm addr j m =
     (let vaddr = addr + of_nat j * MM_VIRT_PAGE_SIZE in
      rbind (vmm_translate pm vaddr m) (\<lambda>(paddr, m).
      rbind (vmm_unmap pm vaddr m) (\<lambda>m.
      pmm_free paddr 1 m)))"

definition mmap_page_flags :: "u64 \<Rightarrow> u64" where
  "mmap_page_flags flags =
     (let f = MM_PT_FLAG_VALID OR MM_PT_FLAG_USER;
          f = (if flags AND TASK_MMAP_ACCESS_WRITE \<noteq> 0 then f OR MM_PT_FLAG_WRITE else f) in
      if flags AND TASK_MMAP_ACCESS_EXEC = 0 then f OR MM_PT_FLAG_NX else f)"

text \<open>The loop that maps the pages; \<open>False\<close> when memory ran out, after the rollback.\<close>

fun mmap_pages :: "pmap_ptr \<Rightarrow> u64 \<Rightarrow> u64 \<Rightarrow> nat list \<Rightarrow> vmachine \<Rightarrow> (bool \<times> vmachine) outcome" where
  "mmap_pages pm addr flags [] m = Inr (True, m)"
| "mmap_pages pm addr flags (i # is) m =
     rbind (pmm_try_alloc 1 m) (\<lambda>(paddr, m).
     if paddr = 0 then rbind (for_r (drop_page pm addr) [0..<i] m) (\<lambda>m. Inr (False, m))
     else rbind (vmm_map pm (addr + of_nat i * MM_VIRT_PAGE_SIZE) paddr (mmap_page_flags flags) MM_PAGE_4KB m) (\<lambda>m.
       mmap_pages pm addr flags is m))"

definition task_pmap :: "nat \<Rightarrow> 'a ksys_scheme \<Rightarrow> pmap_ptr outcome" where
  "task_pmap self s = (case pmap (tasks s self) of None \<Rightarrow> Inl NullDeref | Some p \<Rightarrow> Inr (OtherMap (pmaps s p)))"

text \<open>A NULL result is address 0.\<close>

definition task_mmap :: "ref \<Rightarrow> u64 \<Rightarrow> usize \<Rightarrow> u64 \<Rightarrow> 'a ksys_scheme \<Rightarrow> (u64 \<times> 'a ksys_scheme) outcome" where
  "task_mmap self addr len flags s =
     (case self of
        None \<Rightarrow> Inl AssertFail
      | Some t \<Rightarrow>
          rbind (task__round_to_page len) (\<lambda>r.
          case r of
            None \<Rightarrow> Inr (0, s)
          | Some len \<Rightarrow>
              rbind (mmap_place t addr len flags s) (\<lambda>p.
              case p of
                None \<Rightarrow> Inr (0, s)
              | Some addr \<Rightarrow>
                  let page_count = len div MM_VIRT_PAGE_SIZE in
                  rbind (if flags AND TASK_MMAP_ACCESS_READ \<noteq> 0
                         then rbind (task_pmap t s) (\<lambda>pm. with_km (mmap_pages pm addr flags [0..<unat page_count]) s)
                         else Inr (True, s)) (\<lambda>(ok, s).
                  if \<not> ok then Inr (0, s)
                  else
                    rbind (task__add_mapping t s) (\<lambda>(m, s).
                    Inr (addr, upd_map m (\<lambda>k. k\<lparr>tm_vaddr := addr, tm_flags := flags, tm_page_count := page_count\<rparr>) s))))))"

text \<open>The walk of \<^verbatim>\<open>task_munmap\<close> to the mapping with exactly the given bounds.\<close>

partial_function (option) munmap_find :: "u64 \<Rightarrow> u64 \<Rightarrow> ref \<Rightarrow> 'a ksys_scheme \<Rightarrow> ref option" where
  "munmap_find b e m s =
     (case m of
        None \<Rightarrow> Some None
      | Some i \<Rightarrow> if b = tm_vaddr (maps s i) \<and> e = tm_end (maps s i) then Some (Some i)
          else munmap_find b e (tm_next (maps s i)) s)"

definition munmap_pages :: "nat list \<Rightarrow> pmap_ptr \<Rightarrow> task_mapping \<Rightarrow> vmachine \<Rightarrow> vmachine outcome" where
  "munmap_pages responders pm k m =
     rbind (for_r (drop_page pm (tm_vaddr k)) [0..<unat (tm_page_count k)] m) (\<lambda>m.
     vmm_shootdown_range responders (tm_vaddr k) (tm_page_count k) m)"

definition task_munmap :: "nat list \<Rightarrow> ref \<Rightarrow> u64 \<Rightarrow> usize \<Rightarrow> 'a ksys_scheme \<Rightarrow> ('a ksys_scheme) outcome" where
  "task_munmap responders self addr len s =
     (case self of
        None \<Rightarrow> Inl AssertFail
      | Some t \<Rightarrow>
          if len = 0 \<or> addr = 0 then Inr s
          else
            rbind (task__round_to_page len) (\<lambda>r.
            case r of
              None \<Rightarrow> Inr s
            | Some unmap_len \<Rightarrow>
                if addr > USER_STACK_TOP \<or> unmap_len > USER_STACK_TOP - addr then Inr s
                else
                  rbind (ended (map_option Inr (munmap_find addr (addr + unmap_len) (mappings (tasks s t)) s))) (\<lambda>f.
                  case f of
                    None \<Rightarrow> Inr s
                  | Some m \<Rightarrow>
                      rbind (if tm_flags (maps s m) AND TASK_MMAP_ACCESS_READ \<noteq> 0
                             then rbind (task_pmap t s) (\<lambda>pm. on_km (munmap_pages responders pm (maps s m)) s)
                             else Inr s) (\<lambda>s.
                      task__del_mapping t (Some m) s))))"

subsection \<open>The mappings of a task\<close>

lemma upd_map_simps [simp]:
  "maps (upd_map m f s) = (maps s)(m := f (maps s m))" "tasks (upd_map m f s) = tasks s" "live (upd_map m f s) = live s"
  "km (upd_map m f s) = km s" "cpus (upd_map m f s) = cpus s" "pmaps (upd_map m f s) = pmaps s"
  by (simp_all add: upd_map_def)

abbreviation map_links :: "nat \<Rightarrow> 'a ksys_scheme \<Rightarrow> nat list \<Rightarrow> bool" where
  "map_links t s ms \<equiv>
     dll (\<lambda>i. tm_prev (maps s i)) (\<lambda>i. tm_next (maps s i)) (mappings (tasks s t)) (last_of ms None) ms"

text \<open>The addresses of a mapping, and a mapping a user may have: whole pages below the reserved range.\<close>

definition region :: "task_mapping \<Rightarrow> nat set" where
  "region k = {unat (tm_vaddr k) ..< unat (tm_vaddr k) + unat (tm_page_count k) * 4096}"

definition map_ok :: "task_mapping \<Rightarrow> bool" where
  "map_ok k \<longleftrightarrow> page_aligned (tm_vaddr k) \<and> 0 < unat (tm_page_count k) \<and>
     unat (tm_vaddr k) + unat (tm_page_count k) * 4096 \<le> unat USER_STARTUP_BASE"

definition task_maps :: "nat \<Rightarrow> 'a ksys_scheme \<Rightarrow> nat list \<Rightarrow> bool" where
  "task_maps t s ms \<longleftrightarrow> map_links t s ms \<and> (\<forall>m \<in> set ms. m \<in> live s \<and> map_ok (maps s m)) \<and>
     (\<forall>m \<in> set ms. \<forall>m' \<in> set ms. m \<noteq> m' \<longrightarrow> region (maps s m) \<inter> region (maps s m') = {})"

lemma user_constants:
  "unat USER_STACK_TOP = 140737488347136" "unat USER_STARTUP_BASE = 140737471578112"
  "unat MMAP_SEARCH_BASE = 17592186044416" "unat MM_VIRT_PAGE_SIZE = 4096"
  by (simp_all add: USER_STACK_TOP_def USER_STARTUP_BASE_def MMAP_SEARCH_BASE_def MM_VIRT_PAGE_SIZE_def)

lemma map_ok_end:
  assumes "map_ok k"
  shows "unat (tm_end k) = unat (tm_vaddr k) + unat (tm_page_count k) * 4096"
proof -
  have b: "unat (tm_vaddr k) + unat (tm_page_count k) * 4096 \<le> 140737471578112"
    using assms by (simp add: map_ok_def user_constants)
  have "unat (tm_page_count k * MM_VIRT_PAGE_SIZE) = unat (tm_page_count k) * 4096"
    using b by (subst unat_mult_u64) (auto simp: user_constants)
  then show ?thesis using b by (simp add: tm_end_def unat_add_u64)
qed

lemma overlap_loop_eq:
  assumes "seg p (\<lambda>i. tm_next (maps s i)) pr ms None"
  shows "overlap_loop b e (first_of ms None) s =
    Some (\<exists>m \<in> set ms. \<not> (e \<le> tm_vaddr (maps s m) \<or> tm_end (maps s m) \<le> b))"
  using assms
proof (induction ms arbitrary: pr)
  case Nil
  then show ?case by (simp add: overlap_loop.simps)
next
  case (Cons m ms)
  then show ?case by (subst overlap_loop.simps) auto
qed

lemma mapping_overlaps_eq:
  assumes "map_links t s ms"
  shows "task__mapping_overlaps t b len s =
    Inr (\<exists>m \<in> set ms. \<not> (b + len \<le> tm_vaddr (maps s m) \<or> tm_end (maps s m) \<le> b))"
proof -
  have "mappings (tasks s t) = first_of ms None" "seg (\<lambda>i. tm_prev (maps s i)) (\<lambda>i. tm_next (maps s i)) None ms None"
    using assms by (auto simp: dll_def)
  then show ?thesis using overlap_loop_eq[of _ s None ms b "b + len"]
    by (simp add: task__mapping_overlaps_def ended_def)
qed

text \<open>On well-formed mappings the test is disjointness of the address ranges.\<close>

lemma no_overlap_iff:
  assumes "map_ok k" "unat b + unat len < 2 ^ 64" "0 < unat len"
  shows "(b + len \<le> tm_vaddr k \<or> tm_end k \<le> b) \<longleftrightarrow> {unat b ..< unat b + unat len} \<inter> region k = {}"
proof -
  have pos: "0 < unat (tm_page_count k) * 4096" using assms(1) by (simp add: map_ok_def)
  have "(b + len \<le> tm_vaddr k \<or> tm_end k \<le> b) \<longleftrightarrow>
      unat b + unat len \<le> unat (tm_vaddr k) \<or> unat (tm_vaddr k) + unat (tm_page_count k) * 4096 \<le> unat b"
    using assms(2) by (simp add: word_le_nat_alt unat_add_u64 map_ok_end[OF assms(1)])
  also have "\<dots> \<longleftrightarrow> {unat b ..< unat b + unat len} \<inter> region k = {}"
    using pos assms(3) by (auto simp: region_def ivl_disj_un Int_atLeastLessThan not_less)
  finally show ?thesis .
qed

subsection \<open>The search\<close>

lemma mmap_search_first:
  assumes "\<And>c. task__mapping_overlaps t c len s = Inr (ov c)" "unat lst + 4096 < 2 ^ 64"
  shows "mmap_search t len lst cand s =
    Some (Inr (List.find (\<lambda>c. \<not> ov c)
      (map (\<lambda>k. cand + of_nat k * 4096) [0 ..< (unat lst + 4096 - unat cand) div 4096])))"
proof (induction "unat lst + 4096 - unat cand" arbitrary: cand rule: less_induct)
  case less
  show ?case
  proof (cases "cand \<le> lst")
    case False
    then have "(unat lst + 4096 - unat cand) div 4096 = 0" by (simp add: word_le_nat_alt)
    with False show ?thesis by (subst mmap_search.simps) simp
  next
    case True
    then have le: "unat cand \<le> unat lst" by (simp add: word_le_nat_alt)
    have nx: "unat (cand + MM_VIRT_PAGE_SIZE) = unat cand + 4096"
      using le assms(2) by (subst unat_add_u64) (simp_all add: user_constants)
    define n where "n = (unat lst + 4096 - unat (cand + MM_VIRT_PAGE_SIZE)) div 4096"
    have "unat lst + 4096 - unat cand = unat lst + 4096 - unat (cand + MM_VIRT_PAGE_SIZE) + 4096" using le nx by simp
    then have n: "(unat lst + 4096 - unat cand) div 4096 = Suc n"
      by (simp add: n_def div_add_self2)
    have m: "map (\<lambda>k. cand + of_nat k * 4096) [0 ..< Suc n] =
        cand # map (\<lambda>k. (cand + MM_VIRT_PAGE_SIZE) + of_nat k * 4096) [0 ..< n]"
      by (simp add: upt_conv_Cons map_Suc_upt[symmetric] MM_VIRT_PAGE_SIZE_def algebra_simps del: upt_Suc)
    have IH: "mmap_search t len lst (cand + MM_VIRT_PAGE_SIZE) s =
        Some (Inr (List.find (\<lambda>c. \<not> ov c) (map (\<lambda>k. (cand + MM_VIRT_PAGE_SIZE) + of_nat k * 4096) [0 ..< n])))"
      unfolding n_def using nx le by (intro less) simp
    show ?thesis unfolding n m using True IH assms(1)[of cand] by (subst mmap_search.simps) simp
  qed
qed

subsection \<open>Placing a mapping\<close>

lemma div_gt_mult: "(k :: nat) < n div 4096 \<Longrightarrow> 4096 * k + 4096 \<le> n"
  using mult_le_mono2[of "Suc k" "n div 4096" 4096] times_div_less_eq_dividend[of 4096 n] by simp

lemma round_to_page_ok:
  "\<exists>r. task__round_to_page len = Inr r \<and> (\<forall>l. r = Some l \<longrightarrow>
    0 < unat len \<and> unat len \<le> unat l \<and> unat l < unat len + 4096 \<and> unat l mod 4096 = 0)"
proof (cases "len = 0 \<or> len > - 1 - (MM_VIRT_PAGE_SIZE - 1)")
  case True
  then show ?thesis by (intro exI[of _ None]) (auto simp: task__round_to_page_def)
next
  case False
  have m: "unat (- 1 - (MM_VIRT_PAGE_SIZE - 1)) = 18446744073709547520" by (simp add: MM_VIRT_PAGE_SIZE_def)
  have l: "0 < unat len" "unat len \<le> 18446744073709547520"
    using False m by (auto simp: word_less_nat_alt not_less unat_gt_0)
  have b: "unat len \<le> round_up (unat len) 4096" "round_up (unat len) 4096 < unat len + 4096" "4096 dvd round_up (unat len) 4096"
    using round_up_bounds[of 4096 "unat len"] by auto
  then have "round_up (unat len) 4096 < 2 ^ 64 \<or> round_up (unat len) 4096 = 2 ^ 64"
    using l by (auto simp: dvd_def)
  moreover have "round_up (unat len) 4096 \<le> 18446744073709547520"
    using round_up_least[of 4096 "unat len" 4503599627370495] l by simp
  ultimately have "round_up (unat len) (unat (4096 :: u64)) < 2 ^ 64" by simp
  then obtain r where "align_size_up len 4096 = Inr r" "unat r = round_up (unat len) 4096"
    using align_size_up_exact[of 4096 len] by auto
  with b l False show ?thesis
    by (intro exI[of _ "Some r"]) (auto simp: task__round_to_page_def MM_VIRT_PAGE_SIZE_def dvd_eq_mod_eq_0)
qed

text \<open>A range a mapping of \<open>l\<close> bytes may take.\<close>

definition free_range :: "'a ksys_scheme \<Rightarrow> nat list \<Rightarrow> u64 \<Rightarrow> usize \<Rightarrow> bool" where
  "free_range s ms a l \<longleftrightarrow> a \<noteq> 0 \<and> page_aligned a \<and> unat a + unat l \<le> unat USER_STARTUP_BASE \<and>
     (\<forall>m \<in> set ms. {unat a ..< unat a + unat l} \<inter> region (maps s m) = {})"

lemma overlaps_disjoint:
  assumes "task_maps t s ms" "unat a + unat l < 2 ^ 64" "0 < unat l"
  shows "task__mapping_overlaps t a l s = Inr (\<not> (\<forall>m \<in> set ms. {unat a ..< unat a + unat l} \<inter> region (maps s m) = {}))"
proof -
  have "(a + l \<le> tm_vaddr (maps s m) \<or> tm_end (maps s m) \<le> a) \<longleftrightarrow> {unat a ..< unat a + unat l} \<inter> region (maps s m) = {}"
    if "m \<in> set ms" for m
    using no_overlap_iff[OF _ assms(2,3)] assms(1) that by (simp add: task_maps_def)
  then show ?thesis using mapping_overlaps_eq[of s t ms a l] assms(1) by (simp add: task_maps_def)
qed

lemma mmap_place_fixed:
  assumes "task_maps t s ms" "0 < unat l" "flags AND TASK_MMAP_FIXED \<noteq> 0"
  shows "\<exists>r. mmap_place t addr l flags s = Inr r \<and> (\<forall>a. r = Some a \<longrightarrow> a = addr \<and> free_range s ms a l)"
proof (cases "addr = 0 \<or> \<not> page_aligned addr \<or> addr > USER_STACK_TOP \<or> l > USER_STACK_TOP - addr \<or> task__range_hits_reserved addr l")
  case True
  then have "mmap_place t addr l flags s = Inr None"
    using assms(3) by (auto simp: mmap_place_def MM_VIRT_PAGE_SIZE_def)
  then show ?thesis by simp
next
  case False
  have a: "unat addr \<le> 140737488347136" "unat l \<le> 140737488347136 - unat addr"
    using False by (auto simp: not_less word_le_nat_alt unat_sub user_constants)
  then have "unat (addr + l) = unat addr + unat l" by (intro unat_add_u64) simp
  then have "unat addr + unat l \<le> 140737471578112"
    using False a assms(2) by (auto simp: task__range_hits_reserved_def word_le_nat_alt user_constants)
  moreover have "mmap_place t addr l flags s =
      Inr (if \<forall>m \<in> set ms. {unat addr ..< unat addr + unat l} \<inter> region (maps s m) = {} then Some addr else None)"
    using False assms(3) overlaps_disjoint[OF assms(1), of addr l] a assms(2)
    by (simp add: mmap_place_def MM_VIRT_PAGE_SIZE_def)
  ultimately show ?thesis using False by (auto simp: free_range_def user_constants)
qed

lemma mmap_place_search:
  assumes "task_maps t s ms" "0 < unat l" "unat l mod 4096 = 0" "flags AND TASK_MMAP_FIXED = 0"
  shows "\<exists>r. mmap_place t addr l flags s = Inr r \<and> (\<forall>a. r = Some a \<longrightarrow> free_range s ms a l)"
proof (cases "l > USER_STARTUP_BASE - MMAP_SEARCH_BASE")
  case True
  then show ?thesis using assms(4) by (simp add: mmap_place_def)
next
  case False
  have l: "unat l \<le> 140737471578112 - 17592186044416"
    using False by (simp add: not_less word_le_nat_alt USER_STARTUP_BASE_def MMAP_SEARCH_BASE_def)
  have lst: "unat (USER_STARTUP_BASE - l) = 140737471578112 - unat l"
    using l by (subst unat_sub) (auto simp: word_le_nat_alt user_constants)
  define ov where "ov c = (\<exists>m \<in> set ms. \<not> (c + l \<le> tm_vaddr (maps s m) \<or> tm_end (maps s m) \<le> c))" for c
  let ?cs = "map (\<lambda>k. MMAP_SEARCH_BASE + of_nat k * 4096) [0 ..< (unat (USER_STARTUP_BASE - l) + 4096 - unat MMAP_SEARCH_BASE) div 4096]"
  have p: "mmap_place t addr l flags s = Inr (List.find (\<lambda>c. \<not> ov c) ?cs)"
    using False assms(4) mmap_search_first[of t l s ov "USER_STARTUP_BASE - l" MMAP_SEARCH_BASE] lst
      mapping_overlaps_eq[of s t ms _ l] assms(1)
    by (simp add: mmap_place_def ended_def ov_def task_maps_def)
  have "free_range s ms a l" if r: "List.find (\<lambda>c. \<not> ov c) ?cs = Some a" for a
  proof -
    obtain k where k: "k < (unat (USER_STARTUP_BASE - l) + 4096 - unat MMAP_SEARCH_BASE) div 4096"
      "a = MMAP_SEARCH_BASE + of_nat k * 4096" "\<not> ov a"
      using r by (auto simp: find_Some_iff)
    have kb: "4096 * k + 17592186044416 \<le> 140737471578112 - unat l"
      using div_gt_mult[OF k(1)] lst l by (simp add: user_constants)
    then have "unat (of_nat k * 4096 :: u64) = 4096 * k"
      by (subst unat_mult_u64) (auto simp: unat_of_nat_u64)
    then have ua: "unat a = 17592186044416 + 4096 * k"
      unfolding k(2) using kb by (subst unat_add_u64) (auto simp: user_constants)
    have fit: "unat a + unat l \<le> 140737471578112" using ua kb l by linarith
    have "page_aligned a" unfolding page_aligned_def ua by presburger
    moreover have "\<forall>m \<in> set ms. {unat a ..< unat a + unat l} \<inter> region (maps s m) = {}"
      using k(3) fit assms(1,2) no_overlap_iff[of _ a l] by (auto simp: ov_def task_maps_def)
    ultimately show ?thesis using fit ua by (auto simp: free_range_def user_constants)
  qed
  then show ?thesis using p by auto
qed

subsection \<open>Adding and removing a mapping\<close>

lemma map_shape_eq:
  "tm_vaddr k = tm_vaddr k' \<Longrightarrow> tm_page_count k = tm_page_count k' \<Longrightarrow> region k = region k' \<and> map_ok k = map_ok k'"
  by (simp add: region_def map_ok_def)

lemma task_maps_cong:
  assumes "maps s' = maps s" "live s' = live s" "mappings (tasks s' t) = mappings (tasks s t)"
  shows "task_maps t s' ms = task_maps t s ms"
  using assms by (simp add: task_maps_def)

lemma add_mapping_ok:
  assumes "task_maps t s ms" "malloc_ok s" "task__add_mapping t s = Inr (m, s1)"
    and "free_range s ms a l" "unat pc * 4096 = unat l" "0 < unat l"
    and "s' = upd_map m (\<lambda>k. k\<lparr>tm_vaddr := a, tm_flags := fl, tm_page_count := pc\<rparr>) s1"
  shows "task_maps t s' (m # ms) \<and> tm_vaddr (maps s' m) = a \<and> tm_page_count (maps s' m) = pc \<and>
    (\<forall>m' \<in> set ms. region (maps s' m') = region (maps s m')) \<and> tm_flags (maps s' m) = fl \<and>
    live s' = insert m (live s) \<and> m \<notin> live s"
proof -
  let ?h = "mappings (tasks s t)"
  obtain b where b: "allocate_obj SIZEOF_TASK_MAPPING s = Inr (m, b)"
    using assms(3) by (auto simp: task__add_mapping_def outcome_simps Let_def)
  have alloc: "allocate_obj SIZEOF_TASK_MAPPING s = Inr (m, s\<lparr>live := insert m (live s)\<rparr>)" "m \<notin> live s"
    using b allocate_obj_fresh[OF assms(2) b] by auto
  let ?k = "\<lparr>tm_vaddr = a, tm_flags = fl, tm_page_count = pc, tm_prev = None, tm_next = ?h\<rparr>"
  have mx: "m \<notin> set ms" using assms(1) alloc(2) by (auto simp: task_maps_def)
  have h: "?h = Some h \<Longrightarrow> h \<in> set ms" for h using assms(1) first_of_set[of ms h] by (auto simp: task_maps_def dll_def)
  have maps': "maps s' = (\<lambda>i. if i = m then ?k else if ?h = Some i then (maps s i)\<lparr>tm_prev := Some m\<rparr> else maps s i)"
    using assms(3,7) alloc(1) h mx
    by (auto simp: task__add_mapping_def Let_def fun_eq_iff split: option.splits)
  have rest: "live s' = insert m (live s)" "mappings (tasks s' t) = Some m"
    using assms(3,7) alloc(1) by (auto simp: task__add_mapping_def Let_def split: option.splits)
  have shape: "region (maps s' i) = region (maps s i)" "map_ok (maps s' i) = map_ok (maps s i)" if "i \<in> set ms" for i
    using that mx map_shape_eq[of "maps s' i" "maps s i"] by (auto simp: maps')
  have "dll (\<lambda>i. tm_prev (maps s' i)) (\<lambda>i. tm_next (maps s' i)) (Some m) (last_of (m # ms) None) (m # ms)"
    using assms(1) mx by (intro dll_push_front[where p = "\<lambda>i. tm_prev (maps s i)" and n = "\<lambda>i. tm_next (maps s i)" and h = ?h
      and t = "last_of ms None"]) (auto simp: task_maps_def maps' last_of_def)
  moreover have "map_ok (maps s' m)" using assms(4-6) by (auto simp: maps' map_ok_def free_range_def)
  moreover have "tm_vaddr (maps s' m) = a" "tm_page_count (maps s' m) = pc" "tm_flags (maps s' m) = fl" by (simp_all add: maps')
  moreover have "region (maps s' m) = {unat a ..< unat a + unat l}" using assms(5) by (simp add: maps' region_def)
  then have "region (maps s' m) \<inter> region (maps s' i) = {}" "region (maps s' i) \<inter> region (maps s' m) = {}" if "i \<in> set ms" for i
    using assms(4) that shape(1)[OF that] by (auto simp: free_range_def Int_commute)
  moreover have "region (maps s' i) \<inter> region (maps s' j) = {}" if "i \<in> set ms" "j \<in> set ms" "i \<noteq> j" for i j
    using assms(1) that shape(1) by (simp add: task_maps_def)
  moreover have "i \<in> live s' \<and> map_ok (maps s' i)" if "i \<in> set ms" for i
    using assms(1) that shape(2) rest(1) by (simp add: task_maps_def)
  ultimately show ?thesis using rest shape(1) alloc(2) unfolding task_maps_def by auto
qed

text \<open>The whole of \<^verbatim>\<open>task_mmap\<close>: what it does after the placement.\<close>

lemma mmap_place_ok:
  assumes "task_maps t s ms" "0 < unat l" "unat l mod 4096 = 0"
  shows "\<exists>r. mmap_place t addr l flags s = Inr r \<and> (\<forall>a. r = Some a \<longrightarrow> free_range s ms a l)"
  using mmap_place_fixed[OF assms(1,2), of flags addr] mmap_place_search[OF assms, of flags addr] by blast

lemma page_count_exact: "unat l mod 4096 = 0 \<Longrightarrow> unat (l div MM_VIRT_PAGE_SIZE) * 4096 = unat l"
  by (simp add: MM_VIRT_PAGE_SIZE_def unat_div mod_eq_0_iff_dvd)

lemma task_mmap_cases:
  assumes "task_maps t s ms" "malloc_ok s" "task_mmap (Some t) addr len flags s = Inr (a, s')"
  shows "if a = 0 then task_maps t s' ms \<and> maps s' = maps s
    else \<exists>m. task_maps t s' (m # ms) \<and> tm_vaddr (maps s' m) = a \<and> 0 < unat len \<and>
      unat len \<le> unat (tm_page_count (maps s' m)) * 4096 \<and> unat (tm_page_count (maps s' m)) * 4096 < unat len + 4096 \<and>
      (\<forall>m' \<in> set ms. region (maps s' m') = region (maps s m')) \<and> tm_flags (maps s' m) = flags \<and>
      live s' = insert m (live s) \<and> m \<notin> live s"
proof -
  obtain r where r: "task__round_to_page len = Inr r"
    "\<And>l. r = Some l \<Longrightarrow> 0 < unat len \<and> unat len \<le> unat l \<and> unat l < unat len + 4096 \<and> unat l mod 4096 = 0"
    using round_to_page_ok[of len] by blast
  show ?thesis
  proof (cases r)
    case None
    then show ?thesis using assms r(1) by (simp add: task_mmap_def)
  next
    case (Some l)
    note l = r(2)[OF Some]
    obtain q where q: "mmap_place t addr l flags s = Inr q" "\<And>b. q = Some b \<Longrightarrow> free_range s ms b l"
      using mmap_place_ok[OF assms(1), of l addr flags] l by auto
    show ?thesis
    proof (cases q)
      case None
      then show ?thesis using assms r(1) Some q(1) by (simp add: task_mmap_def)
    next
      case b: (Some b)
      let ?pc = "l div MM_VIRT_PAGE_SIZE"
      obtain ok s1 where s1: "(if flags AND TASK_MMAP_ACCESS_READ \<noteq> 0
          then rbind (task_pmap t s) (\<lambda>pm. with_km (mmap_pages pm b flags [0..<unat ?pc]) s) else Inr (True, s)) = Inr (ok, s1)"
        "(if \<not> ok then Inr (0, s1) else rbind (task__add_mapping t s1) (\<lambda>(m, s).
            Inr (b, upd_map m (\<lambda>k. k\<lparr>tm_vaddr := b, tm_flags := flags, tm_page_count := ?pc\<rparr>) s))) = Inr (a, s')"
        using assms(3) r(1) Some q(1) b by (auto simp: task_mmap_def Let_def outcome_simps)
      have "\<exists>k. s1 = s\<lparr>km := k\<rparr>" using s1(1)
        by (auto simp: with_km_def outcome_simps split: if_splits intro: exI[of _ "km s"])
      then have fr: "maps s1 = maps s" "live s1 = live s" "tasks s1 = tasks s" "malloc_ok s1"
        using assms(2) by (auto simp: malloc_ok_def)
      have tm: "task_maps t s1 ms" "free_range s1 ms b l" "b \<noteq> 0"
        using task_maps_cong[of s1 s t ms] assms(1) fr q(2)[OF b] by (auto simp: free_range_def)
      show ?thesis
      proof (cases ok)
        case False
        then show ?thesis using s1(2) tm(1) fr by simp
      next
        case True
        then obtain m s2 where m: "task__add_mapping t s1 = Inr (m, s2)" "a = b"
          "s' = upd_map m (\<lambda>k. k\<lparr>tm_vaddr := b, tm_flags := flags, tm_page_count := ?pc\<rparr>) s2"
          using s1(2) by (auto simp: outcome_simps)
        from add_mapping_ok[OF tm(1) fr(4) m(1) tm(2) page_count_exact _ m(3)] l tm(3) m(2) fr(1) page_count_exact[of l] fr(2)
        show ?thesis by auto
      qed
    qed
  qed
qed

end
