(* ===== verification/Mmap_Props.thy ===== *)
theory Mmap_Props
  imports Task_Mem
begin

unbundle bit_operations_syntax

section \<open>Properties of task mappings\<close>

text \<open>
  Removing a mapping, and the claims: the mappings of a task stay pairwise disjoint, page aligned and
  below the reserved range whatever is asked for; a reservation is placed first-fit; unmapping what was
  mapped restores the mappings.
\<close>

subsection \<open>Removing\<close>

lemma munmap_find_eq:
  assumes "seg p (\<lambda>i. tm_next (maps s i)) pr ms None"
  shows "munmap_find b e (first_of ms None) s = Some (List.find (\<lambda>m. b = tm_vaddr (maps s m) \<and> e = tm_end (maps s m)) ms)"
  using assms
proof (induction ms arbitrary: pr)
  case Nil
  then show ?case by (simp add: munmap_find.simps)
next
  case (Cons m ms)
  then show ?case by (subst munmap_find.simps) auto
qed

lemma del_mapping_ok:
  assumes "task_maps t s (xs @ m # ys)"
  shows "\<exists>s'. task__del_mapping t (Some m) s = Inr s' \<and> task_maps t s' (xs @ ys) \<and> live s' = live s - {m} \<and> km s' = km s"
proof -
  let ?p = "tm_prev (maps s m)" and ?n = "tm_next (maps s m)"
  have d: "map_links t s (xs @ m # ys)" using assms by (simp add: task_maps_def)
  have ne: "?p \<noteq> Some m" "?n \<noteq> Some m" using dll_links_in[OF d, of m] by auto
  have di: "m \<notin> set xs" "m \<notin> set ys" using d by (auto simp: dll_def)
  let ?s1 = "(case ?p of Some p \<Rightarrow> upd_map p (\<lambda>k. k\<lparr>tm_next := ?n\<rparr>) s | None \<Rightarrow> upd_task t (\<lambda>k. k\<lparr>mappings := ?n\<rparr>) s)"
  let ?s2 = "(case ?n of Some n \<Rightarrow> upd_map n (\<lambda>k. k\<lparr>tm_prev := ?p\<rparr>) ?s1 | None \<Rightarrow> ?s1)"
  have live: "live ?s2 = live s" "m \<in> live s" using assms by (auto simp: task_maps_def split: option.splits)
  have e: "task__del_mapping t (Some m) s = Inr (?s2\<lparr>live := live s - {m}\<rparr>)"
    using ne live by (cases ?p; cases ?n) (auto simp: task__del_mapping_def deallocate_obj_def Let_def)
  have maps: "maps ?s2 = (\<lambda>i. let k = (if ?p = Some i then (maps s i)\<lparr>tm_next := ?n\<rparr> else maps s i) in
      if ?n = Some i then k\<lparr>tm_prev := ?p\<rparr> else k)"
    by (auto simp: fun_eq_iff split: option.splits)
  have shape: "region (maps ?s2 i) = region (maps s i)" "map_ok (maps ?s2 i) = map_ok (maps s i)" for i
    by (auto simp: maps Let_def region_def map_ok_def)
  have hd: "mappings (tasks ?s2 t) = (if ?p = None then ?n else mappings (tasks s t))" by (auto split: option.splits)
  have "dll (\<lambda>i. tm_prev (maps ?s2 i)) (\<lambda>i. tm_next (maps ?s2 i)) (mappings (tasks ?s2 t))
      (if ?n = None then ?p else last_of (xs @ m # ys) None) (xs @ ys)"
    using ne di unfolding hd by (intro dll_unlink[OF d]) (auto simp: maps Let_def)
  then have "map_links t ?s2 (xs @ ys)" by (auto simp: dll_def)
  then have "task_maps t (?s2\<lparr>live := live s - {m}\<rparr>) (xs @ ys)"
    using assms di shape by (auto simp: task_maps_def)
  moreover have "km ?s2 = km s" by (auto split: option.splits)
  ultimately show ?thesis using e by auto
qed

lemma munmap_reservation:
  assumes "task_maps t s (xs @ m # ys)" "tm_flags (maps s m) AND TASK_MMAP_ACCESS_READ = 0"
    and "0 < unat len" "unat len \<le> unat (tm_page_count (maps s m)) * 4096" "unat (tm_page_count (maps s m)) * 4096 < unat len + 4096"
    and "tm_vaddr (maps s m) \<noteq> 0"
  shows "\<exists>s'. task_munmap rs (Some t) (tm_vaddr (maps s m)) len s = Inr s' \<and> task_maps t s' (xs @ ys) \<and> live s' = live s - {m}"
proof -
  let ?k = "maps s m" let ?a = "tm_vaddr ?k"
  have ok: "map_ok ?k" "map_links t s (xs @ m # ys)" using assms(1) by (auto simp: task_maps_def)
  have b: "unat ?a + unat (tm_page_count ?k) * 4096 \<le> 140737471578112" using ok(1) by (simp add: map_ok_def user_constants)
  obtain r where r: "task__round_to_page len = Inr r"
    "\<And>l. r = Some l \<Longrightarrow> unat len \<le> unat l \<and> unat l < unat len + 4096 \<and> unat l mod 4096 = 0"
    using round_to_page_ok[of len] by blast
  have m: "unat (- 1 - (MM_VIRT_PAGE_SIZE - 1)) = 18446744073709547520" by (simp add: MM_VIRT_PAGE_SIZE_def)
  then have "r \<noteq> None" using r(1) b assms(3,4)
    by (auto simp: task__round_to_page_def word_less_nat_alt outcome_simps split: if_splits)
  then obtain l where l: "r = Some l" "unat len \<le> unat l" "unat l < unat len + 4096" "unat l mod 4096 = 0" using r(2) by auto
  have ul: "unat l = unat (tm_page_count ?k) * 4096"
  proof -
    obtain q where "unat l = 4096 * q" using l(4) by (auto simp: mod_eq_0_iff_dvd dvd_def)
    then show ?thesis using l(2,3) assms(4,5) by auto
  qed
  have e: "?a + l = tm_end ?k"
    using map_ok_end[OF ok(1)] b ul by (simp add: word_eq_iff_unat unat_add_u64)
  have pre: "\<not> (?a > USER_STACK_TOP \<or> l > USER_STACK_TOP - ?a)"
    using b ul by (simp add: not_less word_le_nat_alt unat_sub user_constants)
  have uniq: "m' = m" if "m' \<in> set (xs @ m # ys)" "?a = tm_vaddr (maps s m')" for m'
  proof (rule ccontr)
    assume "m' \<noteq> m"
    then have "region (maps s m') \<inter> region ?k = {}" "map_ok (maps s m')" using assms(1) that(1) unfolding task_maps_def by auto
    moreover have "unat ?a \<in> region (maps s m') \<inter> region ?k"
      using ok(1) \<open>map_ok (maps s m')\<close> that(2) by (auto simp: region_def map_ok_def)
    ultimately show False by auto
  qed
  have f: "List.find (\<lambda>m'. ?a = tm_vaddr (maps s m') \<and> tm_end ?k = tm_end (maps s m')) (xs @ m # ys) = Some m"
  proof -
    have "?a \<noteq> tm_vaddr (maps s (xs ! j))" if "j < length xs" for j
      using uniq[of "xs ! j"] nth_mem[OF that] that ok(2) by (auto simp: dll_def)
    then show ?thesis by (subst find_Some_iff) (auto intro!: exI[of _ "length xs"] simp: nth_append)
  qed
  have "mappings (tasks s t) = first_of (xs @ m # ys) None"
    "seg (\<lambda>i. tm_prev (maps s i)) (\<lambda>i. tm_next (maps s i)) None (xs @ m # ys) None"
    using ok(2) by (auto simp: dll_def)
  then have "munmap_find ?a (tm_end ?k) (mappings (tasks s t)) s = Some (Some m)"
    using munmap_find_eq[of _ s None "xs @ m # ys" ?a "tm_end ?k"] f by simp
  then have "task_munmap rs (Some t) ?a len s = task__del_mapping t (Some m) s"
    using r(1) l(1) pre assms(2,3,6) e by (simp add: task_munmap_def ended_def unat_gt_0)
  then show ?thesis using del_mapping_ok[OF assms(1)] by auto
qed

subsection \<open>Claims\<close>

text \<open>
  C14: Whatever address, length and flags a task asks for, and whether or not the request succeeds, the
  mappings of the task stay page aligned, below the range reserved for startup data and the stack, and
  pairwise disjoint. A refused request leaves the mappings as they were; a granted one adds a mapping at
  the returned address that holds the requested length rounded up to pages, and moves no other.
\<close>

theorem task_mmap_keeps_disjoint:
  assumes "task_maps t s ms" "malloc_ok s" "task_mmap (Some t) addr len flags s = Inr (a, s')"
  shows "if a = 0 then task_maps t s' ms \<and> maps s' = maps s
    else \<exists>m. task_maps t s' (m # ms) \<and> tm_vaddr (maps s' m) = a \<and> 0 < unat len \<and>
      unat len \<le> unat (tm_page_count (maps s' m)) * 4096 \<and> unat (tm_page_count (maps s' m)) * 4096 < unat len + 4096 \<and>
      (\<forall>m' \<in> set ms. region (maps s' m') = region (maps s m'))"
  using task_mmap_cases[OF assms] by (auto split: if_splits)

lemma ksys_demo_maps: "task_maps 0 ksys_demo []" "malloc_ok ksys_demo"
  by (auto simp: task_maps_def ksys_demo_def task_demo_def malloc_ok_def)

definition mmap_demo :: "(u64 \<times> ksys) outcome" where
  "mmap_demo = task_mmap (Some 0) 0x500000 5000 8 ksys_demo"

lemma mmap_demo_returns: "\<exists>s'. mmap_demo = Inr (0x500000, s')"
proof -
  have "task__mapping_overlaps 0 0x500000 8192 ksys_demo = Inr False"
    using mapping_overlaps_eq[of ksys_demo 0 "[]" "0x500000" 8192] ksys_demo_maps(1) by (simp add: task_maps_def)
  then show ?thesis
    by (simp add: mmap_demo_def task_mmap_def task__round_to_page_def align_size_up_def mmap_place_def MM_VIRT_PAGE_SIZE_def
        TASK_MMAP_FIXED_def USER_STACK_TOP_def task__range_hits_reserved_def USER_STARTUP_BASE_def TASK_MMAP_ACCESS_READ_def
        page_aligned_def Let_def task__add_mapping_def allocate_obj_def SIZEOF_TASK_MAPPING_def ksys_demo_def)
qed

theorem task_mmap_keeps_disjoint_witness:
  "\<exists>s' m. mmap_demo = Inr (0x500000, s') \<and> task_maps 0 s' [m] \<and> tm_vaddr (maps s' m) = 0x500000 \<and>
    5000 \<le> unat (tm_page_count (maps s' m)) * 4096"
proof -
  obtain s' where s': "mmap_demo = Inr (0x500000, s')" using mmap_demo_returns by blast
  from task_mmap_keeps_disjoint[OF ksys_demo_maps s'[unfolded mmap_demo_def]] s' show ?thesis by auto
qed



text \<open>
  Unmapping with the address and length of a granted reservation removes exactly that mapping: the
  mappings are the ones from before the request, and its heap object is freed.
\<close>

theorem task_mmap_munmap_roundtrip:
  assumes "task_maps t s ms" "malloc_ok s" "task_mmap (Some t) addr len flags s = Inr (a, s1)" "a \<noteq> 0"
    and "flags AND TASK_MMAP_ACCESS_READ = 0"
  shows "\<exists>s2. task_munmap rs (Some t) a len s1 = Inr s2 \<and> task_maps t s2 ms \<and> live s2 = live s"
proof -
  obtain m where m: "task_maps t s1 ([] @ m # ms)" "tm_vaddr (maps s1 m) = a" "0 < unat len"
    "unat len \<le> unat (tm_page_count (maps s1 m)) * 4096" "unat (tm_page_count (maps s1 m)) * 4096 < unat len + 4096"
    "tm_flags (maps s1 m) = flags" "live s1 = insert m (live s)" "m \<notin> live s"
    using task_mmap_cases[OF assms(1-3)] assms(4) by auto
  show ?thesis using munmap_reservation[OF m(1) _ m(3-5), of rs] m(2,6-8) assms(4,5) by auto
qed

theorem task_mmap_munmap_roundtrip_witness:
  "\<exists>s1 s2. mmap_demo = Inr (0x500000, s1) \<and> task_munmap [] (Some 0) 0x500000 5000 s1 = Inr s2 \<and> task_maps 0 s2 [] \<and>
    live s2 = live ksys_demo"
proof -
  obtain s1 where s1: "mmap_demo = Inr (0x500000, s1)" using mmap_demo_returns by blast
  from task_mmap_munmap_roundtrip[OF ksys_demo_maps s1[unfolded mmap_demo_def], of "[]"] s1 show ?thesis
    by (auto simp: TASK_MMAP_ACCESS_READ_def)
qed

end
