(* ===== verification/Task_Init.thy ===== *)
theory Task_Init
  imports Task_Mem Alloc
begin

section \<open>Making and destroying tasks (kernel/proc/task.c)\<close>

text \<open>
  \<^verbatim>\<open>task_init\<close> and \<^verbatim>\<open>task_deinit\<close>, cut at the \<^verbatim>\<open>MARK\<close> comments of the source into one definition
  per part. Stacks are raw blocks of the kernel heap: which address the heap picks is the field
  \<open>malloc_raw\<close> of the state, \<open>raw_live\<close> are the blocks in use. The addresses of the assembly labels the code
  takes are the record \<open>code_syms\<close>. The wait queue item \<^verbatim>\<open>lifecycle.blocker\<close> of task \<open>t\<close> is item \<open>t\<close> of the
  store of items.

  The startup information of a user task is read and written as bytes: a \<^verbatim>\<open>str\<close> is 32 bytes (data, length,
  capacity, owned), a \<^verbatim>\<open>strv\<close> is 16 (items, count). An access through a user address reads and writes the cell
  at this address; pages shared with the direct map under another address are not aliases in the model.
\<close>

subsection \<open>Data\<close>

record task_desc =
  td_task_id :: u32
  td_kstack_size :: usize
  td_ustack_size :: usize
  td_fn :: u64
  td_arg :: u64
  td_pin :: task_pin
  td_flags :: u8
  td_uid :: u32
  td_gid :: u32

record code_syms =
  task_kernelmode_trampoline :: u64
  task_usermode_trampoline :: u64
  idle_task_fn :: u64

definition SIZEOF_STR :: u64 where "SIZEOF_STR = 32"
definition SIZEOF_STARTUP_INFO :: u64 where "SIZEOF_STARTUP_INFO = 32"

text \<open>The fields of a startup structure and of the strings of an array.\<close>

definition si_args_items :: "uptr \<Rightarrow> memory \<Rightarrow> u64" where "si_args_items info m = load64 m info"
definition si_args_count :: "uptr \<Rightarrow> memory \<Rightarrow> u64" where "si_args_count info m = load64 m (info + 8)"
definition si_envvars_items :: "uptr \<Rightarrow> memory \<Rightarrow> u64" where "si_envvars_items info m = load64 m (info + 16)"
definition si_envvars_count :: "uptr \<Rightarrow> memory \<Rightarrow> u64" where "si_envvars_count info m = load64 m (info + 24)"

definition str_item :: "uptr \<Rightarrow> nat \<Rightarrow> uptr" where "str_item items i = items + of_nat i * SIZEOF_STR"
definition str_data :: "uptr \<Rightarrow> memory \<Rightarrow> u64" where "str_data p m = load64 m p"
definition str_length :: "uptr \<Rightarrow> memory \<Rightarrow> u64" where "str_length p m = load64 m (p + 8)"

subsection \<open>The size of the startup information\<close>

definition add_lengths :: "uptr \<Rightarrow> usize \<Rightarrow> memory \<Rightarrow> usize \<Rightarrow> usize outcome" where
  "add_lengths items count m tot =
     for_r (\<lambda>i tot. rbind (align_size_up (str_length (str_item items i) m) 16) (\<lambda>n. Inr (tot + n))) [0..<unat count] tot"

definition task_user_startup_info__get_size :: "uptr \<Rightarrow> memory \<Rightarrow> usize outcome" where
  "task_user_startup_info__get_size info m =
     rbind (align_size_up SIZEOF_STARTUP_INFO 16) (\<lambda>tot.
     rbind (align_size_up (si_args_count info m * SIZEOF_STR) 16) (\<lambda>n.
     let tot = tot + n in
     rbind (align_size_up (si_envvars_count info m * SIZEOF_STR) 16) (\<lambda>n.
     let tot = tot + n in
     rbind (add_lengths (si_args_items info m) (si_args_count info m) m tot) (\<lambda>tot.
     add_lengths (si_envvars_items info m) (si_envvars_count info m) m tot))))"

definition task_vaddr_to_kernel_vaddr :: "pmap_ptr \<Rightarrow> u64 \<Rightarrow> vmachine \<Rightarrow> (u64 \<times> vmachine) outcome" where
  "task_vaddr_to_kernel_vaddr pm va m =
     rbind (vmm_translate pm va m) (\<lambda>(pa, m). rbind (hhdm_p2v pa m) (\<lambda>kva. Inr (kva, m)))"

subsection \<open>Raw heap blocks\<close>

definition on_mem :: "(memory \<Rightarrow> memory) \<Rightarrow> vmachine \<Rightarrow> vmachine" where
  "on_mem f m = m\<lparr>mem := f (mem m)\<rparr>"

definition allocate_raw :: "usize \<Rightarrow> usize \<Rightarrow> 'a ksys_scheme \<Rightarrow> (uptr \<times> 'a ksys_scheme) outcome" where
  "allocate_raw sz align s =
     check (sz > 0) (check (align mod 2 = 0) (check (align \<ge> 16)
     (let p = malloc_raw s sz align (raw_live s) in
      check (p \<noteq> 0)
      (rbind (memset p 0 sz (mem (km s))) (\<lambda>(_, m).
       Inr (p, s\<lparr>km := (km s)\<lparr>mem := m\<rparr>, raw_live := insert (p, sz) (raw_live s)\<rparr>))))))"

definition deallocate_raw :: "uptr \<Rightarrow> 'a ksys_scheme \<Rightarrow> ('a ksys_scheme) outcome" where
  "deallocate_raw p s =
     (if p = 0 then Inr s
      else if p \<in> fst ` raw_live s then Inr (s\<lparr>raw_live := {b \<in> raw_live s. fst b \<noteq> p}\<rparr>)
      else Inl NullDeref)"

subsection \<open>The parts of task\_init\<close>

definition init_fields :: "nat \<Rightarrow> task_desc \<Rightarrow> 'a ksys_scheme \<Rightarrow> 'a ksys_scheme" where
  "init_fields self desc s =
     upd_task self (\<lambda>k. k\<lparr>t_id := td_task_id desc, t_pin := td_pin desc, t_flags := td_flags desc, t_uid := td_uid desc,
       t_gid := td_gid desc, refcount := 1, t_state := TH_TASK_STATE_NEW, t_context := context_zero\<rparr>) s"

definition init_kstack :: "nat \<Rightarrow> task_desc \<Rightarrow> 'a ksys_scheme \<Rightarrow> ('a ksys_scheme) outcome" where
  "init_kstack self desc s =
     (let guard = has_flag (td_flags desc) TH_TASK_FLAG_GUARDPAGE;
          kstack_size = (if guard then td_kstack_size desc + MM_VIRT_PAGE_SIZE else td_kstack_size desc) in
      rbind (allocate_raw kstack_size MM_VIRT_PAGE_SIZE s) (\<lambda>(p, s).
      Inr (upd_task self (\<lambda>k. k\<lparr>kstack := \<lparr>st_base = p,
        st_limit = (if guard then p + MM_VIRT_PAGE_SIZE else p), st_size = td_kstack_size desc\<rparr>\<rparr>) s)))"

definition init_ustack :: "nat \<Rightarrow> task_desc \<Rightarrow> 'a ksys_scheme \<Rightarrow> ('a ksys_scheme) outcome" where
  "init_ustack self desc s =
     (if has_flag (td_flags desc) TH_TASK_FLAG_KERNEL
      then Inr (upd_task self (\<lambda>k. k\<lparr>ustack := \<lparr>st_base = 0, st_limit = 0, st_size = 0\<rparr>\<rparr>) s)
      else
        rbind (allocate_raw (td_ustack_size desc) MM_VIRT_PAGE_SIZE s) (\<lambda>(p, s).
        Inr (upd_task self (\<lambda>k. k\<lparr>ustack := \<lparr>st_base = p, st_limit = p, st_size = td_ustack_size desc\<rparr>\<rparr>) s)))"

definition init_pmap :: "nat \<Rightarrow> 'a ksys_scheme \<Rightarrow> ('a ksys_scheme) outcome" where
  "init_pmap self s =
     rbind (allocate_obj SIZEOF_PAGE_MAP s) (\<lambda>(p, s).
     rbind (with_km vmm_make_page_map s) (\<lambda>(pm, s).
     Inr (upd_task self (\<lambda>k. k\<lparr>pmap := Some p, mappings := None\<rparr>) (s\<lparr>pmaps := (pmaps s)(p := pm)\<rparr>))))"

definition map_ustack :: "nat \<Rightarrow> 'a ksys_scheme \<Rightarrow> ('a ksys_scheme) outcome" where
  "map_ustack self s =
     (let size = st_size (ustack (tasks s self)); ustack_vbase = USER_STACK_TOP - size in
      rbind (task_pmap self s) (\<lambda>pm.
      on_km (for_r (\<lambda>i m.
        rbind (vmm_translate vmm_get_kernel_page_map (st_base (ustack (tasks s self)) + of_nat i * MM_VIRT_PAGE_SIZE) m) (\<lambda>(upa, m).
        vmm_map pm (ustack_vbase + of_nat i * MM_VIRT_PAGE_SIZE) upa
          (MM_PT_FLAG_VALID OR MM_PT_FLAG_WRITE OR MM_PT_FLAG_USER OR MM_PT_FLAG_NX) MM_PAGE_4KB m))
        [0..<unat (size div MM_VIRT_PAGE_SIZE)]) s))"

definition init_links :: "nat \<Rightarrow> 'a ksys_scheme \<Rightarrow> 'a ksys_scheme" where
  "init_links self s =
     (let s = upd_task self (\<lambda>k. k\<lparr>last_processor_id := 0, sib_prev := None, sib_next := None, joiners := waitqueue_init (joiners k)\<rparr>) s in
      s\<lparr>wq_prev := (wq_prev s)(self := None), wq_next := (wq_next s)(self := None),
        wq_waiter := (wq_waiter s)(self := \<lparr>wake = None, udata = None\<rparr>)\<rparr>)"

subsection \<open>The console capability (kernel/proc/capabilities/console.c)\<close>

text \<open>Function pointer 1 of a capability is \<^verbatim>\<open>console_cap_write\<close>.\<close>

definition console_cap_ops :: cap_ops where
  "console_cap_ops = \<lparr>op_release = None, op_read = None, op_write = Some 1, op_invoke = None, op_map = None, op_ctl = None\<rparr>"

definition make_console_cap :: "'a ksys_scheme \<Rightarrow> (ref \<times> 'a ksys_scheme) outcome" where
  "make_console_cap s =
     rbind (allocate_obj SIZEOF_CAP_OBJ s) (\<lambda>(c, s).
     rbind (cap_obj_init (Some c) console_cap_ops s) (\<lambda>s. Inr (Some c, s)))"

definition CONSOLE_CAP_ID :: u32 where "CONSOLE_CAP_ID = 0x10000"

definition init_caps :: "('a ksys_ext) release_fn \<Rightarrow> nat \<Rightarrow> 'a ksys_scheme \<Rightarrow> ('a ksys_scheme) outcome" where
  "init_caps rel self s =
     rbind (cap_table_init 16 (capabilities (tasks s self)) s) (\<lambda>t.
     rbind (make_console_cap s) (\<lambda>(console, s).
     rbind (cap_table_set CONSOLE_CAP_ID console CAP_RIGHT_WRITE 0 t s) (\<lambda>(ok, t, s).
     let s = upd_task self (\<lambda>k. k\<lparr>capabilities := t\<rparr>) s in
     check ok (cap_obj_decref rel console s))))"

subsection \<open>Copying the startup information of a user task\<close>

definition map_startup :: "pmap_ptr \<Rightarrow> usize \<Rightarrow> vmachine \<Rightarrow> vmachine outcome" where
  "map_startup pm page_count m =
     for_r (\<lambda>i m.
       rbind (pmm_alloc 1 m) (\<lambda>(paddr, m).
       rbind (hhdm_p2v paddr m) (\<lambda>kva.
       rbind (memset kva 0 MM_VIRT_PAGE_SIZE (mem m)) (\<lambda>(_, bytes).
       vmm_map pm (USER_STARTUP_BASE + of_nat i * MM_VIRT_PAGE_SIZE) paddr
         (MM_PT_FLAG_VALID OR MM_PT_FLAG_USER OR MM_PT_FLAG_NX) MM_PAGE_4KB (m\<lparr>mem := bytes\<rparr>)))))
       [0..<unat page_count] m"

text \<open>The raw bump of the arena: the memory it is given is not touched.\<close>

definition bump :: "usize \<Rightarrow> arena \<times> vmachine \<Rightarrow> (uptr \<times> arena \<times> vmachine) outcome" where
  "bump sz am = (case am of (a, m) \<Rightarrow> rbind (arena_allocate sz (a, mem m)) (\<lambda>(p, a, bytes). Inr (p, a, m\<lparr>mem := bytes\<rparr>)))"

text \<open>The body of the two loops over strings: string \<open>i\<close> of the array at \<open>src\<close> goes to the array at \<open>dst\<close>.\<close>

definition copy_str :: "pmap_ptr \<Rightarrow> uptr \<Rightarrow> uptr \<Rightarrow> nat \<Rightarrow> arena \<times> vmachine \<Rightarrow> (arena \<times> vmachine) outcome" where
  "copy_str pm src dst i am =
     (case am of (a, m) \<Rightarrow>
        let d = str_item src i; e = str_item dst i;
            m = on_mem (\<lambda>b. store64 (e + 16) (str_length d b) b) m;
            m = on_mem (\<lambda>b. store64 (e + 8) (str_length d b) b) m;
            m = on_mem (\<lambda>b. b(e + 24 := 1)) m in
        rbind (bump (str_length d (mem m)) (a, m)) (\<lambda>(p, a, m).
        let m = on_mem (store64 e p) m in
        rbind (task_vaddr_to_kernel_vaddr pm (str_data e (mem m)) m) (\<lambda>(datap, m).
        rbind (memcpy datap (str_data d (mem m)) (str_length e (mem m)) (mem m)) (\<lambda>(_, bytes).
        Inr (a, m\<lparr>mem := bytes\<rparr>)))))"

definition copy_strings :: "pmap_ptr \<Rightarrow> uptr \<Rightarrow> usize \<Rightarrow> uptr \<Rightarrow> arena \<times> vmachine \<Rightarrow> (arena \<times> vmachine) outcome" where
  "copy_strings pm src count dst = for_r (copy_str pm src dst) [0..<unat count]"

definition copy_startup :: "pmap_ptr \<Rightarrow> uptr \<Rightarrow> usize \<Rightarrow> vmachine \<Rightarrow> vmachine outcome" where
  "copy_startup pm info reqsz m =
     rbind (make_span USER_STARTUP_BASE reqsz) (\<lambda>sp.
     rbind (arena_init sp \<lparr>ar_memory = span_null, ar_offset = 0\<rparr>) (\<lambda>a.
     rbind (bump SIZEOF_STARTUP_INFO (a, m)) (\<lambda>(p, a, m).
     rbind (task_vaddr_to_kernel_vaddr pm p m) (\<lambda>(si, m).
     let m = on_mem (\<lambda>b. store64 (si + 8) (si_args_count info b) b) m in
     rbind (bump (si_args_count info (mem m) * SIZEOF_STR) (a, m)) (\<lambda>(p, a, m).
     let m = on_mem (store64 si p) m;
         m = on_mem (\<lambda>b. store64 (si + 24) (si_envvars_count info b) b) m in
     rbind (bump (si_envvars_count info (mem m) * SIZEOF_STR) (a, m)) (\<lambda>(p, a, m).
     let m = on_mem (store64 (si + 16) p) m in
     rbind (task_vaddr_to_kernel_vaddr pm (si_args_items si (mem m)) m) (\<lambda>(argsp, m).
     rbind (copy_strings pm (si_args_items info (mem m)) (si_args_count info (mem m)) argsp (a, m)) (\<lambda>(a, m).
     rbind (task_vaddr_to_kernel_vaddr pm (si_envvars_items si (mem m)) m) (\<lambda>(envp, m).
     rbind (copy_strings pm (si_envvars_items info (mem m)) (si_envvars_count info (mem m)) envp (a, m)) (\<lambda>(a, m).
     Inr m))))))))))"

text \<open>The address of the copy, 0 when the task has no startup information.\<close>

definition init_startup :: "nat \<Rightarrow> u64 \<Rightarrow> 'a ksys_scheme \<Rightarrow> (u64 \<times> 'a ksys_scheme) outcome" where
  "init_startup self arg s =
     (if arg = 0 then Inr (0, s)
      else
        rbind (task_user_startup_info__get_size arg (mem (km s))) (\<lambda>reqsz.
        rbind (align_size_up reqsz MM_VIRT_PAGE_SIZE) (\<lambda>sz.
        rbind (task_pmap self s) (\<lambda>pm.
        rbind (on_km (map_startup pm (sz div MM_VIRT_PAGE_SIZE)) s) (\<lambda>s.
        rbind (on_km (copy_startup pm arg reqsz) s) (\<lambda>s.
        Inr (USER_STARTUP_BASE, s)))))))"

subsection \<open>The first stack frame\<close>

text \<open>\<open>push v\<close> is \<^verbatim>\<open>*(--stack) = v\<close>.\<close>

definition push :: "u64 \<Rightarrow> u64 \<times> memory \<Rightarrow> u64 \<times> memory" where
  "push v st = (fst st - 8, store64 (fst st - 8) v (snd st))"

definition user_cs :: u64 where "user_cs = push_bit 3 8 OR 3"
definition user_ss :: u64 where "user_ss = push_bit 3 7 OR 3"

definition init_context :: "code_syms \<Rightarrow> nat \<Rightarrow> task_desc \<Rightarrow> 'a ksys_scheme \<Rightarrow> ('a ksys_scheme) outcome" where
  "init_context syms self desc s =
     (let stack_top = st_base (kstack (tasks s self)) + st_size (kstack (tasks s self));
          stack_top = stack_top AND NOT 0xF;
          finish = (\<lambda>tramp st s.
            upd_task self (\<lambda>k. k\<lparr>t_context := \<lparr>c_rsp = fst st, c_rbp = 0, c_rbx = 0, c_r12 = 0, c_r13 = 0, c_r14 = 0, c_r15 = 0,
              c_rip = tramp, c_rflags = 0x202\<rparr>\<rparr>) (s\<lparr>km := (km s)\<lparr>mem := snd st\<rparr>\<rparr>)) in
      if has_flag (td_flags desc) TH_TASK_FLAG_KERNEL
      then
        let st = (stack_top, mem (km s));
            st = push (td_arg desc) st;
            st = push (td_fn desc) st;
            st = push (task_kernelmode_trampoline syms) st in
        Inr (finish (task_kernelmode_trampoline syms) st s)
      else
        rbind (init_startup self (td_arg desc) s) (\<lambda>(user_startup_info_addr, s).
        let st = (stack_top, mem (km s));
            st = push user_ss st;
            st = push user_cs st;
            st = push USER_STACK_TOP st;
            st = push (td_fn desc) st;
            st = push user_startup_info_addr st;
            st = push (task_usermode_trampoline syms) st in
        Inr (finish (task_usermode_trampoline syms) st s)))"

definition task_init :: "code_syms \<Rightarrow> ('a ksys_ext) release_fn \<Rightarrow> ref \<Rightarrow> task_desc \<Rightarrow> 'a ksys_scheme \<Rightarrow> ('a ksys_scheme) outcome" where
  "task_init syms rel self desc s =
     (case self of
        None \<Rightarrow> Inl AssertFail
      | Some t \<Rightarrow>
          let kernel = has_flag (td_flags desc) TH_TASK_FLAG_KERNEL in
          check (kernel \<and> td_ustack_size desc = 0 \<or> \<not> kernel \<and> td_ustack_size desc > 0)
          (rbind (init_kstack t desc (init_fields t desc s)) (\<lambda>s.
           rbind (init_ustack t desc s) (\<lambda>s.
           rbind (init_pmap t s) (\<lambda>s.
           rbind (if \<not> kernel then map_ustack t s else Inr s) (\<lambda>s.
           rbind (init_caps rel t (init_links t s)) (\<lambda>s.
           init_context syms t desc s)))))))"

subsection \<open>Destroying a task\<close>

partial_function (option) free_mappings :: "ref \<Rightarrow> 'a ksys_scheme \<Rightarrow> (('a ksys_scheme) outcome) option" where
  "free_mappings m s =
     (case m of
        None \<Rightarrow> Some (Inr s)
      | Some i \<Rightarrow>
          let next = tm_next (maps s i) in
          (case deallocate_obj (Some i) s of
             Inl f \<Rightarrow> Some (Inl f)
           | Inr s \<Rightarrow> free_mappings next s))"

definition task_zero :: task where
  "task_zero = \<lparr>t_id = 0, t_pin = \<lparr>pin_enabled = False, pin_processor_id = 0\<rparr>, t_flags = 0, t_state = TH_TASK_STATE_NEW,
     refcount = 0, t_uid = 0, t_gid = 0,
     capabilities = \<lparr>slots = None, capacity = 0, next_unused = 0, free_head = 0, ct_lock = unlocked\<rparr>,
     t_context = context_zero, kstack = \<lparr>st_base = 0, st_limit = 0, st_size = 0\<rparr>, ustack = \<lparr>st_base = 0, st_limit = 0, st_size = 0\<rparr>,
     pmap = None, mappings = None, last_processor_id = 0, sib_prev = None, sib_next = None,
     joiners = \<lparr>wq_lock = unlocked, wq_head = None, wq_tail = None\<rparr>\<rparr>"

definition deinit_pmap :: "nat \<Rightarrow> 'a ksys_scheme \<Rightarrow> ('a ksys_scheme) outcome" where
  "deinit_pmap t s =
     (case pmap (tasks s t) of
        None \<Rightarrow> Inr s
      | Some p \<Rightarrow>
          rbind (with_km (vmm_destroy_page_map (Some (OtherMap (pmaps s p)))) s) (\<lambda>(_, s).
          deallocate_obj (Some p) s))"

definition task_deinit :: "('a ksys_ext) release_fn \<Rightarrow> ref \<Rightarrow> 'a ksys_scheme \<Rightarrow> ('a ksys_scheme) outcome" where
  "task_deinit rel self s =
     (case self of
        None \<Rightarrow> Inl AssertFail
      | Some t \<Rightarrow>
          rbind (cap_table_deinit rel (capabilities (tasks s t)) s) (\<lambda>(ct, s).
          let s = upd_task t (\<lambda>k. k\<lparr>capabilities := ct\<rparr>) s in
          rbind (ended (free_mappings (mappings (tasks s t)) s)) (\<lambda>s.
          rbind (deinit_pmap t s) (\<lambda>s.
          rbind (deallocate_raw (st_base (kstack (tasks s t))) s) (\<lambda>s.
          rbind (if \<not> has_flag (t_flags (tasks s t)) TH_TASK_FLAG_KERNEL
                 then deallocate_raw (st_base (ustack (tasks s t))) s else Inr s) (\<lambda>s.
          let s = upd_task t (\<lambda>_. task_zero) s in
          Inr (s\<lparr>wq_prev := (wq_prev s)(t := None), wq_next := (wq_next s)(t := None),
            wq_waiter := (wq_waiter s)(t := \<lparr>wake = None, udata = None\<rparr>)\<rparr>)))))))"

end
