(* ===== verification/Task_Boot.thy ===== *)
theory Task_Boot
  imports Task_Init
begin

section \<open>What a new task finds (kernel/proc/task.c)\<close>

text \<open>
  \<^verbatim>\<open>task_init\<close> of a kernel task, part by part: it returns whenever the heap and the page allocator can serve
  it, and leaves a first stack frame from which the trampoline takes the entry point and its argument.
\<close>

subsection \<open>The parts return\<close>

lemma allocate_raw_ok:
  assumes "sz > 0" "malloc_raw s sz MM_VIRT_PAGE_SIZE (raw_live s) = p" "p \<noteq> 0"
  shows "allocate_raw sz MM_VIRT_PAGE_SIZE s =
    Inr (p, s\<lparr>km := (km s)\<lparr>mem := (\<lambda>x. if in_range p (unat sz) x then 0 else mem (km s) x)\<rparr>,
      raw_live := insert (p, sz) (raw_live s)\<rparr>)"
  using assms memset_eq[of p 0 sz "mem (km s)"]
  by (simp add: allocate_raw_def MM_VIRT_PAGE_SIZE_def fun_eq_iff)

lemma for_r_ok:
  assumes "I s" "\<And>i s. i \<in> set is \<Longrightarrow> I s \<Longrightarrow> \<exists>s'. f i s = Inr s' \<and> I s'"
  shows "\<exists>s'. for_r f is s = Inr s' \<and> I s'"
  using assms
proof (induction "is" arbitrary: s)
  case Nil
  then show ?case by simp
next
  case (Cons i "is")
  then obtain s1 where "f i s = Inr s1" "I s1" by force
  moreover have "\<exists>s'. for_r f is s1 = Inr s' \<and> I s'" using Cons calculation(2) by auto
  ultimately show ?case by simp
qed

lemma vmm_make_page_map_ok:
  assumes "pmm_inv m" "free_pages m \<noteq> {}" "paging_mode_resp m \<noteq> None" "pm_directory (kernel_page_map m) \<noteq> 0"
  shows "\<exists>pm b. vmm_make_page_map m = Inr (pm, m\<lparr>mem := b\<rparr>) \<and> pm_directory pm \<noteq> 0"
proof -
  obtain k b where a: "pmm_alloc 1 m = Inr (of_nat k * 4096, m\<lparr>mem := b\<rparr>)" "k < npages m"
    using pmm_alloc_table[OF assms(1,2)] by metis
  note f = pmm_inv_facts[OF assms(1)]
  have v: "hhdm_p2v (of_nat k * 4096) (m\<lparr>mem := b\<rparr>) = Inr (page_va m k)"
    using f(3) by (simp add: hhdm_p2v_def page_va_def)
  have nz: "page_va m k \<noteq> 0" using page_va_facts(2)[OF assms(1) a(2)] .
  have "\<exists>s'. for_r (\<lambda>i s. rbind (pd_read (pm_directory (kernel_page_map s)) (of_nat i) s)
      (\<lambda>e. pd_write (page_va m k) (of_nat i) e s)) is (m\<lparr>mem := b\<rparr>) = Inr s' \<and> (\<exists>b. s' = m\<lparr>mem := b\<rparr>)" for "is"
    by (rule for_r_ok) (use nz assms(4) in \<open>auto simp: pd_read_def pd_write_def\<close>)
  from this[of "[256..<512]"] obtain b' where "for_r (\<lambda>i s. rbind (pd_read (pm_directory (kernel_page_map s)) (of_nat i) s)
      (\<lambda>e. pd_write (page_va m k) (of_nat i) e s)) [256..<512] (m\<lparr>mem := b\<rparr>) = Inr (m\<lparr>mem := b'\<rparr>)" by blast
  then show ?thesis using a(1) v nz assms(3)
    by (simp add: vmm_make_page_map_def Let_def del: for_r.simps upt_rec_numeral upt_conv_Cons_Cons) blast
qed

text \<open>The console capability of a new task: in slot 0, with the right to write, referenced by the table only.\<close>

definition console_obj :: cap_obj where
  "console_obj = \<lparr>co_ops = console_cap_ops, co_refcount = 1, co_flags = 0\<rparr>"

lemma init_caps_eq:
  assumes "malloc_obj s 384 (live s) \<noteq> None" "malloc_obj s SIZEOF_CAP_OBJ (live s) = Some c"
  shows "\<exists>ct. init_caps rel t s = Inr (upd_task t (\<lambda>k. k\<lparr>capabilities := ct\<rparr>)
      (s\<lparr>live := insert c (live s), cap_objs := (cap_objs s)(c := console_obj)\<rparr>)) \<and>
    cap_inv ct \<and> caps_of ct = [CONSOLE_CAP_ID \<mapsto> (c, CAP_RIGHT_WRITE, 0)]"
proof -
  let ?t0 = "(capabilities (tasks s t))\<lparr>slots := Some (replicate 16 empty_slot), capacity := 16, next_unused := 0,
    free_head := CAP_INVALID_INDEX, ct_lock := unlocked\<rparr>"
  let ?sl = "(replicate 16 empty_slot)[0 := empty_slot\<lparr>sl_obj := Some c, sl_rights := CAP_RIGHT_WRITE, sl_flags := 0,
    sl_next_free := CAP_INVALID_INDEX\<rparr>]"
  let ?ct = "?t0\<lparr>slots := Some ?sl, next_unused := 1\<rparr>"
  let ?s1 = "s\<lparr>live := insert c (live s), cap_objs := (cap_objs s)(c := console_obj)\<rparr>"
  have id: "cap_id_get_index CONSOLE_CAP_ID = 0" "cap_id_get_gen CONSOLE_CAP_ID = 1"
    by (simp_all add: cap_id_get_index_def cap_id_get_gen_def CONSOLE_CAP_ID_def)
  have init: "cap_table_init 16 (capabilities (tasks s t)) s = Inr ?t0"
    using assms(1) by (auto simp: cap_table_init_def SIZEOF_CAP_SLOT_def)
  have obj: "k\<lparr>co_refcount := 1, co_ops := console_cap_ops, co_flags := 0\<rparr> = console_obj" for k
    by (cases k) (simp add: console_obj_def)
  have make: "make_console_cap s = Inr (Some c, ?s1)"
    using allocate_obj_eq[OF assms(2)] obj
    by (simp add: make_console_cap_def SIZEOF_CAP_OBJ_def cap_obj_init_def upd_obj_def)
  have set: "cap_table_set CONSOLE_CAP_ID (Some c) CAP_RIGHT_WRITE 0 ?t0 ?s1 = Inr (True, ?ct, incref c ?s1)"
    by (cases "capabilities (tasks s t)") (simp add: cap_table_set_def id set_grow.simps slot_get_def slot_fill_ok)
  have dec: "cap_obj_decref rel (Some c) (upd_task t (\<lambda>k. k\<lparr>capabilities := ?ct\<rparr>) (incref c ?s1)) =
      Inr (upd_task t (\<lambda>k. k\<lparr>capabilities := ?ct\<rparr>) ?s1)"
    by (simp add: cap_obj_decref_def incref_def upd_obj_def upd_task_def console_obj_def)
  have "init_caps rel t s = Inr (upd_task t (\<lambda>k. k\<lparr>capabilities := ?ct\<rparr>) ?s1)"
    unfolding init_caps_def init make by (simp only: rbind_Inr prod.case set dec Let_def check_True)
  moreover have "slots_ok ?sl 1 CAP_INVALID_INDEX []"
    by (auto simp: slots_ok_def nth_list_update)
  then have "cap_inv ?ct" by (auto simp: cap_inv_def)
  moreover have "caps_of ?ct = [CONSOLE_CAP_ID \<mapsto> (c, CAP_RIGHT_WRITE, 0)]"
  proof -
    have "caps_of ?t0 = Map.empty" by (auto simp: caps_of_def slot_cap_def fun_eq_iff)
    moreover have "cap_id_make 0 1 = CONSOLE_CAP_ID" by (simp add: cap_id_make_def CONSOLE_CAP_ID_def)
    ultimately show ?thesis
      using caps_of_fill(1)[where t = ?t0 and sl = "replicate 16 empty_slot" and idx = 0 and t' = ?ct and o' = c
        and r = CAP_RIGHT_WRITE and f = 0 and n = CAP_INVALID_INDEX]
      by (simp add: empty_slot_def)
  qed
  ultimately show ?thesis by blast
qed

subsection \<open>The first frame\<close>

lemma push_frame:
  fixes a :: u64
  shows "fst (push v st) = fst st - 8" "load64 (snd (push v st)) (fst st - 8) = v"
    "8 \<le> unat (a - (fst st - 8)) \<Longrightarrow> 8 \<le> unat (fst st - 8 - a) \<Longrightarrow> load64 (snd (push v st)) a = load64 (snd st) a"
  by (simp_all add: push_def load64_store64_same load64_store64_far)

text \<open>A stack pointer rounded down to 16 bytes.\<close>

lemma unat_align16: "unat (x AND NOT 0xF :: u64) = unat x div 16 * 16"
proof -
  have "x AND NOT (mask 4) = push_bit 4 (drop_bit 4 x)" by (auto intro!: bit_word_eqI simp: bit_simps)
  then have "x AND NOT 0xF = push_bit 4 (drop_bit 4 x)" by (simp add: mask_eq_exp_minus_1)
  moreover have "unat (push_bit 4 (drop_bit 4 x)) = (unat x div 16 * 16) mod 2 ^ 64"
    by (simp add: push_bit_eq_mult drop_bit_eq_div unat_word_ariths unat_div mod_mult_left_eq)
  moreover have "unat x div 16 * 16 < 2 ^ 64"
    using le_less_trans[OF div_times_less_eq_dividend[of "unat x" 16] unat_lt_u64[of x]] by simp
  ultimately show ?thesis by simp
qed

subsection \<open>A kernel task\<close>

definition kstack_bytes :: "task_desc \<Rightarrow> usize" where
  "kstack_bytes desc =
     (if has_flag (td_flags desc) TH_TASK_FLAG_GUARDPAGE then td_kstack_size desc + MM_VIRT_PAGE_SIZE else td_kstack_size desc)"

text \<open>
  What a kernel task takes: a stack at \<open>p\<close> outside the bitmap of the page allocator, the objects \<open>q\<close> for its page map
  and \<open>c\<close> for its console capability, a slot array, and a free page.
\<close>

definition task_resources :: "task_desc \<Rightarrow> 'a ksys_scheme \<Rightarrow> uptr \<Rightarrow> nat \<Rightarrow> nat \<Rightarrow> bool" where
  "task_resources desc s p q c \<longleftrightarrow>
     kstack_bytes desc > 0 \<and> malloc_raw s (kstack_bytes desc) MM_VIRT_PAGE_SIZE (raw_live s) = p \<and> p \<noteq> 0 \<and>
     (\<forall>x. in_range p (unat (kstack_bytes desc)) x \<longrightarrow>
        \<not> in_range (bm_base (page_bits (km s))) (bm_len (page_bits (km s))) x) \<and>
     malloc_obj s SIZEOF_PAGE_MAP (live s) = Some q \<and> malloc_obj s 384 (insert q (live s)) \<noteq> None \<and>
     malloc_obj s SIZEOF_CAP_OBJ (insert q (live s)) = Some c \<and>
     pmm_inv (km s) \<and> free_pages (km s) \<noteq> {} \<and> paging_mode_resp (km s) \<noteq> None \<and>
     pm_directory (kernel_page_map (km s)) \<noteq> 0"

lemma init_kstack_ok:
  assumes "kstack_bytes desc > 0" "malloc_raw s (kstack_bytes desc) MM_VIRT_PAGE_SIZE (raw_live s) = p" "p \<noteq> 0"
  shows "\<exists>l. init_kstack t desc s = Inr (upd_task t (\<lambda>k. k\<lparr>kstack := \<lparr>st_base = p, st_limit = l, st_size = td_kstack_size desc\<rparr>\<rparr>)
    (s\<lparr>km := (km s)\<lparr>mem := (\<lambda>x. if in_range p (unat (kstack_bytes desc)) x then 0 else mem (km s) x)\<rparr>,
       raw_live := insert (p, kstack_bytes desc) (raw_live s)\<rparr>))"
  using allocate_raw_ok[OF assms] by (auto simp: init_kstack_def Let_def kstack_bytes_def[symmetric])

lemma init_pmap_ok:
  assumes "malloc_obj s SIZEOF_PAGE_MAP (live s) = Some q" "pmm_inv (km s)" "free_pages (km s) \<noteq> {}"
    "paging_mode_resp (km s) \<noteq> None" "pm_directory (kernel_page_map (km s)) \<noteq> 0"
  shows "\<exists>pm b. init_pmap t s = Inr (upd_task t (\<lambda>k. k\<lparr>pmap := Some q, mappings := None\<rparr>)
    (s\<lparr>live := insert q (live s), km := (km s)\<lparr>mem := b\<rparr>, pmaps := (pmaps s)(q := pm)\<rparr>))"
proof -
  obtain pm b where "vmm_make_page_map (km s) = Inr (pm, (km s)\<lparr>mem := b\<rparr>)"
    using vmm_make_page_map_ok[OF assms(2-5)] by blast
  then show ?thesis using allocate_obj_eq[OF assms(1)]
    by (auto simp: init_pmap_def with_km_def SIZEOF_PAGE_MAP_def)
qed

lemma task_init_kernel:
  assumes K: "has_flag (td_flags desc) TH_TASK_FLAG_KERNEL" "td_ustack_size desc = 0" and r: "task_resources desc s p q c"
  shows "\<exists>s' b l k0 ct. task_init syms rel (Some t) desc s = Inr s' \<and>
    (let sp = (p + td_kstack_size desc) AND NOT 0xF;
         st = push (task_kernelmode_trampoline syms) (push (td_fn desc) (push (td_arg desc) (sp, b))) in
     km s' = (km s)\<lparr>mem := snd st\<rparr> \<and> cpus s' = cpus s \<and> (\<forall>u. u \<noteq> t \<longrightarrow> tasks s' u = tasks s u) \<and>
     next_task_id s' = next_task_id s \<and> scheduler_lock s' = scheduler_lock s \<and> ksys.more s' = ksys.more s \<and> cap_objs s' c = console_obj \<and>
     caps_of ct = [CONSOLE_CAP_ID \<mapsto> (c, CAP_RIGHT_WRITE, 0)] \<and> cap_inv ct \<and>
     tasks s' t = k0\<lparr>t_id := td_task_id desc, t_pin := td_pin desc, t_flags := td_flags desc, t_uid := td_uid desc,
       t_gid := td_gid desc, refcount := 1, t_state := TH_TASK_STATE_NEW,
       kstack := \<lparr>st_base = p, st_limit = l, st_size = td_kstack_size desc\<rparr>, pmap := Some q, mappings := None,
       last_processor_id := 0, sib_prev := None, sib_next := None, joiners := waitqueue_init (joiners k0), capabilities := ct,
       t_context := \<lparr>c_rsp = fst st, c_rbp = 0, c_rbx = 0, c_r12 = 0, c_r13 = 0, c_r14 = 0, c_r15 = 0,
         c_rip = task_kernelmode_trampoline syms, c_rflags = 0x202\<rparr>\<rparr>)"
proof -
  note R = r[unfolded task_resources_def]
  let ?s0 = "init_fields t desc s"
  let ?z = "\<lambda>x. if in_range p (unat (kstack_bytes desc)) x then 0 else mem (km s) x"
  have i0: "km ?s0 = km s" "raw_live ?s0 = raw_live s" "malloc_raw ?s0 = malloc_raw s" "malloc_obj ?s0 = malloc_obj s"
    "live ?s0 = live s" "pmaps ?s0 = pmaps s" by (simp_all add: init_fields_def)
  obtain l where k: "init_kstack t desc ?s0 = Inr (upd_task t (\<lambda>k. k\<lparr>kstack := \<lparr>st_base = p, st_limit = l, st_size = td_kstack_size desc\<rparr>\<rparr>)
      (?s0\<lparr>km := (km s)\<lparr>mem := ?z\<rparr>, raw_live := insert (p, kstack_bytes desc) (raw_live s)\<rparr>))" (is "_ = Inr ?s1")
    using init_kstack_ok[of desc ?s0 p t] R unfolding i0 by blast
  let ?s2 = "upd_task t (\<lambda>k. k\<lparr>ustack := \<lparr>st_base = 0, st_limit = 0, st_size = 0\<rparr>\<rparr>) ?s1"
  have u: "init_ustack t desc ?s1 = Inr ?s2" using K by (simp add: init_ustack_def)
  have z: "?z x = mem (km s) x" if "in_range (bm_base (page_bits (km s))) (bm_len (page_bits (km s))) x" for x
    using R that by auto
  have inv: "pmm_inv (km s)" using R by blast
  note pm = bitmap_same(1)[OF inv z] bitmap_same(3)[OF inv z]
  have i2: "km ?s2 = (km s)\<lparr>mem := ?z\<rparr>" "malloc_obj ?s2 = malloc_obj s" "live ?s2 = live s" "pmaps ?s2 = pmaps s"
    by (simp_all add: i0)
  obtain pmp b where pmo: "init_pmap t ?s2 = Inr (upd_task t (\<lambda>k. k\<lparr>pmap := Some q, mappings := None\<rparr>)
      (?s2\<lparr>live := insert q (live s), km := (km s)\<lparr>mem := b\<rparr>, pmaps := (pmaps s)(q := pmp)\<rparr>))" (is "_ = Inr ?s3")
    using init_pmap_ok[of ?s2 q t] R pm unfolding i2 by auto
  let ?s4 = "init_links t ?s3"
  have i4: "live ?s4 = insert q (live s)" "malloc_obj ?s4 = malloc_obj s" "km ?s4 = (km s)\<lparr>mem := b\<rparr>"
    by (simp_all add: init_links_def Let_def init_fields_def)
  obtain ct where c: "init_caps rel t ?s4 = Inr (upd_task t (\<lambda>k. k\<lparr>capabilities := ct\<rparr>)
      (?s4\<lparr>live := insert c (live ?s4), cap_objs := (cap_objs ?s4)(c := console_obj)\<rparr>))" (is "_ = Inr ?s5")
    "cap_inv ct" "caps_of ct = [CONSOLE_CAP_ID \<mapsto> (c, CAP_RIGHT_WRITE, 0)]"
    using init_caps_eq[of ?s4 c rel t] R unfolding i4 by auto
  have "task_init syms rel (Some t) desc s = init_context syms t desc ?s5"
    using K by (simp only: task_init_def option.case Let_def check_True rbind_Inr k u pmo c(1) if_False not_True_eq_False simp_thms)
  moreover have f5: "st_base (kstack (tasks ?s5 t)) = p" "st_size (kstack (tasks ?s5 t)) = td_kstack_size desc" "km ?s5 = (km s)\<lparr>mem := b\<rparr>"
    by (simp_all add: init_links_def Let_def init_fields_def)
  let ?st = "push (task_kernelmode_trampoline syms) (push (td_fn desc) (push (td_arg desc) ((p + td_kstack_size desc) AND NOT 0xF, b)))"
  let ?s6 = "upd_task t (\<lambda>k. k\<lparr>t_context := \<lparr>c_rsp = fst ?st, c_rbp = 0, c_rbx = 0, c_r12 = 0, c_r13 = 0, c_r14 = 0, c_r15 = 0,
     c_rip = task_kernelmode_trampoline syms, c_rflags = 0x202\<rparr>\<rparr>) (?s5\<lparr>km := (km ?s5)\<lparr>mem := snd ?st\<rparr>\<rparr>)"
  have "init_context syms t desc ?s5 = Inr ?s6"
    using K(1) unfolding init_context_def Let_def f5 by simp
  ultimately have "task_init syms rel (Some t) desc s = Inr ?s6" by simp
  then show ?thesis using c(2,3)
    by (intro exI[of _ ?s6] exI[of _ b] exI[of _ l] exI[of _ "(tasks s t)\<lparr>ustack := \<lparr>st_base = 0, st_limit = 0, st_size = 0\<rparr>\<rparr>"] exI[of _ ct])
      (simp add: Let_def init_links_def init_fields_def)
qed

text \<open>The three words pushed for a kernel task, read back.\<close>

lemma kernel_frame:
  assumes "st = push a (push f (push x (sp, b)))"
  shows "fst st = sp - 24" "load64 (snd st) (fst st) = a" "load64 (snd st) (fst st + 8) = f" "load64 (snd st) (fst st + 16) = x"
  using assms by (simp_all add: push_def load64_store64_same load64_store64_far)

text \<open>
  \<^verbatim>\<open>task_init\<close> of a kernel task returns when the heap and the page allocator can serve it. The new task has one
  reference, a console capability held by its table only, and a stack pointer inside its kernel stack, three
  words below a 16-byte boundary: there the switch to the task finds the address of the trampoline, and the trampoline the entry
  point and its argument.
\<close>

theorem task_init_kernel_frame:
  assumes "has_flag (td_flags desc) TH_TASK_FLAG_KERNEL" "td_ustack_size desc = 0" "task_resources desc s p q c"
    and "unat p + unat (td_kstack_size desc) < 2 ^ 64" "64 \<le> unat (td_kstack_size desc)"
  shows "\<exists>s'. task_init syms rel (Some t) desc s = Inr s' \<and>
    (let k = tasks s' t; sp = c_rsp (t_context k); m = mem (km s') in
     c_rip (t_context k) = task_kernelmode_trampoline syms \<and> load64 m sp = task_kernelmode_trampoline syms \<and>
     load64 m (sp + 8) = td_fn desc \<and> load64 m (sp + 16) = td_arg desc \<and>
     st_base (kstack k) = p \<and> unat p \<le> unat sp \<and> unat sp + 24 \<le> unat p + unat (td_kstack_size desc) \<and> 16 dvd unat sp + 24 \<and>
     t_id k = td_task_id desc \<and> t_state k = TH_TASK_STATE_NEW \<and> refcount k = 1 \<and>
     caps_of (capabilities k) = [CONSOLE_CAP_ID \<mapsto> (c, CAP_RIGHT_WRITE, 0)] \<and> co_refcount (cap_objs s' c) = 1)"
proof -
  let ?sp = "(p + td_kstack_size desc) AND NOT 0xF"
  obtain s' b l k0 ct where i: "task_init syms rel (Some t) desc s = Inr s'"
    "(let st = push (task_kernelmode_trampoline syms) (push (td_fn desc) (push (td_arg desc) (?sp, b))) in
     km s' = (km s)\<lparr>mem := snd st\<rparr> \<and> cpus s' = cpus s \<and> (\<forall>u. u \<noteq> t \<longrightarrow> tasks s' u = tasks s u) \<and>
     next_task_id s' = next_task_id s \<and> scheduler_lock s' = scheduler_lock s \<and> ksys.more s' = ksys.more s \<and> cap_objs s' c = console_obj \<and>
     caps_of ct = [CONSOLE_CAP_ID \<mapsto> (c, CAP_RIGHT_WRITE, 0)] \<and> cap_inv ct \<and>
     tasks s' t = k0\<lparr>t_id := td_task_id desc, t_pin := td_pin desc, t_flags := td_flags desc, t_uid := td_uid desc,
       t_gid := td_gid desc, refcount := 1, t_state := TH_TASK_STATE_NEW,
       kstack := \<lparr>st_base = p, st_limit = l, st_size = td_kstack_size desc\<rparr>, pmap := Some q, mappings := None,
       last_processor_id := 0, sib_prev := None, sib_next := None, joiners := waitqueue_init (joiners k0), capabilities := ct,
       t_context := \<lparr>c_rsp = fst st, c_rbp = 0, c_rbx = 0, c_r12 = 0, c_r13 = 0, c_r14 = 0, c_r15 = 0,
         c_rip = task_kernelmode_trampoline syms, c_rflags = 0x202\<rparr>\<rparr>)"
    using task_init_kernel[OF assms(1-3), of syms rel t] unfolding Let_def by blast
  note f = kernel_frame[OF refl, of "task_kernelmode_trampoline syms" "td_fn desc" "td_arg desc" ?sp b]
  have top: "unat (p + td_kstack_size desc) = unat p + unat (td_kstack_size desc)" using assms(4) by (simp add: unat_add_u64)
  have sp: "unat ?sp = (unat p + unat (td_kstack_size desc)) div 16 * 16" by (simp only: unat_align16 top)
  have "unat p + unat (td_kstack_size desc) < unat ?sp + 16" "unat ?sp \<le> unat p + unat (td_kstack_size desc)"
    unfolding sp using mod_less_divisor[of 16 "unat p + unat (td_kstack_size desc)"]
      div_mult_mod_eq[of "unat p + unat (td_kstack_size desc)" 16] by linarith+
  moreover from this have "unat (?sp - 24) = unat ?sp - 24" using assms(5) by (intro unat_sub_u64[of 24, simplified]) (simp add: word_le_nat_alt)
  ultimately have b: "unat p \<le> unat (?sp - 24)" "unat (?sp - 24) + 24 \<le> unat p + unat (td_kstack_size desc)"
    "unat (?sp - 24) + 24 = unat ?sp" using assms(5) by linarith+
  have "16 dvd unat (?sp - 24) + 24" unfolding b(3) sp by simp
  then show ?thesis using i f b(1,2) by (intro exI[of _ s']) (simp add: Let_def console_obj_def)
qed

definition desc_demo :: task_desc where
  "desc_demo = \<lparr>td_task_id = 5, td_kstack_size = 0x4000, td_ustack_size = 0, td_fn = 0x1234, td_arg = 0x5678,
     td_pin = \<lparr>pin_enabled = False, pin_processor_id = 0\<rparr>, td_flags = TH_TASK_FLAG_KERNEL, td_uid = 0, td_gid = 0\<rparr>"

definition syms_demo :: code_syms where
  "syms_demo = \<lparr>task_kernelmode_trampoline = 0x111000, task_usermode_trampoline = 0x222000, idle_task_fn = 0x333000\<rparr>"

lemma desc_demo_resources: "task_resources desc_demo ksys_demo 0x40000000 1 2"
proof -
  have "free_pages (km ksys_demo) \<noteq> {}" using vm_demo_free by (auto simp: ksys_demo_def)
  moreover have "\<not> in_range (bm_base (page_bits vm_demo)) (bm_len (page_bits vm_demo)) x" if "in_range 0x40000000 0x4000 x" for x
  proof
    assume "in_range (bm_base (page_bits vm_demo)) (bm_len (page_bits vm_demo)) x"
    then have "unat (x - 268439552) = 0" by (simp add: in_range_def bm_base_def bm_len_def vm_demo_def)
    then have "x = 268439552" by (simp only: unat_eq_0 right_minus_eq)
    then show False using that by (simp add: in_range_def)
  qed
  moreover have "paging_mode_resp vm_demo = Some False" "pm_directory (kernel_page_map vm_demo) \<noteq> 0" by (simp_all add: vm_demo_def)
  ultimately show ?thesis using vm_demo_pmm
    by (simp add: task_resources_def desc_demo_def kstack_bytes_def ksys_demo_def has_flag_def TH_TASK_FLAG_KERNEL_def
        TH_TASK_FLAG_GUARDPAGE_def insert_commute)
qed

theorem task_init_kernel_frame_witness:
  "\<exists>s'. task_init syms_demo (\<lambda>_ _. Inr) (Some 0) desc_demo ksys_demo = Inr s' \<and>
    load64 (mem (km s')) (c_rsp (t_context (tasks s' 0))) = 0x111000 \<and>
    load64 (mem (km s')) (c_rsp (t_context (tasks s' 0)) + 8) = 0x1234 \<and> refcount (tasks s' 0) = 1"
  using task_init_kernel_frame[OF _ _ desc_demo_resources, of syms_demo "\<lambda>_ _. Inr" 0]
  by (auto simp: Let_def desc_demo_def syms_demo_def has_flag_def TH_TASK_FLAG_KERNEL_def)

end
