(* ===== verification/Scheduler.thy ===== *)
theory Scheduler
  imports Task_Boot Sleeper
begin

section \<open>The scheduler (kernel/proc/scheduler/controller.c)\<close>

text \<open>
  Every function of \<^verbatim>\<open>controller.c\<close> on the kernel state \<open>ksys\<close>. The CPU that runs it is \<open>this_cpu\<close>; its registers
  are part of its per-CPU record, and a context switch stores them into the old task and loads those of the new
  one, so that \<open>scheduler_yield\<close> ends where the new task continues. Function pointer 1 of a waiter is
  \<^verbatim>\<open>scheduler_wake_task\<close>, the only wake function of the kernel. The endless \<^verbatim>\<open>scheduler_idle_loop\<close> is
  a repetition of \<open>scheduler_yield\<close>.
\<close>

subsection \<open>Small operations\<close>

definition scheduler_init :: "'a ksys_scheme \<Rightarrow> 'a ksys_scheme" where
  "scheduler_init s = s\<lparr>scheduler_lock := spinlock_init (scheduler_lock s)\<rparr>"

abbreviation sched :: "nat \<Rightarrow> 'a ksys_scheme \<Rightarrow> scheduler" where
  "sched i s \<equiv> pc_scheduler (cpus s ! i)"

text \<open>Calling a queue operation on a queue of CPU \<open>i\<close>.\<close>

definition enqueue_task :: "nat \<Rightarrow> ref \<Rightarrow> 'a ksys_scheme \<Rightarrow> ('a ksys_scheme) outcome" where
  "enqueue_task i t s =
     rbind (runqueue_enqueue t (sc_tasks (sched i s)) s) (\<lambda>(q, s). Inr (upd_sched i (\<lambda>c. c\<lparr>sc_tasks := q\<rparr>) s))"

definition enqueue_cleanup :: "nat \<Rightarrow> ref \<Rightarrow> 'a ksys_scheme \<Rightarrow> ('a ksys_scheme) outcome" where
  "enqueue_cleanup i t s =
     rbind (runqueue_enqueue t (sc_cleanup (sched i s)) s) (\<lambda>(q, s). Inr (upd_sched i (\<lambda>c. c\<lparr>sc_cleanup := q\<rparr>) s))"

definition dequeue_task :: "nat \<Rightarrow> 'a ksys_scheme \<Rightarrow> (ref \<times> 'a ksys_scheme) outcome" where
  "dequeue_task i s =
     rbind (runqueue_dequeue (sc_tasks (sched i s)) s) (\<lambda>(t, q, s). Inr (t, upd_sched i (\<lambda>c. c\<lparr>sc_tasks := q\<rparr>) s))"

definition scheduler_load :: "code_syms \<Rightarrow> ('a ksys_ext) release_fn \<Rightarrow> 'a ksys_scheme \<Rightarrow> ('a ksys_scheme) outcome" where
  "scheduler_load syms rel s =
     rbind (mp_get_percpu_data s) (\<lambda>(i, cpu).
     let s = upd_sched i (\<lambda>c. c\<lparr>sc_tasks := runqueue_init (sc_tasks c), sc_cleanup := runqueue_init (sc_cleanup c),
           sc_sleepers := sleeperlist_init (sc_sleepers c), sc_current := None, sc_idle := None\<rparr>) s in
     rbind (allocate_obj SIZEOF_TASK s) (\<lambda>(t, s).
     rbind (spinlock_acquire (scheduler_lock s)) (\<lambda>l.
     let desc = \<lparr>td_task_id = next_task_id s, td_kstack_size = 16 * 1024, td_ustack_size = 0, td_fn = idle_task_fn syms, td_arg = 0,
           td_pin = \<lparr>pin_enabled = True, pin_processor_id = processor_id cpu\<rparr>,
           td_flags = TH_TASK_FLAG_KERNEL OR TH_TASK_FLAG_DETACHED, td_uid = 0, td_gid = 0\<rparr>;
         s = s\<lparr>next_task_id := next_task_id s + 1, scheduler_lock := spinlock_release l\<rparr> in
     rbind (task_init syms rel (Some t) desc s) (\<lambda>s.
     rbind (task_set_ready (Some t) s) (\<lambda>s.
     Inr (upd_sched i (\<lambda>c. c\<lparr>sc_idle := Some t, sc_current := Some t\<rparr>) s))))))"

definition scheduler_get_next_tid :: "'a ksys_scheme \<Rightarrow> (u32 \<times> 'a ksys_scheme) outcome" where
  "scheduler_get_next_tid s =
     rbind (spinlock_acquire (scheduler_lock s)) (\<lambda>l.
     let t = next_task_id s in
     Inr (t, s\<lparr>next_task_id := t + 1, scheduler_lock := spinlock_release l\<rparr>))"

definition scheduler_get_current_task :: "'a ksys_scheme \<Rightarrow> ref outcome" where
  "scheduler_get_current_task s = rbind (mp_get_percpu_data s) (\<lambda>(i, cpu). Inr (sc_current (pc_scheduler cpu)))"

text \<open>The search over the CPUs, in the order of their numbers.\<close>

definition acquire_current :: "u32 \<Rightarrow> ref \<Rightarrow> 'a ksys_scheme \<Rightarrow> (bool \<times> 'a ksys_scheme) outcome" where
  "acquire_current tid cur s =
     (case cur of
        None \<Rightarrow> Inr (False, s)
      | Some t \<Rightarrow>
          if t_id (tasks s t) = tid
          then rbind (task_try_acquire cur s) (\<lambda>(ok, s).
            if \<not> ok then Inr (False, s)
            else if t_id (tasks s t) = tid then Inr (True, s)
            else rbind (task_release cur s) (\<lambda>(_, s). Inr (False, s)))
          else Inr (False, s))"

fun find_task :: "u32 \<Rightarrow> nat list \<Rightarrow> 'a ksys_scheme \<Rightarrow> (ref \<times> 'a ksys_scheme) outcome" where
  "find_task tid [] s = Inr (None, s)"
| "find_task tid (c # cs) s =
     rbind (mp_get_percpu_data_of (of_nat c) s) (\<lambda>(i, _).
     rbind (runqueue_find_by_id tid (sc_tasks (sched i s)) s) (\<lambda>(t, q, s).
     let s = upd_sched i (\<lambda>c. c\<lparr>sc_tasks := q\<rparr>) s in
     if t \<noteq> None then Inr (t, s)
     else rbind (runqueue_find_by_id tid (sc_cleanup (sched i s)) s) (\<lambda>(t, q, s).
     let s = upd_sched i (\<lambda>c. c\<lparr>sc_cleanup := q\<rparr>) s in
     if t \<noteq> None then Inr (t, s)
     else let cur = sc_current (sched i s) in
       rbind (acquire_current tid cur s) (\<lambda>(found, s).
       if found then Inr (cur, s) else find_task tid cs s))))"

definition scheduler_get_task_by_id :: "u32 \<Rightarrow> 'a ksys_scheme \<Rightarrow> (ref \<times> 'a ksys_scheme) outcome" where
  "scheduler_get_task_by_id tid s = find_task tid [0..<unat (mp_get_cpu_count s)] s"

subsection \<open>Waking\<close>

definition scheduler_wake_task :: "ref \<Rightarrow> 'a ksys_scheme \<Rightarrow> ('a ksys_scheme) outcome" where
  "scheduler_wake_task u s =
     (case u of
        None \<Rightarrow> Inl AssertFail
      | Some t \<Rightarrow>
          rbind (task_set_ready (Some t) s) (\<lambda>s.
          let k = tasks s t in
          rbind (if pin_enabled (t_pin k) then mp_get_percpu_data_of (pin_processor_id (t_pin k)) s
                 else mp_get_percpu_data_of (last_processor_id k) s) (\<lambda>(i, _).
          enqueue_task i (Some t) s)))"

definition kernel_wake :: "nat \<Rightarrow> ref \<Rightarrow> 'a ksys_scheme \<Rightarrow> ('a ksys_scheme) outcome" where
  "kernel_wake f u s = (if f = 1 then scheduler_wake_task u s else Inl NullDeref)"

definition scheduler_make_waiter :: "ref \<Rightarrow> waiter outcome" where
  "scheduler_make_waiter t = check (t \<noteq> None) (Inr \<lparr>wake = Some 1, udata = t\<rparr>)"

definition scheduler_wakeup_after :: "u64 \<Rightarrow> ref \<Rightarrow> 'a ksys_scheme \<Rightarrow> ('a ksys_scheme) outcome" where
  "scheduler_wakeup_after ns wait s =
     check (wait \<noteq> None)
     (rbind (mp_get_percpu_data s) (\<lambda>(i, cpu).
      rbind (sleeperlist_add ns wait (sc_sleepers (pc_scheduler cpu)) s) (\<lambda>(l, s).
      Inr (upd_sched i (\<lambda>c. c\<lparr>sc_sleepers := l\<rparr>) s))))"

subsection \<open>Cleaning up\<close>

definition cleanup_unlink :: "nat \<Rightarrow> nat \<Rightarrow> 'a ksys_scheme \<Rightarrow> 'a ksys_scheme" where
  "cleanup_unlink i t s =
     (let next = sib_next (tasks s t); prev = sib_prev (tasks s t);
          s = (case prev of
                 Some p \<Rightarrow> set_next p next s
               | None \<Rightarrow> upd_sched i (\<lambda>c. c\<lparr>sc_cleanup := (sc_cleanup c)\<lparr>rq_head := next\<rparr>\<rparr>) s);
          s = (case next of
                 Some n \<Rightarrow> set_prev n prev s
               | None \<Rightarrow> upd_sched i (\<lambda>c. c\<lparr>sc_cleanup := (sc_cleanup c)\<lparr>rq_tail := prev\<rparr>\<rparr>) s) in
      upd_sched i (\<lambda>c. c\<lparr>sc_cleanup := (sc_cleanup c)\<lparr>rq_count := rq_count (sc_cleanup c) - 1\<rparr>\<rparr>) s)"

definition cleanup_turn :: "('a ksys_ext) release_fn \<Rightarrow> nat \<Rightarrow> nat \<Rightarrow> 'a ksys_scheme \<Rightarrow> ('a ksys_scheme) outcome" where
  "cleanup_turn rel i t s =
     (if refcount (tasks s t) = 0
      then rbind (task_deinit rel (Some t) (cleanup_unlink i t s)) (deallocate_obj (Some t))
      else Inr s)"

partial_function (option) cleanup_loop :: "('a ksys_ext) release_fn \<Rightarrow> nat \<Rightarrow> ref \<Rightarrow> 'a ksys_scheme \<Rightarrow> (('a ksys_scheme) outcome) option" where
  "cleanup_loop rel i cur s =
     (case cur of
        None \<Rightarrow> Some (Inr s)
      | Some t \<Rightarrow>
          let next = sib_next (tasks s t) in
          (case cleanup_turn rel i t s of
             Inl f \<Rightarrow> Some (Inl f)
           | Inr s \<Rightarrow> cleanup_loop rel i next s))"

definition scheduler_cleanup :: "('a ksys_ext) release_fn \<Rightarrow> 'a ksys_scheme \<Rightarrow> ('a ksys_scheme) outcome" where
  "scheduler_cleanup rel s =
     rbind (mp_get_percpu_data s) (\<lambda>(i, cpu). ended (cleanup_loop rel i (rq_head (sc_cleanup (pc_scheduler cpu))) s))"

definition scheduler_tick :: "('a ksys_ext) release_fn \<Rightarrow> u64 \<Rightarrow> 'a ksys_scheme \<Rightarrow> ('a ksys_scheme) outcome" where
  "scheduler_tick rel ns s =
     rbind (mp_get_percpu_data s) (\<lambda>(i, _).
     let s = upd_sched i (\<lambda>c. c\<lparr>sc_uptime_ns := sc_uptime_ns c + ns\<rparr>) s in
     rbind (sleeperlist_tick kernel_wake (sc_sleepers (sched i s)) s) (\<lambda>(l, s).
     scheduler_cleanup rel (upd_sched i (\<lambda>c. c\<lparr>sc_sleepers := l\<rparr>) s)))"

subsection \<open>Switching tasks\<close>

text \<open>
  \<^verbatim>\<open>task_context_switch\<close> (\<^verbatim>\<open>task-switch.asm\<close>): the return address is read from the old stack; the flags pass over both
  stacks, below the stack pointer; the final \<^verbatim>\<open>ret\<close> takes the new instruction pointer from the new stack.
\<close>

definition task_context_switch :: "nat \<Rightarrow> ref \<Rightarrow> nat \<Rightarrow> 'a ksys_scheme \<Rightarrow> ('a ksys_scheme) outcome" where
  "task_context_switch i old new s =
     (case old of
        None \<Rightarrow> Inl NullDeref
      | Some o' \<Rightarrow>
          let r = pc_regs (cpus s ! i);
              m = store64 (c_rsp r - 8) (c_rflags r) (mem (km s));
              s = upd_task o' (\<lambda>k. k\<lparr>t_context := r\<lparr>c_rip := load64 (mem (km s)) (c_rsp r)\<rparr>\<rparr>) s;
              n = t_context (tasks s new);
              m = store64 (c_rsp n - 8) (c_rflags n) m in
          Inr (upd_cpu i (\<lambda>c. c\<lparr>pc_regs := n\<lparr>c_rsp := c_rsp n + 8, c_rip := load64 m (c_rsp n)\<rparr>\<rparr>) (s\<lparr>km := (km s)\<lparr>mem := m\<rparr>\<rparr>)))"

definition is_running :: "task \<Rightarrow> bool" where
  "is_running k \<longleftrightarrow> (case t_state k of TH_TASK_STATE_RUNNING _ \<Rightarrow> True | _ \<Rightarrow> False)"

definition switch_to :: "nat \<Rightarrow> ref \<Rightarrow> nat \<Rightarrow> 'a ksys_scheme \<Rightarrow> ('a ksys_scheme) outcome" where
  "switch_to i old new s =
     rbind (task_pmap new s) (\<lambda>pm.
     rbind (on_km (vmm_switch_page_map pm) s) (\<lambda>s.
     let top = st_base (kstack (tasks s new)) + st_size (kstack (tasks s new));
         s = upd_cpu i (\<lambda>c. c\<lparr>tss_rsp0 := top, syscall_kernel_rsp := top\<rparr>) s in
     task_context_switch i old new s))"

definition scheduler_yield :: "'a ksys_scheme \<Rightarrow> ('a ksys_scheme) outcome" where
  "scheduler_yield s =
     rbind (mp_get_percpu_data s) (\<lambda>(i, cpu).
     let old = sc_current (pc_scheduler cpu) in
     rbind (case old of
              Some o' \<Rightarrow> if is_running (tasks s o')
                then rbind (task_set_ready old s) (enqueue_task i old) else Inr s
            | None \<Rightarrow> Inr s) (\<lambda>s.
     rbind (dequeue_task i s) (\<lambda>(new, s).
     case (if new = None then sc_idle (sched i s) else new) of
       None \<Rightarrow> Inl AssertFail
     | Some n \<Rightarrow>
         let s = upd_sched i (\<lambda>c. c\<lparr>sc_current := Some n\<rparr>) s in
         rbind (if sc_idle (sched i s) \<noteq> Some n then task_set_running (Some n) (processor_id (cpus s ! i)) s else Inr s) (\<lambda>s.
         if old \<noteq> Some n then switch_to i old n s else Inr s))))"

text \<open>The zombie is on the cleanup queue before its own reference is dropped.\<close>

definition scheduler_kill_current_task :: "i32 \<Rightarrow> 'a ksys_scheme \<Rightarrow> ('a ksys_scheme) outcome" where
  "scheduler_kill_current_task exit_code s =
     rbind (mp_get_percpu_data s) (\<lambda>(i, cpu).
     let cur = sc_current (pc_scheduler cpu) in
     rbind (task_set_zombie cur exit_code s) (\<lambda>s.
     rbind (the_task cur) (\<lambda>t.
     rbind (waitqueue_wake_all kernel_wake (joiners (tasks s t)) s) (\<lambda>(q, s).
     let s = upd_task t (\<lambda>k. k\<lparr>joiners := q\<rparr>) s in
     rbind (enqueue_cleanup i cur s) (\<lambda>s.
     rbind (task_release cur s) (\<lambda>(_, s).
     scheduler_yield s))))))"

end
