(* ===== verification/Sched_Queues.thy ===== *)
theory Sched_Queues
  imports Scheduler
begin

section \<open>The queues of all CPUs\<close>

text \<open>
  \<open>queues s tq cq\<close>: for every CPU \<open>i\<close> the run queue holds the tasks \<open>tq i\<close> and the cleanup queue \<open>cq i\<close>, and no task
  is on two of these queues. Queue operations change nothing else: \<open>sbase\<close> is the state without the links of tasks and
  without the queues, and every operation keeps it.
\<close>

definition rq_null :: runqueue where
  "rq_null = \<lparr>rq_lock = unlocked, rq_head = None, rq_tail = None, rq_count = 0\<rparr>"

definition cpu_base :: "percpu_data \<Rightarrow> percpu_data" where
  "cpu_base c = c\<lparr>pc_scheduler := (pc_scheduler c)\<lparr>sc_tasks := rq_null, sc_cleanup := rq_null\<rparr>\<rparr>"

definition sbase :: "'a ksys_scheme \<Rightarrow> 'a ksys_scheme" where
  "sbase s = (base s)\<lparr>cpus := map cpu_base (cpus s)\<rparr>"

definition queues :: "'a ksys_scheme \<Rightarrow> (nat \<Rightarrow> nat list) \<Rightarrow> (nat \<Rightarrow> nat list) \<Rightarrow> bool" where
  "queues s tq cq \<longleftrightarrow>
     (\<forall>i < length (cpus s). rq_holds (sc_tasks (sched i s)) s (tq i) \<and> rq_holds (sc_cleanup (sched i s)) s (cq i)) \<and>
     (\<forall>i < length (cpus s). \<forall>j < length (cpus s). set (tq i) \<inter> set (cq j) = {} \<and>
        (i \<noteq> j \<longrightarrow> set (tq i) \<inter> set (tq j) = {} \<and> set (cq i) \<inter> set (cq j) = {}))"

text \<open>The tasks on no queue.\<close>

definition off_queues :: "'a ksys_scheme \<Rightarrow> (nat \<Rightarrow> nat list) \<Rightarrow> (nat \<Rightarrow> nat list) \<Rightarrow> nat \<Rightarrow> bool" where
  "off_queues s tq cq t \<longleftrightarrow> (\<forall>i < length (cpus s). t \<notin> set (tq i) \<and> t \<notin> set (cq i))"

subsection \<open>What sbase keeps\<close>

lemma sbase_eqD:
  assumes "sbase s' = sbase s"
  shows "length (cpus s') = length (cpus s)" "km s' = km s" "maps s' = maps s" "live s' = live s" "wq_prev s' = wq_prev s"
    "wq_next s' = wq_next s" "wq_waiter s' = wq_waiter s" "sleepers s' = sleepers s" "pmaps s' = pmaps s" "cap_objs s' = cap_objs s"
    "unlinked (tasks s' t) = unlinked (tasks s t)"
proof -
  note e = arg_cong[OF assms]
  show "length (cpus s') = length (cpus s)" using e[of "\<lambda>s. length (cpus s)"] by (simp add: sbase_def)
  show "km s' = km s" "maps s' = maps s" "live s' = live s" "wq_prev s' = wq_prev s"
    "wq_next s' = wq_next s" "wq_waiter s' = wq_waiter s" "sleepers s' = sleepers s" "pmaps s' = pmaps s" "cap_objs s' = cap_objs s"
    using e[of km] e[of maps] e[of live] e[of wq_prev] e[of wq_next] e[of wq_waiter] e[of sleepers] e[of pmaps] e[of cap_objs]
    by (simp_all add: sbase_def base_def)
  show "unlinked (tasks s' t) = unlinked (tasks s t)" using e[of "\<lambda>s. tasks s t"] by (simp add: sbase_def base_def)
qed

lemma sbase_cpuD:
  assumes "sbase s' = sbase s" "i < length (cpus s)"
  shows "cpu_base (cpus s' ! i) = cpu_base (cpus s ! i)"
  using arg_cong[OF assms(1), of "\<lambda>s. cpus s ! i"] sbase_eqD(1)[OF assms(1)] assms(2) by (simp add: sbase_def)

lemma cpu_base_eqD:
  assumes "cpu_base c = cpu_base c'"
  shows "sc_current (pc_scheduler c) = sc_current (pc_scheduler c')" "sc_idle (pc_scheduler c) = sc_idle (pc_scheduler c')"
    "sc_uptime_ns (pc_scheduler c) = sc_uptime_ns (pc_scheduler c')" "sc_sleepers (pc_scheduler c) = sc_sleepers (pc_scheduler c')"
    "processor_id c = processor_id c'" "pc_regs c = pc_regs c'"
  using arg_cong[OF assms, of "\<lambda>c. sc_current (pc_scheduler c)"] arg_cong[OF assms, of "\<lambda>c. sc_idle (pc_scheduler c)"]
    arg_cong[OF assms, of "\<lambda>c. sc_uptime_ns (pc_scheduler c)"] arg_cong[OF assms, of "\<lambda>c. sc_sleepers (pc_scheduler c)"]
    arg_cong[OF assms, of processor_id] arg_cong[OF assms, of pc_regs]
  by (simp_all add: cpu_base_def)

lemma sbase_upd_sched:
  assumes "base s' = base s" "\<And>c. cpu_base (f c) = cpu_base c"
  shows "sbase (upd_cpu i f s') = sbase s"
proof -
  have c: "cpus s' = cpus s" using base_eqD(1)[OF assms(1)] .
  have "map cpu_base ((cpus s)[i := f (cpus s ! i)]) = map cpu_base (cpus s)"
    using assms(2) by (cases "i < length (cpus s)") (auto intro!: nth_equalityI simp: nth_list_update)
  then show ?thesis using c arg_cong[OF assms(1), of "\<lambda>s. s\<lparr>cpus := cs\<rparr>" for cs]
    by (simp add: sbase_def base_def upd_cpu_def)
qed

subsection \<open>Queue operations\<close>

lemma rq_holds_cong:
  assumes "rq_holds q s ts" "\<And>u. u \<in> set ts \<Longrightarrow> sib_prev (tasks s' u) = sib_prev (tasks s u) \<and> sib_next (tasks s' u) = sib_next (tasks s u)"
  shows "rq_holds q s' ts"
  using assms(1) dll_cong[of ts "\<lambda>u. sib_prev (tasks s' u)" "\<lambda>u. sib_prev (tasks s u)" "\<lambda>u. sib_next (tasks s' u)"
      "\<lambda>u. sib_next (tasks s u)"] assms(2) by (simp add: rq_holds_def)

lemma queues_cong:
  assumes "queues s tq cq" "length (cpus s') = length (cpus s)"
    "\<And>i. i < length (cpus s) \<Longrightarrow> sc_tasks (sched i s') = sc_tasks (sched i s) \<and> sc_cleanup (sched i s') = sc_cleanup (sched i s)"
    "\<And>u. sib_prev (tasks s' u) = sib_prev (tasks s u) \<and> sib_next (tasks s' u) = sib_next (tasks s u)"
  shows "queues s' tq cq"
  using assms(1) rq_holds_cong[of _ s _ s', OF _ assms(4)] unfolding queues_def assms(2) by (auto simp: assms(3))

lemma queues_upd_task [simp]:
  "(\<And>k. sib_prev (f k) = sib_prev k \<and> sib_next (f k) = sib_next k) \<Longrightarrow> queues (upd_task t f s) tq cq = queues s tq cq"
  by (auto elim!: queues_cong)

lemma off_queues_cong: "length (cpus s') = length (cpus s) \<Longrightarrow> off_queues s' = off_queues s"
  by (simp add: off_queues_def fun_eq_iff)

text \<open>Tasks on other queues keep their links when one queue changes.\<close>

lemma queues_update_tasks:
  assumes Q: "queues s tq cq" and i: "i < length (cpus s)" and h: "rq_holds q s' ts'"
    and cpus: "cpus s' = cpus s" and other: "\<And>u. u \<notin> set (tq i) \<Longrightarrow> u \<notin> set ts' \<Longrightarrow> tasks s' u = tasks s u"
    and new: "\<And>u. u \<in> set ts' \<Longrightarrow> u \<in> set (tq i) \<or> off_queues s tq cq u"
  shows "queues (upd_sched i (\<lambda>c. c\<lparr>sc_tasks := q\<rparr>) s') (tq(i := ts')) cq"
proof -
  let ?s = "upd_sched i (\<lambda>c. c\<lparr>sc_tasks := q\<rparr>) s'"
  have len: "length (cpus ?s) = length (cpus s)" by (simp add: cpus upd_sched_def)
  have disj: "set ts' \<inter> set (cq j) = {}" "j \<noteq> i \<Longrightarrow> set ts' \<inter> set (tq j) = {}" if "j < length (cpus s)" for j
  proof -
    have d: "set (tq i) \<inter> set (cq j) = {}" "j \<noteq> i \<Longrightarrow> set (tq i) \<inter> set (tq j) = {}" using Q i that unfolding queues_def by blast+
    have n: "u \<in> set (tq i) \<or> u \<notin> set (tq j) \<and> u \<notin> set (cq j)" if "u \<in> set ts'" for u
      using new[OF that] \<open>j < length (cpus s)\<close> by (auto simp: off_queues_def)
    show "set ts' \<inter> set (cq j) = {}" "j \<noteq> i \<Longrightarrow> set ts' \<inter> set (tq j) = {}" using d n by blast+
  qed
  have keep: "rq_holds r ?s us" if "rq_holds r s us" "set us \<inter> set (tq i) = {}" "set us \<inter> set ts' = {}" for r us
    using that(1) by (rule rq_holds_cong) (use that(2,3) other in \<open>auto simp: upd_sched_def disjoint_iff\<close>)
  have h': "rq_holds q ?s ts'" using h by (rule rq_holds_cong) (simp add: upd_sched_def)
  have held: "rq_holds (sc_tasks (sched j ?s)) ?s ((tq(i := ts')) j) \<and> rq_holds (sc_cleanup (sched j ?s)) ?s (cq j)"
    if j: "j < length (cpus s)" for j
  proof -
    have cl: "rq_holds (sc_cleanup (sched j s)) ?s (cq j)"
      using Q i j disj(1)[OF j] unfolding queues_def by (intro keep) (auto simp: Int_commute)
    have "rq_holds (sc_tasks (sched j s)) ?s (tq j)" if "j \<noteq> i"
      using Q i j disj(2)[OF j that] that unfolding queues_def by (intro keep) (auto simp: Int_commute)
    then show ?thesis using cl h' i j cpus by (cases "j = i") (auto simp: upd_sched_def)
  qed
  have apart: "set ((tq(i := ts')) a) \<inter> set (cq b) = {} \<and> (a \<noteq> b \<longrightarrow> set ((tq(i := ts')) a) \<inter> set ((tq(i := ts')) b) = {} \<and>
      set (cq a) \<inter> set (cq b) = {})" if ab: "a < length (cpus s)" "b < length (cpus s)" for a b
  proof -
    have Qab: "set (tq a) \<inter> set (cq b) = {} \<and> (a \<noteq> b \<longrightarrow> set (tq a) \<inter> set (tq b) = {} \<and> set (cq a) \<inter> set (cq b) = {})"
      using Q ab unfolding queues_def by blast
    show ?thesis using Qab disj[OF ab(1)] disj[OF ab(2)] by (cases "a = i"; cases "b = i") (simp_all add: Int_commute)
  qed
  show ?thesis unfolding queues_def len using held apart by blast
qed

lemma enqueue_task_ok:
  assumes "queues s tq cq" "i < length (cpus s)" "off_queues s tq cq t"
  shows "\<exists>s'. enqueue_task i (Some t) s = Inr s' \<and> queues s' (tq(i := tq i @ [t])) cq \<and> sbase s' = sbase s"
proof -
  have h: "rq_holds (sc_tasks (sched i s)) s (tq i)" "t \<notin> set (tq i)" using assms by (auto simp: queues_def off_queues_def)
  obtain q' s' where e: "runqueue_enqueue (Some t) (sc_tasks (sched i s)) s = Inr (q', s')" "rq_holds q' s' (tq i @ [t])"
    "base s' = base s" "\<And>u. u \<noteq> t \<Longrightarrow> u \<notin> set (tq i) \<Longrightarrow> tasks s' u = tasks s u"
    using runqueue_enqueue_holds[OF h] by blast
  have "queues (upd_sched i (\<lambda>c. c\<lparr>sc_tasks := q'\<rparr>) s') (tq(i := tq i @ [t])) cq"
    using e(4) assms(3) by (intro queues_update_tasks[OF assms(1,2) e(2) base_eqD(1)[OF e(3)]]) auto
  moreover have "sbase (upd_sched i (\<lambda>c. c\<lparr>sc_tasks := q'\<rparr>) s') = sbase s"
    unfolding upd_sched_def by (rule sbase_upd_sched[OF e(3)]) (simp add: cpu_base_def)
  ultimately show ?thesis using e(1) by (auto simp: enqueue_task_def)
qed

lemma dequeue_task_ok:
  assumes "queues s tq cq" "i < length (cpus s)" "tq i = t # ts"
  shows "\<exists>s'. dequeue_task i s = Inr (Some t, s') \<and> queues s' (tq(i := ts)) cq \<and> sbase s' = sbase s"
proof -
  have h: "rq_holds (sc_tasks (sched i s)) s (t # ts)" using assms by (auto simp: queues_def)
  obtain q' s' where e: "runqueue_dequeue (sc_tasks (sched i s)) s = Inr (Some t, q', s')" "rq_holds q' s' ts"
    "base s' = base s" "\<And>u. u \<notin> set (t # ts) \<Longrightarrow> tasks s' u = tasks s u"
    using runqueue_dequeue_holds[OF h] by blast
  have "queues (upd_sched i (\<lambda>c. c\<lparr>sc_tasks := q'\<rparr>) s') (tq(i := ts)) cq"
    using e(4) assms(3) by (intro queues_update_tasks[OF assms(1,2) e(2) base_eqD(1)[OF e(3)]]) auto
  moreover have "sbase (upd_sched i (\<lambda>c. c\<lparr>sc_tasks := q'\<rparr>) s') = sbase s"
    unfolding upd_sched_def by (rule sbase_upd_sched[OF e(3)]) (simp add: cpu_base_def)
  ultimately show ?thesis using e(1) by (auto simp: dequeue_task_def)
qed

text \<open>The two queues of a CPU play the same part: exchanging them turns one statement into the other.\<close>

definition swap_queues :: "'a ksys_scheme \<Rightarrow> 'a ksys_scheme" where
  "swap_queues s = s\<lparr>cpus := map (\<lambda>c. c\<lparr>pc_scheduler := (pc_scheduler c)\<lparr>sc_tasks := sc_cleanup (pc_scheduler c),
     sc_cleanup := sc_tasks (pc_scheduler c)\<rparr>\<rparr>) (cpus s)\<rparr>"

lemma swap_queues_simps [simp]:
  "tasks (swap_queues s) = tasks s" "length (cpus (swap_queues s)) = length (cpus s)"
  "i < length (cpus s) \<Longrightarrow> sc_tasks (sched i (swap_queues s)) = sc_cleanup (sched i s)"
  "i < length (cpus s) \<Longrightarrow> sc_cleanup (sched i (swap_queues s)) = sc_tasks (sched i s)"
  "rq_holds q (swap_queues s) ts = rq_holds q s ts"
  by (simp_all add: swap_queues_def rq_holds_def)

lemma queues_swap [simp]: "queues (swap_queues s) cq tq = queues s tq cq"
  by (simp add: queues_def) blast

lemma queues_update_cleanup:
  assumes Q: "queues s tq cq" and i: "i < length (cpus s)" and h: "rq_holds q s' ts'"
    and cpus: "cpus s' = cpus s" and other: "\<And>u. u \<notin> set (cq i) \<Longrightarrow> u \<notin> set ts' \<Longrightarrow> tasks s' u = tasks s u"
    and new: "\<And>u. u \<in> set ts' \<Longrightarrow> u \<in> set (cq i) \<or> off_queues s tq cq u"
  shows "queues (upd_sched i (\<lambda>c. c\<lparr>sc_cleanup := q\<rparr>) s') tq (cq(i := ts'))"
proof -
  have "queues (upd_sched i (\<lambda>c. c\<lparr>sc_tasks := q\<rparr>) (swap_queues s')) (cq(i := ts')) tq"
  proof (rule queues_update_tasks[of "swap_queues s"])
    show "cpus (swap_queues s') = cpus (swap_queues s)" using cpus by (simp add: swap_queues_def)
    show "\<And>u. u \<in> set ts' \<Longrightarrow> u \<in> set (cq i) \<or> off_queues (swap_queues s) cq tq u"
      using new by (auto simp: off_queues_def)
  qed (use Q i h other in simp_all)
  moreover have "upd_sched i (\<lambda>c. c\<lparr>sc_tasks := q\<rparr>) (swap_queues s') = swap_queues (upd_sched i (\<lambda>c. c\<lparr>sc_cleanup := q\<rparr>) s')"
    using i cpus by (cases "sched i s") (auto simp: swap_queues_def upd_sched_def upd_cpu_def map_update)
  ultimately show ?thesis by simp
qed

lemma enqueue_cleanup_ok:
  assumes "queues s tq cq" "i < length (cpus s)" "off_queues s tq cq t"
  shows "\<exists>s'. enqueue_cleanup i (Some t) s = Inr s' \<and> queues s' tq (cq(i := cq i @ [t])) \<and> sbase s' = sbase s"
proof -
  have h: "rq_holds (sc_cleanup (sched i s)) s (cq i)" "t \<notin> set (cq i)" using assms by (auto simp: queues_def off_queues_def)
  obtain q' s' where e: "runqueue_enqueue (Some t) (sc_cleanup (sched i s)) s = Inr (q', s')" "rq_holds q' s' (cq i @ [t])"
    "base s' = base s" "\<And>u. u \<noteq> t \<Longrightarrow> u \<notin> set (cq i) \<Longrightarrow> tasks s' u = tasks s u"
    using runqueue_enqueue_holds[OF h] by blast
  have "queues (upd_sched i (\<lambda>c. c\<lparr>sc_cleanup := q'\<rparr>) s') tq (cq(i := cq i @ [t]))"
    using e(4) assms(3) by (intro queues_update_cleanup[OF assms(1,2) e(2) base_eqD(1)[OF e(3)]]) auto
  moreover have "sbase (upd_sched i (\<lambda>c. c\<lparr>sc_cleanup := q'\<rparr>) s') = sbase s"
    unfolding upd_sched_def by (rule sbase_upd_sched[OF e(3)]) (simp add: cpu_base_def)
  ultimately show ?thesis using e(1) by (auto simp: enqueue_cleanup_def)
qed

text \<open>Steps that leave links and queues alone.\<close>

lemma queues_upd_cpu [simp]:
  assumes "\<And>c. sc_tasks (pc_scheduler (f c)) = sc_tasks (pc_scheduler c) \<and> sc_cleanup (pc_scheduler (f c)) = sc_cleanup (pc_scheduler c)"
  shows "queues (upd_cpu i f s) tq cq = queues s tq cq"
proof -
  have *: "sc_tasks (sched j (upd_cpu i f s)) = sc_tasks (sched j s) \<and> sc_cleanup (sched j (upd_cpu i f s)) = sc_cleanup (sched j s)"
    if "j < length (cpus s)" for j using that assms by (cases "j = i") auto
  show ?thesis using * by (auto elim!: queues_cong)
qed

lemma queues_km [simp]: "queues (s\<lparr>km := m\<rparr>) tq cq = queues s tq cq"
  by (auto elim!: queues_cong)

lemma off_queues_simps [simp]:
  "off_queues (upd_task t f s) = off_queues s" "off_queues (upd_cpu i g s) = off_queues s" "off_queues (s\<lparr>km := m\<rparr>) = off_queues s"
  by (simp_all add: off_queues_def fun_eq_iff)

lemma task_set_simps [simp]:
  "task_set_ready (Some t) s = Inr (upd_task t (\<lambda>k. k\<lparr>t_state := TH_TASK_STATE_READY\<rparr>) s)"
  "task_set_blocked (Some t) s = Inr (upd_task t (\<lambda>k. k\<lparr>t_state := TH_TASK_STATE_BLOCKED\<rparr>) s)"
  "task_set_zombie (Some t) c s = Inr (upd_task t (\<lambda>k. k\<lparr>t_state := TH_TASK_STATE_ZOMBIE c\<rparr>) s)"
  "task_set_running (Some t) p s = Inr (upd_task t (\<lambda>k. k\<lparr>t_state := TH_TASK_STATE_RUNNING p, last_processor_id := p\<rparr>) s)"
  by (simp_all add: task_set_ready_def task_set_blocked_def task_set_zombie_def task_set_running_def)

subsection \<open>Switching\<close>

text \<open>
  The registers of the old task are saved with the return address as instruction pointer, those of the new one are
  loaded; two words below the stack pointers are written.
\<close>

definition switch_mem :: "task_context \<Rightarrow> task_context \<Rightarrow> memory \<Rightarrow> memory" where
  "switch_mem r x m = store64 (c_rsp x - 8) (c_rflags x) (store64 (c_rsp r - 8) (c_rflags r) m)"

definition saved_regs :: "memory \<Rightarrow> task_context \<Rightarrow> task_context" where
  "saved_regs m r = r\<lparr>c_rip := load64 m (c_rsp r)\<rparr>"

definition loaded_regs :: "memory \<Rightarrow> task_context \<Rightarrow> task_context" where
  "loaded_regs m x = x\<lparr>c_rsp := c_rsp x + 8, c_rip := load64 m (c_rsp x)\<rparr>"

lemma task_context_switch_eq:
  assumes "a \<noteq> n" and "m = switch_mem (pc_regs (cpus s ! i)) (t_context (tasks s n)) (mem (km s))"
  shows "task_context_switch i (Some a) n s =
    Inr (upd_cpu i (\<lambda>c. c\<lparr>pc_regs := loaded_regs m (t_context (tasks s n))\<rparr>)
      ((upd_task a (\<lambda>k. k\<lparr>t_context := saved_regs (mem (km s)) (pc_regs (cpus s ! i))\<rparr>) s)\<lparr>km := (km s)\<lparr>mem := m\<rparr>\<rparr>))"
  using assms by (simp add: task_context_switch_def Let_def switch_mem_def saved_regs_def loaded_regs_def)

lemma switch_to_eq:
  assumes "a \<noteq> n" "i < length (cpus s)" "pmap (tasks s n) = Some p" "hhdm_resp (km s) = Some off"
    and "m = switch_mem (pc_regs (cpus s ! i)) (t_context (tasks s n)) (mem (km s))"
    and "kt = st_base (kstack (tasks s n)) + st_size (kstack (tasks s n))"
  shows "switch_to i (Some a) n s =
    Inr (upd_cpu i (\<lambda>c. c\<lparr>tss_rsp0 := kt, syscall_kernel_rsp := kt, pc_regs := loaded_regs m (t_context (tasks s n))\<rparr>)
      ((upd_task a (\<lambda>k. k\<lparr>t_context := saved_regs (mem (km s)) (pc_regs (cpus s ! i))\<rparr>) s)
        \<lparr>km := (km s)\<lparr>cr3 := pm_directory (pmaps s p) - off, mem := m\<rparr>\<rparr>))"
proof -
  let ?s = "upd_cpu i (\<lambda>c. c\<lparr>tss_rsp0 := kt, syscall_kernel_rsp := kt\<rparr>) (s\<lparr>km := (km s)\<lparr>cr3 := pm_directory (pmaps s p) - off\<rparr>\<rparr>)"
  have "switch_to i (Some a) n s = task_context_switch i (Some a) n ?s"
    using assms(3,4,6) by (simp add: switch_to_def Let_def task_pmap_def on_km_def vmm_switch_page_map_def pmap_of_def hhdm_v2p_def)
  moreover have "m = switch_mem (pc_regs (cpus ?s ! i)) (t_context (tasks ?s n)) (mem (km ?s))" using assms(2,5) by simp
  ultimately show ?thesis using task_context_switch_eq[OF assms(1), of m ?s i] assms(2)
    by (cases s) (simp add: upd_cpu_def upd_task_def)
qed

end
