(* ===== verification/Sched_Props.thy ===== *)
theory Sched_Props
  imports Sched_Queues
begin

section \<open>Properties of the scheduler\<close>

subsection \<open>Yielding\<close>

abbreviation run_on :: "nat \<Rightarrow> nat \<Rightarrow> 'a ksys_scheme \<Rightarrow> 'a ksys_scheme" where
  "run_on i n s \<equiv> upd_task n (\<lambda>k. k\<lparr>t_state := TH_TASK_STATE_RUNNING (processor_id (cpus s ! i)), last_processor_id := processor_id (cpus s ! i)\<rparr>)
     (upd_sched i (\<lambda>c. c\<lparr>sc_current := Some n\<rparr>) s)"

text \<open>A running task is put at the end of the queue and the first of the queue is taken.\<close>

lemma yield_running:
  assumes "queues s tq cq" "i = this_cpu (km s)" "i < length (cpus s)" "sc_current (sched i s) = Some a" "is_running (tasks s a)"
    "off_queues s tq cq a" "tq i @ [a] = n # ts" "sc_idle (sched i s) \<noteq> Some n"
  shows "\<exists>s3. sbase s3 = sbase (upd_task a (\<lambda>k. k\<lparr>t_state := TH_TASK_STATE_READY\<rparr>) s) \<and> queues s3 (tq(i := ts)) cq \<and>
    scheduler_yield s = (if a \<noteq> n then switch_to i (Some a) n (run_on i n s3) else Inr (run_on i n s3))"
proof -
  let ?s1 = "upd_task a (\<lambda>k. k\<lparr>t_state := TH_TASK_STATE_READY\<rparr>) s"
  have q1: "queues ?s1 tq cq" "off_queues ?s1 tq cq a" using assms(1,6) by simp_all
  obtain s2 where e: "enqueue_task i (Some a) ?s1 = Inr s2" "queues s2 (tq(i := n # ts)) cq" "sbase s2 = sbase ?s1"
    using enqueue_task_ok[OF q1(1) _ q1(2), of i] assms(3,7) by auto
  have len: "length (cpus s2) = length (cpus s)" using sbase_eqD(1)[OF e(3)] by simp
  obtain s3 where d: "dequeue_task i s2 = Inr (Some n, s3)" "queues s3 (tq(i := ts)) cq" "sbase s3 = sbase s2"
    using dequeue_task_ok[OF e(2), of i n ts] assms(3) len by auto
  have b: "sbase s3 = sbase ?s1" using d(3) e(3) by simp
  have "cpu_base (cpus s3 ! i) = cpu_base (cpus s ! i)" using sbase_cpuD[OF b, of i] assms(3) by simp
  then have idle: "sc_idle (sched i s3) = sc_idle (sched i s)" by (rule cpu_base_eqD(2))
  have len3: "i < length (cpus s3)" using sbase_eqD(1)[OF b] assms(3) by simp
  have "scheduler_yield s = (if a \<noteq> n then switch_to i (Some a) n (run_on i n s3) else Inr (run_on i n s3))"
    using assms(2-5,8) e(1) d(1) idle len3
    by (simp add: scheduler_yield_def mp_get_percpu_data_def Let_def upd_sched_def)
  then show ?thesis using b d(2) by blast
qed

text \<open>
  CPU \<open>i\<close> runs the first task of \<open>xs\<close> and has the others in its run queue, in this order; the idle task is not
  among them and all of them have an address space.
\<close>

definition running :: "nat \<Rightarrow> (nat \<Rightarrow> nat list) \<Rightarrow> (nat \<Rightarrow> nat list) \<Rightarrow> nat list \<Rightarrow> 'a ksys_scheme \<Rightarrow> bool" where
  "running i tq cq xs s \<longleftrightarrow> i = this_cpu (km s) \<and> i < length (cpus s) \<and> hhdm_resp (km s) \<noteq> None \<and>
     (case xs of
        [] \<Rightarrow> False
      | a # ts \<Rightarrow> queues s (tq(i := ts)) cq \<and> off_queues s (tq(i := ts)) cq a \<and> sc_current (sched i s) = Some a \<and> is_running (tasks s a)) \<and>
     (\<forall>t \<in> set xs. pmap (tasks s t) \<noteq> None \<and> sc_idle (sched i s) \<noteq> Some t)"

lemma off_after_rotate:
  assumes "queues s (tq(i := n # ts)) cq" "off_queues s (tq(i := n # ts)) cq a" "i < length (cpus s)"
  shows "off_queues s (tq(i := ts @ [a])) cq n"
proof -
  have "n \<notin> set ts" using assms(1,3) by (auto simp: queues_def rq_holds_def dll_def)
  moreover have "a \<noteq> n" using assms(2,3) by (auto simp: off_queues_def)
  moreover have "n \<notin> set (tq j)" if "j < length (cpus s)" "j \<noteq> i" for j
    using assms(1,3) that by (fastforce simp: queues_def)
  moreover have "n \<notin> set (cq j)" if "j < length (cpus s)" for j
    using assms(1,3) that by (fastforce simp: queues_def)
  ultimately show ?thesis by (auto simp: off_queues_def)
qed

lemma sbase_facts:
  assumes "sbase s3 = sbase s1" "i < length (cpus s1)"
  shows "sc_idle (sched i s3) = sc_idle (sched i s1)" "processor_id (cpus s3 ! i) = processor_id (cpus s1 ! i)"
    "pc_regs (cpus s3 ! i) = pc_regs (cpus s1 ! i)" "i < length (cpus s3)" "km s3 = km s1" "pmaps s3 = pmaps s1"
    "pmap (tasks s3 t) = pmap (tasks s1 t)" "kstack (tasks s3 t) = kstack (tasks s1 t)" "t_context (tasks s3 t) = t_context (tasks s1 t)"
    "t_state (tasks s3 t) = t_state (tasks s1 t)"
proof -
  note c = cpu_base_eqD[OF sbase_cpuD[OF assms]] and u = unlinked_eqD[OF sbase_eqD(11)[OF assms(1), of t]]
  show "sc_idle (sched i s3) = sc_idle (sched i s1)" "processor_id (cpus s3 ! i) = processor_id (cpus s1 ! i)"
    "pc_regs (cpus s3 ! i) = pc_regs (cpus s1 ! i)" using c by auto
  show "i < length (cpus s3)" "km s3 = km s1" "pmaps s3 = pmaps s1" using sbase_eqD(1,2,9)[OF assms(1)] assms(2) by auto
  show "pmap (tasks s3 t) = pmap (tasks s1 t)" "kstack (tasks s3 t) = kstack (tasks s1 t)" "t_state (tasks s3 t) = t_state (tasks s1 t)" using u by auto
  show "t_context (tasks s3 t) = t_context (tasks s1 t)"
    using arg_cong[OF sbase_eqD(11)[OF assms(1), of t], of t_context] by (simp add: unlinked_def)
qed

lemma yield_rotates:
  assumes r: "running i tq cq (a # n # ts) s" and p: "pmap (tasks s n) = Some p" and off: "hhdm_resp (km s) = Some off"
  shows "\<exists>s'. scheduler_yield s = Inr s' \<and> running i tq cq (n # ts @ [a]) s' \<and>
    t_state (tasks s' n) = TH_TASK_STATE_RUNNING (processor_id (cpus s ! i)) \<and> t_state (tasks s' a) = TH_TASK_STATE_READY \<and>
    cr3 (km s') = pm_directory (pmaps s p) - off \<and>
    tss_rsp0 (cpus s' ! i) = st_base (kstack (tasks s n)) + st_size (kstack (tasks s n)) \<and>
    syscall_kernel_rsp (cpus s' ! i) = tss_rsp0 (cpus s' ! i) \<and>
    t_context (tasks s' a) = saved_regs (mem (km s)) (pc_regs (cpus s ! i)) \<and>
    pc_regs (cpus s' ! i) = loaded_regs (mem (km s')) (t_context (tasks s n))"
proof -
  have R: "i = this_cpu (km s)" "i < length (cpus s)" "queues s (tq(i := n # ts)) cq" "off_queues s (tq(i := n # ts)) cq a"
    "sc_current (sched i s) = Some a" "is_running (tasks s a)" "sc_idle (sched i s) \<noteq> Some n"
    "\<forall>t \<in> set (a # n # ts). pmap (tasks s t) \<noteq> None \<and> sc_idle (sched i s) \<noteq> Some t"
    using r by (auto simp: running_def)
  have an: "a \<noteq> n" using R(2,4) by (auto simp: off_queues_def)
  let ?s1 = "upd_task a (\<lambda>k. k\<lparr>t_state := TH_TASK_STATE_READY\<rparr>) s"
  obtain s3 where y: "sbase s3 = sbase ?s1" "queues s3 ((tq(i := n # ts))(i := ts @ [a])) cq"
    "scheduler_yield s = switch_to i (Some a) n (run_on i n s3)"
    using yield_running[OF R(3,1,2,5,6,4), of n "ts @ [a]"] R(7) an by auto
  note f = sbase_facts[OF y(1), of i]
  have i1: "i < length (cpus ?s1)" using R(2) by simp
  let ?m = "switch_mem (pc_regs (cpus s ! i)) (t_context (tasks s n)) (mem (km s))"
  have g: "i < length (cpus (run_on i n s3))" "pmap (tasks (run_on i n s3) n) = Some p" "hhdm_resp (km (run_on i n s3)) = Some off"
    "pc_regs (cpus (run_on i n s3) ! i) = pc_regs (cpus s ! i)" "t_context (tasks (run_on i n s3) n) = t_context (tasks s n)"
    "kstack (tasks (run_on i n s3) n) = kstack (tasks s n)" "pmaps (run_on i n s3) = pmaps s" "km (run_on i n s3) = km s"
    using p off an f[OF i1] by (simp_all add: upd_sched_def)
  have sw: "switch_to i (Some a) n (run_on i n s3) =
    Inr (upd_cpu i (\<lambda>c. c\<lparr>tss_rsp0 := st_base (kstack (tasks s n)) + st_size (kstack (tasks s n)),
        syscall_kernel_rsp := st_base (kstack (tasks s n)) + st_size (kstack (tasks s n)), pc_regs := loaded_regs ?m (t_context (tasks s n))\<rparr>)
      ((upd_task a (\<lambda>k. k\<lparr>t_context := saved_regs (mem (km s)) (pc_regs (cpus s ! i))\<rparr>) (run_on i n s3))
        \<lparr>km := (km s)\<lparr>cr3 := pm_directory (pmaps s p) - off, mem := ?m\<rparr>\<rparr>))" (is "_ = Inr ?s'")
    using switch_to_eq[OF an g(1-3) refl refl] unfolding g(4-8) .
  have Q: "queues ?s' (tq(i := ts @ [a])) cq" using y(2) by (simp add: upd_sched_def)
  have O: "off_queues ?s' (tq(i := ts @ [a])) cq n"
    using off_after_rotate[OF R(3,4,2)] sbase_eqD(1)[OF y(1)] by (simp add: upd_sched_def off_queues_def)
  have pm: "pmap (tasks ?s' t) = pmap (tasks s t)" for t
    using f(7)[OF i1, of t] by (auto simp: upd_sched_def)
  have c: "sc_idle (sched i ?s') = sc_idle (sched i s)" "sc_current (sched i ?s') = Some n" "length (cpus ?s') = length (cpus s)"
    "this_cpu (km ?s') = this_cpu (km s)" "hhdm_resp (km ?s') = hhdm_resp (km s)"
    using f[OF i1] sbase_eqD(1)[OF y(1)] by (simp_all add: upd_sched_def)
  have st: "t_state (tasks ?s' n) = TH_TASK_STATE_RUNNING (processor_id (cpus s ! i))" "t_state (tasks ?s' a) = TH_TASK_STATE_READY"
    "t_context (tasks ?s' a) = saved_regs (mem (km s)) (pc_regs (cpus s ! i))"
    using an f[OF i1] by (auto simp: upd_sched_def)
  have "running i tq cq (n # ts @ [a]) ?s'" unfolding running_def pm c
    using Q O R(1,2,8) off st(1) c(2) by (auto simp: is_running_def)
  moreover have "pc_regs (cpus ?s' ! i) = loaded_regs (mem (km ?s')) (t_context (tasks s n))" "cr3 (km ?s') = pm_directory (pmaps s p) - off"
    "tss_rsp0 (cpus ?s' ! i) = st_base (kstack (tasks s n)) + st_size (kstack (tasks s n))" "syscall_kernel_rsp (cpus ?s' ! i) = tss_rsp0 (cpus ?s' ! i)"
    using f(4)[OF i1] by (simp_all add: upd_sched_def)
  ultimately show ?thesis using y(3) sw st by metis
qed

text \<open>With nobody waiting the task goes on.\<close>

lemma yield_alone:
  assumes "running i tq cq [a] s"
  shows "\<exists>s'. scheduler_yield s = Inr s' \<and> running i tq cq [a] s'"
proof -
  have R: "i = this_cpu (km s)" "i < length (cpus s)" "queues s (tq(i := [])) cq" "off_queues s (tq(i := [])) cq a"
    "sc_current (sched i s) = Some a" "is_running (tasks s a)" "sc_idle (sched i s) \<noteq> Some a" "pmap (tasks s a) \<noteq> None" "hhdm_resp (km s) \<noteq> None"
    using assms by (auto simp: running_def)
  let ?s1 = "upd_task a (\<lambda>k. k\<lparr>t_state := TH_TASK_STATE_READY\<rparr>) s"
  obtain s3 where y: "sbase s3 = sbase ?s1" "queues s3 ((tq(i := []))(i := [])) cq" "scheduler_yield s = Inr (run_on i a s3)"
    using yield_running[OF R(3,1,2,5,6,4), of a "[]"] R(7) by auto
  have i1: "i < length (cpus ?s1)" using R(2) by simp
  note f = sbase_facts[OF y(1) i1]
  have "running i tq cq [a] (run_on i a s3)" unfolding running_def
    using R y(2) f sbase_eqD(1)[OF y(1)] by (auto simp: upd_sched_def is_running_def off_queues_def)
  then show ?thesis using y(3) by blast
qed

fun yield_n :: "nat \<Rightarrow> 'a ksys_scheme \<Rightarrow> ('a ksys_scheme) outcome" where
  "yield_n 0 s = Inr s"
| "yield_n (Suc k) s = rbind (scheduler_yield s) (yield_n k)"

text \<open>A CPU that runs task 1 and has task 2 in its queue.\<close>

definition sched_demo :: ksys where
  "sched_demo = ksys_demo\<lparr>tasks := (\<lambda>_. task_demo)(1 := task_demo\<lparr>t_state := TH_TASK_STATE_RUNNING 0\<rparr>),
     cpus := [percpu_demo\<lparr>pc_scheduler := (pc_scheduler percpu_demo)\<lparr>sc_current := Some 1,
       sc_tasks := \<lparr>rq_lock = unlocked, rq_head = Some 2, rq_tail = Some 2, rq_count = 1\<rparr>\<rparr>,
       pc_regs := context_zero\<lparr>c_rsp := 0x40001000, c_rbx := 7\<rparr>\<rparr>]\<rparr>"

lemma sched_demo_running: "running 0 (\<lambda>_. []) (\<lambda>_. []) [1, 2] sched_demo"
  by (auto simp: running_def sched_demo_def ksys_demo_def percpu_demo_def vm_demo_def task_demo_def queues_def off_queues_def
      rq_holds_def dll_def rq_empty_def is_running_def)

text \<open>
  C21: A yield of a running task hands the CPU to the first task of the run queue. The task itself becomes ready at the end
  of the queue with its registers saved (the return address as instruction pointer); the new task is marked as
  running on this CPU, its page map is loaded, both kernel stack pointers of the CPU are the top of its kernel stack, and the
  CPU continues with its saved registers at the address on top of its stack.
\<close>

theorem scheduler_yield_switches:
  assumes "running i tq cq (a # n # ts) s" "pmap (tasks s n) = Some p" "hhdm_resp (km s) = Some off"
  shows "\<exists>s'. scheduler_yield s = Inr s' \<and> running i tq cq (n # ts @ [a]) s' \<and>
    t_state (tasks s' n) = TH_TASK_STATE_RUNNING (processor_id (cpus s ! i)) \<and> t_state (tasks s' a) = TH_TASK_STATE_READY \<and>
    cr3 (km s') = pm_directory (pmaps s p) - off \<and>
    tss_rsp0 (cpus s' ! i) = st_base (kstack (tasks s n)) + st_size (kstack (tasks s n)) \<and>
    syscall_kernel_rsp (cpus s' ! i) = tss_rsp0 (cpus s' ! i) \<and>
    t_context (tasks s' a) = saved_regs (mem (km s)) (pc_regs (cpus s ! i)) \<and>
    pc_regs (cpus s' ! i) = loaded_regs (mem (km s')) (t_context (tasks s n))"
  by (rule yield_rotates[OF assms])

theorem scheduler_yield_switches_witness:
  "\<exists>s'. scheduler_yield sched_demo = Inr s' \<and> running 0 (\<lambda>_. []) (\<lambda>_. []) [2, 1] s' \<and> tss_rsp0 (cpus s' ! 0) = 0x40004000 \<and>
    c_rbx (t_context (tasks s' 1)) = 7"
  using scheduler_yield_switches[OF sched_demo_running, of 0 268435456]
  by (auto simp: sched_demo_def ksys_demo_def vm_demo_def task_demo_def saved_regs_def)

text \<open>
  C22: Scheduling on a CPU is round robin: with the tasks \<open>xs\<close> runnable, the first of them running, any number \<open>k\<close> of yields
  returns and leaves the list rotated by \<open>k\<close>. In particular every runnable task runs once in \<open>length xs\<close> yields.
\<close>

theorem scheduler_round_robin:
  assumes "running i tq cq xs s"
  shows "\<exists>s'. yield_n k s = Inr s' \<and> running i tq cq (rotate k xs) s'"
  using assms
proof (induction k arbitrary: s xs)
  case 0
  then show ?case by simp
next
  case (Suc k)
  obtain s1 where y: "scheduler_yield s = Inr s1" "running i tq cq (rotate1 xs) s1"
  proof (cases xs)
    case Nil
    then show ?thesis using Suc.prems by (simp add: running_def)
  next
    case (Cons a ys)
    show ?thesis
    proof (cases ys)
      case Nil
      then show ?thesis using yield_alone[of i tq cq a s] Suc.prems Cons that by auto
    next
      case (Cons n ts)
      have r: "running i tq cq (a # n # ts) s" using Suc.prems \<open>xs = a # ys\<close> Cons by simp
      obtain p off where "pmap (tasks s n) = Some p" "hhdm_resp (km s) = Some off" using r by (auto simp: running_def)
      from yield_rotates[OF r this] show ?thesis using that \<open>xs = a # ys\<close> Cons by auto
    qed
  qed
  from Suc.IH[OF y(2)] show ?case using y(1) by (simp add: rotate_def funpow_swap1)
qed

theorem scheduler_round_robin_witness:
  "\<exists>s'. yield_n 3 sched_demo = Inr s' \<and> running 0 (\<lambda>_. []) (\<lambda>_. []) (rotate 3 [1, 2]) s'"
  by (rule scheduler_round_robin[OF sched_demo_running])

text \<open>
  Switching away from a task and back restores it: whatever the other task did to its registers and to memory in
  between, as long as the return address on the stack of the first task is kept, the CPU is again where the first switch was called
  from, with all saved registers, the flags and the stack pointer past the return address.
\<close>

theorem context_switch_roundtrip:
  assumes "a \<noteq> n" "i < length (cpus s)" "r = pc_regs (cpus s ! i)"
    and apart: "8 \<le> unat (c_rsp r - (c_rsp (t_context (tasks s n)) - 8))" "8 \<le> unat (c_rsp (t_context (tasks s n)) - 8 - c_rsp r)"
    and away: "8 \<le> unat (c_rsp r - (c_rsp r2 - 8))" "8 \<le> unat (c_rsp r2 - 8 - c_rsp r)"
    and kept: "load64 m2 (c_rsp r) = load64 (switch_mem r (t_context (tasks s n)) (mem (km s))) (c_rsp r)"
  shows "\<exists>s1 s2. task_context_switch i (Some a) n s = Inr s1 \<and> mem (km s1) = switch_mem r (t_context (tasks s n)) (mem (km s)) \<and>
    task_context_switch i (Some n) a (upd_cpu i (\<lambda>c. c\<lparr>pc_regs := r2\<rparr>) (s1\<lparr>km := (km s1)\<lparr>mem := m2\<rparr>\<rparr>)) = Inr s2 \<and>
    pc_regs (cpus s2 ! i) = r\<lparr>c_rsp := c_rsp r + 8, c_rip := load64 (mem (km s)) (c_rsp r)\<rparr>"
proof -
  let ?m = "switch_mem r (t_context (tasks s n)) (mem (km s))"
  let ?s1 = "upd_cpu i (\<lambda>c. c\<lparr>pc_regs := loaded_regs ?m (t_context (tasks s n))\<rparr>)
      ((upd_task a (\<lambda>k. k\<lparr>t_context := saved_regs (mem (km s)) r\<rparr>) s)\<lparr>km := (km s)\<lparr>mem := ?m\<rparr>\<rparr>)"
  let ?s = "upd_cpu i (\<lambda>c. c\<lparr>pc_regs := r2\<rparr>) (?s1\<lparr>km := (km ?s1)\<lparr>mem := m2\<rparr>\<rparr>)"
  have s1: "task_context_switch i (Some a) n s = Inr ?s1" using task_context_switch_eq[OF assms(1) refl, of i s] assms(3) by simp
  have regs: "pc_regs (cpus ?s ! i) = r2" "t_context (tasks ?s a) = saved_regs (mem (km s)) r" "mem (km ?s) = m2" using assms(2) by simp_all
  let ?m3 = "switch_mem r2 (saved_regs (mem (km s)) r) m2"
  have "load64 ?m3 (c_rsp r) = load64 m2 (c_rsp r)"
    using away by (simp add: switch_mem_def saved_regs_def load64_store64_far)
  moreover have "load64 ?m (c_rsp r) = load64 (mem (km s)) (c_rsp r)"
    using apart by (simp add: switch_mem_def load64_store64_far)
  ultimately have w: "load64 ?m3 (c_rsp r) = load64 (mem (km s)) (c_rsp r)" using kept by simp
  have "pc_regs (cpus (upd_cpu i (\<lambda>c. c\<lparr>pc_regs := loaded_regs ?m3 (saved_regs (mem (km s)) r)\<rparr>) s2) ! i) =
      r\<lparr>c_rsp := c_rsp r + 8, c_rip := load64 (mem (km s)) (c_rsp r)\<rparr>" if "i < length (cpus s2)" for s2 :: "'a ksys_scheme"
    using that w by (simp add: loaded_regs_def saved_regs_def)
  then show ?thesis using s1 task_context_switch_eq[OF assms(1)[symmetric] refl, of i ?s] regs assms(2) by auto
qed

theorem context_switch_roundtrip_witness:
  "\<exists>s1 s2. task_context_switch 0 (Some 1) 2 sched_demo = Inr s1 \<and>
    task_context_switch 0 (Some 2) 1 (upd_cpu 0 (\<lambda>c. c\<lparr>pc_regs := context_zero\<rparr>) (s1\<lparr>km := (km s1)\<lparr>mem :=
      switch_mem (pc_regs (cpus sched_demo ! 0)) (t_context (tasks sched_demo 2)) (mem (km sched_demo))\<rparr>\<rparr>)) = Inr s2 \<and>
    c_rbx (pc_regs (cpus s2 ! 0)) = 7 \<and> c_rsp (pc_regs (cpus s2 ! 0)) = 0x40001008"
proof -
  let ?r = "pc_regs (cpus sched_demo ! 0)" and ?x = "t_context (tasks sched_demo 2)"
  have e: "c_rsp ?r = 0x40001000" "c_rsp ?x = 0" "c_rbx ?r = 7" "0 < length (cpus sched_demo)"
    by (simp_all add: sched_demo_def ksys_demo_def task_demo_def context_zero_def)
  show ?thesis
    using context_switch_roundtrip[of 1 2 0 sched_demo ?r context_zero "switch_mem ?r ?x (mem (km sched_demo))"] e
    by (auto simp: context_zero_def)
qed

end
