(* ===== verification/Sched_Tick.thy ===== *)
theory Sched_Tick
  imports Sched_Props
begin

section \<open>Sleeping and waking\<close>

text \<open>
  \<^verbatim>\<open>scheduler_tick\<close> advances the clock of the CPU, wakes the sleepers whose time has come and frees dead tasks. A woken
  task goes to the end of the run queue of the CPU it is pinned to, or ran on last.
\<close>

subsection \<open>Waking one task\<close>

definition task_cpu :: "task \<Rightarrow> usize" where
  "task_cpu k = (if pin_enabled (t_pin k) then pin_processor_id (t_pin k) else last_processor_id k)"

lemma task_cpu_unlinked: "unlinked k = unlinked k' \<Longrightarrow> task_cpu k = task_cpu k'"
  using unlinked_eqD(4,5)[of k k'] by (simp add: task_cpu_def)

abbreviation ready :: "nat \<Rightarrow> 'a ksys_scheme \<Rightarrow> 'a ksys_scheme" where
  "ready t \<equiv> upd_task t (\<lambda>k. k\<lparr>t_state := TH_TASK_STATE_READY\<rparr>)"

lemma scheduler_wake_task_ok:
  assumes "queues s tq cq" "off_queues s tq cq t" "task_cpu (tasks s t) < mp_get_cpu_count s" "unat (task_cpu (tasks s t)) < length (cpus s)"
    and "j = unat (task_cpu (tasks s t))"
  shows "\<exists>s'. scheduler_wake_task (Some t) s = Inr s' \<and> queues s' (tq(j := tq j @ [t])) cq \<and> sbase s' = sbase (ready t s)"
proof -
  have q: "queues (ready t s) tq cq" "off_queues (ready t s) tq cq t" "j < length (cpus (ready t s))" using assms by simp_all
  obtain s' where e: "enqueue_task j (Some t) (ready t s) = Inr s'" "queues s' (tq(j := tq j @ [t])) cq" "sbase s' = sbase (ready t s)"
    using enqueue_task_ok[OF q(1,3,2)] by blast
  have "scheduler_wake_task (Some t) s = enqueue_task j (Some t) (ready t s)"
    using assms(3-5) by (auto simp: scheduler_wake_task_def task_cpu_def mp_get_percpu_data_of_def mp_get_cpu_count_def Let_def)
  then show ?thesis using e by auto
qed

text \<open>The state after waking the tasks \<open>ts\<close>, in this order.\<close>

definition task_waiter :: "nat \<Rightarrow> waiter" where
  "task_waiter t = \<lparr>wake = Some 1, udata = Some t\<rparr>"

lemma task_waiter_inj [simp]: "task_waiter t = task_waiter u \<longleftrightarrow> t = u"
  by (simp add: task_waiter_def)

definition woken :: "'a ksys_scheme \<Rightarrow> (nat \<Rightarrow> nat list) \<Rightarrow> nat list \<Rightarrow> nat \<Rightarrow> nat list" where
  "woken s tq ts i = tq i @ [t \<leftarrow> ts. unat (task_cpu (tasks s t)) = i]"

definition after_wakes :: "'a ksys_scheme \<Rightarrow> (nat \<Rightarrow> nat list) \<Rightarrow> (nat \<Rightarrow> nat list) \<Rightarrow> nat list \<Rightarrow> 'a ksys_scheme \<Rightarrow> bool" where
  "after_wakes s tq cq ts s' \<longleftrightarrow> queues s' (woken s tq ts) cq \<and> length (cpus s') = length (cpus s) \<and>
     (\<forall>i < length (cpus s). cpu_base (cpus s' ! i) = cpu_base (cpus s ! i)) \<and> km s' = km s \<and> wq_waiter s' = wq_waiter s \<and>
     (\<forall>t. unlinked (tasks s' t) = (if t \<in> set ts then (unlinked (tasks s t))\<lparr>t_state := TH_TASK_STATE_READY\<rparr> else unlinked (tasks s t)))"

lemma after_wakes_Nil: "queues s tq cq \<Longrightarrow> after_wakes s tq cq [] s"
proof -
  assume "queues s tq cq"
  moreover have "woken s tq [] = tq" by (simp add: woken_def fun_eq_iff)
  ultimately show ?thesis by (simp add: after_wakes_def)
qed

lemma after_wakes_off:
  assumes "after_wakes s tq cq ts s'" "t \<notin> set ts" "off_queues s tq cq t"
  shows "off_queues s' (woken s tq ts) cq t"
  using assms by (auto simp: after_wakes_def off_queues_def woken_def)

lemma after_wakes_cpu: "after_wakes s tq cq ts s' \<Longrightarrow> task_cpu (tasks s' t) = task_cpu (tasks s t)"
proof -
  assume "after_wakes s tq cq ts s'"
  then have "unlinked (tasks s' t) = (if t \<in> set ts then (unlinked (tasks s t))\<lparr>t_state := TH_TASK_STATE_READY\<rparr> else unlinked (tasks s t))"
    by (simp add: after_wakes_def)
  then have "t_pin (unlinked (tasks s' t)) = t_pin (unlinked (tasks s t))"
    "last_processor_id (unlinked (tasks s' t)) = last_processor_id (unlinked (tasks s t))" by simp_all
  then show ?thesis by (simp add: task_cpu_def unlinked_def)
qed

lemma uptime_cpu_base:
  assumes "length (cpus s') = length (cpus s)" "km s' = km s" "\<forall>i < length (cpus s). cpu_base (cpus s' ! i) = cpu_base (cpus s ! i)"
  shows "uptime_ns s' = uptime_ns s"
proof (cases "this_cpu (km s) < length (cpus s)")
  case True
  then have "cpu_base (cpus s' ! this_cpu (km s)) = cpu_base (cpus s ! this_cpu (km s))" using assms(3) by simp
  from cpu_base_eqD(3)[OF this] show ?thesis using assms(1,2) True by (simp add: uptime_ns_def mp_get_percpu_data_def)
next
  case False
  then show ?thesis using assms(1,2) by (simp add: uptime_ns_def mp_get_percpu_data_def)
qed

lemma unlinked_state: "unlinked (k\<lparr>t_state := v\<rparr>) = (unlinked k)\<lparr>t_state := v\<rparr>"
  by (cases k) (simp add: unlinked_def)

lemma after_wakes_step:
  assumes w: "after_wakes s tq cq ts s'" and t: "t \<notin> set ts" "off_queues s tq cq t"
    and cpu: "task_cpu (tasks s t) < mp_get_cpu_count s" "unat (task_cpu (tasks s t)) < length (cpus s)"
  shows "\<exists>s''. call_waiter kernel_wake (task_waiter t) s' = Inr s'' \<and> after_wakes s tq cq (ts @ [t]) s'' \<and>
    sleepers s'' = sleepers s' \<and> live s'' = live s' \<and> uptime_ns s'' = uptime_ns s' \<and> wq_waiter s'' = wq_waiter s'"
proof -
  note W = w[unfolded after_wakes_def]
  let ?j = "unat (task_cpu (tasks s t))"
  have c: "task_cpu (tasks s' t) = task_cpu (tasks s t)" using after_wakes_cpu[OF w] .
  have Q: "queues s' (woken s tq ts) cq" "length (cpus s') = length (cpus s)" "mp_get_cpu_count s' = mp_get_cpu_count s"
    using W by (simp_all add: mp_get_cpu_count_def)
  obtain s'' where e: "scheduler_wake_task (Some t) s' = Inr s''"
    "queues s'' ((woken s tq ts)(?j := woken s tq ts ?j @ [t])) cq" "sbase s'' = sbase (ready t s')"
    using scheduler_wake_task_ok[OF Q(1) after_wakes_off[OF w t], of ?j] cpu unfolding c Q by blast
  have wk: "(woken s tq ts)(?j := woken s tq ts ?j @ [t]) = woken s tq (ts @ [t])" by (auto simp: woken_def fun_eq_iff)
  note b = sbase_eqD[OF e(3)]
  have cb: "\<forall>i < length (cpus s'). cpu_base (cpus s'' ! i) = cpu_base (cpus s' ! i)" using sbase_cpuD[OF e(3)] by simp
  have "unlinked (tasks s'' u) = unlinked (tasks (ready t s') u)" for u using b(11) .
  then have "unlinked (tasks s'' u) = (if u \<in> set (ts @ [t]) then (unlinked (tasks s u))\<lparr>t_state := TH_TASK_STATE_READY\<rparr> else unlinked (tasks s u))" for u
    using W t(1) by (cases "u = t") (auto simp: unlinked_state)
  then have "after_wakes s tq cq (ts @ [t]) s''" unfolding after_wakes_def using W e(2) b cb by (simp add: wk)
  moreover have "uptime_ns s'' = uptime_ns s'" using b(1,2) cb by (intro uptime_cpu_base) simp_all
  ultimately show ?thesis using e(1) b by (auto simp: call_waiter_def task_waiter_def kernel_wake_def)
qed

subsection \<open>A tick\<close>

text \<open>With no dead task on the cleanup queue, cleaning up changes nothing.\<close>

lemma cleanup_loop_none:
  assumes "seg p (\<lambda>t. sib_next (tasks s t)) pr ts None" "\<forall>t \<in> set ts. refcount (tasks s t) \<noteq> 0"
  shows "cleanup_loop rel i (first_of ts None) s = Some (Inr s)"
  using assms
proof (induction ts arbitrary: pr)
  case Nil
  then show ?case by (simp add: cleanup_loop.simps)
next
  case (Cons t ts)
  then show ?case by (subst cleanup_loop.simps) (auto simp: cleanup_turn_def)
qed

lemma scheduler_cleanup_none:
  assumes "queues s tq cq" "i = this_cpu (km s)" "i < length (cpus s)" "\<forall>t \<in> set (cq i). refcount (tasks s t) \<noteq> 0"
  shows "scheduler_cleanup rel s = Inr s"
proof -
  have h: "rq_holds (sc_cleanup (sched i s)) s (cq i)" using assms by (simp add: queues_def)
  then have "rq_head (sc_cleanup (sched i s)) = first_of (cq i) None"
    "seg (\<lambda>t. sib_prev (tasks s t)) (\<lambda>t. sib_next (tasks s t)) None (cq i) None" by (auto simp: rq_holds_def dll_def)
  then show ?thesis using cleanup_loop_none[of _ s None "cq i" rel i] assms(2-4)
    by (simp add: scheduler_cleanup_def mp_get_percpu_data_def ended_def)
qed

text \<open>The sleepers \<open>xs\<close> of CPU \<open>i\<close> will wake distinct tasks that are on no queue.\<close>

definition asleep :: "nat \<Rightarrow> nat list \<Rightarrow> (nat \<Rightarrow> nat) \<Rightarrow> (nat \<Rightarrow> nat list) \<Rightarrow> (nat \<Rightarrow> nat list) \<Rightarrow> 'a ksys_scheme \<Rightarrow> bool" where
  "asleep i xs tk tq cq s \<longleftrightarrow> sll_holds (sc_sleepers (sched i s)) s xs \<and> queues s tq cq \<and> i = this_cpu (km s) \<and> i < length (cpus s) \<and>
     distinct (map tk xs) \<and>
     (\<forall>x \<in> set xs. waiter_of s x = task_waiter (tk x) \<and> off_queues s tq cq (tk x) \<and>
        task_cpu (tasks s (tk x)) < mp_get_cpu_count s \<and> unat (task_cpu (tasks s (tk x))) < length (cpus s))"

lemma after_wakes_heap:
  assumes "after_wakes s tq cq ts s1" "s2 = s1\<lparr>sleepers := a, live := b\<rparr>"
  shows "after_wakes s tq cq ts s2"
proof -
  have "queues s2 (woken s tq ts) cq" using assms by (auto simp: after_wakes_def elim!: queues_cong)
  then show ?thesis using assms by (simp add: after_wakes_def)
qed

lemma sll_holds_upd_cpu: "sll_holds l (upd_cpu i f s) xs = sll_holds l s xs"
  by (simp add: sll_holds_def sleeper_ok_def)

lemma tick_sleepers:
  assumes "asleep i xs tk tq cq s" "uptime_ns s = Inr now"
  shows "\<exists>l' s'. sleeperlist_tick kernel_wake (sc_sleepers (sched i s)) s = Inr (l', s') \<and>
    sll_holds l' s' [x \<leftarrow> xs. \<not> due now (sleepers s x)] \<and>
    after_wakes s tq cq (map tk [x \<leftarrow> xs. due now (sleepers s x)]) s' \<and> live s' = live s - {x \<in> set xs. due now (sleepers s x)}"
proof -
  note A = assms(1)[unfolded asleep_def]
  have W: "waiter_of s x = task_waiter (tk x)" "off_queues s tq cq (tk x)" "task_cpu (tasks s (tk x)) < mp_get_cpu_count s"
    "unat (task_cpu (tasks s (tk x))) < length (cpus s)" if "x \<in> set xs" for x using A that by auto
  let ?P = "\<lambda>ws s'. \<exists>ts. ws = map task_waiter ts \<and> after_wakes s tq cq ts s'"
  have P0: "?P [] s" using after_wakes_Nil[of s tq cq] A by auto
  have dist: "distinct (map (waiter_of s) xs)"
  proof -
    have "map (waiter_of s) xs = map task_waiter (map tk xs)" using W(1) by simp
    then show ?thesis using A by (simp add: distinct_map inj_on_def del: map_map)
  qed
  obtain l' s' where t: "sleeperlist_tick kernel_wake (sc_sleepers (sched i s)) s = Inr (l', s')"
    "sll_holds l' s' [x \<leftarrow> xs. \<not> due now (sleepers s x)]"
    "?P (map (waiter_of s) [x \<leftarrow> xs. due now (sleepers s x)]) s'" "live s' = live s - {x \<in> set xs. due now (sleepers s x)}"
  proof -
    have "\<exists>l' s'. sleeperlist_tick kernel_wake (sc_sleepers (sched i s)) s = Inr (l', s') \<and> sll_holds l' s' [x \<leftarrow> xs. \<not> due now (sleepers s x)] \<and>
      ?P (map (waiter_of s) [x \<leftarrow> xs. due now (sleepers s x)]) s' \<and> live s' = live s - {x \<in> set xs. due now (sleepers s x)}"
    proof (rule sleeperlist_tick_ok[where P = ?P, OF _ assms(2) P0 dist])
      show "sll_holds (sc_sleepers (sched i s)) s xs" using A by blast
    next
      fix ws s1 x
      assume h: "?P ws s1" "uptime_ns s1 = Inr now" "x \<in> set xs" "waiter_of s x = waiter_of s1 x" "waiter_of s x \<notin> set ws"
      then obtain ts where ts: "ws = map task_waiter ts" "after_wakes s tq cq ts s1" by blast
      have "tk x \<notin> set ts" using h(5) ts(1) W(1)[OF h(3)] by auto
      from after_wakes_step[OF ts(2) this W(2-4)[OF h(3)]]
      show "\<exists>s2. call_waiter kernel_wake (waiter_of s x) s1 = Inr s2 \<and> ?P (ws @ [waiter_of s x]) s2 \<and> sleepers s2 = sleepers s1 \<and>
          live s2 = live s1 \<and> uptime_ns s2 = Inr now \<and> wq_waiter s2 = wq_waiter s1"
        using h(2) ts(1) W(1)[OF h(3)] by (fastforce intro: exI[of _ "ts @ [tk x]"])
    next
      fix ws s1 s2
      assume "?P ws s1" "s2 = s1\<lparr>sleepers := sleepers s2, live := live s2\<rparr>"
      then show "?P ws s2" using after_wakes_heap by blast
    qed
    then show ?thesis using that by blast
  qed
  obtain ts where ts: "map (waiter_of s) [x \<leftarrow> xs. due now (sleepers s x)] = map task_waiter ts" "after_wakes s tq cq ts s'" using t(3) by blast
  have "map (waiter_of s) [x \<leftarrow> xs. due now (sleepers s x)] = map task_waiter (map tk [x \<leftarrow> xs. due now (sleepers s x)])"
    using W(1) by simp
  then have "ts = map tk [x \<leftarrow> xs. due now (sleepers s x)]"
    using ts(1) map_injective[of task_waiter ts] by (metis injI task_waiter_inj)
  then show ?thesis using t ts(2) by blast
qed

text \<open>
  C23: A timer tick wakes exactly the sleepers whose time has come. It returns; the clock of the CPU has advanced by the
  tick; the sleepers that remain are those not due at the new time, in the same order; each due task is ready and stands once at the
  end of the run queue of its CPU, in the order in which the tasks went to sleep; no other task changes its state.
\<close>

theorem scheduler_tick_wakes_due:
  assumes a: "asleep i xs tk tq cq s" and alive: "\<forall>t \<in> set (cq i). refcount (tasks s t) \<noteq> 0"
    and now: "now = sc_uptime_ns (sched i s) + ns" and d: "d = [x \<leftarrow> xs. due now (sleepers s x)]"
  shows "\<exists>s'. scheduler_tick rel ns s = Inr s' \<and> sc_uptime_ns (sched i s') = now \<and>
    sll_holds (sc_sleepers (sched i s')) s' [x \<leftarrow> xs. \<not> due now (sleepers s x)] \<and> queues s' (woken s tq (map tk d)) cq \<and>
    (\<forall>t. t_state (tasks s' t) = (if t \<in> tk ` set d then TH_TASK_STATE_READY else t_state (tasks s t)))"
proof -
  note A = a[unfolded asleep_def]
  let ?s1 = "upd_sched i (\<lambda>c. c\<lparr>sc_uptime_ns := sc_uptime_ns c + ns\<rparr>) s"
  have i: "i < length (cpus s)" "i = this_cpu (km s)" using A by blast+
  have s1: "tasks ?s1 = tasks s" "sleepers ?s1 = sleepers s" "sc_sleepers (sched i ?s1) = sc_sleepers (sched i s)" "off_queues ?s1 = off_queues s"
    "mp_get_cpu_count ?s1 = mp_get_cpu_count s" "length (cpus ?s1) = length (cpus s)" "km ?s1 = km s"
    "\<And>x. waiter_of ?s1 x = waiter_of s x" "\<And>l. sll_holds l ?s1 xs = sll_holds l s xs" "queues ?s1 tq cq = queues s tq cq"
    using i by (simp_all add: upd_sched_def mp_get_cpu_count_def waiter_of_def sll_holds_upd_cpu)
  have a1: "asleep i xs tk tq cq ?s1" using A unfolding asleep_def s1 by blast
  have u1: "uptime_ns ?s1 = Inr now" using i now by (simp add: uptime_ns_def mp_get_percpu_data_def upd_sched_def)
  obtain l' s2 where t: "sleeperlist_tick kernel_wake (sc_sleepers (sched i ?s1)) ?s1 = Inr (l', s2)"
    "sll_holds l' s2 [x \<leftarrow> xs. \<not> due now (sleepers s x)]" "after_wakes ?s1 tq cq (map tk d) s2"
    using tick_sleepers[OF a1 u1] unfolding s1(2) d by blast
  note W = t(3)[unfolded after_wakes_def]
  let ?s' = "upd_sched i (\<lambda>c. c\<lparr>sc_sleepers := l'\<rparr>) s2"
  have wk: "woken ?s1 tq (map tk d) = woken s tq (map tk d)" by (simp add: woken_def fun_eq_iff s1(1))
  have len: "length (cpus s2) = length (cpus s)" "km s2 = km s" using W s1(6,7) by simp_all
  have Q: "queues ?s' (woken s tq (map tk d)) cq" using W wk by (simp add: upd_sched_def)
  have ul: "unlinked (tasks s2 t) = (if t \<in> set (map tk d) then (unlinked (tasks s t))\<lparr>t_state := TH_TASK_STATE_READY\<rparr> else unlinked (tasks s t))" for t
    using W s1(1) by simp
  have "refcount (unlinked (tasks s2 t)) = refcount (unlinked (tasks s t))" for t unfolding ul by simp
  then have rc: "refcount (tasks ?s' t) = refcount (tasks s t)" for t by (simp add: unlinked_def upd_sched_def)
  have "t_state (unlinked (tasks s2 t)) = (if t \<in> tk ` set d then TH_TASK_STATE_READY else t_state (unlinked (tasks s t)))" for t
    unfolding ul by simp
  then have st: "t_state (tasks ?s' t) = (if t \<in> tk ` set d then TH_TASK_STATE_READY else t_state (tasks s t))" for t
    by (simp add: unlinked_def upd_sched_def)
  have cl: "scheduler_cleanup rel ?s' = Inr ?s'"
    using alive len i unfolding rc[symmetric] by (intro scheduler_cleanup_none[OF Q, of i]) (simp_all add: upd_sched_def)
  have "cpu_base (cpus s2 ! i) = cpu_base (cpus ?s1 ! i)" using W s1(6) i(1) by simp
  from cpu_base_eqD(3)[OF this] have up: "sc_uptime_ns (sched i ?s') = now" using i len now by (simp add: upd_sched_def)
  have sl: "sll_holds (sc_sleepers (sched i ?s')) ?s' [x \<leftarrow> xs. \<not> due now (sleepers s x)]"
    using t(2) i len by (simp add: upd_sched_def sll_holds_upd_cpu)
  have "scheduler_tick rel ns s = Inr ?s'" using t(1) cl i by (simp add: scheduler_tick_def mp_get_percpu_data_def Let_def)
  then show ?thesis using up sl Q st by blast
qed

text \<open>Tasks 5 and 6 sleep for 50 and for 500 nanoseconds; the clock stands at 100.\<close>

definition sleep_demo :: ksys where
  "sleep_demo = ksys_demo\<lparr>live := {3, 4}, wq_waiter := task_waiter,
     sleepers := (\<lambda>_. \<lparr>sl_timer = \<lparr>get_time_ns = Some 1, started_at = 0, paused_at = 0, started = True, paused = False\<rparr>,
         sl_duration_ns = 50, sl_w = Some 5, sl_prev = None, sl_next = Some 4\<rparr>)
       (4 := \<lparr>sl_timer = \<lparr>get_time_ns = Some 1, started_at = 0, paused_at = 0, started = True, paused = False\<rparr>,
         sl_duration_ns = 500, sl_w = Some 6, sl_prev = Some 3, sl_next = None\<rparr>),
     cpus := [percpu_demo\<lparr>pc_scheduler := (pc_scheduler percpu_demo)\<lparr>
       sc_sleepers := \<lparr>sll_lock = unlocked, sll_head = Some 3, sll_tail = Some 4, sll_count = 2\<rparr>\<rparr>\<rparr>]\<rparr>"

lemma sleep_demo_asleep: "asleep 0 [3, 4] (\<lambda>x. x + 2) (\<lambda>_. []) (\<lambda>_. []) sleep_demo"
  by (auto simp: asleep_def sleep_demo_def ksys_demo_def percpu_demo_def vm_demo_def task_demo_def queues_def off_queues_def
      rq_holds_def rq_empty_def sll_holds_def dll_def sleeper_ok_def waiter_of_def task_cpu_def mp_get_cpu_count_def)

theorem scheduler_tick_wakes_due_witness:
  "\<exists>s'. scheduler_tick (\<lambda>_ _. Inr) 10 sleep_demo = Inr s' \<and> sc_uptime_ns (sched 0 s') = 110 \<and>
    t_state (tasks s' 5) = TH_TASK_STATE_READY \<and> sll_holds (sc_sleepers (sched 0 s')) s' [4]"
proof -
  have d: "[3] = [x \<leftarrow> [3, 4]. due 110 (sleepers sleep_demo x)]" "[4] = [x \<leftarrow> [3, 4]. \<not> due 110 (sleepers sleep_demo x)]"
    by (simp_all add: due_def sleep_demo_def)
  have now: "110 = sc_uptime_ns (sched 0 sleep_demo) + 10" by (simp add: sleep_demo_def percpu_demo_def)
  show ?thesis using scheduler_tick_wakes_due[OF sleep_demo_asleep _ now d(1), of "\<lambda>_ _. Inr"] unfolding d(2)[symmetric] by auto
qed

end
