(* ===== verification/Task_Api.thy ===== *)
theory Task_Api
  imports Sched_Tick
begin

section \<open>Sleeping, joining, exiting and spawning (kernel/proc/task.c, kernel/proc/spawn.c)\<close>

text \<open>
  The calls a task makes about itself end at the point where another task runs; what follows the yield in the source
  runs when the task is switched to again. \<open>task_join\<close> says whether it returned at once, and \<open>task_join_resume\<close> is
  its last line. The array of page addresses of \<^verbatim>\<open>spawn_user_task\<close> is a raw heap block of 64-bit cells.
\<close>

subsection \<open>Calls of the current task\<close>

definition task_current_id :: "'a ksys_scheme \<Rightarrow> u32 outcome" where
  "task_current_id s =
     rbind (scheduler_get_current_task s) (\<lambda>cur.
     case cur of None \<Rightarrow> Inl AssertFail | Some t \<Rightarrow> Inr (t_id (tasks s t)))"

definition task_sleep :: "u64 \<Rightarrow> 'a ksys_scheme \<Rightarrow> ('a ksys_scheme) outcome" where
  "task_sleep ns s =
     rbind (scheduler_get_current_task s) (\<lambda>cur.
     check (cur \<noteq> None)
     (rbind (scheduler_make_waiter cur) (\<lambda>w.
      rbind (waitqueue_item_init cur w s) (\<lambda>s.
      rbind (scheduler_wakeup_after ns cur s) (\<lambda>s.
      rbind (task_set_blocked cur s) (\<lambda>s.
      scheduler_yield s))))))"

definition is_zombie :: "task \<Rightarrow> bool" where
  "is_zombie k \<longleftrightarrow> (case t_state k of TH_TASK_STATE_ZOMBIE _ \<Rightarrow> True | _ \<Rightarrow> False)"

definition task_join :: "u32 \<Rightarrow> 'a ksys_scheme \<Rightarrow> (bool \<times> 'a ksys_scheme) outcome" where
  "task_join tid s =
     rbind (scheduler_get_current_task s) (\<lambda>cur.
     check (cur \<noteq> None)
     (rbind (scheduler_get_task_by_id tid s) (\<lambda>(target, s).
      case target of
        None \<Rightarrow> Inl AssertFail
      | Some t \<Rightarrow>
          check (\<not> has_flag (t_flags (tasks s t)) TH_TASK_FLAG_DETACHED)
          (if is_zombie (tasks s t) then rbind (task_release target s) (\<lambda>(_, s). Inr (True, s))
           else
             rbind (scheduler_make_waiter cur) (\<lambda>w.
             rbind (waitqueue_item_init cur w s) (\<lambda>s.
             rbind (waitqueue_add cur (joiners (tasks s t)) s) (\<lambda>(q, s).
             let s = upd_task t (\<lambda>k. k\<lparr>joiners := q\<rparr>) s in
             if is_zombie (tasks s t)
             then
               rbind (waitqueue_del cur (joiners (tasks s t)) s) (\<lambda>(q, s).
               let s = upd_task t (\<lambda>k. k\<lparr>joiners := q\<rparr>) s in
               rbind (task_release target s) (\<lambda>(_, s). Inr (True, s)))
             else
               rbind (task_set_blocked cur s) (\<lambda>s.
               rbind (scheduler_yield s) (\<lambda>s. Inr (False, s))))))))))"

definition task_join_resume :: "ref \<Rightarrow> 'a ksys_scheme \<Rightarrow> ('a ksys_scheme) outcome" where
  "task_join_resume target s = rbind (task_release target s) (\<lambda>(_, s). Inr s)"

definition task_exit :: "i32 \<Rightarrow> 'a ksys_scheme \<Rightarrow> ('a ksys_scheme) outcome" where
  "task_exit exit_code s = scheduler_kill_current_task exit_code s"

subsection \<open>Spawning\<close>

definition kernel_desc :: "u32 \<Rightarrow> u64 \<Rightarrow> u64 \<Rightarrow> task_desc" where
  "kernel_desc tid f arg = \<lparr>td_task_id = tid, td_kstack_size = 16 * 1024, td_ustack_size = 0, td_fn = f, td_arg = arg,
     td_pin = \<lparr>pin_enabled = False, pin_processor_id = 0\<rparr>, td_flags = TH_TASK_FLAG_KERNEL, td_uid = 0, td_gid = 0\<rparr>"

definition spawn_kernel_task :: "code_syms \<Rightarrow> ('a ksys_ext) release_fn \<Rightarrow> u64 \<Rightarrow> u64 \<Rightarrow> 'a ksys_scheme \<Rightarrow> (u32 \<times> 'a ksys_scheme) outcome" where
  "spawn_kernel_task syms rel f arg s =
     rbind (mp_get_percpu_data s) (\<lambda>(i, cpu).
     rbind (allocate_obj SIZEOF_TASK s) (\<lambda>(t, s).
     rbind (scheduler_get_next_tid s) (\<lambda>(tid, s).
     let desc = kernel_desc tid f arg in
     rbind (task_init syms rel (Some t) desc s) (\<lambda>s.
     rbind (task_set_ready (Some t) s) (\<lambda>s.
     rbind (enqueue_task i (Some t) s) (\<lambda>s.
     Inr (td_task_id desc, s)))))))"

definition USER_CODE_BASE :: u64 where "USER_CODE_BASE = 0x400000"

text \<open>Copying one page of the binary into a fresh frame, whose address goes to the array at \<open>arr\<close>.\<close>

definition load_page :: "const_span \<Rightarrow> uptr \<Rightarrow> nat \<Rightarrow> vmachine \<Rightarrow> vmachine outcome" where
  "load_page binary arr i m =
     rbind (pmm_alloc 1 m) (\<lambda>(pa, m).
     let m = on_mem (store64 (arr + of_nat i * 8) pa) m in
     rbind (hhdm_p2v (load64 (mem m) (arr + of_nat i * 8)) m) (\<lambda>va.
     let offset = of_nat i * MM_VIRT_PAGE_SIZE;
         copy_len = cspan_size binary - offset;
         copy_len = (if copy_len > MM_VIRT_PAGE_SIZE then MM_VIRT_PAGE_SIZE else copy_len) in
     rbind (memcpy va (cspan_data binary + offset) copy_len (mem m)) (\<lambda>(_, b).
     rbind (if copy_len < MM_VIRT_PAGE_SIZE then memset (va + copy_len) 0 (MM_VIRT_PAGE_SIZE - copy_len) b else Inr (va, b)) (\<lambda>(_, b).
     Inr (m\<lparr>mem := b\<rparr>)))))"

definition map_code :: "pmap_ptr \<Rightarrow> uptr \<Rightarrow> nat \<Rightarrow> vmachine \<Rightarrow> vmachine outcome" where
  "map_code pm arr i m =
     vmm_map pm (USER_CODE_BASE + of_nat i * MM_VIRT_PAGE_SIZE) (load64 (mem m) (arr + of_nat i * 8))
       (MM_PT_FLAG_VALID OR MM_PT_FLAG_WRITE OR MM_PT_FLAG_USER) MM_PAGE_4KB m"

definition spawn_user_task :: "code_syms \<Rightarrow> ('a ksys_ext) release_fn \<Rightarrow> const_span \<Rightarrow> u64 \<Rightarrow> 'a ksys_scheme \<Rightarrow> (u32 \<times> 'a ksys_scheme) outcome" where
  "spawn_user_task syms rel binary startup_info s =
     check (cspan_data binary \<noteq> 0) (check (cspan_size binary > 0)
     (rbind (mp_get_percpu_data s) (\<lambda>(i, cpu).
      rbind (scheduler_get_current_task s) (\<lambda>cur.
      let bin_page_count = (cspan_size binary + MM_VIRT_PAGE_SIZE - 1) div MM_VIRT_PAGE_SIZE in
      rbind (allocate_raw (8 * bin_page_count) 16 s) (\<lambda>(arr, s).
      rbind (on_km (for_r (load_page binary arr) [0..<unat bin_page_count]) s) (\<lambda>s.
      rbind (allocate_obj SIZEOF_TASK s) (\<lambda>(t, s).
      rbind (scheduler_get_next_tid s) (\<lambda>(tid, s).
      let desc = \<lparr>td_task_id = tid, td_kstack_size = 16 * 1024, td_ustack_size = 16 * 1024, td_fn = USER_CODE_BASE, td_arg = startup_info,
            td_pin = \<lparr>pin_enabled = False, pin_processor_id = 0\<rparr>, td_flags = TH_TASK_FLAG_DETACHED,
            td_uid = (case cur of Some c \<Rightarrow> t_uid (tasks s c) | None \<Rightarrow> 0), td_gid = (case cur of Some c \<Rightarrow> t_gid (tasks s c) | None \<Rightarrow> 0)\<rparr> in
      rbind (task_init syms rel (Some t) desc s) (\<lambda>s.
      rbind (task_pmap t s) (\<lambda>pm.
      rbind (on_km (for_r (map_code pm arr) [0..<unat bin_page_count]) s) (\<lambda>s.
      rbind (deallocate_raw arr s) (\<lambda>s.
      rbind (task_set_ready (Some t) s) (\<lambda>s.
      rbind (enqueue_task i (Some t) s) (\<lambda>s.
      Inr (td_task_id desc, s)))))))))))))))"

end
