(* ===== verification/Task_Props.thy ===== *)
theory Task_Props
  imports Task_Api
begin

section \<open>Properties of tasks: exit, join and spawn\<close>

subsection \<open>Giving up the CPU for good\<close>

lemma yield_leaves:
  assumes Q: "queues s tq cq" and i: "i = this_cpu (km s)" "i < length (cpus s)" and c: "sc_current (sched i s) = Some a" "\<not> is_running (tasks s a)"
    and n: "tq i = n # ts" "sc_idle (sched i s) \<noteq> Some n" "a \<noteq> n" "pmap (tasks s n) = Some p" and off: "hhdm_resp (km s) = Some off"
  shows "\<exists>s'. scheduler_yield s = Inr s' \<and> queues s' (tq(i := ts)) cq \<and> sc_current (sched i s') = Some n \<and>
    cr3 (km s') = pm_directory (pmaps s p) - off \<and>
    (\<forall>t. t_state (tasks s' t) = (if t = n then TH_TASK_STATE_RUNNING (processor_id (cpus s ! i)) else t_state (tasks s t)) \<and>
       refcount (tasks s' t) = refcount (tasks s t))"
proof -
  obtain s3 where d: "dequeue_task i s = Inr (Some n, s3)" "queues s3 (tq(i := ts)) cq" "sbase s3 = sbase s"
    using dequeue_task_ok[OF Q i(2) n(1)] by blast
  note f = sbase_facts[OF d(3) i(2)]
  have rc: "refcount (tasks s3 t) = refcount (tasks s t)" for t using unlinked_eqD(3)[OF sbase_eqD(11)[OF d(3), of t]] .
  have y: "scheduler_yield s = switch_to i (Some a) n (run_on i n s3)"
    using i c n(2,3) d(1) f by (simp add: scheduler_yield_def mp_get_percpu_data_def Let_def upd_sched_def)
  have g: "i < length (cpus (run_on i n s3))" "pmap (tasks (run_on i n s3) n) = Some p" "hhdm_resp (km (run_on i n s3)) = Some off"
    using n(4) off f by (simp_all add: upd_sched_def)
  obtain g1 x m where sw: "switch_to i (Some a) n (run_on i n s3) =
      Inr (upd_cpu i (\<lambda>c. c\<lparr>tss_rsp0 := g1, syscall_kernel_rsp := g1, pc_regs := x\<rparr>)
        ((upd_task a (\<lambda>k. k\<lparr>t_context := saved_regs (mem (km (run_on i n s3))) (pc_regs (cpus (run_on i n s3) ! i))\<rparr>) (run_on i n s3))
          \<lparr>km := (km (run_on i n s3))\<lparr>cr3 := pm_directory (pmaps (run_on i n s3) p) - off, mem := m\<rparr>\<rparr>))" (is "_ = Inr ?s'")
    using switch_to_eq[OF n(3) g refl refl] by blast
  have "queues ?s' (tq(i := ts)) cq" using d(2) by (simp add: upd_sched_def)
  moreover have "sc_current (sched i ?s') = Some n" "cr3 (km ?s') = pm_directory (pmaps s p) - off" using f by (simp_all add: upd_sched_def)
  moreover have "t_state (tasks ?s' t) = (if t = n then TH_TASK_STATE_RUNNING (processor_id (cpus s ! i)) else t_state (tasks s t)) \<and>
       refcount (tasks ?s' t) = refcount (tasks s t)" for t
    using f rc n(3) by (auto simp: upd_sched_def)
  ultimately show ?thesis using y sw by metis
qed

subsection \<open>Exit\<close>

lemma keeps_links_wake: "keeps_links kernel_wake"
proof -
  have "wq_prev s' = wq_prev s \<and> wq_next s' = wq_next s" if "enqueue_task i t s = Inr s'" for i t and s s' :: "'a ksys_scheme"
    using that by (auto simp: enqueue_task_def runqueue_enqueue_def Let_def upd_sched_def outcome_simps split: option.splits)
  then show ?thesis
    by (fastforce simp: keeps_links_def kernel_wake_def scheduler_wake_task_def Let_def outcome_simps split: option.splits if_splits)
qed

text \<open>Waking the tasks \<open>js\<close> whose blockers are in a queue, in its order.\<close>

lemma wake_items_ok:
  assumes "\<forall>t \<in> set js. wq_waiter s t = task_waiter t \<and> off_queues s tq cq t \<and>
      task_cpu (tasks s t) < mp_get_cpu_count s \<and> unat (task_cpu (tasks s t)) < length (cpus s)"
    "after_wakes s tq cq ts s1" "distinct (ts @ js)"
  shows "\<exists>s'. for_r (wake_item kernel_wake) js s1 = Inr s' \<and> after_wakes s tq cq (ts @ js) s'"
  using assms
proof (induction js arbitrary: ts s1)
  case Nil
  then show ?case by simp
next
  case (Cons t js)
  let ?s2 = "s1\<lparr>wq_prev := (wq_prev s1)(t := None), wq_next := (wq_next s1)(t := None)\<rparr>"
  have q2: "queues ?s2 (woken s tq ts) cq" using Cons.prems(2) by (auto simp: after_wakes_def elim!: queues_cong)
  have w2: "after_wakes s tq cq ts ?s2" using Cons.prems(2) q2 by (simp add: after_wakes_def)
  have h: "off_queues s tq cq t" "task_cpu (tasks s t) < mp_get_cpu_count s" "unat (task_cpu (tasks s t)) < length (cpus s)" "t \<notin> set ts"
    "wq_waiter s1 t = task_waiter t" using Cons.prems by (auto simp: after_wakes_def)
  obtain s3 where s3: "call_waiter kernel_wake (task_waiter t) ?s2 = Inr s3" "after_wakes s tq cq (ts @ [t]) s3"
    using after_wakes_step[OF w2 h(4,1-3)] by blast
  have "wake_item kernel_wake t s1 = Inr s3" using s3(1) h(5) by (simp add: wake_item_def Let_def)
  moreover have "\<exists>s'. for_r (wake_item kernel_wake) js s3 = Inr s' \<and> after_wakes s tq cq ((ts @ [t]) @ js) s'"
    using Cons.prems(1,3) s3(2) by (intro Cons.IH) auto
  ultimately show ?case by simp
qed

text \<open>
  Task \<open>a\<close> runs on CPU \<open>i\<close>; the tasks \<open>js\<close> wait for it to end, each with its blocker in the queue of joiners of \<open>a\<close>.
\<close>

definition joined :: "nat \<Rightarrow> nat \<Rightarrow> nat list \<Rightarrow> (nat \<Rightarrow> nat list) \<Rightarrow> (nat \<Rightarrow> nat list) \<Rightarrow> 'a ksys_scheme \<Rightarrow> bool" where
  "joined i a js tq cq s \<longleftrightarrow> queues s tq cq \<and> i = this_cpu (km s) \<and> i < length (cpus s) \<and> sc_current (sched i s) = Some a \<and>
     off_queues s tq cq a \<and> refcount (tasks s a) \<noteq> 0 \<and> wq_holds (joiners (tasks s a)) s js \<and> a \<notin> set js \<and>
     (\<forall>t \<in> set js. wq_waiter s t = task_waiter t \<and> off_queues s tq cq t \<and>
        task_cpu (tasks s t) < mp_get_cpu_count s \<and> unat (task_cpu (tasks s t)) < length (cpus s))"

lemma exit_wakes:
  assumes j: "joined i a js tq cq s"
  shows "\<exists>q s2. waitqueue_wake_all kernel_wake (joiners (tasks s a)) (upd_task a (\<lambda>k. k\<lparr>t_state := TH_TASK_STATE_ZOMBIE code\<rparr>) s) = Inr (q, s2) \<and>
    after_wakes (upd_task a (\<lambda>k. k\<lparr>t_state := TH_TASK_STATE_ZOMBIE code\<rparr>) s) tq cq js s2"
proof -
  let ?s1 = "upd_task a (\<lambda>k. k\<lparr>t_state := TH_TASK_STATE_ZOMBIE code\<rparr>) s"
  have J: "queues s tq cq" "wq_holds (joiners (tasks s a)) s js" "distinct js" using j by (auto simp: joined_def wq_holds_def dll_def)
  have h: "\<forall>t \<in> set js. wq_waiter ?s1 t = task_waiter t \<and> off_queues ?s1 tq cq t \<and>
      task_cpu (tasks ?s1 t) < mp_get_cpu_count ?s1 \<and> unat (task_cpu (tasks ?s1 t)) < length (cpus ?s1)"
    using j by (auto simp: joined_def mp_get_cpu_count_def task_cpu_def)
  obtain s2 where w: "for_r (wake_item kernel_wake) js ?s1 = Inr s2" "after_wakes ?s1 tq cq js s2"
    using wake_items_ok[OF h after_wakes_Nil] J by auto
  have "wq_holds (joiners (tasks s a)) ?s1 js" using J(2) by (simp add: wq_holds_def)
  from waitqueue_wake_all_ok[OF keeps_links_wake this w(1)] w(2) show ?thesis by blast
qed

text \<open>Ending the current task: it exits, or is killed for a page fault.\<close>

lemma kill_current_ok:
  assumes j: "joined i a js tq cq s" and n: "woken s tq js i = n # ts" "sc_idle (sched i s) \<noteq> Some n" "pmap (tasks s n) = Some p"
    and off: "hhdm_resp (km s) = Some off"
  shows "\<exists>s'. scheduler_kill_current_task code s = Inr s' \<and> queues s' ((woken s tq js)(i := ts)) (cq(i := cq i @ [a])) \<and>
    sc_current (sched i s') = Some n \<and> refcount (tasks s' a) = refcount (tasks s a) - 1 \<and>
    (\<forall>t. t_state (tasks s' t) = (if t = n then TH_TASK_STATE_RUNNING (processor_id (cpus s ! i)) else if t = a then TH_TASK_STATE_ZOMBIE code
       else if t \<in> set js then TH_TASK_STATE_READY else t_state (tasks s t)))"
proof -
  note J = j[unfolded joined_def]
  let ?s1 = "upd_task a (\<lambda>k. k\<lparr>t_state := TH_TASK_STATE_ZOMBIE code\<rparr>) s"
  have i: "i = this_cpu (km s)" "i < length (cpus s)" "sc_current (sched i s) = Some a" "a \<notin> set js" using J by blast+
  obtain q s2 where w: "waitqueue_wake_all kernel_wake (joiners (tasks s a)) ?s1 = Inr (q, s2)" "after_wakes ?s1 tq cq js s2"
    using exit_wakes[OF j, of code] by blast
  note W = w(2)[unfolded after_wakes_def]
  let ?s3 = "upd_task a (\<lambda>k. k\<lparr>joiners := q\<rparr>) s2"
  have wk: "woken ?s1 tq js = woken s tq js" by (auto simp: woken_def fun_eq_iff task_cpu_def intro!: filter_cong)
  have len: "length (cpus s2) = length (cpus s)" "km s2 = km s" using W by auto
  have Q3: "queues ?s3 (woken s tq js) cq" using W wk by simp
  have O3: "off_queues ?s3 (woken s tq js) cq a" using after_wakes_off[OF w(2) i(4)] J wk by simp
  obtain s4 where e: "enqueue_cleanup i (Some a) ?s3 = Inr s4" "queues s4 (woken s tq js) (cq(i := cq i @ [a]))" "sbase s4 = sbase ?s3"
    using enqueue_cleanup_ok[OF Q3 _ O3, of i] i(2) len by auto
  let ?s5 = "upd_task a (\<lambda>k. k\<lparr>refcount := refcount k - 1\<rparr>) s4"
  have i3: "i < length (cpus ?s3)" using i(2) len by simp
  note f = sbase_facts[OF e(3) i3]
  have u2: "unlinked (tasks s2 t) = (if t \<in> set js then (unlinked (tasks ?s1 t))\<lparr>t_state := TH_TASK_STATE_READY\<rparr> else unlinked (tasks ?s1 t))" for t
    using W by blast
  have "t_state (unlinked (tasks s2 t)) = (if t \<in> set js then TH_TASK_STATE_READY else t_state (unlinked (tasks ?s1 t)))"
    "refcount (unlinked (tasks s2 t)) = refcount (unlinked (tasks ?s1 t))" "pmap (unlinked (tasks s2 t)) = pmap (unlinked (tasks ?s1 t))" for t
    unfolding u2 by simp_all
  then have t2: "t_state (tasks s2 t) = (if t \<in> set js then TH_TASK_STATE_READY else if t = a then TH_TASK_STATE_ZOMBIE code else t_state (tasks s t))"
    "refcount (tasks s2 t) = refcount (tasks s t)" "pmap (tasks s2 t) = pmap (tasks s t)" for t
    by (auto simp: unlinked_def)
  have rc4: "refcount (tasks s4 t) = refcount (tasks s t)" for t
    using unlinked_eqD(3)[OF sbase_eqD(11)[OF e(3), of t]] t2(2)[of t] by auto
  have st5: "t_state (tasks ?s5 t) = (if t \<in> set js then TH_TASK_STATE_READY else if t = a then TH_TASK_STATE_ZOMBIE code else t_state (tasks s t))"
    "pmap (tasks ?s5 t) = pmap (tasks s t)" for t using f(7,10)[of t] t2(1,3)[of t] by auto
  have "cpu_base (cpus s4 ! i) = cpu_base (cpus s ! i)"
    using sbase_cpuD[OF e(3) i3] W i(2) by simp
  note cb = cpu_base_eqD[OF this]
  have "a \<noteq> n"
  proof
    assume "a = n"
    then have "a \<in> set (woken s tq js i)" using n(1) by simp
    then show False using J by (auto simp: woken_def off_queues_def)
  qed
  have km5: "km ?s5 = km s" using f(5) len by simp
  have z: "\<not> is_running (tasks ?s5 a)" using st5(1)[of a] i(4) by (simp add: is_running_def)
  have y: "\<exists>s'. scheduler_yield ?s5 = Inr s' \<and> queues s' ((woken s tq js)(i := ts)) (cq(i := cq i @ [a])) \<and> sc_current (sched i s') = Some n \<and>
    cr3 (km s') = pm_directory (pmaps ?s5 p) - off \<and>
    (\<forall>t. t_state (tasks s' t) = (if t = n then TH_TASK_STATE_RUNNING (processor_id (cpus ?s5 ! i)) else t_state (tasks ?s5 t)) \<and>
       refcount (tasks s' t) = refcount (tasks ?s5 t))"
  proof (rule yield_leaves)
    show "queues ?s5 (woken s tq js) (cq(i := cq i @ [a]))" using e(2) by simp
    show "i = this_cpu (km ?s5)" "i < length (cpus ?s5)" "sc_current (sched i ?s5) = Some a" "sc_idle (sched i ?s5) \<noteq> Some n"
      using i km5 f(4) cb(1,2) n(2) by simp_all
    show "pmap (tasks ?s5 n) = Some p" "hhdm_resp (km ?s5) = Some off" using st5(2) n(3) off km5 by auto
  qed fact+
  have "scheduler_kill_current_task code s = scheduler_yield ?s5"
    using i w(1) e(1) J rc4[of a] by (simp add: scheduler_kill_current_task_def mp_get_percpu_data_def Let_def task_release_def)
  moreover have "processor_id (cpus ?s5 ! i) = processor_id (cpus s ! i)" "refcount (tasks ?s5 a) = refcount (tasks s a) - 1" using cb(5) rc4 by simp_all
  moreover obtain s' where Y: "scheduler_yield ?s5 = Inr s'" "queues s' ((woken s tq js)(i := ts)) (cq(i := cq i @ [a]))" "sc_current (sched i s') = Some n"
    "\<And>t. t_state (tasks s' t) = (if t = n then TH_TASK_STATE_RUNNING (processor_id (cpus ?s5 ! i)) else t_state (tasks ?s5 t))"
    "\<And>t. refcount (tasks s' t) = refcount (tasks ?s5 t)"
    using y by blast
  moreover have "t_state (tasks s' t) = (if t = n then TH_TASK_STATE_RUNNING (processor_id (cpus s ! i)) else if t = a then TH_TASK_STATE_ZOMBIE code
       else if t \<in> set js then TH_TASK_STATE_READY else t_state (tasks s t))" for t
    unfolding Y(4) st5(1) calculation(2) using i(4) by simp
  ultimately show ?thesis by (intro exI[of _ s']) (simp only: simp_thms)
qed

text \<open>
  Exiting wakes every task that waits for the task: each is ready at the end of the run queue of its CPU, once. The exiting task
  is a zombie with the exit code on the cleanup queue of its CPU, has given up its own reference, and the first task of
  the run queue runs.
\<close>

theorem task_exit_wakes_joiners:
  assumes j: "joined i a js tq cq s" and n: "woken s tq js i = n # ts" "sc_idle (sched i s) \<noteq> Some n" "pmap (tasks s n) = Some p"
    and off: "hhdm_resp (km s) = Some off"
  shows "\<exists>s'. task_exit code s = Inr s' \<and> queues s' ((woken s tq js)(i := ts)) (cq(i := cq i @ [a])) \<and>
    sc_current (sched i s') = Some n \<and> refcount (tasks s' a) = refcount (tasks s a) - 1 \<and>
    (\<forall>t. t_state (tasks s' t) = (if t = n then TH_TASK_STATE_RUNNING (processor_id (cpus s ! i)) else if t = a then TH_TASK_STATE_ZOMBIE code
       else if t \<in> set js then TH_TASK_STATE_READY else t_state (tasks s t)))"
  unfolding task_exit_def by (rule kill_current_ok[OF assms])

text \<open>Task 1 runs and task 2 waits for it.\<close>

definition exit_demo :: ksys where
  "exit_demo = ksys_demo\<lparr>wq_waiter := task_waiter,
     tasks := (\<lambda>_. task_demo)(1 := task_demo\<lparr>t_state := TH_TASK_STATE_RUNNING 0,
       joiners := \<lparr>wq_lock = unlocked, wq_head = Some 2, wq_tail = Some 2\<rparr>\<rparr>),
     cpus := [percpu_demo\<lparr>pc_scheduler := (pc_scheduler percpu_demo)\<lparr>sc_current := Some 1\<rparr>\<rparr>]\<rparr>"

lemma exit_demo_joined: "joined 0 1 [2] (\<lambda>_. []) (\<lambda>_. []) exit_demo"
  by (auto simp: joined_def exit_demo_def ksys_demo_def percpu_demo_def vm_demo_def task_demo_def queues_def off_queues_def
      rq_holds_def rq_empty_def wq_holds_def dll_def task_cpu_def mp_get_cpu_count_def)

theorem task_exit_wakes_joiners_witness:
  "\<exists>s'. task_exit 3 exit_demo = Inr s' \<and> sc_current (sched 0 s') = Some 2 \<and> refcount (tasks s' 1) = 0 \<and>
    t_state (tasks s' 1) = TH_TASK_STATE_ZOMBIE 3 \<and> t_state (tasks s' 2) = TH_TASK_STATE_RUNNING 0"
proof -
  have h: "woken exit_demo (\<lambda>_. []) [2] 0 = [2]" "sc_idle (sched 0 exit_demo) \<noteq> Some 2" "pmap (tasks exit_demo 2) = Some 0"
    "hhdm_resp (km exit_demo) = Some 268435456" "refcount (tasks exit_demo 1) = 1" "processor_id (cpus exit_demo ! 0) = 0"
    by (simp_all add: woken_def exit_demo_def ksys_demo_def percpu_demo_def vm_demo_def task_demo_def task_cpu_def)
  show ?thesis using task_exit_wakes_joiners[OF exit_demo_joined h(1-4), of 3] h(5,6) by auto
qed

subsection \<open>Join\<close>

lemma upd_sched_same:
  "sc_tasks (sched i s) = q \<Longrightarrow> upd_sched i (\<lambda>c. c\<lparr>sc_tasks := q\<rparr>) s = s"
  "sc_cleanup (sched i s) = q \<Longrightarrow> upd_sched i (\<lambda>c. c\<lparr>sc_cleanup := q\<rparr>) s = s"
  by (auto simp: upd_sched_def upd_cpu_def)

text \<open>No queue and no CPU has a task with the id.\<close>

definition not_listed :: "u32 \<Rightarrow> (nat \<Rightarrow> nat list) \<Rightarrow> (nat \<Rightarrow> nat list) \<Rightarrow> 'a ksys_scheme \<Rightarrow> bool" where
  "not_listed tid tq cq s \<longleftrightarrow> (\<forall>i < length (cpus s). (\<forall>u \<in> set (tq i) \<union> set (cq i). t_id (tasks s u) \<noteq> tid) \<and>
     (\<forall>u. sc_current (sched i s) = Some u \<longrightarrow> t_id (tasks s u) \<noteq> tid))"

lemma find_task_none:
  assumes "queues s tq cq" "not_listed tid tq cq s" "mp_get_cpu_count s = of_nat (length (cpus s))" "length (cpus s) < 2 ^ 64"
  shows "set cs \<subseteq> {..<length (cpus s)} \<Longrightarrow> find_task tid cs s = Inr (None, s)"
proof (induction cs)
  case Nil
  then show ?case by simp
next
  case (Cons c cs)
  have c: "c < length (cpus s)" using Cons.prems by simp
  have u: "unat (of_nat c :: usize) = c" using c assms(4) by (simp add: unat_of_nat_u64)
  have "(of_nat c :: usize) < mp_get_cpu_count s"
    using c assms(3,4) by (simp add: word_less_nat_alt unat_of_nat_u64)
  then have p: "mp_get_percpu_data_of (of_nat c) s = Inr (c, cpus s ! c)" using c u by (simp add: mp_get_percpu_data_of_def)
  have t: "runqueue_find_by_id tid (sc_tasks (sched c s)) s = Inr (None, sc_tasks (sched c s), s)"
    "runqueue_find_by_id tid (sc_cleanup (sched c s)) s = Inr (None, sc_cleanup (sched c s), s)"
  proof -
    have h: "rq_holds (sc_tasks (sched c s)) s (tq c)" "rq_holds (sc_cleanup (sched c s)) s (cq c)" using assms(1) c by (auto simp: queues_def)
    have "List.find (\<lambda>t. t_id (tasks s t) = tid) (tq c) = None" "List.find (\<lambda>t. t_id (tasks s t) = tid) (cq c) = None"
      using assms(2) c by (auto simp: not_listed_def find_None_iff)
    then show "runqueue_find_by_id tid (sc_tasks (sched c s)) s = Inr (None, sc_tasks (sched c s), s)"
      "runqueue_find_by_id tid (sc_cleanup (sched c s)) s = Inr (None, sc_cleanup (sched c s), s)"
      using runqueue_find_by_id_eq[OF h(1), of tid] runqueue_find_by_id_eq[OF h(2), of tid] by simp_all
  qed
  have "acquire_current tid (sc_current (sched c s)) s = Inr (False, s)"
    using assms(2) c by (auto simp: not_listed_def acquire_current_def split: option.splits)
  then show ?case using Cons p t by (simp add: upd_sched_same Let_def)
qed

text \<open>
  Joining a task that is asleep stops the kernel. A blocked task is on no run queue or cleanup queue and runs on no CPU,
  so \<^verbatim>\<open>scheduler_get_task_by_id\<close> does not find it although it exists, and \<^verbatim>\<open>task_join\<close> fails at its assertion.
\<close>

theorem task_join_blocked_panics:
  assumes "queues s tq cq" "i = this_cpu (km s)" "i < length (cpus s)" "sc_current (sched i s) = Some a"
    and "mp_get_cpu_count s = of_nat (length (cpus s))" "length (cpus s) < 2 ^ 64"
    and "t_state (tasks s t) = TH_TASK_STATE_BLOCKED" "off_queues s tq cq t" "\<forall>c < length (cpus s). sc_current (sched c s) \<noteq> Some t"
    and ids: "\<forall>c < length (cpus s). \<forall>u \<in> set (tq c) \<union> set (cq c) \<union> set_option (sc_current (sched c s)). t_id (tasks s u) = t_id (tasks s t) \<longrightarrow> u = t"
  shows "scheduler_get_task_by_id (t_id (tasks s t)) s = Inr (None, s) \<and> task_join (t_id (tasks s t)) s = Inl AssertFail"
proof -
  have "not_listed (t_id (tasks s t)) tq cq s" using assms(8,9) ids by (fastforce simp: not_listed_def off_queues_def)
  from find_task_none[OF assms(1) this assms(5,6), of "[0..<unat (mp_get_cpu_count s)]"]
  have "scheduler_get_task_by_id (t_id (tasks s t)) s = Inr (None, s)"
    using assms(5,6) by (simp add: scheduler_get_task_by_id_def unat_of_nat_u64 atLeast0LessThan)
  then show ?thesis using assms(2-4) by (simp add: task_join_def scheduler_get_current_task_def mp_get_percpu_data_def)
qed

definition join_demo :: ksys where
  "join_demo = ksys_demo\<lparr>km := vm_demo\<lparr>cpu_count := 1\<rparr>,
     tasks := (\<lambda>_. task_demo)(5 := task_demo\<lparr>t_id := 9, t_state := TH_TASK_STATE_BLOCKED\<rparr>)\<rparr>"

theorem task_join_blocked_panics_witness:
  "t_state (tasks join_demo 5) = TH_TASK_STATE_BLOCKED \<and> t_id (tasks join_demo 5) = 9 \<and> task_join 9 join_demo = Inl AssertFail"
proof -
  have "queues join_demo (\<lambda>_. []) (\<lambda>_. [])" "off_queues join_demo (\<lambda>_. []) (\<lambda>_. []) 5"
    by (simp_all add: queues_def off_queues_def join_demo_def ksys_demo_def percpu_demo_def rq_holds_def rq_empty_def)
  from task_join_blocked_panics[OF this(1) _ _ _ _ _ _ this(2), of 0 0] show ?thesis
    by (simp add: join_demo_def ksys_demo_def vm_demo_def percpu_demo_def task_demo_def mp_get_cpu_count_def)
qed

subsection \<open>Spawn\<close>

text \<open>
  \<^verbatim>\<open>spawn_kernel_task\<close> returns the next task id and advances it; the new task has this id, one reference, is ready, and
  stands at the end of the run queue of the calling CPU; no other queue changes.
\<close>

theorem spawn_kernel_task_enqueues:
  assumes Q: "queues s tq cq" and i: "i = this_cpu (km s)" "i < length (cpus s)" and lock: "scheduler_lock s = unlocked"
    and t: "malloc_obj s SIZEOF_TASK (live s) = Some t" "off_queues s tq cq t"
    and res: "task_resources (kernel_desc (next_task_id s) f arg) (s\<lparr>live := insert t (live s)\<rparr>) p q c"
  shows "\<exists>s'. spawn_kernel_task syms rel f arg s = Inr (next_task_id s, s') \<and> next_task_id s' = next_task_id s + 1 \<and>
    queues s' (tq(i := tq i @ [t])) cq \<and> t_id (tasks s' t) = next_task_id s \<and> t_state (tasks s' t) = TH_TASK_STATE_READY \<and>
    refcount (tasks s' t) = 1"
proof -
  let ?d = "kernel_desc (next_task_id s) f arg"
  let ?s1 = "s\<lparr>live := insert t (live s), next_task_id := next_task_id s + 1, scheduler_lock := unlocked\<rparr>"
  have a: "allocate_obj SIZEOF_TASK s = Inr (t, s\<lparr>live := insert t (live s)\<rparr>)" using allocate_obj_eq[OF t(1)] by (simp add: SIZEOF_TASK_def)
  have n: "scheduler_get_next_tid (s\<lparr>live := insert t (live s)\<rparr>) = Inr (next_task_id s, ?s1)"
    using lock by (simp add: scheduler_get_next_tid_def Let_def)
  have K: "has_flag (td_flags ?d) TH_TASK_FLAG_KERNEL" "td_ustack_size ?d = 0" by (simp_all add: kernel_desc_def has_flag_def TH_TASK_FLAG_KERNEL_def)
  have r: "task_resources ?d ?s1 p q c" using res by (simp add: task_resources_def)
  obtain s2 k0 b l ct where ti: "task_init syms rel (Some t) ?d ?s1 = Inr s2" and f: "cpus s2 = cpus s" "\<forall>u. u \<noteq> t \<longrightarrow> tasks s2 u = tasks s u"
    "next_task_id s2 = next_task_id s + 1" "t_id (tasks s2 t) = next_task_id s" "refcount (tasks s2 t) = 1"
    using task_init_kernel[OF K r, of syms rel t] by (auto simp: Let_def kernel_desc_def)
  let ?s3 = "ready t s2"
  have Q3: "queues ?s3 tq cq"
  proof -
    have h: "rq_holds qq ?s3 ts" if "rq_holds qq s ts" "t \<notin> set ts" for qq ts
      using that(1) by (rule rq_holds_cong) (use that(2) f(2) in auto)
    show ?thesis using Q t(2) f(1) unfolding queues_def off_queues_def by (auto intro: h)
  qed
  have O3: "off_queues ?s3 tq cq t" using t(2) f(1) by (simp add: off_queues_def)
  obtain s4 where e: "enqueue_task i (Some t) ?s3 = Inr s4" "queues s4 (tq(i := tq i @ [t])) cq" "sbase s4 = sbase ?s3"
    using enqueue_task_ok[OF Q3 _ O3, of i] i(2) f(1) by auto
  have "spawn_kernel_task syms rel f arg s = Inr (next_task_id s, s4)"
    using i a n ti e(1) by (simp add: spawn_kernel_task_def mp_get_percpu_data_def Let_def kernel_desc_def)
  moreover have "next_task_id s4 = next_task_id s + 1" using arg_cong[OF e(3), of next_task_id] f(3) by (simp add: sbase_def base_def)
  moreover have "t_id (tasks s4 t) = next_task_id s" "t_state (tasks s4 t) = TH_TASK_STATE_READY" "refcount (tasks s4 t) = 1"
    using unlinked_eqD(1-3)[OF sbase_eqD(11)[OF e(3), of t]] f(4,5) by auto
  ultimately show ?thesis using e(2) by blast
qed

definition spawn_demo :: ksys where
  "spawn_demo = ksys_demo\<lparr>live := {}, malloc_obj := (\<lambda>_ U. if U = {} then Some 0 else if U = {0} then Some 1 else if U = {0, 1} then Some 2 else None)\<rparr>"

theorem spawn_kernel_task_enqueues_witness:
  "\<exists>s'. spawn_kernel_task syms_demo (\<lambda>_ _. Inr) 0x1234 0x5678 spawn_demo = Inr (2, s') \<and> next_task_id s' = 3 \<and>
    queues s' ((\<lambda>_. [])(0 := [0])) (\<lambda>_. [])"
proof -
  have q: "queues spawn_demo (\<lambda>_. []) (\<lambda>_. [])" "off_queues spawn_demo (\<lambda>_. []) (\<lambda>_. []) 0"
    by (simp_all add: queues_def off_queues_def spawn_demo_def ksys_demo_def percpu_demo_def rq_holds_def rq_empty_def)
  have "task_resources (kernel_desc (next_task_id spawn_demo) 0x1234 0x5678) (spawn_demo\<lparr>live := insert 0 (live spawn_demo)\<rparr>) 0x40000000 1 2"
    using desc_demo_resources
    by (auto simp: task_resources_def spawn_demo_def ksys_demo_def kernel_desc_def desc_demo_def kstack_bytes_def insert_commute)
  from spawn_kernel_task_enqueues[OF q(1) _ _ _ _ q(2) this, of 0 syms_demo "\<lambda>_ _. Inr"] show ?thesis
    by (auto simp: spawn_demo_def ksys_demo_def vm_demo_def)
qed

end
