(* ===== verification/Msr.thy ===== *)
theory Msr
  imports Prelude
begin

section \<open>Model-specific registers (kernel/cpu/msr.c, kernel/cpu/percpu.c)\<close>

text \<open>
  The registers of a CPU are a map from their number to their value. The instructions move a value in two halves, as the
  source does.
\<close>

type_synonym msrs = "u64 \<Rightarrow> u64"

definition IA32_GS_BASE :: u64 where "IA32_GS_BASE = 0xC0000101"
definition IA32_KERNEL_GS_BASE :: u64 where "IA32_KERNEL_GS_BASE = 0xC0000102"
definition IA32_EFER :: u64 where "IA32_EFER = 0xC0000080"
definition IA32_STAR :: u64 where "IA32_STAR = 0xC0000081"
definition IA32_LSTAR :: u64 where "IA32_LSTAR = 0xC0000082"
definition IA32_FMASK :: u64 where "IA32_FMASK = 0xC0000084"
definition IA32_EFER_SCE :: u64 where "IA32_EFER_SCE = 1"

lemmas msr_numbers = IA32_GS_BASE_def IA32_KERNEL_GS_BASE_def IA32_EFER_def IA32_STAR_def IA32_LSTAR_def IA32_FMASK_def

text \<open>What the instructions do: \<^verbatim>\<open>edx:eax\<close> is the value.\<close>

definition rdmsr_insn :: "u64 \<Rightarrow> msrs \<Rightarrow> 32 word \<times> 32 word" where
  "rdmsr_insn msr r = (ucast (r msr), ucast (drop_bit 32 (r msr)))"

definition wrmsr_insn :: "u64 \<Rightarrow> 32 word \<Rightarrow> 32 word \<Rightarrow> msrs \<Rightarrow> msrs" where
  "wrmsr_insn msr low high r = r(msr := push_bit 32 (ucast high) OR ucast low)"

definition rdmsr :: "u64 \<Rightarrow> msrs \<Rightarrow> u64" where
  "rdmsr msr r = (case rdmsr_insn msr r of (low, high) \<Rightarrow> push_bit 32 (ucast high) OR ucast low)"

definition wrmsr :: "u64 \<Rightarrow> u64 \<Rightarrow> msrs \<Rightarrow> msrs" where
  "wrmsr msr v r =
     (let low = ucast (v AND 0xFFFFFFFF); high = ucast (drop_bit 32 v) in wrmsr_insn msr low high r)"

definition percpu_get_segment :: "msrs \<Rightarrow> u64" where
  "percpu_get_segment r = rdmsr IA32_GS_BASE r"

definition percpu_set_segment :: "u64 \<Rightarrow> msrs \<Rightarrow> msrs" where
  "percpu_set_segment segment r = wrmsr IA32_KERNEL_GS_BASE segment (wrmsr IA32_GS_BASE segment r)"

lemma halves: "push_bit 32 (ucast (ucast (drop_bit 32 v) :: 32 word)) OR ucast (ucast v :: 32 word) = (v :: u64)"
  by (rule bit_word_eqI) (auto simp: bit_simps)

lemma halves_masked: "push_bit 32 (ucast (ucast (drop_bit 32 v) :: 32 word)) OR ucast (ucast (v AND 0xFFFFFFFF) :: 32 word) = (v :: u64)"
proof -
  have "(ucast (v AND 0xFFFFFFFF) :: 32 word) = ucast (v AND mask 32)" by (simp add: mask_eq_exp_minus_1)
  also have "\<dots> = ucast v" by (rule bit_word_eqI) (auto simp: bit_simps)
  finally show ?thesis using halves[of v] by simp
qed

lemma rdmsr_eq [simp]: "rdmsr msr r = r msr"
  by (simp add: rdmsr_def rdmsr_insn_def halves)

lemma wrmsr_eq [simp]: "wrmsr msr v r = r(msr := v)"
  unfolding wrmsr_def wrmsr_insn_def Let_def halves_masked ..

lemma percpu_segment_roundtrip: "percpu_get_segment (percpu_set_segment seg r) = seg"
  by (simp add: percpu_get_segment_def percpu_set_segment_def msr_numbers)

end
