(* ===== verification/Syscall.thy ===== *)
theory Syscall
  imports Task_Api Msr
begin

section \<open>System calls (kernel/proc/syscall.c)\<close>

text \<open>
  The dispatcher, its table and every handler. A handler gives the value for \<^verbatim>\<open>rax\<close>, or \<open>None\<close> when another task
  runs at the end of the call (exit, and a join that waits). What a capability's own functions do is the record of
  parameters \<open>cap_calls\<close>, indexed by the function pointers in the object. User memory is read at the address given. Negative
  error codes are words in two's complement.
\<close>

subsection \<open>Checks on user addresses\<close>

definition USER_VA_END :: u64 where "USER_VA_END = 0x0000800000000000"

definition is_user_range_ok :: "u64 \<Rightarrow> usize \<Rightarrow> bool" where
  "is_user_range_ok addr len \<longleftrightarrow>
     (if len = 0 then True
      else if addr + len < addr then False
      else if addr + len > USER_VA_END then False
      else True)"

definition is_user_ptr_ok :: "u64 \<Rightarrow> usize \<Rightarrow> bool" where
  "is_user_ptr_ok p len \<longleftrightarrow> is_user_range_ok p len"

text \<open>The checks of \<^verbatim>\<open>sysc_spawn\<close> on the startup structure, in their order.\<close>

definition strings_ok :: "u64 \<Rightarrow> usize \<Rightarrow> memory \<Rightarrow> bool" where
  "strings_ok items count m \<longleftrightarrow>
     list_all (\<lambda>i. is_user_ptr_ok (str_data (str_item items i) m) (str_length (str_item items i) m)) [0..<unat count]"

definition startup_ok :: "u64 \<Rightarrow> memory \<Rightarrow> bool" where
  "startup_ok info m \<longleftrightarrow>
     is_user_ptr_ok info SIZEOF_STARTUP_INFO \<and>
     is_user_ptr_ok (si_args_items info m) (si_args_count info m * SIZEOF_STR) \<and>
     is_user_ptr_ok (si_envvars_items info m) (si_envvars_count info m * SIZEOF_STR) \<and>
     strings_ok (si_args_items info m) (si_args_count info m) m \<and>
     strings_ok (si_envvars_items info m) (si_envvars_count info m) m"

subsection \<open>Handlers\<close>

record syscall_frame =
  rax :: u64
  rdi :: u64
  rsi :: u64
  rdx :: u64
  r10 :: u64
  r8 :: u64
  r9 :: u64
  rcx :: u64
  r11 :: u64
  rbx :: u64
  rbp :: u64
  r12 :: u64
  r13 :: u64
  r14 :: u64
  r15 :: u64
  rsp :: u64

definition EINVAL :: u64 where "EINVAL = 1"
definition ENOSUP :: u64 where "ENOSUP = 3"
definition EFAULT :: u64 where "EFAULT = 4"

definition CAP_RIGHT_READ :: u32 where "CAP_RIGHT_READ = 1"
definition CAP_RIGHT_INVOKE :: u32 where "CAP_RIGHT_INVOKE = 4"
definition CAP_RIGHT_MAP :: u32 where "CAP_RIGHT_MAP = 8"
definition CAP_RIGHT_CTL :: u32 where "CAP_RIGHT_CTL = 16"

record 's cap_calls =
  call_read :: "nat \<Rightarrow> nat \<Rightarrow> span \<Rightarrow> 's \<Rightarrow> (u64 \<times> 's) outcome"
  call_write :: "nat \<Rightarrow> nat \<Rightarrow> const_span \<Rightarrow> 's \<Rightarrow> (u64 \<times> 's) outcome"
  call_invoke :: "nat \<Rightarrow> nat \<Rightarrow> const_span \<Rightarrow> span \<Rightarrow> 's \<Rightarrow> (u64 \<times> 's) outcome"
  call_map :: "nat \<Rightarrow> nat \<Rightarrow> u64 \<Rightarrow> usize \<Rightarrow> u8 \<Rightarrow> u64 \<Rightarrow> 's \<Rightarrow> (u64 \<times> 's) outcome"
  call_ctl :: "nat \<Rightarrow> nat \<Rightarrow> u64 \<Rightarrow> u64 \<Rightarrow> 's \<Rightarrow> (u64 \<times> 's) outcome"

type_synonym 's sysresult = "(u64 option \<times> 's) outcome"

definition returning :: "('s \<Rightarrow> (u64 \<times> 's) outcome) \<Rightarrow> 's \<Rightarrow> 's sysresult" where
  "returning f s = rbind (f s) (\<lambda>(v, s). Inr (Some v, s))"

definition sysc_exit :: "syscall_frame \<Rightarrow> 'a ksys_scheme \<Rightarrow> ('a ksys_scheme) sysresult" where
  "sysc_exit frame s = rbind (task_exit (ucast (rdi frame)) s) (\<lambda>s. Inr (None, s))"

definition sysc_spawn :: "code_syms \<Rightarrow> ('a ksys_ext) release_fn \<Rightarrow> syscall_frame \<Rightarrow> 'a ksys_scheme \<Rightarrow> ('a ksys_scheme) sysresult" where
  "sysc_spawn syms rel frame s =
     (let data = rdi frame; len = rsi frame; info = rdx frame in
      if \<not> is_user_ptr_ok data len then Inr (Some (- EFAULT), s)
      else if info \<noteq> 0 \<and> \<not> startup_ok info (mem (km s)) then Inr (Some (- EFAULT), s)
      else
        rbind (make_const_span data len) (\<lambda>binary.
        rbind (spawn_user_task syms rel binary info s) (\<lambda>(tid, s). Inr (Some (ucast tid), s))))"

definition sysc_join :: "syscall_frame \<Rightarrow> 'a ksys_scheme \<Rightarrow> ('a ksys_scheme) sysresult" where
  "sysc_join frame s =
     rbind (task_join (ucast (rdi frame)) s) (\<lambda>(returned, s). Inr (if returned then Some 0 else None, s))"

definition sysc_mmap :: "syscall_frame \<Rightarrow> 'a ksys_scheme \<Rightarrow> ('a ksys_scheme) sysresult" where
  "sysc_mmap frame s =
     rbind (mp_get_percpu_data s) (\<lambda>(i, cpu).
     let cur = sc_current (pc_scheduler cpu); addr = rdi frame; length = rsi frame; flags = (ucast (rdx frame) :: u8) in
     if length = 0 then Inr (Some (- EINVAL), s)
     else if addr \<noteq> 0 \<and> \<not> is_user_range_ok addr length then Inr (Some (- EFAULT), s)
     else returning (task_mmap cur addr length (ucast flags)) s)"

definition sysc_munmap :: "nat list \<Rightarrow> syscall_frame \<Rightarrow> 'a ksys_scheme \<Rightarrow> ('a ksys_scheme) sysresult" where
  "sysc_munmap responders frame s =
     rbind (mp_get_percpu_data s) (\<lambda>(i, cpu).
     let cur = sc_current (pc_scheduler cpu); addr = rdi frame; length = rsi frame in
     if length = 0 then Inr (Some (- EINVAL), s)
     else if \<not> is_user_range_ok addr length then Inr (Some (- EFAULT), s)
     else rbind (task_munmap responders cur addr length s) (\<lambda>s. Inr (Some 0, s)))"

text \<open>The lookup the five capability calls share: the object found in the table of the current task, with a reference taken.\<close>

definition current_cap :: "u32 \<Rightarrow> u32 \<Rightarrow> 'a ksys_scheme \<Rightarrow> (ref \<times> 'a ksys_scheme) outcome" where
  "current_cap cap right s =
     rbind (mp_get_percpu_data s) (\<lambda>(i, cpu).
     rbind (the_task (sc_current (pc_scheduler cpu))) (\<lambda>t.
     rbind (cap_table_get cap right (capabilities (tasks s t)) s) (\<lambda>(obj, tab, s).
     Inr (obj, upd_task t (\<lambda>k. k\<lparr>capabilities := tab\<rparr>) s))))"

text \<open>And what follows it: no object, no such operation, or the call.\<close>

definition cap_dispatch :: "u32 \<Rightarrow> u32 \<Rightarrow> (cap_ops \<Rightarrow> nat option) \<Rightarrow> (nat \<Rightarrow> nat \<Rightarrow> 'a ksys_scheme \<Rightarrow> (u64 \<times> 'a ksys_scheme) outcome) \<Rightarrow>
    'a ksys_scheme \<Rightarrow> ('a ksys_scheme) sysresult" where
  "cap_dispatch cap right op call s =
     rbind (current_cap cap right s) (\<lambda>(obj, s).
     case obj of
       None \<Rightarrow> Inr (Some (- EINVAL), s)
     | Some o' \<Rightarrow>
         (case op (co_ops (cap_objs s o')) of
            None \<Rightarrow> Inr (Some (- ENOSUP), s)
          | Some f \<Rightarrow> returning (call f o') s))"

definition sysc_capread :: "('a ksys_scheme) cap_calls \<Rightarrow> syscall_frame \<Rightarrow> 'a ksys_scheme \<Rightarrow> ('a ksys_scheme) sysresult" where
  "sysc_capread calls frame s =
     (let cap = ucast (rdi frame); data = rsi frame; len = rdx frame in
      if \<not> is_user_ptr_ok data len then Inr (Some (- EFAULT), s)
      else rbind (make_span data len) (\<lambda>msg.
        cap_dispatch cap CAP_RIGHT_READ op_read (\<lambda>f o'. call_read calls f o' msg) s))"

definition sysc_capwrite :: "('a ksys_scheme) cap_calls \<Rightarrow> syscall_frame \<Rightarrow> 'a ksys_scheme \<Rightarrow> ('a ksys_scheme) sysresult" where
  "sysc_capwrite calls frame s =
     (let cap = ucast (rdi frame); data = rsi frame; len = rdx frame in
      if \<not> is_user_ptr_ok data len then Inr (Some (- EFAULT), s)
      else rbind (make_const_span data len) (\<lambda>msg.
        cap_dispatch cap CAP_RIGHT_WRITE op_write (\<lambda>f o'. call_write calls f o' msg) s))"

definition sysc_capinvoke :: "('a ksys_scheme) cap_calls \<Rightarrow> syscall_frame \<Rightarrow> 'a ksys_scheme \<Rightarrow> ('a ksys_scheme) sysresult" where
  "sysc_capinvoke calls frame s =
     (let cap = ucast (rdi frame); req_data = rsi frame; req_len = rdx frame; resp_data = r10 frame; resp_len = r8 frame in
      if \<not> is_user_ptr_ok req_data req_len then Inr (Some (- EFAULT), s)
      else if \<not> is_user_ptr_ok resp_data resp_len then Inr (Some (- EFAULT), s)
      else rbind (make_const_span req_data req_len) (\<lambda>req.
        rbind (make_span resp_data resp_len) (\<lambda>resp.
        cap_dispatch cap CAP_RIGHT_INVOKE op_invoke (\<lambda>f o'. call_invoke calls f o' req resp) s)))"

definition sysc_capmap :: "('a ksys_scheme) cap_calls \<Rightarrow> syscall_frame \<Rightarrow> 'a ksys_scheme \<Rightarrow> ('a ksys_scheme) sysresult" where
  "sysc_capmap calls frame s =
     (let cap = ucast (rdi frame); addr = rsi frame; size = rdx frame; flags = ucast (r10 frame); mapped_addr = r8 frame in
      if size = 0 then Inr (Some (- EINVAL), s)
      else if addr \<noteq> 0 \<and> \<not> is_user_range_ok addr size then Inr (Some (- EFAULT), s)
      else if mapped_addr \<noteq> 0 \<and> \<not> is_user_ptr_ok mapped_addr 8 then Inr (Some (- EFAULT), s)
      else cap_dispatch cap CAP_RIGHT_MAP op_map (\<lambda>f o'. call_map calls f o' addr size flags mapped_addr) s)"

definition sysc_capctl :: "('a ksys_scheme) cap_calls \<Rightarrow> syscall_frame \<Rightarrow> 'a ksys_scheme \<Rightarrow> ('a ksys_scheme) sysresult" where
  "sysc_capctl calls frame s =
     (let cap = ucast (rdi frame); cmd = rsi frame; arg = rdx frame in
      cap_dispatch cap CAP_RIGHT_CTL op_ctl (\<lambda>f o'. call_ctl calls f o' cmd arg) s)"

definition sysc_caprelease :: "('a ksys_ext) release_fn \<Rightarrow> syscall_frame \<Rightarrow> 'a ksys_scheme \<Rightarrow> ('a ksys_scheme) sysresult" where
  "sysc_caprelease rel frame s =
     rbind (mp_get_percpu_data s) (\<lambda>(i, cpu).
     rbind (the_task (sc_current (pc_scheduler cpu))) (\<lambda>t.
     rbind (cap_table_del rel (ucast (rdi frame)) (capabilities (tasks s t)) s) (\<lambda>(tab, s).
     Inr (Some 0, upd_task t (\<lambda>k. k\<lparr>capabilities := tab\<rparr>) s))))"

subsection \<open>The table and the dispatcher\<close>

text \<open>What the kernel takes from outside: symbols, release functions, capability functions, and the CPUs that answer a shootdown.\<close>

record 's sys_env =
  env_syms :: code_syms
  env_release :: "nat \<Rightarrow> nat \<Rightarrow> 's \<Rightarrow> 's outcome"
  env_calls :: "'s cap_calls"
  env_responders :: "nat list"

definition SYSC__COUNT :: u64 where "SYSC__COUNT = 12"

text \<open>Entry 11, \<^verbatim>\<open>SYSC_PUTS\<close>, is not initialised and so is NULL.\<close>

definition syscall_table :: "('a ksys_scheme) sys_env \<Rightarrow> (syscall_frame \<Rightarrow> 'a ksys_scheme \<Rightarrow> ('a ksys_scheme) sysresult) option list" where
  "syscall_table env =
     [Some sysc_exit, Some (sysc_spawn (env_syms env) (env_release env)), Some sysc_join,
      Some sysc_mmap, Some (sysc_munmap (env_responders env)),
      Some (sysc_capread (env_calls env)), Some (sysc_capwrite (env_calls env)), Some (sysc_capinvoke (env_calls env)),
      Some (sysc_capmap (env_calls env)), Some (sysc_capctl (env_calls env)), Some (sysc_caprelease (env_release env)),
      None]"

definition syscall_handler :: "('a ksys_scheme) sys_env \<Rightarrow> syscall_frame \<Rightarrow> 'a ksys_scheme \<Rightarrow> (syscall_frame \<times> 'a ksys_scheme) outcome" where
  "syscall_handler env frame s =
     (let nr = rax frame in
      if nr \<ge> SYSC__COUNT then Inr (frame\<lparr>rax := - 1\<rparr>, s)
      else (case syscall_table env ! unat nr of
          None \<Rightarrow> Inr (frame\<lparr>rax := - 1\<rparr>, s)
        | Some f \<Rightarrow> rbind (f frame s) (\<lambda>(v, s). Inr (case v of Some r \<Rightarrow> frame\<lparr>rax := r\<rparr> | None \<Rightarrow> frame, s))))"

subsection \<open>Setting up the instruction\<close>

definition GDT_SEGMENT :: "u64 \<Rightarrow> u64" where "GDT_SEGMENT idx = push_bit 3 idx"
definition GDT_SEG_IDX_KCODE :: u64 where "GDT_SEG_IDX_KCODE = 5"
definition GDT_SEG_IDX_KDATA :: u64 where "GDT_SEG_IDX_KDATA = 6"
definition GDT_SEG_IDX_UDATA :: u64 where "GDT_SEG_IDX_UDATA = 7"
definition GDT_SEG_IDX_UCODE :: u64 where "GDT_SEG_IDX_UCODE = 8"

definition syscall_load :: "u64 \<Rightarrow> msrs \<Rightarrow> msrs" where
  "syscall_load syscall_entry_stub r =
     (let efer = rdmsr IA32_EFER r;
          efer = efer OR IA32_EFER_SCE;
          r = wrmsr IA32_EFER efer r;
          star = push_bit 48 (GDT_SEGMENT GDT_SEG_IDX_KDATA) OR push_bit 32 (GDT_SEGMENT GDT_SEG_IDX_KCODE);
          r = wrmsr IA32_STAR star r;
          r = wrmsr IA32_LSTAR syscall_entry_stub r in
      wrmsr IA32_FMASK (push_bit 9 1 OR push_bit 10 1) r)"

end
