(* ===== verification/Syscall_Props.thy ===== *)
theory Syscall_Props
  imports Syscall Mmap_Props
begin

section \<open>Properties of the system calls\<close>

subsection \<open>User addresses\<close>

text \<open>
  C18: The range check accepts exactly the empty ranges and the ranges that end at or below the canonical lower half of the address
  space, taken as integers: no wrap-around of the sum can hide a range that reaches the kernel.
\<close>

theorem is_user_range_ok_exact:
  "is_user_range_ok addr len \<longleftrightarrow> len = 0 \<or> unat addr + unat len \<le> 2 ^ 47"
proof -
  let ?n = "unat addr + unat len"
  have b: "?n < 2 * 18446744073709551616" using unat_lt_u64[of addr] unat_lt_u64[of len] by linarith
  have n: "unat (addr + len) = ?n mod 18446744073709551616" by (simp add: unat_word_ariths)
  have n': "unat (addr + len) = (if ?n < 18446744073709551616 then ?n else ?n - 18446744073709551616)"
    unfolding n using b by (simp add: mod_if[of "?n"])
  have l: "0 < unat len" if "len \<noteq> 0" using that by (simp add: unat_gt_0)
  show ?thesis
  proof (cases "?n < 18446744073709551616")
    case True
    then show ?thesis using n' by (auto simp: is_user_range_ok_def USER_VA_END_def word_less_nat_alt)
  next
    case False
    then have "unat (addr + len) < unat addr" using n' unat_lt_u64[of len] by simp
    then show ?thesis using False by (auto simp: is_user_range_ok_def word_less_nat_alt)
  qed
qed

subsection \<open>Dispatch\<close>

lemma syscall_table_nth:
  "n < 12 \<Longrightarrow> syscall_table env ! n = None \<longleftrightarrow> n = 11"
  by (auto simp: syscall_table_def less_Suc_eq numeral_eq_Suc)

text \<open>
  A system call number without a handler (12 and above, and the unused entry 11) is answered with -1: no other register of the
  frame changes and the kernel state stays as it is. Every other number reaches a handler.
\<close>

theorem syscall_unknown_number:
  "(syscall_table env ! unat (rax frame) = None \<or> rax frame \<ge> SYSC__COUNT) = (rax frame \<ge> 11) \<and>
   (if rax frame \<ge> 11 then syscall_handler env frame s = Inr (frame\<lparr>rax := - 1\<rparr>, s)
    else \<exists>f. syscall_table env ! unat (rax frame) = Some f \<and>
      syscall_handler env frame s = rbind (f frame s) (\<lambda>(v, s). Inr (case v of Some r \<Rightarrow> frame\<lparr>rax := r\<rparr> | None \<Rightarrow> frame, s)))"
proof (cases "rax frame \<ge> 12")
  case True
  then have "rax frame \<ge> 11" by (simp add: word_le_nat_alt)
  then show ?thesis using True by (simp add: syscall_handler_def SYSC__COUNT_def)
next
  case False
  then have n: "unat (rax frame) < 12" by (simp add: word_less_nat_alt word_le_nat_alt)
  have "rax frame \<ge> 11 \<longleftrightarrow> unat (rax frame) = 11" using n by (auto simp: word_le_nat_alt)
  then show ?thesis using syscall_table_nth[OF n, of env] False
    by (auto simp: syscall_handler_def SYSC__COUNT_def split: option.splits)
qed

subsection \<open>Capabilities\<close>

lemma upd_task_same: "capabilities (tasks s t) = ct \<Longrightarrow> upd_task t (\<lambda>k. k\<lparr>capabilities := ct\<rparr>) s = s"
proof -
  assume "capabilities (tasks s t) = ct"
  then have "(tasks s)(t := (tasks s t)\<lparr>capabilities := ct\<rparr>) = tasks s" by (auto simp: fun_eq_iff)
  then show ?thesis by (simp add: upd_task_def)
qed

text \<open>What the five capability calls do after their own checks, in terms of the map the table stands for.\<close>

lemma cap_dispatch_eq:
  assumes "this_cpu (km s) < length (cpus s)" "sc_current (sched (this_cpu (km s)) s) = Some t" "cap_inv (capabilities (tasks s t))"
  shows "cap_dispatch cap right op call s =
    (case caps_of (capabilities (tasks s t)) cap of
       None \<Rightarrow> Inr (Some (- EINVAL), s)
     | Some (o', r, f) \<Rightarrow>
         if r AND right = right
         then (case op (co_ops (cap_objs s o')) of
             None \<Rightarrow> Inr (Some (- ENOSUP), incref o' s)
           | Some g \<Rightarrow> returning (call g o') (incref o' s))
         else Inr (Some (- EINVAL), s))"
proof -
  have same: "upd_task t (\<lambda>k. k\<lparr>capabilities := capabilities (tasks s t)\<rparr>) (incref o' s) = incref o' s" for o'
    by (rule upd_task_same) (simp add: incref_def upd_obj_def)
  have cur: "current_cap cap right s = (case caps_of (capabilities (tasks s t)) cap of
      None \<Rightarrow> Inr (None, s) | Some (o', r, f) \<Rightarrow> if r AND right = right then Inr (Some o', incref o' s) else Inr (None, s))"
    using assms same
    by (auto simp: current_cap_def mp_get_percpu_data_def cap_table_get_eq upd_task_same incref_def[symmetric] split: option.splits)
  have ops: "co_ops (cap_objs (incref o' s) o') = co_ops (cap_objs s o')" for o' by (simp add: incref_def upd_obj_def)
  show ?thesis unfolding cap_dispatch_def cur by (auto simp: ops split: option.splits)
qed

text \<open>
  C20: A write through a capability reaches the write function of an object only when the capability table of the calling
  task maps the id to this object with the right to write. An id that is not in the table, or lacks the right, gives the same error and changes
  nothing; an object without a write function gives the error for unsupported operations. The reference the lookup took on the object is
  still held when the function is called and is not given back afterwards.
\<close>

theorem sysc_capwrite_needs_right:
  assumes "this_cpu (km s) < length (cpus s)" "sc_current (sched (this_cpu (km s)) s) = Some t" "cap_inv (capabilities (tasks s t))"
    and "rsi frame \<noteq> 0" "rdx frame \<noteq> 0" "is_user_range_ok (rsi frame) (rdx frame)"
  shows "sysc_capwrite calls frame s =
    (case caps_of (capabilities (tasks s t)) (ucast (rdi frame)) of
       None \<Rightarrow> Inr (Some (- EINVAL), s)
     | Some (o', r, f) \<Rightarrow>
         if r AND CAP_RIGHT_WRITE = CAP_RIGHT_WRITE
         then (case op_write (co_ops (cap_objs s o')) of
             None \<Rightarrow> Inr (Some (- ENOSUP), incref o' s)
           | Some g \<Rightarrow> returning (call_write calls g o' \<lparr>cspan_data = rsi frame, cspan_size = rdx frame\<rparr>) (incref o' s))
         else Inr (Some (- EINVAL), s))"
  using assms(4-6) cap_dispatch_eq[OF assms(1-3)] word_gt_0[of "rdx frame"]
  by (simp add: sysc_capwrite_def Let_def is_user_ptr_ok_def make_const_span_def)

definition calls_demo :: "ksys cap_calls" where
  "calls_demo = \<lparr>call_read = (\<lambda>_ _ _. undefined), call_write = (\<lambda>f o' msg s. Inr (cspan_size msg, s)),
     call_invoke = (\<lambda>_ _ _ _. undefined), call_map = (\<lambda>_ _ _ _ _ _. undefined), call_ctl = (\<lambda>_ _ _ _. undefined)\<rparr>"

definition frame_demo :: syscall_frame where
  "frame_demo = \<lparr>rax = 6, rdi = 0x10000, rsi = 0x400000, rdx = 5, r10 = 0, r8 = 0, r9 = 0, rcx = 0, r11 = 0, rbx = 0, rbp = 0,
     r12 = 0, r13 = 0, r14 = 0, r15 = 0, rsp = 0\<rparr>"

definition env_demo :: "ksys sys_env" where
  "env_demo = \<lparr>env_syms = syms_demo, env_release = \<lambda>_ _ s. Inr s, env_calls = calls_demo, env_responders = []\<rparr>"

text \<open>The current task has no capability but is refused politely.\<close>

theorem sysc_capwrite_needs_right_witness:
  "sysc_capwrite calls_demo frame_demo ksys_demo = Inr (Some (- EINVAL), ksys_demo)"
proof -
  have t: "capabilities (tasks ksys_demo 0) = \<lparr>slots = Some [empty_slot], capacity = 1, next_unused = 0, free_head = CAP_INVALID_INDEX, ct_lock = unlocked\<rparr>"
    by (simp add: ksys_demo_def task_demo_def)
  have "slots_ok [empty_slot] 0 CAP_INVALID_INDEX []" by (auto simp: slots_ok_def)
  then have inv: "cap_inv (capabilities (tasks ksys_demo 0))" by (auto simp: cap_inv_def t)
  have none: "caps_of (capabilities (tasks ksys_demo 0)) (ucast (rdi frame_demo)) = None" by (simp add: t caps_of_def slot_cap_def)
  have "this_cpu (km ksys_demo) < length (cpus ksys_demo)" "sc_current (sched (this_cpu (km ksys_demo)) ksys_demo) = Some 0"
    by (simp_all add: ksys_demo_def percpu_demo_def vm_demo_def)
  from sysc_capwrite_needs_right[OF this inv, of frame_demo calls_demo] none show ?thesis
    by (simp add: frame_demo_def is_user_range_ok_def USER_VA_END_def)
qed

subsection \<open>Memory\<close>

text \<open>
  C19: The mmap call never hands out kernel memory. Through the dispatcher, with any arguments, a call that returns gives an error code, 0, or an
  address such that the whole requested length lies below the range reserved for startup data and the stack; and the mappings of the calling task stay
  disjoint.
\<close>

theorem sysc_mmap_user_only:
  assumes "this_cpu (km s) < length (cpus s)" "sc_current (sched (this_cpu (km s)) s) = Some t" "task_maps t s ms" "malloc_ok s"
    and "rax frame = 3" "syscall_handler env frame s = Inr (frame', s')"
  shows "(rax frame' \<in> {0, - EINVAL, - EFAULT} \<or> 0 < unat (rsi frame) \<and> unat (rax frame') + unat (rsi frame) \<le> unat USER_STARTUP_BASE) \<and>
    (\<exists>ms'. task_maps t s' ms')"
proof -
  have h: "syscall_handler env frame s = rbind (sysc_mmap frame s) (\<lambda>(v, s). Inr (case v of Some r \<Rightarrow> frame\<lparr>rax := r\<rparr> | None \<Rightarrow> frame, s))"
    using assms(5) by (simp add: syscall_handler_def SYSC__COUNT_def syscall_table_def)
  obtain v where v: "sysc_mmap frame s = Inr (v, s')" "frame' = (case v of Some r \<Rightarrow> frame\<lparr>rax := r\<rparr> | None \<Rightarrow> frame)"
    using assms(6) unfolding h by (cases "sysc_mmap frame s") auto
  have "v = Some (- EINVAL) \<and> s' = s \<or> v = Some (- EFAULT) \<and> s' = s \<or>
      (\<exists>a. v = Some a \<and> task_mmap (Some t) (rdi frame) (rsi frame) (ucast (ucast (rdx frame) :: u8)) s = Inr (a, s'))"
    using v(1) assms(1,2) by (auto simp: sysc_mmap_def mp_get_percpu_data_def Let_def returning_def outcome_simps split: if_splits)
  then consider "v = Some (- EINVAL)" "s' = s" | "v = Some (- EFAULT)" "s' = s" | a where "v = Some a"
      "task_mmap (Some t) (rdi frame) (rsi frame) (ucast (ucast (rdx frame) :: u8)) s = Inr (a, s')" by blast
  then show ?thesis
  proof cases
    case (3 a)
    show ?thesis
    proof (cases "a = 0")
      case True
      then show ?thesis using task_mmap_cases[OF assms(3,4) 3(2)] v(2) 3(1) by auto
    next
      case False
      obtain m where m: "task_maps t s' (m # ms)" "tm_vaddr (maps s' m) = a" "0 < unat (rsi frame)"
        "unat (rsi frame) \<le> unat (tm_page_count (maps s' m)) * 4096"
        using task_mmap_cases[OF assms(3,4) 3(2)] False by auto
      then have "unat a + unat (tm_page_count (maps s' m)) * 4096 \<le> unat USER_STARTUP_BASE" by (auto simp: task_maps_def map_ok_def)
      then have "unat a + unat (rsi frame) \<le> unat USER_STARTUP_BASE" using m(4) by linarith
      then show ?thesis using m v(2) 3(1) by auto
    qed
  qed (use v(2) assms(3) in auto)
qed

text \<open>A page and a bit at a fixed address.\<close>

theorem sysc_mmap_user_only_witness:
  "\<exists>s'. syscall_handler env_demo (frame_demo\<lparr>rax := 3, rdi := 0x500000, rsi := 5000, rdx := 8\<rparr>) ksys_demo =
      Inr (frame_demo\<lparr>rax := 0x500000, rdi := 0x500000, rsi := 5000, rdx := 8\<rparr>, s') \<and> (\<exists>ms. task_maps 0 s' ms)"
proof -
  let ?f = "frame_demo\<lparr>rax := 3, rdi := 0x500000, rsi := 5000, rdx := 8\<rparr>"
  obtain s' where s': "task_mmap (Some 0) 0x500000 5000 8 ksys_demo = Inr (0x500000, s')" using mmap_demo_returns by (auto simp: mmap_demo_def)
  have cur: "this_cpu (km ksys_demo) < length (cpus ksys_demo)" "sc_current (sched (this_cpu (km ksys_demo)) ksys_demo) = Some 0"
    by (simp_all add: ksys_demo_def percpu_demo_def vm_demo_def)
  then have "sysc_mmap ?f ksys_demo = Inr (Some 0x500000, s')"
    using s' by (simp add: sysc_mmap_def mp_get_percpu_data_def returning_def is_user_range_ok_def USER_VA_END_def)
  then have h: "syscall_handler env_demo ?f ksys_demo = Inr (frame_demo\<lparr>rax := 0x500000, rdi := 0x500000, rsi := 5000, rdx := 8\<rparr>, s')"
    by (simp add: syscall_handler_def SYSC__COUNT_def syscall_table_def frame_demo_def)
  from sysc_mmap_user_only[OF cur ksys_demo_maps _ h] h show ?thesis by simp
qed

subsection \<open>Setting up the instruction\<close>

text \<open>
  After \<^verbatim>\<open>syscall_load\<close> the processor enters at the stub with the kernel's selectors and returns with the user's: the
  instruction loads CS and SS from STAR[47:32] and that plus 8, its return loads SS and CS from STAR[63:48] plus 8 and plus 16, and these are
  the entries of the GDT for kernel code, kernel data, user data and user code. System calls are enabled, the other bits of EFER
  stay, and interrupts and the direction flag are masked on entry.
\<close>

theorem syscall_load_selectors:
  "let r = syscall_load stub r0; star = rdmsr IA32_STAR r; kernel = ucast (drop_bit 32 star) :: 16 word; user = ucast (drop_bit 48 star) :: 16 word in
   kernel = ucast (GDT_SEGMENT GDT_SEG_IDX_KCODE) \<and> kernel + 8 = ucast (GDT_SEGMENT GDT_SEG_IDX_KDATA) \<and>
   user + 8 = ucast (GDT_SEGMENT GDT_SEG_IDX_UDATA) \<and> user + 16 = ucast (GDT_SEGMENT GDT_SEG_IDX_UCODE) \<and>
   rdmsr IA32_LSTAR r = stub \<and> rdmsr IA32_EFER r = rdmsr IA32_EFER r0 OR 1 \<and>
   bit (rdmsr IA32_FMASK r) 9 \<and> bit (rdmsr IA32_FMASK r) 10"
  by (simp add: syscall_load_def Let_def msr_numbers GDT_SEGMENT_def GDT_SEG_IDX_KCODE_def GDT_SEG_IDX_KDATA_def GDT_SEG_IDX_UDATA_def
      GDT_SEG_IDX_UCODE_def IA32_EFER_SCE_def)

end
