(* ===== verification/Heap.thy ===== *)
theory Heap
  imports Vmm Alloc
begin

section \<open>The kernel heap (kernel/mem/heap.c)\<close>

text \<open>
  Two layers. Below, the functions the third-party \<^verbatim>\<open>liballoc\<close> calls to get and return pages: a bitmap over the pages of the heap's
  virtual range, each used page backed by a physical page. Above, the allocator the kernel uses: it puts a header in front of
  each chunk it gets from \<^verbatim>\<open>malloc\<close>, so that a pointer aligned as requested leads back to the chunk. \<^verbatim>\<open>malloc\<close>, \<^verbatim>\<open>realloc\<close> and
  \<^verbatim>\<open>free\<close> themselves are the record of parameters \<open>liballoc\<close>.

  The static variables are the record \<open>heap\<close>. A write to a page of the heap's range goes to the physical page it is
  mapped to, which the machine's memory has at its direct-map address.
\<close>

record heap =
  heap_lock :: spinlock
  heap_start :: u64
  heap_end :: u64
  heap_map :: bitmap

definition heap_page_count :: "heap \<Rightarrow> usize" where
  "heap_page_count h = (heap_end h - heap_start h) div 4096"

definition heap_init :: "heap \<Rightarrow> heap" where
  "heap_init h = h\<lparr>heap_lock := spinlock_init (heap_lock h)\<rparr>"

definition heap_load :: "u64 \<Rightarrow> heap \<Rightarrow> 'a vmachine_scheme \<Rightarrow> (heap \<times> 'a vmachine_scheme) outcome" where
  "heap_load kernel_region_end h s =
     (case hhdm_resp s of
        None \<Rightarrow> Inl AssertFail
      | Some off \<Rightarrow>
          let phys_mem_size = pmm_get_top s in
          rbind (align_ptr_up (off + phys_mem_size) MM_PAGE_2MB) (\<lambda>a.
          let h = h\<lparr>heap_start := a\<rparr> in
          rbind (align_ptr_up (heap_start h + phys_mem_size) MM_PAGE_2MB) (\<lambda>b.
          let h = h\<lparr>heap_end := b\<rparr> in
          check (heap_end h < kernel_region_end) (
          rbind (align_size_up (heap_page_count h div 8) MM_PHYS_PAGE_SIZE) (\<lambda>bitmap_bytes.
          let bitmap_pages = bitmap_bytes div MM_PHYS_PAGE_SIZE in
          rbind (pmm_alloc bitmap_pages s) (\<lambda>(bitmap_buf_paddr, s).
          rbind (hhdm_p2v bitmap_buf_paddr s) (\<lambda>bitmap_buf_vaddr.
          rbind (make_span bitmap_buf_vaddr bitmap_bytes) (\<lambda>buf.
          rbind (bitmap_init (heap_map h) buf (mem s)) (\<lambda>(bm, m).
          let h = h\<lparr>heap_map := bm\<rparr> in
          rbind (bitmap_set (heap_map h) 0 m) (\<lambda>m.
          rbind (bitmap_set (heap_map h) (heap_page_count h - 1) m) (\<lambda>m.
          Inr (h, s\<lparr>mem := m\<rparr>))))))))))))"

subsection \<open>Pages for liballoc\<close>

text \<open>
  The search of \<^verbatim>\<open>liballoc_alloc\<close>. \<open>heap_run\<close> is the inner loop: \<open>None\<close> when \<open>left\<close> more pages are free, and the offset of the first
  page that is not otherwise. The outer loop continues behind that page.
\<close>

fun heap_run :: "heap \<Rightarrow> nat \<Rightarrow> nat \<Rightarrow> nat \<Rightarrow> memory \<Rightarrow> nat option outcome" where
  "heap_run h range_start page_offset 0 m = Inr None"
| "heap_run h range_start page_offset (Suc left) m =
     (let page_bit_index = range_start + page_offset in
      rbind (if page_bit_index \<ge> unat (heap_page_count h) then Inr True else bitmap_isset (heap_map h) (of_nat page_bit_index) m) (\<lambda>taken.
      if taken then Inr (Some page_offset)
      else heap_run h range_start (Suc page_offset) left m))"

function heap_search :: "heap \<Rightarrow> nat \<Rightarrow> nat \<Rightarrow> memory \<Rightarrow> nat option outcome" where
  "heap_search h requested range_start m =
     (if range_start < unat (heap_page_count h)
      then rbind (heap_run h range_start 0 requested m) (\<lambda>r.
        case r of
          None \<Rightarrow> Inr (Some range_start)
        | Some page_offset \<Rightarrow> heap_search h requested (range_start + page_offset + 1) m)
      else Inr None)"
  by auto

termination heap_search
  by (relation "measure (\<lambda>(h, _, range_start, _). unat (heap_page_count h) - range_start)") auto

declare heap_search.simps [simp del]

text \<open>Writing zeros through the mapping of a page.\<close>

definition zero_page :: "u64 \<Rightarrow> 'a vmachine_scheme \<Rightarrow> ('a vmachine_scheme) outcome" where
  "zero_page va s =
     rbind (vmm_translate vmm_get_kernel_page_map va s) (\<lambda>(pa, s).
     rbind (hhdm_p2v pa s) (\<lambda>p.
     rbind (memset p 0 4096 (mem s)) (\<lambda>(_, m). Inr (s\<lparr>mem := m\<rparr>))))"

text \<open>The loop that backs the pages found; \<open>False\<close> when the physical memory ran out, with the number of pages done.\<close>

fun heap_map_pages :: "heap \<Rightarrow> nat \<Rightarrow> nat \<Rightarrow> nat \<Rightarrow> 'a vmachine_scheme \<Rightarrow> (bool \<times> nat \<times> 'a vmachine_scheme) outcome" where
  "heap_map_pages h range_start page_offset 0 s = Inr (True, page_offset, s)"
| "heap_map_pages h range_start page_offset (Suc left) s =
     (let block_start = heap_start h + of_nat range_start * 4096;
          va = block_start + of_nat page_offset * 4096 in
      rbind (pmm_alloc 1 s) (\<lambda>(pa, s).
      if pa = 0 then Inr (False, page_offset, s)
      else
        rbind (vmm_map vmm_get_kernel_page_map va pa (MM_PT_FLAG_WRITE OR MM_PT_FLAG_GLOBAL OR MM_PT_FLAG_NX) MM_PAGE_4KB s) (\<lambda>s.
        rbind (bitmap_set (heap_map h) (of_nat (range_start + page_offset)) (mem s)) (\<lambda>m.
        rbind (zero_page va (s\<lparr>mem := m\<rparr>)) (\<lambda>s.
        heap_map_pages h range_start (Suc page_offset) left s)))))"

text \<open>Giving back one page, in the rollback and in \<^verbatim>\<open>liballoc_free\<close>.\<close>

definition heap_drop_page :: "heap \<Rightarrow> u64 \<Rightarrow> u64 \<Rightarrow> nat \<Rightarrow> 'a vmachine_scheme \<Rightarrow> ('a vmachine_scheme) outcome" where
  "heap_drop_page h block_start range_base page_offset s =
     (let va = block_start + of_nat page_offset * 4096 in
      rbind (vmm_translate vmm_get_kernel_page_map va s) (\<lambda>(pa, s).
      rbind (vmm_unmap vmm_get_kernel_page_map va s) (\<lambda>s.
      rbind (pmm_free pa 1 s) (\<lambda>s.
      rbind (bitmap_clear (heap_map h) (range_base + of_nat page_offset) (mem s)) (\<lambda>m.
      Inr (s\<lparr>mem := m\<rparr>))))))"

definition liballoc_alloc :: "i32 \<Rightarrow> heap \<Rightarrow> 'a vmachine_scheme \<Rightarrow> (uptr \<times> 'a vmachine_scheme) outcome" where
  "liballoc_alloc page_count h s =
     (let requested_page_count = unat (scast page_count :: usize) in
      rbind (heap_search h requested_page_count 0 (mem s)) (\<lambda>r.
      case r of
        None \<Rightarrow> Inr (0, s)
      | Some range_start \<Rightarrow>
          let block_start = heap_start h + of_nat range_start * 4096 in
          rbind (heap_map_pages h range_start 0 requested_page_count s) (\<lambda>(success, page_offset, s).
          if success then Inr (block_start, s)
          else rbind (for_r (heap_drop_page h block_start (of_nat range_start)) (rev [0..<page_offset]) s) (\<lambda>s. Inr (0, s)))))"

definition liballoc_free :: "uptr \<Rightarrow> i32 \<Rightarrow> heap \<Rightarrow> 'a vmachine_scheme \<Rightarrow> (i32 \<times> 'a vmachine_scheme) outcome" where
  "liballoc_free ptr page_count h s =
     (if ptr = 0 \<or> sint page_count \<le> 0 then Inr (0, s)
      else if ptr < heap_start h \<or> ptr \<ge> heap_end h then Inr (- 1, s)
      else rbind (is_ptr_aligned ptr 4096) (\<lambda>aligned.
        if \<not> aligned then Inr (- 1, s)
        else
          let page_range_base = (ptr - heap_start h) div 4096; reclaimable_page_count = unat (scast page_count :: usize) in
          rbind (for_r (heap_drop_page h ptr page_range_base) [0..<reclaimable_page_count] s) (\<lambda>s. Inr (0, s))))"

definition liballoc_lock :: "heap \<Rightarrow> (i32 \<times> heap) outcome" where
  "liballoc_lock h = rbind (spinlock_acquire (heap_lock h)) (\<lambda>l. Inr (0, h\<lparr>heap_lock := l\<rparr>))"

definition liballoc_unlock :: "heap \<Rightarrow> i32 \<times> heap" where
  "liballoc_unlock h = (0, h\<lparr>heap_lock := spinlock_release (heap_lock h)\<rparr>)"

subsection \<open>Chunks with headers\<close>

text \<open>The functions of \<^verbatim>\<open>liballoc\<close>, over its own state and memory; 0 is NULL.\<close>

record 'l liballoc =
  la_malloc :: "usize \<Rightarrow> 'l \<times> memory \<Rightarrow> (uptr \<times> 'l \<times> memory) outcome"
  la_realloc :: "uptr \<Rightarrow> usize \<Rightarrow> 'l \<times> memory \<Rightarrow> (uptr \<times> 'l \<times> memory) outcome"
  la_free :: "uptr \<Rightarrow> 'l \<times> memory \<Rightarrow> ('l \<times> memory) outcome"

text \<open>The header \<^verbatim>\<open>heap_block_hdr\<close>: four 64-bit fields.\<close>

definition SIZEOF_HDR :: u64 where "SIZEOF_HDR = 32"
definition hdr_base :: "memory \<Rightarrow> uptr \<Rightarrow> u64" where "hdr_base m hdr = load64 m hdr"
definition hdr_size :: "memory \<Rightarrow> uptr \<Rightarrow> u64" where "hdr_size m hdr = load64 m (hdr + 8)"
definition hdr_align :: "memory \<Rightarrow> uptr \<Rightarrow> u64" where "hdr_align m hdr = load64 m (hdr + 16)"
definition hdr_offset :: "memory \<Rightarrow> uptr \<Rightarrow> u64" where "hdr_offset m hdr = load64 m (hdr + 24)"

definition hdr_write :: "uptr \<Rightarrow> u64 \<Rightarrow> u64 \<Rightarrow> u64 \<Rightarrow> u64 \<Rightarrow> memory \<Rightarrow> memory" where
  "hdr_write hdr base sz align offset m =
     store64 (hdr + 24) offset (store64 (hdr + 16) align (store64 (hdr + 8) sz (store64 hdr base m)))"

definition ALIGN_MAX :: u64 where "ALIGN_MAX = 16"

definition heap__hdr_for :: "heap \<Rightarrow> uptr \<Rightarrow> memory \<Rightarrow> uptr outcome" where
  "heap__hdr_for h p m =
     (let hdr = p - SIZEOF_HDR; base = hdr_base m hdr in
      if p = 0 then Inr 0
      else if p < heap_start h + SIZEOF_HDR then Inr 0
      else if p \<ge> heap_end h then Inr 0
      else if \<not> is_alignment_valid (hdr_align m hdr) then Inr 0
      else if hdr_align m hdr < ALIGN_MAX then Inr 0
      else if hdr_offset m hdr \<ge> hdr_align m hdr then Inr 0
      else if hdr_size m hdr < SIZEOF_HDR + hdr_align m hdr - 1 then Inr 0
      else if base < heap_start h then Inr 0
      else if base \<ge> heap_end h then Inr 0
      else if hdr_size m hdr > heap_end h - base then Inr 0
      else if base + SIZEOF_HDR + hdr_offset m hdr \<noteq> p then Inr 0
      else rbind (is_ptr_aligned p (hdr_align m hdr)) (\<lambda>aligned.
        if \<not> aligned then Inr 0
        else if hdr = 0 then Inl Panic
        else Inr hdr))"

definition heap_allocate_aligned :: "'l liballoc \<Rightarrow> usize \<Rightarrow> usize \<Rightarrow> 'l \<times> memory \<Rightarrow> (uptr \<times> 'l \<times> memory) outcome" where
  "heap_allocate_aligned la sz align st =
     (if sz = 0 then Inr (0, st)
      else if \<not> is_alignment_valid align then Inr (0, st)
      else
        let align = (if align < ALIGN_MAX then ALIGN_MAX else align);
            totalsz = sz + SIZEOF_HDR + (align - 1) in
        rbind (la_malloc la totalsz st) (\<lambda>(base, l, m).
        if base = 0 then Inr (0, l, m)
        else
          let raw = base + SIZEOF_HDR in
          rbind (align_ptr_up raw align) (\<lambda>p.
          let off = p - raw in
          Inr (p, l, hdr_write (p - SIZEOF_HDR) base totalsz align off m))))"

definition heap_allocate :: "'l liballoc \<Rightarrow> usize \<Rightarrow> 'l \<times> memory \<Rightarrow> (uptr \<times> 'l \<times> memory) outcome" where
  "heap_allocate la sz st = heap_allocate_aligned la sz ALIGN_MAX st"

text \<open>Reading a field of the header \<^verbatim>\<open>heap__hdr_for\<close> gave: NULL is followed without a check.\<close>

definition heap_reallocate :: "heap \<Rightarrow> 'l liballoc \<Rightarrow> uptr \<Rightarrow> usize \<Rightarrow> usize \<Rightarrow> 'l \<times> memory \<Rightarrow> (uptr \<times> 'l \<times> memory) outcome" where
  "heap_reallocate h la p oldsz newsz st =
     (if p = 0 then heap_allocate la newsz st
      else
        rbind (heap__hdr_for h p (snd st)) (\<lambda>old_hdr.
        if old_hdr = 0 then Inl NullDeref
        else if newsz = 0 then rbind (la_free la (hdr_base (snd st) old_hdr) st) (\<lambda>st. Inr (0, st))
        else
          let align = hdr_align (snd st) old_hdr;
              old_offset = hdr_offset (snd st) old_hdr;
              old_totalsz = hdr_size (snd st) old_hdr;
              old_payload = old_totalsz - SIZEOF_HDR - old_offset;
              copy = (if oldsz < newsz then oldsz else newsz);
              copy = (if copy > old_payload then old_payload else copy);
              new_totalsz = newsz + SIZEOF_HDR + (align - 1) in
          rbind (la_realloc la (hdr_base (snd st) old_hdr) new_totalsz st) (\<lambda>(new_base, l, m).
          if new_base = 0 then Inr (0, l, m)
          else
            let new_raw = new_base + SIZEOF_HDR in
            rbind (align_ptr_up new_raw align) (\<lambda>new_ptr.
            let new_off = new_ptr - new_raw;
                old_payload_in_new_block = new_base + SIZEOF_HDR + old_offset in
            rbind (if new_ptr \<noteq> old_payload_in_new_block then memmove new_ptr old_payload_in_new_block copy m else Inr (new_ptr, m)) (\<lambda>(_, m).
            Inr (new_ptr, l, hdr_write (new_ptr - SIZEOF_HDR) new_base new_totalsz align new_off m))))))"

definition heap_deallocate :: "heap \<Rightarrow> 'l liballoc \<Rightarrow> uptr \<Rightarrow> usize \<Rightarrow> 'l \<times> memory \<Rightarrow> ('l \<times> memory) outcome" where
  "heap_deallocate h la p sz st =
     (if p = 0 then Inr st
      else
        rbind (heap__hdr_for h p (snd st)) (\<lambda>hdr.
        if hdr = 0 then Inl NullDeref
        else la_free la (hdr_base (snd st) hdr) st))"

definition heap_allocator :: "heap \<Rightarrow> 'l liballoc \<Rightarrow> 'l allocator" where
  "heap_allocator h la =
     \<lparr>al_allocate = Some (heap_allocate la), al_allocate_aligned = Some (heap_allocate_aligned la),
      al_reallocate = Some (heap_reallocate h la), al_deallocate = Some (heap_deallocate h la)\<rparr>"

end
