(* ===== verification/Heap_Props.thy ===== *)
theory Heap_Props
  imports Heap Vmm_Props
begin

section \<open>Properties of the kernel heap\<close>

subsection \<open>The search for pages\<close>

text \<open>
  \<open>run_free\<close> is the specification: a run of pages that lies inside the heap and has no bit set. The bitmap
  has to cover the pages.
\<close>

definition heap_pages :: "heap \<Rightarrow> nat" where
  "heap_pages h = unat (heap_page_count h)"

definition heap_ok :: "heap \<Rightarrow> bool" where
  "heap_ok h \<longleftrightarrow> bm_wf (heap_map h) \<and> heap_pages h \<le> bm_cap (heap_map h)"

definition run_free :: "heap \<Rightarrow> memory \<Rightarrow> nat \<Rightarrow> nat \<Rightarrow> bool" where
  "run_free h m n b \<longleftrightarrow> b + n \<le> heap_pages h \<and> (\<forall>k < n. \<not> bm_bit (heap_map h) m (b + k))"

definition page_taken :: "heap \<Rightarrow> memory \<Rightarrow> nat \<Rightarrow> bool" where
  "page_taken h m i \<longleftrightarrow> i \<ge> heap_pages h \<or> bm_bit (heap_map h) m i"

lemma run_free_taken: "b \<le> i \<Longrightarrow> i < b + n \<Longrightarrow> page_taken h m i \<Longrightarrow> \<not> run_free h m n b"
  unfolding run_free_def page_taken_def using le_Suc_ex[of b i] by auto

lemma not_taken_free: "0 < n \<or> b < heap_pages h \<Longrightarrow> (\<And>k. k < n \<Longrightarrow> \<not> page_taken h m (b + k)) \<Longrightarrow> run_free h m n b"
proof -
  assume a: "0 < n \<or> b < heap_pages h" "\<And>k. k < n \<Longrightarrow> \<not> page_taken h m (b + k)"
  have "b + n \<le> heap_pages h"
  proof (cases n)
    case (Suc n')
    then have "\<not> page_taken h m (b + n')" using a(2) by simp
    then show ?thesis using Suc by (simp add: page_taken_def)
  qed (use a(1) in simp)
  then show ?thesis using a(2) by (auto simp: run_free_def page_taken_def)
qed

lemma heap_run_eq:
  assumes "heap_ok h"
  shows "heap_run h b off n m = Inr (List.find (\<lambda>k. page_taken h m (b + k)) [off..<off + n])"
proof (induction n arbitrary: off)
  case (Suc n)
  have "(if unat (heap_page_count h) \<le> b + off then Inr True else bitmap_isset (heap_map h) (of_nat (b + off)) m) =
      Inr (page_taken h m (b + off))"
    using assms bitmap_isset_eq[of "heap_map h" "b + off" m]
    by (auto simp: page_taken_def heap_pages_def heap_ok_def)
  then show ?case using Suc.IH[of "Suc off"] by (simp add: Let_def upt_conv_Cons del: upt_Suc of_nat_add)
qed simp

text \<open>A search may skip what cannot succeed.\<close>

lemma find_skip: "b \<le> c \<Longrightarrow> (\<And>i. b \<le> i \<Longrightarrow> i < c \<Longrightarrow> \<not> P i) \<Longrightarrow> List.find P [b..<n] = List.find P [c..<n]"
proof (induction "c - b" arbitrary: b)
  case (Suc d)
  then have "List.find P [Suc b..<n] = List.find P [c..<n]" by (intro Suc.hyps(1)) auto
  moreover have "\<not> P b" using Suc by simp
  moreover have "\<not> b < n \<Longrightarrow> \<not> c < n" using Suc by linarith
  ultimately show ?case by (cases "b < n") (simp_all add: upt_conv_Cons)
qed simp

lemma heap_search_eq:
  assumes "heap_ok h"
  shows "heap_search h n b m = Inr (List.find (run_free h m n) [b..<heap_pages h])"
  using assms
proof (induction h n b m rule: heap_search.induct)
  case (1 h n b m)
  note run = heap_run_eq[OF 1(2), of b 0 n m]
  show ?case
  proof (cases "b < heap_pages h")
    case in_heap: True
    show ?thesis
    proof (cases "List.find (\<lambda>k. page_taken h m (b + k)) [0..<n]")
      case None
      then have "run_free h m n b" using in_heap by (intro not_taken_free) (auto simp: find_None_iff)
      then show ?thesis using in_heap None run by (simp add: heap_search.simps[of h n b] heap_pages_def upt_conv_Cons)
    next
      case (Some off)
      then have off: "off < n" "page_taken h m (b + off)" by (auto simp: find_Some_iff)
      have IH: "heap_search h n (b + off + 1) m = Inr (List.find (run_free h m n) [b + off + 1..<heap_pages h])"
        using 1(1)[of "Some off" off] 1(2) in_heap run Some by (simp add: heap_pages_def)
      have "\<not> run_free h m n i" if "b \<le> i" "i < b + off + 1" for i
        using run_free_taken[of i "b + off" n h m] off that by simp
      then have "List.find (run_free h m n) [b..<heap_pages h] = List.find (run_free h m n) [b + off + 1..<heap_pages h]"
        by (intro find_skip) auto
      then show ?thesis using in_heap Some run IH by (simp add: heap_search.simps[of h n b] heap_pages_def)
    qed
  qed (simp add: heap_search.simps[of h n b] heap_pages_def)
qed

text \<open>\<^verbatim>\<open>pmm_alloc\<close> never returns NULL, so the rollback is dead code.\<close>

lemma heap_map_pages_success: "heap_map_pages h b k n s = Inr (ok, k', s') \<Longrightarrow> ok"
proof (induction n arbitrary: k s)
  case (Suc n)
  then obtain pa s1 where "pmm_alloc 1 s = Inr (pa, s1)" by (auto simp: Let_def outcome_simps)
  moreover from this have "pa \<noteq> 0" by (auto simp: pmm_alloc_def outcome_simps split: if_splits)
  ultimately show ?case using Suc by (auto simp: Let_def outcome_simps)
qed simp

lemma no_rollback:
  "rbind (heap_map_pages h b k n s) (\<lambda>(success, k, s'). if success then Inr (p, s') else g k s') =
   rbind (heap_map_pages h b k n s) (\<lambda>(_, _, s'). Inr (p, s'))"
  by (cases "heap_map_pages h b k n s") (auto dest: heap_map_pages_success)

text \<open>
  C24: The pages for the heap are found first-fit. The search of \<^verbatim>\<open>liballoc_alloc\<close>, which skips behind the page that ended a run,
  ends and gives the lowest run of the requested length with no used page in it; if there is none the function returns NULL and changes
  nothing, and otherwise it backs the pages of the run with physical pages, of which it never has to give one back.
\<close>

theorem liballoc_alloc_first_fit:
  assumes "heap_ok h"
  shows "liballoc_alloc page_count h s =
    (let n = unat (scast page_count :: usize) in
     case List.find (run_free h (mem s) n) [0..<heap_pages h] of
       None \<Rightarrow> Inr (0, s)
     | Some b \<Rightarrow> rbind (heap_map_pages h b 0 n s) (\<lambda>(_, _, s'). Inr (heap_start h + of_nat b * 4096, s')))"
  unfolding liballoc_alloc_def heap_search_eq[OF assms] Let_def no_rollback by simp

text \<open>A heap of eight pages with the guard pages and page 2 in use: three pages start at page 3, six do not fit.\<close>

definition heap_demo :: heap where
  "heap_demo = \<lparr>heap_lock = unlocked, heap_start = 0x200000, heap_end = 0x208000, heap_map = \<lparr>bm_buffer = \<lparr>span_data = 0x1000, span_size = 1\<rparr>\<rparr>\<rparr>"

theorem liballoc_alloc_first_fit_witness:
  "liballoc_alloc 6 heap_demo (vm_demo\<lparr>mem := (\<lambda>_. 0)(0x1000 := 0xA1)\<rparr>) = Inr (0, vm_demo\<lparr>mem := (\<lambda>_. 0)(0x1000 := 0xA1)\<rparr>) \<and>
   List.find (run_free heap_demo ((\<lambda>_. 0)(0x1000 := 0xA1)) 3) [0..<8] = Some 3"
proof -
  let ?m = "(\<lambda>_. 0)(0x1000 := 0xA1) :: memory"
  have ok: "heap_ok heap_demo" "heap_pages heap_demo = 8"
    by (simp_all add: heap_ok_def heap_demo_def heap_pages_def heap_page_count_def bm_wf_def bm_base_def bm_len_def bm_cap_def)
  have bits: "bm_bit (heap_map heap_demo) ?m i \<longleftrightarrow> i \<in> {0, 2, 7}" if "i < 8" for i
  proof -
    have "i \<in> {0, 1, 2, 3, 4, 5, 6, 7}" using that by auto
    then show ?thesis by (auto simp: bm_bit_def heap_demo_def bm_base_def bit_iff_odd)
  qed
  have free: "run_free heap_demo ?m n b \<longleftrightarrow> b + n \<le> 8 \<and> (\<forall>k \<in> set [0..<n]. b + k \<notin> {0, 2, 7})" for n b
    by (auto simp: run_free_def ok(2) bits)
  have f: "List.find (run_free heap_demo ?m 6) [0..<8] = None" "List.find (run_free heap_demo ?m 3) [0..<8] = Some 3"
    by (simp_all add: free upt_rec)
  show ?thesis using liballoc_alloc_first_fit[OF ok(1), of 6 "vm_demo\<lparr>mem := ?m\<rparr>"] f ok(2) by simp
qed

subsection \<open>Chunks\<close>

text \<open>
  What the header in front of a pointer says about the chunk it lies in: \<open>tsz\<close> bytes at \<open>base\<close>, inside the heap, with the pointer at the first
  aligned address behind the room for the header.
\<close>

definition chunk_at :: "heap \<Rightarrow> memory \<Rightarrow> uptr \<Rightarrow> uptr \<Rightarrow> usize \<Rightarrow> usize \<Rightarrow> bool" where
  "chunk_at h m p base tsz align \<longleftrightarrow>
     is_alignment_valid align \<and> ALIGN_MAX \<le> align \<and> base \<noteq> 0 \<and> heap_start h \<le> base \<and>
     unat base + unat tsz \<le> unat (heap_end h) \<and> 32 + unat align \<le> unat tsz \<and>
     unat p = round_up (unat base + 32) (unat align) \<and>
     hdr_base m (p - 32) = base \<and> hdr_size m (p - 32) = tsz \<and> hdr_align m (p - 32) = align \<and>
     hdr_offset m (p - 32) = p - (base + 32)"

lemma hdr_write_read:
  "hdr_base (hdr_write hdr a b c d m) hdr = a" "hdr_size (hdr_write hdr a b c d m) hdr = b"
  "hdr_align (hdr_write hdr a b c d m) hdr = c" "hdr_offset (hdr_write hdr a b c d m) hdr = d"
  by (simp_all add: hdr_base_def hdr_size_def hdr_align_def hdr_offset_def hdr_write_def load64_store64_same load64_store64_far)

lemma hdr_write_outside: "\<not> in_range hdr 32 x \<Longrightarrow> hdr_write hdr a b c d m x = m x"
proof -
  assume x: "\<not> in_range hdr 32 x"
  have "8 \<le> unat (x - (hdr + of_nat k))" if "k \<in> {0, 8, 16, 24}" for k
  proof -
    have "32 \<le> unat (x - hdr)" using x by (simp add: in_range_def)
    moreover have "unat (of_nat k :: u64) = k" using that by auto
    moreover have "unat (x - hdr - of_nat k) = unat (x - hdr) - unat (of_nat k :: u64)"
      using calculation that by (intro unat_sub) (auto simp: word_le_nat_alt)
    ultimately show ?thesis using that by (auto simp: diff_diff_eq)
  qed
  from this[of 0] this[of 8] this[of 16] this[of 24] show ?thesis by (simp add: hdr_write_def store64_def)
qed

lemma hdr_cong:
  assumes "\<And>x. in_range hdr 32 x \<Longrightarrow> m' x = m x"
  shows "hdr_base m' hdr = hdr_base m hdr" "hdr_size m' hdr = hdr_size m hdr"
    "hdr_align m' hdr = hdr_align m hdr" "hdr_offset m' hdr = hdr_offset m hdr"
proof -
  have eq: "load64 m' (hdr + of_nat k) = load64 m (hdr + of_nat k)" if "k + 8 \<le> 32" for k
  proof (rule load64_cong)
    fix i :: nat assume "i < 8"
    then have "in_range hdr 32 (hdr + of_nat (k + i))" using that by (intro in_range_add) auto
    then show "m' (hdr + of_nat k + of_nat i) = m (hdr + of_nat k + of_nat i)" using assms by (simp add: add.assoc)
  qed
  from eq[of 0] eq[of 8] eq[of 16] eq[of 24]
  show "hdr_base m' hdr = hdr_base m hdr" "hdr_size m' hdr = hdr_size m hdr"
    "hdr_align m' hdr = hdr_align m hdr" "hdr_offset m' hdr = hdr_offset m hdr"
    by (simp_all add: hdr_base_def hdr_size_def hdr_align_def hdr_offset_def)
qed

lemma chunk_at_cong:
  assumes "chunk_at h m p base tsz align" "\<And>x. in_range (p - 32) 32 x \<Longrightarrow> m' x = m x"
  shows "chunk_at h m' p base tsz align"
  using assms(1) hdr_cong[OF assms(2)] by (simp add: chunk_at_def)

text \<open>The arithmetic of a chunk.\<close>

lemma chunk_bounds:
  assumes "chunk_at h m p base tsz align"
  shows "unat base + 32 \<le> unat p" "unat p + unat tsz \<le> unat base + unat tsz + 31 + unat align"
    "unat (p - 32) = unat p - 32" "unat (p - (base + 32)) = unat p - (unat base + 32)"
    "p - 32 \<noteq> 0" "unat align dvd unat p" "p < heap_end h" "base < heap_end h"
proof -
  have c: "16 \<le> unat align" "unat base + unat tsz \<le> unat (heap_end h)" "32 + unat align \<le> unat tsz"
    "unat p = round_up (unat base + 32) (unat align)" "0 < unat base"
    using assms by (auto simp: chunk_at_def ALIGN_MAX_def word_le_nat_alt unat_gt_0)
  note b = round_up_bounds[of "unat align" "unat base + 32"]
  show p: "unat base + 32 \<le> unat p" using b(1) c by simp
  show "unat p + unat tsz \<le> unat base + unat tsz + 31 + unat align" using b(2) c by simp
  show q: "unat (p - 32) = unat p - 32" using p by (simp add: unat_sub_u64 word_le_nat_alt)
  have r: "unat (base + 32) = unat base + 32" using p unat_lt_u64[of p] by (simp add: unat_add_u64)
  show "unat (p - (base + 32)) = unat p - (unat base + 32)" using r p by (simp add: unat_sub_u64 word_le_nat_alt)
  show "p - 32 \<noteq> 0" using q p c(5) by (auto simp: word_eq_iff_unat)
  show "unat align dvd unat p" using c(4) by simp
  show "p < heap_end h" "base < heap_end h" using b(2) c by (simp_all add: word_less_nat_alt)
qed

lemma chunk_hdr:
  assumes "chunk_at h m p base tsz align"
  shows "heap__hdr_for h p m = Inr (p - 32)"
proof -
  note b = chunk_bounds[OF assms]
  have c: "is_alignment_valid align" "\<not> align < ALIGN_MAX" "heap_start h \<le> base" "unat base + unat tsz \<le> unat (heap_end h)"
    "32 + unat align \<le> unat tsz" "hdr_base m (p - 32) = base" "hdr_size m (p - 32) = tsz" "hdr_align m (p - 32) = align"
    "hdr_offset m (p - 32) = p - (base + 32)"
    using assms by (auto simp: chunk_at_def)
  have a: "16 \<le> unat align" using c(2) by (simp add: ALIGN_MAX_def word_less_nat_alt)
  have "unat (32 + align - 1) = 31 + unat align"
    using c(5) unat_lt_u64[of tsz] a by (simp add: unat_sub_u64 unat_add_u64 word_le_nat_alt)
  then have size: "\<not> tsz < 32 + align - 1" "\<not> tsz > heap_end h - base"
    using c(4,5) by (simp_all add: word_less_nat_alt unat_sub_u64 word_le_nat_alt)
  have start: "unat (heap_start h + 32) = unat (heap_start h) + 32"
    using b(1) c(3) unat_lt_u64[of p] by (simp add: unat_add_u64 word_le_nat_alt)
  then have low: "\<not> p < heap_start h + 32" "p \<noteq> 0" using b(1) c(3) by (auto simp: word_less_nat_alt word_le_nat_alt)
  have off: "\<not> p - (base + 32) \<ge> align" using b(2,4) a by (simp add: word_le_nat_alt)
  have al: "align \<noteq> 0" "p mod align = 0" using b(6) a by (auto simp: unat_mod_eq_0)
  show ?thesis unfolding heap__hdr_for_def SIZEOF_HDR_def Let_def c(6-9)
    using size low off al c(1-3) b(5,7,8) by (simp add: is_ptr_aligned_def not_less not_le)
qed

lemma chunk_made:
  assumes "is_alignment_valid align" "ALIGN_MAX \<le> align" "base \<noteq> 0" "heap_start h \<le> base" "sz \<noteq> 0"
    and fits: "unat base + (unat sz + 31 + unat align) \<le> unat (heap_end h)"
  shows "\<exists>p. align_ptr_up (base + SIZEOF_HDR) align = Inr p \<and> unat (sz + SIZEOF_HDR + (align - 1)) = unat sz + 31 + unat align \<and>
    chunk_at h (hdr_write (p - SIZEOF_HDR) base (sz + SIZEOF_HDR + (align - 1)) align (p - (base + SIZEOF_HDR)) m)
      p base (sz + SIZEOF_HDR + (align - 1)) align \<and> unat p + unat sz \<le> unat base + (unat sz + 31 + unat align)"
proof -
  have a: "16 \<le> unat align" using assms(2) by (simp add: ALIGN_MAX_def word_le_nat_alt)
  have e: "unat (heap_end h) < 2 ^ 64" using unat_lt_u64[of "heap_end h"] by simp
  have "unat (align - 1) = unat align - 1" using a by (simp add: unat_sub_u64 word_le_nat_alt)
  then have t: "unat (sz + 32 + (align - 1)) = unat sz + 31 + unat align" using a fits e by (simp add: unat_add_u64)
  have raw: "unat (base + 32) = unat base + 32" using a fits e by (simp add: unat_add_u64)
  note b = round_up_bounds[of "unat align" "unat base + 32"]
  obtain p where p: "align_ptr_up (base + 32) align = Inr p" "unat p = round_up (unat base + 32) (unat align)"
    using align_size_up_exact[of align "base + 32"] a b(2) fits e raw by (auto simp: ptr_as_size word_eq_iff_unat)
  have "0 < unat sz" using assms(5) by (simp add: unat_gt_0)
  then have "chunk_at h (hdr_write (p - 32) base (sz + 32 + (align - 1)) align (p - (base + 32)) m) p base (sz + 32 + (align - 1)) align"
    using assms p(2) t by (simp add: chunk_at_def hdr_write_read)
  then show ?thesis using p t b a by (auto simp: SIZEOF_HDR_def)
qed

text \<open>
  A chunk of the heap can always be given back. When \<^verbatim>\<open>malloc\<close> gives a block inside the heap, the allocator returns a pointer with the requested
  alignment (16 at least) such that the bytes asked for and the header lie inside the block, and changes nothing else; and whatever is
  written anywhere but in the header, \<^verbatim>\<open>heap_deallocate\<close> of the pointer frees exactly that block.
\<close>

theorem heap_chunk_roundtrip:
  assumes "sz \<noteq> 0" "is_alignment_valid align" "al = max align ALIGN_MAX"
    and "la_malloc la (sz + SIZEOF_HDR + (al - 1)) (l, m) = Inr (base, l', m1)"
    and "base \<noteq> 0" "heap_start h \<le> base" "unat base + (unat sz + 31 + unat al) \<le> unat (heap_end h)"
  shows "\<exists>p m2. heap_allocate_aligned la sz align (l, m) = Inr (p, l', m2) \<and>
    unat al dvd unat p \<and> unat base + 32 \<le> unat p \<and> unat p + unat sz \<le> unat base + (unat sz + 31 + unat al) \<and>
    (\<forall>x. \<not> in_range (p - 32) 32 x \<longrightarrow> m2 x = m1 x) \<and>
    (\<forall>l2 m3 sz'. (\<forall>x. in_range (p - 32) 32 x \<longrightarrow> m3 x = m2 x) \<longrightarrow> heap_deallocate h la p sz' (l2, m3) = la_free la base (l2, m3))"
proof -
  have al: "(if align < ALIGN_MAX then ALIGN_MAX else align) = al" "is_alignment_valid al" "ALIGN_MAX \<le> al"
    using assms(2,3) power_of_two_valid[of 4] by (auto simp: max_def ALIGN_MAX_def)
  obtain p where p: "align_ptr_up (base + SIZEOF_HDR) al = Inr p"
      "chunk_at h (hdr_write (p - SIZEOF_HDR) base (sz + SIZEOF_HDR + (al - 1)) al (p - (base + SIZEOF_HDR)) m1)
        p base (sz + SIZEOF_HDR + (al - 1)) al" "unat p + unat sz \<le> unat base + (unat sz + 31 + unat al)"
    using chunk_made[OF al(2,3) assms(5,6,1,7), of m1] by blast
  let ?m2 = "hdr_write (p - SIZEOF_HDR) base (sz + SIZEOF_HDR + (al - 1)) al (p - (base + SIZEOF_HDR)) m1"
  note b = chunk_bounds[OF p(2)]
  have "heap_allocate_aligned la sz align (l, m) = Inr (p, l', ?m2)"
    using assms(1,2,4,5) p(1) by (simp add: heap_allocate_aligned_def al(1) Let_def)
  moreover have "heap_deallocate h la p sz' (l2, m3) = la_free la base (l2, m3)"
    if "\<forall>x. in_range (p - 32) 32 x \<longrightarrow> m3 x = ?m2 x" for l2 m3 sz'
  proof -
    have c: "chunk_at h m3 p base (sz + SIZEOF_HDR + (al - 1)) al" using chunk_at_cong[OF p(2)] that by blast
    have "p \<noteq> 0" using b(1) by auto
    then show ?thesis using chunk_hdr[OF c] b(5) c by (simp add: heap_deallocate_def chunk_at_def)
  qed
  moreover have "\<forall>x. \<not> in_range (p - 32) 32 x \<longrightarrow> ?m2 x = m1 x" using hdr_write_outside by (simp add: SIZEOF_HDR_def)
  ultimately show ?thesis using b(1,6) p(3) by blast
qed

lemma copied_self [simp]: "copied m p p n = m"
  by (auto simp: copied_def)

lemma copied_at: "i < n \<Longrightarrow> n \<le> 2 ^ 64 \<Longrightarrow> copied m dst src n (dst + of_nat i) = m (src + of_nat i)"
  by (simp add: copied_def)

text \<open>The move inside the new block, whether or not the payload has to be shifted.\<close>

lemma payload_moved:
  assumes "q \<noteq> 0" "src \<noteq> 0" "unat q + unat n \<le> 2 ^ 64" "unat src + unat n \<le> 2 ^ 64"
  shows "(if q \<noteq> src then memmove q src n m else Inr (q, m)) = Inr (q, copied m q src (unat n))"
  using memmove_eq[OF assms, of m] by auto

text \<open>The bytes of the chunk are not those of its header.\<close>

lemma payload_not_hdr: "i < 2 ^ 64 - 32 \<Longrightarrow> \<not> in_range (q - 32) 32 (q + of_nat i)"
proof -
  assume "i < 2 ^ 64 - 32"
  then have "unat (of_nat i + 32 :: u64) = i + 32" by (simp add: unat_add_u64 unat_of_nat_u64)
  then show ?thesis by (simp add: in_range_def)
qed

text \<open>
  C25: Growing or shrinking a chunk keeps its contents. When \<^verbatim>\<open>realloc\<close> moves the block to another place inside the heap and copies it, the
  allocator returns a pointer with the alignment of the old one, a valid header and room for the new size, and the first bytes of the chunk,
  up to the smaller of the two sizes, are those of the old one: also when the distance from the start of the block to the
  aligned pointer is different in the new block.
\<close>

theorem heap_reallocate_keeps_data:
  assumes old: "chunk_at h m p base tsz align" "unat p + unat oldsz \<le> unat base + unat tsz"
    and new: "newsz \<noteq> 0" "unat newbase + (unat newsz + 31 + unat align) \<le> unat (heap_end h)"
    and re: "la_realloc la base (newsz + SIZEOF_HDR + (align - 1)) (l, m) = Inr (newbase, l', m1)" "newbase \<noteq> 0" "heap_start h \<le> newbase"
    and copy: "\<forall>i < min (unat tsz) (unat newsz + 31 + unat align). m1 (newbase + of_nat i) = m (base + of_nat i)"
  shows "\<exists>q m2. heap_reallocate h la p oldsz newsz (l, m) = Inr (q, l', m2) \<and>
    chunk_at h m2 q newbase (newsz + SIZEOF_HDR + (align - 1)) align \<and>
    unat q + unat newsz \<le> unat newbase + (unat newsz + 31 + unat align) \<and>
    (\<forall>i < min (unat oldsz) (unat newsz). m2 (q + of_nat i) = m (p + of_nat i))"
proof -
  have al: "is_alignment_valid align" "ALIGN_MAX \<le> align" using old(1) by (simp_all add: chunk_at_def)
  let ?t = "newsz + SIZEOF_HDR + (align - 1)"
  let ?n = "if oldsz < newsz then oldsz else newsz"
  define off where "off = p - (base + 32)"
  let ?src = "newbase + 32 + off"
  note b = chunk_bounds[OF old(1), folded off_def]
  have e: "unat (heap_end h) < 2 ^ 64" "16 \<le> unat align" using unat_lt_u64[of "heap_end h"] al(2) by (simp_all add: ALIGN_MAX_def word_le_nat_alt)
  have n: "unat ?n = min (unat oldsz) (unat newsz)" by (auto simp: word_less_nat_alt)
  have hdr: "hdr_base m (p - 32) = base" "hdr_size m (p - 32) = tsz" "hdr_align m (p - 32) = align" "hdr_offset m (p - 32) = off"
    using old(1) by (simp_all add: chunk_at_def off_def)
  have src: "unat ?src = unat newbase + 32 + unat off" using b(2,4) new(2) e by (simp add: unat_add_u64)
  have room: "unat ?src + unat ?n \<le> unat newbase + (unat newsz + 31 + unat align)"
    "32 + unat off + unat ?n \<le> unat tsz" "?src \<noteq> 0"
    using src b(1,2,4) n old(2) e by (auto simp: word_eq_iff_unat)
  have "unat (tsz - 32) = unat tsz - 32" "unat (tsz - 32 - off) = unat tsz - 32 - unat off"
    using room(2) by (simp_all add: unat_sub_u64 word_le_nat_alt)
  then have pay: "\<not> tsz - 32 - off < ?n" using room(2) by (simp only: word_less_nat_alt)
  note made = chunk_made[OF al re(2,3) new]
  obtain q where q1: "align_ptr_up (newbase + SIZEOF_HDR) align = Inr q" using made by blast
  have q: "unat ?t = unat newsz + 31 + unat align" "unat q + unat newsz \<le> unat newbase + (unat newsz + 31 + unat align)"
      "chunk_at h (hdr_write (q - SIZEOF_HDR) newbase ?t align (q - (newbase + SIZEOF_HDR)) m') q newbase ?t align" for m'
    using made[of m'] q1 by auto
  have q0: "q \<noteq> 0" using chunk_bounds(1)[OF q(3)] by auto
  have mv: "(if q \<noteq> ?src then memmove q ?src ?n m1 else Inr (q, m1)) = Inr (q, copied m1 q ?src (unat ?n))"
    using q(2) n room(1) new(2) e by (intro payload_moved q0 room(3)) simp_all
  let ?m2 = "hdr_write (q - SIZEOF_HDR) newbase ?t align (q - (newbase + SIZEOF_HDR)) (copied m1 q ?src (unat ?n))"
  have "p \<noteq> 0" using b(1) by auto
  then have r: "heap_reallocate h la p oldsz newsz (l, m) = Inr (q, l', ?m2)"
    using chunk_hdr[OF old(1)] b(5) new(1) re q1 pay mv
    by (simp add: heap_reallocate_def hdr Let_def SIZEOF_HDR_def cong: if_cong)
  have "?m2 (q + of_nat i) = m (p + of_nat i)" if i: "i < min (unat oldsz) (unat newsz)" for i
  proof -
    have "?m2 (q + of_nat i) = m1 (?src + of_nat i)"
      using i n new(2) e payload_not_hdr[of i q] unat_lt_u64[of ?n]
      by (simp add: hdr_write_outside SIZEOF_HDR_def copied_at)
    also have "?src + of_nat i = newbase + of_nat (32 + unat off + i)" by simp
    also have "m1 \<dots> = m (base + of_nat (32 + unat off + i))"
    proof -
      have "32 + unat off + i < min (unat tsz) (unat newsz + 31 + unat align)" using i room(1,2) unfolding n src by linarith
      then show ?thesis using copy by blast
    qed
    also have "base + of_nat (32 + unat off + i) = p + of_nat i" by (simp add: off_def)
    finally show ?thesis .
  qed
  then show ?thesis using r q by blast
qed

text \<open>A \<^verbatim>\<open>malloc\<close> and a \<^verbatim>\<open>realloc\<close> that always give the same two blocks; the chunk is moved from one to the other.\<close>

definition la_demo :: "unit liballoc" where
  "la_demo = \<lparr>la_malloc = (\<lambda>sz (l, m). Inr (0x201000, l, m)),
     la_realloc = (\<lambda>p sz (l, m). Inr (0x202008, l, \<lambda>x. if in_range 0x202008 256 x then m (p + (x - 0x202008)) else m x)),
     la_free = (\<lambda>p (l, m). Inr (l, m(0 := 1)))\<rparr>"

theorem heap_chunk_roundtrip_witness:
  "\<exists>p m2. heap_allocate_aligned la_demo 100 64 ((), \<lambda>_. 0) = Inr (p, (), m2) \<and> unat (64 :: u64) dvd unat p \<and>
    heap_deallocate heap_demo la_demo p 100 ((), m2) = Inr ((), m2(0 := 1))"
proof -
  have a: "is_alignment_valid 64" "64 = max 64 ALIGN_MAX" using power_of_two_valid[of 6] by (simp_all add: ALIGN_MAX_def max_def)
  have m: "la_malloc la_demo (100 + SIZEOF_HDR + (64 - 1)) ((), \<lambda>_. 0) = Inr (0x201000, (), \<lambda>_. 0)" by (simp add: la_demo_def)
  have h: "heap_start heap_demo \<le> 0x201000" "unat (0x201000 :: u64) + (unat (100 :: u64) + 31 + unat (64 :: u64)) \<le> unat (heap_end heap_demo)"
    by (simp_all add: heap_demo_def)
  from heap_chunk_roundtrip[OF _ a m _ h] show ?thesis by (force simp: la_demo_def)
qed

text \<open>The old block starts at a multiple of 64 and the new one does not, so the payload is shifted.\<close>

theorem heap_reallocate_keeps_data_witness:
  "\<exists>m. m 0x201040 = 7 \<and> (\<exists>q m2. heap_reallocate heap_demo la_demo 0x201040 10 20 ((), m) = Inr (q, (), m2) \<and> m2 q = 7)"
proof -
  define m where "m = hdr_write 0x201020 0x201000 105 64 0x20 ((\<lambda>_. 0)(0x201040 := 7))"
  have v: "is_alignment_valid 64" using power_of_two_valid[of 6] by simp
  have c: "chunk_at heap_demo m 0x201040 0x201000 105 64"
    using v by (simp add: chunk_at_def m_def hdr_write_read heap_demo_def ALIGN_MAX_def round_up_def)
  have m7: "m 0x201040 = 7" unfolding m_def by (subst hdr_write_outside) (simp_all add: in_range_def)
  define m1 where "m1 = (\<lambda>x. if in_range 0x202008 256 x then m (0x201000 + (x - 0x202008)) else m x)"
  have re: "la_realloc la_demo 0x201000 (20 + SIZEOF_HDR + (64 - 1)) ((), m) = Inr (0x202008, (), m1)"
    by (simp add: la_demo_def m1_def)
  have cp: "\<forall>i < min (unat (105 :: usize)) (unat (20 :: usize) + 31 + unat (64 :: usize)). m1 (0x202008 + of_nat i) = m (0x201000 + of_nat i)"
    by (simp add: m1_def in_range_def unat_of_nat_u64)
  have "\<exists>q m2. heap_reallocate heap_demo la_demo 0x201040 10 20 ((), m) = Inr (q, (), m2) \<and>
      (\<forall>i < min (unat (10 :: usize)) (unat (20 :: usize)). m2 (q + of_nat i) = m (0x201040 + of_nat i))"
    using heap_reallocate_keeps_data[OF c _ _ _ re _ _ cp, of 10] by (auto simp: heap_demo_def)
  then obtain q m2 where r: "heap_reallocate heap_demo la_demo 0x201040 10 20 ((), m) = Inr (q, (), m2)" "\<forall>i < 10. m2 (q + of_nat i) = m (0x201040 + of_nat i)"
    by auto
  from r(2)[rule_format, of 0] have "m2 q = 7" using m7 by simp
  then show ?thesis using r(1) m7 by blast
qed

end
