(* ===== verification/Conv.thy ===== *)
theory Conv
  imports Prelude
begin

section \<open>Numbers to text (klibc/algo/conv.c)\<close>

text \<open>
  \<^verbatim>\<open>itoa\<close> writes the digits of a number to a buffer, lowest first, and then reverses them in place. The buffer of the string it
  writes to is the list \<open>ob_data\<close>; a write outside it would be undefined and is an error outcome. The loop over the digits
  ends because the number shrinks: it runs with a base of at least 2 only, which its definition tests as well.
\<close>

subsection \<open>The code\<close>

record out_str =
  ob_data :: "u8 list"
  ob_length :: usize
  ob_capacity :: usize

definition alphabet :: "u8 list" where
  "alphabet = map of_char ''zyxwvutsrqponmlkjihgfedcba9876543210123456789abcdefghijklmnopqrstuvwxyz''"

definition ob_get :: "usize \<Rightarrow> out_str \<Rightarrow> u8 outcome" where
  "ob_get i b = (if unat i < length (ob_data b) then Inr (ob_data b ! unat i) else Inl OutOfBounds)"

definition ob_put :: "usize \<Rightarrow> u8 \<Rightarrow> out_str \<Rightarrow> out_str outcome" where
  "ob_put i c b = (if unat i < length (ob_data b) then Inr (b\<lparr>ob_data := (ob_data b)[unat i := c]\<rparr>) else Inl OutOfBounds)"

function itoa_digits :: "u64 \<Rightarrow> u64 \<Rightarrow> usize \<Rightarrow> out_str \<Rightarrow> out_str outcome" where
  "itoa_digits base n offset out =
     (if n > 0 \<and> base > 1
      then check (offset < ob_capacity out)
        (rbind (ob_put offset (alphabet ! unat (35 + n mod base)) out) (\<lambda>out.
         itoa_digits base (n div base) (offset + 1) (out\<lparr>ob_length := ob_length out + 1\<rparr>)))
      else Inr out)"
  by auto

lemma word_div_smaller: "n > 0 \<Longrightarrow> base > 1 \<Longrightarrow> unat (n div base :: u64) < unat n"
  by (simp add: unat_div word_less_nat_alt)

termination itoa_digits
  by (relation "measure (\<lambda>(_, n, _, _). unat n)") (auto simp: word_div_smaller)

declare itoa_digits.simps [simp del]

definition itoa_swap :: "nat \<Rightarrow> out_str \<Rightarrow> out_str outcome" where
  "itoa_swap i out =
     (let offset = of_nat i; swap_with = ob_length out - offset - 1 in
      rbind (ob_get offset out) (\<lambda>tmp.
      rbind (ob_get swap_with out) (\<lambda>c.
      rbind (ob_put offset c out) (\<lambda>out.
      ob_put swap_with tmp out))))"

definition itoa :: "out_str \<Rightarrow> u64 \<Rightarrow> i32 \<Rightarrow> out_str outcome" where
  "itoa out n base =
     (if base <s 2 \<or> 36 <s base then Inr (out\<lparr>ob_length := 0\<rparr>)
      else
        rbind (if n = 0
               then check (ob_capacity out > 0)
                 (rbind (ob_put 0 (of_char CHR ''0'') out) (\<lambda>out. Inr (out\<lparr>ob_length := 1\<rparr>)))
               else Inr out) (\<lambda>out.
        rbind (itoa_digits (scast base) n 0 out) (\<lambda>out.
        for_r itoa_swap [0..<unat (ob_length out div 2)] out)))"

subsection \<open>What the digits denote\<close>

text \<open>The digits of a number, lowest first, and the value of a text in a base.\<close>

fun ldigits :: "nat \<Rightarrow> nat \<Rightarrow> nat list" where
  "ldigits b n = (if n = 0 \<or> b < 2 then [] else n mod b # ldigits b (n div b))"

declare ldigits.simps [simp del]

definition digit_val :: "u8 \<Rightarrow> nat" where
  "digit_val c = (if c \<le> of_char CHR ''9'' then unat c - 48 else unat c - 87)"

definition text_value :: "nat \<Rightarrow> u8 list \<Rightarrow> nat" where
  "text_value b cs = foldl (\<lambda>v c. v * b + digit_val c) 0 cs"

definition digit_char :: "nat \<Rightarrow> u8" where
  "digit_char d = alphabet ! (35 + d)"

lemma digit_chars: "list_all (\<lambda>d. digit_val (alphabet ! (35 + d)) = d \<and> (alphabet ! (35 + d) = of_char CHR ''0'' \<longrightarrow> d = 0)) [0..<36]"
  by (simp add: alphabet_def digit_val_def upt_rec)

lemma digit_char_val: "d < 36 \<Longrightarrow> digit_val (digit_char d) = d" "d < 36 \<Longrightarrow> digit_char d = of_char CHR ''0'' \<Longrightarrow> d = 0"
  using digit_chars by (auto simp: list_all_iff digit_char_def)

lemma ldigits_less: "d \<in> set (ldigits b n) \<Longrightarrow> d < b"
  by (induction b n rule: ldigits.induct) (subst (asm) (2) ldigits.simps, auto split: if_splits)

lemma ldigits_length: "n < b ^ k \<Longrightarrow> 2 \<le> b \<Longrightarrow> length (ldigits b n) \<le> k"
proof (induction k arbitrary: n)
  case (Suc k)
  then have "n div b < b ^ k" by (simp add: less_mult_imp_div_less mult.commute)
  then show ?case using Suc by (subst ldigits.simps) auto
qed (simp add: ldigits.simps)

lemma ldigits_value: "2 \<le> b \<Longrightarrow> b \<le> 36 \<Longrightarrow> text_value b (map digit_char (rev (ldigits b n))) = n"
proof (induction b n rule: ldigits.induct)
  case (1 b n)
  show ?case
  proof (cases "n = 0")
    case False
    then have "text_value b (map digit_char (rev (ldigits b (n div b)))) = n div b" using 1 by simp
    moreover have "digit_val (digit_char (n mod b)) = n mod b" using 1(2,3) mod_less_divisor[of b n] by (intro digit_char_val(1)) linarith
    ultimately show ?thesis using False 1(2) by (subst ldigits.simps) (simp add: text_value_def)
  qed (simp add: ldigits.simps text_value_def)
qed

lemma ldigits_last: "2 \<le> b \<Longrightarrow> n \<noteq> 0 \<Longrightarrow> ldigits b n \<noteq> [] \<and> last (ldigits b n) \<noteq> 0"
proof (induction b n rule: ldigits.induct)
  case (1 b n)
  show ?case
  proof (cases "n div b = 0")
    case True
    then have "n mod b = n" using 1(2) by (simp add: div_eq_0_iff)
    then show ?thesis using 1(2,3) True by (simp add: ldigits.simps[of b n] ldigits.simps[of b 0])
  next
    case False
    then show ?thesis using 1 by (simp add: ldigits.simps[of b n])
  qed
qed

subsection \<open>The two loops\<close>

definition ob_ok :: "out_str \<Rightarrow> bool" where
  "ob_ok b \<longleftrightarrow> length (ob_data b) = unat (ob_capacity b)"

lemma itoa_digits_eq:
  assumes "2 \<le> unat base" "unat base \<le> 36" "ob_ok out" "unat off + length (ldigits (unat base) (unat n)) \<le> unat (ob_capacity out)" "ob_length out = off"
  shows "\<exists>out'. itoa_digits base n off out = Inr out' \<and> ob_ok out' \<and> ob_capacity out' = ob_capacity out \<and>
    unat (ob_length out') = unat off + length (ldigits (unat base) (unat n)) \<and>
    take (unat (ob_length out')) (ob_data out') = take (unat off) (ob_data out) @ map digit_char (ldigits (unat base) (unat n))"
  using assms
proof (induction base n off out rule: itoa_digits.induct)
  case (1 base n off out)
  have b: "base > 1" using 1(2) by (simp add: word_less_nat_alt)
  show ?case
  proof (cases "n = 0")
    case True
    then show ?thesis using 1 by (subst itoa_digits.simps) (simp add: ldigits.simps)
  next
    case False
    let ?d = "ldigits (unat base) (unat (n div base))"
    have n: "n > 0" using False by (simp add: word_gt_0)
    have d: "ldigits (unat base) (unat n) = (unat n mod unat base) # ?d"
      using False 1(2) by (subst ldigits.simps) (simp add: unat_div word_eq_iff_unat)
    have cap: "unat off < unat (ob_capacity out)" using 1(5) d by simp
    have dig: "alphabet ! unat (35 + n mod base) = digit_char (unat n mod unat base)"
    proof -
      have "unat n mod unat base < 36" using 1(2,3) mod_less_divisor[of "unat base" "unat n"] by linarith
      then show ?thesis by (simp add: digit_char_def unat_add_u64 unat_mod)
    qed
    let ?o = "out\<lparr>ob_data := (ob_data out)[unat off := digit_char (unat n mod unat base)]\<rparr>"
    let ?o' = "?o\<lparr>ob_length := ob_length out + 1\<rparr>"
    have off1: "unat (off + 1) = unat off + 1" using cap unat_lt_u64[of "ob_capacity out"] by (simp add: unat_add_u64)
    have put: "ob_put off (alphabet ! unat (35 + n mod base)) out = Inr ?o"
      using cap 1(4) by (simp add: ob_put_def ob_ok_def dig)
    have step: "itoa_digits base n off out = itoa_digits base (n div base) (off + 1) ?o'"
      using n b cap put by (subst itoa_digits.simps) (simp add: word_less_nat_alt)
    have "\<exists>out'. itoa_digits base (n div base) (off + 1) ?o' = Inr out' \<and> ob_ok out' \<and> ob_capacity out' = ob_capacity ?o' \<and>
        unat (ob_length out') = unat (off + 1) + length ?d \<and>
        take (unat (ob_length out')) (ob_data out') = take (unat (off + 1)) (ob_data ?o') @ map digit_char ?d"
      using 1(1)[OF _ put, of ] n b 1(2-6) d off1 by (simp add: ob_ok_def)
    moreover have "take (unat (off + 1)) (ob_data ?o') = take (unat off) (ob_data out) @ [digit_char (unat n mod unat base)]"
      using cap 1(4) off1 by (simp add: ob_ok_def take_Suc_conv_app_nth)
    ultimately show ?thesis using step d off1 by auto
  qed
qed

definition mirrored :: "nat \<Rightarrow> nat \<Rightarrow> u8 list \<Rightarrow> u8 list \<Rightarrow> bool" where
  "mirrored n k d d' \<longleftrightarrow> length d' = length d \<and>
     (\<forall>i < length d. d' ! i = (if i < n \<and> (i < k \<or> n - 1 - i < k) then d ! (n - 1 - i) else d ! i))"

lemma itoa_swap_step:
  assumes "unat (ob_length out) = n" "n \<le> length (ob_data out)" "n \<le> length d" "k < n div 2" "mirrored n k d (ob_data out)"
  shows "\<exists>d'. itoa_swap k out = Inr (out\<lparr>ob_data := d'\<rparr>) \<and> mirrored n (Suc k) d d'"
proof -
  have k: "unat (of_nat k :: u64) = k" using assms(1,4) unat_lt_u64[of "ob_length out"] by (intro unat_of_nat_u64) simp
  have "unat (ob_length out - of_nat k) = n - k" using k assms(1,4) by (simp add: unat_sub_u64 word_le_nat_alt)
  then have w: "unat (ob_length out - of_nat k - 1) = n - 1 - k" using assms(4) by (simp add: unat_sub_u64 word_le_nat_alt)
  let ?d = "(ob_data out)[k := ob_data out ! (n - 1 - k), n - 1 - k := ob_data out ! k]"
  have "k < length (ob_data out)" "n - 1 - k < length (ob_data out)" using assms(2,4) by linarith+
  then have "itoa_swap k out = Inr (out\<lparr>ob_data := ?d\<rparr>)"
    using assms(2,4) by (simp add: itoa_swap_def ob_get_def ob_put_def k w Let_def)
  moreover have "mirrored n (Suc k) d ?d" using assms(3,4,5) by (auto simp: mirrored_def nth_list_update)
  ultimately show ?thesis by blast
qed

lemma itoa_reverse:
  assumes "unat (ob_length out) = n" "n \<le> length (ob_data out)"
  shows "\<exists>d. for_r itoa_swap [0..<unat (ob_length out div 2)] out = Inr (out\<lparr>ob_data := d\<rparr>) \<and>
    length d = length (ob_data out) \<and> take n d = rev (take n (ob_data out))"
proof -
  have h: "unat (ob_length out div 2) = n div 2" using assms(1) by (simp add: unat_div)
  have "\<exists>out'. for_r itoa_swap [0..<n div 2] out = Inr out' \<and> (\<exists>d. out' = out\<lparr>ob_data := d\<rparr> \<and> mirrored n (n div 2) (ob_data out) d)"
  proof (rule for_r_rule)
    show "\<exists>d. out = out\<lparr>ob_data := d\<rparr> \<and> mirrored n 0 (ob_data out) d" by (rule exI[of _ "ob_data out"]) (simp add: mirrored_def)
  next
    fix k out'
    assume k: "k < n div 2" and "\<exists>d. out' = out\<lparr>ob_data := d\<rparr> \<and> mirrored n k (ob_data out) d"
    then obtain d where d: "out' = out\<lparr>ob_data := d\<rparr>" "mirrored n k (ob_data out) d" by blast
    then have "n \<le> length (ob_data out')" using assms(2) by (simp add: mirrored_def)
    then obtain d' where "itoa_swap k out' = Inr (out'\<lparr>ob_data := d'\<rparr>)" "mirrored n (Suc k) (ob_data out) d'"
      using itoa_swap_step[of out' n "ob_data out" k] assms d k by auto
    then show "\<exists>s'. itoa_swap k out' = Inr s' \<and> (\<exists>d. s' = out\<lparr>ob_data := d\<rparr> \<and> mirrored n (Suc k) (ob_data out) d)"
      using d(1) by auto
  qed
  then obtain d where d: "for_r itoa_swap [0..<n div 2] out = Inr (out\<lparr>ob_data := d\<rparr>)" "mirrored n (n div 2) (ob_data out) d" by blast
  have "take n d = rev (take n (ob_data out))"
  proof (rule nth_equalityI)
    fix i assume "i < length (take n d)"
    then have i: "i < n" by simp
    have "d ! i = ob_data out ! (n - 1 - i)"
    proof (cases "i < n div 2 \<or> n - 1 - i < n div 2")
      case False
      then have "n - 1 - i = i" using i by linarith
      then show ?thesis using False d(2) i assms(2) by (simp add: mirrored_def)
    qed (use d(2) i assms(2) in \<open>simp add: mirrored_def\<close>)
    then show "take n d ! i = rev (take n (ob_data out)) ! i" using i assms(2) by (simp add: rev_nth)
  qed (use d(2) in \<open>simp add: mirrored_def\<close>)
  then show ?thesis using d h by (auto simp: mirrored_def)
qed

subsection \<open>Round trip\<close>

text \<open>The text is the digits of the number, highest first.\<close>

lemma itoa_text:
  assumes "base \<in> {2..36}" "ob_ok out" "64 \<le> unat (ob_capacity out)" "ob_length out = 0"
  shows "\<exists>out'. itoa out n (of_nat base) = Inr out' \<and> ob_ok out' \<and> ob_capacity out' = ob_capacity out \<and>
    unat (ob_length out') \<le> 64 \<and> take (unat (ob_length out')) (ob_data out') =
      (if n = 0 then [of_char CHR ''0''] else map digit_char (rev (ldigits base (unat n))))"
proof -
  have b: "sint (of_nat base :: i32) = int base" using assms(1) by (simp add: signed_of_nat signed_take_bit_int_eq_self)
  then have b': "unat (scast (of_nat base :: i32) :: u64) = base" using assms(1) by (simp add: scast_eq unat_of_nat_u64)
  have ok: "\<not> (of_nat base :: i32) <s 2" "\<not> 36 <s (of_nat base :: i32)" using assms(1) by (simp_all add: word_sless_alt b)
  show ?thesis
  proof (cases "n = 0")
    case True
    let ?o = "out\<lparr>ob_data := (ob_data out)[0 := of_char CHR ''0''], ob_length := 1\<rparr>"
    obtain c cs where "ob_data out = c # cs" using assms(2,3) by (cases "ob_data out") (auto simp: ob_ok_def)
    moreover from this have "itoa out n (of_nat base) = Inr ?o"
      using assms(3) True ok by (simp add: itoa_def ob_put_def itoa_digits.simps[of _ 0] word_less_nat_alt)
    ultimately show ?thesis using True assms(2) by (auto simp: ob_ok_def)
  next
    case False
    let ?l = "ldigits base (unat n)"
    have "unat n < base ^ 64"
    proof -
      have "unat n < 2 ^ 64" using unat_lt_u64[of n] by simp
      also have "(2 :: nat) ^ 64 \<le> base ^ 64" using assms(1) by (intro power_mono) auto
      finally show ?thesis .
    qed
    then have l: "length ?l \<le> 64" using assms(1) by (intro ldigits_length) auto
    obtain o1 where o1: "itoa_digits (scast (of_nat base :: i32)) n 0 out = Inr o1" "ob_ok o1" "ob_capacity o1 = ob_capacity out"
        "unat (ob_length o1) = length ?l" "take (length ?l) (ob_data o1) = map digit_char ?l"
      using itoa_digits_eq[of "scast (of_nat base :: i32)" out 0 n] assms l unfolding b' by auto
    have "length ?l \<le> length (ob_data o1)" using o1(2,3) assms(3) l by (simp add: ob_ok_def)
    then obtain d where d: "for_r itoa_swap [0..<unat (ob_length o1 div 2)] o1 = Inr (o1\<lparr>ob_data := d\<rparr>)" "length d = length (ob_data o1)"
        "take (length ?l) d = rev (take (length ?l) (ob_data o1))"
      using itoa_reverse[OF o1(4)] by blast
    have "itoa out n (of_nat base) = Inr (o1\<lparr>ob_data := d\<rparr>)" using False ok o1(1) d(1) by (simp add: itoa_def)
    then show ?thesis using False o1 d l by (simp add: ob_ok_def rev_map)
  qed
qed

text \<open>
  C26: Printing a number and reading it back gives the number. For every base from 2 to 36 and an empty string with room for 64 digits,
  \<^verbatim>\<open>itoa\<close> returns, writes at most 64 characters, and their value as a text in the base is the number; there is no
  leading zero unless the number is 0.
\<close>

theorem itoa_roundtrip:
  assumes "base \<in> {2..36}" "ob_ok out" "64 \<le> unat (ob_capacity out)" "ob_length out = 0"
  shows "\<exists>out'. itoa out n (of_nat base) = Inr out' \<and> unat (ob_length out') \<in> {1..64} \<and>
    (let cs = take (unat (ob_length out')) (ob_data out') in
     text_value base cs = unat n \<and> (cs ! 0 = of_char CHR ''0'' \<longrightarrow> n = 0))"
proof -
  obtain out' where o: "itoa out n (of_nat base) = Inr out'" "ob_ok out'" "ob_capacity out' = ob_capacity out" "unat (ob_length out') \<le> 64"
    "take (unat (ob_length out')) (ob_data out') = (if n = 0 then [of_char CHR ''0''] else map digit_char (rev (ldigits base (unat n))))"
    using itoa_text[OF assms, of n] by blast
  let ?l = "ldigits base (unat n)"
  show ?thesis
  proof (cases "n = 0")
    case True
    then have "take (unat (ob_length out')) (ob_data out') \<noteq> []" using o(5) by simp
    then have "0 < unat (ob_length out')" by (metis gr0I take_0)
    then show ?thesis using o True by (auto simp: Let_def text_value_def digit_val_def)
  next
    case False
    then have l: "?l \<noteq> []" "last ?l \<noteq> 0" using ldigits_last[of base "unat n"] assms(1) by (auto simp: word_eq_iff_unat)
    then have "rev ?l \<noteq> []" "rev ?l ! 0 \<noteq> 0" by (simp_all add: rev_nth last_conv_nth)
    moreover have "rev ?l ! 0 < 36" using ldigits_less[of "rev ?l ! 0" base "unat n"] l(1) assms(1) by (force simp: rev_nth)
    ultimately have "map digit_char (rev ?l) ! 0 \<noteq> of_char CHR ''0''" using digit_char_val(2)[of "rev ?l ! 0"] by auto
    moreover have "unat (ob_length out') \<noteq> 0"
    proof
      assume "unat (ob_length out') = 0"
      then show False using o(5) l(1) False by simp
    qed
    ultimately show ?thesis using o(1,4,5) False assms(1) ldigits_value[of base "unat n"] by (auto simp: Let_def)
  qed
qed

theorem itoa_roundtrip_witness:
  "\<exists>out'. itoa \<lparr>ob_data = replicate 65 0, ob_length = 0, ob_capacity = 65\<rparr> 48879 (of_nat 16) = Inr out' \<and>
     text_value 16 (take (unat (ob_length out')) (ob_data out')) = 48879"
  using itoa_roundtrip[of 16 "\<lparr>ob_data = replicate 65 0, ob_length = 0, ob_capacity = 65\<rparr>" 48879]
  by (auto simp: ob_ok_def Let_def)

end
