(* ===== verification/Str.thy ===== *)
theory Str
  imports Alloc Bytes
begin

section \<open>Strings (klibc/mem/str.c)\<close>

text \<open>
  A \<^verbatim>\<open>str\<close> is a pointer with a length, a capacity and a mark of ownership; \<^verbatim>\<open>ulibc/src/mem/str.c\<close> is the same code. The bytes are in memory,
  and so are the arrays of strings that \<^verbatim>\<open>str_split\<close> makes: 32 bytes for each string. The formatting functions are in the theory of the
  formatter.
\<close>

record str =
  s_data :: uptr
  s_length :: usize
  s_capacity :: usize
  s_owned :: bool

record strv =
  sv_items :: uptr
  sv_count :: usize

definition str_null :: str where
  "str_null = \<lparr>s_data = 0, s_length = 0, s_capacity = 0, s_owned = False\<rparr>"

definition STR_SIZE :: u64 where "STR_SIZE = 32"

definition load_str :: "memory \<Rightarrow> uptr \<Rightarrow> str" where
  "load_str m p = \<lparr>s_data = load64 m p, s_length = load64 m (p + 8), s_capacity = load64 m (p + 16), s_owned = (m (p + 24) \<noteq> 0)\<rparr>"

definition store_str :: "uptr \<Rightarrow> str \<Rightarrow> memory \<Rightarrow> memory" where
  "store_str p s m = (store64 (p + 16) (s_capacity s) (store64 (p + 8) (s_length s) (store64 p (s_data s) m)))
     (p + 24 := (if s_owned s then 1 else 0))"

subsection \<open>Operations\<close>

text \<open>An endless search for the end of the string has no result.\<close>

definition strview_from_cstr :: "uptr \<Rightarrow> memory \<Rightarrow> str option outcome" where
  "strview_from_cstr s m =
     rbind (strlen s m) (\<lambda>r. Inr (map_option (\<lambda>len. \<lparr>s_data = s, s_length = len, s_capacity = len + 1, s_owned = False\<rparr>) r))"

definition strview_from_buffer :: "uptr \<Rightarrow> usize \<Rightarrow> memory \<Rightarrow> str outcome" where
  "strview_from_buffer buf bufsz m =
     check (buf \<noteq> 0) (check (bufsz > 0) (
     rbind (strnlen buf bufsz m) (\<lambda>len. Inr \<lparr>s_data = buf, s_length = len, s_capacity = bufsz, s_owned = False\<rparr>)))"

definition str_clone :: "('s, 'z) allocator_scheme \<Rightarrow> str \<Rightarrow> 's \<times> memory \<Rightarrow> (str \<times> 's \<times> memory) outcome" where
  "str_clone a s st =
     rbind (allocate_v a (s_length s) 1 st) (\<lambda>(p, u, m).
     let copy = \<lparr>s_data = p, s_length = s_length s, s_capacity = s_length s, s_owned = True\<rparr> in
     rbind (memcpy (s_data copy) (s_data s) (s_length s) m) (\<lambda>(_, m). Inr (copy, u, m)))"

definition str_free :: "('s, 'z) allocator_scheme \<Rightarrow> str \<Rightarrow> 's \<times> memory \<Rightarrow> (str \<times> 's \<times> memory) outcome" where
  "str_free a s st =
     check (s_owned s) (rbind (deallocate a (s_data s) (s_capacity s) st) (\<lambda>st. Inr (str_null, st)))"

definition str_slice :: "str \<Rightarrow> usize \<Rightarrow> usize \<Rightarrow> str outcome" where
  "str_slice s start len =
     check (start \<le> s_length s) (check (start + len \<le> s_length s) (
     Inr \<lparr>s_data = s_data s + start, s_length = len, s_capacity = len, s_owned = False\<rparr>))"

definition str_equal :: "str \<Rightarrow> str \<Rightarrow> memory \<Rightarrow> bool outcome" where
  "str_equal a b m =
     (if s_length a \<noteq> s_length b then Inr False
      else rbind (memcmp (s_data a) (s_data b) (s_length a) m) (\<lambda>r. Inr (r = 0)))"

definition str_startswith :: "str \<Rightarrow> str \<Rightarrow> memory \<Rightarrow> bool outcome" where
  "str_startswith s prefix m =
     (if s_length prefix > s_length s then Inr False
      else rbind (memcmp (s_data s) (s_data prefix) (s_length prefix) m) (\<lambda>r. Inr (r = 0)))"

text \<open>The loop counts down; \<open>i\<close> is \<^verbatim>\<open>i\<close> and the byte looked at is the one before it.\<close>

fun rfind_loop :: "str \<Rightarrow> u8 \<Rightarrow> nat \<Rightarrow> memory \<Rightarrow> i64" where
  "rfind_loop s c 0 m = - 1"
| "rfind_loop s c (Suc i) m = (if m (s_data s + of_nat i) = c then of_nat i else rfind_loop s c i m)"

definition str_rfind :: "str \<Rightarrow> u8 \<Rightarrow> memory \<Rightarrow> i64" where
  "str_rfind s c m = rfind_loop s c (unat (s_length s)) m"

subsection \<open>Splitting\<close>

text \<open>Appending to the result: the array grows by one string each time.\<close>

definition split_push :: "('s, 'z) allocator_scheme \<Rightarrow> str \<Rightarrow> strv \<times> 's \<times> memory \<Rightarrow> (strv \<times> 's \<times> memory) outcome" where
  "split_push a item r =
     (case r of (sv, st) \<Rightarrow>
        let sv = sv\<lparr>sv_count := sv_count sv + 1\<rparr> in
        rbind (if sv_items sv = 0 then allocate_v a 1 STR_SIZE st
               else reallocate a (sv_items sv) ((sv_count sv - 1) * STR_SIZE) (sv_count sv * STR_SIZE) st) (\<lambda>(p, u, m).
        if p = 0 then Inl NullDeref
        else Inr (sv\<lparr>sv_items := p\<rparr>, u, store_str (p + (sv_count sv - 1) * STR_SIZE) item m)))"

text \<open>One turn of the loop, with the start of the current item.\<close>

definition split_turn :: "('s, 'z) allocator_scheme \<Rightarrow> str \<Rightarrow> str \<Rightarrow> usize \<Rightarrow> usize \<times> strv \<times> 's \<times> memory \<Rightarrow>
    (usize \<times> strv \<times> 's \<times> memory) outcome" where
  "split_turn a s delimiter i r =
     (case r of (start, sv, u, m) \<Rightarrow>
        rbind (memcmp (s_data s + i) (s_data delimiter) (s_length delimiter) m) (\<lambda>c.
        if c = 0
        then rbind (str_slice s start (i - start)) (\<lambda>item.
          rbind (split_push a item (sv, u, m)) (\<lambda>r. Inr (i + s_length delimiter, r)))
        else Inr r))"

partial_function (option) split_loop :: "('s, 'z) allocator_scheme \<Rightarrow> str \<Rightarrow> str \<Rightarrow> usize \<Rightarrow> usize \<times> strv \<times> 's \<times> memory \<Rightarrow>
    (usize \<times> strv \<times> 's \<times> memory) outcome option" where
  "split_loop a s delimiter i r =
     (if i + s_length delimiter \<le> s_length s
      then (case split_turn a s delimiter i r of
          Inl e \<Rightarrow> Some (Inl e)
        | Inr r \<Rightarrow> split_loop a s delimiter (i + 1) r)
      else Some (Inr r))"

definition str_split :: "('s, 'z) allocator_scheme \<Rightarrow> str \<Rightarrow> str \<Rightarrow> 's \<times> memory \<Rightarrow> (strv \<times> 's \<times> memory) outcome option" where
  "str_split a s delimiter st =
     (let result = \<lparr>sv_items = 0, sv_count = 0\<rparr> in
      if s_length s = 0 then Some (Inr (result, st))
      else if s_length delimiter = 0 then Some (Inr (result, st))
      else map_option (\<lambda>r. rbind r (\<lambda>(start, r).
        if start \<le> s_length s
        then rbind (str_slice s start (s_length s - start)) (\<lambda>item. split_push a item r)
        else Inr r)) (split_loop a s delimiter 0 (0, result, st)))"

definition strv_free_item :: "('s, 'z) allocator_scheme \<Rightarrow> uptr \<Rightarrow> nat \<Rightarrow> 's \<times> memory \<Rightarrow> ('s \<times> memory) outcome" where
  "strv_free_item a items i st =
     (let p = items + of_nat i * STR_SIZE; item = load_str (snd st) p in
      if s_owned item then rbind (str_free a item st) (\<lambda>(s, u, m). Inr (u, store_str p s m)) else Inr st)"

definition strv_free :: "('s, 'z) allocator_scheme \<Rightarrow> strv \<Rightarrow> 's \<times> memory \<Rightarrow> (strv \<times> 's \<times> memory) outcome" where
  "strv_free a sv st =
     rbind (for_r (strv_free_item a (sv_items sv)) [0..<unat (sv_count sv)] st) (\<lambda>st.
     rbind (deallocate a (sv_items sv) (sv_count sv * STR_SIZE) st) (\<lambda>st.
     Inr (\<lparr>sv_items = 0, sv_count = 0\<rparr>, st)))"

subsection \<open>Properties\<close>

definition str_bytes :: "memory \<Rightarrow> str \<Rightarrow> u8 list" where
  "str_bytes m s = bytes_at m (s_data s) (unat (s_length s))"

lemma bytes_at_take: "k \<le> n \<Longrightarrow> take k (bytes_at m a n) = bytes_at m a k"
  by (simp add: bytes_at_def take_map)

lemma bytes_at_drop: "drop k (bytes_at m a n) = bytes_at m (a + of_nat k) (n - k)"
  by (rule nth_equalityI) (simp_all add: add.assoc)

text \<open>Slices, comparison and search in terms of the bytes.\<close>

lemma str_slice_bytes:
  assumes "unat start + unat len \<le> unat (s_length s)"
  shows "\<exists>r. str_slice s start len = Inr r \<and> str_bytes m r = take (unat len) (drop (unat start) (str_bytes m s))"
proof -
  have "unat (start + len) = unat start + unat len" using assms unat_lt_u64[of "s_length s"] by (simp add: unat_add_u64)
  then show ?thesis using assms by (simp add: str_slice_def word_le_nat_alt str_bytes_def bytes_at_drop bytes_at_take)
qed

lemma str_equal_bytes:
  "s_data a \<noteq> 0 \<Longrightarrow> s_data b \<noteq> 0 \<Longrightarrow> str_equal a b m = Inr (str_bytes m a = str_bytes m b)"
  by (auto simp: str_equal_def memcmp_def memcmp_loop_eq cmp_bytes_0_iff str_bytes_def word_eq_iff_unat dest: arg_cong[where f = length])

lemma str_startswith_bytes:
  assumes "s_data s \<noteq> 0" "s_data pre \<noteq> 0"
  shows "str_startswith s pre m = Inr (\<exists>zs. str_bytes m s = str_bytes m pre @ zs)"
proof (cases "s_length pre > s_length s")
  case True
  then have "\<nexists>zs. str_bytes m s = str_bytes m pre @ zs" by (auto simp: str_bytes_def word_less_nat_alt dest: arg_cong[where f = length])
  then show ?thesis using True by (simp add: str_startswith_def)
next
  case False
  then have "take (unat (s_length pre)) (str_bytes m s) = bytes_at m (s_data s) (unat (s_length pre))"
    by (simp add: str_bytes_def bytes_at_take word_less_nat_alt)
  then have "(bytes_at m (s_data s) (unat (s_length pre)) = str_bytes m pre) = (\<exists>zs. str_bytes m s = str_bytes m pre @ zs)"
    by (metis append_eq_conv_conj append_take_drop_id length_bytes_at str_bytes_def)
  then show ?thesis using False assms
    by (simp add: str_startswith_def memcmp_def memcmp_loop_eq cmp_bytes_0_iff str_bytes_def[of m pre])
qed

end
