(* ===== verification/Format.thy ===== *)
theory Format
  imports Conv Str Lock
begin

section \<open>Formatted text (klibc/algo/format.c, the formatting part of klibc/mem/str.c, klibc/io/log.c)\<close>

text \<open>
  The formatter hands the text to a callback piece by piece. A piece is a string in memory that was passed as an argument, or bytes of
  the formatter's own (a literal, a character, the digits of a number), which are never at NULL. The format is the list of its bytes before
  the terminating zero. The arguments are a list with the type of each; taking one that was not passed or has another
  type is undefined in C and an error outcome here.
\<close>

datatype chunk = Local "u8 list" | Passed str

datatype va = VA_int u64 | VA_str str

definition va_int :: "va list \<Rightarrow> (u64 \<times> va list) outcome" where
  "va_int args = (case args of VA_int w # rest \<Rightarrow> Inr (w, rest) | _ \<Rightarrow> Inl OutOfBounds)"

definition va_str :: "va list \<Rightarrow> (str \<times> va list) outcome" where
  "va_str args = (case args of VA_str s # rest \<Rightarrow> Inr (s, rest) | _ \<Rightarrow> Inl OutOfBounds)"

definition ch :: "char \<Rightarrow> u8" where "ch c = of_char c"

definition lit :: "string \<Rightarrow> chunk" where "lit s = Local (map ch s)"

definition num_buf :: out_str where
  "num_buf = \<lparr>ob_data = replicate 65 0, ob_length = 0, ob_capacity = 65\<rparr>"

definition digits :: "u64 \<Rightarrow> i32 \<Rightarrow> chunk outcome" where
  "digits n base = rbind (itoa num_buf n base) (\<lambda>b. Inr (Local (take (unat (ob_length b)) (ob_data b))))"

subsection \<open>The pieces of one conversion\<close>

text \<open>What follows a percent sign: the pieces handed to the callback, in order, and the arguments that remain.\<close>

definition conversion :: "u8 \<Rightarrow> va list \<Rightarrow> (chunk list \<times> va list) outcome" where
  "conversion c args =
     (if c = ch CHR ''d'' then
        rbind (va_int args) (\<lambda>(ival, args).
        let negative = ival <s 0; uival = (if negative then - ival else ival) in
        rbind (digits uival 10) (\<lambda>n. Inr ((if negative then [lit ''-''] else []) @ [n], args)))
      else if c = ch CHR ''u'' then
        rbind (va_int args) (\<lambda>(uival, args). rbind (digits uival 10) (\<lambda>n. Inr ([n], args)))
      else if c = ch CHR ''b'' then
        rbind (va_int args) (\<lambda>(uival, args). rbind (digits uival 2) (\<lambda>n. Inr ([lit ''0b'', n], args)))
      else if c = ch CHR ''p'' then
        rbind (va_int args) (\<lambda>(uival, args). rbind (digits uival 16) (\<lambda>n. Inr ([lit ''*'', lit ''0x'', n], args)))
      else if c = ch CHR ''x'' \<or> c = ch CHR ''X'' then
        rbind (va_int args) (\<lambda>(uival, args). rbind (digits uival 16) (\<lambda>n. Inr ([lit ''0x'', n], args)))
      else if c = ch CHR ''s'' then
        rbind (va_str args) (\<lambda>(s, args). Inr ([Passed s], args))
      else if c = ch CHR ''c'' then
        rbind (va_int args) (\<lambda>(w, args). Inr ([Local [ucast w]], args))
      else if c = ch CHR ''%'' then Inr ([lit ''%''], args)
      else Inr ([lit ''%'', Local [c]], args))"

subsection \<open>The loop over the format\<close>

type_synonym 's consumer = "chunk \<Rightarrow> 's \<Rightarrow> 's outcome"

fun feed :: "'s consumer \<Rightarrow> chunk list \<Rightarrow> 's \<Rightarrow> 's outcome" where
  "feed consume [] s = Inr s"
| "feed consume (c # cs) s = rbind (consume c s) (feed consume cs)"

fun formatter_apply_v :: "'s consumer \<Rightarrow> u8 list \<Rightarrow> va list \<Rightarrow> 's \<Rightarrow> 's outcome" where
  "formatter_apply_v consume [] args s = Inr s"
| "formatter_apply_v consume (c # fmt) args s =
     (if c = ch CHR ''%''
      then (case fmt of
          [] \<Rightarrow> consume (lit ''%'') s
        | c' # fmt' \<Rightarrow>
            rbind (conversion c' args) (\<lambda>(cs, args).
            rbind (feed consume cs s) (formatter_apply_v consume fmt' args)))
      else rbind (consume (Local [c]) s) (formatter_apply_v consume fmt args))"

definition formatter_apply :: "'s consumer \<Rightarrow> u8 list \<Rightarrow> va list \<Rightarrow> 's \<Rightarrow> 's outcome" where
  "formatter_apply consume fmt args s = formatter_apply_v consume fmt args s"

subsection \<open>Formatting to a new string\<close>

definition chunk_length :: "chunk \<Rightarrow> usize" where
  "chunk_length c = (case c of Local bs \<Rightarrow> of_nat (length bs) | Passed s \<Rightarrow> s_length s)"

definition chunk_bytes :: "memory \<Rightarrow> chunk \<Rightarrow> u8 list" where
  "chunk_bytes m c = (case c of Local bs \<Rightarrow> bs | Passed s \<Rightarrow> str_bytes m s)"

text \<open>\<^verbatim>\<open>memcpy\<close> from a piece.\<close>

definition write_bytes :: "uptr \<Rightarrow> u8 list \<Rightarrow> memory \<Rightarrow> memory" where
  "write_bytes dst bs m = fold (\<lambda>i m. m(dst + of_nat i := bs ! i)) [0..<length bs] m"

definition memcpy_chunk :: "uptr \<Rightarrow> chunk \<Rightarrow> memory \<Rightarrow> memory outcome" where
  "memcpy_chunk dst c m =
     (case c of
        Local bs \<Rightarrow> check (dst \<noteq> 0) (Inr (write_bytes dst bs m))
      | Passed s \<Rightarrow> rbind (memcpy dst (s_data s) (s_length s) m) (\<lambda>(_, m). Inr m))"

definition len_formatter :: "(usize \<times> memory) consumer" where
  "len_formatter c st = (case st of (sz, m) \<Rightarrow> Inr (sz + chunk_length c, m))"

definition copy_formatter :: "(str \<times> memory) consumer" where
  "copy_formatter c st =
     (case st of (dest, m) \<Rightarrow>
        check (s_capacity dest - s_length dest \<ge> chunk_length c) (
        rbind (memcpy_chunk (s_data dest + s_length dest) c m) (\<lambda>m.
        Inr (dest\<lparr>s_length := s_length dest + chunk_length c\<rparr>, m))))"

definition str_vformat :: "('s, 'z) allocator_scheme \<Rightarrow> u8 list \<Rightarrow> va list \<Rightarrow> 's \<times> memory \<Rightarrow> (str \<times> 's \<times> memory) outcome" where
  "str_vformat a fmt args st =
     rbind (formatter_apply_v len_formatter fmt args (0, snd st)) (\<lambda>(len, _).
     rbind (allocate_v a len 1 st) (\<lambda>(p, u, m).
     let s = \<lparr>s_data = p, s_length = 0, s_capacity = len, s_owned = True\<rparr> in
     rbind (formatter_apply_v copy_formatter fmt args (s, m)) (\<lambda>(s, m). Inr (s, u, m))))"

definition str_format :: "('s, 'z) allocator_scheme \<Rightarrow> u8 list \<Rightarrow> va list \<Rightarrow> 's \<times> memory \<Rightarrow> (str \<times> 's \<times> memory) outcome" where
  "str_format a fmt args st = str_vformat a fmt args st"

subsection \<open>The kernel log\<close>

text \<open>The console is the parameter \<open>console_write\<close>; the log's own state is its lock.\<close>

definition klogger_init :: "spinlock \<Rightarrow> spinlock" where
  "klogger_init l = spinlock_init l"

definition log_formatter :: "'s consumer \<Rightarrow> 's consumer" where
  "log_formatter console_write c s = console_write c s"

definition vklog :: "'s consumer \<Rightarrow> u8 list \<Rightarrow> va list \<Rightarrow> spinlock \<times> 's \<Rightarrow> (spinlock \<times> 's) outcome" where
  "vklog console_write fmt args st =
     (case st of (log_lock, s) \<Rightarrow>
        rbind (spinlock_acquire log_lock) (\<lambda>log_lock.
        rbind (formatter_apply_v (log_formatter console_write) fmt args s) (\<lambda>s.
        rbind (console_write (Local [13, 10]) s) (\<lambda>s.
        Inr (spinlock_release log_lock, s)))))"

definition klog :: "'s consumer \<Rightarrow> u8 list \<Rightarrow> va list \<Rightarrow> spinlock \<times> 's \<Rightarrow> (spinlock \<times> 's) outcome" where
  "klog console_write fmt args st = vklog console_write fmt args st"

end
