(* ===== verification/Format_Props.thy ===== *)
theory Format_Props
  imports Format
begin

section \<open>Properties of formatted text\<close>

subsection \<open>The pieces of a format\<close>

text \<open>The pieces do not depend on who consumes them: the formatter feeds the consumer this list.\<close>

fun fmt_chunks :: "u8 list \<Rightarrow> va list \<Rightarrow> chunk list outcome" where
  "fmt_chunks [] args = Inr []"
| "fmt_chunks (c # fmt) args =
     (if c = ch CHR ''%''
      then (case fmt of
          [] \<Rightarrow> Inr [lit ''%'']
        | c' # fmt' \<Rightarrow>
            rbind (conversion c' args) (\<lambda>(cs, args). rbind (fmt_chunks fmt' args) (\<lambda>ds. Inr (cs @ ds))))
      else rbind (fmt_chunks fmt args) (\<lambda>ds. Inr (Local [c] # ds)))"

lemma feed_append: "feed consume (cs @ ds) s = rbind (feed consume cs s) (feed consume ds)"
  by (induction cs arbitrary: s) (auto simp: rbind_def split: sum.splits)

lemma formatter_apply_v_eq:
  "fmt_chunks fmt args = Inr cs \<Longrightarrow> formatter_apply_v consume fmt args s = feed consume cs s"
proof (induction fmt args arbitrary: cs s rule: fmt_chunks.induct)
  case (2 c fmt args)
  show ?case
  proof (cases "c = ch CHR ''%''")
    case True
    show ?thesis
    proof (cases fmt)
      case Nil
      then show ?thesis using 2(3) True by (auto simp: rbind_def split: sum.splits)
    next
      case (Cons c' fmt')
      then obtain ds args' es where d: "conversion c' args = Inr (ds, args')" "fmt_chunks fmt' args' = Inr es" "cs = ds @ es"
        using 2(3) True by (auto simp: outcome_simps)
      have "formatter_apply_v consume fmt' args' = feed consume es"
        using 2(1)[OF True Cons d(1)] d(2) by (intro ext) simp
      then show ?thesis using True Cons d by (simp add: feed_append)
    qed
  next
    case False
    then obtain ds where d: "fmt_chunks fmt args = Inr ds" "cs = Local [c] # ds" using 2(3) by (auto simp: outcome_simps)
    then have "formatter_apply_v consume fmt args = feed consume ds" using 2(2)[OF False] by (intro ext) simp
    then show ?thesis using False d(2) by simp
  qed
qed simp

subsection \<open>Copying the pieces\<close>

definition text_of :: "memory \<Rightarrow> chunk list \<Rightarrow> u8 list" where
  "text_of m cs = concat (map (chunk_bytes m) cs)"

lemma text_of_simps [simp]: "text_of m [] = []" "text_of m (c # cs) = chunk_bytes m c @ text_of m cs"
  by (simp_all add: text_of_def)

lemma chunk_length_bytes: "chunk_length c = of_nat (length (chunk_bytes m c))"
  by (cases c) (simp_all add: chunk_length_def chunk_bytes_def str_bytes_def)

lemma feed_len: "feed len_formatter cs (sz, m) = Inr (sz + of_nat (length (text_of m cs)), m)"
  by (induction cs arbitrary: sz) (simp_all add: len_formatter_def chunk_length_bytes[of _ m] add.assoc)

lemma write_bytes_append: "write_bytes dst (bs @ cs) m = write_bytes (dst + of_nat (length bs)) cs (write_bytes dst bs m)"
proof -
  have u: "[0..<length bs + length cs] = [0..<length bs] @ map (\<lambda>i. length bs + i) [0..<length cs]"
    by (simp add: upt_add_eq_append[of 0] map_add_upt add.commute)
  have "fold (\<lambda>i m. m(dst + of_nat i := (bs @ cs) ! i)) [0..<length bs] m = fold (\<lambda>i m. m(dst + of_nat i := bs ! i)) [0..<length bs] m"
    by (rule fold_cong) (simp_all add: nth_append)
  then show ?thesis unfolding write_bytes_def length_append u fold_append
    by (simp add: fold_map comp_def nth_append add.assoc)
qed

lemma write_bytes_eq: "length bs \<le> 2 ^ 64 \<Longrightarrow> write_bytes dst bs m = (\<lambda>x. if in_range dst (length bs) x then bs ! unat (x - dst) else m x)"
proof (induction bs rule: rev_induct)
  case (snoc b bs)
  then have "unat (of_nat (length bs) :: u64) = length bs" by (simp add: unat_of_nat_u64)
  moreover have "in_range dst (length bs) x \<Longrightarrow> unat (x - dst) < length bs" for x by (simp add: in_range_def)
  moreover have "\<not> in_range dst (length bs) (dst + of_nat (length bs))" using calculation(1) by (simp add: in_range_def)
  ultimately show ?case using snoc
    by (auto simp: write_bytes_append fun_eq_iff in_range_Suc nth_append write_bytes_def[of _ "[b]"])
qed (simp add: write_bytes_def)

text \<open>A piece whose source is not in the destination.\<close>

definition chunk_off :: "uptr \<Rightarrow> nat \<Rightarrow> chunk \<Rightarrow> bool" where
  "chunk_off p n c \<longleftrightarrow> (case c of Local bs \<Rightarrow> True
     | Passed s \<Rightarrow> s_data s \<noteq> 0 \<and> (\<forall>i < unat (s_length s). \<not> in_range p n (s_data s + of_nat i)))"

lemma chunk_bytes_cong: "chunk_off p n c \<Longrightarrow> (\<And>x. \<not> in_range p n x \<Longrightarrow> m' x = m x) \<Longrightarrow> chunk_bytes m' c = chunk_bytes m c"
  by (cases c) (auto simp: chunk_bytes_def chunk_off_def str_bytes_def intro!: bytes_at_cong)

lemma memcpy_chunk_eq:
  assumes "chunk_off p n c" "dst \<noteq> 0" "\<And>i. i < length (chunk_bytes m c) \<Longrightarrow> in_range p n (dst + of_nat i)"
  shows "memcpy_chunk dst c m = Inr (write_bytes dst (chunk_bytes m c) m)"
proof (cases c)
  case (Passed s)
  have "s_data s + of_nat j \<noteq> dst + of_nat i" if "i < unat (s_length s)" "j < unat (s_length s)" for i j
    using assms(1,3) that Passed by (auto simp: chunk_off_def chunk_bytes_def str_bytes_def)
  then have "memcpy dst (s_data s) (s_length s) m = Inr (dst, copied m dst (s_data s) (unat (s_length s)))"
    using assms(1,2) Passed by (intro memcpy_eq) (auto simp: chunk_off_def)
  moreover have "copied m dst (s_data s) (unat (s_length s)) = write_bytes dst (chunk_bytes m c) m"
    using Passed unat_lt_u64[of "s_length s"]
    by (auto simp: write_bytes_eq chunk_bytes_def str_bytes_def copied_def fun_eq_iff in_range_def)
  ultimately show ?thesis using Passed by (simp add: memcpy_chunk_def)
qed (use assms(2) in \<open>simp add: memcpy_chunk_def chunk_bytes_def\<close>)

lemma feed_copy:
  assumes "\<forall>c\<in>set cs. chunk_off p n c" "k + length (text_of m cs) \<le> n" "p \<noteq> 0" "unat p + n < 2 ^ 64" "n < 2 ^ 64"
    and "\<And>x. \<not> in_range p n x \<Longrightarrow> m1 x = m x"
  shows "feed copy_formatter cs (\<lparr>s_data = p, s_length = of_nat k, s_capacity = of_nat n, s_owned = True\<rparr>, m1) =
    Inr (\<lparr>s_data = p, s_length = of_nat (k + length (text_of m cs)), s_capacity = of_nat n, s_owned = True\<rparr>,
      write_bytes (p + of_nat k) (text_of m cs) m1)"
  using assms(1,2,6)
proof (induction cs arbitrary: k m1)
  case Nil
  then show ?case by (simp add: write_bytes_def)
next
  case (Cons c cs)
  let ?b = "chunk_bytes m c"
  have b: "chunk_bytes m1 c = ?b" using Cons.prems by (intro chunk_bytes_cong) auto
  have k: "k + length ?b \<le> n" using Cons.prems(2) by simp
  have u: "unat (of_nat k :: u64) = k" "unat (of_nat n :: u64) = n" "unat (of_nat (length ?b) :: u64) = length ?b"
    using k assms(5) by (simp_all add: unat_of_nat_u64)
  have in_r: "in_range p n (p + of_nat k + of_nat i)" if "i < length ?b" for i
    using in_range_add[of "k + i" n p] that k assms(5) by (simp add: add.assoc)
  have cap: "chunk_length c \<le> of_nat n - of_nat k"
    using k u by (simp add: word_le_nat_alt chunk_length_bytes[of c m] unat_sub_u64)
  have step: "copy_formatter c (\<lparr>s_data = p, s_length = of_nat k, s_capacity = of_nat n, s_owned = True\<rparr>, m1) =
      Inr (\<lparr>s_data = p, s_length = of_nat (k + length ?b), s_capacity = of_nat n, s_owned = True\<rparr>, write_bytes (p + of_nat k) ?b m1)"
  proof -
    have "memcpy_chunk (p + of_nat k) c m1 = Inr (write_bytes (p + of_nat k) ?b m1)"
    proof -
      have "unat (p + of_nat k) = unat p + k" using k u assms(4) by (simp add: unat_add_u64)
      then have "p + of_nat k \<noteq> 0" using assms(3) by (auto simp: word_eq_iff_unat)
      then show ?thesis using memcpy_chunk_eq[of p n c "p + of_nat k" m1] Cons.prems(1) in_r b by simp
    qed
    then show ?thesis using cap by (simp add: copy_formatter_def chunk_length_bytes[of c m])
  qed
  have "write_bytes (p + of_nat k) ?b m1 x = m x" if "\<not> in_range p n x" for x
  proof -
    have "\<not> in_range (p + of_nat k) (length ?b) x"
    proof
      assume "in_range (p + of_nat k) (length ?b) x"
      then have "unat (x - (p + of_nat k)) < length ?b" by (simp add: in_range_def)
      moreover have "x = p + of_nat k + of_nat (unat (x - (p + of_nat k)))" by simp
      ultimately show False using in_r that by metis
    qed
    then show ?thesis using k assms(5) Cons.prems(3) that by (simp add: write_bytes_eq)
  qed
  then have "feed copy_formatter cs (\<lparr>s_data = p, s_length = of_nat (k + length ?b), s_capacity = of_nat n, s_owned = True\<rparr>, write_bytes (p + of_nat k) ?b m1) =
    Inr (\<lparr>s_data = p, s_length = of_nat (k + length ?b + length (text_of m cs)), s_capacity = of_nat n, s_owned = True\<rparr>,
      write_bytes (p + of_nat (k + length ?b)) (text_of m cs) (write_bytes (p + of_nat k) ?b m1))"
    using Cons.prems by (intro Cons.IH) auto
  then show ?case using step by (simp add: write_bytes_append add.assoc)
qed



end
