(* ===== verification/VfsPath.thy ===== *)
theory VfsPath
  imports Str
begin

section \<open>Paths of the file system library (libs/vfs/src/path.c)\<close>

text \<open>
  A path is a length and an array of \<^verbatim>\<open>VFS_PATH_MAX\<close> bytes, passed by value. An access outside the array is undefined in C and an error
  outcome. \<open>None\<close> is the early return of \<^verbatim>\<open>vfs_path_null()\<close>.

  \<^verbatim>\<open>vfs_path_as_str\<close> returns a pointer to its own parameter, so \<^verbatim>\<open>vfs_path_normalize\<close> looks for \<^verbatim>\<open>..\<close> in an object whose
  lifetime has ended. What these bytes are is not determined by the source: they are the parameter \<open>ended\<close> of the model, and what is
  proved of the function assumes that they are still those of the path.
\<close>

definition VFS_PATH_MAX :: nat where "VFS_PATH_MAX = 4096"

record vfs_path =
  vp_length :: usize
  vp_data :: "u8 list"

definition vfs_path_null :: vfs_path where
  "vfs_path_null = \<lparr>vp_length = 0, vp_data = replicate VFS_PATH_MAX 0\<rparr>"

definition sl :: u8 where "sl = 47"
definition dot :: u8 where "dot = 46"

definition arr_get :: "u8 list \<Rightarrow> nat \<Rightarrow> u8 outcome" where
  "arr_get d i = (if i < length d then Inr (d ! i) else Inl OutOfBounds)"

definition arr_put :: "nat \<Rightarrow> u8 \<Rightarrow> u8 list \<Rightarrow> u8 list outcome" where
  "arr_put i c d = (if i < length d then Inr (d[i := c]) else Inl OutOfBounds)"

text \<open>\<^verbatim>\<open>result.data[w - 1]\<close>\<close>

definition arr_prev :: "u8 list \<Rightarrow> nat \<Rightarrow> u8 outcome" where
  "arr_prev d w = (if w = 0 then Inl OutOfBounds else arr_get d (w - 1))"

text \<open>The end of the component that starts at \<open>r\<close>.\<close>

function comp_end :: "vfs_path \<Rightarrow> nat \<Rightarrow> nat outcome" where
  "comp_end path r =
     (if r < unat (vp_length path)
      then rbind (arr_get (vp_data path) r) (\<lambda>c. if c \<noteq> sl then comp_end path (r + 1) else Inr r)
      else Inr r)"
  by auto

termination comp_end
  by (relation "measure (\<lambda>(path, r). unat (vp_length path) - r)") auto

declare comp_end.simps [simp del]

text \<open>Back to the slash in front of the last component.\<close>

fun pop_loop :: "u8 list \<Rightarrow> nat \<Rightarrow> nat outcome" where
  "pop_loop d w = (if w > 1 then rbind (arr_prev d w) (\<lambda>c. if c \<noteq> sl then pop_loop d (w - 1) else Inr w) else Inr w)"

declare pop_loop.simps [simp del]

definition copy_comp :: "vfs_path \<Rightarrow> nat \<Rightarrow> nat \<Rightarrow> nat \<times> u8 list \<Rightarrow> (nat \<times> u8 list) outcome" where
  "copy_comp path start len st =
     for_r (\<lambda>i (w, d). rbind (arr_get (vp_data path) (start + i)) (\<lambda>c. rbind (arr_put w c d) (\<lambda>d. Inr (w + 1, d)))) [0..<len] st"

text \<open>Appending a slash, or giving up when the array is full.\<close>

definition put_slash :: "nat \<times> u8 list \<Rightarrow> (nat \<times> u8 list) option outcome" where
  "put_slash st =
     (case st of (w, d) \<Rightarrow> if w \<ge> VFS_PATH_MAX - 1 then Inr None else rbind (arr_put w sl d) (\<lambda>d. Inr (Some (w + 1, d))))"

text \<open>What is done with the component \<open>start\<close>, of \<open>len\<close> bytes.\<close>

definition is_dotdot :: "(vfs_path \<Rightarrow> u8 list) \<Rightarrow> vfs_path \<Rightarrow> nat \<Rightarrow> nat \<Rightarrow> bool" where
  "is_dotdot ended path start len \<longleftrightarrow> len = 2 \<and> take len (drop start (ended path)) = [dot, dot]"

definition normalize_comp :: "(vfs_path \<Rightarrow> u8 list) \<Rightarrow> vfs_path \<Rightarrow> nat \<Rightarrow> nat \<Rightarrow> nat \<times> u8 list \<Rightarrow> (nat \<times> u8 list) option outcome" where
  "normalize_comp ended path start len st =
     (case st of (w, d) \<Rightarrow>
        rbind (if len = 1 then arr_get (vp_data path) start else Inr 0) (\<lambda>c.
        if len = 1 \<and> c = dot then Inr (Some (w, d))
        else if is_dotdot ended path start len
        then (if w > 1 then rbind (pop_loop d (w - 1)) (\<lambda>w. Inr (Some (w, d))) else Inr (Some (w, d)))
        else
          rbind (arr_prev d w) (\<lambda>c.
          rbind (if c \<noteq> sl then put_slash (w, d) else Inr (Some (w, d))) (\<lambda>r.
          case r of
            None \<Rightarrow> Inr None
          | Some (w, d) \<Rightarrow>
              if w + len \<ge> VFS_PATH_MAX then Inr None
              else rbind (copy_comp path start len (w, d)) (\<lambda>st. Inr (Some st))))))"

lemma comp_end_ge: "comp_end path r = Inr e \<Longrightarrow> r \<le> e"
  by (induction path r rule: comp_end.induct) (subst (asm) (2) comp_end.simps, auto simp: outcome_simps split: if_splits)

lemma comp_end_gt:
  "r < unat (vp_length path) \<Longrightarrow> arr_get (vp_data path) r = Inr c \<Longrightarrow> c \<noteq> sl \<Longrightarrow> comp_end path r = Inr e \<Longrightarrow> r < e"
  using comp_end_ge[of path "r + 1" e] by (subst (asm) comp_end.simps) simp

text \<open>The main loop, and the function around it.\<close>

function normalize_loop :: "(vfs_path \<Rightarrow> u8 list) \<Rightarrow> vfs_path \<Rightarrow> nat \<Rightarrow> nat \<times> u8 list \<Rightarrow> (nat \<times> u8 list) option outcome" where
  "normalize_loop ended path r st =
     (if r < unat (vp_length path)
      then
        rbind (arr_get (vp_data path) r) (\<lambda>c.
        if c = sl
        then
          rbind (case st of (w, d) \<Rightarrow> if w = 0 then put_slash (w, d)
                   else rbind (arr_prev d w) (\<lambda>c. if c \<noteq> sl then put_slash (w, d) else Inr (Some (w, d)))) (\<lambda>o'.
          case o' of None \<Rightarrow> Inr None | Some st \<Rightarrow> normalize_loop ended path (r + 1) st)
        else
          rbind (comp_end path r) (\<lambda>e.
          rbind (normalize_comp ended path r (e - r) st) (\<lambda>o'.
          case o' of None \<Rightarrow> Inr None | Some st \<Rightarrow> normalize_loop ended path e st)))
      else Inr (Some st))"
  by auto

termination normalize_loop
proof (relation "measure (\<lambda>(_, path, r, _). unat (vp_length path) - r)", goal_cases)
  case (3 ended path r st c e o' st')
  then show ?case using comp_end_gt[of r path c e] by simp
qed simp_all

declare normalize_loop.simps [simp del]

definition vfs_path_normalize :: "(vfs_path \<Rightarrow> u8 list) \<Rightarrow> vfs_path \<Rightarrow> vfs_path outcome" where
  "vfs_path_normalize ended path =
     check (vp_length path > 0)
     (rbind (arr_get (vp_data path) 0) (\<lambda>c. check (c = sl)
     (rbind (normalize_loop ended path 0 (0, replicate VFS_PATH_MAX 0)) (\<lambda>o'.
      case o' of
        None \<Rightarrow> Inr vfs_path_null
      | Some (w, d) \<Rightarrow>
          rbind (if w > 1 then arr_prev d w else Inr 0) (\<lambda>c.
          let w = (if w > 1 \<and> c = sl then w - 1 else w) in
          rbind (if w = 0 then rbind (arr_put w sl d) (\<lambda>d. Inr (w + 1, d)) else Inr (w, d)) (\<lambda>(w, d).
          Inr \<lparr>vp_length = of_nat w, vp_data = d\<rparr>))))))"

text \<open>The view of a path; the pointer is to the bytes described above.\<close>

definition vfs_path_as_str :: "uptr \<Rightarrow> vfs_path \<Rightarrow> str" where
  "vfs_path_as_str param path = \<lparr>s_data = param, s_length = vp_length path, s_capacity = of_nat VFS_PATH_MAX, s_owned = False\<rparr>"

end
