(* ===== verification/VfsPath_Props.thy ===== *)
theory VfsPath_Props
  imports VfsPath
begin

section \<open>Path normalisation is what it should be\<close>

subsection \<open>Specification\<close>

text \<open>
  The components of a path are the longest pieces without a slash; \<open>.\<close> is dropped and \<open>..\<close> drops the component before it, if there is
  one; the result is written with one slash in front of each component, and the root as a slash.
\<close>

function comps :: "u8 list \<Rightarrow> u8 list list" where
  "comps [] = []"
| "comps (c # cs) = (if c = sl then comps cs else takeWhile (\<lambda>c. c \<noteq> sl) (c # cs) # comps (dropWhile (\<lambda>c. c \<noteq> sl) (c # cs)))"
  by pat_completeness auto

termination comps
  by (relation "measure length") (auto simp: le_imp_less_Suc length_dropWhile_le)

definition path_step :: "u8 list list \<Rightarrow> u8 list \<Rightarrow> u8 list list" where
  "path_step st c = (if c = [dot] then st else if c = [dot, dot] then butlast st else st @ [c])"

definition norm_comps :: "u8 list list \<Rightarrow> u8 list list" where
  "norm_comps cs = foldl path_step [] cs"

definition render :: "u8 list list \<Rightarrow> u8 list" where
  "render st = (if st = [] then [sl] else concat (map (\<lambda>c. sl # c) st))"

text \<open>A component, and the text with a slash behind each component.\<close>

definition proper :: "u8 list \<Rightarrow> bool" where
  "proper c \<longleftrightarrow> c \<noteq> [] \<and> sl \<notin> set c \<and> c \<noteq> [dot] \<and> c \<noteq> [dot, dot]"

definition dirform :: "u8 list list \<Rightarrow> u8 list" where
  "dirform st = sl # concat (map (\<lambda>c. c @ [sl]) st)"

lemma dirform_simps [simp]: "dirform [] = [sl]" "dirform (st @ [c]) = dirform st @ c @ [sl]" "dirform st \<noteq> []" "last (dirform st) = sl"
  "length (dirform st) > 0"
  by (simp_all add: dirform_def) (induction st rule: rev_induct, auto)

lemma dirform_render: "dirform st = (if st = [] then render st else render st @ [sl])"
proof (induction st rule: rev_induct)
  case (snoc c st)
  then show ?case using dirform_simps(2)[of st c] by (cases "st = []") (simp_all add: render_def)
qed (simp add: render_def)

lemma path_step_proper: "\<forall>c\<in>set st. proper c \<Longrightarrow> c \<noteq> [] \<Longrightarrow> sl \<notin> set c \<Longrightarrow> \<forall>c\<in>set (path_step st c). proper c"
  by (auto simp: path_step_def proper_def dest: in_set_butlastD)

lemma comps_no_slash: "c \<in> set (comps xs) \<Longrightarrow> c \<noteq> [] \<and> sl \<notin> set c"
  by (induction xs rule: comps.induct) (auto split: if_splits dest: set_takeWhileD)

lemma comps_slash: "comps (sl # xs) = comps xs"
  by simp

lemma comps_component:
  assumes "c \<noteq> []" "sl \<notin> set c" "xs = [] \<or> hd xs = sl"
  shows "comps (c @ xs) = c # comps xs"
proof -
  obtain a as where c: "c = a # as" using assms(1) by (cases c) auto
  have t: "takeWhile (\<lambda>c. c \<noteq> sl) (c @ xs) = c" "dropWhile (\<lambda>c. c \<noteq> sl) (c @ xs) = xs"
    using assms(2,3) by (auto simp: takeWhile_append dropWhile_append takeWhile_eq_all_conv dropWhile_eq_Nil_conv) (cases xs, auto)+
  have "a \<noteq> sl" using assms(2) c by auto
  then show ?thesis using t unfolding c by simp
qed

subsection \<open>The loops\<close>

lemma comp_end_eq:
  assumes "unat (vp_length path) \<le> length (vp_data path)" "r \<le> unat (vp_length path)"
  shows "comp_end path r = Inr (r + length (takeWhile (\<lambda>c. c \<noteq> sl) (drop r (take (unat (vp_length path)) (vp_data path)))))"
  using assms
proof (induction path r rule: comp_end.induct)
  case (1 path r)
  show ?case
  proof (cases "r < unat (vp_length path)")
    case True
    then have d: "drop r (take (unat (vp_length path)) (vp_data path)) =
        vp_data path ! r # drop (r + 1) (take (unat (vp_length path)) (vp_data path))"
      using 1(2) by (subst Cons_nth_drop_Suc[symmetric]) auto
    show ?thesis using 1 True by (subst comp_end.simps) (auto simp: arr_get_def d)
  qed (use 1 in \<open>subst comp_end.simps, simp\<close>)
qed

lemma nth_before: "0 < w \<Longrightarrow> w \<le> length d \<Longrightarrow> d ! (w - 1) = last (take w d)"
  by (subst last_conv_nth) auto

text \<open>Going back over a component.\<close>

lemma pop_loop_eq:
  assumes "w \<le> length d" "take w d = dirform st @ c" "sl \<notin> set c"
  shows "pop_loop d w = Inr (length (dirform st))"
  using assms
proof (induction c arbitrary: w rule: rev_induct)
  case Nil
  then have w: "w = length (dirform st)" by (metis append_Nil2 length_take min.absorb2)
  show ?case
  proof (cases "w > 1")
    case True
    have "d ! (w - 1) = last (take w d)" using True Nil(1) by (intro nth_before) auto
    then have "d ! (w - 1) = sl" using Nil(2) by simp
    then show ?thesis using True Nil(1) w by (subst pop_loop.simps) (simp add: arr_prev_def arr_get_def)
  next
    case False
    then show ?thesis using w by (subst pop_loop.simps) simp
  qed
next
  case (snoc x c)
  have w: "w = length (dirform st) + length c + 1" using arg_cong[OF snoc(3), of length] snoc(2) by simp
  have "take (w - 1) d = dirform st @ c" using arg_cong[OF snoc(3), of butlast] snoc(2) w by (simp add: butlast_take butlast_append)
  then have IH: "pop_loop d (w - 1) = Inr (length (dirform st))" using snoc by simp
  have "w > 1" using w dirform_simps(5)[of st] by linarith
  have "d ! (w - 1) = last (take w d)" using \<open>w > 1\<close> snoc(2) by (intro nth_before) auto
  then have "d ! (w - 1) = x" using snoc(3) by simp
  then have "arr_prev d w = Inr x" using \<open>w > 1\<close> snoc(2) by (simp add: arr_prev_def arr_get_def)
  then show ?case using IH \<open>w > 1\<close> snoc(4) by (subst pop_loop.simps) auto
qed

lemma copy_comp_eq:
  assumes "start + len \<le> length (vp_data path)" "w + len \<le> length d"
  shows "\<exists>d'. copy_comp path start len (w, d) = Inr (w + len, d') \<and> length d' = length d \<and>
    take (w + len) d' = take w d @ take len (drop start (vp_data path))"
proof -
  have "\<exists>st. copy_comp path start len (w, d) = Inr st \<and>
      (case st of (w', d') \<Rightarrow> w' = w + len \<and> length d' = length d \<and> take (w + len) d' = take w d @ take len (drop start (vp_data path)))"
    unfolding copy_comp_def
  proof (rule for_r_rule)
    fix k and st :: "nat \<times> u8 list"
    assume k: "k < len" and "case st of (w', d') \<Rightarrow> w' = w + k \<and> length d' = length d \<and> take (w + k) d' = take w d @ take k (drop start (vp_data path))"
    then obtain d' where d': "st = (w + k, d')" "length d' = length d" "take (w + k) d' = take w d @ take k (drop start (vp_data path))"
      by (cases st) auto
    let ?c = "vp_data path ! (start + k)"
    have "take (w + Suc k) (d'[w + k := ?c]) = take (w + k) d' @ [?c]"
      using k assms(2) d'(2) by (simp add: take_Suc_conv_app_nth)
    moreover have "take (Suc k) (drop start (vp_data path)) = take k (drop start (vp_data path)) @ [?c]"
      using k assms(1) by (simp add: take_Suc_conv_app_nth)
    ultimately show "\<exists>s'. (case st of (w, d) \<Rightarrow> rbind (arr_get (vp_data path) (start + k)) (\<lambda>c. rbind (arr_put w c d) (\<lambda>d. Inr (w + 1, d)))) = Inr s' \<and>
        (case s' of (w', d') \<Rightarrow> w' = w + Suc k \<and> length d' = length d \<and> take (w + Suc k) d' = take w d @ take (Suc k) (drop start (vp_data path)))"
      using k assms d' by (simp add: arr_get_def arr_put_def)
  qed simp
  then show ?thesis by auto
qed

subsection \<open>The main loop\<close>

text \<open>
  What the first \<open>w\<close> bytes of the result hold when \<open>r\<close> bytes are read: the components so far with a slash behind each, or without the
  last slash if a component was just copied, and then the next byte is a slash. The result is never longer than what was read.
\<close>

definition path_text :: "vfs_path \<Rightarrow> u8 list" where
  "path_text path = take (unat (vp_length path)) (vp_data path)"

definition norm_inv :: "vfs_path \<Rightarrow> nat \<Rightarrow> u8 list list \<Rightarrow> nat \<times> u8 list \<Rightarrow> bool" where
  "norm_inv path r st wd \<longleftrightarrow> (case wd of (w, d) \<Rightarrow>
     length d = VFS_PATH_MAX \<and> w \<le> r \<and> r \<le> length (path_text path) \<and> (\<forall>c\<in>set st. proper c) \<and>
     (take w d = dirform st \<or>
      st \<noteq> [] \<and> take w d @ [sl] = dirform st \<and> (r = length (path_text path) \<or> path_text path ! r = sl)))"

definition short_path :: "(vfs_path \<Rightarrow> u8 list) \<Rightarrow> vfs_path \<Rightarrow> bool" where
  "short_path ended path \<longleftrightarrow> unat (vp_length path) < VFS_PATH_MAX \<and> length (vp_data path) = VFS_PATH_MAX \<and> ended path = vp_data path"

lemma short_path_facts:
  assumes "short_path ended path"
  shows "length (path_text path) = unat (vp_length path)" "length (path_text path) < VFS_PATH_MAX" "length (vp_data path) = VFS_PATH_MAX"
    "r < length (path_text path) \<Longrightarrow> arr_get (vp_data path) r = Inr (path_text path ! r)"
  using assms by (auto simp: short_path_def path_text_def arr_get_def)

lemma norm_slash:
  assumes "short_path ended path" "norm_inv path r st (w, d)" "r < length (path_text path)" "path_text path ! r = sl"
  shows "\<exists>wd. (if w = 0 then put_slash (w, d) else rbind (arr_prev d w) (\<lambda>c. if c \<noteq> sl then put_slash (w, d) else Inr (Some (w, d)))) = Inr (Some wd) \<and>
    norm_inv path (r + 1) st wd"
proof -
  have i: "length d = VFS_PATH_MAX" "w \<le> r" "\<forall>c\<in>set st. proper c" using assms(2) by (auto simp: norm_inv_def)
  have w: "w < VFS_PATH_MAX - 1" using i(2) assms(3) short_path_facts(2)[OF assms(1)] by linarith
  consider "take w d = dirform st" | "st \<noteq> []" "take w d @ [sl] = dirform st" using assms(2) by (auto simp: norm_inv_def)
  then show ?thesis
  proof cases
    case 1
    then have "0 < w" using dirform_simps(3)[of st] by (cases w) auto
    then have "d ! (w - 1) = sl" using nth_before[of w d] 1 w i(1) by simp
    then have "arr_prev d w = Inr sl" using \<open>0 < w\<close> w i(1) by (simp add: arr_prev_def arr_get_def)
    then show ?thesis using \<open>0 < w\<close> 1 i assms(3) by (simp add: norm_inv_def)
  next
    case 2
    then obtain st' c where st: "st = st' @ [c]" by (cases st rule: rev_cases) auto
    then have c: "c \<noteq> []" "sl \<notin> set c" using i(3) by (auto simp: proper_def)
    have t: "take w d = dirform st' @ c" using 2(2) st by simp
    have "0 < w" using t c(1) by (cases w) auto
    have "d ! (w - 1) = last c" using nth_before[of w d] t c(1) \<open>0 < w\<close> w i(1) by simp
    then have "arr_prev d w = Inr (last c)" using \<open>0 < w\<close> w i(1) by (simp add: arr_prev_def arr_get_def)
    moreover have "last c \<noteq> sl" using last_in_set[OF c(1)] c(2) by metis
    moreover have "put_slash (w, d) = Inr (Some (w + 1, d[w := sl]))" using w i(1) by (simp add: put_slash_def arr_put_def)
    moreover have "take (w + 1) (d[w := sl]) = dirform st" using 2(2) w i(1) by (simp add: take_Suc_conv_app_nth)
    ultimately show ?thesis using \<open>0 < w\<close> i assms(3) by (simp add: norm_inv_def)
  qed
qed

lemma norm_component:
  assumes "short_path ended path" "norm_inv path r st (w, d)" "r < length (path_text path)" "path_text path ! r \<noteq> sl"
  defines "c \<equiv> takeWhile (\<lambda>c. c \<noteq> sl) (drop r (path_text path))"
  shows "\<exists>wd. normalize_comp ended path r (length c) (w, d) = Inr (Some wd) \<and> norm_inv path (r + length c) (path_step st c) wd"
proof -
  let ?x = "path_text path" and ?n = "length (path_text path)"
  note f = short_path_facts[OF assms(1)]
  have i: "length d = VFS_PATH_MAX" "w \<le> r" "\<forall>c\<in>set st. proper c" "take w d = dirform st" using assms(2-4) by (auto simp: norm_inv_def)
  have x: "drop r ?x = ?x ! r # drop (r + 1) ?x" using assms(3) by (simp add: Cons_nth_drop_Suc)
  have c: "c \<noteq> []" "sl \<notin> set c" using assms(4) unfolding c_def x by (auto dest: set_takeWhileD)
  have len: "r + length c \<le> ?n" using length_takeWhile_le[of "\<lambda>c. c \<noteq> sl" "drop r ?x"] assms(3) by (simp add: c_def)
  have after: "r + length c = ?n \<or> ?x ! (r + length c) = sl"
    using nth_length_takeWhile[of "\<lambda>c. c \<noteq> sl" "drop r ?x"] len unfolding c_def[symmetric]
    by (cases "r + length c = ?n") auto
  have tk: "take (length c) (drop r (vp_data path)) = c"
  proof -
    have "take (length c) (drop r ?x) = c" unfolding c_def by (metis takeWhile_eq_take)
    then show ?thesis using len f(1) by (simp add: path_text_def take_drop min_def)
  qed
  have first: "arr_get (vp_data path) r = Inr (c ! 0)" using f(4)[OF assms(3)] assms(4) unfolding c_def x by simp
  have dd: "is_dotdot ended path r (length c) \<longleftrightarrow> c = [dot, dot]"
    using assms(1) tk by (auto simp: is_dotdot_def short_path_def)
  have d1: "length c = 1 \<and> c ! 0 = dot \<longleftrightarrow> c = [dot]" by (auto simp: length_Suc_conv)
  have w0: "0 < w" using i(4) dirform_simps(3)[of st] by (cases w) auto
  have wd: "w < VFS_PATH_MAX" using i(2) assms(3) f(2) by linarith
  have prev: "arr_prev d w = Inr sl"
    using nth_before[of w d] i(1,4) w0 wd by (simp add: arr_prev_def arr_get_def)
  consider "c = [dot]" | "c = [dot, dot]" "st = []" | "c = [dot, dot]" "st \<noteq> []" | "c \<noteq> [dot]" "c \<noteq> [dot, dot]" by blast
  then show ?thesis
  proof cases
    case 1
    then show ?thesis using i len first by (simp add: normalize_comp_def norm_inv_def path_step_def)
  next
    case 2
    then have "w = 1" using arg_cong[OF i(4), of length] i(1) wd by simp
    then show ?thesis using 2 i len dd by (simp add: normalize_comp_def norm_inv_def path_step_def)
  next
    case 3
    then obtain st' y where st: "st = st' @ [y]" by (cases st rule: rev_cases) auto
    then have y: "sl \<notin> set y" "y \<noteq> []" using i(3) by (auto simp: proper_def)
    have w1: "w > 1" using arg_cong[OF i(4), of length] i(1) wd st y by (cases y) auto
    have "take (w - 1) d = butlast (take w d)" using wd i(1) by (simp add: butlast_take)
    also have "\<dots> = dirform st' @ y" using i(4) st by (simp add: butlast_append)
    finally have t: "take (w - 1) d = dirform st' @ y" .
    have p: "pop_loop d (w - 1) = Inr (length (dirform st'))" using pop_loop_eq[OF _ t y(1)] wd i(1) by simp
    have "take (length (dirform st')) (take (w - 1) d) = dirform st'" using t by simp
    moreover have l: "length (dirform st') \<le> w - 1" using arg_cong[OF t, of length] wd i(1) by simp
    ultimately have "take (length (dirform st')) d = dirform st'" by (simp add: min_def)
    then show ?thesis using 3(1) st i len dd w1 p l by (simp add: normalize_comp_def norm_inv_def path_step_def)
  next
    case 4
    have room: "w + length c < VFS_PATH_MAX" using i(2) len f(2) by linarith
    obtain d' where d': "copy_comp path r (length c) (w, d) = Inr (w + length c, d')" "length d' = length d" "take (w + length c) d' = take w d @ c"
      using copy_comp_eq[of r "length c" path w d] len f room i(1) tk by auto
    have "normalize_comp ended path r (length c) (w, d) = Inr (Some (w + length c, d'))"
      using 4 d1 dd prev room d'(1) first by (auto simp: normalize_comp_def)
    moreover have "proper c" using c 4 by (simp add: proper_def)
    ultimately show ?thesis using 4 i len after d'(2,3) by (auto simp: norm_inv_def path_step_def)
  qed
qed

lemma normalize_loop_eq:
  assumes "short_path ended path" "norm_inv path r st wd"
  shows "\<exists>wd'. normalize_loop ended path r wd = Inr (Some wd') \<and>
    norm_inv path (length (path_text path)) (foldl path_step st (comps (drop r (path_text path)))) wd'"
  using assms
proof (induction "length (path_text path) - r" arbitrary: r st wd rule: less_induct)
  case less
  let ?x = "path_text path"
  note f = short_path_facts[OF less(2)]
  obtain w d where wd: "wd = (w, d)" by (cases wd)
  have rn: "r \<le> length ?x" using less(3) by (simp add: norm_inv_def wd)
  show ?case
  proof (cases "r < length ?x")
    case False
    then show ?thesis using less(3) rn f(1) by (subst normalize_loop.simps) auto
  next
    case r: True
    show ?thesis
    proof (cases "?x ! r = sl")
      case True
      obtain wd1 where s: "(if w = 0 then put_slash (w, d) else rbind (arr_prev d w) (\<lambda>c. if c \<noteq> sl then put_slash (w, d) else Inr (Some (w, d)))) = Inr (Some wd1)"
        "norm_inv path (r + 1) st wd1"
        using norm_slash[OF less(2) less(3)[unfolded wd] r True] by blast
      have "normalize_loop ended path r wd = normalize_loop ended path (r + 1) wd1"
        using r f(1) f(4)[OF r] True s(1) by (subst normalize_loop.simps) (simp add: wd)
      moreover have "comps (drop r ?x) = comps (drop (r + 1) ?x)" using True r by (subst Cons_nth_drop_Suc[symmetric]) auto
      ultimately show ?thesis using less(1)[of "r + 1" st wd1] less(2) s(2) r by simp
    next
      case False
      let ?c = "takeWhile (\<lambda>c. c \<noteq> sl) (drop r ?x)"
      obtain wd1 where s: "normalize_comp ended path r (length ?c) wd = Inr (Some wd1)" "norm_inv path (r + length ?c) (path_step st ?c) wd1"
        using norm_component[OF less(2) less(3)[unfolded wd] r False] unfolding wd by blast
      have x: "drop r ?x = ?x ! r # drop (r + 1) ?x" using r by (simp add: Cons_nth_drop_Suc)
      have c0: "0 < length ?c" using False by (subst x) simp
      have e: "comp_end path r = Inr (r + length ?c)" using comp_end_eq[of path r] f rn by (simp add: path_text_def)
      have "normalize_loop ended path r wd = normalize_loop ended path (r + length ?c) wd1"
        using r f(1) f(4)[OF r] False e s(1) by (subst normalize_loop.simps) simp
      moreover have "comps (drop r ?x) = ?c # comps (drop (r + length ?c) ?x)"
      proof -
        have "comps (drop r ?x) = ?c # comps (dropWhile (\<lambda>c. c \<noteq> sl) (drop r ?x))"
          using False x by (metis comps.simps(2))
        then show ?thesis by (simp add: dropWhile_eq_drop add.commute)
      qed
      moreover have "length ?x - (r + length ?c) < length ?x - r" using r c0 by linarith
      ultimately show ?thesis using less(1)[OF _ less(2) s(2)] by (simp only: foldl.simps)
    qed
  qed
qed

text \<open>The last slash.\<close>

lemma render_last: "st \<noteq> [] \<Longrightarrow> \<forall>c\<in>set st. proper c \<Longrightarrow> render st \<noteq> [] \<and> last (render st) \<noteq> sl"
proof -
  assume a: "st \<noteq> []" "\<forall>c\<in>set st. proper c"
  then obtain st' c where st: "st = st' @ [c]" by (cases st rule: rev_cases) auto
  then have "c \<noteq> []" "sl \<notin> set c" using a(2) by (auto simp: proper_def)
  then have "last c \<noteq> sl" using last_in_set[of c] by metis
  then show ?thesis using \<open>c \<noteq> []\<close> by (simp add: render_def st)
qed

lemma norm_end:
  assumes "norm_inv path r st (w, d)" "r < VFS_PATH_MAX"
  shows "\<exists>w'. (if w > 1 \<and> d ! (w - 1) = sl then w - 1 else w) = w' \<and> take w' d = render st \<and> w' \<le> w \<and> 0 < w'"
proof -
  have i: "length d = VFS_PATH_MAX" "w < VFS_PATH_MAX" "\<forall>c\<in>set st. proper c" using assms by (auto simp: norm_inv_def)
  consider "st = []" "take w d = [sl]" | "st \<noteq> []" "take w d = render st @ [sl]" | "st \<noteq> []" "take w d = render st"
    using assms(1) by (auto simp: norm_inv_def dirform_render render_def split: if_splits)
  then show ?thesis
  proof cases
    case 1
    have "length (take w d) = w" using i(1,2) by simp
    then have "w = 1" using 1(2) by simp
    then show ?thesis using 1 by (simp add: render_def)
  next
    case 2
    have l: "w = length (render st) + 1" using arg_cong[OF 2(2), of length] i(1,2) by simp
    have "d ! (w - 1) = last (take w d)" using nth_before[of w d] l i(1,2) by simp
    moreover have "take (w - 1) d = butlast (take w d)" using i(1,2) by (simp add: butlast_take)
    moreover have "w > 1" using l render_last[OF 2(1) i(3)] by (cases "render st") auto
    ultimately show ?thesis using 2(2) by simp
  next
    case 3
    then have "0 < w" using render_last[OF 3(1) i(3)] by (cases w) auto
    then have "d ! (w - 1) \<noteq> sl" using nth_before[of w d] 3 render_last[OF 3(1) i(3)] i(1,2) by simp
    then show ?thesis using 3 \<open>0 < w\<close> by simp
  qed
qed

subsection \<open>The whole function\<close>

lemma normalize_ok:
  assumes "short_path ended path" "0 < vp_length path" "path_text path ! 0 = sl"
  shows "\<exists>res. vfs_path_normalize ended path = Inr res \<and> path_text res = render (norm_comps (comps (path_text path))) \<and>
    short_path vp_data res \<and> 0 < vp_length res"
proof -
  let ?x = "path_text path" and ?st = "norm_comps (comps (path_text path))"
  note f = short_path_facts[OF assms(1)]
  have n: "0 < length ?x" using assms(2) f(1) by (simp add: word_less_nat_alt)
  have first: "arr_get (vp_data path) 0 = Inr sl" using f(4)[OF n] assms(3) by simp
  let ?d = "(replicate VFS_PATH_MAX 0)[0 := sl]"
  have "put_slash (0, replicate VFS_PATH_MAX 0) = Inr (Some (1, ?d))" by (simp add: put_slash_def arr_put_def VFS_PATH_MAX_def)
  then have "normalize_loop ended path 0 (0, replicate VFS_PATH_MAX 0) = normalize_loop ended path 1 (1, ?d)"
    using first f(1) n by (subst normalize_loop.simps) simp
  moreover have "norm_inv path 1 [] (1, ?d)" using n by (auto simp: norm_inv_def VFS_PATH_MAX_def take_Suc_conv_app_nth Suc_le_eq)
  moreover have "comps ?x = comps (drop 1 ?x)" using assms(3) n by (cases ?x) auto
  ultimately obtain w d where l: "normalize_loop ended path 0 (0, replicate VFS_PATH_MAX 0) = Inr (Some (w, d))" "norm_inv path (length ?x) ?st (w, d)"
    using normalize_loop_eq[OF assms(1), of 1 "[]" "(1, ?d)"] by (auto simp: norm_comps_def)
  have i: "length d = VFS_PATH_MAX" "w \<le> length ?x" "\<forall>c\<in>set ?st. proper c" using l(2) by (auto simp: norm_inv_def)
  have w: "w < VFS_PATH_MAX" using i(2) f(2) by linarith
  obtain w' where w': "(if w > 1 \<and> d ! (w - 1) = sl then w - 1 else w) = w'" "take w' d = render ?st" "w' \<le> w" "0 < w'"
    using norm_end[OF l(2) f(2)] by blast
  have "arr_prev d w = Inr (d ! (w - 1))" if "w > 1" using that w i(1) by (simp add: arr_prev_def arr_get_def)
  then have "vfs_path_normalize ended path = Inr \<lparr>vp_length = of_nat w', vp_data = d\<rparr>"
    using assms(2) first l(1) w' by (auto simp: vfs_path_normalize_def Let_def)
  moreover have "unat (of_nat w' :: u64) = w'" using w'(3) w by (simp add: VFS_PATH_MAX_def unat_of_nat_u64)
  ultimately show ?thesis using w' w i(1) by (auto simp: path_text_def short_path_def word_less_nat_alt)
qed

text \<open>Reading back what was written.\<close>

lemma comps_render: "\<forall>c\<in>set st. proper c \<Longrightarrow> comps (render st) = st"
proof -
  have "\<forall>c\<in>set st. proper c \<Longrightarrow> comps (concat (map (\<lambda>c. sl # c) st)) = st"
  proof (induction st)
    case (Cons c st)
    have "hd (concat (map (\<lambda>c. sl # c) st)) = sl" if "concat (map (\<lambda>c. sl # c) st) \<noteq> []" using that by (cases st) auto
    then have "comps (c @ concat (map (\<lambda>c. sl # c) st)) = c # comps (concat (map (\<lambda>c. sl # c) st))"
      using Cons.prems by (intro comps_component) (auto simp: proper_def)
    then show ?case using Cons by (simp add: comps_slash)
  qed simp
  then show "\<forall>c\<in>set st. proper c \<Longrightarrow> comps (render st) = st" by (cases st) (auto simp: render_def)
qed

lemma norm_comps_proper: "\<forall>c\<in>set cs. c \<noteq> [] \<and> sl \<notin> set c \<Longrightarrow> \<forall>c\<in>set (norm_comps cs). proper c"
  unfolding norm_comps_def
proof (induction cs rule: rev_induct)
  case (snoc c cs)
  then have "\<forall>c\<in>set (foldl path_step [] cs). proper c" "c \<noteq> []" "sl \<notin> set c" by auto
  from path_step_proper[OF this] show ?case by simp
qed simp

lemma norm_comps_id: "\<forall>c\<in>set st. proper c \<Longrightarrow> norm_comps st = st"
  unfolding norm_comps_def by (induction st rule: rev_induct) (auto simp: path_step_def proper_def)

subsection \<open>Properties\<close>


definition path_demo :: vfs_path where
  "path_demo = \<lparr>vp_length = 11, vp_data = map of_char ''/a//./b/../'' @ replicate 4085 0\<rparr>"

lemma path_demo_text: "path_text path_demo = map of_char ''/a//./b/../''"
  by (simp add: path_text_def path_demo_def)

lemma path_demo_ok: "short_path vp_data path_demo" "0 < vp_length path_demo" "path_text path_demo ! 0 = sl"
  by (simp add: short_path_def path_demo_def VFS_PATH_MAX_def, simp add: path_demo_def, simp add: path_demo_text sl_def)


text \<open>
  Normalising twice is normalising once. The canonical form of a short absolute path is a short absolute path, none of whose components is
  empty, \<^verbatim>\<open>.\<close> or \<^verbatim>\<open>..\<close>, and \<^verbatim>\<open>vfs_path_normalize\<close> gives it back unchanged.
\<close>

theorem vfs_path_normalize_idempotent:
  assumes "short_path ended path" "0 < vp_length path" "path_text path ! 0 = sl"
  shows "\<exists>res res'. vfs_path_normalize ended path = Inr res \<and> vfs_path_normalize vp_data res = Inr res' \<and>
    path_text res' = path_text res \<and> (\<forall>c\<in>set (comps (path_text res)). proper c)"
proof -
  obtain res where r: "vfs_path_normalize ended path = Inr res" "path_text res = render (norm_comps (comps (path_text path)))"
      "short_path vp_data res" "0 < vp_length res"
    using normalize_ok[OF assms] by blast
  have p: "\<forall>c\<in>set (norm_comps (comps (path_text path))). proper c" using comps_no_slash by (intro norm_comps_proper) blast
  then have t: "comps (path_text res) = norm_comps (comps (path_text path))" using r(2) comps_render by simp
  have "path_text res ! 0 = sl" using r(2) by (cases "norm_comps (comps (path_text path))") (simp_all add: render_def)
  then obtain res' where "vfs_path_normalize vp_data res = Inr res'" "path_text res' = render (norm_comps (comps (path_text res)))"
    using normalize_ok[OF r(3,4)] by blast
  then show ?thesis using r(1,2) t p norm_comps_id[OF p] by auto
qed

theorem vfs_path_normalize_idempotent_witness:
  "\<exists>res res'. vfs_path_normalize vp_data path_demo = Inr res \<and> vfs_path_normalize vp_data res = Inr res' \<and> path_text res' = path_text res"
  using vfs_path_normalize_idempotent[OF path_demo_ok] by blast

end
