(* ===== verification/Ports.thy ===== *)
theory Ports
  imports Prelude
begin

section \<open>Device accesses (kernel/cpu/ioport.c, the memory-mapped registers of kernel/boot/lapic.c)\<close>

text \<open>
  A device is seen through the accesses made to it. The state is the trace of all accesses so far, oldest first; what a read
  returns is decided by the device, a parameter: a function of the trace before the read. Ports and memory-mapped registers
  share one trace, since the calibration of the timer relies on the order of accesses to two devices.
\<close>

datatype io_access =
    In8 u16 | In16 u16 | In32 u16
  | Out8 u16 u8 | Out16 u16 u16 | Out32 u16 u32
  | MmioR u64 | MmioW u64 u32

type_synonym io_trace = "io_access list"

record io_device =
  dev_in8 :: "io_trace \<Rightarrow> u16 \<Rightarrow> u8"
  dev_in16 :: "io_trace \<Rightarrow> u16 \<Rightarrow> u16"
  dev_in32 :: "io_trace \<Rightarrow> u16 \<Rightarrow> u32"
  dev_mmio :: "io_trace \<Rightarrow> u64 \<Rightarrow> u32"

definition inb :: "io_device \<Rightarrow> u16 \<Rightarrow> io_trace \<Rightarrow> u8 \<times> io_trace" where
  "inb d port tr = (dev_in8 d tr port, tr @ [In8 port])"

definition inw :: "io_device \<Rightarrow> u16 \<Rightarrow> io_trace \<Rightarrow> u16 \<times> io_trace" where
  "inw d port tr = (dev_in16 d tr port, tr @ [In16 port])"

definition inl :: "io_device \<Rightarrow> u16 \<Rightarrow> io_trace \<Rightarrow> u32 \<times> io_trace" where
  "inl d port tr = (dev_in32 d tr port, tr @ [In32 port])"

definition outb :: "u16 \<Rightarrow> u8 \<Rightarrow> io_trace \<Rightarrow> io_trace" where
  "outb port val tr = tr @ [Out8 port val]"

definition outw :: "u16 \<Rightarrow> u16 \<Rightarrow> io_trace \<Rightarrow> io_trace" where
  "outw port val tr = tr @ [Out16 port val]"

definition outl :: "u16 \<Rightarrow> u32 \<Rightarrow> io_trace \<Rightarrow> io_trace" where
  "outl port val tr = tr @ [Out32 port val]"

definition iowait :: "io_trace \<Rightarrow> io_trace" where
  "iowait tr = outb 0x80 0 tr"

definition mmio_write32 :: "u64 \<Rightarrow> u32 \<Rightarrow> io_trace \<Rightarrow> io_trace" where
  "mmio_write32 a v tr = tr @ [MmioW a v]"

definition mmio_read32 :: "io_device \<Rightarrow> u64 \<Rightarrow> io_trace \<Rightarrow> u32 \<times> io_trace" where
  "mmio_read32 d a tr = (dev_mmio d tr a, tr @ [MmioR a])"

lemmas port_defs = inb_def outb_def iowait_def

end
