(* ===== verification/Pic.thy ===== *)
theory Pic
  imports Ports
begin

section \<open>The interrupt controllers (kernel/boot/pic.c)\<close>

text \<open>
  The driver of the two cascaded 8259A interrupt controllers. The controllers are hardware: what the driver relies on is their
  documented programming sequence, stated as the specification \<open>chip\<close> of the state in which a trace of port writes leaves
  one controller. A command with bit 4 set starts an initialisation: the mask is cleared and the following writes to the data
  port are initialisation words; afterwards a write to the data port sets the mask. The driver reads the mask back from the
  data port, which is the hypothesis \<open>pic_device\<close> on the device.
\<close>

subsection \<open>The driver\<close>

definition PIC_MASTER_OFFSET :: u8 where "PIC_MASTER_OFFSET = 0x20"
definition PIC_SLAVE_OFFSET :: u8 where "PIC_SLAVE_OFFSET = 0x28"
definition PIC_MASTER_CMD :: u16 where "PIC_MASTER_CMD = 0x20"
definition PIC_MASTER_DATA :: u16 where "PIC_MASTER_DATA = 0x21"
definition PIC_SLAVE_CMD :: u16 where "PIC_SLAVE_CMD = 0xA0"
definition PIC_SLAVE_DATA :: u16 where "PIC_SLAVE_DATA = 0xA1"
definition PIC_EOI :: u8 where "PIC_EOI = 0x20"
definition ICW1_ICW4 :: u8 where "ICW1_ICW4 = 0x01"
definition ICW1_INIT :: u8 where "ICW1_INIT = 0x10"
definition ICW4_8086 :: u8 where "ICW4_8086 = 0x01"

lemmas pic_consts = PIC_MASTER_OFFSET_def PIC_SLAVE_OFFSET_def PIC_MASTER_CMD_def PIC_MASTER_DATA_def PIC_SLAVE_CMD_def
  PIC_SLAVE_DATA_def PIC_EOI_def ICW1_ICW4_def ICW1_INIT_def ICW4_8086_def

text \<open>
  The port of a line and the number of the line on its controller. The shift \<^verbatim>\<open>1 << irq\<close> is one of an \<^verbatim>\<open>int\<close>: a
  shift by 32 or more is undefined (the Debug build stops), one by 8 to 31 is lost when the value is stored in a byte.
\<close>

definition pic_line :: "u8 \<Rightarrow> u16 \<times> u8" where
  "pic_line irq = (if irq < 8 then (PIC_MASTER_DATA, irq) else (PIC_SLAVE_DATA, irq - 8))"

definition pic_irq_set_mask :: "io_device \<Rightarrow> u8 \<Rightarrow> io_trace \<Rightarrow> io_trace outcome" where
  "pic_irq_set_mask d irq tr =
     (let (port, irq) = pic_line irq; (v, tr) = inb d port tr in
      if irq < 32 then Inr (outb port (v OR push_bit (unat irq) 1) tr) else Inl Panic)"

definition pic_irq_clear_mask :: "io_device \<Rightarrow> u8 \<Rightarrow> io_trace \<Rightarrow> io_trace outcome" where
  "pic_irq_clear_mask d irq tr =
     (let (port, irq) = pic_line irq; (v, tr) = inb d port tr in
      if irq < 32 then Inr (outb port (v AND NOT (push_bit (unat irq) 1)) tr) else Inl Panic)"

definition pic_disable :: "io_trace \<Rightarrow> io_trace" where
  "pic_disable tr = outb PIC_MASTER_DATA 0xFF (outb PIC_SLAVE_DATA 0xFF tr)"

definition pic_remap :: "io_device \<Rightarrow> u8 \<Rightarrow> u8 \<Rightarrow> io_trace \<Rightarrow> io_trace" where
  "pic_remap d offset_master offset_slave tr =
     (let (master_mask, tr) = inb d PIC_MASTER_DATA tr; tr = iowait tr;
          (slave_mask, tr) = inb d PIC_SLAVE_DATA tr; tr = iowait tr;
          tr = iowait (outb PIC_MASTER_CMD (ICW1_INIT OR ICW1_ICW4) tr);
          tr = iowait (outb PIC_SLAVE_CMD (ICW1_INIT OR ICW1_ICW4) tr);
          tr = iowait (outb PIC_MASTER_DATA offset_master tr);
          tr = iowait (outb PIC_SLAVE_DATA offset_slave tr);
          tr = iowait (outb PIC_MASTER_DATA 4 tr);
          tr = iowait (outb PIC_SLAVE_DATA 2 tr);
          tr = iowait (outb PIC_MASTER_DATA ICW4_8086 tr);
          tr = iowait (outb PIC_SLAVE_DATA ICW4_8086 tr);
          tr = iowait (outb PIC_MASTER_DATA master_mask tr) in
      iowait (outb PIC_SLAVE_DATA slave_mask tr))"

definition pic_load :: "io_device \<Rightarrow> io_trace \<Rightarrow> io_trace" where
  "pic_load d tr = pic_disable (pic_remap d PIC_MASTER_OFFSET PIC_SLAVE_OFFSET tr)"

definition pic_eoi :: "u8 \<Rightarrow> io_trace \<Rightarrow> io_trace" where
  "pic_eoi irq tr =
     (let tr = iowait (outb PIC_MASTER_CMD PIC_EOI tr) in
      if irq \<ge> 8 then iowait (outb PIC_SLAVE_CMD PIC_EOI tr) else tr)"

subsection \<open>What the controllers promise\<close>

text \<open>
  The state of one controller: its mask, the initialisation words of the last initialisation, how many are still to come, and
  the number of end-of-interrupt commands. The first word tells by bit 0 whether a fourth one follows and by bit 1 whether
  there is no cascade, and so no third one.
\<close>

record pic_chip =
  imr :: u8
  icws :: "u8 list"
  icws_left :: nat
  eois :: nat

definition chip_reset :: pic_chip where
  "chip_reset = \<lparr>imr = 0, icws = [], icws_left = 0, eois = 0\<rparr>"

definition chip_access :: "u16 \<Rightarrow> u16 \<Rightarrow> io_access \<Rightarrow> pic_chip \<Rightarrow> pic_chip" where
  "chip_access cmd data a c =
     (case a of
        Out8 p v \<Rightarrow>
          if p = cmd then
            (if bit v 4 then c\<lparr>imr := 0, icws := [v], icws_left := 1 + (if bit v 1 then 0 else 1) + (if bit v 0 then 1 else 0)\<rparr>
             else if v = 0x20 then c\<lparr>eois := Suc (eois c)\<rparr> else c)
          else if p = data then
            (if icws_left c > 0 then c\<lparr>icws := icws c @ [v], icws_left := icws_left c - 1\<rparr> else c\<lparr>imr := v\<rparr>)
          else c
      | _ \<Rightarrow> c)"

definition chip :: "u16 \<Rightarrow> u16 \<Rightarrow> io_trace \<Rightarrow> pic_chip" where
  "chip cmd data tr = fold (chip_access cmd data) tr chip_reset"

abbreviation master :: "io_trace \<Rightarrow> pic_chip" where "master \<equiv> chip 0x20 0x21"
abbreviation slave :: "io_trace \<Rightarrow> pic_chip" where "slave \<equiv> chip 0xA0 0xA1"

definition pic_device :: "io_device \<Rightarrow> bool" where
  "pic_device d \<longleftrightarrow> (\<forall>tr. dev_in8 d tr 0x21 = imr (master tr) \<and> dev_in8 d tr 0xA1 = imr (slave tr))"

lemma chip_append: "chip c p (tr @ as) = fold (chip_access c p) as (chip c p tr)"
  by (simp add: chip_def)

lemma icw1_bits [simp]: "bit (0x11 :: u8) 4" "\<not> bit (0x11 :: u8) 1" "bit (0x11 :: u8) 0"
  by (simp_all add: bit_iff_odd)

lemma chip_reads [simp]: "chip_access c p (In8 q) x = x" "chip_access c p (MmioR a) x = x" "chip_access c p (MmioW a v) x = x"
  by (simp_all add: chip_access_def)

lemma chip_wait [simp]: "c \<noteq> 0x80 \<Longrightarrow> p \<noteq> 0x80 \<Longrightarrow> chip_access c p (Out8 0x80 v) x = x"
  by (simp add: chip_access_def)

text \<open>
  Remapping the controllers. Whatever the state before, \<^verbatim>\<open>pic_remap\<close> leaves both controllers fully initialised
  (no initialisation word is missing) in the cascaded 8086 mode with the vector offsets it was given, and with the masks
  they had before, although the initialisation clears them.
\<close>

theorem pic_remap_correct:
  assumes "pic_device d"
  shows "master (pic_remap d om os tr) = (master tr)\<lparr>icws := [0x11, om, 4, 1], icws_left := 0\<rparr> \<and>
         slave (pic_remap d om os tr) = (slave tr)\<lparr>icws := [0x11, os, 2, 1], icws_left := 0\<rparr>"
  using assms
  by (simp add: pic_remap_def pic_consts port_defs pic_device_def Let_def chip_append) (simp add: chip_access_def)

text \<open>A device that behaves as specified, and a boot at which the firmware left some masks.\<close>

definition pic_demo :: io_device where
  "pic_demo = \<lparr>dev_in8 = (\<lambda>tr p. if p = 0x21 then imr (master tr) else imr (slave tr)),
     dev_in16 = (\<lambda>_ _. 0), dev_in32 = (\<lambda>_ _. 0), dev_mmio = (\<lambda>_ _. 0)\<rparr>"

lemma pic_demo_device: "pic_device pic_demo"
  by (simp add: pic_device_def pic_demo_def)

theorem pic_remap_correct_witness:
  "imr (master (pic_remap pic_demo 0x20 0x28 [Out8 0x21 0xB8, Out8 0xA1 0x8F])) = 0xB8 \<and>
   icws (slave (pic_remap pic_demo 0x20 0x28 [Out8 0x21 0xB8, Out8 0xA1 0x8F])) = [0x11, 0x28, 2, 1]"
proof -
  have "imr (master [Out8 0x21 0xB8, Out8 0xA1 0x8F]) = 0xB8" by (simp add: chip_def chip_access_def chip_reset_def)
  with pic_remap_correct[OF pic_demo_device, where om = 32 and os = 40 and tr = "[Out8 0x21 0xB8, Out8 0xA1 0x8F]"] show ?thesis by simp
qed

subsection \<open>Masks\<close>

text \<open>After the load every line is masked, and the vectors are those behind the exceptions.\<close>

lemma pic_load_masks:
  "imr (master (pic_load d tr)) = 0xFF" "icws (master (pic_load d tr)) = [0x11, 0x20, 4, 1]"
  "imr (slave (pic_load d tr)) = 0xFF" "icws (slave (pic_load d tr)) = [0x11, 0x28, 2, 1]"
  "icws_left (master (pic_load d tr)) = 0" "icws_left (slave (pic_load d tr)) = 0"
  by (simp_all add: pic_load_def pic_disable_def pic_remap_def pic_consts port_defs Let_def chip_append)
     (simp_all add: chip_access_def)

text \<open>The controller of a line, and masking it: only the bit of the line changes.\<close>

definition line_chip :: "u8 \<Rightarrow> io_trace \<Rightarrow> pic_chip" where
  "line_chip irq = (if irq < 8 then master else slave)"

definition line_bit :: "u8 \<Rightarrow> nat" where
  "line_bit irq = unat (if irq < 8 then irq else irq - 8)"

definition masked :: "u8 \<Rightarrow> io_trace \<Rightarrow> bool" where
  "masked irq tr = bit (imr (line_chip irq tr)) (line_bit irq)"

definition ready_pics :: "io_trace \<Rightarrow> bool" where
  "ready_pics tr \<longleftrightarrow> icws_left (master tr) = 0 \<and> icws_left (slave tr) = 0"

lemma line_bit_lt: "irq < 16 \<Longrightarrow> line_bit irq < 8"
  by (auto simp: line_bit_def unat_sub_if' word_less_nat_alt)

lemma pic_mask_trace:
  assumes "pic_device d" "irq < 16"
  shows "pic_irq_set_mask d irq tr = Inr (tr @ [In8 (fst (pic_line irq)), Out8 (fst (pic_line irq))
      (imr (line_chip irq tr) OR push_bit (line_bit irq) 1)])"
    and "pic_irq_clear_mask d irq tr = Inr (tr @ [In8 (fst (pic_line irq)), Out8 (fst (pic_line irq))
      (imr (line_chip irq tr) AND NOT (push_bit (line_bit irq) 1))])"
proof -
  have l: "snd (pic_line irq) < 32" "line_bit irq = unat (snd (pic_line irq))"
    using assms(2) by (auto simp: pic_line_def line_bit_def word_less_nat_alt unat_sub_if')
  have r: "dev_in8 d tr (fst (pic_line irq)) = imr (line_chip irq tr)"
    using assms(1) by (simp add: pic_device_def line_chip_def pic_line_def pic_consts)
  show "pic_irq_set_mask d irq tr = Inr (tr @ [In8 (fst (pic_line irq)), Out8 (fst (pic_line irq))
      (imr (line_chip irq tr) OR push_bit (line_bit irq) 1)])"
    "pic_irq_clear_mask d irq tr = Inr (tr @ [In8 (fst (pic_line irq)), Out8 (fst (pic_line irq))
      (imr (line_chip irq tr) AND NOT (push_bit (line_bit irq) 1))])"
    using l r by (simp_all add: pic_irq_set_mask_def pic_irq_clear_mask_def port_defs Let_def case_prod_beta)
qed

lemma chip_write_data:
  assumes "ready_pics tr"
  shows "master (tr @ [In8 p, Out8 0x21 v]) = (master tr)\<lparr>imr := v\<rparr>" "slave (tr @ [In8 p, Out8 0x21 v]) = slave tr"
    "master (tr @ [In8 p, Out8 0xA1 v]) = master tr" "slave (tr @ [In8 p, Out8 0xA1 v]) = (slave tr)\<lparr>imr := v\<rparr>"
  using assms by (simp_all add: chip_append ready_pics_def) (simp_all add: chip_access_def)

lemma pic_line_port: "fst (pic_line irq) = (if irq < 8 then 0x21 else 0xA1)"
  by (simp add: pic_line_def pic_consts)

lemma line_bit_inj: "irq < 16 \<Longrightarrow> i < 16 \<Longrightarrow> (irq < 8) = (i < 8) \<Longrightarrow> line_bit i = line_bit irq \<longleftrightarrow> i = irq"
  by (auto simp: line_bit_def word_less_nat_alt unat_sub_if' word_unat_eq_iff)

lemma bit_one_shift: "line_bit irq < 8 \<Longrightarrow> bit (2 ^ line_bit irq :: u8) k \<longleftrightarrow> k = line_bit irq"
  by (auto simp: bit_simps)

lemma pic_irq_clear_mask_spec:
  assumes d: "pic_device d" and irq: "irq < 16" and r: "ready_pics tr"
  shows "\<exists>tr'. pic_irq_clear_mask d irq tr = Inr tr' \<and> ready_pics tr' \<and>
    (\<forall>i < 16. masked i tr' \<longleftrightarrow> masked i tr \<and> i \<noteq> irq) \<and> eois (master tr') = eois (master tr) \<and> eois (slave tr') = eois (slave tr)"
proof -
  let ?v = "imr (line_chip irq tr) AND NOT (push_bit (line_bit irq) 1)"
  let ?tr = "tr @ [In8 (fst (pic_line irq)), Out8 (fst (pic_line irq)) ?v]"
  have m: "masked i ?tr \<longleftrightarrow> masked i tr \<and> i \<noteq> irq" if "i < 16" for i
    using line_bit_inj[OF irq that] line_bit_lt[OF irq] line_bit_lt[OF that] chip_write_data[OF r]
    by (auto simp: masked_def line_chip_def pic_line_port bit_and_iff bit_not_iff bit_one_shift split: if_splits)
  have "ready_pics ?tr" "eois (master ?tr) = eois (master tr)" "eois (slave ?tr) = eois (slave tr)"
    using r by (simp_all add: ready_pics_def pic_line_port chip_write_data[OF r])
  then show ?thesis using pic_mask_trace(2)[OF d irq] m by blast
qed

lemma pic_irq_set_mask_spec:
  assumes d: "pic_device d" and irq: "irq < 16" and r: "ready_pics tr"
  shows "\<exists>tr'. pic_irq_set_mask d irq tr = Inr tr' \<and> ready_pics tr' \<and>
    (\<forall>i < 16. masked i tr' \<longleftrightarrow> masked i tr \<or> i = irq) \<and> eois (master tr') = eois (master tr) \<and> eois (slave tr') = eois (slave tr)"
proof -
  let ?v = "imr (line_chip irq tr) OR push_bit (line_bit irq) 1"
  let ?tr = "tr @ [In8 (fst (pic_line irq)), Out8 (fst (pic_line irq)) ?v]"
  have m: "masked i ?tr \<longleftrightarrow> masked i tr \<or> i = irq" if "i < 16" for i
    using line_bit_inj[OF irq that] line_bit_lt[OF irq] line_bit_lt[OF that] chip_write_data[OF r]
    by (auto simp: masked_def line_chip_def pic_line_port bit_or_iff bit_one_shift split: if_splits)
  have "ready_pics ?tr" "eois (master ?tr) = eois (master tr)" "eois (slave ?tr) = eois (slave tr)"
    using r by (simp_all add: ready_pics_def pic_line_port chip_write_data[OF r])
  then show ?thesis using pic_mask_trace(1)[OF d irq] m by blast
qed

lemma pic_eoi_spec:
  "imr (line_chip i (pic_eoi irq tr)) = imr (line_chip i tr)" "ready_pics (pic_eoi irq tr) = ready_pics tr"
  "eois (master (pic_eoi irq tr)) = Suc (eois (master tr))"
  "eois (slave (pic_eoi irq tr)) = (if irq \<ge> 8 then Suc (eois (slave tr)) else eois (slave tr))"
  by (simp_all add: pic_eoi_def pic_consts port_defs Let_def chip_append line_chip_def ready_pics_def)
     (simp_all add: chip_access_def bit_iff_odd)

end
