(* ===== verification/Serial.thy ===== *)
theory Serial
  imports Ports Format_Props
begin

section \<open>The serial port (kernel/drivers/serial.c)\<close>

text \<open>
  The serial port as a sequence of bytes written to port 0x3F8, and the ways a handler ends: it returns, or it stops the CPU for
  good (\<^verbatim>\<open>cli\<close> and the endless \<^verbatim>\<open>hlt\<close> of \<^verbatim>\<open>halt\<close>). A format and its arguments fit when the arguments have the number and
  the types that the format asks for; then the formatter ends.
\<close>

datatype 's ending = Returns 's | Halts 's

definition serial_putc :: "u8 \<Rightarrow> io_trace \<Rightarrow> io_trace" where
  "serial_putc c tr = outb 0x3F8 c tr"

definition serial_puts :: "memory \<Rightarrow> chunk \<Rightarrow> io_trace \<Rightarrow> io_trace" where
  "serial_puts m s tr = fold serial_putc (chunk_bytes m s) tr"

lemma serial_puts_eq: "serial_puts m s tr = tr @ map (Out8 0x3F8) (chunk_bytes m s)"
proof -
  have "fold serial_putc bs tr = tr @ map (Out8 0x3F8) bs" for bs
    by (induction bs arbitrary: tr) (simp_all add: serial_putc_def outb_def)
  then show ?thesis by (simp add: serial_puts_def)
qed

subsection \<open>Formats that fit their arguments\<close>

lemma ch_eq [simp]: "ch a = ch b \<longleftrightarrow> a = b"
proof
  have d: "bit (ch c) i \<longleftrightarrow> i < 8 \<and> [digit0 c, digit1 c, digit2 c, digit3 c, digit4 c, digit5 c, digit6 c, digit7 c] ! i" for c i
    unfolding ch_def of_char_def bit_horner_sum_bit_word_iff by auto
  show "a = b" if "ch a = ch b"
  proof -
    have e: "bit (ch a) i = bit (ch b) i" for i using that by simp
    show ?thesis using e[of 0] e[of 1] e[of 2] e[of 3] e[of 4] e[of 5] e[of 6] e[of 7] unfolding d by (cases a; cases b) simp
  qed
qed simp

fun fmt_fits :: "string \<Rightarrow> va list \<Rightarrow> bool" where
  "fmt_fits [] args = True"
| "fmt_fits (c # fmt) args =
     (if c = CHR ''%''
      then (case fmt of
          [] \<Rightarrow> True
        | c' # fmt' \<Rightarrow>
            if c' \<in> set ''dubpxXc'' then (case args of VA_int _ # rest \<Rightarrow> fmt_fits fmt' rest | _ \<Rightarrow> False)
            else if c' = CHR ''s'' then (case args of VA_str _ # rest \<Rightarrow> fmt_fits fmt' rest | _ \<Rightarrow> False)
            else fmt_fits fmt' args)
      else fmt_fits fmt args)"

lemma digits_ok: "b \<in> {2..36} \<Longrightarrow> \<exists>c. digits n (of_nat b) = Inr c"
  using itoa_text[of b num_buf n] by (force simp: digits_def num_buf_def ob_ok_def)

lemma digits_ok_numerals: "\<exists>c. digits n 10 = Inr c" "\<exists>c. digits n 2 = Inr c" "\<exists>c. digits n 16 = Inr c"
  using digits_ok[of 10 n] digits_ok[of 2 n] digits_ok[of 16 n] by simp_all

lemma conversion_int: "c \<in> set ''dubpxXc'' \<Longrightarrow> \<exists>cs. conversion (ch c) (VA_int w # rest) = Inr (cs, rest)"
proof -
  assume c: "c \<in> set ''dubpxXc''"
  obtain d2 d10 d16 e10 where "digits w 2 = Inr d2" "digits w 10 = Inr d10" "digits w 16 = Inr d16"
    "digits (if w <s 0 then - w else w) 10 = Inr e10" using digits_ok_numerals by metis
  with c show ?thesis by (auto simp: conversion_def va_int_def Let_def split del: if_split)
qed

lemma conversion_other:
  "conversion (ch CHR ''s'') (VA_str s # rest) = Inr ([Passed s], rest)"
  "c \<notin> set ''dubpxXcs'' \<Longrightarrow> \<exists>cs. conversion (ch c) args = Inr (cs, args)"
  by (auto simp: conversion_def va_str_def)

lemma fmt_fits_chunks: "fmt_fits fmt args \<Longrightarrow> \<exists>cs. fmt_chunks (map ch fmt) args = Inr cs"
proof (induction fmt args rule: fmt_fits.induct)
  case (2 c fmt args)
  show ?case
  proof (cases "c = CHR ''%''")
    case pc: True
    show ?thesis
    proof (cases fmt)
      case (Cons c' fmt')
      consider (int) "c' \<in> set ''dubpxXc''" | (str) "c' = CHR ''s''" | (other) "c' \<notin> set ''dubpxXcs''" by auto
      then show ?thesis
      proof cases
        case int
        then obtain w rest where a: "args = VA_int w # rest" "fmt_fits fmt' rest"
          using 2(5) pc Cons by (auto split: list.splits va.splits)
        then obtain ds where "fmt_chunks (map ch fmt') rest = Inr ds" using 2(1)[OF pc Cons int a(1)] by blast
        then show ?thesis using conversion_int[OF int, of w rest] a pc Cons by auto
      next
        case str
        then obtain w rest where a: "args = VA_str w # rest" "fmt_fits fmt' rest"
          using 2(5) pc Cons by (auto split: list.splits va.splits)
        have "c' \<notin> set ''dubpxXc''" using str by simp
        from 2(2)[OF pc Cons this str a(1)] a(2) obtain ds where "fmt_chunks (map ch fmt') rest = Inr ds" by blast
        then show ?thesis using str a pc Cons by (simp add: conversion_other(1))
      next
        case other
        then have "c' \<notin> set ''dubpxXc''" "c' \<noteq> CHR ''s''" "fmt_fits fmt' args" using 2(5) pc Cons by auto
        from 2(3)[OF pc Cons this(1,2)] this(3) obtain ds where "fmt_chunks (map ch fmt') args = Inr ds" by blast
        then show ?thesis using conversion_other(2)[OF other, of args] pc Cons by auto
      qed
    qed (simp add: pc)
  next
    case False
    then show ?thesis using 2(4,5) by auto
  qed
qed simp

end
