(* ===== verification/Segments.thy ===== *)
theory Segments
  imports Syscall
begin

section \<open>Descriptor tables (kernel/boot/gdt.c, kernel/boot/tss.c, kernel/boot/idt.c)\<close>

text \<open>
  The tables the processor reads: segment descriptors, the descriptor of the task state segment, interrupt gates. The bytes of
  a descriptor are written out where the source reads a TSS descriptor back as two segment descriptors (a union). What the
  processor takes out of an entry is stated by the decoding functions of the last section, from the format of the architecture.
\<close>

subsection \<open>The segment descriptors\<close>

record gdt_gate =
  gg_limit_low :: u16
  gg_base_low :: u16
  gg_base_mid :: u8
  gg_access :: u8
  gg_limit_high :: "4 word"
  gg_flags :: "4 word"
  gg_base_high :: u8

definition ACC_RW :: u8 where "ACC_RW = push_bit 1 1"
definition ACC_EXEC :: u8 where "ACC_EXEC = push_bit 3 1"
definition ACC_NOT_SYS :: u8 where "ACC_NOT_SYS = push_bit 4 1"
definition ACC_DPL :: "u8 \<Rightarrow> u8" where "ACC_DPL level = push_bit 5 level"
definition ACC_PRESENT :: u8 where "ACC_PRESENT = push_bit 7 1"
definition LONG_MODE :: "4 word" where "LONG_MODE = push_bit 1 1"
definition SIZE_32 :: "4 word" where "SIZE_32 = push_bit 2 1"
definition GRANULARITY_4K :: "4 word" where "GRANULARITY_4K = push_bit 3 1"
definition GDT_SEG_IDX_TSS :: u64 where "GDT_SEG_IDX_TSS = 9"
definition GDT_NUM_DESCRIPTORS :: u64 where "GDT_NUM_DESCRIPTORS = GDT_SEG_IDX_TSS + 2"

lemmas gdt_flags = ACC_RW_def ACC_EXEC_def ACC_NOT_SYS_def ACC_DPL_def ACC_PRESENT_def LONG_MODE_def SIZE_32_def GRANULARITY_4K_def
lemmas gdt_indices = GDT_SEG_IDX_TSS_def GDT_NUM_DESCRIPTORS_def GDT_SEGMENT_def GDT_SEG_IDX_KCODE_def GDT_SEG_IDX_KDATA_def
  GDT_SEG_IDX_UDATA_def GDT_SEG_IDX_UCODE_def

abbreviation null_gate :: gdt_gate where
  "null_gate \<equiv> \<lparr>gg_limit_low = 0, gg_base_low = 0, gg_base_mid = 0, gg_access = 0, gg_limit_high = 0, gg_flags = 0, gg_base_high = 0\<rparr>"

text \<open>The initialisers have a base of 0; they differ in limit, access and flags.\<close>

definition flat_gate :: "u16 \<Rightarrow> u8 \<Rightarrow> 4 word \<Rightarrow> 4 word \<Rightarrow> gdt_gate" where
  "flat_gate limit_low access limit_high flags =
     \<lparr>gg_limit_low = limit_low, gg_base_low = 0, gg_base_mid = 0, gg_access = access, gg_limit_high = limit_high, gg_flags = flags, gg_base_high = 0\<rparr>"

definition gdt_bootstrap_descriptors :: "gdt_gate list" where
  "gdt_bootstrap_descriptors =
     [null_gate,
      flat_gate 0xFFFF (ACC_PRESENT OR ACC_DPL 0 OR ACC_NOT_SYS OR ACC_EXEC OR ACC_RW) 0 0,
      flat_gate 0xFFFF (ACC_PRESENT OR ACC_DPL 0 OR ACC_NOT_SYS OR ACC_RW) 0 0,
      flat_gate 0xFFFF (ACC_PRESENT OR ACC_DPL 0 OR ACC_NOT_SYS OR ACC_EXEC OR ACC_RW) 0xF (GRANULARITY_4K OR SIZE_32),
      flat_gate 0xFFFF (ACC_PRESENT OR ACC_DPL 0 OR ACC_NOT_SYS OR ACC_RW) 0xF (GRANULARITY_4K OR SIZE_32),
      flat_gate 0 (ACC_PRESENT OR ACC_DPL 0 OR ACC_NOT_SYS OR ACC_EXEC OR ACC_RW) 0 LONG_MODE,
      flat_gate 0 (ACC_PRESENT OR ACC_DPL 0 OR ACC_NOT_SYS OR ACC_RW) 0 LONG_MODE,
      flat_gate 0 (ACC_PRESENT OR ACC_DPL 3 OR ACC_NOT_SYS OR ACC_RW) 0 (LONG_MODE OR GRANULARITY_4K),
      flat_gate 0 (ACC_PRESENT OR ACC_DPL 3 OR ACC_NOT_SYS OR ACC_EXEC OR ACC_RW) 0 (LONG_MODE OR GRANULARITY_4K),
      null_gate,
      null_gate]"

definition kernel_code_segment :: u16 where "kernel_code_segment = ucast (GDT_SEGMENT GDT_SEG_IDX_KCODE)"
definition kernel_data_segment :: u16 where "kernel_data_segment = ucast (GDT_SEGMENT GDT_SEG_IDX_KDATA)"
definition user_code_segment :: u16 where "user_code_segment = ucast (GDT_SEGMENT GDT_SEG_IDX_UCODE)"
definition user_data_segment :: u16 where "user_data_segment = ucast (GDT_SEGMENT GDT_SEG_IDX_UDATA)"
definition tss_segment :: u16 where "tss_segment = ucast (GDT_SEGMENT GDT_SEG_IDX_TSS)"

text \<open>
  The part of the per-CPU data these functions use (\<open>None\<close>: the segment base is still NULL), with the addresses of its table and of its
  task state segment, and the registers of the CPU that name the tables.
\<close>

record cpu_segs =
  cs_gdt :: "gdt_gate list"
  cs_gdt_addr :: u64
  cs_tss_addr :: u64

record seg_state =
  sg_percpu :: "cpu_segs option"
  gdtr_limit :: u16
  gdtr_base :: u64
  task_reg :: u16

definition SIZEOF_GDT :: u64 where "SIZEOF_GDT = 8 * GDT_NUM_DESCRIPTORS"

definition gdt_init :: "u64 \<Rightarrow> seg_state \<Rightarrow> seg_state" where
  "gdt_init bootstrap_addr s = s\<lparr>gdtr_limit := ucast (SIZEOF_GDT - 1), gdtr_base := bootstrap_addr\<rparr>"

definition gdt_load :: "seg_state \<Rightarrow> seg_state" where
  "gdt_load s =
     (case sg_percpu s of
        None \<Rightarrow> s
      | Some c \<Rightarrow> s\<lparr>sg_percpu := Some (c\<lparr>cs_gdt := gdt_bootstrap_descriptors\<rparr>),
          gdtr_limit := ucast (SIZEOF_GDT - 1), gdtr_base := cs_gdt_addr c\<rparr>)"

definition gdt_set_gate :: "u64 \<Rightarrow> gdt_gate \<Rightarrow> seg_state \<Rightarrow> seg_state outcome" where
  "gdt_set_gate segment gate s =
     (case sg_percpu s of
        None \<Rightarrow> Inr s
      | Some c \<Rightarrow> if unat segment < length (cs_gdt c)
          then Inr (s\<lparr>sg_percpu := Some (c\<lparr>cs_gdt := (cs_gdt c)[unat segment := gate]\<rparr>)\<rparr>) else Inl OutOfBounds)"

subsection \<open>The task state segment\<close>

record tss_desc =
  tsd_limit_low :: u16
  tsd_base_low :: u16
  tsd_base_mid :: u8
  tsd_access :: u8
  tsd_limit_high :: "4 word"
  tsd_flags :: "4 word"
  tsd_base_high :: u8
  tsd_base_upper :: u32
  tsd_reserved :: u32

definition bytes16 :: "u16 \<Rightarrow> u8 list" where "bytes16 w = [ucast w, ucast (drop_bit 8 w)]"

definition bytes32 :: "u32 \<Rightarrow> u8 list" where
  "bytes32 w = [ucast w, ucast (drop_bit 8 w), ucast (drop_bit 16 w), ucast (drop_bit 24 w)]"

definition tss_desc_bytes :: "tss_desc \<Rightarrow> u8 list" where
  "tss_desc_bytes t = bytes16 (tsd_limit_low t) @ bytes16 (tsd_base_low t) @ [tsd_base_mid t, tsd_access t,
     ucast (tsd_limit_high t) OR push_bit 4 (ucast (tsd_flags t)), tsd_base_high t] @ bytes32 (tsd_base_upper t) @ bytes32 (tsd_reserved t)"

definition word16 :: "u8 list \<Rightarrow> nat \<Rightarrow> u16" where
  "word16 bs i = ucast (bs ! i) OR push_bit 8 (ucast (bs ! (i + 1)))"

text \<open>\<^verbatim>\<open>tss_gate.entries[k]\<close>: the bytes of the descriptor from \<open>8 * k\<close> on, read as a segment descriptor.\<close>

definition tss_gate_entry :: "tss_desc \<Rightarrow> nat \<Rightarrow> gdt_gate" where
  "tss_gate_entry t k =
     (let bs = drop (8 * k) (tss_desc_bytes t) in
      \<lparr>gg_limit_low = word16 bs 0, gg_base_low = word16 bs 2, gg_base_mid = bs ! 4, gg_access = bs ! 5,
       gg_limit_high = ucast (bs ! 6), gg_flags = ucast (drop_bit 4 (bs ! 6)), gg_base_high = bs ! 7\<rparr>)"

definition SIZEOF_TSS :: u32 where "SIZEOF_TSS = 100"

definition tss_load :: "seg_state \<Rightarrow> seg_state outcome" where
  "tss_load s =
     (case sg_percpu s of
        None \<Rightarrow> Inl NullDeref
      | Some c \<Rightarrow>
          let base = cs_tss_addr c; limit = SIZEOF_TSS - 1;
              t = \<lparr>tsd_limit_low = ucast (limit AND 0xFFFF), tsd_base_low = ucast (base AND 0xFFFF), tsd_base_mid = ucast (drop_bit 16 base AND 0xFF),
                tsd_access = ACC_PRESENT OR 0x09, tsd_limit_high = ucast (drop_bit 16 limit AND 0x0F), tsd_flags = 0,
                tsd_base_high = ucast (drop_bit 24 base AND 0xFF), tsd_base_upper = ucast (drop_bit 32 base AND 0xFFFFFFFF), tsd_reserved = 0\<rparr> in
          rbind (gdt_set_gate GDT_SEG_IDX_TSS (tss_gate_entry t 0) s) (\<lambda>s.
          rbind (gdt_set_gate (GDT_SEG_IDX_TSS + 1) (tss_gate_entry t 1) s) (\<lambda>s.
          Inr (s\<lparr>task_reg := tss_segment\<rparr>))))"

subsection \<open>The interrupt gates\<close>

record idt_gate =
  ig_offset_low :: u16
  ig_selector :: u16
  ig_ist :: u8
  ig_flags :: u8
  ig_offset_mid :: u16
  ig_offset_high :: u32
  ig_zero :: u32

definition IDT_NUM_GATES :: nat where "IDT_NUM_GATES = 256"
definition IDT_NUM_EXCEPTIONS :: nat where "IDT_NUM_EXCEPTIONS = 32"
definition IDT_NUM_IRQS :: nat where "IDT_NUM_IRQS = 16"
definition EXC_NON_MASKABLE_INTERRUPT :: nat where "EXC_NON_MASKABLE_INTERRUPT = 0x2"
definition EXC_DOUBLE_FAULT :: nat where "EXC_DOUBLE_FAULT = 0x8"
definition EXC_PAGE_FAULT :: nat where "EXC_PAGE_FAULT = 0xE"

lemmas idt_consts = IDT_NUM_GATES_def IDT_NUM_EXCEPTIONS_def IDT_NUM_IRQS_def EXC_NON_MASKABLE_INTERRUPT_def EXC_DOUBLE_FAULT_def
  EXC_PAGE_FAULT_def

definition empty_gate :: idt_gate where
  "empty_gate = \<lparr>ig_offset_low = 0, ig_selector = 0, ig_ist = 0, ig_flags = 0, ig_offset_mid = 0, ig_offset_high = 0, ig_zero = 0\<rparr>"

definition idt_set_gate :: "nat \<Rightarrow> u64 \<Rightarrow> u8 \<Rightarrow> u8 \<Rightarrow> idt_gate list \<Rightarrow> idt_gate list outcome" where
  "idt_set_gate idx addr flags ist gates =
     (if idx < length gates
      then Inr (gates[idx := \<lparr>
          ig_offset_low = ucast (addr AND 0x000000000000FFFF), ig_selector = kernel_code_segment, ig_ist = ist AND 0x07, ig_flags = flags,
          ig_offset_mid = ucast (drop_bit 16 (addr AND 0x00000000FFFF0000)), ig_offset_high = ucast (drop_bit 32 (addr AND 0xFFFFFFFF00000000)),
          ig_zero = 0\<rparr>])
      else Inl OutOfBounds)"

text \<open>The addresses of the entry points, which are written in assembly.\<close>

record stub_syms =
  exc_stub_table :: "nat \<Rightarrow> u64"
  irq_stub_table :: "nat \<Rightarrow> u64"
  lapic_timer_stub :: u64
  lapic_panic_stub :: u64
  lapic_spurious_stub :: u64
  lapic_tlb_flush_stub :: u64

definition idt_init :: "stub_syms \<Rightarrow> idt_gate list \<Rightarrow> idt_gate list outcome" where
  "idt_init syms gates =
     rbind (for_r (\<lambda>idx gates.
        let ist = (if idx = EXC_DOUBLE_FAULT \<or> idx = EXC_PAGE_FAULT \<or> idx = EXC_NON_MASKABLE_INTERRUPT then 0x01 else 0x00) in
        idt_set_gate idx (exc_stub_table syms idx) 0x8E ist gates) [0..<IDT_NUM_EXCEPTIONS] (replicate IDT_NUM_GATES empty_gate)) (\<lambda>gates.
     for_r (\<lambda>idx. idt_set_gate (idx + IDT_NUM_EXCEPTIONS) (irq_stub_table syms idx) 0x8E 0x0) [0..<IDT_NUM_IRQS] gates)"

text \<open>The operand of \<^verbatim>\<open>lidt\<close>: the limit and the address of the table.\<close>

definition idt_desc :: "u64 \<Rightarrow> u16 \<times> u64" where
  "idt_desc gates_addr = (of_nat (16 * IDT_NUM_GATES - 1), gates_addr)"

definition idt_load :: "u64 \<Rightarrow> u16 \<times> u64 \<Rightarrow> u16 \<times> u64" where
  "idt_load gates_addr idtr = idt_desc gates_addr"

subsection \<open>What the processor reads\<close>

definition seg_present :: "gdt_gate \<Rightarrow> bool" where "seg_present g = bit (gg_access g) 7"
definition seg_dpl :: "gdt_gate \<Rightarrow> u8" where "seg_dpl g = drop_bit 5 (gg_access g) AND 3"
definition seg_is_code :: "gdt_gate \<Rightarrow> bool" where "seg_is_code g \<longleftrightarrow> bit (gg_access g) 4 \<and> bit (gg_access g) 3"
definition seg_is_data :: "gdt_gate \<Rightarrow> bool" where "seg_is_data g \<longleftrightarrow> bit (gg_access g) 4 \<and> \<not> bit (gg_access g) 3 \<and> bit (gg_access g) 1"
definition seg_long :: "gdt_gate \<Rightarrow> bool" where "seg_long g \<longleftrightarrow> bit (gg_flags g) 1 \<and> \<not> bit (gg_flags g) 2"

definition seg_base :: "gdt_gate \<Rightarrow> u64" where
  "seg_base g = ucast (gg_base_low g) OR push_bit 16 (ucast (gg_base_mid g)) OR push_bit 24 (ucast (gg_base_high g))"

definition seg_limit :: "gdt_gate \<Rightarrow> u32" where
  "seg_limit g = ucast (gg_limit_low g) OR push_bit 16 (ucast (gg_limit_high g))"

text \<open>A system descriptor takes two entries; the second holds the upper half of the base.\<close>

definition sys_base :: "gdt_gate \<Rightarrow> gdt_gate \<Rightarrow> u64" where
  "sys_base lo hi = seg_base lo OR push_bit 32 (ucast (gg_limit_low hi) OR push_bit 16 (ucast (gg_base_low hi)))"

definition sys_type :: "gdt_gate \<Rightarrow> u8" where "sys_type g = gg_access g AND 0x1F"

definition gate_offset :: "idt_gate \<Rightarrow> u64" where
  "gate_offset g = ucast (ig_offset_low g) OR push_bit 16 (ucast (ig_offset_mid g)) OR push_bit 32 (ucast (ig_offset_high g))"

definition gate_present :: "idt_gate \<Rightarrow> bool" where "gate_present g = bit (ig_flags g) 7"

text \<open>The entry a selector picks, in a table of a given limit.\<close>

definition selected :: "u16 \<Rightarrow> gdt_gate list \<Rightarrow> gdt_gate" where
  "selected sel gdt = gdt ! unat (drop_bit 3 sel)"

end
