(* ===== verification/Segments_Props.thy ===== *)
theory Segments_Props
  imports Segments Syscall_Props
begin

section \<open>Descriptor tables: properties\<close>

text \<open>
  The descriptor of the task state segment survives the way through the union and the packed fields, the selectors that the
  system call instruction is set up with pick descriptors of the right kind and privilege, and the interrupt table holds exactly
  one present gate per entry point.
\<close>

subsection \<open>Packed fields\<close>

lemma halves16: "ucast (ucast w :: u8) OR push_bit 8 (ucast (ucast (drop_bit 8 w) :: u8)) = (w :: u16)"
  by (rule bit_word_eqI) (auto simp: bit_simps)

text \<open>Two adjacent fields make one field.\<close>

lemma take_bit_join: "take_bit n b OR push_bit n (take_bit k (drop_bit n b)) = take_bit (n + k) (b :: 'a :: len word)"
proof (rule bit_word_eqI)
  fix i assume i: "i < LENGTH('a)"
  show "bit (take_bit n b OR push_bit n (take_bit k (drop_bit n b))) i = bit (take_bit (n + k) b) i"
    using i by (cases "i < n") (auto simp: bit_simps)
qed

lemma field_casts:
  fixes x :: u64
  shows "ucast (ucast (x AND 0xFFFF) :: u16) = take_bit 16 x" "ucast (ucast (x AND 0xFF) :: u8) = take_bit 8 x"
    "ucast (ucast (ucast (x AND 0xFFFFFFFF) :: u32) :: u16) = take_bit 16 x"
    "ucast (ucast (drop_bit 16 (ucast (x AND 0xFFFFFFFF) :: u32)) :: u16) = take_bit 16 (drop_bit 16 x)"
    "ucast (ucast (x AND 0xFFFFFFFF) :: u32) = take_bit 32 x"
proof -
  have m: "(0xFFFF :: u64) = mask 16" "(0xFF :: u64) = mask 8" "(0xFFFFFFFF :: u64) = mask 32" by (simp_all add: mask_eq_exp_minus_1)
  show "ucast (ucast (x AND 0xFFFF) :: u16) = take_bit 16 x" unfolding m by (rule bit_word_eqI) (auto simp: bit_simps)
  show "ucast (ucast (x AND 0xFF) :: u8) = take_bit 8 x" unfolding m by (rule bit_word_eqI) (auto simp: bit_simps)
  show "ucast (ucast (ucast (x AND 0xFFFFFFFF) :: u32) :: u16) = take_bit 16 x" unfolding m by (rule bit_word_eqI) (auto simp: bit_simps)
  show "ucast (ucast (drop_bit 16 (ucast (x AND 0xFFFFFFFF) :: u32)) :: u16) = take_bit 16 (drop_bit 16 x)" unfolding m
    by (rule bit_word_eqI) (auto simp: bit_simps)
  show "ucast (ucast (x AND 0xFFFFFFFF) :: u32) = take_bit 32 x" unfolding m by (rule bit_word_eqI) (auto simp: bit_simps)
qed

lemma base_pieces:
  fixes b :: u64
  shows "ucast (ucast (b AND 0xFFFF) :: u16) OR push_bit 16 (ucast (ucast (drop_bit 16 b AND 0xFF) :: u8))
      OR push_bit 24 (ucast (ucast (drop_bit 24 b AND 0xFF) :: u8)) = take_bit 32 b"
    "take_bit 32 b OR push_bit 32 (ucast (ucast (ucast (drop_bit 32 b AND 0xFFFFFFFF) :: u32) :: u16)
        OR push_bit 16 (ucast (ucast (drop_bit 16 (ucast (drop_bit 32 b AND 0xFFFFFFFF) :: u32)) :: u16))) = b"
  using take_bit_join[of 16 b 8] take_bit_join[of 24 b 8] take_bit_join[of 16 "drop_bit 32 b" 16] take_bit_join[of 32 b 32]
  by (simp_all add: field_casts take_bit_word_eq_self or.assoc[symmetric])

text \<open>The offset of an interrupt gate.\<close>

lemma offset_pieces:
  fixes b :: u64
  shows "ucast (ucast (b AND 0xFFFF) :: u16) OR push_bit 16 (ucast (ucast (drop_bit 16 (b AND 0xFFFF0000)) :: u16))
      OR push_bit 32 (ucast (ucast (drop_bit 32 (b AND 0xFFFFFFFF00000000)) :: u32)) = b"
proof -
  have m: "(0xFFFF0000 :: u64) = push_bit 16 (mask 16)" "(0xFFFFFFFF00000000 :: u64) = push_bit 32 (mask 32)"
    by (simp_all add: mask_eq_exp_minus_1)
  have "ucast (ucast (drop_bit 16 (b AND 0xFFFF0000)) :: u16) = take_bit 16 (drop_bit 16 b)"
    "ucast (ucast (drop_bit 32 (b AND 0xFFFFFFFF00000000)) :: u32) = take_bit 32 (drop_bit 32 b)"
    unfolding m by (rule bit_word_eqI; auto simp: bit_simps)+
  then show ?thesis using take_bit_join[of 16 b 16] take_bit_join[of 32 b 32] by (simp add: field_casts take_bit_word_eq_self or.assoc[symmetric])
qed

subsection \<open>The task state segment\<close>

lemma word16_bytes:
  "word16 (bytes16 w @ bs) 0 = w" "word16 (bytes16 v @ bytes16 w @ bs) 2 = w"
  by (simp_all add: word16_def bytes16_def halves16 del: push_bit_numeral)

lemma bytes32_16: "bytes32 w = bytes16 (ucast w) @ bytes16 (ucast (drop_bit 16 w))"
proof -
  have "(ucast w :: u8) = ucast (ucast w :: u16)" "(ucast (drop_bit 8 w) :: u8) = ucast (drop_bit 8 (ucast w :: u16))"
    "(ucast (drop_bit 16 w) :: u8) = ucast (ucast (drop_bit 16 w) :: u16)"
    "(ucast (drop_bit 24 w) :: u8) = ucast (drop_bit 8 (ucast (drop_bit 16 w) :: u16))"
    by (rule bit_word_eqI; auto simp: bit_simps)+
  then show ?thesis by (simp add: bytes32_def bytes16_def)
qed

lemma nibbles:
  "ucast (ucast (l :: 4 word) OR push_bit 4 (ucast (f :: 4 word)) :: u8) = l"
  "ucast (drop_bit 4 (ucast (l :: 4 word) OR push_bit 4 (ucast (f :: 4 word)) :: u8)) = f"
  by (rule bit_word_eqI; auto simp: bit_simps dest: bit_imp_le_length)+

text \<open>The union: the fields of the two entries are those of the descriptor.\<close>

lemma tss_gate_entries:
  "tss_gate_entry t 0 = \<lparr>gg_limit_low = tsd_limit_low t, gg_base_low = tsd_base_low t, gg_base_mid = tsd_base_mid t, gg_access = tsd_access t,
     gg_limit_high = tsd_limit_high t, gg_flags = tsd_flags t, gg_base_high = tsd_base_high t\<rparr>"
  "gg_limit_low (tss_gate_entry t (Suc 0)) = ucast (tsd_base_upper t)" "gg_base_low (tss_gate_entry t (Suc 0)) = ucast (drop_bit 16 (tsd_base_upper t))"
proof -
  have b: "tss_desc_bytes t = bytes16 (tsd_limit_low t) @ bytes16 (tsd_base_low t) @ [tsd_base_mid t, tsd_access t,
     ucast (tsd_limit_high t) OR push_bit 4 (ucast (tsd_flags t)), tsd_base_high t] @ bytes32 (tsd_base_upper t) @ bytes32 (tsd_reserved t)"
    by (simp add: tss_desc_bytes_def)
  have n: "(bytes16 v @ bytes16 w @ a # a1 # a2 # a3 # bs) ! 4 = a" "(bytes16 v @ bytes16 w @ a # a1 # a2 # a3 # bs) ! 5 = a1"
    "(bytes16 v @ bytes16 w @ a # a1 # a2 # a3 # bs) ! 6 = a2" "(bytes16 v @ bytes16 w @ a # a1 # a2 # a3 # bs) ! 7 = a3"
    for v w a a1 a2 a3 bs by (simp_all add: bytes16_def)
  show "tss_gate_entry t 0 = \<lparr>gg_limit_low = tsd_limit_low t, gg_base_low = tsd_base_low t, gg_base_mid = tsd_base_mid t, gg_access = tsd_access t,
     gg_limit_high = tsd_limit_high t, gg_flags = tsd_flags t, gg_base_high = tsd_base_high t\<rparr>"
    by (simp add: tss_gate_entry_def b word16_bytes n nibbles nibbles(2)[unfolded drop_bit_or] Let_def del: push_bit_numeral)
  have d: "drop 8 (tss_desc_bytes t) = bytes16 (ucast (tsd_base_upper t)) @ bytes16 (ucast (drop_bit 16 (tsd_base_upper t))) @ bytes32 (tsd_reserved t)"
    by (simp add: b bytes32_16) (simp add: bytes16_def)
  show "gg_limit_low (tss_gate_entry t (Suc 0)) = ucast (tsd_base_upper t)" "gg_base_low (tss_gate_entry t (Suc 0)) = ucast (drop_bit 16 (tsd_base_upper t))"
    using word16_bytes by (simp_all add: tss_gate_entry_def d Let_def)
qed

text \<open>
  Loading the task register. After \<^verbatim>\<open>gdt_load\<close> and \<^verbatim>\<open>tss_load\<close> the processor uses the table of this CPU, with a limit that covers
  all its entries; the task register selects a present 64-bit TSS descriptor from which it reads back the full 64-bit address of this
  CPU's task state segment and its size, and every other descriptor is the one of the bootstrap table.
\<close>

theorem tss_load_roundtrip:
  assumes "sg_percpu s = Some c"
  shows "\<exists>s' g. tss_load (gdt_load s) = Inr s' \<and> sg_percpu s' = Some (c\<lparr>cs_gdt := g\<rparr>) \<and>
    gdtr_base s' = cs_gdt_addr c \<and> unat (gdtr_limit s') + 1 = 8 * length g \<and>
    sys_base (selected (task_reg s') g) (selected (task_reg s' + 8) g) = cs_tss_addr c \<and>
    seg_limit (selected (task_reg s') g) = 99 \<and> seg_present (selected (task_reg s') g) \<and> sys_type (selected (task_reg s') g) = 9 \<and>
    (\<forall>i < 9. g ! i = gdt_bootstrap_descriptors ! i)"
proof -
  let ?b = "cs_tss_addr c"
  let ?t = "\<lparr>tsd_limit_low = ucast ((SIZEOF_TSS - 1) AND 0xFFFF), tsd_base_low = ucast (?b AND 0xFFFF), tsd_base_mid = ucast (drop_bit 16 ?b AND 0xFF),
     tsd_access = ACC_PRESENT OR 0x09, tsd_limit_high = ucast (drop_bit 16 (SIZEOF_TSS - 1) AND 0x0F), tsd_flags = 0,
     tsd_base_high = ucast (drop_bit 24 ?b AND 0xFF), tsd_base_upper = ucast (drop_bit 32 ?b AND 0xFFFFFFFF), tsd_reserved = 0\<rparr>"
  define g where "g = gdt_bootstrap_descriptors[9 := tss_gate_entry ?t 0, 10 := tss_gate_entry ?t 1]"
  have len: "length gdt_bootstrap_descriptors = 11" by (simp add: gdt_bootstrap_descriptors_def)
  have sel: "selected tss_segment g = tss_gate_entry ?t 0" "selected (tss_segment + 8) g = tss_gate_entry ?t 1"
    by (simp_all add: selected_def tss_segment_def gdt_indices g_def len)
  have e: "tss_load (gdt_load s) = Inr (s\<lparr>sg_percpu := Some (c\<lparr>cs_gdt := g\<rparr>), gdtr_limit := ucast (SIZEOF_GDT - 1), gdtr_base := cs_gdt_addr c,
      task_reg := tss_segment\<rparr>)"
    using assms by (simp add: tss_load_def gdt_load_def gdt_set_gate_def gdt_indices len Let_def g_def)
  have base: "sys_base (tss_gate_entry ?t 0) (tss_gate_entry ?t 1) = ?b"
    using base_pieces[of ?b] by (simp add: sys_base_def seg_base_def tss_gate_entries)
  have rest: "seg_limit (tss_gate_entry ?t 0) = 99" "seg_present (tss_gate_entry ?t 0)" "sys_type (tss_gate_entry ?t 0) = 9"
    by (simp_all add: seg_limit_def seg_present_def sys_type_def tss_gate_entries SIZEOF_TSS_def ACC_PRESENT_def bit_iff_odd)
  have lim: "unat (ucast (SIZEOF_GDT - 1) :: u16) + 1 = 8 * length g" by (simp add: SIZEOF_GDT_def gdt_indices g_def len)
  have others: "\<forall>i < 9. g ! i = gdt_bootstrap_descriptors ! i" by (simp add: g_def)
  show ?thesis using e base rest lim others by (intro exI[of _ g] exI conjI) (auto simp: sel)
qed

theorem tss_load_roundtrip_witness:
  "\<exists>s' g. tss_load (gdt_load \<lparr>sg_percpu = Some \<lparr>cs_gdt = [], cs_gdt_addr = 0x1000, cs_tss_addr = 0xFFFF800012345678\<rparr>,
       gdtr_limit = 0, gdtr_base = 0, task_reg = 0\<rparr>) = Inr s' \<and>
     sys_base (selected (task_reg s') g) (selected (task_reg s' + 8) g) = 0xFFFF800012345678"
  using tss_load_roundtrip[where s = "\<lparr>sg_percpu = Some \<lparr>cs_gdt = [], cs_gdt_addr = 0x1000, cs_tss_addr = 0xFFFF800012345678\<rparr>,
       gdtr_limit = 0, gdtr_base = 0, task_reg = 0\<rparr>"] by fastforce

subsection \<open>Selectors and privileges\<close>

text \<open>
  The selectors of the system call instruction. With the table of \<^verbatim>\<open>gdt.c\<close> and the register STAR as \<^verbatim>\<open>syscall_load\<close> sets it, the
  instruction enters with the descriptors of a 64-bit code segment and a writable data segment of privilege 0, and its return leaves with
  those of privilege 3; the selectors of a user task are the ones the return loads.
\<close>

theorem syscall_selectors_privileges:
  "let star = rdmsr IA32_STAR (syscall_load stub r); k = ucast (drop_bit 32 star); u = ucast (drop_bit 48 star);
       pick = (\<lambda>sel. selected sel gdt_bootstrap_descriptors) in
   (seg_present (pick k) \<and> seg_is_code (pick k) \<and> seg_long (pick k) \<and> seg_dpl (pick k) = 0) \<and>
   (seg_present (pick (k + 8)) \<and> seg_is_data (pick (k + 8)) \<and> seg_dpl (pick (k + 8)) = 0) \<and>
   (seg_present (pick (u + 8)) \<and> seg_is_data (pick (u + 8)) \<and> seg_dpl (pick (u + 8)) = 3) \<and>
   (seg_present (pick (u + 16)) \<and> seg_is_code (pick (u + 16)) \<and> seg_long (pick (u + 16)) \<and> seg_dpl (pick (u + 16)) = 3) \<and>
   u + 16 = user_code_segment \<and> u + 8 = user_data_segment"
  by (simp add: syscall_load_def Let_def msr_numbers gdt_indices user_code_segment_def user_data_segment_def selected_def
      gdt_bootstrap_descriptors_def flat_gate_def gdt_flags seg_present_def seg_is_code_def seg_is_data_def seg_long_def seg_dpl_def bit_iff_odd)

subsection \<open>The interrupt table\<close>

definition gate_ok :: "u64 \<Rightarrow> u8 \<Rightarrow> idt_gate \<Rightarrow> bool" where
  "gate_ok addr ist g \<longleftrightarrow> gate_offset g = addr \<and> ig_ist g = ist \<and> gate_present g \<and> ig_selector g = kernel_code_segment \<and> ig_flags g = 0x8E"

lemma idt_set_gate_ok:
  assumes "idx < length gates" "ist = 0 \<or> ist = 1"
  shows "\<exists>g. idt_set_gate idx addr 0x8E ist gates = Inr (gates[idx := g]) \<and> gate_ok addr ist g"
proof -
  have "ist AND 7 = ist" using assms(2) by auto
  then show ?thesis using assms(1) offset_pieces[of addr]
    by (simp add: idt_set_gate_def)
       (rule exI, rule conjI, rule refl, simp add: gate_ok_def gate_offset_def gate_present_def bit_iff_odd)
qed

text \<open>The two loops set one gate per turn and leave the others.\<close>

lemma idt_gates_loop:
  assumes "k + n \<le> length gates" "\<forall>i. ist i = 0 \<or> ist i = 1"
  shows "\<exists>gates'. for_r (\<lambda>i. idt_set_gate (i + k) (stub i) 0x8E (ist i)) [0..<n] gates = Inr gates' \<and> length gates' = length gates \<and>
    (\<forall>i < n. gate_ok (stub i) (ist i) (gates' ! (k + i))) \<and> (\<forall>v. v < k \<or> k + n \<le> v \<longrightarrow> gates' ! v = gates ! v)"
proof -
  let ?I = "\<lambda>m g. length g = length gates \<and> (\<forall>i < m. gate_ok (stub i) (ist i) (g ! (k + i))) \<and> (\<forall>v. v < k \<or> k + m \<le> v \<longrightarrow> g ! v = gates ! v)"
  have "\<exists>gates'. for_r (\<lambda>i. idt_set_gate (i + k) (stub i) 0x8E (ist i)) [0..<n] gates = Inr gates' \<and> ?I n gates'"
  proof (rule for_r_rule[where I = ?I])
    show "?I 0 gates" by simp
  next
    fix m g assume m: "m < n" and I: "?I m g"
    then have "m + k < length g" using assms(1) by simp
    from idt_set_gate_ok[OF this assms(2)[rule_format], of "stub m"] obtain x where
      x: "idt_set_gate (m + k) (stub m) 0x8E (ist m) g = Inr (g[m + k := x])" "gate_ok (stub m) (ist m) x" by blast
    have "?I (Suc m) (g[m + k := x])" using I x(2) \<open>m + k < length g\<close>
      by (auto simp: less_Suc_eq nth_list_update add.commute)
    then show "\<exists>g'. idt_set_gate (m + k) (stub m) 0x8E (ist m) g = Inr g' \<and> ?I (Suc m) g'" using x(1) by blast
  qed
  then show ?thesis by blast
qed

text \<open>
  The interrupt table. \<^verbatim>\<open>idt_init\<close> never writes outside the table and leaves, whatever it held: for every exception and every line of
  the interrupt controllers a present gate whose three offset fields make up the address of its entry point, in the kernel's code segment,
  with the known-good stack exactly for the non-maskable interrupt, the double fault and the page fault; no other gate is present.
\<close>

lemma idt_init_gates:
  "\<exists>g. idt_init syms gates = Inr g \<and> length g = 256 \<and>
     (\<forall>v < 32. gate_ok (exc_stub_table syms v) (if v = 2 \<or> v = 8 \<or> v = 14 then 1 else 0) (g ! v)) \<and>
     (\<forall>i < 16. gate_ok (irq_stub_table syms i) 0 (g ! (32 + i))) \<and>
     (\<forall>v < 256. gate_present (g ! v) \<longleftrightarrow> v < 48)"
proof -
  let ?e = "replicate 256 empty_gate"
  let ?ist = "\<lambda>v :: nat. (if v = 8 \<or> v = 14 \<or> v = 2 then 1 else 0) :: u8"
  have a: "0 + 32 \<le> length ?e" and b: "\<forall>i. ?ist i = 0 \<or> ?ist i = 1" by simp_all
  obtain g1 where g1: "for_r (\<lambda>i. idt_set_gate (i + 0) (exc_stub_table syms i) 0x8E (?ist i)) [0..<32] ?e = Inr g1" "length g1 = length ?e"
    "\<forall>i < 32. gate_ok (exc_stub_table syms i) (?ist i) (g1 ! (0 + i))" "\<forall>v. v < 0 \<or> 0 + 32 \<le> v \<longrightarrow> g1 ! v = ?e ! v"
    using idt_gates_loop[OF a b, where stub = "exc_stub_table syms"] by blast
  obtain g2 where g2: "for_r (\<lambda>i. idt_set_gate (i + 32) (irq_stub_table syms i) 0x8E 0) [0..<16] g1 = Inr g2" "length g2 = length g1"
    "\<forall>i < 16. gate_ok (irq_stub_table syms i) 0 (g2 ! (32 + i))" "\<forall>v. v < 32 \<or> 32 + 16 \<le> v \<longrightarrow> g2 ! v = g1 ! v"
    using idt_gates_loop[of 32 16 g1 "\<lambda>_. 0" "irq_stub_table syms"] g1(2) by auto
  have run: "idt_init syms gates = Inr g2"
    using g1(1) g2(1) by (simp add: idt_init_def idt_consts Let_def del: upt_rec_numeral)
  have e: "\<not> gate_present empty_gate" by (simp add: gate_present_def empty_gate_def)
  have present: "gate_present (g2 ! v) \<longleftrightarrow> v < 48" if "v < 256" for v
  proof -
    consider "v < 32" | "32 \<le> v" "v < 48" | "48 \<le> v" by linarith
    then show ?thesis
    proof cases
      case 1
      then show ?thesis using g1(3) g2(4) by (simp add: gate_ok_def)
    next
      case 2
      then have "gate_ok (irq_stub_table syms (v - 32)) 0 (g2 ! (32 + (v - 32)))" by (intro g2(3)[rule_format]) simp
      then show ?thesis using 2 by (simp add: gate_ok_def)
    next
      case 3
      then show ?thesis using g1(4) g2(4) that e by simp
    qed
  qed
  show ?thesis using run g1 g2 present by (intro exI[of _ g2]) (auto simp: disj_commute disj_left_commute)
qed

end
