(* ===== verification/Interrupts.thy ===== *)
theory Interrupts
  imports Segments Pic Serial Scheduler
begin

section \<open>Interrupts (kernel/boot/isr.c, irq.c, exc.c, lapic.c; the page-fault handler of kernel/mem/vmm.c; kernel/panic.c)\<close>

text \<open>
  The state \<open>isys\<close> extends the kernel state with the tables of the interrupt code, the trace of device accesses and the console.
  The console is the text handed to the terminal library \<^verbatim>\<open>flanterm\<close>, which draws it on the screen. A function pointer that the source stores in a
  callback table is a number; the only callback that the kernel installs is \<^verbatim>\<open>pagefault_handler\<close>, number 1. A handler ends in one of
  two ways: it returns to the interrupted code, or it stops this CPU for good (\<^verbatim>\<open>cli\<close> and the endless \<^verbatim>\<open>hlt\<close>).
\<close>

subsection \<open>Data\<close>

datatype interrupt_controlflow = INTERRUPT_CONTROLFLOW_HALT | INTERRUPT_CONTROLFLOW_RETURN

record interrupt_frame =
  if_cr4 :: u64
  if_cr3 :: u64
  if_cr2 :: u64
  if_cr0 :: u64
  if_r15 :: u64
  if_r14 :: u64
  if_r13 :: u64
  if_r12 :: u64
  if_r11 :: u64
  if_r10 :: u64
  if_r9 :: u64
  if_r8 :: u64
  if_rdi :: u64
  if_rsi :: u64
  if_rdx :: u64
  if_rcx :: u64
  if_rbx :: u64
  if_rax :: u64
  if_rbp :: u64
  if_interrupt :: u64
  if_err_code :: u64
  if_rip :: u64
  if_cs :: u64
  if_rflags :: u64
  if_rsp :: u64
  if_dss :: u64

datatype isr_handler_fn = ISR_IRQ | ISR_LAPIC_TIMER | ISR_LAPIC_PANIC | ISR_LAPIC_SPURIOUS | ISR_LAPIC_TLB_FLUSH

record isys = ksys +
  io :: io_trace
  console_lock :: spinlock
  ft_ctx :: uptr
  console :: "u8 list"
  log_lock :: spinlock
  irq_callbacks :: "ref list"
  irq_lock :: spinlock
  exc_callbacks :: "ref list"
  exc_lock :: spinlock
  isr_table :: "isr_handler_fn option list"
  idt_gates :: "idt_gate list"
  madt_lapic_mmio :: uptr
  lapic_ticks_per_ms :: u32
  cpu_msrs :: msrs

text \<open>
  The console driver (kernel/drivers/console.c). The framebuffers are the response of the boot loader; \<open>flanterm_fb_init\<close> is the
  terminal library's, called with the fields of the first one and constants.
\<close>

record framebuffer =
  fb_address :: uptr
  fb_width :: u64
  fb_height :: u64
  fb_pitch :: u64
  fb_red_mask :: "u8 \<times> u8"
  fb_green_mask :: "u8 \<times> u8"
  fb_blue_mask :: "u8 \<times> u8"

definition console_init :: "(framebuffer \<Rightarrow> uptr) \<Rightarrow> framebuffer list option \<Rightarrow> 'a isys_scheme \<Rightarrow> 'a isys_scheme ending" where
  "console_init flanterm_fb_init framebuffer_response s =
     (case framebuffer_response of
        Some (fb # _) \<Rightarrow>
          let s = s\<lparr>console_lock := spinlock_init (console_lock s)\<rparr>;
              s = s\<lparr>ft_ctx := flanterm_fb_init fb\<rparr> in
          if ft_ctx s = 0 then Halts s else Returns s
      | _ \<Rightarrow> Halts s)"

definition console_write :: "'a isys_scheme consumer" where
  "console_write c s =
     rbind (spinlock_acquire (console_lock s)) (\<lambda>l.
     let s = s\<lparr>console_lock := l\<rparr>;
         s = (if ft_ctx s \<noteq> 0 then s\<lparr>console := console s @ chunk_bytes (mem (km s)) c\<rparr> else s);
         s = s\<lparr>io := serial_puts (mem (km s)) c (io s)\<rparr> in
     Inr (s\<lparr>console_lock := spinlock_release (console_lock s)\<rparr>))"

definition kprint :: "string \<Rightarrow> va list \<Rightarrow> 'a isys_scheme \<Rightarrow> 'a isys_scheme outcome" where
  "kprint fmt args s =
     rbind (klog console_write (map ch fmt) args (log_lock s, s)) (\<lambda>(l, s). Inr (s\<lparr>log_lock := l\<rparr>))"

subsection \<open>The local interrupt controller\<close>

definition APIC_REG_ID :: u32 where "APIC_REG_ID = 0x020"
definition APIC_REG_EOI :: u32 where "APIC_REG_EOI = 0x0B0"
definition APIC_REG_SVR :: u32 where "APIC_REG_SVR = 0x0F0"
definition APIC_REG_ICR_LOW :: u32 where "APIC_REG_ICR_LOW = 0x300"
definition APIC_REG_ICR_HIGH :: u32 where "APIC_REG_ICR_HIGH = 0x310"
definition APIC_REG_LVT_TIMER :: u32 where "APIC_REG_LVT_TIMER = 0x320"
definition APIC_REG_INITCNT :: u32 where "APIC_REG_INITCNT = 0x380"
definition APIC_REG_CURRCNT :: u32 where "APIC_REG_CURRCNT = 0x390"
definition APIC_REG_DIV :: u32 where "APIC_REG_DIV = 0x3E0"
definition APIC_SVR_SW_ENABLE :: u32 where "APIC_SVR_SW_ENABLE = push_bit 8 1"
definition APIC_LVT_MASK :: u32 where "APIC_LVT_MASK = push_bit 16 1"
definition APIC_LVT_PERIODIC :: u32 where "APIC_LVT_PERIODIC = push_bit 17 1"
definition APIC_BASE_ENABLE :: u64 where "APIC_BASE_ENABLE = push_bit 11 1"
definition IA32_APIC_BASE :: u64 where "IA32_APIC_BASE = 0x1B"
definition IDT_GATE_LAPIC_TIMER :: nat where "IDT_GATE_LAPIC_TIMER = 0xE0"
definition IDT_GATE_LAPIC_TLB_FLUSH :: nat where "IDT_GATE_LAPIC_TLB_FLUSH = 0xFD"
definition IDT_GATE_LAPIC_PANIC :: nat where "IDT_GATE_LAPIC_PANIC = 0xFE"
definition IDT_GATE_LAPIC_SPURIOUS :: nat where "IDT_GATE_LAPIC_SPURIOUS = 0xFF"
definition LAPIC_DIVIDE_BY_128 :: u32 where "LAPIC_DIVIDE_BY_128 = 0xB"
definition LAPIC_TIMER_TICK_MS :: u32 where "LAPIC_TIMER_TICK_MS = 1"

lemmas apic_consts = APIC_REG_ID_def APIC_REG_EOI_def APIC_REG_SVR_def APIC_REG_ICR_LOW_def APIC_REG_ICR_HIGH_def APIC_REG_LVT_TIMER_def
  APIC_REG_INITCNT_def APIC_REG_CURRCNT_def APIC_REG_DIV_def APIC_SVR_SW_ENABLE_def APIC_LVT_MASK_def APIC_LVT_PERIODIC_def
  APIC_BASE_ENABLE_def IA32_APIC_BASE_def LAPIC_DIVIDE_BY_128_def LAPIC_TIMER_TICK_MS_def
lemmas lapic_vectors = IDT_GATE_LAPIC_TIMER_def IDT_GATE_LAPIC_TLB_FLUSH_def IDT_GATE_LAPIC_PANIC_def IDT_GATE_LAPIC_SPURIOUS_def

definition madt_lapic_base :: "'a isys_scheme \<Rightarrow> uptr outcome" where
  "madt_lapic_base s = check (madt_lapic_mmio s \<noteq> 0) (Inr (madt_lapic_mmio s))"

text \<open>Each write is read back, which flushes it.\<close>

definition lapic_write :: "u32 \<Rightarrow> u32 \<Rightarrow> 'a isys_scheme \<Rightarrow> 'a isys_scheme outcome" where
  "lapic_write reg value s =
     rbind (madt_lapic_base s) (\<lambda>lapic_base.
     let addr = lapic_base + ucast reg in
     Inr (s\<lparr>io := mmio_write32 addr value (io s) @ [MmioR addr]\<rparr>))"

definition lapic_read :: "io_device \<Rightarrow> u32 \<Rightarrow> 'a isys_scheme \<Rightarrow> (u32 \<times> 'a isys_scheme) outcome" where
  "lapic_read d reg s =
     rbind (madt_lapic_base s) (\<lambda>lapic_base.
     let addr = lapic_base + ucast reg; (v, tr) = mmio_read32 d addr (io s) in
     Inr (v, s\<lparr>io := tr\<rparr>))"

definition lapic_eoi :: "'a isys_scheme \<Rightarrow> 'a isys_scheme outcome" where
  "lapic_eoi s = lapic_write APIC_REG_EOI 0 s"

definition lapic_enable_sw :: "'a isys_scheme \<Rightarrow> 'a isys_scheme outcome" where
  "lapic_enable_sw s =
     (let apic_base = rdmsr IA32_APIC_BASE (cpu_msrs s) OR APIC_BASE_ENABLE;
          s = s\<lparr>cpu_msrs := wrmsr IA32_APIC_BASE apic_base (cpu_msrs s)\<rparr> in
      lapic_write APIC_REG_SVR (APIC_SVR_SW_ENABLE OR of_nat IDT_GATE_LAPIC_SPURIOUS) s)"

definition lapic_program_timer_periodic :: "u32 \<Rightarrow> 'a isys_scheme \<Rightarrow> 'a isys_scheme outcome" where
  "lapic_program_timer_periodic ticks s =
     rbind (lapic_write APIC_REG_LVT_TIMER (APIC_LVT_MASK OR of_nat IDT_GATE_LAPIC_TIMER) s) (\<lambda>s.
     rbind (lapic_write APIC_REG_DIV LAPIC_DIVIDE_BY_128 s) (\<lambda>s.
     rbind (lapic_write APIC_REG_INITCNT (if ticks > 0 then ticks else 1) s) (\<lambda>s.
     lapic_write APIC_REG_LVT_TIMER (APIC_LVT_PERIODIC OR of_nat IDT_GATE_LAPIC_TIMER) s)))"

text \<open>The polling loop, with the number of turns left: each reads the output bit of the counter.\<close>

definition on_io :: "(io_trace \<Rightarrow> 'b \<times> io_trace) \<Rightarrow> 'a isys_scheme \<Rightarrow> 'b \<times> 'a isys_scheme" where
  "on_io f s = (let (v, tr) = f (io s) in (v, s\<lparr>io := tr\<rparr>))"

fun calibrate_poll :: "io_device \<Rightarrow> nat \<Rightarrow> 'a isys_scheme \<Rightarrow> 'a isys_scheme outcome" where
  "calibrate_poll d 0 s = Inl Panic"
| "calibrate_poll d (Suc n) s =
     (let (v, s) = on_io (inb d 0x61) s in
      if v AND push_bit 5 1 \<noteq> 0
      then rbind (lapic_read d APIC_REG_CURRCNT s) (\<lambda>(after, s).
        let elapsed = 0xFFFFFFFF - after in
        if elapsed < 10 then Inl Panic else Inr (s\<lparr>lapic_ticks_per_ms := elapsed div 10\<rparr>))
      else calibrate_poll d n s)"

definition lapic_calibrate :: "io_device \<Rightarrow> 'a isys_scheme \<Rightarrow> 'a isys_scheme outcome" where
  "lapic_calibrate d s =
     (let pit_reload = 11932 :: u16 in
     rbind (lapic_write APIC_REG_LVT_TIMER APIC_LVT_MASK s) (\<lambda>s.
     rbind (lapic_write APIC_REG_DIV LAPIC_DIVIDE_BY_128 s) (\<lambda>s.
     rbind (lapic_write APIC_REG_INITCNT 0xFFFFFFFF s) (\<lambda>s.
     let s = s\<lparr>io := outb 0x43 0xB0 (io s)\<rparr>;
         (spk, s) = on_io (inb d 0x61) s;
         s = s\<lparr>io := outb 0x61 ((spk AND NOT (push_bit 0 1)) OR push_bit 1 1) (io s)\<rparr>;
         s = s\<lparr>io := outb 0x42 (ucast (pit_reload AND 0xFF)) (io s)\<rparr>;
         s = s\<lparr>io := outb 0x42 (ucast (drop_bit 8 pit_reload)) (io s)\<rparr> in
     calibrate_poll d 2000000 s))))"

definition lapic_send_panic_ipi :: "'a isys_scheme \<Rightarrow> 'a isys_scheme outcome" where
  "lapic_send_panic_ipi s =
     rbind (lapic_write APIC_REG_ICR_HIGH 0 s) (lapic_write APIC_REG_ICR_LOW (push_bit 18 3 OR of_nat IDT_GATE_LAPIC_PANIC))"

definition lapic_send_tlb_flush_ipi :: "'a isys_scheme \<Rightarrow> 'a isys_scheme outcome" where
  "lapic_send_tlb_flush_ipi s =
     rbind (lapic_write APIC_REG_ICR_HIGH 0 s) (lapic_write APIC_REG_ICR_LOW (push_bit 18 3 OR of_nat IDT_GATE_LAPIC_TLB_FLUSH))"

definition lapic_configure_timer :: "stub_syms \<Rightarrow> 'a isys_scheme \<Rightarrow> 'a isys_scheme outcome" where
  "lapic_configure_timer syms s =
     rbind (idt_set_gate IDT_GATE_LAPIC_TIMER (lapic_timer_stub syms) 0x8E 0x01 (idt_gates s)) (\<lambda>g.
     rbind (idt_set_gate IDT_GATE_LAPIC_PANIC (lapic_panic_stub syms) 0x8E 0x01 g) (\<lambda>g.
     rbind (idt_set_gate IDT_GATE_LAPIC_SPURIOUS (lapic_spurious_stub syms) 0x8E 0x01 g) (\<lambda>g.
     rbind (idt_set_gate IDT_GATE_LAPIC_TLB_FLUSH (lapic_tlb_flush_stub syms) 0x8E 0x01 g) (\<lambda>g.
     rbind (lapic_enable_sw (s\<lparr>idt_gates := g\<rparr>)) (\<lambda>s.
     lapic_program_timer_periodic (lapic_ticks_per_ms s * LAPIC_TIMER_TICK_MS) s)))))"

subsection \<open>Panic\<close>

text \<open>
  \<^verbatim>\<open>panic\<close> tells the other CPUs, logs and halts. A failed assertion is itself a call of \<^verbatim>\<open>panic\<close>, also the one on the address of the
  local controller inside \<^verbatim>\<open>lapic_write\<close>: \<open>None\<close> is a chain of calls that does not end.
\<close>

definition assert_format :: string where
  "assert_format = ''Assertion failed: %s, file %s, line %d'' @ [CHR 0x0D, CHR 0x0A]"

partial_function (option) panic :: "(uptr \<Rightarrow> va list) \<Rightarrow> string \<Rightarrow> va list \<Rightarrow> 'a isys_scheme \<Rightarrow> 'a isys_scheme ending outcome option" where
  "panic assert_args fmt args s =
     (case lapic_send_panic_ipi s of
        Inl e \<Rightarrow> panic assert_args assert_format (assert_args (madt_lapic_mmio s)) s
      | Inr s \<Rightarrow> Some (
          rbind (kprint (''!!! KERNEL PANIC !!!'' @ [CHR 0x0D, CHR 0x0A]) [] s) (\<lambda>s.
          rbind (kprint fmt args s) (\<lambda>s. Inr (Halts s)))))"

subsection \<open>Lines of the interrupt controllers\<close>

definition irq_init :: "'a isys_scheme \<Rightarrow> 'a isys_scheme" where
  "irq_init s = s\<lparr>irq_lock := spinlock_init (irq_lock s)\<rparr>"

definition irq_get_callback :: "u8 \<Rightarrow> 'a isys_scheme \<Rightarrow> (ref \<times> 'a isys_scheme) outcome" where
  "irq_get_callback irq s =
     rbind (spinlock_acquire (irq_lock s)) (\<lambda>l.
     if unat irq < length (irq_callbacks s)
     then let cb = irq_callbacks s ! unat irq in Inr (cb, s\<lparr>irq_lock := spinlock_release l\<rparr>)
     else Inl OutOfBounds)"

definition irq_set_callback :: "io_device \<Rightarrow> u8 \<Rightarrow> ref \<Rightarrow> 'a isys_scheme \<Rightarrow> 'a isys_scheme outcome" where
  "irq_set_callback d irq cb s =
     rbind (spinlock_acquire (irq_lock s)) (\<lambda>l.
     if unat irq < length (irq_callbacks s)
     then let s = s\<lparr>irq_lock := l, irq_callbacks := (irq_callbacks s)[unat irq := cb]\<rparr> in
       rbind (pic_irq_clear_mask d irq (io s)) (\<lambda>tr.
       Inr (s\<lparr>io := tr, irq_lock := spinlock_release (irq_lock s)\<rparr>))
     else Inl OutOfBounds)"

definition irq_clear_callback :: "io_device \<Rightarrow> u8 \<Rightarrow> 'a isys_scheme \<Rightarrow> 'a isys_scheme outcome" where
  "irq_clear_callback d irq s =
     rbind (spinlock_acquire (irq_lock s)) (\<lambda>l.
     rbind (pic_irq_set_mask d irq (io s)) (\<lambda>tr.
     if unat irq < length (irq_callbacks s)
     then Inr (s\<lparr>io := tr, irq_callbacks := (irq_callbacks s)[unat irq := None], irq_lock := spinlock_release l\<rparr>)
     else Inl OutOfBounds))"

subsection \<open>Exceptions\<close>

definition exc_name_texts :: "string list" where
  "exc_name_texts =
     [''Division by zero'', ''Single-step interrupt'', ''Non maskable interrupt'', ''Breakpoint'', ''Overflow'',
      ''Bound Range Exceeded'', ''Invalid Opcode'', ''Coprocessor not available'', ''Double Fault'', ''Coprocessor Segment Overrun'',
      ''Invalid Task State Segment'', ''Segment Not Present'', ''Stack Segment Fault'', ''General Protection Fault'', ''Page Fault'',
      ''(reserved)'', ''x87 Floating Point Exception'', ''Alignment Check'', ''Machine Check'', ''SIMD Floating Point Exception'',
      ''Virtualization Exception'', ''Control Protection Exception''] @ replicate 10 ''(reserved)''"

text \<open>The literals lie at addresses the linker chooses, \<open>name_addr\<close>.\<close>

definition exc_names :: "(nat \<Rightarrow> uptr) \<Rightarrow> str list" where
  "exc_names name_addr = map (\<lambda>i. let n = of_nat (length (exc_name_texts ! i)) in
     \<lparr>s_data = name_addr i, s_length = n, s_capacity = n, s_owned = False\<rparr>) [0..<length exc_name_texts]"

definition exc_init :: "'a isys_scheme \<Rightarrow> 'a isys_scheme" where
  "exc_init s = s\<lparr>exc_lock := spinlock_init (exc_lock s)\<rparr>"

definition exc_get_callback :: "u8 \<Rightarrow> 'a isys_scheme \<Rightarrow> (ref \<times> 'a isys_scheme) outcome" where
  "exc_get_callback exc s =
     rbind (spinlock_acquire (exc_lock s)) (\<lambda>l.
     if unat exc < length (exc_callbacks s)
     then let cb = exc_callbacks s ! unat exc in Inr (cb, s\<lparr>exc_lock := spinlock_release l\<rparr>)
     else Inl OutOfBounds)"

definition exc_set_callback :: "u8 \<Rightarrow> ref \<Rightarrow> 'a isys_scheme \<Rightarrow> 'a isys_scheme outcome" where
  "exc_set_callback exc cb s =
     rbind (spinlock_acquire (exc_lock s)) (\<lambda>l.
     if unat exc < length (exc_callbacks s)
     then Inr (s\<lparr>exc_callbacks := (exc_callbacks s)[unat exc := cb], exc_lock := spinlock_release l\<rparr>) else Inl OutOfBounds)"

definition exc_clear_callback :: "u8 \<Rightarrow> 'a isys_scheme \<Rightarrow> 'a isys_scheme outcome" where
  "exc_clear_callback exc s =
     rbind (spinlock_acquire (exc_lock s)) (\<lambda>l.
     if unat exc < length (exc_callbacks s)
     then Inr (s\<lparr>exc_callbacks := (exc_callbacks s)[unat exc := None], exc_lock := spinlock_release l\<rparr>) else Inl OutOfBounds)"

text \<open>The messages of the two handlers, one pair of format and arguments per line.\<close>

fun kprint_all :: "(string \<times> va list) list \<Rightarrow> 'a isys_scheme \<Rightarrow> 'a isys_scheme outcome" where
  "kprint_all [] s = Inr s"
| "kprint_all ((fmt, args) # ps) s = rbind (kprint fmt args s) (kprint_all ps)"

definition exc_report :: "(nat \<Rightarrow> uptr) \<Rightarrow> interrupt_frame \<Rightarrow> (string \<times> va list) list" where
  "exc_report name_addr f =
     [(''[UNHANDLED EXCEPTION] %x - %s'', [VA_int (if_interrupt f), VA_str (exc_names name_addr ! unat (if_interrupt f))]),
      (''  CR0[%x] CR2[%x] CR3[%x] CR4[%x]'', [VA_int (if_cr0 f), VA_int (if_cr2 f), VA_int (if_cr3 f), VA_int (if_cr4 f)]),
      (''  RAX[%x] RBX[%x] RCX[%x] RDX[%x]'', [VA_int (if_rax f), VA_int (if_rbx f), VA_int (if_rcx f), VA_int (if_rdx f)]),
      (''  RSI[%x] RDI[%x] RSP[%x] RBP[%x]'', [VA_int (if_rsi f), VA_int (if_rdi f), VA_int (if_rsp f), VA_int (if_rbp f)]),
      (''  R8[%x] R9[%x] R10[%x] R11[%x]'', [VA_int (if_r8 f), VA_int (if_r9 f), VA_int (if_r10 f), VA_int (if_r11 f)]),
      (''  R12[%x] R13[%x] R14[%x] R15[%x]'', [VA_int (if_r12 f), VA_int (if_r13 f), VA_int (if_r14 f), VA_int (if_r15 f)]),
      (''  CS[%x] RIP[%x] CODE[%x] RFLAGS[%x]'', [VA_int (if_cs f), VA_int (if_rip f), VA_int (if_err_code f), VA_int (if_rflags f)])]"

subsection \<open>Page faults\<close>

definition err_bit :: "nat \<Rightarrow> interrupt_frame \<Rightarrow> u64" where
  "err_bit i f = drop_bit i (if_err_code f) AND 1"

definition fault_report :: "interrupt_frame \<Rightarrow> (string \<times> va list) list" where
  "fault_report f =
     [('' ADDRESS:   %x'', [VA_int (if_cr2 f)]),
      ('' LOCATION:  %x'', [VA_int (if_rip f)]),
      ('' ERROR:     P=%d WR=%d US=%d RSVD=%d ID=%d PK=%d SS=%d'', map (\<lambda>i. VA_int (err_bit i f)) [0..<7]),
      ('' REGISTERS:'', []),
      (''  CR0[%x]'', [VA_int (if_cr0 f)]),
      (''  CR3[%x]'', [VA_int (if_cr3 f)]),
      (''  CR4[%x]'', [VA_int (if_cr4 f)]),
      (''  RFLAGS[%x]'', [VA_int (if_rflags f)])]"

definition TASK_EXIT_FAIL_SEGFAULT :: i32 where "TASK_EXIT_FAIL_SEGFAULT = - 1"

definition pagefault_handler :: "interrupt_frame \<Rightarrow> interrupt_controlflow \<Rightarrow> 'a isys_scheme \<Rightarrow> (interrupt_controlflow \<times> 'a isys_scheme) outcome" where
  "pagefault_handler iframe cf s =
     rbind (mp_get_percpu_data s) (\<lambda>(i, cpu).
     case sc_current (pc_scheduler cpu) of
       Some cur \<Rightarrow>
         if if_err_code iframe AND 4 \<noteq> 0
         then rbind (kprint_all ([([CHR 0x0D, CHR 0x0A] @ ''=== SEGMENTATION FAULT ==='', []), ('' TASK: %d'', [VA_int (ucast (t_id (tasks s cur)))])]
                @ fault_report iframe) s) (\<lambda>s.
              rbind (scheduler_kill_current_task TASK_EXIT_FAIL_SEGFAULT s) (\<lambda>s. Inr (INTERRUPT_CONTROLFLOW_RETURN, s)))
         else rbind (kprint_all ((''=== PAGE FAULT ==='', []) # fault_report iframe) s) (\<lambda>s. Inr (INTERRUPT_CONTROLFLOW_HALT, s))
     | None \<Rightarrow> rbind (kprint_all ((''=== PAGE FAULT ==='', []) # fault_report iframe) s) (\<lambda>s. Inr (INTERRUPT_CONTROLFLOW_HALT, s)))"

definition call_interrupt_cb :: "nat \<Rightarrow> interrupt_frame \<Rightarrow> interrupt_controlflow \<Rightarrow> 'a isys_scheme \<Rightarrow> (interrupt_controlflow \<times> 'a isys_scheme) outcome" where
  "call_interrupt_cb cb iframe cf s = (if cb = 1 then pagefault_handler iframe cf s else Inl NullDeref)"

subsection \<open>The generic handlers\<close>

definition halt_if :: "interrupt_controlflow \<Rightarrow> 's \<Rightarrow> 's ending" where
  "halt_if cf s = (case cf of INTERRUPT_CONTROLFLOW_HALT \<Rightarrow> Halts s | INTERRUPT_CONTROLFLOW_RETURN \<Rightarrow> Returns s)"

definition exc_handler :: "(nat \<Rightarrow> uptr) \<Rightarrow> interrupt_frame \<Rightarrow> 'a isys_scheme \<Rightarrow> 'a isys_scheme ending outcome" where
  "exc_handler name_addr iframe s =
     rbind (exc_get_callback (ucast (if_interrupt iframe)) s) (\<lambda>(cb, s).
     case cb of
       Some f \<Rightarrow> rbind (call_interrupt_cb f iframe INTERRUPT_CONTROLFLOW_HALT s) (\<lambda>(cf, s). Inr (halt_if cf s))
     | None \<Rightarrow>
         if unat (if_interrupt iframe) < length (exc_names name_addr)
         then rbind (kprint_all (exc_report name_addr iframe) s) (\<lambda>s. Inr (halt_if INTERRUPT_CONTROLFLOW_HALT s))
         else Inl OutOfBounds)"

definition irq_handler :: "interrupt_frame \<Rightarrow> 'a isys_scheme \<Rightarrow> 'a isys_scheme ending outcome" where
  "irq_handler iframe s =
     (let irq = if_interrupt iframe - of_nat IDT_NUM_EXCEPTIONS in
     rbind (irq_get_callback (ucast irq) s) (\<lambda>(cb, s).
     rbind (case cb of None \<Rightarrow> Inr (INTERRUPT_CONTROLFLOW_RETURN, s) | Some f \<Rightarrow> call_interrupt_cb f iframe INTERRUPT_CONTROLFLOW_RETURN s) (\<lambda>(cf, s).
     Inr (halt_if cf (s\<lparr>io := pic_eoi (ucast irq) (io s)\<rparr>)))))"

definition lapic_timer_handler :: "('a isys_ext ksys_ext) release_fn \<Rightarrow> 'a isys_scheme \<Rightarrow> 'a isys_scheme ending outcome" where
  "lapic_timer_handler rel s =
     rbind (scheduler_tick rel (1000000 * ucast LAPIC_TIMER_TICK_MS) s) (\<lambda>s. rbind (lapic_eoi s) (\<lambda>s. Inr (Returns s)))"

definition lapic_panic_handler :: "'a isys_scheme \<Rightarrow> 'a isys_scheme ending outcome" where
  "lapic_panic_handler s = Inr (Halts s)"

definition lapic_spurious_handler :: "'a isys_scheme \<Rightarrow> 'a isys_scheme ending outcome" where
  "lapic_spurious_handler s = rbind (lapic_eoi s) (\<lambda>s. Inr (Returns s))"

definition lapic_tlb_flush_handler :: "'a isys_scheme \<Rightarrow> 'a isys_scheme ending outcome" where
  "lapic_tlb_flush_handler s = rbind (lapic_eoi (s\<lparr>km := vmm_tlb_flush_handle (km s)\<rparr>)) (\<lambda>s. Inr (Returns s))"

subsection \<open>The table of handlers\<close>

definition isr_init :: "'a isys_scheme \<Rightarrow> 'a isys_scheme" where
  "isr_init s =
     (let t = fold (\<lambda>i t. t[IDT_NUM_EXCEPTIONS + i := Some ISR_IRQ]) [0..<IDT_NUM_IRQS] (isr_table s);
          t = t[IDT_GATE_LAPIC_TIMER := Some ISR_LAPIC_TIMER];
          t = t[IDT_GATE_LAPIC_PANIC := Some ISR_LAPIC_PANIC];
          t = t[IDT_GATE_LAPIC_SPURIOUS := Some ISR_LAPIC_SPURIOUS];
          t = t[IDT_GATE_LAPIC_TLB_FLUSH := Some ISR_LAPIC_TLB_FLUSH] in
      s\<lparr>isr_table := t\<rparr>)"

definition call_isr :: "('a isys_ext ksys_ext) release_fn \<Rightarrow> isr_handler_fn \<Rightarrow> interrupt_frame \<Rightarrow> 'a isys_scheme \<Rightarrow> 'a isys_scheme ending outcome" where
  "call_isr rel h iframe s =
     (case h of
        ISR_IRQ \<Rightarrow> irq_handler iframe s
      | ISR_LAPIC_TIMER \<Rightarrow> lapic_timer_handler rel s
      | ISR_LAPIC_PANIC \<Rightarrow> lapic_panic_handler s
      | ISR_LAPIC_SPURIOUS \<Rightarrow> lapic_spurious_handler s
      | ISR_LAPIC_TLB_FLUSH \<Rightarrow> lapic_tlb_flush_handler s)"

definition isr_handler :: "('a isys_ext ksys_ext) release_fn \<Rightarrow> interrupt_frame \<Rightarrow> 'a isys_scheme \<Rightarrow> 'a isys_scheme ending outcome" where
  "isr_handler rel iframe s =
     (case isr_table s ! unat (ucast (if_interrupt iframe) :: u8) of
        None \<Rightarrow> Inr (Returns s)
      | Some h \<Rightarrow> call_isr rel h iframe s)"

end
