(* ===== verification/Klog.thy ===== *)
theory Klog
  imports Interrupts Format_Props Task_Props
begin

section \<open>The log in the kernel state\<close>

text \<open>
  When a message can be logged: the locks of the log and of the console are free, and the arguments have the number and the types
  that the format asks for. Then the call returns and its text is on the screen and on the serial port. Page faults, exceptions and panics report through it.
\<close>

lemma log_formatter_eq: "log_formatter consume = consume"
  by (simp add: log_formatter_def fun_eq_iff)

text \<open>What a message adds to the two outputs of the console.\<close>

definition printed :: "u8 list \<Rightarrow> 'a isys_scheme \<Rightarrow> 'a isys_scheme" where
  "printed bs s = s\<lparr>console := (if ft_ctx s \<noteq> 0 then console s @ bs else console s), io := io s @ map (Out8 0x3F8) bs\<rparr>"

lemma printed_sel [simp]:
  "log_lock (printed bs s) = log_lock s" "console_lock (printed bs s) = console_lock s" "ft_ctx (printed bs s) = ft_ctx s"
  "io (printed bs s) = io s @ map (Out8 0x3F8) bs" "km (printed bs s) = km s" "cpus (printed bs s) = cpus s" "tasks (printed bs s) = tasks s"
  "madt_lapic_mmio (printed bs s) = madt_lapic_mmio s"
  "ft_ctx s \<noteq> 0 \<Longrightarrow> console (printed bs s) = console s @ bs"
  by (simp_all add: printed_def)

lemma printed_Nil: "printed [] s = s"
  by (cases s) (simp add: printed_def)

lemma printed_append: "printed cs (printed bs s) = printed (bs @ cs) s"
  by (cases s) (simp add: printed_def)

text \<open>Both locks of the way to the console are free.\<close>

definition can_log :: "'a isys_scheme \<Rightarrow> bool" where
  "can_log s \<longleftrightarrow> log_lock s = unlocked \<and> console_lock s = unlocked"

lemma can_log_printed [simp]: "can_log (printed bs s) = can_log s"
  by (simp add: can_log_def)

lemma console_write_ok:
  assumes "console_lock s = unlocked"
  shows "console_write c s = Inr (printed (chunk_bytes (mem (km s)) c) s)"
  using assms by (cases s) (simp add: console_write_def printed_def serial_puts_eq)

lemma feed_console:
  "console_lock s = unlocked \<Longrightarrow> feed console_write cs s = Inr (printed (text_of (mem (km s)) cs) s)"
  by (induction cs arbitrary: s) (simp_all add: console_write_ok printed_Nil printed_append)

lemma kprint_exact:
  assumes "fmt_chunks (map ch fmt) args = Inr cs" "can_log s"
  shows "kprint fmt args s = Inr (printed (text_of (mem (km s)) cs @ [13, 10]) s)"
proof -
  have l: "log_lock s = unlocked" "console_lock s = unlocked" using assms(2) by (simp_all add: can_log_def)
  have a: "formatter_apply_v console_write (map ch fmt) args s = feed console_write cs s" by (rule formatter_apply_v_eq[OF assms(1)])
  have "(printed bs s)\<lparr>log_lock := unlocked\<rparr> = printed bs s" for bs using l(1) by (cases s) (simp add: printed_def)
  then show ?thesis using l a
    by (simp add: kprint_def klog_def vklog_def log_formatter_eq feed_console console_write_ok printed_append chunk_bytes_def)
qed

lemma kprint_ok:
  assumes "fmt_fits fmt args" "can_log s"
  shows "\<exists>bs. kprint fmt args s = Inr (printed bs s)"
  using fmt_fits_chunks[OF assms(1)] kprint_exact[OF _ assms(2)] by blast

lemma kprint_all_ok:
  assumes "list_all (\<lambda>(fmt, args). fmt_fits fmt args) ps" "can_log s"
  shows "\<exists>bs. kprint_all ps s = Inr (printed bs s)"
  using assms
proof (induction ps arbitrary: s)
  case Nil
  show ?case using printed_Nil[of s] by (metis kprint_all.simps(1))
next
  case (Cons p ps)
  obtain fmt args where p: "p = (fmt, args)" by (cases p)
  obtain c where c: "kprint fmt args s = Inr (printed c s)" using kprint_ok[of fmt args s] Cons.prems p by auto
  obtain d where d: "kprint_all ps (printed c s) = Inr (printed d (printed c s))" using Cons.IH[of "printed c s"] Cons.prems by auto
  show ?case using c d p by (auto simp: printed_append)
qed

text \<open>The reports of the handlers fit.\<close>

lemma fault_report_fits: "list_all (\<lambda>(fmt, args). fmt_fits fmt args) (fault_report f)"
  by (simp add: fault_report_def upt_rec)

lemma exc_report_fits: "list_all (\<lambda>(fmt, args). fmt_fits fmt args) (exc_report name_addr f)"
  by (simp add: exc_report_def)

end
