(* ===== verification/Interrupts_Props.thy ===== *)
theory Interrupts_Props
  imports Klog Segments_Props
begin

section \<open>Interrupts: properties\<close>

subsection \<open>Panic\<close>

text \<open>Until the address of the local controller is known every access to it fails its assertion.\<close>

lemma lapic_write_no_base: "madt_lapic_mmio s = 0 \<Longrightarrow> lapic_write reg v s = Inl AssertFail"
  by (simp add: lapic_write_def madt_lapic_base_def)

lemma lapic_write_ok:
  "madt_lapic_mmio s \<noteq> 0 \<Longrightarrow> lapic_write reg v s =
     Inr (s\<lparr>io := io s @ [MmioW (madt_lapic_mmio s + ucast reg) v, MmioR (madt_lapic_mmio s + ucast reg)]\<rparr>)"
  by (simp add: lapic_write_def madt_lapic_base_def mmio_write32_def Let_def)

lemma lapic_send_panic_ipi_ok:
  "madt_lapic_mmio s \<noteq> 0 \<Longrightarrow> lapic_send_panic_ipi s = Inr (s\<lparr>io := io s @
     [MmioW (madt_lapic_mmio s + 0x310) 0, MmioR (madt_lapic_mmio s + 0x310),
      MmioW (madt_lapic_mmio s + 0x300) 0xC00FE, MmioR (madt_lapic_mmio s + 0x300)]\<rparr>)"
  by (simp add: lapic_send_panic_ipi_def lapic_write_ok apic_consts lapic_vectors)

lemma panic_no_base:
  assumes "panic aa fmt args s = Some r"
  shows "madt_lapic_mmio s \<noteq> 0"
proof (rule panic.raw_induct[where P = "\<lambda>aa fmt args s r. madt_lapic_mmio s \<noteq> 0", OF _ assms])
  fix rec :: "(uptr \<Rightarrow> va list) \<Rightarrow> string \<Rightarrow> va list \<Rightarrow> 'a isys_scheme \<Rightarrow> 'a isys_scheme ending outcome option" and aa fmt args s r
  assume IH: "\<And>aa fmt args s r. rec aa fmt args s = Some r \<Longrightarrow> madt_lapic_mmio s \<noteq> 0"
    and r: "(case lapic_send_panic_ipi s of
        Inl e \<Rightarrow> rec aa assert_format (aa (madt_lapic_mmio s)) s
      | Inr s \<Rightarrow> Some (
          rbind (kprint (''!!! KERNEL PANIC !!!'' @ [CHR 0x0D, CHR 0x0A]) [] s) (\<lambda>s.
          rbind (kprint fmt args s) (\<lambda>s. Inr (Halts s))))) = Some r"
  show "madt_lapic_mmio s \<noteq> 0"
  proof
    assume z: "madt_lapic_mmio s = 0"
    then have "lapic_send_panic_ipi s = Inl AssertFail" by (simp add: lapic_send_panic_ipi_def lapic_write_no_base)
    then have "rec aa assert_format (aa (madt_lapic_mmio s)) s = Some r" using r by simp
    from IH[OF this] z show False by simp
  qed
qed

text \<open>
  C31: When a panic ends. Once the address of the local interrupt controller is known and the log can be used, \<^verbatim>\<open>panic\<close>
  interrupts every other CPU with the vector that halts it, logs and halts this CPU. Before that (during \<^verbatim>\<open>acpi_load\<close> and
  \<^verbatim>\<open>madt_mmio_load\<close>, whose error paths all panic) it never does: the failed assertion inside \<^verbatim>\<open>lapic_write\<close> calls \<^verbatim>\<open>panic\<close> again,
  without end and without a message.
\<close>

theorem panic_ends_iff_lapic_known:
  assumes "can_log s" "fmt_fits fmt args"
  shows "(madt_lapic_mmio s = 0 \<longrightarrow> panic aa fmt args s = None) \<and>
    (madt_lapic_mmio s \<noteq> 0 \<longrightarrow> (\<exists>bs. panic aa fmt args s = Some (Inr (Halts (printed bs (s\<lparr>io := io s @
       [MmioW (madt_lapic_mmio s + 0x310) 0, MmioR (madt_lapic_mmio s + 0x310),
        MmioW (madt_lapic_mmio s + 0x300) 0xC00FE, MmioR (madt_lapic_mmio s + 0x300)]\<rparr>))))))"
proof (intro conjI impI)
  assume "madt_lapic_mmio s = 0"
  then show "panic aa fmt args s = None" using panic_no_base[of aa fmt args s] by (cases "panic aa fmt args s") auto
next
  assume b: "madt_lapic_mmio s \<noteq> 0"
  let ?s = "s\<lparr>io := io s @ [MmioW (madt_lapic_mmio s + 0x310) 0, MmioR (madt_lapic_mmio s + 0x310),
        MmioW (madt_lapic_mmio s + 0x300) 0xC00FE, MmioR (madt_lapic_mmio s + 0x300)]\<rparr>"
  have l: "can_log ?s" using assms(1) by (simp add: can_log_def)
  obtain c where c: "kprint (''!!! KERNEL PANIC !!!'' @ [CHR 0x0D, CHR 0x0A]) [] ?s = Inr (printed c ?s)"
    using kprint_ok[of "''!!! KERNEL PANIC !!!'' @ [CHR 0x0D, CHR 0x0A]" "[]" ?s] l by auto
  obtain d where d: "kprint fmt args (printed c ?s) = Inr (printed d (printed c ?s))"
    using kprint_ok[of fmt args "printed c ?s"] assms l by auto
  have "panic aa fmt args s = Some (Inr (Halts (printed (c @ d) ?s)))"
    using c d by (subst panic.simps) (simp add: lapic_send_panic_ipi_ok[OF b] printed_append)
  then show "\<exists>bs. panic aa fmt args s = Some (Inr (Halts (printed bs ?s)))" by blast
qed

text \<open>A kernel whose interrupt tables have just been set up; the controller's address is not known yet.\<close>

definition isys_demo :: isys where
  "isys_demo = ksys.extend exit_demo (isys.fields [] unlocked 1 [] unlocked (replicate 16 None) unlocked ((replicate 32 None)[14 := Some 1])
     unlocked (replicate 256 None) (replicate 256 empty_gate) 0 0 (\<lambda>_. 0))"

lemma isys_demo_simps [simp]:
  "log_lock isys_demo = unlocked" "console_lock isys_demo = unlocked" "ft_ctx isys_demo = 1" "console isys_demo = []" "madt_lapic_mmio isys_demo = 0" "io isys_demo = []" "exc_lock isys_demo = unlocked"
  "irq_lock isys_demo = unlocked" "irq_callbacks isys_demo = replicate 16 None" "isr_table isys_demo = replicate 256 None"
  "idt_gates isys_demo = replicate 256 empty_gate" "exc_callbacks isys_demo = (replicate 32 None)[14 := Some 1]"
  by (simp_all add: isys_demo_def ksys.defs isys.defs)

lemma isys_demo_can_log [simp]: "can_log isys_demo" "can_log (isys_demo\<lparr>madt_lapic_mmio := b\<rparr>)"
  by (simp_all add: can_log_def)

theorem panic_ends_iff_lapic_known_witness:
  "panic (\<lambda>_. []) ''[acpi] invalid RSDP checksum'' [] isys_demo = None \<and>
   (\<exists>s'. panic (\<lambda>_. []) ''[heap] %x'' [VA_int 5] (isys_demo\<lparr>madt_lapic_mmio := 0xFEE00000\<rparr>) = Some (Inr (Halts s')))"
proof -
  have "panic (\<lambda>_. []) ''[acpi] invalid RSDP checksum'' [] isys_demo = None"
    using panic_ends_iff_lapic_known[of isys_demo "''[acpi] invalid RSDP checksum''" "[]" "\<lambda>_. []"] by (simp add: can_log_def)
  moreover have "\<exists>s'. panic (\<lambda>_. []) ''[heap] %x'' [VA_int 5] (isys_demo\<lparr>madt_lapic_mmio := 0xFEE00000\<rparr>) = Some (Inr (Halts s'))"
    using panic_ends_iff_lapic_known[of "isys_demo\<lparr>madt_lapic_mmio := 0xFEE00000\<rparr>" "''[heap] %x''" "[VA_int 5]" "\<lambda>_. []"] by (auto simp: can_log_def)
  ultimately show ?thesis by blast
qed

subsection \<open>Page faults\<close>

lemma joined_frame:
  "joined i a js tq cq (printed c s) = joined i a js tq cq s"
  "woken (printed c s) = woken s"
  by (simp_all add: printed_def joined_def queues_def off_queues_def rq_holds_def wq_holds_def mp_get_cpu_count_def woken_def fun_eq_iff)

lemma exc_get_callback_eq:
  assumes "exc_lock s = unlocked" "unat exc < length (exc_callbacks s)"
  shows "exc_get_callback exc s = Inr (exc_callbacks s ! unat exc, s)"
proof -
  have "s\<lparr>exc_lock := unlocked\<rparr> = s" using assms(1) by (cases s) simp
  then show ?thesis using assms by (simp add: exc_get_callback_def)
qed

text \<open>
  The state after task \<open>a\<close> on CPU \<open>i\<close> was killed: it is a zombie at the end of the cleanup queue, the tasks \<open>js\<close> that joined it are ready, task \<open>n\<close>,
  the first of the run queue, runs, and no other task changed its state.
\<close>

definition task_killed :: "nat \<Rightarrow> nat \<Rightarrow> nat \<Rightarrow> nat list \<Rightarrow> nat list \<Rightarrow> (nat \<Rightarrow> nat list) \<Rightarrow> (nat \<Rightarrow> nat list) \<Rightarrow> i32 \<Rightarrow> 'a ksys_scheme \<Rightarrow> 'a ksys_scheme \<Rightarrow> bool" where
  "task_killed i a n ts js tq cq code s s' \<longleftrightarrow>
     queues s' ((woken s tq js)(i := ts)) (cq(i := cq i @ [a])) \<and> sc_current (sched i s') = Some n \<and>
     (\<forall>t. t_state (tasks s' t) = (if t = n then TH_TASK_STATE_RUNNING (processor_id (cpus s ! i)) else if t = a then TH_TASK_STATE_ZOMBIE code
       else if t \<in> set js then TH_TASK_STATE_READY else t_state (tasks s t)))"

lemma task_killed_frame: "task_killed i a n ts js tq cq code (printed c s) = task_killed i a n ts js tq cq code s"
  by (simp add: task_killed_def joined_frame fun_eq_iff)

text \<open>A fault of user code while a task runs, and any other one.\<close>

lemma user_fault_handler:
  assumes j: "joined i a js tq cq s" and n: "woken s tq js i = n # ts" "sc_idle (sched i s) \<noteq> Some n" "pmap (tasks s n) = Some p"
    and off: "hhdm_resp (km s) = Some off" and l: "can_log s" and u: "if_err_code f AND 4 \<noteq> 0"
  shows "\<exists>s'. pagefault_handler f cf s = Inr (INTERRUPT_CONTROLFLOW_RETURN, s') \<and> task_killed i a n ts js tq cq (- 1) s s'"
proof -
  let ?msgs = "([CHR 0x0D, CHR 0x0A] @ ''=== SEGMENTATION FAULT ==='', []) # ('' TASK: %d'', [VA_int (ucast (t_id (tasks s a)))]) # fault_report f"
  obtain c where c: "kprint_all ?msgs s = Inr (printed c s)"
    using kprint_all_ok[of ?msgs s] fault_report_fits l by auto
  have cpu: "mp_get_percpu_data s = Inr (i, cpus s ! i)" "sc_current (sched i s) = Some a"
    using j by (auto simp: joined_def mp_get_percpu_data_def)
  have j': "joined i a js tq cq (printed c s)" "woken (printed c s) tq js i = n # ts" using j n(1) by (simp_all add: joined_frame)
  have h: "sc_idle (sched i (printed c s)) \<noteq> Some n" "pmap (tasks (printed c s) n) = Some p"
    "hhdm_resp (km (printed c s)) = Some off" using n off by simp_all
  obtain s' where k: "scheduler_kill_current_task (- 1) (printed c s) = Inr s'" "task_killed i a n ts js tq cq (- 1) (printed c s) s'"
    using kill_current_ok[OF j' h, of "- 1"] unfolding task_killed_def by blast
  have "pagefault_handler f cf s = Inr (INTERRUPT_CONTROLFLOW_RETURN, s')"
    using c cpu u k(1) by (simp add: pagefault_handler_def TASK_EXIT_FAIL_SEGFAULT_def del: kprint_all.simps)
  with k(2) show ?thesis unfolding task_killed_frame by blast
qed

lemma kernel_fault_handler:
  assumes "this_cpu (km s) < length (cpus s)" "can_log s" "if_err_code f AND 4 = 0 \<or> sc_current (sched (this_cpu (km s)) s) = None"
  shows "\<exists>bs. pagefault_handler f cf s = Inr (INTERRUPT_CONTROLFLOW_HALT, printed bs s)"
proof -
  obtain c where "kprint_all ((''=== PAGE FAULT ==='', []) # fault_report f) s = Inr (printed c s)"
    using kprint_all_ok[of "(''=== PAGE FAULT ==='', []) # fault_report f" s] fault_report_fits assms(2) by auto
  moreover have "pagefault_handler f cf s =
      rbind (kprint_all ((''=== PAGE FAULT ==='', []) # fault_report f) s) (\<lambda>s. Inr (INTERRUPT_CONTROLFLOW_HALT, s))"
  proof (cases "sc_current (sched (this_cpu (km s)) s)")
    case None
    then show ?thesis using assms(1) by (simp only: pagefault_handler_def mp_get_percpu_data_def if_True rbind_Inr prod.case option.case)
  next
    case (Some t)
    then have "if_err_code f AND 4 = 0" using assms(3) by simp
    then show ?thesis using Some assms(1)
      by (simp only: pagefault_handler_def mp_get_percpu_data_def if_True if_False rbind_Inr prod.case option.case not_True_eq_False simp_thms)
  qed
  ultimately show ?thesis by (simp only: rbind_Inr) blast
qed

text \<open>
  C29: A page fault. With the handler installed, a fault in user mode ends the task that ran and no other: the task is a zombie with
  exit code -1 on the cleanup queue, every task that joined it is ready again, the first task of the run queue runs, and the exception
  returns. A fault in kernel mode halts the CPU and changes no task.
\<close>

theorem pagefault_kills_user_task:
  assumes j: "joined i a js tq cq s" and n: "woken s tq js i = n # ts" "sc_idle (sched i s) \<noteq> Some n" "pmap (tasks s n) = Some p"
    and off: "hhdm_resp (km s) = Some off" and l: "can_log s" "exc_lock s = unlocked"
    and cb: "length (exc_callbacks s) = 32" "exc_callbacks s ! 14 = Some 1" and f: "if_interrupt f = 14"
  shows "(if_err_code f AND 4 \<noteq> 0 \<longrightarrow> (\<exists>s'. exc_handler names f s = Inr (Returns s') \<and> task_killed i a n ts js tq cq (- 1) s s')) \<and>
    (if_err_code f AND 4 = 0 \<longrightarrow> (\<exists>bs. exc_handler names f s = Inr (Halts (printed bs s))))"
proof (intro conjI impI)
  have g: "exc_get_callback 14 s = Inr (Some 1, s)" using exc_get_callback_eq[of s 14] l cb by simp
  {
    assume "if_err_code f AND 4 \<noteq> 0"
    from user_fault_handler[OF j n off l(1) this, of INTERRUPT_CONTROLFLOW_HALT] show "\<exists>s'. exc_handler names f s = Inr (Returns s') \<and> task_killed i a n ts js tq cq (- 1) s s'"
      using g f by (auto simp: exc_handler_def call_interrupt_cb_def halt_if_def)
  next
    assume "if_err_code f AND 4 = 0"
    moreover have "this_cpu (km s) < length (cpus s)" using j by (simp add: joined_def)
    ultimately obtain c where "pagefault_handler f INTERRUPT_CONTROLFLOW_HALT s = Inr (INTERRUPT_CONTROLFLOW_HALT, printed c s)"
      using kernel_fault_handler[of s f] l(1) by blast
    then show "\<exists>bs. exc_handler names f s = Inr (Halts (printed bs s))"
      using g f by (auto simp: exc_handler_def call_interrupt_cb_def halt_if_def)
  }
qed

definition fault_frame :: "u64 \<Rightarrow> interrupt_frame" where
  "fault_frame code = \<lparr>if_cr4 = 0, if_cr3 = 0, if_cr2 = 0xDEAD, if_cr0 = 0, if_r15 = 0, if_r14 = 0, if_r13 = 0, if_r12 = 0, if_r11 = 0, if_r10 = 0,
     if_r9 = 0, if_r8 = 0, if_rdi = 0, if_rsi = 0, if_rdx = 0, if_rcx = 0, if_rbx = 0, if_rax = 0, if_rbp = 0, if_interrupt = 14,
     if_err_code = code, if_rip = 0x400000, if_cs = 0, if_rflags = 0, if_rsp = 0, if_dss = 0\<rparr>"

lemma isys_demo_ksys: "ksys.truncate isys_demo = exit_demo"
  by (simp add: isys_demo_def ksys.defs)

theorem pagefault_kills_user_task_witness:
  "\<exists>s'. exc_handler (\<lambda>_. 0) (fault_frame 6) isys_demo = Inr (Returns s') \<and> t_state (tasks s' 1) = TH_TASK_STATE_ZOMBIE (- 1) \<and>
     t_state (tasks s' 2) = TH_TASK_STATE_RUNNING 0"
proof -
  have j: "joined 0 1 [2] (\<lambda>_. []) (\<lambda>_. []) isys_demo"
    by (auto simp: joined_def isys_demo_def ksys.defs isys.defs exit_demo_def ksys_demo_def percpu_demo_def vm_demo_def task_demo_def queues_def off_queues_def
      rq_holds_def rq_empty_def wq_holds_def dll_def task_cpu_def mp_get_cpu_count_def)
  have h: "woken isys_demo (\<lambda>_. []) [2] 0 = [2]" "sc_idle (sched 0 isys_demo) \<noteq> Some 2" "pmap (tasks isys_demo 2) = Some 0"
    "hhdm_resp (km isys_demo) = Some 268435456" "processor_id (cpus isys_demo ! 0) = 0"
    by (simp_all add: woken_def isys_demo_def ksys.defs exit_demo_def ksys_demo_def percpu_demo_def vm_demo_def task_demo_def task_cpu_def)
  show ?thesis
    using pagefault_kills_user_task[OF j h(1-4), of "fault_frame 6" "\<lambda>_. 0"] h(5) by (auto simp: fault_frame_def task_killed_def)
qed

end
