(* ===== verification/Irq_Props.thy ===== *)
theory Irq_Props
  imports Interrupts_Props
begin

section \<open>Interrupt delivery and the timer: properties\<close>

subsection \<open>Calibrating the timer\<close>

text \<open>The accesses before the polling starts, with the byte the speaker port held.\<close>

definition calib_trace :: "uptr \<Rightarrow> u8 \<Rightarrow> io_trace" where
  "calib_trace b spk =
     [MmioW (b + 0x320) 0x10000, MmioR (b + 0x320), MmioW (b + 0x3E0) 0xB, MmioR (b + 0x3E0),
      MmioW (b + 0x380) 0xFFFFFFFF, MmioR (b + 0x380), Out8 0x43 0xB0, In8 0x61,
      Out8 0x61 ((spk AND NOT 1) OR 2), Out8 0x42 0x9C, Out8 0x42 0x2E]"

definition calib_start :: "io_device \<Rightarrow> 'a isys_scheme \<Rightarrow> io_trace" where
  "calib_start d s = io s @ calib_trace (madt_lapic_mmio s) (dev_in8 d (io s @ take 7 (calib_trace (madt_lapic_mmio s) 0)) 0x61)"

text \<open>The output bit of the counter at poll \<open>k\<close>, counted from 0.\<close>

definition pit_out :: "io_device \<Rightarrow> io_trace \<Rightarrow> nat \<Rightarrow> bool" where
  "pit_out d tr k = bit (dev_in8 d (tr @ replicate k (In8 0x61)) 0x61) 5"

lemma out_bit: "(v :: u8) AND 32 \<noteq> 0 \<longleftrightarrow> bit v 5"
  using and_exp_eq_0_iff_not_bit[of v 5] by simp

lemma io_upd_upd: "s\<lparr>io := t, io := u\<rparr> = s\<lparr>io := u\<rparr>" by (cases s) simp

lemma lapic_calibrate_eq:
  assumes "madt_lapic_mmio s \<noteq> 0"
  shows "lapic_calibrate d s = calibrate_poll d 2000000 (s\<lparr>io := calib_start d s\<rparr>)"
proof -
  have "(11932 :: u16) AND 255 = 156" "drop_bit 8 (11932 :: u16) = 46" by simp_all
  then show ?thesis using assms
    by (simp add: lapic_calibrate_def lapic_write_ok apic_consts on_io_def inb_def outb_def Let_def calib_start_def calib_trace_def
      del: calibrate_poll.simps)
qed

lemma calibrate_poll_timeout:
  "(\<forall>k < n. \<not> pit_out d (io s) k) \<Longrightarrow> calibrate_poll d n s = Inl Panic"
proof (induction n arbitrary: s)
  case (Suc n)
  have "\<forall>k < n. \<not> pit_out d (io s @ [In8 0x61]) k"
  proof (intro allI impI)
    fix k assume "k < n"
    then have "\<not> pit_out d (io s) (Suc k)" using Suc.prems by simp
    then show "\<not> pit_out d (io s @ [In8 0x61]) k" by (simp add: pit_out_def)
  qed
  then have "calibrate_poll d n (s\<lparr>io := io s @ [In8 0x61]\<rparr>) = Inl Panic" by (intro Suc.IH) simp
  moreover have "\<not> bit (dev_in8 d (io s) 0x61) 5" using Suc.prems by (auto simp: pit_out_def)
  ultimately show ?case using out_bit by (simp add: on_io_def inb_def Let_def)
qed simp

lemma calibrate_poll_hit:
  assumes "k < n" "pit_out d (io s) k" "\<forall>j < k. \<not> pit_out d (io s) j" "madt_lapic_mmio s = b" "b \<noteq> 0"
  shows "calibrate_poll d n s =
    (let tr = io s @ replicate (Suc k) (In8 0x61); elapsed = 0xFFFFFFFF - dev_mmio d tr (b + 0x390) in
     if elapsed < 10 then Inl Panic else Inr (s\<lparr>io := tr @ [MmioR (b + 0x390)], lapic_ticks_per_ms := elapsed div 10\<rparr>))"
  using assms
proof (induction n arbitrary: s k)
  case (Suc n)
  show ?case
  proof (cases k)
    case 0
    then have "bit (dev_in8 d (io s) 0x61) 5" using Suc.prems by (simp add: pit_out_def)
    then show ?thesis using 0 Suc.prems(4,5) out_bit
      by (simp add: on_io_def inb_def Let_def lapic_read_def madt_lapic_base_def mmio_read32_def apic_consts)
  next
    case (Suc k')
    have "\<not> pit_out d (io s) 0" using Suc.prems(3) Suc by simp
    then have no: "\<not> bit (dev_in8 d (io s) 0x61) 5" by (simp add: pit_out_def)
    let ?s = "s\<lparr>io := io s @ [In8 0x61]\<rparr>"
    have sh: "pit_out d (io s @ [In8 0x61]) j = pit_out d (io s) (Suc j)" for j by (simp add: pit_out_def)
    have "calibrate_poll d n ?s =
      (let tr = io ?s @ replicate (Suc k') (In8 0x61); elapsed = 0xFFFFFFFF - dev_mmio d tr (b + 0x390) in
       if elapsed < 10 then Inl Panic else Inr (?s\<lparr>io := tr @ [MmioR (b + 0x390)], lapic_ticks_per_ms := elapsed div 10\<rparr>))"
      using Suc.prems Suc by (intro Suc.IH) (auto simp: sh)
    moreover have "calibrate_poll d (Suc n) s = calibrate_poll d n ?s" using no out_bit by (simp add: on_io_def inb_def Let_def)
    ultimately show ?thesis using Suc by (simp add: Let_def)
  qed
qed simp

text \<open>
  C32: Calibrating the timer ends. It polls the counter at most two million times, whatever the hardware does. If the output bit comes at
  poll \<open>k\<close> it reads the local timer once, right after that poll, and stores a tenth of the elapsed count (never 0); an implausible count
  and a bit that never comes are panics.
\<close>

theorem lapic_calibrate_ends:
  assumes "madt_lapic_mmio s \<noteq> 0" "t = calib_start d s"
  shows "((\<forall>k < 2000000. \<not> pit_out d t k) \<longrightarrow> lapic_calibrate d s = Inl Panic) \<and>
    (\<forall>k < 2000000. pit_out d t k \<and> (\<forall>j < k. \<not> pit_out d t j) \<longrightarrow>
      (let count = unat (0xFFFFFFFF - dev_mmio d (t @ replicate (Suc k) (In8 0x61)) (madt_lapic_mmio s + 0x390)) in
       if count < 10 then lapic_calibrate d s = Inl Panic
       else \<exists>s'. lapic_calibrate d s = Inr s' \<and> unat (lapic_ticks_per_ms s') = count div 10 \<and> lapic_ticks_per_ms s' \<noteq> 0 \<and>
         io s' = t @ replicate (Suc k) (In8 0x61) @ [MmioR (madt_lapic_mmio s + 0x390)]))"
proof -
  let ?s = "s\<lparr>io := t\<rparr>"
  have e: "lapic_calibrate d s = calibrate_poll d 2000000 ?s" using lapic_calibrate_eq assms by blast
  have "lapic_calibrate d s = Inl Panic" if "\<forall>k < 2000000. \<not> pit_out d t k"
    unfolding e by (rule calibrate_poll_timeout) (use that in simp)
  moreover have "let count = unat (0xFFFFFFFF - dev_mmio d (t @ replicate (Suc k) (In8 0x61)) (madt_lapic_mmio s + 0x390)) in
       if count < 10 then lapic_calibrate d s = Inl Panic
       else \<exists>s'. lapic_calibrate d s = Inr s' \<and> unat (lapic_ticks_per_ms s') = count div 10 \<and> lapic_ticks_per_ms s' \<noteq> 0 \<and>
         io s' = t @ replicate (Suc k) (In8 0x61) @ [MmioR (madt_lapic_mmio s + 0x390)]"
    if k: "k < 2000000" "pit_out d t k \<and> (\<forall>j < k. \<not> pit_out d t j)" for k
  proof -
    let ?el = "0xFFFFFFFF - dev_mmio d (t @ replicate (Suc k) (In8 0x61)) (madt_lapic_mmio s + 0x390)"
    have h: "lapic_calibrate d s = (let tr = io ?s @ replicate (Suc k) (In8 0x61); elapsed = 0xFFFFFFFF - dev_mmio d tr (madt_lapic_mmio s + 0x390) in
       if elapsed < 10 then Inl Panic else Inr (?s\<lparr>io := tr @ [MmioR (madt_lapic_mmio s + 0x390)], lapic_ticks_per_ms := elapsed div 10\<rparr>))"
      unfolding e by (rule calibrate_poll_hit) (use k assms(1) in simp_all)
    have lt: "?el < 10 \<longleftrightarrow> unat ?el < 10" by (simp add: word_less_nat_alt)
    have nz: "?el div 10 \<noteq> 0" if "\<not> unat ?el < 10"
    proof -
      have "unat (?el div 10) \<noteq> 0" using that by (simp only: unat_div) simp
      then show ?thesis by auto
    qed
    show ?thesis using h lt nz by (simp add: Let_def unat_div)
  qed
  ultimately show ?thesis by blast
qed

text \<open>A timer that is done at the first poll, after 640 counts of the local timer.\<close>

definition calib_demo :: io_device where
  "calib_demo = pic_demo\<lparr>dev_in8 := (\<lambda>tr p. 0x20), dev_mmio := (\<lambda>tr a. 0xFFFFFFFF - 640)\<rparr>"

theorem lapic_calibrate_ends_witness:
  "\<exists>s'. lapic_calibrate calib_demo (isys_demo\<lparr>madt_lapic_mmio := 0xFEE00000\<rparr>) = Inr s' \<and> unat (lapic_ticks_per_ms s') = 64"
proof -
  have o: "pit_out calib_demo t 0" for t by (simp add: pit_out_def calib_demo_def bit_iff_odd)
  have c: "unat (0xFFFFFFFF - dev_mmio calib_demo tr a) = 640" for tr a by (simp add: calib_demo_def)
  from lapic_calibrate_ends[of "isys_demo\<lparr>madt_lapic_mmio := 0xFEE00000\<rparr>", OF _ refl, of calib_demo, THEN conjunct2, rule_format, of 0] o
  show ?thesis by (simp only: c Let_def) auto
qed

text \<open>
  What the timer chip promises: in mode 0 the counter of channel 2 counts only while its gate is high, and its output stays low until it
  has counted down. The gate is bit 0 of port 0x61. A trace in which the counter was loaded with the gate low and nothing was
  written to the chip or to the gate since leaves the counter stopped.
\<close>

definition pit_port :: "u16 set" where "pit_port = {0x40, 0x41, 0x42, 0x43, 0x61}"

definition pit_stopped :: "io_trace \<Rightarrow> bool" where
  "pit_stopped tr \<longleftrightarrow> (\<exists>xs v lo hi ys. tr = xs @ [Out8 0x43 0xB0, In8 0x61, Out8 0x61 v, Out8 0x42 lo, Out8 0x42 hi] @ ys \<and>
     \<not> bit v 0 \<and> (\<forall>p v. Out8 p v \<in> set ys \<longrightarrow> p \<notin> pit_port))"

definition pit_chip :: "io_device \<Rightarrow> bool" where
  "pit_chip d \<longleftrightarrow> (\<forall>tr. pit_stopped tr \<longrightarrow> \<not> bit (dev_in8 d tr 0x61) 5)"

text \<open>
  On a timer chip that works as specified the calibration always fails. The code clears bit 0 of port 0x61 and sets bit 1, so it
  closes the gate and enables the speaker instead of the reverse; the counter never runs, and the boot panics.
\<close>

theorem lapic_calibrate_gate_closed:
  assumes "pit_chip d" "madt_lapic_mmio s \<noteq> 0"
  shows "lapic_calibrate d s = Inl Panic"
proof -
  have "\<not> pit_out d (calib_start d s) k" for k
  proof -
    let ?spk = "dev_in8 d (io s @ take 7 (calib_trace (madt_lapic_mmio s) 0)) 0x61"
    have "\<not> bit ((?spk AND NOT 1) OR 2) 0" unfolding bit_or_iff bit_and_iff bit_not_iff by simp
    then have "pit_stopped (calib_start d s @ replicate k (In8 0x61))"
      unfolding pit_stopped_def calib_start_def calib_trace_def
      by (intro exI[of _ "io s @ take 6 (calib_trace (madt_lapic_mmio s) 0)"] exI[of _ "(?spk AND NOT 1) OR 2"] exI[of _ 156] exI[of _ 46]
          exI[of _ "replicate k (In8 0x61)"]) (simp add: calib_trace_def)
    then show ?thesis using assms(1) by (simp add: pit_chip_def pit_out_def)
  qed
  then show ?thesis using lapic_calibrate_eq[OF assms(2)] calibrate_poll_timeout[of 2000000 d "s\<lparr>io := calib_start d s\<rparr>"] by simp
qed

text \<open>A chip that is done at once when its gate is open.\<close>

definition gate_step :: "io_access \<Rightarrow> bool \<Rightarrow> bool" where
  "gate_step a g = (case a of Out8 p v \<Rightarrow> if p = 0x61 then bit v 0 else g | _ \<Rightarrow> g)"

definition gate_open :: "io_trace \<Rightarrow> bool" where
  "gate_open tr = fold gate_step tr False"

definition pit_demo :: io_device where
  "pit_demo = pic_demo\<lparr>dev_in8 := (\<lambda>tr p. if gate_open tr then 0x20 else 0)\<rparr>"

lemma gate_kept: "(\<forall>p v. Out8 p v \<in> set ys \<longrightarrow> p \<notin> pit_port) \<Longrightarrow> fold gate_step ys g = g"
proof (induction ys arbitrary: g)
  case (Cons a ys)
  have "gate_step a g = g" using Cons.prems by (auto simp: gate_step_def pit_port_def split: io_access.split)
  then show ?case using Cons.IH[of g] Cons.prems by auto
qed simp

lemma pit_demo_chip: "pit_chip pit_demo"
proof -
  have "\<not> gate_open tr" if "pit_stopped tr" for tr
  proof -
    obtain xs v lo hi ys where t: "tr = xs @ [Out8 0x43 0xB0, In8 0x61, Out8 0x61 v, Out8 0x42 lo, Out8 0x42 hi] @ ys" "\<not> bit v 0"
      "\<forall>p v. Out8 p v \<in> set ys \<longrightarrow> p \<notin> pit_port" using \<open>pit_stopped tr\<close> by (auto simp: pit_stopped_def)
    have "gate_open tr = fold gate_step ys (bit v 0)" by (simp add: t(1) gate_open_def) (simp add: gate_step_def)
    then show ?thesis using gate_kept[OF t(3)] t(2) by simp
  qed
  then show ?thesis by (simp add: pit_chip_def pit_demo_def)
qed

theorem lapic_calibrate_gate_closed_witness:
  "lapic_calibrate pit_demo (isys_demo\<lparr>madt_lapic_mmio := 0xFEE00000\<rparr>) = Inl Panic"
  by (rule lapic_calibrate_gate_closed[OF pit_demo_chip]) simp

subsection \<open>The two tables of vectors\<close>

lemma fold_update_nth:
  assumes "k + n \<le> length t"
  shows "length (fold (\<lambda>i t. t[k + i := x]) [0..<n] t) = length t \<and>
    (\<forall>v. fold (\<lambda>i t. t[k + i := x]) [0..<n] t ! v = (if k \<le> v \<and> v < k + n then x else t ! v))"
  using assms
proof (induction n)
  case (Suc n)
  have h: "length (fold (\<lambda>i t. t[k + i := x]) [0..<n] t) = length t"
    "\<And>v. fold (\<lambda>i t. t[k + i := x]) [0..<n] t ! v = (if k \<le> v \<and> v < k + n then x else t ! v)" using Suc by simp_all
  have e: "fold (\<lambda>i t. t[k + i := x]) [0..<Suc n] t = (fold (\<lambda>i t. t[k + i := x]) [0..<n] t)[k + n := x]" by simp
  show ?case unfolding e using h Suc.prems by (auto simp: nth_list_update)
qed auto

definition isr_of_vector :: "nat \<Rightarrow> isr_handler_fn option" where
  "isr_of_vector v = (if v = 0xE0 then Some ISR_LAPIC_TIMER else if v = 0xFD then Some ISR_LAPIC_TLB_FLUSH else if v = 0xFE then Some ISR_LAPIC_PANIC
     else if v = 0xFF then Some ISR_LAPIC_SPURIOUS else if 32 \<le> v \<and> v < 48 then Some ISR_IRQ else None)"

lemma isr_init_table:
  assumes "isr_table s = replicate 256 None"
  shows "\<exists>t. isr_init s = s\<lparr>isr_table := t\<rparr> \<and> length t = 256 \<and> (\<forall>v < 256. t ! v = isr_of_vector v)"
proof -
  let ?t = "fold (\<lambda>i t. t[32 + i := Some ISR_IRQ]) [0..<16] (replicate 256 None)"
  have t: "length ?t = 256" "\<And>v. ?t ! v = (if 32 \<le> v \<and> v < 32 + 16 then Some ISR_IRQ else replicate 256 None ! v)"
    using fold_update_nth[of 32 16 "replicate 256 None" "Some ISR_IRQ"] by simp_all
  let ?u = "?t[0xE0 := Some ISR_LAPIC_TIMER, 0xFE := Some ISR_LAPIC_PANIC, 0xFF := Some ISR_LAPIC_SPURIOUS, 0xFD := Some ISR_LAPIC_TLB_FLUSH]"
  have "isr_init s = s\<lparr>isr_table := ?u\<rparr>" by (simp add: isr_init_def idt_consts lapic_vectors assms Let_def del: upt_rec_numeral)
  moreover have "\<forall>v < 256. ?u ! v = isr_of_vector v"
    using t by (auto simp: nth_list_update isr_of_vector_def simp del: upt_rec_numeral)
  moreover have "length ?u = 256" using t(1) by simp
  ultimately show ?thesis by blast
qed

lemma lapic_configure_timer_gates:
  assumes "length (idt_gates s) = 256" "madt_lapic_mmio s \<noteq> 0"
  shows "\<exists>s' a b c e. lapic_configure_timer syms s = Inr s' \<and> isr_table s' = isr_table s \<and>
    idt_gates s' = (idt_gates s)[0xE0 := a, 0xFE := b, 0xFF := c, 0xFD := e] \<and>
    gate_ok (lapic_timer_stub syms) 1 a \<and> gate_ok (lapic_panic_stub syms) 1 b \<and>
    gate_ok (lapic_spurious_stub syms) 1 c \<and> gate_ok (lapic_tlb_flush_stub syms) 1 e"
proof -
  obtain a where a: "idt_set_gate 0xE0 (lapic_timer_stub syms) 0x8E 1 (idt_gates s) = Inr ((idt_gates s)[0xE0 := a])" "gate_ok (lapic_timer_stub syms) 1 a"
    using idt_set_gate_ok[of 224 "idt_gates s" 1 "lapic_timer_stub syms"] assms(1) by auto
  let ?g1 = "(idt_gates s)[0xE0 := a]"
  obtain b where b: "idt_set_gate 0xFE (lapic_panic_stub syms) 0x8E 1 ?g1 = Inr (?g1[0xFE := b])" "gate_ok (lapic_panic_stub syms) 1 b"
    using idt_set_gate_ok[of 254 ?g1 1 "lapic_panic_stub syms"] assms(1) by auto
  let ?g2 = "?g1[0xFE := b]"
  obtain c where c: "idt_set_gate 0xFF (lapic_spurious_stub syms) 0x8E 1 ?g2 = Inr (?g2[0xFF := c])" "gate_ok (lapic_spurious_stub syms) 1 c"
    using idt_set_gate_ok[of 255 ?g2 1 "lapic_spurious_stub syms"] assms(1) by auto
  let ?g3 = "?g2[0xFF := c]"
  obtain e where e: "idt_set_gate 0xFD (lapic_tlb_flush_stub syms) 0x8E 1 ?g3 = Inr (?g3[0xFD := e])" "gate_ok (lapic_tlb_flush_stub syms) 1 e"
    using idt_set_gate_ok[of 253 ?g3 1 "lapic_tlb_flush_stub syms"] assms(1) by auto
  have "\<exists>s'. lapic_configure_timer syms s = Inr s' \<and> isr_table s' = isr_table s \<and> idt_gates s' = ?g3[0xFD := e]"
    using a(1) b(1) c(1) e(1) assms(2)
    by (simp add: lapic_configure_timer_def lapic_vectors lapic_enable_sw_def lapic_program_timer_periodic_def lapic_write_ok Let_def)
  then show ?thesis using a(2) b(2) c(2) e(2) by blast
qed

text \<open>
  C30: The two tables agree. After \<^verbatim>\<open>idt_init\<close>, \<^verbatim>\<open>isr_init\<close> and \<^verbatim>\<open>lapic_configure_timer\<close>, in the order of the boot, the processor has a present gate
  for a vector behind the exceptions exactly if the dispatcher has a handler for it, so that no accepted interrupt is dropped and no
  handler is unreachable. Each gate leads to the entry point of its own vector; the exceptions that must not use the stack they interrupted
  (and the vectors of the local controller) run on the known-good stack.
\<close>

theorem interrupt_tables_agree:
  assumes "isr_table s = replicate 256 None" "madt_lapic_mmio s \<noteq> 0"
  shows "\<exists>g s'. idt_init syms gates = Inr g \<and> lapic_configure_timer syms (isr_init (s\<lparr>idt_gates := g\<rparr>)) = Inr s' \<and> length (idt_gates s') = 256 \<and>
    (\<forall>v < 256. gate_present (idt_gates s' ! v) \<longleftrightarrow> v < 32 \<or> isr_table s' ! v \<noteq> None) \<and>
    (\<forall>v < 32. gate_ok (exc_stub_table syms v) (if v = 2 \<or> v = 8 \<or> v = 14 then 1 else 0) (idt_gates s' ! v)) \<and>
    (\<forall>i < 16. gate_ok (irq_stub_table syms i) 0 (idt_gates s' ! (32 + i)) \<and> isr_table s' ! (32 + i) = Some ISR_IRQ) \<and>
    gate_ok (lapic_timer_stub syms) 1 (idt_gates s' ! 0xE0) \<and> isr_table s' ! 0xE0 = Some ISR_LAPIC_TIMER \<and>
    gate_ok (lapic_tlb_flush_stub syms) 1 (idt_gates s' ! 0xFD) \<and> isr_table s' ! 0xFD = Some ISR_LAPIC_TLB_FLUSH \<and>
    gate_ok (lapic_panic_stub syms) 1 (idt_gates s' ! 0xFE) \<and> isr_table s' ! 0xFE = Some ISR_LAPIC_PANIC \<and>
    gate_ok (lapic_spurious_stub syms) 1 (idt_gates s' ! 0xFF) \<and> isr_table s' ! 0xFF = Some ISR_LAPIC_SPURIOUS"
proof -
  obtain g where g: "idt_init syms gates = Inr g" "length g = 256"
    "\<forall>v < 32. gate_ok (exc_stub_table syms v) (if v = 2 \<or> v = 8 \<or> v = 14 then 1 else 0) (g ! v)"
    "\<forall>i < 16. gate_ok (irq_stub_table syms i) 0 (g ! (32 + i))" "\<forall>v < 256. gate_present (g ! v) \<longleftrightarrow> v < 48"
    using idt_init_gates[of syms gates] by blast
  obtain t where t: "isr_init (s\<lparr>idt_gates := g\<rparr>) = s\<lparr>idt_gates := g, isr_table := t\<rparr>" "length t = 256" "\<forall>v < 256. t ! v = isr_of_vector v"
    using isr_init_table[of "s\<lparr>idt_gates := g\<rparr>"] assms(1) by auto
  let ?s = "s\<lparr>idt_gates := g, isr_table := t\<rparr>"
  obtain s' a b c e where l: "lapic_configure_timer syms ?s = Inr s'" "isr_table s' = t" "idt_gates s' = g[0xE0 := a, 0xFE := b, 0xFF := c, 0xFD := e]"
    "gate_ok (lapic_timer_stub syms) 1 a" "gate_ok (lapic_panic_stub syms) 1 b" "gate_ok (lapic_spurious_stub syms) 1 c"
    "gate_ok (lapic_tlb_flush_stub syms) 1 e"
    using lapic_configure_timer_gates[of ?s syms] g(2) assms(2) by auto
  have low: "idt_gates s' ! v = g ! v" if "v < 0xE0" for v using that l(3) by (simp add: nth_list_update)
  have new: "idt_gates s' ! 0xE0 = a" "idt_gates s' ! 0xFE = b" "idt_gates s' ! 0xFF = c" "idt_gates s' ! 0xFD = e" using l(3) g(2) by simp_all
  have rest: "idt_gates s' ! v = g ! v" if "v \<noteq> 0xE0" "v \<noteq> 0xFD" "v \<noteq> 0xFE" "v \<noteq> 0xFF" for v using that l(3) by (simp add: nth_list_update)
  have "gate_present (idt_gates s' ! v) \<longleftrightarrow> v < 32 \<or> isr_table s' ! v \<noteq> None" if v: "v < 256" for v
  proof (cases "v \<in> {0xE0, 0xFD, 0xFE, 0xFF}")
    case True
    then have "gate_present (idt_gates s' ! v)" using l(4-7) new by (auto simp: gate_ok_def)
    moreover have "isr_table s' ! v \<noteq> None" using True t(3) l(2) by (auto simp: isr_of_vector_def)
    ultimately show ?thesis by simp
  next
    case False
    then have "gate_present (idt_gates s' ! v) \<longleftrightarrow> v < 48" "isr_table s' ! v \<noteq> None \<longleftrightarrow> 32 \<le> v \<and> v < 48"
      using rest[of v] g(5) v t(3) l(2) by (simp_all add: isr_of_vector_def)
    then show ?thesis by auto
  qed
  then show ?thesis using g l t low new
    by (intro exI[of _ g] exI[of _ s']) (simp add: isr_of_vector_def)
qed

definition stubs_demo :: stub_syms where
  "stubs_demo = \<lparr>exc_stub_table = of_nat, irq_stub_table = (\<lambda>i. 0x100 + of_nat i), lapic_timer_stub = 0x200, lapic_panic_stub = 0x201,
     lapic_spurious_stub = 0x202, lapic_tlb_flush_stub = 0xFFFFFFFF80000203\<rparr>"

theorem interrupt_tables_agree_witness:
  "\<exists>g s'. idt_init stubs_demo [] = Inr g \<and>
     lapic_configure_timer stubs_demo (isr_init (isys_demo\<lparr>madt_lapic_mmio := 0xFEE00000, idt_gates := g\<rparr>)) = Inr s' \<and>
     gate_offset (idt_gates s' ! 14) = 14 \<and> gate_offset (idt_gates s' ! 0xFD) = 0xFFFFFFFF80000203"
proof -
  have h: "isr_table (isys_demo\<lparr>madt_lapic_mmio := 0xFEE00000\<rparr>) = replicate 256 None" "madt_lapic_mmio (isys_demo\<lparr>madt_lapic_mmio := 0xFEE00000\<rparr>) \<noteq> 0"
    by simp_all
  obtain g s' where g: "idt_init stubs_demo [] = Inr g"
    "lapic_configure_timer stubs_demo (isr_init (isys_demo\<lparr>madt_lapic_mmio := 0xFEE00000, idt_gates := g\<rparr>)) = Inr s'"
    "\<forall>v < 32. gate_ok (exc_stub_table stubs_demo v) (if v = 2 \<or> v = 8 \<or> v = 14 then 1 else 0) (idt_gates s' ! v)"
    "gate_ok (lapic_tlb_flush_stub stubs_demo) 1 (idt_gates s' ! 0xFD)"
    using interrupt_tables_agree[OF h, of stubs_demo "[]"] by blast
  have "gate_ok (exc_stub_table stubs_demo 14) 1 (idt_gates s' ! 14)" using g(3)[rule_format, of 14] by simp
  then show ?thesis using g(1,2,4) by (auto simp: gate_ok_def stubs_demo_def)
qed

subsection \<open>Lines of the interrupt controllers\<close>

lemma irq_set_callback_ok:
  assumes d: "pic_device d" "ready_pics (io s)" and irq: "irq < 16" and s: "irq_lock s = unlocked" "length (irq_callbacks s) = 16"
  shows "\<exists>s'. irq_set_callback d irq cb s = Inr s' \<and> irq_callbacks s' = (irq_callbacks s)[unat irq := cb] \<and> irq_lock s' = unlocked \<and>
    ready_pics (io s') \<and> (\<forall>i < 16. masked i (io s') \<longleftrightarrow> masked i (io s) \<and> i \<noteq> irq)"
proof -
  obtain tr where t: "pic_irq_clear_mask d irq (io s) = Inr tr" "ready_pics tr" "\<forall>i < 16. masked i tr \<longleftrightarrow> masked i (io s) \<and> i \<noteq> irq"
    using pic_irq_clear_mask_spec[OF d(1) irq d(2)] by blast
  have "unat irq < 16" using irq by (simp add: word_less_nat_alt)
  then show ?thesis using t s by (simp add: irq_set_callback_def Let_def)
qed

text \<open>Installing a list of callbacks, and the lines whose interrupts arrive: a line of the slave passes through line 2 of the master.\<close>

fun install_all :: "io_device \<Rightarrow> (u8 \<times> ref) list \<Rightarrow> 'a isys_scheme \<Rightarrow> 'a isys_scheme outcome" where
  "install_all d [] s = Inr s"
| "install_all d ((irq, cb) # cs) s = rbind (irq_set_callback d irq cb s) (install_all d cs)"

definition delivered :: "u8 \<Rightarrow> io_trace \<Rightarrow> bool" where
  "delivered irq tr \<longleftrightarrow> \<not> masked irq tr \<and> (irq \<ge> 8 \<longrightarrow> \<not> masked 2 tr)"

lemma install_all_masks:
  assumes "pic_device d" "ready_pics (io s)" "\<forall>(irq, cb) \<in> set cs. irq < 16" "irq_lock s = unlocked" "length (irq_callbacks s) = 16"
  shows "\<exists>s'. install_all d cs s = Inr s' \<and> (\<forall>i < 16. masked i (io s') \<longleftrightarrow> masked i (io s) \<and> i \<notin> fst ` set cs)"
  using assms(2-5)
proof (induction cs arbitrary: s)
  case (Cons c cs)
  obtain irq cb where c: "c = (irq, cb)" by (cases c)
  have irq: "irq < 16" "\<forall>(irq, cb) \<in> set cs. irq < 16" using Cons.prems(2) c by auto
  obtain s1 where s1: "irq_set_callback d irq cb s = Inr s1" "irq_callbacks s1 = (irq_callbacks s)[unat irq := cb]" "irq_lock s1 = unlocked"
    "ready_pics (io s1)" "\<forall>i < 16. masked i (io s1) \<longleftrightarrow> masked i (io s) \<and> i \<noteq> irq"
    using irq_set_callback_ok[OF assms(1) Cons.prems(1) irq(1) Cons.prems(3,4), of cb] by blast
  have "length (irq_callbacks s1) = 16" using s1(2) Cons.prems(4) by simp
  from Cons.IH[OF s1(4) irq(2) s1(3) this] obtain s' where
    "install_all d cs s1 = Inr s'" "\<forall>i < 16. masked i (io s') \<longleftrightarrow> masked i (io s1) \<and> i \<notin> fst ` set cs" by blast
  then show ?case using s1(1,5) c by auto
qed simp

text \<open>
  Which interrupts arrive. After \<^verbatim>\<open>pic_load\<close> and any sequence of \<^verbatim>\<open>irq_set_callback\<close> the lines of the master that arrive are exactly those a
  callback was installed for. A line of the slave arrives only if a callback was also installed for line 2, the one that connects the
  controllers: nothing else ever clears its mask.
\<close>

theorem irq_lines_delivered:
  assumes "pic_device d" "\<forall>(irq, cb) \<in> set cs. irq < 16" "irq_lock s = unlocked" "length (irq_callbacks s) = 16" "io s = pic_load d tr"
  shows "\<exists>s'. install_all d cs s = Inr s' \<and>
    (\<forall>i < 16. delivered i (io s') \<longleftrightarrow> i \<in> fst ` set cs \<and> (i \<ge> 8 \<longrightarrow> 2 \<in> fst ` set cs))"
proof -
  have r: "ready_pics (io s)" using pic_load_masks[of d tr] assms(5) by (simp add: ready_pics_def)
  have m: "masked i (io s)" if "i < 16" for i
  proof -
    have "(0xFF :: u8) = mask 8" by (simp add: mask_eq_exp_minus_1)
    then have "bit (0xFF :: u8) (line_bit i)" using line_bit_lt[OF that] by (simp only: bit_mask_iff) simp
    then show ?thesis using pic_load_masks[of d tr] assms(5) by (simp add: masked_def line_chip_def)
  qed
  obtain s' where s': "install_all d cs s = Inr s'" "\<forall>i < 16. masked i (io s') \<longleftrightarrow> masked i (io s) \<and> i \<notin> fst ` set cs"
    using install_all_masks[OF assms(1) r assms(2-4)] by blast
  have "masked i (io s') \<longleftrightarrow> i \<notin> fst ` set cs" if "i < 16" for i using s'(2) m that by blast
  then show ?thesis using s'(1) by (auto simp: delivered_def)
qed

theorem irq_lines_delivered_witness:
  "\<exists>s'. install_all pic_demo [(1, Some 5), (12, Some 6)] (isys_demo\<lparr>io := pic_load pic_demo []\<rparr>) = Inr s' \<and>
     delivered 1 (io s') \<and> \<not> delivered 12 (io s')"
  using irq_lines_delivered[OF pic_demo_device, of "[(1, Some 5), (12, Some 6)]" "isys_demo\<lparr>io := pic_load pic_demo []\<rparr>" "[]"]
  by (auto simp: word_le_nat_alt)

end
