(* ===== verification/Acpi.thy ===== *)
theory Acpi
  imports Bytes Pmm
begin

section \<open>Firmware tables (kernel/boot/acpi.c, kernel/boot/madt.c)\<close>

text \<open>
  The tables of the firmware lie in memory as packed bytes; a structure is its address and a field is read at its offset. The
  state of the two files is the address of the root table (0 is NULL) and the address of the local interrupt controller, which
  \<^verbatim>\<open>madt_mmio_load\<close> returns. The response of the boot loader, an address and a revision, is the parameter \<open>resp\<close>. Lengths come
  from the firmware, so the walk over the MADT checks each against the end of the table: it is a recursion whose measure is
  the number of bytes that are left.
\<close>

subsection \<open>Packed fields\<close>

definition load16 :: "memory \<Rightarrow> uptr \<Rightarrow> u16" where
  "load16 m a = ucast (m a) OR push_bit 8 (ucast (m (a + 1)))"

definition load32 :: "memory \<Rightarrow> uptr \<Rightarrow> u32" where
  "load32 m a = ucast (m a) OR push_bit 8 (ucast (m (a + 1))) OR push_bit 16 (ucast (m (a + 2))) OR push_bit 24 (ucast (m (a + 3)))"

definition ACPI_SIG32 :: "u8 \<Rightarrow> u8 \<Rightarrow> u8 \<Rightarrow> u8 \<Rightarrow> u32" where
  "ACPI_SIG32 a b c d = scast a OR push_bit 8 (scast b) OR push_bit 16 (scast c) OR push_bit 24 (scast d)"

definition ACPI_SIG_RSDT :: u32 where "ACPI_SIG_RSDT = ACPI_SIG32 0x52 0x53 0x44 0x54"
definition ACPI_SIG_XSDT :: u32 where "ACPI_SIG_XSDT = ACPI_SIG32 0x58 0x53 0x44 0x54"
definition ACPI_SIG_MADT :: u32 where "ACPI_SIG_MADT = ACPI_SIG32 0x41 0x50 0x49 0x43"

definition rsdp_revision :: "uptr \<Rightarrow> memory \<Rightarrow> u8" where "rsdp_revision p m = m (p + 15)"
definition rsdp_rsdt_addr :: "uptr \<Rightarrow> memory \<Rightarrow> u32" where "rsdp_rsdt_addr p m = load32 m (p + 16)"
definition rsdp_length :: "uptr \<Rightarrow> memory \<Rightarrow> u32" where "rsdp_length p m = load32 m (p + 20)"
definition rsdp_xsdt_addr :: "uptr \<Rightarrow> memory \<Rightarrow> u64" where "rsdp_xsdt_addr p m = load64 m (p + 24)"
definition SIZEOF_SDT_HDR :: u64 where "SIZEOF_SDT_HDR = 36"
definition sdt_length :: "uptr \<Rightarrow> memory \<Rightarrow> u32" where "sdt_length p m = load32 m (p + 4)"

text \<open>The characters of a signature are signed.\<close>

definition acpi_signature :: "uptr \<Rightarrow> memory \<Rightarrow> u32" where
  "acpi_signature p m = ACPI_SIG32 (m p) (m (p + 1)) (m (p + 2)) (m (p + 3))"

definition acpi_verify_checksum :: "uptr \<Rightarrow> u64 \<Rightarrow> memory \<Rightarrow> bool" where
  "acpi_verify_checksum buffer len m = (fold (\<lambda>i sum. sum + m (buffer + of_nat i)) [0..<unat len] 0 = (0 :: u8))"

subsection \<open>The root table\<close>

record acpi_response =
  ar_address :: uptr
  ar_revision :: u64

definition acpi_get_rsdt :: "acpi_response option \<Rightarrow> uptr \<Rightarrow> uptr outcome" where
  "acpi_get_rsdt resp sdt = (case resp of None \<Rightarrow> Inl NullDeref | Some r \<Rightarrow> Inr (if ar_revision r < 2 then sdt else 0))"

definition acpi_get_xsdt :: "acpi_response option \<Rightarrow> uptr \<Rightarrow> uptr outcome" where
  "acpi_get_xsdt resp sdt = (case resp of None \<Rightarrow> Inl NullDeref | Some r \<Rightarrow> Inr (if ar_revision r \<ge> 2 then sdt else 0))"

definition acpi_count_entries :: "acpi_response option \<Rightarrow> uptr \<Rightarrow> memory \<Rightarrow> usize outcome" where
  "acpi_count_entries resp sdt m =
     rbind (acpi_get_rsdt resp sdt) (\<lambda>rsdt. rbind (acpi_get_xsdt resp sdt) (\<lambda>xsdt.
     Inr (if rsdt \<noteq> 0 then (ucast (sdt_length rsdt m) - SIZEOF_SDT_HDR) div 4
          else if xsdt \<noteq> 0 then (ucast (sdt_length xsdt m) - SIZEOF_SDT_HDR) div 8
          else 0)))"

definition acpi_get_entry :: "acpi_response option \<Rightarrow> uptr \<Rightarrow> usize \<Rightarrow> 'a machine_scheme \<Rightarrow> uptr outcome" where
  "acpi_get_entry resp sdt index s =
     rbind (acpi_count_entries resp sdt (mem s)) (\<lambda>count.
     if index < count
     then rbind (acpi_get_rsdt resp sdt) (\<lambda>rsdt. rbind (acpi_get_xsdt resp sdt) (\<lambda>xsdt.
       let pa = (if rsdt \<noteq> 0 then ucast (load32 (mem s) (rsdt + SIZEOF_SDT_HDR + 4 * index))
                 else if xsdt \<noteq> 0 then load64 (mem s) (xsdt + SIZEOF_SDT_HDR + 8 * index) else 0) in
       hhdm_p2v pa s))
     else Inr 0)"

definition acpi_load :: "acpi_response option \<Rightarrow> 'a machine_scheme \<Rightarrow> uptr outcome" where
  "acpi_load resp s =
     (case resp of
        None \<Rightarrow> Inl AssertFail
      | Some r \<Rightarrow>
          let rsdp = ar_address r; m = mem s in
          if rsdp_revision rsdp m < 2 \<and> \<not> acpi_verify_checksum rsdp 20 m \<or>
             rsdp_revision rsdp m \<ge> 2 \<and> \<not> acpi_verify_checksum rsdp (ucast (rsdp_length rsdp m)) m
          then Inl Panic
          else let sdt_addr = (if rsdp_revision rsdp m \<ge> 2 \<and> rsdp_xsdt_addr rsdp m \<noteq> 0 then rsdp_xsdt_addr rsdp m else ucast (rsdp_rsdt_addr rsdp m)) in
            rbind (hhdm_p2v sdt_addr s) (\<lambda>hdr.
            let signature = acpi_signature hdr m in
            if signature \<noteq> ACPI_SIG_RSDT \<and> signature \<noteq> ACPI_SIG_XSDT then Inl Panic
            else if \<not> acpi_verify_checksum hdr (ucast (sdt_length hdr m)) m then Inl Panic
            else Inr hdr))"

text \<open>The search, with the number of entries that are left.\<close>

fun acpi_find_loop :: "acpi_response option \<Rightarrow> uptr \<Rightarrow> u32 \<Rightarrow> nat \<Rightarrow> nat \<Rightarrow> 'a machine_scheme \<Rightarrow> uptr outcome" where
  "acpi_find_loop resp sdt signature i 0 s = Inr 0"
| "acpi_find_loop resp sdt signature i (Suc n) s =
     rbind (acpi_get_entry resp sdt (of_nat i) s) (\<lambda>entry.
     if entry = 0 then acpi_find_loop resp sdt signature (Suc i) n s
     else if signature \<noteq> acpi_signature entry (mem s) then acpi_find_loop resp sdt signature (Suc i) n s
     else if \<not> acpi_verify_checksum entry (ucast (sdt_length entry (mem s))) (mem s) then acpi_find_loop resp sdt signature (Suc i) n s
     else Inr entry)"

definition acpi_find :: "acpi_response option \<Rightarrow> uptr \<Rightarrow> u32 \<Rightarrow> 'a machine_scheme \<Rightarrow> uptr outcome" where
  "acpi_find resp sdt signature s =
     rbind (acpi_count_entries resp sdt (mem s)) (\<lambda>count. acpi_find_loop resp sdt signature 0 (unat count) s)"

subsection \<open>The interrupt controller table\<close>

definition MADT_LAPIC_OVERRIDE :: u8 where "MADT_LAPIC_OVERRIDE = 5"
definition SIZEOF_MADT_HDR :: u64 where "SIZEOF_MADT_HDR = 2"
definition SIZEOF_MADT_OVERRIDE :: u64 where "SIZEOF_MADT_OVERRIDE = 12"
definition madt_lapic_addr :: "uptr \<Rightarrow> memory \<Rightarrow> u32" where "madt_lapic_addr p m = load32 m (p + 36)"
definition madt_entries :: "uptr \<Rightarrow> uptr" where "madt_entries p = p + 44"
definition madt_hdr_type :: "uptr \<Rightarrow> memory \<Rightarrow> u8" where "madt_hdr_type e m = m e"
definition madt_hdr_len :: "uptr \<Rightarrow> memory \<Rightarrow> u8" where "madt_hdr_len e m = m (e + 1)"
definition madt_override_addr :: "uptr \<Rightarrow> memory \<Rightarrow> u64" where "madt_override_addr e m = load64 m (e + 4)"

lemmas madt_defs = MADT_LAPIC_OVERRIDE_def SIZEOF_MADT_HDR_def SIZEOF_MADT_OVERRIDE_def madt_lapic_addr_def madt_entries_def madt_hdr_type_def
  madt_hdr_len_def madt_override_addr_def

function madt_scan :: "memory \<Rightarrow> uptr \<Rightarrow> uptr \<Rightarrow> uptr \<Rightarrow> uptr outcome" where
  "madt_scan m ptr end' base' =
     (if ptr + SIZEOF_MADT_HDR \<le> end'
      then if ucast (madt_hdr_len ptr m) < SIZEOF_MADT_HDR then Inl Panic
        else if end' - ptr < ucast (madt_hdr_len ptr m) then Inl Panic
        else madt_scan m (ptr + ucast (madt_hdr_len ptr m)) end'
          (if madt_hdr_type ptr m = MADT_LAPIC_OVERRIDE \<and> ucast (madt_hdr_len ptr m) \<ge> SIZEOF_MADT_OVERRIDE
           then madt_override_addr ptr m else base')
      else Inr base')"
  by auto
termination
proof (relation "measure (\<lambda>(m, ptr, end', base'). unat (end' - ptr))", goal_cases)
  case 1
  show ?case by simp
next
  case (2 m ptr end' base')
  let ?l = "ucast (madt_hdr_len ptr m) :: u64"
  have l: "2 \<le> ?l" "?l \<le> end' - ptr" using 2 by (simp_all add: SIZEOF_MADT_HDR_def not_less)
  have e: "end' - (ptr + ?l) = (end' - ptr) - ?l" by simp
  have "unat (end' - (ptr + ?l)) = unat (end' - ptr) - unat ?l" unfolding e using l(2) by (rule unat_sub)
  moreover have "0 < unat ?l" "unat ?l \<le> unat (end' - ptr)" using l by (simp_all add: word_le_nat_alt)
  ultimately show ?case by simp
qed

declare madt_scan.simps [simp del]

definition madt_mmio_load :: "acpi_response option \<Rightarrow> uptr \<Rightarrow> 'a machine_scheme \<Rightarrow> uptr outcome" where
  "madt_mmio_load resp sdt s =
     rbind (acpi_find resp sdt ACPI_SIG_MADT s) (\<lambda>m.
     if m = 0 then Inl Panic
     else let base' = ucast (madt_lapic_addr m (mem s)); ptr = madt_entries m; end' = m + ucast (sdt_length m (mem s)) in
       if end' < ptr then Inl Panic
       else rbind (madt_scan (mem s) ptr end' base') (\<lambda>base'.
         if base' = 0 then Inl Panic else hhdm_p2v base' s))"

end
