(* ===== verification/Acpi_Props.thy ===== *)
theory Acpi_Props
  imports Acpi
begin

section \<open>Firmware tables: properties\<close>

subsection \<open>Walking the interrupt controller table\<close>

text \<open>
  The entries of a table, as the list of their types and bodies, and the bytes that hold them. The address of the controller is the
  one of the last override entry, or the default.
\<close>

type_synonym madt_entry = "u8 \<times> u8 list"

definition entry_bytes :: "madt_entry \<Rightarrow> u8 list" where
  "entry_bytes e = fst e # of_nat (length (snd e) + 2) # snd e"

definition entry_fits :: "madt_entry \<Rightarrow> bool" where
  "entry_fits e \<longleftrightarrow> length (snd e) + 2 < 256"

definition override_of :: "madt_entry \<Rightarrow> u64 option" where
  "override_of e = (if fst e = 5 \<and> length (snd e) \<ge> 10 then Some (word_rcat (rev (take 8 (drop 2 (snd e))))) else None)"

fun madt_base :: "madt_entry list \<Rightarrow> u64 \<Rightarrow> u64" where
  "madt_base [] b = b"
| "madt_base (e # es) b = madt_base es (case override_of e of Some a \<Rightarrow> a | None \<Rightarrow> b)"

abbreviation table_bytes :: "madt_entry list \<Rightarrow> u8 list" where
  "table_bytes es \<equiv> concat (map entry_bytes es)"

definition holds :: "memory \<Rightarrow> uptr \<Rightarrow> u8 list \<Rightarrow> bool" where
  "holds m p bs \<longleftrightarrow> bytes_at m p (length bs) = bs"

lemma holds_iff: "holds m p bs \<longleftrightarrow> (\<forall>i < length bs. m (p + of_nat i) = bs ! i)"
  by (auto simp: holds_def list_eq_iff_nth_eq)

lemma holds_Cons: "holds m p (b # bs) \<longleftrightarrow> m p = b \<and> holds m (p + 1) bs"
  unfolding holds_iff by (simp add: All_less_Suc2 add.assoc)

lemma holds_append: "holds m p (xs @ ys) \<longleftrightarrow> holds m p xs \<and> holds m (p + of_nat (length xs)) ys"
proof (induction xs arbitrary: p)
  case (Cons x xs)
  then show ?case by (simp add: holds_Cons add.assoc)
qed (simp add: holds_def bytes_at_def)

lemma unat_ucast_len: "unat (ucast (x :: u8) :: u64) = unat x"
proof -
  have "unat x < 2 ^ 64" using unsigned_less[of x, where ?'a = nat] by simp
  then show ?thesis by (simp add: unsigned_ucast_eq take_bit_nat_eq_self)
qed

text \<open>One entry at the front of the table.\<close>

lemma entry_at:
  assumes "holds m p (entry_bytes e)" "entry_fits e"
  shows "madt_hdr_type p m = fst e" "unat (madt_hdr_len p m) = length (snd e) + 2"
    "override_of e = (if fst e = 5 \<and> length (snd e) + 2 \<ge> 12 then Some (madt_override_addr p m) else None)"
proof -
  have h: "m p = fst e" "m (p + 1) = of_nat (length (snd e) + 2)" "holds m (p + 2) (snd e)"
    using assms(1) unfolding entry_bytes_def holds_Cons by (simp_all add: add.assoc)
  show "madt_hdr_type p m = fst e" using h by (simp add: madt_hdr_type_def)
  show "unat (madt_hdr_len p m) = length (snd e) + 2" unfolding madt_hdr_len_def h(2) unat_of_nat using assms(2) by (simp add: entry_fits_def)
  have "take 8 (drop 2 (snd e)) = map (\<lambda>i. m (p + 4 + of_nat i)) [0..<8]" if "length (snd e) \<ge> 10"
  proof (rule nth_equalityI)
    show "length (take 8 (drop 2 (snd e))) = length (map (\<lambda>i. m (p + 4 + of_nat i)) [0..<8])" using that by simp
  next
    fix i assume "i < length (take 8 (drop 2 (snd e)))"
    then have i: "i < 8" "2 + i < length (snd e)" using that by auto
    have "snd e ! (2 + i) = m (p + 2 + of_nat (2 + i))" by (rule h(3)[unfolded holds_iff, rule_format, OF i(2), symmetric])
    moreover have "p + 2 + of_nat (2 + i) = p + 4 + of_nat i" by simp
    ultimately show "take 8 (drop 2 (snd e)) ! i = map (\<lambda>i. m (p + 4 + of_nat i)) [0..<8] ! i"
      using i that by (simp add: add.assoc del: upt_rec_numeral)
  qed
  then show "override_of e = (if fst e = 5 \<and> length (snd e) + 2 \<ge> 12 then Some (madt_override_addr p m) else None)"
    by (simp add: override_of_def madt_override_addr_def load64_def del: upt_rec_numeral)
qed

lemma madt_scan_entries:
  assumes "\<forall>e \<in> set es. entry_fits e" "holds m p (table_bytes es)" "r \<le> 1"
    "unat p + length (table_bytes es) + r < 2 ^ 64 - 2"
  shows "madt_scan m p (p + of_nat (length (table_bytes es) + r)) b = Inr (madt_base es b)"
  using assms
proof (induction es arbitrary: p b)
  case Nil
  have "\<not> p + 2 \<le> p + of_nat r"
    using Nil.prems(3,4) unat_add_u64[of p 2] unat_add_u64[of p "of_nat r"] unat_of_nat_u64[of r] by (simp add: word_le_nat_alt)
  then show ?case by (subst madt_scan.simps) (simp add: SIZEOF_MADT_HDR_def)
next
  case (Cons e es)
  let ?n = "length (snd e) + 2" and ?rest = "length (table_bytes es) + r"
  have "length (entry_bytes e) = ?n" by (simp add: entry_bytes_def)
  then have e: "holds m p (entry_bytes e)" "holds m (p + of_nat ?n) (table_bytes es)"
    using Cons.prems(2) holds_append[of m p "entry_bytes e" "table_bytes es"] by simp_all
  have fit: "entry_fits e" using Cons.prems(1) by simp
  note E = entry_at[OF e(1) fit]
  let ?l = "ucast (madt_hdr_len p m) :: u64"
  have ul: "unat ?l = ?n" using E(2) by (simp add: unat_ucast_len)
  have "unat (of_nat ?n :: u64) = ?n" by (rule unat_of_nat_u64) (use fit in \<open>simp add: entry_fits_def\<close>)
  with ul have l: "?l = of_nat ?n" by (simp only: word_unat_eq_iff)
  let ?lim = "p + of_nat (length (table_bytes (e # es)) + r)"
  have len: "length (table_bytes (e # es)) + r = ?n + ?rest" by (simp add: entry_bytes_def)
  have room: "unat p + (?n + ?rest) < 2 ^ 64 - 2" using Cons.prems(4) len by simp
  have un: "unat (of_nat (?n + ?rest) :: u64) = ?n + ?rest" by (rule unat_of_nat_u64) (use room in linarith)
  have "unat (p + of_nat (?n + ?rest)) = unat p + unat (of_nat (?n + ?rest) :: u64)" by (rule unat_add_u64) (use room un in linarith)
  then have ue: "unat ?lim = unat p + (?n + ?rest)" unfolding len un .
  have "unat (p + 2) = unat p + 2" using unat_add_u64[of p 2] room by simp
  then have g: "p + 2 \<le> ?lim" using ue unfolding word_le_nat_alt by linarith
  have nl: "\<not> ?l < 2" using ul by (simp add: word_less_nat_alt)
  have "?lim - p = of_nat (?n + ?rest)" unfolding len by simp
  then have "unat (?lim - p) = ?n + ?rest" using un by (simp only:)
  then have nd: "\<not> ?lim - p < ?l" unfolding word_less_nat_alt ul by linarith
  have c: "12 \<le> ?l \<longleftrightarrow> 12 \<le> ?n" using ul by (simp add: word_le_nat_alt)
  have next': "(if madt_hdr_type p m = 5 \<and> 12 \<le> ?l then madt_override_addr p m else b) = (case override_of e of Some a \<Rightarrow> a | None \<Rightarrow> b)"
    using E(1,3) c by simp
  have step: "madt_scan m p ?lim b = madt_scan m (p + ?l) ?lim (case override_of e of Some a \<Rightarrow> a | None \<Rightarrow> b)"
    using g nl nd next' by (subst madt_scan.simps) (simp add: SIZEOF_MADT_HDR_def SIZEOF_MADT_OVERRIDE_def MADT_LAPIC_OVERRIDE_def)
  have ee: "?lim = (p + ?l) + of_nat ?rest" unfolding len l by simp
  have ih: "madt_scan m (p + ?l) ((p + ?l) + of_nat ?rest) (case override_of e of Some a \<Rightarrow> a | None \<Rightarrow> b) =
      Inr (madt_base es (case override_of e of Some a \<Rightarrow> a | None \<Rightarrow> b))"
  proof (rule Cons.IH)
    show "\<forall>e \<in> set es. entry_fits e" using Cons.prems(1) by simp
    show "holds m (p + ?l) (table_bytes es)" using e(2) l by simp
    have "unat (p + ?l) = unat p + unat ?l" by (rule unat_add_u64) (use room ul in linarith)
    then have "unat (p + ?l) = unat p + ?n" unfolding ul .
    then show "unat (p + ?l) + length (table_bytes es) + r < 2 ^ 64 - 2" using room by linarith
  qed fact
  show ?case using trans[OF step[unfolded ee] ih] by (simp only: ee madt_base.simps)
qed

text \<open>
  The walk reads only bytes of the table, whatever they are: two memories that agree on the table give the same result.
\<close>

lemma madt_scan_local:
  assumes "\<And>x. in_range p n x \<Longrightarrow> m x = m' x" "unat p + n < 2 ^ 64 - 2"
  shows "madt_scan m p (p + of_nat n) b = madt_scan m' p (p + of_nat n) b"
  using assms
proof (induction n arbitrary: p b rule: less_induct)
  case (less n)
  have un: "unat (of_nat n :: u64) = n" by (rule unat_of_nat_u64) (use less.prems(2) in linarith)
  have "unat (p + of_nat n) = unat p + unat (of_nat n :: u64)" by (rule unat_add_u64) (use less.prems(2) un in linarith)
  then have ue: "unat (p + of_nat n) = unat p + n" unfolding un .
  have up: "unat (p + 2) = unat p + 2" using unat_add_u64[of p 2] less.prems(2) by simp
  show ?case
  proof (cases "p + 2 \<le> p + of_nat n")
    case False
    then show ?thesis by (subst (1 2) madt_scan.simps) (simp add: SIZEOF_MADT_HDR_def)
  next
    case True
    then have n: "2 \<le> n" using ue up by (simp add: word_le_nat_alt)
    have r: "in_range p n (p + of_nat k)" if "k < n" for k using that less.prems(2) by (intro in_range_add) simp_all
    have hd: "madt_hdr_len p m = madt_hdr_len p m'" "madt_hdr_type p m = madt_hdr_type p m'"
      using less.prems(1)[OF r[of 1]] less.prems(1)[OF r[of 0]] n by (simp_all add: madt_hdr_len_def madt_hdr_type_def)
    let ?l = "ucast (madt_hdr_len p m) :: u64"
    show ?thesis
    proof (cases "?l < 2 \<or> p + of_nat n - p < ?l")
      case bad: True
      then show ?thesis using True hd by (subst (1 2) madt_scan.simps) (auto simp: SIZEOF_MADT_HDR_def)
    next
      case ok: False
      then have l: "2 \<le> unat ?l" "unat ?l \<le> n" using un by (simp_all add: word_less_nat_alt)
      have pl: "unat (p + ?l) = unat p + unat ?l" by (rule unat_add_u64) (use less.prems(2) l in linarith)
      let ?n = "n - unat ?l"
      have "of_nat n = ?l + of_nat ?n" using l(2) by simp
      then have e: "p + of_nat n = (p + ?l) + of_nat ?n" by (simp only: add.assoc)
      have ov: "madt_override_addr p m = madt_override_addr p m'" if "12 \<le> ?l"
      proof -
        have "12 \<le> n" using that l by (simp add: word_le_nat_alt)
        then have "m (p + 4 + of_nat k) = m' (p + 4 + of_nat k)" if "k < 8" for k
          using less.prems(1)[OF r[of "4 + k"]] that by (simp add: add.assoc)
        then show ?thesis unfolding madt_override_addr_def by (rule load64_cong)
      qed
      have ih: "madt_scan m (p + ?l) ((p + ?l) + of_nat ?n) c = madt_scan m' (p + ?l) ((p + ?l) + of_nat ?n) c" for c
      proof (rule less.IH)
        show "?n < n" using l n by linarith
        show "unat (p + ?l) + ?n < 2 ^ 64 - 2" using pl l less.prems(2) by linarith
        fix x assume x: "in_range (p + ?l) ?n x"
        have "x - p = ?l + (x - (p + ?l))" by simp
        moreover have "unat (?l + (x - (p + ?l))) = unat ?l + unat (x - (p + ?l))"
          by (rule unat_add_u64) (use x l less.prems(2) in \<open>simp add: in_range_def\<close>)
        ultimately have "unat (x - p) = unat ?l + unat (x - (p + ?l))" by (simp only:)
        then have "in_range p n x" using x l unfolding in_range_def by linarith
        then show "m x = m' x" by (rule less.prems(1))
      qed
      have "madt_scan m p (p + of_nat n) b = madt_scan m (p + ?l) (p + of_nat n) (if madt_hdr_type p m = 5 \<and> 12 \<le> ?l then madt_override_addr p m else b)"
        using True ok by (subst madt_scan.simps) (simp add: SIZEOF_MADT_HDR_def SIZEOF_MADT_OVERRIDE_def MADT_LAPIC_OVERRIDE_def)
      also have "\<dots> = madt_scan m' (p + ?l) (p + of_nat n) (if madt_hdr_type p m = 5 \<and> 12 \<le> ?l then madt_override_addr p m else b)"
        unfolding e by (rule ih)
      also have "\<dots> = madt_scan m' (p + ?l) (p + of_nat n) (if madt_hdr_type p m' = 5 \<and> 12 \<le> ?l then madt_override_addr p m' else b)"
        using ov hd(2) by (cases "12 \<le> ?l") simp_all
      also have "\<dots> = madt_scan m' p (p + of_nat n) b"
        using True ok unfolding hd(1) by (subst (2) madt_scan.simps) (simp add: SIZEOF_MADT_HDR_def SIZEOF_MADT_OVERRIDE_def MADT_LAPIC_OVERRIDE_def)
      finally show ?thesis .
    qed
  qed
qed

subsection \<open>Fields\<close>

lemma bit_byte:
  "bit (push_bit k (ucast (b :: u8)) :: u32) n \<longleftrightarrow> k \<le> n \<and> n < 32 \<and> n - k < 8 \<and> bit b (n - k)"
  "bit (ucast (b :: u8) :: u32) n \<longleftrightarrow> n < 8 \<and> bit b n"
  by (auto simp: bit_simps dest: bit_imp_le_length)

lemma bit_load32: "bit (load32 m a) n \<longleftrightarrow> n < 32 \<and> bit (m (a + of_nat (n div 8))) (n mod 8)"
proof -
  define k j where "k = n div 8" and "j = n mod 8"
  have n: "n = 8 * k + j" "j < 8" by (simp_all add: k_def j_def)
  have "bit (load32 m a) (8 * k + j) \<longleftrightarrow> 8 * k + j < 32 \<and> bit (m (a + of_nat k)) j"
  proof -
    consider "k = 0" | "k = 1" | "k = 2" | "k = 3" | "4 \<le> k" by linarith
    then show ?thesis
    proof cases
      case 5
      then have "\<not> 8 * k + j < 32" by simp
      then show ?thesis using bit_imp_le_length[of "load32 m a" "8 * k + j"] by auto
    qed (use n(2) in \<open>simp_all add: load32_def bit_or_iff bit_byte\<close>)
  qed
  then show ?thesis unfolding n(1)[symmetric] unfolding k_def j_def .
qed

lemma load32_cong: "(\<And>k. k < 4 \<Longrightarrow> m (a + of_nat k) = m' (a + of_nat k)) \<Longrightarrow> load32 m a = load32 m' a"
  by (rule bit_word_eqI) (simp add: bit_load32)

text \<open>A 64-bit field read as two 32-bit ones.\<close>

lemma load32_halves:
  "(ucast (load32 m a) :: u64) = take_bit 32 (load64 m a)" "(ucast (load32 m (a + 4)) :: u64) = drop_bit 32 (load64 m a)"
proof -
  show "(ucast (load32 m a) :: u64) = take_bit 32 (load64 m a)"
    by (rule bit_word_eqI) (auto simp: bit_simps bit_load32 bit_load64)
  show "(ucast (load32 m (a + 4)) :: u64) = drop_bit 32 (load64 m a)"
  proof (rule bit_word_eqI)
    fix n assume "n < LENGTH(64)"
    have "(32 + n) div 8 = 4 + n div 8" "(32 + n) mod 8 = n mod 8" by presburger+
    then show "bit (ucast (load32 m (a + 4)) :: u64) n = bit (drop_bit 32 (load64 m a)) n"
      by (auto simp: bit_simps bit_load32 bit_load64 add.assoc)
  qed
qed

subsection \<open>Finding a table\<close>

text \<open>The addresses in a root table of 32-bit and of 64-bit entries, and the tables that a search accepts.\<close>

definition rsdt_entries :: "memory \<Rightarrow> uptr \<Rightarrow> u64 list" where
  "rsdt_entries m t = map (\<lambda>i. ucast (load32 m (t + 36 + 4 * of_nat i))) [0..<(unat (sdt_length t m) - 36) div 4]"

definition xsdt_entries :: "memory \<Rightarrow> uptr \<Rightarrow> u64 list" where
  "xsdt_entries m t = map (\<lambda>i. load64 m (t + 36 + 8 * of_nat i)) [0..<(unat (sdt_length t m) - 36) div 8]"

definition table_ok :: "u32 \<Rightarrow> memory \<Rightarrow> uptr \<Rightarrow> bool" where
  "table_ok sig m a \<longleftrightarrow> a \<noteq> 0 \<and> acpi_signature a m = sig \<and> acpi_verify_checksum a (ucast (sdt_length a m)) m"

definition first_ok :: "u32 \<Rightarrow> memory \<Rightarrow> uptr list \<Rightarrow> uptr" where
  "first_ok sig m as = (case List.find (table_ok sig m) as of Some a \<Rightarrow> a | None \<Rightarrow> 0)"

lemma acpi_find_loop_eq:
  assumes "\<And>j. j < i + n \<Longrightarrow> acpi_get_entry resp sdt (of_nat j) s = Inr (E j)"
  shows "acpi_find_loop resp sdt sig i n s = Inr (first_ok sig (mem s) (map E [i..<i + n]))"
  using assms
proof (induction n arbitrary: i)
  case 0
  then show ?case by (simp add: first_ok_def)
next
  case (Suc n)
  have g: "acpi_get_entry resp sdt (of_nat i) s = Inr (E i)" using Suc.prems[of i] by simp
  have ih: "acpi_find_loop resp sdt sig (Suc i) n s = Inr (first_ok sig (mem s) (map E [Suc i..<Suc i + n]))"
    using Suc.prems by (intro Suc.IH) simp
  have u: "[i..<i + Suc n] = i # [Suc i..<Suc i + n]" by (simp add: upt_conv_Cons)
  show ?case
  proof (cases "table_ok sig (mem s) (E i)")
    case True
    then show ?thesis using g unfolding u by (simp add: first_ok_def) (simp add: table_ok_def)
  next
    case False
    then have "acpi_find_loop resp sdt sig i (Suc n) s = acpi_find_loop resp sdt sig (Suc i) n s"
      using g by (auto simp: table_ok_def)
    with ih False show ?thesis unfolding u by (simp add: first_ok_def del: upt_Suc)
  qed
qed

lemma unat_ucast_u32: "unat (ucast (x :: u32) :: u64) = unat x"
proof -
  have "unat x < 2 ^ 64" using unsigned_less[of x, where ?'a = nat] by simp
  then show ?thesis by (simp add: unsigned_ucast_eq take_bit_nat_eq_self)
qed

lemma entry_counts:
  assumes "36 \<le> unat (sdt_length t m)"
  shows "unat ((ucast (sdt_length t m) - SIZEOF_SDT_HDR) div 4) = (unat (sdt_length t m) - 36) div 4"
    "unat ((ucast (sdt_length t m) - SIZEOF_SDT_HDR) div 8) = (unat (sdt_length t m) - 36) div 8"
proof -
  have "(36 :: u64) \<le> ucast (sdt_length t m)" using assms by (simp add: word_le_nat_alt unat_ucast_u32)
  then have "unat (ucast (sdt_length t m) - 36 :: u64) = unat (sdt_length t m) - 36" by (simp add: unat_sub unat_ucast_u32)
  then show "unat ((ucast (sdt_length t m) - SIZEOF_SDT_HDR) div 4) = (unat (sdt_length t m) - 36) div 4"
    "unat ((ucast (sdt_length t m) - SIZEOF_SDT_HDR) div 8) = (unat (sdt_length t m) - 36) div 8"
    by (simp_all add: unat_div SIZEOF_SDT_HDR_def)
qed

lemma acpi_find_eq:
  assumes t: "t \<noteq> 0" "36 \<le> unat (sdt_length t (mem s))" and off: "hhdm_resp s = Some off"
  shows "acpi_find (Some r) t sig s = Inr (first_ok sig (mem s) (map (\<lambda>a. a + off)
    (if ar_revision r < 2 then rsdt_entries (mem s) t else xsdt_entries (mem s) t)))"
proof -
  let ?k = "(unat (sdt_length t (mem s)) - 36) div (if ar_revision r < 2 then 4 else 8)"
  let ?E = "\<lambda>j. (if ar_revision r < 2 then ucast (load32 (mem s) (t + 36 + 4 * of_nat j)) else load64 (mem s) (t + 36 + 8 * of_nat j)) + off"
  obtain count where count: "acpi_count_entries (Some r) t (mem s) = Inr count" "unat count = ?k"
    using t entry_counts[OF t(2)] by (simp add: acpi_count_entries_def acpi_get_rsdt_def acpi_get_xsdt_def not_less split: if_splits)
  have e: "acpi_get_entry (Some r) t (of_nat j) s = Inr (?E j)" if "j < 0 + ?k" for j
  proof -
    have "unat (of_nat j :: u64) = j" using that count(2) unat_lt_u64[of count] by (intro unat_of_nat_u64) simp
    then have "(of_nat j :: u64) < count" using that count(2) by (simp add: word_less_nat_alt)
    moreover have "2 \<le> ar_revision r \<longleftrightarrow> \<not> ar_revision r < 2" by (rule linorder_not_less[symmetric])
    ultimately show ?thesis using count(1) t(1) off
      by (simp add: acpi_get_entry_def acpi_get_rsdt_def acpi_get_xsdt_def hhdm_p2v_def SIZEOF_SDT_HDR_def)
  qed
  have "map ?E [0..<0 + ?k] = map (\<lambda>a. a + off) (if ar_revision r < 2 then rsdt_entries (mem s) t else xsdt_entries (mem s) t)"
    by (simp add: rsdt_entries_def xsdt_entries_def)
  with acpi_find_loop_eq[OF e, where sig = sig] count show ?thesis by (simp add: acpi_find_def)
qed

text \<open>
  Finding a table. The search gives the first table of the root table, in its order, that has the signature and a valid checksum, and
  NULL when there is none; entries at address 0 and tables that do not add up to 0 are passed over. The root table is read with 32-bit entries
  when the boot loader reports a revision below 2 and with 64-bit entries otherwise.
\<close>

theorem acpi_find_first:
  assumes "t \<noteq> 0" "36 \<le> unat (sdt_length t (mem s))" "hhdm_resp s = Some off"
  shows "acpi_find (Some r) t sig s = Inr (first_ok sig (mem s) (map (\<lambda>a. a + off)
    (if ar_revision r < 2 then rsdt_entries (mem s) t else xsdt_entries (mem s) t)))"
  using assms by (rule acpi_find_eq)

text \<open>
  A root table at 4096 with one entry, for the interrupt controller table at 8192: 64 bytes that add up to 0, with an entry of type 0 and an
  override of the address 0xFEE00000.
\<close>

definition acpi_demo :: machine where
  "acpi_demo = \<lparr>mem = (\<lambda>_. 0)(4100 := 40, 4133 := 0x20, 8192 := 0x41, 8193 := 0x50, 8194 := 0x49, 8195 := 0x43, 8196 := 64, 8201 := 237,
       8230 := 0xE0, 8231 := 0xFE, 8237 := 8, 8242 := 1, 8244 := 5, 8245 := 12, 8250 := 0xC0, 8251 := 0xFE),
     hhdm_resp = Some 0, memmap_resp = None, pmm_inst = undefined\<rparr>"

abbreviation resp_demo :: acpi_response where "resp_demo \<equiv> \<lparr>ar_address = 0, ar_revision = 0\<rparr>"

lemma acpi_demo_tables:
  "sdt_length 4096 (mem acpi_demo) = 40" "sdt_length 8192 (mem acpi_demo) = 64" "rsdt_entries (mem acpi_demo) 4096 = [8192]"
  "table_ok ACPI_SIG_MADT (mem acpi_demo) 8192" "madt_lapic_addr 8192 (mem acpi_demo) = 0xFEE00000"
  by (simp_all add: sdt_length_def load32_def acpi_demo_def rsdt_entries_def table_ok_def acpi_signature_def ACPI_SIG_MADT_def
      acpi_verify_checksum_def madt_lapic_addr_def upt_rec)

theorem acpi_find_first_witness: "acpi_find (Some resp_demo) 4096 ACPI_SIG_MADT acpi_demo = Inr 8192"
proof -
  have h: "(4096 :: u64) \<noteq> 0" "36 \<le> unat (sdt_length 4096 (mem acpi_demo))" "hhdm_resp acpi_demo = Some 0"
    by (simp_all add: acpi_demo_tables) (simp add: acpi_demo_def)
  show ?thesis using acpi_find_first[OF h, of resp_demo ACPI_SIG_MADT] by (simp add: acpi_demo_tables first_ok_def)
qed

lemma acpi_demo_find: "acpi_find (Some resp_demo) 4096 ACPI_SIG_MADT acpi_demo = Inr 8192"
  using acpi_find_eq[of 4096 acpi_demo 0 resp_demo ACPI_SIG_MADT]
  by (simp add: acpi_demo_tables first_ok_def) (simp add: acpi_demo_def)

text \<open>
  The root table is misread on current firmware. \<^verbatim>\<open>acpi_load\<close> chooses the table of 64-bit entries by the revision in the firmware's
  structure, but the search looks at the revision of the boot loader's response, which is 0: it then takes each half of an entry for an address.
\<close>

theorem acpi_find_splits_xsdt:
  assumes "t \<noteq> 0" "36 \<le> unat (sdt_length t (mem s))" "8 dvd unat (sdt_length t (mem s)) - 36" "hhdm_resp s = Some off" "ar_revision r = 0"
  shows "acpi_find (Some r) t sig s = Inr (first_ok sig (mem s)
    (concat (map (\<lambda>a. [take_bit 32 a + off, drop_bit 32 a + off]) (xsdt_entries (mem s) t))))"
proof -
  have two: "map (\<lambda>i. f (of_nat i)) [0..<2 * n] = concat (map (\<lambda>i. [f (2 * of_nat i), f (2 * of_nat i + 1)]) [0..<n])" for f :: "u64 \<Rightarrow> u64" and n
  proof (induction n)
    case (Suc n)
    have "[0..<2 * Suc n] = [0..<2 * n] @ [2 * n, 2 * n + 1]" by simp
    then show ?case using Suc by (simp del: upt_Suc) (simp add: add.commute)
  qed simp
  obtain n where n: "unat (sdt_length t (mem s)) - 36 = 8 * n" using assms(3) by (rule dvdE)
  have x: "xsdt_entries (mem s) t = map (\<lambda>i. load64 (mem s) (t + 36 + 8 * of_nat i)) [0..<n]" by (simp add: xsdt_entries_def n)
  have h: "ucast (load32 (mem s) (t + 36 + 4 * (2 * of_nat i))) = take_bit 32 (load64 (mem s) (t + 36 + 8 * of_nat i))"
    "ucast (load32 (mem s) (t + 36 + 4 * (2 * of_nat i + 1))) = drop_bit 32 (load64 (mem s) (t + 36 + 8 * of_nat i))" for i
    using load32_halves[of "mem s" "t + 36 + 8 * of_nat i"] by (simp_all add: algebra_simps)
  have "(unat (sdt_length t (mem s)) - 36) div 4 = 2 * n" using n by simp
  then have "rsdt_entries (mem s) t = concat (map (\<lambda>a. [take_bit 32 a, drop_bit 32 a]) (xsdt_entries (mem s) t))"
    unfolding x rsdt_entries_def using two[of "\<lambda>w. ucast (load32 (mem s) (t + 36 + 4 * w))" n] h by (simp add: comp_def)
  then show ?thesis using acpi_find_eq[OF assms(1,2,4), of r sig] assms(5) by (simp add: map_concat comp_def)
qed

text \<open>A 64-bit root table with one entry above 4 GB; the search follows its two halves.\<close>

definition xsdt_demo :: machine where
  "xsdt_demo = \<lparr>mem = (\<lambda>_. 0)(4100 := 44, 4133 := 0x20, 4136 := 1), hhdm_resp = Some 0x100000, memmap_resp = None, pmm_inst = undefined\<rparr>"

theorem acpi_find_splits_xsdt_witness:
  "xsdt_entries (mem xsdt_demo) 4096 = [0x100002000] \<and>
   acpi_find (Some resp_demo) 4096 ACPI_SIG_MADT xsdt_demo = Inr (first_ok ACPI_SIG_MADT (mem xsdt_demo) [0x102000, 0x100001])"
proof -
  have l: "sdt_length 4096 (mem xsdt_demo) = 44" by (simp add: sdt_length_def load32_def xsdt_demo_def)
  have w: "load64 (mem xsdt_demo) 4132 = 0x100002000"
    by (simp add: load64_def xsdt_demo_def word_rcat_def upt_rec)
  then have x: "xsdt_entries (mem xsdt_demo) 4096 = [0x100002000]" by (simp add: xsdt_entries_def l)
  have h: "(4096 :: u64) \<noteq> 0" "36 \<le> unat (sdt_length 4096 (mem xsdt_demo))" "8 dvd unat (sdt_length 4096 (mem xsdt_demo)) - 36"
    "hhdm_resp xsdt_demo = Some 0x100000" "ar_revision resp_demo = 0" using l by (simp_all add: xsdt_demo_def)
  have tb: "take_bit 32 (0x100002000 :: u64) = 0x2000" "drop_bit 32 (0x100002000 :: u64) = 1" by simp_all
  show ?thesis using acpi_find_splits_xsdt[OF h, of ACPI_SIG_MADT] x tb by simp
qed

subsection \<open>The address of the local controller\<close>

text \<open>
  The local controller's address. If the table holds entries \<open>es\<close> (each with its own length in its second byte), followed by at most one
  stray byte, \<^verbatim>\<open>madt_mmio_load\<close> gives the address of the last override entry of at least twelve bytes, or the one in the table's
  header when there is none, through the direct map; it stops when that address is 0.
\<close>

theorem madt_mmio_load_last_override:
  assumes f: "acpi_find resp sdt ACPI_SIG_MADT s = Inr t" "t \<noteq> 0" and off: "hhdm_resp s = Some off"
    and es: "\<forall>e \<in> set es. entry_fits e" "holds (mem s) (t + 44) (table_bytes es)"
    and len: "unat (sdt_length t (mem s)) = 44 + length (table_bytes es) + r" "r \<le> 1" "unat t + unat (sdt_length t (mem s)) < 2 ^ 64 - 2"
  shows "madt_mmio_load resp sdt s =
    (let a = madt_base es (ucast (madt_lapic_addr t (mem s))) in if a = 0 then Inl Panic else Inr (a + off))"
proof -
  have "unat (t + 44) = unat t + 44" using unat_add_u64[of t 44] len by simp
  then have b: "unat (t + 44) + length (table_bytes es) + r < 2 ^ 64 - 2" using len by simp
  have "ucast (sdt_length t (mem s)) = (of_nat (44 + length (table_bytes es) + r) :: u64)"
    unfolding len(1)[symmetric] by (simp add: unat_ucast_u32[symmetric])
  then have e: "t + ucast (sdt_length t (mem s)) = (t + 44) + of_nat (length (table_bytes es) + r)" by simp
  have "unat (t + ucast (sdt_length t (mem s))) = unat t + unat (sdt_length t (mem s))"
    using unat_add_u64[of t "ucast (sdt_length t (mem s))"] len(3) by (simp add: unat_ucast_u32)
  then have "\<not> t + ucast (sdt_length t (mem s)) < t + 44" using \<open>unat (t + 44) = unat t + 44\<close> len(1) by (simp add: word_less_nat_alt)
  moreover have "madt_scan (mem s) (t + 44) (t + ucast (sdt_length t (mem s))) c = Inr (madt_base es c)" for c
    unfolding e by (rule madt_scan_entries[OF es len(2) b])
  ultimately show ?thesis using f off by (simp add: madt_mmio_load_def madt_entries_def Let_def hhdm_p2v_def)
qed

theorem madt_mmio_load_last_override_witness:
  "madt_mmio_load (Some resp_demo) 4096 acpi_demo = Inr 0xFEC00000"
proof -
  let ?es = "[(0, [0, 0, 0, 0, 1, 0]), (5, [0, 0, 0, 0, 0xC0, 0xFE, 0, 0, 0, 0])] :: madt_entry list"
  have es: "\<forall>e \<in> set ?es. entry_fits e" by (simp add: entry_fits_def)
  have h: "holds (mem acpi_demo) (8192 + 44) (table_bytes ?es)"
    by (simp add: holds_Cons entry_bytes_def acpi_demo_def) (simp add: holds_def bytes_at_def)
  have l: "unat (sdt_length 8192 (mem acpi_demo)) = 44 + length (table_bytes ?es) + 0" "(0 :: nat) \<le> 1"
    "unat (8192 :: u64) + unat (sdt_length 8192 (mem acpi_demo)) < 2 ^ 64 - 2" by (simp_all add: acpi_demo_tables entry_bytes_def)
  have o: "hhdm_resp acpi_demo = Some 0" "(8192 :: u64) \<noteq> 0" by (simp_all add: acpi_demo_def)
  have b: "madt_base ?es x = 0xFEC00000" for x by (simp add: override_of_def word_rcat_def)
  show ?thesis using madt_mmio_load_last_override[OF acpi_demo_find o(2,1) es h l] by (simp only: b Let_def) simp
qed



end
