(* ===== verification/Console_Cap.thy ===== *)
theory Console_Cap
  imports Klog Syscall_Props
begin

section \<open>The console capability (kernel/proc/capabilities/console.c)\<close>

text \<open>
  The write function of the console object and what a \<^verbatim>\<open>capwrite\<close> system call on such an object does. The kernel has no other
  capability functions, so a call through another function pointer cannot happen and is an error outcome.
\<close>

definition console_cap_write :: "nat \<Rightarrow> const_span \<Rightarrow> 'a isys_scheme \<Rightarrow> (u64 \<times> 'a isys_scheme) outcome" where
  "console_cap_write obj msg s =
     rbind (console_write (Passed \<lparr>s_data = cspan_data msg, s_length = cspan_size msg, s_capacity = cspan_size msg, s_owned = False\<rparr>) s)
       (\<lambda>s. Inr (cspan_size msg, s))"

definition kernel_calls :: "'a isys_scheme cap_calls" where
  "kernel_calls = \<lparr>call_read = (\<lambda>_ _ _ _. Inl NullDeref),
     call_write = (\<lambda>f obj msg s. if f = 1 then console_cap_write obj msg s else Inl NullDeref),
     call_invoke = (\<lambda>_ _ _ _ _. Inl NullDeref), call_map = (\<lambda>_ _ _ _ _ _ _. Inl NullDeref), call_ctl = (\<lambda>_ _ _ _ _. Inl NullDeref)\<rparr>"

text \<open>The task that runs on this CPU holds the right to write to the console object \<open>c\<close>, as every new user task does.\<close>

definition has_console :: "nat \<Rightarrow> nat \<Rightarrow> 'a isys_scheme \<Rightarrow> bool" where
  "has_console t c s \<longleftrightarrow>
     this_cpu (km s) < length (cpus s) \<and> sc_current (sched (this_cpu (km s)) s) = Some t \<and> cap_inv (capabilities (tasks s t)) \<and>
     (\<exists>r f. caps_of (capabilities (tasks s t)) CONSOLE_CAP_ID = Some (c, r, f) \<and> r AND CAP_RIGHT_WRITE = CAP_RIGHT_WRITE) \<and>
     co_ops (cap_objs s c) = console_cap_ops \<and> console_lock s = unlocked"

lemma incref_isys [simp]:
  "km (incref c s) = km s" "cpus (incref c s) = cpus s" "tasks (incref c s) = tasks s" "console_lock (incref c s) = console_lock s"
  "log_lock (incref c s) = log_lock s" "io (incref c s) = io s" "console (incref c s) = console s" "ft_ctx (incref c s) = ft_ctx s"
  "co_ops (cap_objs (incref c s) o') = co_ops (cap_objs s o')"
  by (simp_all add: incref_def upd_obj_def)

lemma has_console_incref [simp]: "has_console t c (incref o' s) = has_console t c s"
  by (simp add: has_console_def)

lemma has_console_printed [simp]: "has_console t c (printed bs s) = has_console t c s"
  by (simp add: has_console_def printed_def)

lemma printed_incref: "printed bs (incref c s) = incref c (printed bs s)"
  by (cases s) (simp add: printed_def incref_def upd_obj_def)

lemma sysc_capwrite_console:
  assumes h: "has_console t c s" and f: "rdi frame = ucast CONSOLE_CAP_ID" "rsi frame \<noteq> 0" "rdx frame \<noteq> 0" "is_user_range_ok (rsi frame) (rdx frame)"
  shows "sysc_capwrite kernel_calls frame s =
    Inr (Some (rdx frame), printed (bytes_at (mem (km s)) (rsi frame) (unat (rdx frame))) (incref c s))"
proof -
  obtain r f where cap: "caps_of (capabilities (tasks s t)) CONSOLE_CAP_ID = Some (c, r, f)" "r AND CAP_RIGHT_WRITE = CAP_RIGHT_WRITE"
    using h by (auto simp: has_console_def)
  have l: "console_lock (incref c s) = unlocked" "op_write (co_ops (cap_objs s c)) = Some 1"
    using h by (simp_all add: has_console_def console_cap_ops_def)
  have d: "cap_dispatch CONSOLE_CAP_ID CAP_RIGHT_WRITE op_write call s = returning (call 1 c) (incref c s)" for call
    using h cap l(2) by (subst cap_dispatch_eq[of s t]) (auto simp: has_console_def)
  have id: "ucast (ucast CONSOLE_CAP_ID :: 64 word) = CONSOLE_CAP_ID" by (simp add: CONSOLE_CAP_ID_def)
  show ?thesis
    using f(2-4) word_gt_0[of "rdx frame"] console_write_ok[OF l(1)]
    by (simp add: sysc_capwrite_def Let_def is_user_ptr_ok_def make_const_span_def f(1) id d kernel_calls_def returning_def
        console_cap_write_def chunk_bytes_def str_bytes_def)
qed

end
