(* ===== verification/Userland.thy ===== *)
theory Userland
  imports Console_Cap
begin

section \<open>The user library (ulibc: sys/*.c, io.c, crt.c, assert.h, mem/alloc.c) and the program apps/dummy\<close>

text \<open>
  A user program is its registers, a \<open>syscall_frame\<close>, over the state of the kernel; once it has called \<^verbatim>\<open>sys_exit\<close> only the kernel's state is
  left. Each wrapper of \<^verbatim>\<open>ulibc/src/sys\<close> loads the registers its inline assembly names and executes the instruction, whose
  handler is \<open>syscall_handler\<close>; the instruction itself overwrites \<^verbatim>\<open>rcx\<close> and \<^verbatim>\<open>r11\<close>. When a call makes the kernel run another
  task, as a join that has to wait does, the state is the one in which that task runs.

  What the compiler and the linker decide is the record \<open>uenv\<close>: the values the instruction saves, the addresses of literals and
  of the formatter's buffers, and the file and line an assertion names. The formatter, the spans and the strings of ulibc are the
  same text as those of klibc and share their definitions.
\<close>

subsection \<open>Programs and the system call instruction\<close>

datatype 's uproc = Runs syscall_frame 's | Exited 's

record 's uenv =
  ue_sys :: "'s sys_env"
  ue_return :: "u64 \<times> u64"
  ue_addr :: "u8 list \<Rightarrow> uptr"
  ue_where :: "string \<times> u64"

definition syscall_insn :: "('a ksys_scheme) uenv \<Rightarrow> syscall_frame \<Rightarrow> 'a ksys_scheme \<Rightarrow> (syscall_frame \<times> 'a ksys_scheme) outcome" where
  "syscall_insn env frame s = syscall_handler (ue_sys env) (frame\<lparr>rcx := fst (ue_return env), r11 := snd (ue_return env)\<rparr>) s"

definition ucall :: "('a ksys_scheme) uenv \<Rightarrow> (syscall_frame \<Rightarrow> syscall_frame) \<Rightarrow> 'a ksys_scheme uproc \<Rightarrow> 'a ksys_scheme uproc outcome" where
  "ucall env load u =
     (case u of
        Runs frame s \<Rightarrow> rbind (syscall_insn env (load frame) s) (\<lambda>(frame, s). Inr (Runs frame s))
      | Exited s \<Rightarrow> Inr (Exited s))"

subsection \<open>Wrappers\<close>

definition SYSC_EXIT :: u64 where "SYSC_EXIT = 0"
definition SYSC_SPAWN :: u64 where "SYSC_SPAWN = 1"
definition SYSC_JOIN :: u64 where "SYSC_JOIN = 2"
definition SYSC_MMAP :: u64 where "SYSC_MMAP = 3"
definition SYSC_MUNMAP :: u64 where "SYSC_MUNMAP = 4"
definition SYSC_CAPREAD :: u64 where "SYSC_CAPREAD = 5"
definition SYSC_CAPWRITE :: u64 where "SYSC_CAPWRITE = 6"
definition SYSC_CAPINVOKE :: u64 where "SYSC_CAPINVOKE = 7"
definition SYSC_CAPMAP :: u64 where "SYSC_CAPMAP = 8"
definition SYSC_CAPCTL :: u64 where "SYSC_CAPCTL = 9"
definition SYSC_CAPRELEASE :: u64 where "SYSC_CAPRELEASE = 10"

lemmas sysc_numbers = SYSC_EXIT_def SYSC_SPAWN_def SYSC_JOIN_def SYSC_MMAP_def SYSC_MUNMAP_def SYSC_CAPREAD_def SYSC_CAPWRITE_def
  SYSC_CAPINVOKE_def SYSC_CAPMAP_def SYSC_CAPCTL_def SYSC_CAPRELEASE_def

definition sys_exit :: "('a ksys_scheme) uenv \<Rightarrow> i32 \<Rightarrow> 'a ksys_scheme uproc \<Rightarrow> 'a ksys_scheme uproc outcome" where
  "sys_exit env code u =
     (case u of
        Runs frame s \<Rightarrow> rbind (syscall_insn env (frame\<lparr>rax := SYSC_EXIT, rdi := scast code\<rparr>) s) (\<lambda>(_, s). Inr (Exited s))
      | Exited s \<Rightarrow> Inr (Exited s))"

definition sys_spawn :: "('a ksys_scheme) uenv \<Rightarrow> const_span \<Rightarrow> uptr \<Rightarrow> 'a ksys_scheme uproc \<Rightarrow> 'a ksys_scheme uproc outcome" where
  "sys_spawn env binary info =
     ucall env (\<lambda>f. f\<lparr>rax := SYSC_SPAWN, rdi := cspan_data binary, rsi := cspan_size binary, rdx := info\<rparr>)"

definition sys_join :: "('a ksys_scheme) uenv \<Rightarrow> u32 \<Rightarrow> 'a ksys_scheme uproc \<Rightarrow> 'a ksys_scheme uproc outcome" where
  "sys_join env tid = ucall env (\<lambda>f. f\<lparr>rax := SYSC_JOIN, rdi := ucast tid\<rparr>)"

definition sys_mmap :: "('a ksys_scheme) uenv \<Rightarrow> uptr \<Rightarrow> usize \<Rightarrow> u8 \<Rightarrow> 'a ksys_scheme uproc \<Rightarrow> 'a ksys_scheme uproc outcome" where
  "sys_mmap env addr len flags = ucall env (\<lambda>f. f\<lparr>rax := SYSC_MMAP, rdi := addr, rsi := len, rdx := ucast flags\<rparr>)"

definition sys_munmap :: "('a ksys_scheme) uenv \<Rightarrow> uptr \<Rightarrow> usize \<Rightarrow> 'a ksys_scheme uproc \<Rightarrow> 'a ksys_scheme uproc outcome" where
  "sys_munmap env addr len = ucall env (\<lambda>f. f\<lparr>rax := SYSC_MUNMAP, rdi := addr, rsi := len\<rparr>)"

definition sys_capread :: "('a ksys_scheme) uenv \<Rightarrow> u32 \<Rightarrow> span \<Rightarrow> 'a ksys_scheme uproc \<Rightarrow> 'a ksys_scheme uproc outcome" where
  "sys_capread env cap msg =
     ucall env (\<lambda>f. f\<lparr>rax := SYSC_CAPREAD, rdi := ucast cap, rsi := span_data msg, rdx := span_size msg\<rparr>)"

definition sys_capwrite :: "('a ksys_scheme) uenv \<Rightarrow> u32 \<Rightarrow> const_span \<Rightarrow> 'a ksys_scheme uproc \<Rightarrow> 'a ksys_scheme uproc outcome" where
  "sys_capwrite env cap msg =
     ucall env (\<lambda>f. f\<lparr>rax := SYSC_CAPWRITE, rdi := ucast cap, rsi := cspan_data msg, rdx := cspan_size msg\<rparr>)"

definition sys_capinvoke :: "('a ksys_scheme) uenv \<Rightarrow> u32 \<Rightarrow> const_span \<Rightarrow> span \<Rightarrow> 'a ksys_scheme uproc \<Rightarrow> 'a ksys_scheme uproc outcome" where
  "sys_capinvoke env cap req resp =
     ucall env (\<lambda>f. f\<lparr>rax := SYSC_CAPINVOKE, rdi := ucast cap, rsi := cspan_data req, rdx := cspan_size req,
       r10 := span_data resp, r8 := span_size resp\<rparr>)"

definition sys_capmap :: "('a ksys_scheme) uenv \<Rightarrow> u32 \<Rightarrow> uptr \<Rightarrow> usize \<Rightarrow> u64 \<Rightarrow> uptr \<Rightarrow> 'a ksys_scheme uproc \<Rightarrow> 'a ksys_scheme uproc outcome" where
  "sys_capmap env cap addr sz flags mapped_addr_ptr =
     ucall env (\<lambda>f. f\<lparr>rax := SYSC_CAPMAP, rdi := ucast cap, rsi := addr, rdx := sz, r10 := flags, r8 := mapped_addr_ptr\<rparr>)"

definition sys_capctl :: "('a ksys_scheme) uenv \<Rightarrow> u32 \<Rightarrow> u64 \<Rightarrow> uptr \<Rightarrow> 'a ksys_scheme uproc \<Rightarrow> 'a ksys_scheme uproc outcome" where
  "sys_capctl env cap cmd arg = ucall env (\<lambda>f. f\<lparr>rax := SYSC_CAPCTL, rdi := ucast cap, rsi := cmd, rdx := arg\<rparr>)"

definition sys_caprelease :: "('a ksys_scheme) uenv \<Rightarrow> u32 \<Rightarrow> 'a ksys_scheme uproc \<Rightarrow> 'a ksys_scheme uproc outcome" where
  "sys_caprelease env cap = ucall env (\<lambda>f. f\<lparr>rax := SYSC_CAPRELEASE, rdi := ucast cap\<rparr>)"

subsection \<open>Output and assertions\<close>

definition ulit :: "('a ksys_scheme) uenv \<Rightarrow> string \<Rightarrow> str" where
  "ulit env t = (let bs = map ch t; n = of_nat (length bs) in \<lparr>s_data = ue_addr env bs, s_length = n, s_capacity = n, s_owned = False\<rparr>)"

definition chunk_data :: "('a ksys_scheme) uenv \<Rightarrow> chunk \<Rightarrow> uptr" where
  "chunk_data env c = (case c of Local bs \<Rightarrow> ue_addr env bs | Passed s \<Rightarrow> s_data s)"

text \<open>A failed assertion prints and exits.\<close>

definition uassert_fail :: "('a ksys_scheme) uproc consumer \<Rightarrow> ('a ksys_scheme) uenv \<Rightarrow> string \<Rightarrow> 'a ksys_scheme uproc \<Rightarrow> 'a ksys_scheme uproc outcome" where
  "uassert_fail put env cond u =
     rbind (formatter_apply_v put (map ch (''Assertion failed: %s, file %s, line %d'' @ [CHR 0x0D, CHR 0x0A]))
        [VA_str (ulit env cond), VA_str (ulit env (fst (ue_where env))), VA_int (snd (ue_where env))] u)
       (sys_exit env 127)"

text \<open>
  \<^verbatim>\<open>puts\<close> makes a span of the string; the assertion of \<^verbatim>\<open>make_const_span\<close> reports through \<^verbatim>\<open>print\<close>, which calls \<^verbatim>\<open>puts\<close> again. The first
  argument bounds the depth of failing assertions.
\<close>

fun puts :: "nat \<Rightarrow> ('a ksys_scheme) uenv \<Rightarrow> ('a ksys_scheme) uproc consumer" where
  "puts 0 env c u = Inl Deadlock"
| "puts (Suc n) env c u =
     (case u of
        Exited s \<Rightarrow> Inr (Exited s)
      | Runs frame s \<Rightarrow>
          (case make_const_span (chunk_data env c) (chunk_length c) of
             Inr span \<Rightarrow> sys_capwrite env CONSOLE_CAP_ID span u
           | Inl _ \<Rightarrow> uassert_fail (puts n env) env ''data != NULL && size > 0'' u))"

declare puts.simps(2) [simp del]

definition str_formatter :: "nat \<Rightarrow> ('a ksys_scheme) uenv \<Rightarrow> ('a ksys_scheme) uproc consumer" where
  "str_formatter n env c u = puts n env c u"

definition printv :: "nat \<Rightarrow> ('a ksys_scheme) uenv \<Rightarrow> string \<Rightarrow> va list \<Rightarrow> 'a ksys_scheme uproc \<Rightarrow> 'a ksys_scheme uproc outcome" where
  "printv n env fmt args u = formatter_apply_v (str_formatter n env) (map ch fmt) args u"

definition print :: "nat \<Rightarrow> ('a ksys_scheme) uenv \<Rightarrow> string \<Rightarrow> va list \<Rightarrow> 'a ksys_scheme uproc \<Rightarrow> 'a ksys_scheme uproc outcome" where
  "print n env fmt args u = printv n env fmt args u"

definition uassert :: "nat \<Rightarrow> ('a ksys_scheme) uenv \<Rightarrow> string \<Rightarrow> bool \<Rightarrow> 'a ksys_scheme uproc \<Rightarrow> 'a ksys_scheme uproc outcome" where
  "uassert n env cond b u = (if b then Inr u else uassert_fail (str_formatter n env) env cond u)"

subsection \<open>Start-up code\<close>

text \<open>The pointer the kernel passes in the first register; the strings are read where it points.\<close>

definition os_arg :: "uptr \<Rightarrow> nat \<Rightarrow> memory \<Rightarrow> str" where
  "os_arg info i m =
     (let p = str_item (si_args_items info m) i in \<lparr>s_data = str_data p m, s_length = str_length p m, s_capacity = load64 m (p + 16), s_owned = m (p + 24) \<noteq> 0\<rparr>)"

definition crt_start :: "nat \<Rightarrow> ('a ksys_scheme) uenv \<Rightarrow> (uptr \<Rightarrow> 'a ksys_scheme uproc \<Rightarrow> (i32 \<times> 'a ksys_scheme uproc) outcome) \<Rightarrow> uptr \<Rightarrow>
    'a ksys_scheme uproc \<Rightarrow> 'a ksys_scheme uproc outcome" where
  "crt_start n env main_fn info u =
     rbind (uassert n env ''info != NULL'' (info \<noteq> 0) u) (\<lambda>u.
     rbind (main_fn info u) (\<lambda>(code, u). sys_exit env code u))"

subsection \<open>The program dummy\<close>

definition dummy_arg :: "nat \<Rightarrow> ('a ksys_scheme) uenv \<Rightarrow> uptr \<Rightarrow> nat \<Rightarrow> 'a ksys_scheme uproc \<Rightarrow> 'a ksys_scheme uproc outcome" where
  "dummy_arg n env info i u =
     (case u of Runs frame s \<Rightarrow> print n env '' %s'' [VA_str (os_arg info i (mem (km s)))] u | Exited s \<Rightarrow> Inr (Exited s))"

definition dummy_main :: "nat \<Rightarrow> ('a ksys_scheme) uenv \<Rightarrow> uptr \<Rightarrow> 'a ksys_scheme uproc \<Rightarrow> (i32 \<times> 'a ksys_scheme uproc) outcome" where
  "dummy_main n env info u =
     rbind (print n env ''Hello from userland:'' [] u) (\<lambda>u.
     rbind (case u of
         Runs frame s \<Rightarrow> for_r (dummy_arg n env info) [0..<unat (si_args_count info (mem (km s)))] u
       | Exited s \<Rightarrow> Inr u) (\<lambda>u.
     rbind (print n env [CHR 0x0D, CHR 0x0A] [] u) (\<lambda>u. Inr (0, u))))"

subsection \<open>Memory for liballoc\<close>

definition user_liballoc_lock :: i32 where "user_liballoc_lock = 0"
definition user_liballoc_unlock :: i32 where "user_liballoc_unlock = 0"

definition user_liballoc_alloc :: "('a ksys_scheme) uenv \<Rightarrow> i32 \<Rightarrow> 'a ksys_scheme uproc \<Rightarrow> 'a ksys_scheme uproc outcome" where
  "user_liballoc_alloc env page_count = sys_mmap env 0 (scast page_count * 4096) (1 OR 2)"

definition user_liballoc_free :: "('a ksys_scheme) uenv \<Rightarrow> uptr \<Rightarrow> i32 \<Rightarrow> 'a ksys_scheme uproc \<Rightarrow> (i32 \<times> 'a ksys_scheme uproc) outcome" where
  "user_liballoc_free env ptr page_count u = rbind (sys_munmap env ptr (scast page_count * 4096) u) (\<lambda>u. Inr (0, u))"

end
