(* ===== verification/Userland_Props.thy ===== *)
theory Userland_Props
  imports Userland Interrupts_Props
begin

section \<open>From a print in user space to the serial port\<close>

subsection \<open>One piece, one system call\<close>

text \<open>A piece that the checks of ulibc and of the kernel accept; the bytes of a literal or a buffer are in memory at its address.\<close>

definition sendable :: "('a ksys_scheme) uenv \<Rightarrow> memory \<Rightarrow> chunk \<Rightarrow> bool" where
  "sendable env m c \<longleftrightarrow> chunk_data env c \<noteq> 0 \<and> chunk_length c \<noteq> 0 \<and> is_user_range_ok (chunk_data env c) (chunk_length c) \<and>
     (case c of Local bs \<Rightarrow> length bs < 2 ^ 64 \<and> bytes_at m (ue_addr env bs) (length bs) = bs | Passed s \<Rightarrow> True)"

lemma sendable_bytes: "sendable env m c \<Longrightarrow> bytes_at m (chunk_data env c) (unat (chunk_length c)) = chunk_bytes m c"
  by (auto simp: sendable_def chunk_data_def chunk_length_def chunk_bytes_def str_bytes_def unat_of_nat_u64 split: chunk.splits)

lemma sys_capwrite_console:
  assumes "has_console t k s" "env_calls (ue_sys env) = kernel_calls" "d \<noteq> 0" "n \<noteq> 0" "is_user_range_ok d n"
  shows "\<exists>frame'. sys_capwrite env CONSOLE_CAP_ID \<lparr>cspan_data = d, cspan_size = n\<rparr> (Runs frame s) =
    Inr (Runs frame' (printed (bytes_at (mem (km s)) d (unat n)) (incref k s)))"
proof -
  let ?f = "frame\<lparr>rax := 6, rdi := ucast CONSOLE_CAP_ID, rsi := d, rdx := n, rcx := fst (ue_return env), r11 := snd (ue_return env)\<rparr>"
  have "sysc_capwrite kernel_calls ?f s = Inr (Some n, printed (bytes_at (mem (km s)) d (unat n)) (incref k s))"
    using sysc_capwrite_console[OF assms(1), of ?f] assms(3-5) by simp
  then show ?thesis
    by (simp add: sys_capwrite_def ucall_def syscall_insn_def syscall_handler_def SYSC__COUNT_def syscall_table_def sysc_numbers assms(2))
qed

lemma puts_ok:
  assumes "has_console t k s" "env_calls (ue_sys env) = kernel_calls" "sendable env (mem (km s)) c"
  shows "\<exists>frame'. puts (Suc n) env c (Runs frame s) = Inr (Runs frame' (printed (chunk_bytes (mem (km s)) c) (incref k s)))"
proof -
  have d: "chunk_data env c \<noteq> 0" "chunk_length c \<noteq> 0" "is_user_range_ok (chunk_data env c) (chunk_length c)"
    using assms(3) by (auto simp: sendable_def)
  then have "make_const_span (chunk_data env c) (chunk_length c) = Inr \<lparr>cspan_data = chunk_data env c, cspan_size = chunk_length c\<rparr>"
    by (simp add: make_const_span_def word_gt_0)
  then show ?thesis using sys_capwrite_console[OF assms(1,2) d, of frame] sendable_bytes[OF assms(3)] by (simp add: puts.simps(2))
qed

text \<open>Each piece takes a reference on the console object.\<close>

definition written :: "nat \<Rightarrow> nat \<Rightarrow> u8 list \<Rightarrow> 'a isys_scheme \<Rightarrow> 'a isys_scheme" where
  "written k n bs s = printed bs ((incref k ^^ n) s)"

lemma incref_pow [simp]:
  "km ((incref k ^^ n) s) = km s" "has_console t k' ((incref k ^^ n) s) = has_console t k' s" "io ((incref k ^^ n) s) = io s"
  "tasks ((incref k ^^ n) s) = tasks s" "cpus ((incref k ^^ n) s) = cpus s"
  by (induction n) simp_all

lemma written_sel [simp]:
  "km (written k n bs s) = km s" "has_console t k' (written k n bs s) = has_console t k' s"
  "io (written k n bs s) = io s @ map (Out8 0x3F8) bs" "tasks (written k n bs s) = tasks s" "cpus (written k n bs s) = cpus s"
  by (simp_all add: written_def)

lemma written_0: "written k 0 [] s = s"
  by (simp add: written_def printed_Nil)

lemma printed_pow: "printed bs ((incref k ^^ n) s) = (incref k ^^ n) (printed bs s)"
  by (induction n) (simp_all add: printed_incref)

lemma written_written: "written k n cs (written k m bs s) = written k (n + m) (bs @ cs) s"
  by (simp add: written_def printed_pow printed_append funpow_add)

lemma puts_written:
  assumes "has_console t k s" "env_calls (ue_sys env) = kernel_calls" "sendable env (mem (km s)) c"
  shows "\<exists>frame'. puts (Suc n) env c (Runs frame s) = Inr (Runs frame' (written k 1 (chunk_bytes (mem (km s)) c) s))"
  using puts_ok[OF assms] by (simp add: written_def)

lemma feed_puts:
  assumes "env_calls (ue_sys env) = kernel_calls"
  shows "has_console t k s \<Longrightarrow> \<forall>c \<in> set cs. sendable env (mem (km s)) c \<Longrightarrow>
    \<exists>frame'. feed (puts (Suc n) env) cs (Runs frame s) = Inr (Runs frame' (written k (length cs) (text_of (mem (km s)) cs) s))"
proof (induction cs arbitrary: frame s)
  case Nil
  show ?case by (simp add: written_0)
next
  case (Cons c cs)
  let ?s = "written k 1 (chunk_bytes (mem (km s)) c) s"
  obtain f where f: "puts (Suc n) env c (Runs frame s) = Inr (Runs f ?s)" using puts_written[OF Cons.prems(1) assms, of c n frame] Cons.prems(2) by auto
  obtain f' where "feed (puts (Suc n) env) cs (Runs f ?s) = Inr (Runs f' (written k (length cs) (text_of (mem (km ?s)) cs) ?s))"
    using Cons.IH[of ?s f] Cons.prems by auto
  then show ?case using f by (simp add: written_written)
qed

lemma str_formatter_eq: "str_formatter n env = puts n env"
  by (simp add: str_formatter_def fun_eq_iff)

lemma print_eq:
  "fmt_chunks (map ch fmt) args = Inr cs \<Longrightarrow> print n env fmt args u = feed (puts n env) cs u"
  by (simp add: print_def printv_def str_formatter_eq formatter_apply_v_eq)

lemma print_written:
  assumes "has_console t k s" "env_calls (ue_sys env) = kernel_calls" "fmt_chunks (map ch fmt) args = Inr cs"
    and "\<forall>c \<in> set cs. sendable env (mem (km s)) c"
  shows "\<exists>frame'. print (Suc n) env fmt args (Runs frame s) = Inr (Runs frame' (written k (length cs) (text_of (mem (km s)) cs) s))"
  using feed_puts[OF assms(2,1,4), of n frame] by (simp add: print_eq[OF assms(3)])

subsection \<open>Exit\<close>

lemma joined_written:
  "joined i a js tq cq (incref k s) = joined i a js tq cq s" "woken (incref k s) = woken s"
  "joined i a js tq cq (written k n bs s) = joined i a js tq cq s" "woken (written k n bs s) = woken s"
proof -
  show 1: "joined i a js tq cq (incref k s) = joined i a js tq cq s" "woken (incref k s) = woken s" for s :: "'b ksys_scheme"
    by (simp_all add: joined_def queues_def off_queues_def rq_holds_def wq_holds_def mp_get_cpu_count_def woken_def fun_eq_iff incref_def upd_obj_def)
  have "joined i a js tq cq ((incref k ^^ n) s) = joined i a js tq cq s" "woken ((incref k ^^ n) s) = woken s" for s :: "'b isys_scheme"
    by (induction n) (simp_all add: 1)
  then show "joined i a js tq cq (written k n bs s) = joined i a js tq cq s" "woken (written k n bs s) = woken s" for s :: "'b isys_scheme"
    by (simp_all add: written_def joined_frame)
qed

text \<open>Everything that lets the running task \<open>a\<close> exit: its joiners \<open>js\<close>, and a task \<open>n\<close> to run next.\<close>

definition can_exit :: "nat \<Rightarrow> nat \<Rightarrow> nat \<Rightarrow> nat list \<Rightarrow> nat list \<Rightarrow> (nat \<Rightarrow> nat list) \<Rightarrow> (nat \<Rightarrow> nat list) \<Rightarrow> 'a ksys_scheme \<Rightarrow> bool" where
  "can_exit i a n ts js tq cq s \<longleftrightarrow>
     joined i a js tq cq s \<and> woken s tq js i = n # ts \<and> sc_idle (sched i s) \<noteq> Some n \<and> pmap (tasks s n) \<noteq> None \<and> hhdm_resp (km s) \<noteq> None"

lemma can_exit_written [simp]: "can_exit i a n ts js tq cq (written k m bs s) = can_exit i a n ts js tq cq s"
  by (simp add: can_exit_def joined_written)

lemma sys_exit_kills:
  assumes "can_exit i a n ts js tq cq s"
  shows "\<exists>s'. sys_exit env code (Runs frame s) = Inr (Exited s') \<and> task_killed i a n ts js tq cq code s s'"
proof -
  obtain p off where h: "joined i a js tq cq s" "woken s tq js i = n # ts" "sc_idle (sched i s) \<noteq> Some n" "pmap (tasks s n) = Some p" "hhdm_resp (km s) = Some off"
    using assms by (auto simp: can_exit_def)
  have c: "ucast (scast code :: 64 word) = code" by (rule bit_word_eqI) (auto simp: bit_simps)
  obtain s' where k: "scheduler_kill_current_task code s = Inr s'" "task_killed i a n ts js tq cq code s s'"
    using kill_current_ok[OF h, of code] unfolding task_killed_def by blast
  have "sysc_exit f s = Inr (None, s')" if "rdi f = scast code" for f
    using k(1) that c by (simp add: sysc_exit_def task_exit_def)
  then show ?thesis using k(2)
    by (simp add: sys_exit_def syscall_insn_def syscall_handler_def SYSC__COUNT_def syscall_table_def sysc_numbers)
qed

subsection \<open>An empty string\<close>

text \<open>The message of the assertion in \<^verbatim>\<open>make_const_span\<close>, in pieces.\<close>

definition assert_pieces :: "('a ksys_scheme) uenv \<Rightarrow> string \<Rightarrow> chunk list outcome" where
  "assert_pieces env cond =
     fmt_chunks (map ch (''Assertion failed: %s, file %s, line %d'' @ [CHR 0x0D, CHR 0x0A]))
       [VA_str (ulit env cond), VA_str (ulit env (fst (ue_where env))), VA_int (snd (ue_where env))]"

lemma assert_pieces_ok: "\<exists>acs. assert_pieces env cond = Inr acs"
  unfolding assert_pieces_def by (rule fmt_fits_chunks) simp

lemma uassert_fail_eq:
  "assert_pieces env cond = Inr acs \<Longrightarrow> uassert_fail put env cond u = rbind (feed put acs u) (sys_exit env 127)"
  unfolding uassert_fail_def assert_pieces_def by (drule formatter_apply_v_eq[of _ _ _ put u]) (simp only:)

lemma puts_empty:
  assumes h: "has_console t k s" "env_calls (ue_sys env) = kernel_calls"
    and e: "chunk_data env c = 0 \<or> chunk_length c = 0"
    and a: "assert_pieces env ''data != NULL && size > 0'' = Inr acs" "\<forall>c \<in> set acs. sendable env (mem (km s)) c"
  shows "\<exists>frame'. puts (Suc (Suc n)) env c (Runs frame s) =
    sys_exit env 127 (Runs frame' (written k (length acs) (text_of (mem (km s)) acs) s))"
proof -
  have f: "make_const_span (chunk_data env c) (chunk_length c) = Inl AssertFail" using e by (auto simp: make_const_span_def)
  obtain fr where "feed (puts (Suc n) env) acs (Runs frame s) = Inr (Runs fr (written k (length acs) (text_of (mem (km s)) acs) s))"
    using feed_puts[OF h(2,1) a(2)] by blast
  then have "puts (Suc (Suc n)) env c (Runs frame s) = sys_exit env 127 (Runs fr (written k (length acs) (text_of (mem (km s)) acs) s))"
    by (simp add: puts.simps(2)[of "Suc n"] f uassert_fail_eq[OF a(1)])
  then show ?thesis by blast
qed

lemma feed_exited: "feed (puts (Suc n) env) cs (Exited s) = Inr (Exited s)"
  by (induction cs) (simp_all add: puts.simps(2))

text \<open>
  An empty string kills the program that prints it. A piece of length 0 (or at NULL) fails the assertion of \<^verbatim>\<open>make_const_span\<close> in
  \<^verbatim>\<open>puts\<close>: what comes before it is printed, then the message of the assertion, and the task ends with exit code 127; the rest of the
  format is never printed.
\<close>

theorem print_empty_exits:
  assumes "has_console a k s" "env_calls (ue_sys env) = kernel_calls" "can_exit i a n ts js tq cq s"
    and "fmt_chunks (map ch fmt) args = Inr (cs @ c # cs')" "\<forall>c \<in> set cs. sendable env (mem (km s)) c" "chunk_data env c = 0 \<or> chunk_length c = 0"
    and "assert_pieces env ''data != NULL && size > 0'' = Inr acs" "\<forall>c \<in> set acs. sendable env (mem (km s)) c"
  shows "\<exists>s'. print (Suc (Suc d)) env fmt args (Runs frame s) = Inr (Exited s') \<and>
    task_killed i a n ts js tq cq 127 (written k (length acs + length cs) (text_of (mem (km s)) cs @ text_of (mem (km s)) acs) s) s'"
proof -
  let ?s = "written k (length cs) (text_of (mem (km s)) cs) s"
  obtain fr where fr: "feed (puts (Suc (Suc d)) env) cs (Runs frame s) = Inr (Runs fr ?s)"
    using feed_puts[OF assms(2,1,5)] by blast
  obtain fr' where p: "puts (Suc (Suc d)) env c (Runs fr ?s) = sys_exit env 127 (Runs fr' (written k (length acs) (text_of (mem (km ?s)) acs) ?s))"
    using puts_empty[of a k ?s env c acs d fr] assms by auto
  let ?t = "written k (length acs + length cs) (text_of (mem (km s)) cs @ text_of (mem (km s)) acs) s"
  obtain s' where e: "sys_exit env 127 (Runs fr' ?t) = Inr (Exited s')" "task_killed i a n ts js tq cq 127 ?t s'"
    using sys_exit_kills[of i a n ts js tq cq ?t env 127 fr'] assms(3) by auto
  have "print (Suc (Suc d)) env fmt args (Runs frame s) = Inr (Exited s')"
    using fr p e(1) by (simp add: print_eq[OF assms(4)] feed_append written_written feed_exited)
  then show ?thesis using e(2) by blast
qed

subsection \<open>The program dummy, end to end\<close>

lemma fmt_chunks_plain: "CHR ''%'' \<notin> set t \<Longrightarrow> fmt_chunks (map ch t) args = Inr (map (\<lambda>c. Local [ch c]) t)"
  by (induction t) auto

lemma text_of_plain: "text_of m (map (\<lambda>c. Local [ch c]) t) = map ch t"
  by (induction t) (simp_all add: chunk_bytes_def)

lemma print_plain:
  assumes "has_console a k s" "env_calls (ue_sys env) = kernel_calls" "CHR ''%'' \<notin> set t" "length t = l"
    and "\<forall>c \<in> set t. sendable env (mem (km s)) (Local [ch c])"
  shows "\<exists>frame'. print (Suc n) env t [] (Runs frame s) = Inr (Runs frame' (written k l (map ch t) s))"
  using print_written[OF assms(1,2) fmt_chunks_plain[OF assms(3)], where n = n and frame = frame] assms(4,5) by (simp add: text_of_plain)

lemma dummy_arg_Runs: "dummy_arg n env info i (Runs frame s) = print n env '' %s'' [VA_str (os_arg info i (mem (km s)))] (Runs frame s)"
  by (simp add: dummy_arg_def)

definition arg_text :: "uptr \<Rightarrow> memory \<Rightarrow> nat \<Rightarrow> u8 list" where
  "arg_text info m i = ch CHR '' '' # str_bytes m (os_arg info i m)"

lemma dummy_args_written:
  assumes "env_calls (ue_sys env) = kernel_calls"
  shows "has_console a k s \<Longrightarrow> sendable env (mem (km s)) (Local [ch CHR '' '']) \<Longrightarrow>
    \<forall>i \<in> set is. sendable env (mem (km s)) (Passed (os_arg info i (mem (km s)))) \<Longrightarrow>
    \<exists>frame'. for_r (dummy_arg (Suc n) env info) is (Runs frame s) =
      Inr (Runs frame' (written k (2 * length is) (concat (map (arg_text info (mem (km s))) is)) s))"
proof (induction "is" arbitrary: frame s)
  case Nil
  show ?case by (simp add: written_0)
next
  case (Cons i "is")
  let ?m = "mem (km s)"
  let ?s = "written k 2 (arg_text info ?m i) s"
  have c: "fmt_chunks (map ch '' %s'') [VA_str (os_arg info i ?m)] = Inr [Local [ch CHR '' ''], Passed (os_arg info i ?m)]"
    by (simp add: conversion_other)
  obtain f where "print (Suc n) env '' %s'' [VA_str (os_arg info i ?m)] (Runs frame s) = Inr (Runs f ?s)"
    using print_written[OF Cons.prems(1) assms c, where n = n and frame = frame] Cons.prems(2,3) by (auto simp: arg_text_def chunk_bytes_def numeral_2_eq_2)
  moreover obtain f' where "for_r (dummy_arg (Suc n) env info) is (Runs f ?s) = Inr (Runs f' (written k (2 * length is) (concat (map (arg_text info ?m) is)) ?s))"
    using Cons.IH[of ?s f] Cons.prems by auto
  ultimately show ?case by (simp add: dummy_arg_Runs written_written)
qed


subsection \<open>A machine with a user program\<close>

text \<open>
  Task 1 of \<open>exit_demo\<close> with the console capability. Byte \<open>b\<close> lies at 0x600000 + b; the start-up structure at 0x700000 has
  one argument, the two characters AB.
\<close>

definition user_mem :: memory where
  "user_mem a =
     (if 0x700000 \<le> a \<and> a < 0x700100 then
        (if a = 0x700000 then 0x40 else if a = 0x700002 then 0x70 else if a = 0x700008 then 1 else
         if a = 0x700040 then 0x41 else if a = 0x700042 then 0x60 else if a = 0x700048 then 2 else 0)
      else ucast (a - 0x600000))"

definition user_demo :: isys where
  "user_demo = isys_demo\<lparr>km := (km isys_demo)\<lparr>mem := user_mem\<rparr>, cap_objs := (cap_objs isys_demo)(5 := console_obj),
     tasks := (tasks isys_demo)(1 := (tasks isys_demo 1)\<lparr>capabilities :=
       \<lparr>slots = Some [empty_slot\<lparr>sl_obj := Some 5, sl_rights := CAP_RIGHT_WRITE\<rparr>], capacity = 1, next_unused = 1,
         free_head = CAP_INVALID_INDEX, ct_lock = unlocked\<rparr>\<rparr>)\<rparr>"

definition uenv_demo :: "isys uenv" where
  "uenv_demo = \<lparr>ue_sys = \<lparr>env_syms = syms_demo, env_release = \<lambda>_ _ s. Inr s, env_calls = kernel_calls, env_responders = []\<rparr>,
     ue_return = (0, 0), ue_addr = (\<lambda>bs. 0x600000 + ucast (hd bs)), ue_where = (''span.c'', 8)\<rparr>"

lemma user_demo_console: "has_console 1 5 user_demo"
proof -
  have "slots_ok [empty_slot\<lparr>sl_obj := Some 5, sl_rights := CAP_RIGHT_WRITE\<rparr>] 1 CAP_INVALID_INDEX []"
    by (auto simp: slots_ok_def empty_slot_def)
  then have "cap_inv (capabilities (tasks user_demo 1))" by (auto simp: cap_inv_def user_demo_def)
  moreover have "caps_of (capabilities (tasks user_demo 1)) CONSOLE_CAP_ID = Some (5, CAP_RIGHT_WRITE, 0)"
    by (simp add: user_demo_def caps_of_def slot_cap_def empty_slot_def CONSOLE_CAP_ID_def cap_id_get_index_def cap_id_get_gen_def)
  ultimately show ?thesis
    by (simp add: has_console_def user_demo_def console_obj_def isys_demo_def ksys.defs isys.defs exit_demo_def ksys_demo_def percpu_demo_def vm_demo_def)
qed

lemma user_demo_can_exit: "can_exit 0 1 2 [] [2] (\<lambda>_. []) (\<lambda>_. []) user_demo"
  unfolding can_exit_def
  by (auto simp: user_demo_def woken_def joined_def isys_demo_def ksys.defs isys.defs exit_demo_def ksys_demo_def percpu_demo_def vm_demo_def task_demo_def queues_def off_queues_def
      rq_holds_def rq_empty_def wq_holds_def dll_def task_cpu_def mp_get_cpu_count_def)

lemma user_addr: "unat (0x600000 + ucast (b :: u8) :: u64) = 0x600000 + unat b" "unat b < 256"
proof -
  show b: "unat b < 256" using unsigned_less[of b] by simp
  have u: "unat (ucast b :: u64) = unat b" using b by (intro unat_ucast_less) simp
  then show "unat (0x600000 + ucast b :: u64) = 0x600000 + unat b" using b by (subst unat_add_u64) simp_all
qed

lemma user_mem_byte: "user_mem (0x600000 + ucast (b :: u8)) = b"
proof -
  have "(ucast (ucast b :: u64) :: u8) = b" by (rule bit_word_eqI) (auto simp: bit_simps)
  then show ?thesis using user_addr[of b] by (simp add: user_mem_def word_le_nat_alt)
qed

lemma user_demo_range:
  "0x600000 + ucast (b :: u8) \<noteq> (0 :: u64)"
  "n \<le> 4096 \<Longrightarrow> is_user_range_ok (0x600000 + ucast (b :: u8)) (of_nat n)"
proof -
  show "0x600000 + ucast b \<noteq> (0 :: u64)" using user_addr(1)[of b] by (metis add_is_0 unat_0 zero_neq_numeral)
  assume n: "n \<le> 4096"
  have un: "unat (of_nat n :: u64) = n" using n by (simp add: unat_of_nat_u64)
  have "unat (0x600000 + ucast b + of_nat n :: u64) = 0x600000 + unat b + n"
    using user_addr[of b] n un by (subst unat_add_u64) simp_all
  then show "is_user_range_ok (0x600000 + ucast b) (of_nat n)"
    using user_addr[of b] n by (auto simp: is_user_range_ok_def USER_VA_END_def word_less_nat_alt)
qed

lemma user_demo_sendable: "sendable uenv_demo user_mem (Local [b])"
  using user_demo_range(1)[of b] user_demo_range(2)[of 1 b] user_mem_byte[of b]
  by (simp add: sendable_def chunk_data_def chunk_length_def uenv_demo_def bytes_at_def)

lemma user_demo_literal:
  assumes "t \<noteq> []" "length t \<le> 4096"
  shows "sendable uenv_demo user_mem (Passed (ulit uenv_demo t))"
proof -
  have "unat (of_nat (length t) :: u64) = length t" using assms(2) by (simp add: unat_of_nat_u64)
  then have "(of_nat (length t) :: u64) \<noteq> 0" using assms(1) by (metis length_0_conv unat_0)
  then show ?thesis using user_demo_range(1)[of "ch (hd t)"] user_demo_range(2)[OF assms(2), of "ch (hd t)"] assms(1)
    by (simp add: sendable_def chunk_data_def chunk_length_def ulit_def uenv_demo_def hd_map Let_def)
qed

lemma user_demo_simps [simp]:
  "mem (km user_demo) = user_mem" "env_calls (ue_sys uenv_demo) = kernel_calls" "io user_demo = []"
  by (simp_all add: user_demo_def uenv_demo_def)

lemma user_demo_args:
  "si_args_count 0x700000 user_mem = 1" "os_arg 0x700000 0 user_mem = \<lparr>s_data = 0x600041, s_length = 2, s_capacity = 0, s_owned = False\<rparr>"
  by (simp_all add: si_args_count_def os_arg_def si_args_items_def str_item_def str_data_def str_length_def SIZEOF_STR_def load64_def user_mem_def upt_rec)
    (code_simp)+


theorem print_empty_exits_witness:
  "\<exists>s'. print 2 uenv_demo ''%s!'' [VA_str \<lparr>s_data = 0x600041, s_length = 0, s_capacity = 0, s_owned = False\<rparr>] (Runs frame_demo user_demo) = Inr (Exited s') \<and>
    t_state (tasks s' 1) = TH_TASK_STATE_ZOMBIE 127"
proof -
  let ?e = "\<lparr>s_data = 0x600041, s_length = 0, s_capacity = 0, s_owned = False\<rparr>"
  have f: "fmt_chunks (map ch ''%s!'') [VA_str ?e] = Inr ([] @ Passed ?e # [Local [ch CHR ''!'']])" by (simp add: conversion_other)
  have d: "digits 8 10 = Inr (Local [56])" by code_simp
  have conv: "conversion (ch CHR ''d'') [VA_int 8] = Inr ([Local [56]], [])" by (simp add: conversion_def va_int_def d word_sless_alt)
  have w: "ue_where uenv_demo = (''span.c'', 8)" by (simp add: uenv_demo_def)
  obtain acs where a: "assert_pieces uenv_demo ''data != NULL && size > 0'' = Inr acs"
      "\<forall>c \<in> set acs. (\<exists>b. c = Local [b]) \<or> c = Passed (ulit uenv_demo ''data != NULL && size > 0'') \<or> c = Passed (ulit uenv_demo ''span.c'')"
    by (simp add: assert_pieces_def conversion_other conv w)
  have s: "\<forall>c \<in> set acs. sendable uenv_demo (mem (km user_demo)) c" using a(2) user_demo_sendable user_demo_literal by auto
  from print_empty_exits[OF user_demo_console _ user_demo_can_exit f _ _ a(1) s, of 0 frame_demo] show ?thesis
    by (auto simp: task_killed_def chunk_length_def numeral_2_eq_2)
qed

end
