(* ===== verification/Mp.thy ===== *)
theory Mp
  imports Interrupts Lock
begin

section \<open>Starting the processors (kernel/cpu/mp.c)\<close>

text \<open>
  The list of CPUs is the response of the boot loader, whose structure for a CPU the kernel also writes: the boot loader documents
  that it keeps every CPU but the bootstrap one in a loop until \<^verbatim>\<open>goto_address\<close> of its structure is not NULL, and then jumps there with
  a pointer to the structure. \<open>mp_load\<close> makes the per-CPU data, an array of \<open>SIZEOF_PERCPU\<close> bytes per CPU; \<open>mp_ap_jump\<close>
  writes three fields per CPU, in the order of \<open>mp_ap_jump_stores\<close>. Since the other CPUs watch one of them, the stores
  interleave with the steps of these CPUs: \<open>ap_step\<close>. Functions are numbers.
\<close>

subsection \<open>Data\<close>

record mp_info =
  mi_lapic_id :: u32
  goto_address :: ref
  extra_argument :: u64

record mp_response =
  mp_cpus :: "mp_info list"
  bsp_lapic_id :: u32

record mpsys = isys +
  mp_resp :: "mp_response option"
  cpus_items :: uptr
  current_syncpoint :: syncpoint

definition ISR_STACK_SIZE :: u64 where "ISR_STACK_SIZE = 0x4000"
definition PERCPU_ISR_STACK :: u64 where "PERCPU_ISR_STACK = 352"
definition SIZEOF_PERCPU :: u64 where "SIZEOF_PERCPU = 16736"

definition percpu_zero :: percpu_data where
  "percpu_zero = \<lparr>syscall_kernel_rsp = 0, processor_id = 0, lapic_id = 0, is_bootstrap = False,
     pc_scheduler = \<lparr>sc_uptime_ns = 0, sc_tasks = rq_empty, sc_cleanup = rq_empty,
       sc_sleepers = \<lparr>sll_lock = unlocked, sll_head = None, sll_tail = None, sll_count = 0\<rparr>, sc_current = None, sc_idle = None\<rparr>,
     tss_rsp0 = 0, pc_regs = context_zero, current_fn = None, tss_ist1 = 0\<rparr>"

definition item_addr :: "uptr \<Rightarrow> nat \<Rightarrow> uptr" where
  "item_addr b i = b + of_nat i * SIZEOF_PERCPU"

text \<open>The element of the array a pointer points to.\<close>

definition item_index :: "uptr \<Rightarrow> nat \<Rightarrow> uptr \<Rightarrow> nat option" where
  "item_index b n a = List.find (\<lambda>j. item_addr b j = a) [0..<n]"

subsection \<open>Set-up on the bootstrap CPU\<close>

definition mp_init :: "'a mpsys_scheme \<Rightarrow> 'a mpsys_scheme outcome" where
  "mp_init s = check (mp_resp s \<noteq> None) (Inr (s\<lparr>current_syncpoint := syncpoint_init (current_syncpoint s)\<rparr>))"

definition mp_load_cpu :: "mp_response \<Rightarrow> uptr \<Rightarrow> nat \<Rightarrow> 'a mpsys_scheme \<Rightarrow> 'a mpsys_scheme outcome" where
  "mp_load_cpu r b i s =
     (let cpu_info = mp_cpus r ! i;
          boot = (mi_lapic_id cpu_info = bsp_lapic_id r);
          s = s\<lparr>cpus := (cpus s)[i := (cpus s ! i)\<lparr>processor_id := of_nat i, lapic_id := mi_lapic_id cpu_info, is_bootstrap := boot,
                tss_ist1 := item_addr b i + PERCPU_ISR_STACK + ISR_STACK_SIZE\<rparr>]\<rparr> in
      Inr (if boot then s\<lparr>cpu_msrs := percpu_set_segment (item_addr b i) (cpu_msrs s)\<rparr> else s))"

definition mp_load :: "'a mpsys_scheme \<Rightarrow> 'a mpsys_scheme outcome" where
  "mp_load s =
     (case mp_resp s of
        None \<Rightarrow> Inl AssertFail
      | Some r \<Rightarrow>
          let n = length (mp_cpus r); count = of_nat n; s = s\<lparr>km := (km s)\<lparr>cpu_count := count\<rparr>\<rparr> in
          check (SIZEOF_PERCPU > 0) (check (count > 0) (check (- 1 div SIZEOF_PERCPU \<ge> count)
          (rbind (allocate_raw (SIZEOF_PERCPU * count) 16 s) (\<lambda>(b, s).
           for_r (mp_load_cpu r b) [0..<n] (s\<lparr>cpus_items := b, cpus := replicate n percpu_zero\<rparr>))))))"

definition mp_get_syncpoint :: "'a mpsys_scheme \<Rightarrow> syncpoint" where
  "mp_get_syncpoint s = current_syncpoint s"

subsection \<open>The stores of mp\_ap\_jump\<close>

datatype mp_store = Set_fn nat | Set_goto nat | Set_extra nat

definition mp_ap_jump_stores :: "nat \<Rightarrow> mp_store list" where
  "mp_ap_jump_stores n = concat (map (\<lambda>i. [Set_fn i, Set_goto i, Set_extra i]) [0..<n])"

text \<open>What is shared by the CPUs: the boot loader's structures, the field \<^verbatim>\<open>current_fn\<close> of the per-CPU data and the stores still to come.\<close>

datatype ap_pc = Parked | At_wrapper | At_call | Running nat | Crashed

record ap_sys =
  ap_infos :: "mp_info list"
  ap_fns :: "ref list"
  ap_todo :: "mp_store list"
  ap_pcs :: "nat \<Rightarrow> ap_pc"
  ap_msrs :: "nat \<Rightarrow> msrs"

text \<open>The entry point the stores announce, \<^verbatim>\<open>mp_ap_fn_wrapper\<close>.\<close>

definition AP_FN_WRAPPER :: nat where "AP_FN_WRAPPER = 1"

definition do_store :: "uptr \<Rightarrow> nat \<Rightarrow> mp_store \<Rightarrow> ap_sys \<Rightarrow> ap_sys" where
  "do_store b g st s =
     (case st of
        Set_fn i \<Rightarrow> s\<lparr>ap_fns := (ap_fns s)[i := Some g]\<rparr>
      | Set_goto i \<Rightarrow> s\<lparr>ap_infos := (ap_infos s)[i := (ap_infos s ! i)\<lparr>goto_address := Some AP_FN_WRAPPER\<rparr>]\<rparr>
      | Set_extra i \<Rightarrow> s\<lparr>ap_infos := (ap_infos s)[i := (ap_infos s ! i)\<lparr>extra_argument := item_addr b i\<rparr>]\<rparr>)"

text \<open>\<^verbatim>\<open>mp_ap_jump\<close> with nobody else running.\<close>

definition mp_ap_jump :: "uptr \<Rightarrow> nat \<Rightarrow> ap_sys \<Rightarrow> ap_sys" where
  "mp_ap_jump b g s = fold (do_store b g) (mp_ap_jump_stores (length (ap_infos s))) s"

text \<open>The two halves of \<^verbatim>\<open>mp_ap_fn_wrapper\<close> on CPU \<open>i\<close>: it takes its segment, then calls the function of the per-CPU data there.\<close>

definition mp_ap_fn_wrapper_segment :: "nat \<Rightarrow> ap_sys \<Rightarrow> ap_sys" where
  "mp_ap_fn_wrapper_segment i s =
     (let segment = extra_argument (ap_infos s ! i) in
      s\<lparr>ap_msrs := (ap_msrs s)(i := percpu_set_segment segment (ap_msrs s i)), ap_pcs := (ap_pcs s)(i := At_call)\<rparr>)"

definition mp_ap_fn_wrapper_call :: "uptr \<Rightarrow> nat \<Rightarrow> ap_sys \<Rightarrow> ap_sys" where
  "mp_ap_fn_wrapper_call b i s =
     s\<lparr>ap_pcs := (ap_pcs s)(i :=
        (case item_index b (length (ap_fns s)) (percpu_get_segment (ap_msrs s i)) of
           None \<Rightarrow> Crashed
         | Some j \<Rightarrow> (case ap_fns s ! j of None \<Rightarrow> Crashed | Some f \<Rightarrow> Running f)))\<rparr>"

inductive ap_step :: "uptr \<Rightarrow> nat \<Rightarrow> nat \<Rightarrow> ap_sys \<Rightarrow> ap_sys \<Rightarrow> bool" for b g bsp where
  boot_store: "ap_todo s = st # rest \<Longrightarrow> ap_step b g bsp s (do_store b g st (s\<lparr>ap_todo := rest\<rparr>))"
| ap_leave: "i < length (ap_infos s) \<Longrightarrow> i \<noteq> bsp \<Longrightarrow> ap_pcs s i = Parked \<Longrightarrow> goto_address (ap_infos s ! i) = Some AP_FN_WRAPPER \<Longrightarrow>
    ap_step b g bsp s (s\<lparr>ap_pcs := (ap_pcs s)(i := At_wrapper)\<rparr>)"
| ap_segment: "ap_pcs s i = At_wrapper \<Longrightarrow> ap_step b g bsp s (mp_ap_fn_wrapper_segment i s)"
| ap_call: "ap_pcs s i = At_call \<Longrightarrow> ap_step b g bsp s (mp_ap_fn_wrapper_call b i s)"

inductive_cases ap_stepE: "ap_step b g bsp s t"

inductive ap_steps :: "uptr \<Rightarrow> nat \<Rightarrow> nat \<Rightarrow> ap_sys \<Rightarrow> ap_sys \<Rightarrow> bool" for b g bsp where
  ap_refl: "ap_steps b g bsp s s"
| ap_more: "ap_steps b g bsp s t \<Longrightarrow> ap_step b g bsp t u \<Longrightarrow> ap_steps b g bsp s u"

text \<open>Before the first store: nobody is announced, all stores are to come, and no structure points to per-CPU data.\<close>

definition ap_waiting :: "uptr \<Rightarrow> nat \<Rightarrow> ap_sys \<Rightarrow> bool" where
  "ap_waiting b n s \<longleftrightarrow> length (ap_infos s) = n \<and> length (ap_fns s) = n \<and> ap_todo s = mp_ap_jump_stores n \<and> (\<forall>i. ap_pcs s i = Parked) \<and>
     (\<forall>i < n. goto_address (ap_infos s ! i) = None \<and> item_index b n (extra_argument (ap_infos s ! i)) = None)"

end
