(* ===== verification/Mp_Props.thy ===== *)
theory Mp_Props
  imports Mp Interrupts_Props
begin

section \<open>Starting the processors: properties\<close>

subsection \<open>The order of the stores\<close>

text \<open>The position of a store in the program.\<close>

fun st_cpu :: "mp_store \<Rightarrow> nat" where
  "st_cpu (Set_fn i) = i"
| "st_cpu (Set_goto i) = i"
| "st_cpu (Set_extra i) = i"

fun st_rank :: "mp_store \<Rightarrow> nat" where
  "st_rank (Set_fn i) = 3 * i"
| "st_rank (Set_goto i) = 3 * i + 1"
| "st_rank (Set_extra i) = 3 * i + 2"

lemma stores_Suc: "mp_ap_jump_stores (Suc n) = mp_ap_jump_stores n @ [Set_fn n, Set_goto n, Set_extra n]"
  by (simp add: mp_ap_jump_stores_def)

lemma stores_ranked: "map st_rank (mp_ap_jump_stores n) = [0..<3 * n]"
proof (induction n)
  case (Suc n)
  have "3 * Suc n = Suc (Suc (Suc (3 * n)))" by simp
  then have "[0..<3 * Suc n] = [0..<3 * n] @ [3 * n, 3 * n + 1, 3 * n + 2]" by (simp only: upt_Suc_append) simp
  then show ?case using Suc by (simp only: stores_Suc map_append list.map st_rank.simps)
qed (simp add: mp_ap_jump_stores_def)

lemma stores_set: "st \<in> set (mp_ap_jump_stores n) \<longleftrightarrow> st_cpu st < n"
  by (cases st) (auto simp: mp_ap_jump_stores_def)

subsection \<open>The array of per-CPU data\<close>

lemma item_index_Some: "item_index b n a = Some j \<Longrightarrow> j < n \<and> item_addr b j = a"
  by (auto simp: item_index_def find_Some_iff)

lemma item_addr_inj:
  assumes "n * 16736 < 2 ^ 64" "i < n" "j < n" "item_addr b i = item_addr b j"
  shows "i = j"
proof -
  have w: "unat (of_nat (k * 16736) :: u64) = k * 16736" if "k < n" for k
    by (rule unat_of_nat_u64) (use that assms(1) in \<open>meson less_imp_le_nat mult_le_mono1 order_le_less_trans\<close>)
  have "(of_nat (i * 16736) :: u64) = of_nat (j * 16736)" using assms(4) by (simp add: item_addr_def SIZEOF_PERCPU_def)
  then have "i * 16736 = j * 16736" using w[OF assms(2)] w[OF assms(3)] by metis
  then show ?thesis by simp
qed

lemma item_index_addr:
  assumes "n * 16736 < 2 ^ 64" "i < n"
  shows "item_index b n (item_addr b i) = Some i"
proof -
  have "i \<in> set [0..<n] \<and> item_addr b i = item_addr b i" using assms(2) by simp
  then have "item_index b n (item_addr b i) \<noteq> None" unfolding item_index_def find_None_iff by blast
  then obtain j where "item_index b n (item_addr b i) = Some j" by blast
  with item_index_Some[OF this] item_addr_inj[OF assms(1,2), of j b] show ?thesis by metis
qed

subsection \<open>An invariant of the interleaving\<close>

text \<open>
  For each CPU: its function is stored before it is announced; its argument is the address of its own per-CPU data as soon as the store is
  done, and none of the array before; and where its program counter is says what its segment is.
\<close>

definition cpu_ok :: "uptr \<Rightarrow> nat \<Rightarrow> nat \<Rightarrow> ap_sys \<Rightarrow> nat \<Rightarrow> bool" where
  "cpu_ok b g n s i \<longleftrightarrow>
     (let e = extra_argument (ap_infos s ! i); seg = percpu_get_segment (ap_msrs s i); own = item_addr b i in
      (Set_fn i \<in> set (ap_todo s) \<or> ap_fns s ! i = Some g) \<and>
      (goto_address (ap_infos s ! i) = None \<and> Set_goto i \<in> set (ap_todo s) \<or>
       goto_address (ap_infos s ! i) = Some AP_FN_WRAPPER \<and> Set_fn i \<notin> set (ap_todo s)) \<and>
      (if Set_extra i \<in> set (ap_todo s) then item_index b n e = None else e = own) \<and>
      (case ap_pcs s i of
         Parked \<Rightarrow> True
       | At_wrapper \<Rightarrow> ap_fns s ! i = Some g
       | At_call \<Rightarrow> ap_fns s ! i = Some g \<and> (seg = own \<or> item_index b n seg = None)
       | Running f \<Rightarrow> f = g \<and> seg = own
       | Crashed \<Rightarrow> item_index b n seg = None))"

definition ap_inv :: "uptr \<Rightarrow> nat \<Rightarrow> nat \<Rightarrow> ap_sys \<Rightarrow> bool" where
  "ap_inv b g n s \<longleftrightarrow> length (ap_infos s) = n \<and> length (ap_fns s) = n \<and> sorted_wrt (<) (map st_rank (ap_todo s)) \<and>
     (\<forall>st \<in> set (ap_todo s). st_cpu st < n) \<and> (\<forall>i < n. cpu_ok b g n s i) \<and> (\<forall>i \<ge> n. ap_pcs s i = Parked)"

lemma ap_inv_start:
  assumes "ap_waiting b n s"
  shows "ap_inv b g n s"
proof -
  have "sorted_wrt (<) (map st_rank (ap_todo s))" using assms by (simp add: ap_waiting_def stores_ranked)
  then show ?thesis using assms by (auto simp: ap_waiting_def ap_inv_def cpu_ok_def stores_set)
qed

lemma cpu_ok_store:
  assumes c: "cpu_ok b g n s i" and t: "ap_todo s = st # rest" and r: "\<forall>x \<in> set rest. st_rank st < st_rank x"
    and l: "i < length (ap_infos s)" "i < length (ap_fns s)"
  shows "cpu_ok b g n (do_store b g st (s\<lparr>ap_todo := rest\<rparr>)) i"
proof -
  have n: "st \<notin> set rest" "\<And>j. st = Set_goto j \<Longrightarrow> Set_fn j \<notin> set rest" using r by auto
  show ?thesis
  proof (cases "st_cpu st = i")
    case True
    then show ?thesis using c t l n by (cases st; cases "ap_pcs s i") (simp_all add: cpu_ok_def do_store_def Let_def split: if_splits)
  next
    case False
    then show ?thesis using c t l n by (cases st; cases "ap_pcs s i") (simp_all add: cpu_ok_def do_store_def Let_def)
  qed
qed

lemma cpu_ok_other:
  "j \<noteq> i \<Longrightarrow> cpu_ok b g n (s\<lparr>ap_pcs := (ap_pcs s)(i := p)\<rparr>) j = cpu_ok b g n s j"
  "j \<noteq> i \<Longrightarrow> cpu_ok b g n (s\<lparr>ap_msrs := (ap_msrs s)(i := m), ap_pcs := (ap_pcs s)(i := p)\<rparr>) j = cpu_ok b g n s j"
  by (cases "ap_pcs s j"; simp add: cpu_ok_def Let_def)+

lemma cpu_ok_leave:
  "cpu_ok b g n s i \<Longrightarrow> goto_address (ap_infos s ! i) \<noteq> None \<Longrightarrow> cpu_ok b g n (s\<lparr>ap_pcs := (ap_pcs s)(i := At_wrapper)\<rparr>) i"
  by (auto simp: cpu_ok_def Let_def)

lemma cpu_ok_segment:
  "cpu_ok b g n s i \<Longrightarrow> ap_pcs s i = At_wrapper \<Longrightarrow> cpu_ok b g n (mp_ap_fn_wrapper_segment i s) i"
  by (auto simp: cpu_ok_def Let_def mp_ap_fn_wrapper_segment_def percpu_segment_roundtrip)

lemma cpu_ok_call:
  assumes "cpu_ok b g n s i" "ap_pcs s i = At_call" "n * 16736 < 2 ^ 64" "i < n" "length (ap_fns s) = n"
  shows "cpu_ok b g n (mp_ap_fn_wrapper_call b i s) i"
  using assms item_index_addr[OF assms(3,4), of b] by (auto simp: cpu_ok_def Let_def mp_ap_fn_wrapper_call_def)

lemma ap_inv_step:
  assumes "ap_step b g bsp s t" "ap_inv b g n s" "n * 16736 < 2 ^ 64"
  shows "ap_inv b g n t"
  using assms(1)
proof (cases rule: ap_step.cases)
  case (boot_store st rest)
  have r: "sorted_wrt (<) (map st_rank rest)" "\<forall>x \<in> set rest. st_rank st < st_rank x" "st_cpu st < n" "\<forall>x \<in> set rest. st_cpu x < n"
    using assms(2) boot_store by (auto simp: ap_inv_def)
  have "cpu_ok b g n t i" if "i < n" for i
    unfolding boot_store(1) by (rule cpu_ok_store[OF _ boot_store(2) r(2)]) (use assms(2) that in \<open>simp_all add: ap_inv_def\<close>)
  then show ?thesis using assms(2) boot_store r by (cases st) (simp_all add: ap_inv_def do_store_def)
next
  case (ap_leave i)
  have "cpu_ok b g n t j" if "j < n" for j
    using assms(2) that ap_leave(5) unfolding ap_leave(1) ap_inv_def
    by (cases "j = i") (simp_all add: cpu_ok_other(1) cpu_ok_leave)
  then show ?thesis using assms(2) ap_leave by (simp add: ap_inv_def)
next
  case (ap_segment i)
  have i: "i < n" using assms(2) ap_segment(2) by (metis ap_inv_def ap_pc.distinct(1) not_less)
  have "cpu_ok b g n t j" if "j < n" for j
    using assms(2) that cpu_ok_segment[of b g n s i] ap_segment(2) unfolding ap_segment(1) ap_inv_def
    by (cases "j = i") (simp_all add: cpu_ok_other(2) mp_ap_fn_wrapper_segment_def Let_def)
  then show ?thesis using assms(2) ap_segment(1) i by (simp add: ap_inv_def mp_ap_fn_wrapper_segment_def Let_def)
next
  case (ap_call i)
  have i: "i < n" using assms(2) ap_call(2) by (metis ap_inv_def ap_pc.distinct(3) not_less)
  have "cpu_ok b g n t j" if "j < n" for j
    using assms(2) that cpu_ok_call[OF _ ap_call(2) assms(3) i] unfolding ap_call(1) ap_inv_def
    by (cases "j = i") (simp_all add: cpu_ok_other(1) mp_ap_fn_wrapper_call_def)
  then show ?thesis using assms(2) ap_call(1) i by (simp add: ap_inv_def mp_ap_fn_wrapper_call_def)
qed

lemma ap_steps_inv:
  assumes "ap_steps b g bsp s t" "ap_inv b g n s" "n * 16736 < 2 ^ 64"
  shows "ap_inv b g n t"
  using assms by (induction rule: ap_steps.induct) (auto intro: ap_inv_step)

subsection \<open>Who starts with whose data\<close>

text \<open>A CPU that finds its argument stored cannot go wrong any more.\<close>

definition cpu_safe :: "uptr \<Rightarrow> nat \<Rightarrow> nat \<Rightarrow> ap_sys \<Rightarrow> bool" where
  "cpu_safe b n i s \<longleftrightarrow> Set_extra i \<notin> set (ap_todo s) \<and>
     (ap_pcs s i = At_call \<longrightarrow> percpu_get_segment (ap_msrs s i) = item_addr b i) \<and> ap_pcs s i \<noteq> Crashed"

lemma cpu_safe_step:
  assumes "ap_step b g bsp s t" "ap_inv b g n s" "n * 16736 < 2 ^ 64" "i < n" "cpu_safe b n i s"
  shows "cpu_safe b n i t"
  using assms(1)
proof (cases rule: ap_step.cases)
  case (boot_store st rest)
  then show ?thesis using assms(5) by (cases st) (auto simp: cpu_safe_def do_store_def)
next
  case (ap_leave j)
  then show ?thesis using assms(5) by (auto simp: cpu_safe_def)
next
  case (ap_segment j)
  then show ?thesis using assms(2,4,5)
    by (auto simp: cpu_safe_def ap_inv_def cpu_ok_def mp_ap_fn_wrapper_segment_def percpu_segment_roundtrip Let_def)
next
  case (ap_call j)
  show ?thesis
  proof (cases "j = i")
    case True
    have "ap_fns s ! i = Some g" "length (ap_fns s) = n" using assms(2,4) ap_call(2) True by (auto simp: ap_inv_def cpu_ok_def Let_def)
    then show ?thesis using assms(5) True ap_call item_index_addr[OF assms(3,4), of b]
      by (simp add: cpu_safe_def mp_ap_fn_wrapper_call_def)
  qed (use assms(5) ap_call in \<open>simp add: cpu_safe_def mp_ap_fn_wrapper_call_def\<close>)
qed

lemma cpu_safe_steps:
  assumes "ap_steps b g bsp s t" "ap_inv b g n s" "n * 16736 < 2 ^ 64" "i < n" "cpu_safe b n i s"
  shows "cpu_safe b n i t"
  using assms by (induction rule: ap_steps.induct) (blast intro: cpu_safe_step ap_steps_inv)+

text \<open>
  C35: Every processor starts on its own data, or on none. In every interleaving of the stores of \<^verbatim>\<open>mp_ap_jump\<close> with the other CPUs, a CPU
  that runs the function runs the one that was asked for with the address of its own per-CPU data as segment; one that went wrong has a segment that is
  no per-CPU data at all, never that of another CPU; and a CPU still parked when its argument has been stored does not go wrong.
\<close>

theorem mp_ap_own_segment:
  assumes "ap_waiting b n s0" "ap_steps b g bsp s0 s" "n * 16736 < 2 ^ 64" "i < n"
  shows "(\<forall>f. ap_pcs s i = Running f \<longrightarrow> f = g \<and> percpu_get_segment (ap_msrs s i) = item_addr b i) \<and>
    (ap_pcs s i = Crashed \<longrightarrow> (\<forall>j < n. percpu_get_segment (ap_msrs s i) \<noteq> item_addr b j)) \<and>
    (ap_pcs s i = Parked \<and> Set_extra i \<notin> set (ap_todo s) \<longrightarrow> (\<forall>t. ap_steps b g bsp s t \<longrightarrow> ap_pcs t i \<noteq> Crashed))"
proof -
  have inv: "ap_inv b g n s" using ap_steps_inv[OF assms(2) ap_inv_start[OF assms(1)] assms(3)] .
  then have c: "cpu_ok b g n s i" using assms(4) by (simp add: ap_inv_def)
  have "percpu_get_segment (ap_msrs s i) \<noteq> item_addr b j" if "ap_pcs s i = Crashed" "j < n" for j
    using c that item_index_addr[OF assms(3) that(2), of b] by (auto simp: cpu_ok_def Let_def)
  moreover have "ap_pcs t i \<noteq> Crashed" if "ap_pcs s i = Parked \<and> Set_extra i \<notin> set (ap_todo s)" "ap_steps b g bsp s t" for t
  proof -
    have "cpu_safe b n i s" using that(1) by (simp add: cpu_safe_def)
    then show ?thesis using cpu_safe_steps[OF that(2) inv assms(3,4)] by (simp add: cpu_safe_def)
  qed
  moreover have "f = g \<and> percpu_get_segment (ap_msrs s i) = item_addr b i" if "ap_pcs s i = Running f" for f
    using c that by (simp add: cpu_ok_def Let_def)
  ultimately show ?thesis by blast
qed

subsection \<open>The race\<close>

lemma boot_runs:
  "ap_todo s = xs @ ys \<Longrightarrow> \<exists>t. ap_steps b g bsp s t \<and> ap_todo t = ys \<and> ap_pcs t = ap_pcs s"
proof (induction xs arbitrary: ys rule: rev_induct)
  case Nil
  then show ?case by (intro exI[of _ s]) (simp add: ap_refl)
next
  case (snoc x xs)
  from snoc.IH[of "x # ys"] snoc.prems obtain t where t: "ap_steps b g bsp s t" "ap_todo t = x # ys" "ap_pcs t = ap_pcs s" by auto
  let ?u = "do_store b g x (t\<lparr>ap_todo := ys\<rparr>)"
  have "ap_steps b g bsp s ?u" by (rule ap_more[OF t(1) boot_store[OF t(2)]])
  moreover have "ap_todo ?u = ys" "ap_pcs ?u = ap_pcs s" using t(3) by (cases x; simp add: do_store_def)+
  ultimately show ?case by blast
qed

text \<open>
  C36: The start-up race. \<^verbatim>\<open>mp_ap_jump\<close> announces the entry point of a CPU before it stores the argument of that CPU: between the two stores every
  CPU but the bootstrap one can leave its loop, take a segment that is no per-CPU data, and follow it to find the function to call.
\<close>

theorem mp_ap_jump_race:
  assumes "ap_waiting b n s0" "n * 16736 < 2 ^ 64" "i < n" "i \<noteq> bsp"
  shows "\<exists>s. ap_steps b g bsp s0 s \<and> ap_pcs s i = Crashed \<and> item_index b n (percpu_get_segment (ap_msrs s i)) = None"
proof -
  have "Set_extra i \<in> set (ap_todo s0)" using assms(1,3) by (simp add: ap_waiting_def stores_set)
  then obtain xs ys where "ap_todo s0 = xs @ Set_extra i # ys" by (auto dest: split_list)
  then obtain t where t: "ap_steps b g bsp s0 t" "ap_todo t = Set_extra i # ys" "ap_pcs t = ap_pcs s0" using boot_runs by blast
  have inv: "ap_inv b g n t" using ap_steps_inv[OF t(1) ap_inv_start[OF assms(1)] assms(2)] .
  then have "Set_goto i \<notin> set ys" using t(2) by (auto simp: ap_inv_def)
  then have c: "goto_address (ap_infos t ! i) = Some AP_FN_WRAPPER" "item_index b n (extra_argument (ap_infos t ! i)) = None" "i < length (ap_infos t)"
      "length (ap_fns t) = n"
    using inv t(2) assms(3) by (auto simp: ap_inv_def cpu_ok_def Let_def)
  let ?t1 = "t\<lparr>ap_pcs := (ap_pcs t)(i := At_wrapper)\<rparr>"
  let ?t2 = "mp_ap_fn_wrapper_segment i ?t1"
  let ?t3 = "mp_ap_fn_wrapper_call b i ?t2"
  have "ap_step b g bsp t ?t1" using c assms(1,4) t(3) by (intro ap_leave) (simp_all add: ap_waiting_def)
  moreover have "ap_step b g bsp ?t1 ?t2" by (rule ap_segment) simp
  moreover have "ap_step b g bsp ?t2 ?t3" by (rule ap_call) (simp add: mp_ap_fn_wrapper_segment_def Let_def)
  ultimately have "ap_steps b g bsp s0 ?t3" using t(1) by (blast intro: ap_more)
  moreover have "ap_pcs ?t3 i = Crashed" "item_index b n (percpu_get_segment (ap_msrs ?t3 i)) = None" using c
    by (simp_all add: mp_ap_fn_wrapper_call_def mp_ap_fn_wrapper_segment_def Let_def percpu_segment_roundtrip)
  ultimately show ?thesis by blast
qed

text \<open>Two CPUs, the array at 1 MB.\<close>

definition ap_demo :: ap_sys where
  "ap_demo = \<lparr>ap_infos = [\<lparr>mi_lapic_id = 0, goto_address = None, extra_argument = 0\<rparr>, \<lparr>mi_lapic_id = 1, goto_address = None, extra_argument = 0\<rparr>],
     ap_fns = [None, None], ap_todo = mp_ap_jump_stores 2, ap_pcs = (\<lambda>_. Parked), ap_msrs = (\<lambda>_ _. 0)\<rparr>"

lemma ap_demo_start: "ap_waiting 0x100000 2 ap_demo"
  by (auto simp: ap_waiting_def ap_demo_def less_2_cases_iff item_index_def item_addr_def SIZEOF_PERCPU_def upt_rec)

theorem mp_ap_jump_race_witness:
  "\<exists>s. ap_steps 0x100000 7 0 ap_demo s \<and> ap_pcs s 1 = Crashed"
  using mp_ap_jump_race[OF ap_demo_start, of 1 0 7] by auto

theorem mp_ap_own_segment_witness:
  "\<exists>s. ap_steps 0x100000 7 0 ap_demo s \<and> ap_todo s = [] \<and> (\<forall>t. ap_steps 0x100000 7 0 s t \<longrightarrow> ap_pcs t 1 \<noteq> Crashed)"
proof -
  obtain s where s: "ap_steps 0x100000 7 0 ap_demo s" "ap_todo s = []" "ap_pcs s = ap_pcs ap_demo"
    using boot_runs[of ap_demo "mp_ap_jump_stores 2" "[]" "0x100000" 7 0] by (auto simp: ap_demo_def[THEN arg_cong, of ap_todo])
  then show ?thesis using mp_ap_own_segment[OF ap_demo_start s(1), of 1] by (auto simp: ap_demo_def)
qed

subsection \<open>The per-CPU data\<close>

definition mp_item :: "mp_response \<Rightarrow> uptr \<Rightarrow> nat \<Rightarrow> percpu_data" where
  "mp_item r b i = percpu_zero\<lparr>processor_id := of_nat i, lapic_id := mi_lapic_id (mp_cpus r ! i),
     is_bootstrap := (mi_lapic_id (mp_cpus r ! i) = bsp_lapic_id r), tss_ist1 := item_addr b i + SIZEOF_PERCPU\<rparr>"

lemma mp_load_loop:
  fixes s :: "'a mpsys_scheme"
  assumes "length (cpus s) = n" "\<forall>i < n. cpus s ! i = percpu_zero" "k < n" "\<forall>j < n. mi_lapic_id (mp_cpus r ! j) = bsp_lapic_id r \<longleftrightarrow> j = k"
  shows "\<exists>s'. for_r (mp_load_cpu r b) [0..<n] s = Inr s' \<and> length (cpus s') = n \<and> km s' = km s \<and> (\<forall>i < n. cpus s' ! i = mp_item r b i) \<and>
    percpu_get_segment (cpu_msrs s') = item_addr b k"
proof -
  have e: "item_addr b i + PERCPU_ISR_STACK + ISR_STACK_SIZE = item_addr b i + SIZEOF_PERCPU" for i
    by (simp add: PERCPU_ISR_STACK_def ISR_STACK_SIZE_def SIZEOF_PERCPU_def)
  have "\<exists>s'. for_r (mp_load_cpu r b) [0..<n] s = Inr s' \<and> (length (cpus s') = n \<and> km s' = km s \<and>
      (\<forall>i < n. cpus s' ! i = (if i < n then mp_item r b i else percpu_zero)) \<and> (k < n \<longrightarrow> percpu_get_segment (cpu_msrs s') = item_addr b k))"
  proof (rule for_r_rule[where I = "\<lambda>m s'. length (cpus s') = n \<and> km s' = km s \<and>
      (\<forall>i < n. cpus s' ! i = (if i < m then mp_item r b i else percpu_zero)) \<and> (k < m \<longrightarrow> percpu_get_segment (cpu_msrs s') = item_addr b k)"])
    fix m and t :: "'a mpsys_scheme"
    assume m: "m < n" and I: "length (cpus t) = n \<and> km t = km s \<and>
      (\<forall>i < n. cpus t ! i = (if i < m then mp_item r b i else percpu_zero)) \<and> (k < m \<longrightarrow> percpu_get_segment (cpu_msrs t) = item_addr b k)"
    have z: "cpus t ! m = percpu_zero" using m I by simp
    have b: "mi_lapic_id (mp_cpus r ! m) = bsp_lapic_id r \<longleftrightarrow> m = k" using assms(4) m by simp
    let ?t = "t\<lparr>cpus := (cpus t)[m := mp_item r b m]\<rparr>"
    have f: "mp_load_cpu r b m t = Inr (if m = k then ?t\<lparr>cpu_msrs := percpu_set_segment (item_addr b m) (cpu_msrs t)\<rparr> else ?t)"
      by (simp add: mp_load_cpu_def Let_def z e b mp_item_def)
    show "\<exists>s'. mp_load_cpu r b m t = Inr s' \<and> length (cpus s') = n \<and> km s' = km s \<and>
      (\<forall>i < n. cpus s' ! i = (if i < Suc m then mp_item r b i else percpu_zero)) \<and> (k < Suc m \<longrightarrow> percpu_get_segment (cpu_msrs s') = item_addr b k)"
      unfolding f using I m by (auto simp: nth_list_update less_Suc_eq percpu_segment_roundtrip)
  qed (use assms(1,2) in simp)
  then show ?thesis using assms(3) by auto
qed

text \<open>
  What \<^verbatim>\<open>mp_load\<close> makes of the boot loader's list: one element per CPU with its number, its interrupt controller's number and the mark of the one
  bootstrap CPU; the stack for faults of each CPU ends where its own element ends, so it lies inside it; and the segment of the running CPU is
  the address of the element of the bootstrap CPU.
\<close>

theorem mp_load_describes_cpus:
  assumes r: "mp_resp s = Some r" "length (mp_cpus r) = n" "0 < n" "n * 16736 < 2 ^ 64"
    and b: "malloc_raw s (SIZEOF_PERCPU * of_nat n) 16 (raw_live s) = b" "b \<noteq> 0"
    and k: "k < n" "\<forall>j < n. mi_lapic_id (mp_cpus r ! j) = bsp_lapic_id r \<longleftrightarrow> j = k"
  shows "\<exists>s'. mp_load s = Inr s' \<and> length (cpus s') = n \<and> mp_get_cpu_count s' = of_nat n \<and> percpu_get_segment (cpu_msrs s') = item_addr b k \<and>
    (\<forall>i < n. let c = cpus s' ! i in processor_id c = of_nat i \<and> lapic_id c = mi_lapic_id (mp_cpus r ! i) \<and>
       (is_bootstrap c \<longleftrightarrow> i = k) \<and> tss_ist1 c = item_addr b (Suc i) \<and> sc_current (pc_scheduler c) = None)"
proof -
  have n: "n < 2 ^ 64" using r(4) by simp
  have un: "unat (of_nat n :: u64) = n" using n by (rule unat_of_nat_u64)
  have "unat (SIZEOF_PERCPU * of_nat n :: u64) = 16736 * n"
    using unat_of_nat_u64[of "16736 * n"] r(4) by (simp add: SIZEOF_PERCPU_def mult.commute)
  then have pos: "(SIZEOF_PERCPU * of_nat n :: u64) > 0" "(of_nat n :: u64) > 0" using r(3) un by (simp_all add: word_less_nat_alt)
  have "n \<le> 18446744073709551615 div 16736" using r(4) by simp
  then have d: "(of_nat n :: u64) \<le> - 1 div SIZEOF_PERCPU" by (simp add: word_le_nat_alt un unat_div SIZEOF_PERCPU_def)
  let ?s1 = "s\<lparr>km := (km s)\<lparr>cpu_count := of_nat n\<rparr>\<rparr>"
  obtain m where a: "allocate_raw (SIZEOF_PERCPU * of_nat n) 16 ?s1 =
      Inr (b, ?s1\<lparr>km := (km ?s1)\<lparr>mem := m\<rparr>, raw_live := insert (b, SIZEOF_PERCPU * of_nat n) (raw_live s)\<rparr>)"
    using pos b memset_eq[of b 0 "SIZEOF_PERCPU * of_nat n" "mem (km s)"] by (auto simp: allocate_raw_def)
  let ?s2 = "?s1\<lparr>km := (km ?s1)\<lparr>mem := m\<rparr>, raw_live := insert (b, SIZEOF_PERCPU * of_nat n) (raw_live s)\<rparr>"
  have "\<exists>s'. for_r (mp_load_cpu r b) [0..<n] (?s2\<lparr>cpus_items := b, cpus := replicate n percpu_zero\<rparr>) = Inr s' \<and> length (cpus s') = n \<and>
      km s' = km ?s2 \<and> (\<forall>i < n. cpus s' ! i = mp_item r b i) \<and> percpu_get_segment (cpu_msrs s') = item_addr b k"
    using mp_load_loop[of "?s2\<lparr>cpus_items := b, cpus := replicate n percpu_zero\<rparr>" n k r b] k by simp
  then obtain s' where s': "for_r (mp_load_cpu r b) [0..<n] (?s2\<lparr>cpus_items := b, cpus := replicate n percpu_zero\<rparr>) = Inr s'" "length (cpus s') = n"
      "km s' = km ?s2" "\<forall>i < n. cpus s' ! i = mp_item r b i" "percpu_get_segment (cpu_msrs s') = item_addr b k" by blast
  have "mp_load s = Inr s'" using r pos(2) d a s'(1) by (simp add: mp_load_def Let_def SIZEOF_PERCPU_def)
  moreover have "item_addr b i + SIZEOF_PERCPU = item_addr b (Suc i)" for i by (simp add: item_addr_def algebra_simps)
  ultimately show ?thesis using s' k(2)
    by (intro exI[of _ s']) (simp add: mp_get_cpu_count_def mp_item_def percpu_zero_def Let_def)
qed

text \<open>Two CPUs, the second one the bootstrap CPU.\<close>

definition mp_demo :: mpsys where
  "mp_demo = isys.extend isys_demo (mpsys.fields (Some \<lparr>mp_cpus = [\<lparr>mi_lapic_id = 4, goto_address = None, extra_argument = 0\<rparr>,
     \<lparr>mi_lapic_id = 2, goto_address = None, extra_argument = 0\<rparr>], bsp_lapic_id = 2\<rparr>) 0 \<lparr>sp_lock = unlocked, remaining = 0\<rparr>)"

theorem mp_load_describes_cpus_witness:
  "\<exists>s'. mp_load mp_demo = Inr s' \<and> is_bootstrap (cpus s' ! 1) \<and> \<not> is_bootstrap (cpus s' ! 0) \<and>
    percpu_get_segment (cpu_msrs s') = 0x40000000 + 16736"
proof -
  let ?r = "\<lparr>mp_cpus = [\<lparr>mi_lapic_id = 4, goto_address = None, extra_argument = 0\<rparr>, \<lparr>mi_lapic_id = 2, goto_address = None, extra_argument = 0\<rparr>],
    bsp_lapic_id = 2\<rparr>"
  have h: "mp_resp mp_demo = Some ?r" "malloc_raw mp_demo (SIZEOF_PERCPU * of_nat 2) 16 (raw_live mp_demo) = 0x40000000"
    by (simp_all add: mp_demo_def isys_demo_def ksys.defs isys.defs mpsys.defs exit_demo_def ksys_demo_def)
  have k: "\<forall>j < 2. mi_lapic_id (mp_cpus ?r ! j) = bsp_lapic_id ?r \<longleftrightarrow> j = 1" by (auto simp: less_2_cases_iff)
  from mp_load_describes_cpus[OF h(1) _ _ _ h(2) _ _ k] show ?thesis
    by (auto simp: less_2_cases_iff all_conj_distrib Let_def item_addr_def SIZEOF_PERCPU_def)
qed

end
