(* ===== verification/Ubsan.thy ===== *)
theory Ubsan
  imports Serial
begin

section \<open>Reports of undefined behaviour (klibc/src/ubsan.c, ulibc/src/ubsan.c)\<close>

text \<open>
  The functions the compiler's checks call. Both libraries hold the same handlers; they differ in how a line is printed and how
  a report ends. A report is a list of lines, each a format and its arguments. The handlers of the kernel are here: they print to the serial
  port and halt. Those of the user library, which print to the console capability and exit, are in \<open>User_Ubsan\<close>.

  The structures with the data of a check are made by the compiler. A C string in them is an address, read when its line is printed; the
  literals of the source lie at addresses the linker chooses, \<open>ub_lit\<close>. \<open>None\<close> is the search for the end of a string that never ends.
  A shift by 64 or more takes the count modulo 64, as the processor does.
\<close>

subsection \<open>Structures\<close>

record source_location =
  loc_filename :: uptr
  loc_line :: u32
  loc_column :: u32

record type_descriptor =
  ty_kind :: u16
  ty_info :: u16
  ty_name :: uptr

record type_mismatch_info =
  tmi_location :: source_location
  tmi_type :: type_descriptor
  tmi_alignment :: usize
  tmi_kind :: u8

record type_mismatch_info_v1 =
  tm1_location :: source_location
  tm1_type :: type_descriptor
  tm1_alignment :: u8
  tm1_kind :: u8

record pointer_overflow_info =
  poi_location :: source_location

record invalid_builtin_info =
  ibi_location :: source_location
  ibi_kind :: u8

record overflow_info =
  ovi_location :: source_location
  ovi_type :: type_descriptor

record shift_out_of_bounds_info =
  soi_location :: source_location
  soi_lhs_type :: type_descriptor
  soi_rhs_type :: type_descriptor

record out_of_bounds_info =
  obi_location :: source_location
  obi_array_type :: type_descriptor
  obi_index_type :: type_descriptor

record unreachable_info =
  uri_location :: source_location

record nonnull_arg_info =
  nai_location :: source_location
  nai_param_location :: source_location
  nai_param_index :: i32

record nonnull_return_info =
  nri_location :: source_location
  nri_ret_location :: source_location

record invalid_value_info =
  ivi_location :: source_location
  ivi_type :: type_descriptor

record vla_bound_info =
  vbi_location :: source_location
  vbi_type :: type_descriptor

record function_type_mismatch_info =
  fti_location :: source_location
  fti_type :: type_descriptor

definition ub_is_aligned :: "u64 \<Rightarrow> u64 \<Rightarrow> bool" where "ub_is_aligned value alignment \<longleftrightarrow> value AND (alignment - 1) = 0"
definition is_signed :: "type_descriptor \<Rightarrow> bool" where "is_signed t \<longleftrightarrow> ty_info t AND 1 \<noteq> 0"
definition is_int :: "type_descriptor \<Rightarrow> bool" where "is_int t \<longleftrightarrow> ty_kind t AND 0xF = 1"
definition int_width :: "type_descriptor \<Rightarrow> u64" where "int_width t = push_bit (unat (drop_bit 1 (ty_info t)) mod 64) 1"

definition type_check_kinds :: "string list" where
  "type_check_kinds = [''load of'', ''store to'', ''reference binding to'', ''member access within'', ''member call on'',
     ''constructor call on'', ''downcast of'', ''downcast of'', ''upcast of'', ''cast to virtual base of'']"

subsection \<open>Lines\<close>

datatype ub_arg = U_int u64 | U_lit string | U_cstr uptr | U_kind u8

type_synonym ub_line = "string \<times> ub_arg list"

record ub_env =
  ub_mem :: memory
  ub_lit :: "string \<Rightarrow> uptr"
  ub_always_abort :: bool

definition ub_literal :: "ub_env \<Rightarrow> string \<Rightarrow> str" where
  "ub_literal e t = (let n = of_nat (length t) in \<lparr>s_data = ub_lit e t, s_length = n, s_capacity = n, s_owned = False\<rparr>)"

definition ub_arg_value :: "ub_env \<Rightarrow> ub_arg \<Rightarrow> va option outcome" where
  "ub_arg_value e a =
     (case a of
        U_int n \<Rightarrow> Inr (Some (VA_int n))
      | U_lit t \<Rightarrow> Inr (Some (VA_str (ub_literal e t)))
      | U_cstr p \<Rightarrow> rbind (strview_from_cstr p (ub_mem e)) (\<lambda>s. Inr (map_option VA_str s))
      | U_kind k \<Rightarrow>
          if unat k < length type_check_kinds then Inr (Some (VA_str (ub_literal e (type_check_kinds ! unat k)))) else Inl OutOfBounds)"

fun ub_arg_values :: "ub_env \<Rightarrow> ub_arg list \<Rightarrow> va list option outcome" where
  "ub_arg_values e [] = Inr (Some [])"
| "ub_arg_values e (a # as) =
     rbind (ub_arg_value e a) (\<lambda>v. rbind (ub_arg_values e as) (\<lambda>vs.
     Inr (case (v, vs) of (Some v, Some vs) \<Rightarrow> Some (v # vs) | _ \<Rightarrow> None)))"

text \<open>Printing the lines one after the other, with a function that prints one.\<close>

fun ub_lines :: "ub_env \<Rightarrow> (string \<Rightarrow> va list \<Rightarrow> 's \<Rightarrow> 's outcome) \<Rightarrow> ub_line list \<Rightarrow> 's \<Rightarrow> 's option outcome" where
  "ub_lines e pr [] s = Inr (Some s)"
| "ub_lines e pr ((fmt, args) # ls) s =
     rbind (ub_arg_values e args) (\<lambda>vs.
     case vs of None \<Rightarrow> Inr None | Some vs \<Rightarrow> rbind (pr fmt vs s) (ub_lines e pr ls))"

definition report_begin :: "source_location \<Rightarrow> string \<Rightarrow> ub_line list" where
  "report_begin loc description =
     [(''======== UNDEFINED BEHAVIOR DETECTED ========'', []),
      (''Description: %s'', [U_lit description]),
      (''Location:'', []),
      (''  file: %s'', [U_cstr (loc_filename loc)]),
      (''  line: %u'', [U_int (ucast (loc_line loc))]),
      (''  column: %u'', [U_int (ucast (loc_column loc))]),
      (''---------------------------------------------'', [])]"

definition report_end :: "ub_line list" where
  "report_end = [(''============================================='', [])]"

definition ub_report :: "source_location \<Rightarrow> string \<Rightarrow> ub_line list \<Rightarrow> ub_line list" where
  "ub_report loc description body = report_begin loc description @ body @ report_end"

subsection \<open>The reports\<close>

definition report_type_mismatch_nullptr :: "type_mismatch_info \<Rightarrow> u64 \<Rightarrow> ub_line list" where
  "report_type_mismatch_nullptr info ptr =
     ub_report (tmi_location info) ''Null pointer dereference''
       [(''%s null pointer of type %s'', [U_kind (tmi_kind info), U_cstr (ty_name (tmi_type info))])]"

definition report_type_mismatch_alignment :: "type_mismatch_info \<Rightarrow> u64 \<Rightarrow> ub_line list" where
  "report_type_mismatch_alignment info ptr =
     ub_report (tmi_location info) ''Unaligned access''
       [(''%s unaligned pointer %p of type %s (alignment %u)'',
         [U_kind (tmi_kind info), U_int ptr, U_cstr (ty_name (tmi_type info)), U_int (tmi_alignment info)])]"

definition report_type_mismatch_objsize :: "type_mismatch_info \<Rightarrow> u64 \<Rightarrow> ub_line list" where
  "report_type_mismatch_objsize info ptr =
     ub_report (tmi_location info) ''Insufficient object size''
       [(''%s address %p with insufficient space for type %s'', [U_kind (tmi_kind info), U_int ptr, U_cstr (ty_name (tmi_type info))])]"

definition report_type_mismatch :: "type_mismatch_info \<Rightarrow> u64 \<Rightarrow> ub_line list" where
  "report_type_mismatch info ptr =
     (if ptr = 0 then report_type_mismatch_nullptr info ptr
      else if tmi_alignment info \<noteq> 0 \<and> \<not> ub_is_aligned ptr (tmi_alignment info) then report_type_mismatch_alignment info ptr
      else report_type_mismatch_objsize info ptr)"

definition type_mismatch_v0 :: "type_mismatch_info_v1 \<Rightarrow> type_mismatch_info" where
  "type_mismatch_v0 info = \<lparr>tmi_location = tm1_location info, tmi_type = tm1_type info,
     tmi_alignment = push_bit (unat (tm1_alignment info) mod 64) 1, tmi_kind = tm1_kind info\<rparr>"

definition report_pointer_overflow :: "pointer_overflow_info \<Rightarrow> u64 \<Rightarrow> u64 \<Rightarrow> ub_line list" where
  "report_pointer_overflow info from to =
     ub_report (poi_location info) ''Pointer overflow'' [(''Pointer operation overflow %p to %p'', [U_int from, U_int to])]"

definition report_invalid_builtin :: "invalid_builtin_info \<Rightarrow> ub_line list" where
  "report_invalid_builtin info =
     ub_report (ibi_location info) ''Invalid builtin''
       [if ibi_kind info = 0 then (''Passed 0 to clz()'', [])
        else if ibi_kind info = 1 then (''Passed 0 to ctz()'', [])
        else (''Passed 0 to <unknown> (kind: %u)'', [U_int (ucast (ibi_kind info))])]"

definition report_int_overflow :: "string \<Rightarrow> overflow_info \<Rightarrow> u64 \<Rightarrow> u64 \<Rightarrow> ub_line list" where
  "report_int_overflow opr info lhs rhs =
     (if is_signed (ovi_type info)
      then ub_report (ovi_location info) ''Signed Integer overflow''
        [(''%d %s %d can't be represented in type %s'', [U_int lhs, U_lit opr, U_int rhs, U_cstr (ty_name (ovi_type info))])]
      else ub_report (ovi_location info) ''Unsigned Integer overflow''
        [(''%u %s %u can't be represented in type %s'', [U_int lhs, U_lit opr, U_int rhs, U_cstr (ty_name (ovi_type info))])])"

definition report_negate_overflow :: "overflow_info \<Rightarrow> u64 \<Rightarrow> ub_line list" where
  "report_negate_overflow info operand =
     ub_report (ovi_location info) ''Negation overflow''
       [if is_signed (ovi_type info)
        then (''-%d can't be represented in type %s'', [U_int operand, U_cstr (ty_name (ovi_type info))])
        else (''-%u can't be represented in type %s'', [U_int operand, U_cstr (ty_name (ovi_type info))])]"

definition report_divrem_overflow :: "overflow_info \<Rightarrow> u64 \<Rightarrow> u64 \<Rightarrow> ub_line list" where
  "report_divrem_overflow info lhs rhs =
     ub_report (ovi_location info) ''Division overflow''
       [if is_signed (ovi_type info) \<and> rhs = - 1
        then (''%d / -1 can't be represented in type %s'', [U_int lhs, U_cstr (ty_name (ovi_type info))])
        else if rhs = 0 then (''division by zero'', [])
        else (''%u / %u can't be represented in type %s'', [U_int lhs, U_int rhs, U_cstr (ty_name (ovi_type info))])]"

definition report_shift_out_of_bounds :: "shift_out_of_bounds_info \<Rightarrow> u64 \<Rightarrow> u64 \<Rightarrow> ub_line list" where
  "report_shift_out_of_bounds info lhs rhs =
     ub_report (soi_location info) ''Shift out of bounds''
       [if is_signed (soi_rhs_type info) \<and> rhs <s 0 then (''shift exponent %d is negative'', [U_int rhs])
        else if rhs \<ge> int_width (soi_lhs_type info)
        then (''shift exponent %d is too large for type %s'', [U_int rhs, U_cstr (ty_name (soi_lhs_type info))])
        else if is_signed (soi_lhs_type info) \<and> lhs <s 0
        then (''left shift of negative type %s'', [U_cstr (ty_name (soi_lhs_type info))])
        else (''left shift of %u by %u places cannot be represented in type %s'',
              [U_int lhs, U_int rhs, U_cstr (ty_name (soi_lhs_type info))])]"

definition report_out_of_bounds :: "out_of_bounds_info \<Rightarrow> u64 \<Rightarrow> ub_line list" where
  "report_out_of_bounds info index =
     ub_report (obi_location info) ''Out of bounds''
       [if is_signed (obi_index_type info)
        then (''index %d out of bounds for type %s'', [U_int index, U_cstr (ty_name (obi_array_type info))])
        else (''index %u out of bounds for type %s'', [U_int index, U_cstr (ty_name (obi_array_type info))])]"

definition report_builtin_unreachable :: "unreachable_info \<Rightarrow> ub_line list" where
  "report_builtin_unreachable info =
     ub_report (uri_location info) ''Unreachable'' [(''Execution reached an unreachable code path'', [])]"

definition report_nonnull_arg :: "nonnull_arg_info \<Rightarrow> ub_line list" where
  "report_nonnull_arg info =
     ub_report (nai_location info) ''Non-null argument''
       [(''parameter %u at %s:%u:%u is declared as non-null but null was passed'',
         [U_int (scast (nai_param_index info)), U_cstr (loc_filename (nai_param_location info)),
          U_int (ucast (loc_line (nai_param_location info))), U_int (ucast (loc_column (nai_param_location info)))])]"

definition report_nonnull_return :: "nonnull_return_info \<Rightarrow> ub_line list" where
  "report_nonnull_return info =
     ub_report (nri_location info) ''Non-null return''
       [(''function at %s:%u:%u is declared as non-null returning but returned null'',
         [U_cstr (loc_filename (nri_ret_location info)), U_int (ucast (loc_line (nri_ret_location info))),
          U_int (ucast (loc_column (nri_ret_location info)))])]"

definition report_load_invalid_value :: "invalid_value_info \<Rightarrow> u64 \<Rightarrow> ub_line list" where
  "report_load_invalid_value info v =
     ub_report (ivi_location info) ''Invalid value''
       [if is_int (ivi_type info)
        then (if is_signed (ivi_type info)
          then (''load of value %d, which is not a valid value for type %s'', [U_int v, U_cstr (ty_name (ivi_type info))])
          else (''load of value %u, which is not a valid value for type %s'', [U_int v, U_cstr (ty_name (ivi_type info))]))
        else (''load of value, which is not a valid value for type %s'', [U_cstr (ty_name (ivi_type info))])]"

definition report_vla_bound_not_positive :: "vla_bound_info \<Rightarrow> u64 \<Rightarrow> ub_line list" where
  "report_vla_bound_not_positive info bound =
     ub_report (vbi_location info) ''Variable length array bound not positive''
       [(''variable length array bound %d is not positive'', [U_int bound])]"

definition report_function_type_mismatch :: "function_type_mismatch_info \<Rightarrow> u64 \<Rightarrow> ub_line list" where
  "report_function_type_mismatch info func_ptr =
     ub_report (fti_location info) ''Function type mismatch''
       [(''call through function pointer %p to incorrect function type %s'', [U_int func_ptr, U_cstr (ty_name (fti_type info))])]"

subsection \<open>Printing and stopping in the kernel\<close>

definition ub_outb :: "u16 \<Rightarrow> u8 \<Rightarrow> io_trace \<Rightarrow> io_trace" where
  "ub_outb port val tr = tr @ [Out8 port val]"

definition ub_serial_putc :: "u8 \<Rightarrow> io_trace \<Rightarrow> io_trace" where
  "ub_serial_putc c tr = ub_outb 0x3F8 c tr"

definition ub_serial_puts :: "memory \<Rightarrow> chunk \<Rightarrow> io_trace \<Rightarrow> io_trace" where
  "ub_serial_puts m s tr = fold ub_serial_putc (chunk_bytes m s) tr"

definition ub_log_formatter :: "memory \<Rightarrow> io_trace consumer" where
  "ub_log_formatter m c tr = Inr (ub_serial_puts m c tr)"

definition eprintv :: "ub_env \<Rightarrow> string \<Rightarrow> va list \<Rightarrow> io_trace \<Rightarrow> io_trace outcome" where
  "eprintv e fmt args tr =
     rbind (formatter_apply_v (ub_log_formatter (ub_mem e)) (map ch fmt) args tr) (\<lambda>tr.
     Inr (ub_serial_puts (ub_mem e) (Local [13, 10]) tr))"

definition eprint :: "ub_env \<Rightarrow> string \<Rightarrow> va list \<Rightarrow> io_trace \<Rightarrow> io_trace outcome" where
  "eprint e fmt args tr = eprintv e fmt args tr"

definition report_abort :: "io_trace \<Rightarrow> io_trace ending" where
  "report_abort tr = Halts tr"

type_synonym ub_result = "io_trace ending option outcome"

definition ub_klibc :: "ub_env \<Rightarrow> ub_line list \<Rightarrow> io_trace \<Rightarrow> ub_result" where
  "ub_klibc e ls tr =
     rbind (ub_lines e (eprint e) ls tr) (\<lambda>r.
     Inr (map_option (\<lambda>tr. if ub_always_abort e then report_abort tr else Returns tr) r))"

text \<open>The variants of the handlers whose names end in \<^verbatim>\<open>_abort\<close> stop also when a report returned.\<close>

definition then_abort :: "ub_result \<Rightarrow> ub_result" where
  "then_abort x = rbind x (\<lambda>r. Inr (map_option (\<lambda>n. case n of Returns tr \<Rightarrow> report_abort tr | Halts tr \<Rightarrow> Halts tr) r))"

subsection \<open>The handlers of the kernel\<close>

definition ubsan_handle_type_mismatch :: "ub_env \<Rightarrow> type_mismatch_info \<Rightarrow> u64 \<Rightarrow> io_trace \<Rightarrow> ub_result" where
  "ubsan_handle_type_mismatch e info ptr tr = ub_klibc e (report_type_mismatch info ptr) tr"

definition ubsan_handle_type_mismatch_abort :: "ub_env \<Rightarrow> type_mismatch_info \<Rightarrow> u64 \<Rightarrow> io_trace \<Rightarrow> ub_result" where
  "ubsan_handle_type_mismatch_abort e info ptr tr = then_abort (ubsan_handle_type_mismatch e info ptr tr)"

definition ubsan_handle_type_mismatch_v1 :: "ub_env \<Rightarrow> type_mismatch_info_v1 \<Rightarrow> u64 \<Rightarrow> io_trace \<Rightarrow> ub_result" where
  "ubsan_handle_type_mismatch_v1 e info ptr tr = ub_klibc e (report_type_mismatch (type_mismatch_v0 info) ptr) tr"

definition ubsan_handle_type_mismatch_v1_abort :: "ub_env \<Rightarrow> type_mismatch_info_v1 \<Rightarrow> u64 \<Rightarrow> io_trace \<Rightarrow> ub_result" where
  "ubsan_handle_type_mismatch_v1_abort e info ptr tr = then_abort (ubsan_handle_type_mismatch_v1 e info ptr tr)"

definition ubsan_handle_pointer_overflow :: "ub_env \<Rightarrow> pointer_overflow_info \<Rightarrow> u64 \<Rightarrow> u64 \<Rightarrow> io_trace \<Rightarrow> ub_result" where
  "ubsan_handle_pointer_overflow e info from to tr = ub_klibc e (report_pointer_overflow info from to) tr"

definition ubsan_handle_pointer_overflow_abort :: "ub_env \<Rightarrow> pointer_overflow_info \<Rightarrow> u64 \<Rightarrow> u64 \<Rightarrow> io_trace \<Rightarrow> ub_result" where
  "ubsan_handle_pointer_overflow_abort e info from to tr = then_abort (ubsan_handle_pointer_overflow e info from to tr)"

definition ubsan_handle_invalid_builtin :: "ub_env \<Rightarrow> invalid_builtin_info \<Rightarrow> io_trace \<Rightarrow> ub_result" where
  "ubsan_handle_invalid_builtin e info tr = ub_klibc e (report_invalid_builtin info) tr"

definition ubsan_handle_invalid_builtin_abort :: "ub_env \<Rightarrow> invalid_builtin_info \<Rightarrow> io_trace \<Rightarrow> ub_result" where
  "ubsan_handle_invalid_builtin_abort e info tr = then_abort (ubsan_handle_invalid_builtin e info tr)"

definition ubsan_handle_add_overflow :: "ub_env \<Rightarrow> overflow_info \<Rightarrow> u64 \<Rightarrow> u64 \<Rightarrow> io_trace \<Rightarrow> ub_result" where
  "ubsan_handle_add_overflow e info lhs rhs tr = ub_klibc e (report_int_overflow ''+'' info lhs rhs) tr"

definition ubsan_handle_add_overflow_abort :: "ub_env \<Rightarrow> overflow_info \<Rightarrow> u64 \<Rightarrow> u64 \<Rightarrow> io_trace \<Rightarrow> ub_result" where
  "ubsan_handle_add_overflow_abort e info lhs rhs tr = then_abort (ubsan_handle_add_overflow e info lhs rhs tr)"

definition ubsan_handle_sub_overflow :: "ub_env \<Rightarrow> overflow_info \<Rightarrow> u64 \<Rightarrow> u64 \<Rightarrow> io_trace \<Rightarrow> ub_result" where
  "ubsan_handle_sub_overflow e info lhs rhs tr = ub_klibc e (report_int_overflow ''-'' info lhs rhs) tr"

definition ubsan_handle_sub_overflow_abort :: "ub_env \<Rightarrow> overflow_info \<Rightarrow> u64 \<Rightarrow> u64 \<Rightarrow> io_trace \<Rightarrow> ub_result" where
  "ubsan_handle_sub_overflow_abort e info lhs rhs tr = then_abort (ubsan_handle_sub_overflow e info lhs rhs tr)"

definition ubsan_handle_mul_overflow :: "ub_env \<Rightarrow> overflow_info \<Rightarrow> u64 \<Rightarrow> u64 \<Rightarrow> io_trace \<Rightarrow> ub_result" where
  "ubsan_handle_mul_overflow e info lhs rhs tr = ub_klibc e (report_int_overflow ''*'' info lhs rhs) tr"

definition ubsan_handle_mul_overflow_abort :: "ub_env \<Rightarrow> overflow_info \<Rightarrow> u64 \<Rightarrow> u64 \<Rightarrow> io_trace \<Rightarrow> ub_result" where
  "ubsan_handle_mul_overflow_abort e info lhs rhs tr = then_abort (ubsan_handle_mul_overflow e info lhs rhs tr)"

definition ubsan_handle_negate_overflow :: "ub_env \<Rightarrow> overflow_info \<Rightarrow> u64 \<Rightarrow> io_trace \<Rightarrow> ub_result" where
  "ubsan_handle_negate_overflow e info operand tr = ub_klibc e (report_negate_overflow info operand) tr"

definition ubsan_handle_negate_overflow_abort :: "ub_env \<Rightarrow> overflow_info \<Rightarrow> u64 \<Rightarrow> io_trace \<Rightarrow> ub_result" where
  "ubsan_handle_negate_overflow_abort e info operand tr = then_abort (ubsan_handle_negate_overflow e info operand tr)"

definition ubsan_handle_divrem_overflow :: "ub_env \<Rightarrow> overflow_info \<Rightarrow> u64 \<Rightarrow> u64 \<Rightarrow> io_trace \<Rightarrow> ub_result" where
  "ubsan_handle_divrem_overflow e info lhs rhs tr = ub_klibc e (report_divrem_overflow info lhs rhs) tr"

definition ubsan_handle_divrem_overflow_abort :: "ub_env \<Rightarrow> overflow_info \<Rightarrow> u64 \<Rightarrow> u64 \<Rightarrow> io_trace \<Rightarrow> ub_result" where
  "ubsan_handle_divrem_overflow_abort e info lhs rhs tr = then_abort (ubsan_handle_divrem_overflow e info lhs rhs tr)"

definition ubsan_handle_shift_out_of_bounds :: "ub_env \<Rightarrow> shift_out_of_bounds_info \<Rightarrow> u64 \<Rightarrow> u64 \<Rightarrow> io_trace \<Rightarrow> ub_result" where
  "ubsan_handle_shift_out_of_bounds e info lhs rhs tr = ub_klibc e (report_shift_out_of_bounds info lhs rhs) tr"

definition ubsan_handle_shift_out_of_bounds_abort :: "ub_env \<Rightarrow> shift_out_of_bounds_info \<Rightarrow> u64 \<Rightarrow> u64 \<Rightarrow> io_trace \<Rightarrow> ub_result" where
  "ubsan_handle_shift_out_of_bounds_abort e info lhs rhs tr = then_abort (ubsan_handle_shift_out_of_bounds e info lhs rhs tr)"

definition ubsan_handle_out_of_bounds :: "ub_env \<Rightarrow> out_of_bounds_info \<Rightarrow> u64 \<Rightarrow> io_trace \<Rightarrow> ub_result" where
  "ubsan_handle_out_of_bounds e info index tr = ub_klibc e (report_out_of_bounds info index) tr"

definition ubsan_handle_out_of_bounds_abort :: "ub_env \<Rightarrow> out_of_bounds_info \<Rightarrow> u64 \<Rightarrow> io_trace \<Rightarrow> ub_result" where
  "ubsan_handle_out_of_bounds_abort e info index tr = then_abort (ubsan_handle_out_of_bounds e info index tr)"

definition ubsan_handle_builtin_unreachable :: "ub_env \<Rightarrow> unreachable_info \<Rightarrow> io_trace \<Rightarrow> ub_result" where
  "ubsan_handle_builtin_unreachable e info tr = then_abort (ub_klibc e (report_builtin_unreachable info) tr)"

definition ubsan_handle_nonnull_arg :: "ub_env \<Rightarrow> nonnull_arg_info \<Rightarrow> io_trace \<Rightarrow> ub_result" where
  "ubsan_handle_nonnull_arg e info tr = ub_klibc e (report_nonnull_arg info) tr"

definition ubsan_handle_nonnull_arg_abort :: "ub_env \<Rightarrow> nonnull_arg_info \<Rightarrow> io_trace \<Rightarrow> ub_result" where
  "ubsan_handle_nonnull_arg_abort e info tr = then_abort (ubsan_handle_nonnull_arg e info tr)"

definition ubsan_handle_nonnull_return :: "ub_env \<Rightarrow> nonnull_return_info \<Rightarrow> io_trace \<Rightarrow> ub_result" where
  "ubsan_handle_nonnull_return e info tr = ub_klibc e (report_nonnull_return info) tr"

definition ubsan_handle_nonnull_return_abort :: "ub_env \<Rightarrow> nonnull_return_info \<Rightarrow> io_trace \<Rightarrow> ub_result" where
  "ubsan_handle_nonnull_return_abort e info tr = then_abort (ubsan_handle_nonnull_return e info tr)"

definition ubsan_handle_nonnull_return_v1 :: "ub_env \<Rightarrow> nonnull_return_info \<Rightarrow> io_trace \<Rightarrow> ub_result" where
  "ubsan_handle_nonnull_return_v1 e info tr = ubsan_handle_nonnull_return e info tr"

definition ubsan_handle_nonnull_return_v1_abort :: "ub_env \<Rightarrow> nonnull_return_info \<Rightarrow> io_trace \<Rightarrow> ub_result" where
  "ubsan_handle_nonnull_return_v1_abort e info tr = ubsan_handle_nonnull_return_abort e info tr"

definition ubsan_handle_load_invalid_value :: "ub_env \<Rightarrow> invalid_value_info \<Rightarrow> u64 \<Rightarrow> io_trace \<Rightarrow> ub_result" where
  "ubsan_handle_load_invalid_value e info v tr = ub_klibc e (report_load_invalid_value info v) tr"

definition ubsan_handle_load_invalid_value_abort :: "ub_env \<Rightarrow> invalid_value_info \<Rightarrow> u64 \<Rightarrow> io_trace \<Rightarrow> ub_result" where
  "ubsan_handle_load_invalid_value_abort e info v tr = then_abort (ubsan_handle_load_invalid_value e info v tr)"

definition ubsan_handle_vla_bound_not_positive :: "ub_env \<Rightarrow> vla_bound_info \<Rightarrow> u64 \<Rightarrow> io_trace \<Rightarrow> ub_result" where
  "ubsan_handle_vla_bound_not_positive e info bound tr = ub_klibc e (report_vla_bound_not_positive info bound) tr"

definition ubsan_handle_vla_bound_not_positive_abort :: "ub_env \<Rightarrow> vla_bound_info \<Rightarrow> u64 \<Rightarrow> io_trace \<Rightarrow> ub_result" where
  "ubsan_handle_vla_bound_not_positive_abort e info bound tr = then_abort (ubsan_handle_vla_bound_not_positive e info bound tr)"

definition ubsan_handle_function_type_mismatch :: "ub_env \<Rightarrow> function_type_mismatch_info \<Rightarrow> u64 \<Rightarrow> io_trace \<Rightarrow> ub_result" where
  "ubsan_handle_function_type_mismatch e info func_ptr tr = ub_klibc e (report_function_type_mismatch info func_ptr) tr"

definition ubsan_handle_function_type_mismatch_abort :: "ub_env \<Rightarrow> function_type_mismatch_info \<Rightarrow> u64 \<Rightarrow> io_trace \<Rightarrow> ub_result" where
  "ubsan_handle_function_type_mismatch_abort e info func_ptr tr = then_abort (ubsan_handle_function_type_mismatch e info func_ptr tr)"

end
