(* ===== verification/Ubsan_Props.thy ===== *)
theory Ubsan_Props
  imports Ubsan
begin

section \<open>Reports of undefined behaviour: properties\<close>

subsection \<open>The entry points\<close>

text \<open>A call of a check: the handler and its arguments.\<close>

datatype ub_call =
    UB_type_mismatch type_mismatch_info u64
  | UB_type_mismatch_v1 type_mismatch_info_v1 u64
  | UB_pointer_overflow pointer_overflow_info u64 u64
  | UB_invalid_builtin invalid_builtin_info
  | UB_add_overflow overflow_info u64 u64
  | UB_sub_overflow overflow_info u64 u64
  | UB_mul_overflow overflow_info u64 u64
  | UB_negate_overflow overflow_info u64
  | UB_divrem_overflow overflow_info u64 u64
  | UB_shift_out_of_bounds shift_out_of_bounds_info u64 u64
  | UB_out_of_bounds out_of_bounds_info u64
  | UB_builtin_unreachable unreachable_info
  | UB_nonnull_arg nonnull_arg_info
  | UB_nonnull_return nonnull_return_info
  | UB_nonnull_return_v1 nonnull_return_info
  | UB_load_invalid_value invalid_value_info u64
  | UB_vla_bound_not_positive vla_bound_info u64
  | UB_function_type_mismatch function_type_mismatch_info u64

text \<open>What it reports, and the two variants of its handler; the one for unreachable code has no second variant.\<close>

definition ub_call_report :: "ub_call \<Rightarrow> ub_line list" where
  "ub_call_report c =
     (case c of
        UB_type_mismatch info ptr \<Rightarrow> report_type_mismatch info ptr
      | UB_type_mismatch_v1 info ptr \<Rightarrow> report_type_mismatch (type_mismatch_v0 info) ptr
      | UB_pointer_overflow info from to \<Rightarrow> report_pointer_overflow info from to
      | UB_invalid_builtin info \<Rightarrow> report_invalid_builtin info
      | UB_add_overflow info lhs rhs \<Rightarrow> report_int_overflow ''+'' info lhs rhs
      | UB_sub_overflow info lhs rhs \<Rightarrow> report_int_overflow ''-'' info lhs rhs
      | UB_mul_overflow info lhs rhs \<Rightarrow> report_int_overflow ''*'' info lhs rhs
      | UB_negate_overflow info operand \<Rightarrow> report_negate_overflow info operand
      | UB_divrem_overflow info lhs rhs \<Rightarrow> report_divrem_overflow info lhs rhs
      | UB_shift_out_of_bounds info lhs rhs \<Rightarrow> report_shift_out_of_bounds info lhs rhs
      | UB_out_of_bounds info index \<Rightarrow> report_out_of_bounds info index
      | UB_builtin_unreachable info \<Rightarrow> report_builtin_unreachable info
      | UB_nonnull_arg info \<Rightarrow> report_nonnull_arg info
      | UB_nonnull_return info \<Rightarrow> report_nonnull_return info
      | UB_nonnull_return_v1 info \<Rightarrow> report_nonnull_return info
      | UB_load_invalid_value info v \<Rightarrow> report_load_invalid_value info v
      | UB_vla_bound_not_positive info bound \<Rightarrow> report_vla_bound_not_positive info bound
      | UB_function_type_mismatch info func_ptr \<Rightarrow> report_function_type_mismatch info func_ptr)"

definition ub_entry :: "ub_env \<Rightarrow> ub_call \<Rightarrow> io_trace \<Rightarrow> ub_result" where
  "ub_entry e c tr =
     (case c of
        UB_type_mismatch info ptr \<Rightarrow> ubsan_handle_type_mismatch e info ptr tr
      | UB_type_mismatch_v1 info ptr \<Rightarrow> ubsan_handle_type_mismatch_v1 e info ptr tr
      | UB_pointer_overflow info from to \<Rightarrow> ubsan_handle_pointer_overflow e info from to tr
      | UB_invalid_builtin info \<Rightarrow> ubsan_handle_invalid_builtin e info tr
      | UB_add_overflow info lhs rhs \<Rightarrow> ubsan_handle_add_overflow e info lhs rhs tr
      | UB_sub_overflow info lhs rhs \<Rightarrow> ubsan_handle_sub_overflow e info lhs rhs tr
      | UB_mul_overflow info lhs rhs \<Rightarrow> ubsan_handle_mul_overflow e info lhs rhs tr
      | UB_negate_overflow info operand \<Rightarrow> ubsan_handle_negate_overflow e info operand tr
      | UB_divrem_overflow info lhs rhs \<Rightarrow> ubsan_handle_divrem_overflow e info lhs rhs tr
      | UB_shift_out_of_bounds info lhs rhs \<Rightarrow> ubsan_handle_shift_out_of_bounds e info lhs rhs tr
      | UB_out_of_bounds info index \<Rightarrow> ubsan_handle_out_of_bounds e info index tr
      | UB_builtin_unreachable info \<Rightarrow> ubsan_handle_builtin_unreachable e info tr
      | UB_nonnull_arg info \<Rightarrow> ubsan_handle_nonnull_arg e info tr
      | UB_nonnull_return info \<Rightarrow> ubsan_handle_nonnull_return e info tr
      | UB_nonnull_return_v1 info \<Rightarrow> ubsan_handle_nonnull_return_v1 e info tr
      | UB_load_invalid_value info v \<Rightarrow> ubsan_handle_load_invalid_value e info v tr
      | UB_vla_bound_not_positive info bound \<Rightarrow> ubsan_handle_vla_bound_not_positive e info bound tr
      | UB_function_type_mismatch info func_ptr \<Rightarrow> ubsan_handle_function_type_mismatch e info func_ptr tr)"

definition ub_entry_abort :: "ub_env \<Rightarrow> ub_call \<Rightarrow> io_trace \<Rightarrow> ub_result" where
  "ub_entry_abort e c tr =
     (case c of
        UB_type_mismatch info ptr \<Rightarrow> ubsan_handle_type_mismatch_abort e info ptr tr
      | UB_type_mismatch_v1 info ptr \<Rightarrow> ubsan_handle_type_mismatch_v1_abort e info ptr tr
      | UB_pointer_overflow info from to \<Rightarrow> ubsan_handle_pointer_overflow_abort e info from to tr
      | UB_invalid_builtin info \<Rightarrow> ubsan_handle_invalid_builtin_abort e info tr
      | UB_add_overflow info lhs rhs \<Rightarrow> ubsan_handle_add_overflow_abort e info lhs rhs tr
      | UB_sub_overflow info lhs rhs \<Rightarrow> ubsan_handle_sub_overflow_abort e info lhs rhs tr
      | UB_mul_overflow info lhs rhs \<Rightarrow> ubsan_handle_mul_overflow_abort e info lhs rhs tr
      | UB_negate_overflow info operand \<Rightarrow> ubsan_handle_negate_overflow_abort e info operand tr
      | UB_divrem_overflow info lhs rhs \<Rightarrow> ubsan_handle_divrem_overflow_abort e info lhs rhs tr
      | UB_shift_out_of_bounds info lhs rhs \<Rightarrow> ubsan_handle_shift_out_of_bounds_abort e info lhs rhs tr
      | UB_out_of_bounds info index \<Rightarrow> ubsan_handle_out_of_bounds_abort e info index tr
      | UB_builtin_unreachable info \<Rightarrow> ubsan_handle_builtin_unreachable e info tr
      | UB_nonnull_arg info \<Rightarrow> ubsan_handle_nonnull_arg_abort e info tr
      | UB_nonnull_return info \<Rightarrow> ubsan_handle_nonnull_return_abort e info tr
      | UB_nonnull_return_v1 info \<Rightarrow> ubsan_handle_nonnull_return_v1_abort e info tr
      | UB_load_invalid_value info v \<Rightarrow> ubsan_handle_load_invalid_value_abort e info v tr
      | UB_vla_bound_not_positive info bound \<Rightarrow> ubsan_handle_vla_bound_not_positive_abort e info bound tr
      | UB_function_type_mismatch info func_ptr \<Rightarrow> ubsan_handle_function_type_mismatch_abort e info func_ptr tr)"

lemmas ub_handlers = ubsan_handle_type_mismatch_def ubsan_handle_type_mismatch_abort_def
  ubsan_handle_type_mismatch_v1_def ubsan_handle_type_mismatch_v1_abort_def
  ubsan_handle_pointer_overflow_def ubsan_handle_pointer_overflow_abort_def
  ubsan_handle_invalid_builtin_def ubsan_handle_invalid_builtin_abort_def
  ubsan_handle_add_overflow_def ubsan_handle_add_overflow_abort_def
  ubsan_handle_sub_overflow_def ubsan_handle_sub_overflow_abort_def
  ubsan_handle_mul_overflow_def ubsan_handle_mul_overflow_abort_def
  ubsan_handle_negate_overflow_def ubsan_handle_negate_overflow_abort_def
  ubsan_handle_divrem_overflow_def ubsan_handle_divrem_overflow_abort_def
  ubsan_handle_shift_out_of_bounds_def ubsan_handle_shift_out_of_bounds_abort_def
  ubsan_handle_out_of_bounds_def ubsan_handle_out_of_bounds_abort_def
  ubsan_handle_builtin_unreachable_def
  ubsan_handle_nonnull_arg_def ubsan_handle_nonnull_arg_abort_def
  ubsan_handle_nonnull_return_def ubsan_handle_nonnull_return_abort_def
  ubsan_handle_nonnull_return_v1_def ubsan_handle_nonnull_return_v1_abort_def
  ubsan_handle_load_invalid_value_def ubsan_handle_load_invalid_value_abort_def
  ubsan_handle_vla_bound_not_positive_def ubsan_handle_vla_bound_not_positive_abort_def
  ubsan_handle_function_type_mismatch_def ubsan_handle_function_type_mismatch_abort_def

lemmas ub_bodies = report_type_mismatch_def report_type_mismatch_nullptr_def report_type_mismatch_alignment_def report_type_mismatch_objsize_def
  report_pointer_overflow_def report_invalid_builtin_def report_int_overflow_def report_negate_overflow_def report_divrem_overflow_def
  report_shift_out_of_bounds_def report_out_of_bounds_def report_builtin_unreachable_def report_nonnull_arg_def report_nonnull_return_def
  report_load_invalid_value_def report_vla_bound_not_positive_def report_function_type_mismatch_def

lemmas ub_reports = ub_report_def report_begin_def report_end_def ub_bodies

subsection \<open>Arguments\<close>

text \<open>The strings of the compiler's structures end, and the kind of an access is one of the ten.\<close>

definition ub_arg_ok :: "ub_env \<Rightarrow> ub_arg \<Rightarrow> bool" where
  "ub_arg_ok e a \<longleftrightarrow>
     (case a of
        U_cstr p \<Rightarrow> p \<noteq> 0 \<and> strlen_loop (ub_mem e) p 0 \<noteq> None
      | U_kind k \<Rightarrow> unat k < 10
      | _ \<Rightarrow> True)"

definition ub_lines_ok :: "ub_env \<Rightarrow> ub_line list \<Rightarrow> bool" where
  "ub_lines_ok e ls \<longleftrightarrow> list_all (\<lambda>(fmt, args). list_all (ub_arg_ok e) args) ls"

definition ub_val :: "ub_env \<Rightarrow> ub_arg \<Rightarrow> va" where
  "ub_val e a =
     (case a of
        U_int n \<Rightarrow> VA_int n
      | U_lit t \<Rightarrow> VA_str (ub_literal e t)
      | U_cstr p \<Rightarrow> (let n = the (strlen_loop (ub_mem e) p 0) in VA_str \<lparr>s_data = p, s_length = n, s_capacity = n + 1, s_owned = False\<rparr>)
      | U_kind k \<Rightarrow> VA_str (ub_literal e (type_check_kinds ! unat k)))"

lemma ub_arg_value_ok: "ub_arg_ok e a \<Longrightarrow> ub_arg_value e a = Inr (Some (ub_val e a))"
  by (auto simp: ub_arg_ok_def ub_arg_value_def ub_val_def strview_from_cstr_def strlen_def type_check_kinds_def split: ub_arg.splits)

lemma ub_arg_values_ok: "list_all (ub_arg_ok e) as \<Longrightarrow> ub_arg_values e as = Inr (Some (map (ub_val e) as))"
  by (induction as) (simp_all add: ub_arg_value_ok)

subsection \<open>Lines fit\<close>

text \<open>Whether a format fits depends on the types of the arguments alone.\<close>

fun ub_fits :: "string \<Rightarrow> ub_arg list \<Rightarrow> bool" where
  "ub_fits [] as = True"
| "ub_fits (c # fmt) as =
     (if c = CHR ''%''
      then (case fmt of
          [] \<Rightarrow> True
        | c' # fmt' \<Rightarrow>
            if c' \<in> set ''dubpxXc'' then (case as of U_int _ # rest \<Rightarrow> ub_fits fmt' rest | _ \<Rightarrow> False)
            else if c' = CHR ''s'' then (case as of U_int _ # _ \<Rightarrow> False | _ # rest \<Rightarrow> ub_fits fmt' rest | [] \<Rightarrow> False)
            else ub_fits fmt' as)
      else ub_fits fmt as)"

lemma ub_fits_fmt: "ub_fits fmt as \<Longrightarrow> fmt_fits fmt (map (ub_val e) as)"
  by (induction fmt as rule: ub_fits.induct) (auto simp: ub_val_def Let_def split: if_splits list.splits ub_arg.splits)

text \<open>The text of a line, and of a report.\<close>

definition ub_line_text :: "ub_env \<Rightarrow> ub_line \<Rightarrow> u8 list" where
  "ub_line_text e l =
     (case fmt_chunks (map ch (fst l)) (map (ub_val e) (snd l)) of Inl _ \<Rightarrow> [] | Inr cs \<Rightarrow> text_of (ub_mem e) cs @ [13, 10])"

definition ub_text :: "ub_env \<Rightarrow> ub_line list \<Rightarrow> u8 list" where
  "ub_text e ls = concat (map (ub_line_text e) ls)"

definition on_serial :: "u8 list \<Rightarrow> io_trace \<Rightarrow> io_trace" where
  "on_serial bs tr = tr @ map (Out8 0x3F8) bs"

lemma on_serial_simps [simp]: "on_serial [] tr = tr" "on_serial cs (on_serial bs tr) = on_serial (bs @ cs) tr"
  by (simp_all add: on_serial_def)

lemma ub_serial_puts_eq: "ub_serial_puts m s tr = on_serial (chunk_bytes m s) tr"
proof -
  have "fold ub_serial_putc bs tr = on_serial bs tr" for bs
    by (induction bs arbitrary: tr) (simp_all add: ub_serial_putc_def ub_outb_def on_serial_def)
  then show ?thesis by (simp add: ub_serial_puts_def)
qed

lemma feed_ub: "feed (ub_log_formatter m) cs tr = Inr (on_serial (text_of m cs) tr)"
  by (induction cs arbitrary: tr) (simp_all add: ub_log_formatter_def ub_serial_puts_eq)

lemma eprint_ok:
  assumes "ub_fits fmt as"
  shows "eprint e fmt (map (ub_val e) as) tr = Inr (on_serial (ub_line_text e (fmt, as)) tr)"
proof -
  obtain cs where cs: "fmt_chunks (map ch fmt) (map (ub_val e) as) = Inr cs" using fmt_fits_chunks[OF ub_fits_fmt[OF assms]] by blast
  show ?thesis
    by (simp add: eprint_def eprintv_def formatter_apply_v_eq[OF cs] feed_ub ub_serial_puts_eq chunk_bytes_def ub_line_text_def cs)
qed

lemma ub_lines_eprint:
  "list_all (\<lambda>(fmt, as). ub_fits fmt as) ls \<Longrightarrow> ub_lines_ok e ls \<Longrightarrow> ub_lines e (eprint e) ls tr = Inr (Some (on_serial (ub_text e ls) tr))"
proof (induction ls arbitrary: tr)
  case (Cons l ls)
  obtain fmt as where l: "l = (fmt, as)" by (cases l)
  show ?case using Cons l by (simp add: ub_lines_ok_def ub_arg_values_ok eprint_ok ub_text_def)
qed (simp add: ub_text_def)

lemma ub_klibc_ok:
  assumes "list_all (\<lambda>(fmt, as). ub_fits fmt as) ls" "ub_lines_ok e ls"
  shows "ub_klibc e ls tr = Inr (Some (if ub_always_abort e then Halts (on_serial (ub_text e ls) tr) else Returns (on_serial (ub_text e ls) tr)))"
  by (simp add: ub_klibc_def ub_lines_eprint[OF assms] report_abort_def)

lemma report_fits: "list_all (\<lambda>(fmt, as). ub_fits fmt as) (ub_call_report c)"
  by (cases c) (simp_all add: ub_call_report_def ub_reports)

lemma ub_entry_eq:
  "ub_entry e c tr = (case c of UB_builtin_unreachable info \<Rightarrow> then_abort (ub_klibc e (ub_call_report c) tr) | _ \<Rightarrow> ub_klibc e (ub_call_report c) tr)"
  "ub_entry_abort e c tr = then_abort (ub_klibc e (ub_call_report c) tr)"
  by (cases c; simp add: ub_entry_def ub_entry_abort_def ub_call_report_def ub_handlers)+


text \<open>A subtraction that overflows, in a file whose name is empty and a type of the name A.\<close>

definition ub_demo :: ub_env where
  "ub_demo = \<lparr>ub_mem = (\<lambda>a. if a = 0x1000 then 65 else 0), ub_lit = (\<lambda>_. 0x2000), ub_always_abort = False\<rparr>"

definition ub_sub_demo :: ub_call where
  "ub_sub_demo = UB_sub_overflow \<lparr>ovi_location = \<lparr>loc_filename = 0x3000, loc_line = 12, loc_column = 3\<rparr>,
     ovi_type = \<lparr>ty_kind = 0, ty_info = 13, ty_name = 0x1000\<rparr>\<rparr> 5 (- 7)"


end
