(* ===== verification/User_Ubsan.thy ===== *)
theory User_Ubsan
  imports Userland Ubsan
begin

section \<open>Reports of undefined behaviour in user programs (ulibc/src/ubsan.c)\<close>

text \<open>
  The handlers of the user library. They make the same reports as those of the kernel, with \<open>print\<close>: each line goes to the console
  capability, piece by piece, and no line end is written. The strings of the compiler's structures are read in the memory of the moment in which
  their line is printed. \<^verbatim>\<open>report_abort\<close> exits with code 127. The configuration that always aborts is not set for user programs.

  As for the kernel, \<open>None\<close> is the search for the end of a string that never ends.
\<close>

type_synonym 'a user_report = "('a ksys_scheme) uproc option outcome"

definition user_ub_env :: "('a ksys_scheme) uenv \<Rightarrow> 'a ksys_scheme \<Rightarrow> ub_env" where
  "user_ub_env env s = \<lparr>ub_mem = mem (km s), ub_lit = (\<lambda>t. ue_addr env (map ch t)), ub_always_abort = False\<rparr>"

fun user_ub_lines :: "nat \<Rightarrow> ('a ksys_scheme) uenv \<Rightarrow> ub_line list \<Rightarrow> 'a ksys_scheme uproc \<Rightarrow> 'a user_report" where
  "user_ub_lines n env [] u = Inr (Some u)"
| "user_ub_lines n env ((fmt, args) # ls) u =
     (case u of
        Exited s \<Rightarrow> Inr (Some (Exited s))
      | Runs frame s \<Rightarrow>
          rbind (ub_arg_values (user_ub_env env s) args) (\<lambda>vs.
          case vs of None \<Rightarrow> Inr None | Some vs \<Rightarrow> rbind (print n env fmt vs u) (user_ub_lines n env ls)))"

definition user_report_abort :: "('a ksys_scheme) uenv \<Rightarrow> 'a ksys_scheme uproc \<Rightarrow> 'a ksys_scheme uproc outcome" where
  "user_report_abort env u = sys_exit env 127 u"

definition user_then :: "'a user_report \<Rightarrow> ('a ksys_scheme uproc \<Rightarrow> 'a user_report) \<Rightarrow> 'a user_report" where
  "user_then x f = rbind x (\<lambda>r. case r of None \<Rightarrow> Inr None | Some u \<Rightarrow> f u)"

definition user_then_abort :: "('a ksys_scheme) uenv \<Rightarrow> 'a user_report \<Rightarrow> 'a user_report" where
  "user_then_abort env x =
     user_then x (\<lambda>u. rbind (user_report_abort env u) (\<lambda>u. Inr (Some u)))"

text \<open>The functions that begin and end a report, and the four that make one for several handlers.\<close>

definition user_report_begin :: "nat \<Rightarrow> ('a ksys_scheme) uenv \<Rightarrow> source_location \<Rightarrow> string \<Rightarrow> 'a ksys_scheme uproc \<Rightarrow> 'a user_report" where
  "user_report_begin n env loc description u = user_ub_lines n env (report_begin loc description) u"

definition user_report_end :: "nat \<Rightarrow> ('a ksys_scheme) uenv \<Rightarrow> 'a ksys_scheme uproc \<Rightarrow> 'a user_report" where
  "user_report_end n env u = user_ub_lines n env report_end u"

definition user_report :: "nat \<Rightarrow> ('a ksys_scheme) uenv \<Rightarrow> source_location \<Rightarrow> string \<Rightarrow> ub_line list \<Rightarrow> 'a ksys_scheme uproc \<Rightarrow> 'a user_report" where
  "user_report n env loc description body u =
     user_then (user_report_begin n env loc description u) (\<lambda>u.
     user_then (user_ub_lines n env body u) (\<lambda>u.
     user_report_end n env u))"

definition user_report_type_mismatch_nullptr :: "nat \<Rightarrow> ('a ksys_scheme) uenv \<Rightarrow> type_mismatch_info \<Rightarrow> u64 \<Rightarrow> 'a ksys_scheme uproc \<Rightarrow> 'a user_report" where
  "user_report_type_mismatch_nullptr n env info ptr u =
     user_report n env (tmi_location info) ''Null pointer dereference''
       [(''%s null pointer of type %s'', [U_kind (tmi_kind info), U_cstr (ty_name (tmi_type info))])] u"

definition user_report_type_mismatch_alignment :: "nat \<Rightarrow> ('a ksys_scheme) uenv \<Rightarrow> type_mismatch_info \<Rightarrow> u64 \<Rightarrow> 'a ksys_scheme uproc \<Rightarrow> 'a user_report" where
  "user_report_type_mismatch_alignment n env info ptr u =
     user_report n env (tmi_location info) ''Unaligned access''
       [(''%s unaligned pointer %p of type %s (alignment %u)'',
         [U_kind (tmi_kind info), U_int ptr, U_cstr (ty_name (tmi_type info)), U_int (tmi_alignment info)])] u"

definition user_report_type_mismatch_objsize :: "nat \<Rightarrow> ('a ksys_scheme) uenv \<Rightarrow> type_mismatch_info \<Rightarrow> u64 \<Rightarrow> 'a ksys_scheme uproc \<Rightarrow> 'a user_report" where
  "user_report_type_mismatch_objsize n env info ptr u =
     user_report n env (tmi_location info) ''Insufficient object size''
       [(''%s address %p with insufficient space for type %s'', [U_kind (tmi_kind info), U_int ptr, U_cstr (ty_name (tmi_type info))])] u"

definition user_report_int_overflow :: "nat \<Rightarrow> ('a ksys_scheme) uenv \<Rightarrow> string \<Rightarrow> overflow_info \<Rightarrow> u64 \<Rightarrow> u64 \<Rightarrow> 'a ksys_scheme uproc \<Rightarrow> 'a user_report" where
  "user_report_int_overflow n env opr info lhs rhs u =
     (if is_signed (ovi_type info)
      then user_report n env (ovi_location info) ''Signed Integer overflow''
        [(''%d %s %d can't be represented in type %s'', [U_int lhs, U_lit opr, U_int rhs, U_cstr (ty_name (ovi_type info))])] u
      else user_report n env (ovi_location info) ''Unsigned Integer overflow''
        [(''%u %s %u can't be represented in type %s'', [U_int lhs, U_lit opr, U_int rhs, U_cstr (ty_name (ovi_type info))])] u)"

subsection \<open>Handlers\<close>

definition user_ubsan_handle_type_mismatch :: "nat \<Rightarrow> ('a ksys_scheme) uenv \<Rightarrow> type_mismatch_info \<Rightarrow> u64 \<Rightarrow> 'a ksys_scheme uproc \<Rightarrow> 'a user_report" where
  "user_ubsan_handle_type_mismatch n env info ptr u =
     (if ptr = 0 then user_report_type_mismatch_nullptr n env info ptr u
      else if tmi_alignment info \<noteq> 0 \<and> \<not> ub_is_aligned ptr (tmi_alignment info) then user_report_type_mismatch_alignment n env info ptr u
      else user_report_type_mismatch_objsize n env info ptr u)"

definition user_ubsan_handle_type_mismatch_abort :: "nat \<Rightarrow> ('a ksys_scheme) uenv \<Rightarrow> type_mismatch_info \<Rightarrow> u64 \<Rightarrow> 'a ksys_scheme uproc \<Rightarrow> 'a user_report" where
  "user_ubsan_handle_type_mismatch_abort n env info ptr u =
     user_then_abort env (user_ubsan_handle_type_mismatch n env info ptr u)"

definition user_ubsan_handle_type_mismatch_v1 :: "nat \<Rightarrow> ('a ksys_scheme) uenv \<Rightarrow> type_mismatch_info_v1 \<Rightarrow> u64 \<Rightarrow> 'a ksys_scheme uproc \<Rightarrow> 'a user_report" where
  "user_ubsan_handle_type_mismatch_v1 n env info ptr u =
     user_ubsan_handle_type_mismatch n env (type_mismatch_v0 info) ptr u"

definition user_ubsan_handle_type_mismatch_v1_abort :: "nat \<Rightarrow> ('a ksys_scheme) uenv \<Rightarrow> type_mismatch_info_v1 \<Rightarrow> u64 \<Rightarrow> 'a ksys_scheme uproc \<Rightarrow> 'a user_report" where
  "user_ubsan_handle_type_mismatch_v1_abort n env info ptr u =
     user_then_abort env (user_ubsan_handle_type_mismatch_v1 n env info ptr u)"

definition user_ubsan_handle_pointer_overflow :: "nat \<Rightarrow> ('a ksys_scheme) uenv \<Rightarrow> pointer_overflow_info \<Rightarrow> u64 \<Rightarrow> u64 \<Rightarrow> 'a ksys_scheme uproc \<Rightarrow> 'a user_report" where
  "user_ubsan_handle_pointer_overflow n env info from to u =
     user_report n env (poi_location info) ''Pointer overflow'' [(''Pointer operation overflow %p to %p'', [U_int from, U_int to])] u"

definition user_ubsan_handle_pointer_overflow_abort :: "nat \<Rightarrow> ('a ksys_scheme) uenv \<Rightarrow> pointer_overflow_info \<Rightarrow> u64 \<Rightarrow> u64 \<Rightarrow> 'a ksys_scheme uproc \<Rightarrow> 'a user_report" where
  "user_ubsan_handle_pointer_overflow_abort n env info from to u =
     user_then_abort env (user_ubsan_handle_pointer_overflow n env info from to u)"

definition user_ubsan_handle_invalid_builtin :: "nat \<Rightarrow> ('a ksys_scheme) uenv \<Rightarrow> invalid_builtin_info \<Rightarrow> 'a ksys_scheme uproc \<Rightarrow> 'a user_report" where
  "user_ubsan_handle_invalid_builtin n env info u =
     user_report n env (ibi_location info) ''Invalid builtin''
       [if ibi_kind info = 0 then (''Passed 0 to clz()'', [])
        else if ibi_kind info = 1 then (''Passed 0 to ctz()'', [])
        else (''Passed 0 to <unknown> (kind: %u)'', [U_int (ucast (ibi_kind info))])] u"

definition user_ubsan_handle_invalid_builtin_abort :: "nat \<Rightarrow> ('a ksys_scheme) uenv \<Rightarrow> invalid_builtin_info \<Rightarrow> 'a ksys_scheme uproc \<Rightarrow> 'a user_report" where
  "user_ubsan_handle_invalid_builtin_abort n env info u =
     user_then_abort env (user_ubsan_handle_invalid_builtin n env info u)"

definition user_ubsan_handle_add_overflow :: "nat \<Rightarrow> ('a ksys_scheme) uenv \<Rightarrow> overflow_info \<Rightarrow> u64 \<Rightarrow> u64 \<Rightarrow> 'a ksys_scheme uproc \<Rightarrow> 'a user_report" where
  "user_ubsan_handle_add_overflow n env info lhs rhs u =
     user_report_int_overflow n env ''+'' info lhs rhs u"

definition user_ubsan_handle_add_overflow_abort :: "nat \<Rightarrow> ('a ksys_scheme) uenv \<Rightarrow> overflow_info \<Rightarrow> u64 \<Rightarrow> u64 \<Rightarrow> 'a ksys_scheme uproc \<Rightarrow> 'a user_report" where
  "user_ubsan_handle_add_overflow_abort n env info lhs rhs u =
     user_then_abort env (user_ubsan_handle_add_overflow n env info lhs rhs u)"

definition user_ubsan_handle_sub_overflow :: "nat \<Rightarrow> ('a ksys_scheme) uenv \<Rightarrow> overflow_info \<Rightarrow> u64 \<Rightarrow> u64 \<Rightarrow> 'a ksys_scheme uproc \<Rightarrow> 'a user_report" where
  "user_ubsan_handle_sub_overflow n env info lhs rhs u =
     user_report_int_overflow n env ''-'' info lhs rhs u"

definition user_ubsan_handle_sub_overflow_abort :: "nat \<Rightarrow> ('a ksys_scheme) uenv \<Rightarrow> overflow_info \<Rightarrow> u64 \<Rightarrow> u64 \<Rightarrow> 'a ksys_scheme uproc \<Rightarrow> 'a user_report" where
  "user_ubsan_handle_sub_overflow_abort n env info lhs rhs u =
     user_then_abort env (user_ubsan_handle_sub_overflow n env info lhs rhs u)"

definition user_ubsan_handle_mul_overflow :: "nat \<Rightarrow> ('a ksys_scheme) uenv \<Rightarrow> overflow_info \<Rightarrow> u64 \<Rightarrow> u64 \<Rightarrow> 'a ksys_scheme uproc \<Rightarrow> 'a user_report" where
  "user_ubsan_handle_mul_overflow n env info lhs rhs u =
     user_report_int_overflow n env ''*'' info lhs rhs u"

definition user_ubsan_handle_mul_overflow_abort :: "nat \<Rightarrow> ('a ksys_scheme) uenv \<Rightarrow> overflow_info \<Rightarrow> u64 \<Rightarrow> u64 \<Rightarrow> 'a ksys_scheme uproc \<Rightarrow> 'a user_report" where
  "user_ubsan_handle_mul_overflow_abort n env info lhs rhs u =
     user_then_abort env (user_ubsan_handle_mul_overflow n env info lhs rhs u)"

definition user_ubsan_handle_negate_overflow :: "nat \<Rightarrow> ('a ksys_scheme) uenv \<Rightarrow> overflow_info \<Rightarrow> u64 \<Rightarrow> 'a ksys_scheme uproc \<Rightarrow> 'a user_report" where
  "user_ubsan_handle_negate_overflow n env info operand u =
     user_report n env (ovi_location info) ''Negation overflow''
       [if is_signed (ovi_type info)
        then (''-%d can't be represented in type %s'', [U_int operand, U_cstr (ty_name (ovi_type info))])
        else (''-%u can't be represented in type %s'', [U_int operand, U_cstr (ty_name (ovi_type info))])] u"

definition user_ubsan_handle_negate_overflow_abort :: "nat \<Rightarrow> ('a ksys_scheme) uenv \<Rightarrow> overflow_info \<Rightarrow> u64 \<Rightarrow> 'a ksys_scheme uproc \<Rightarrow> 'a user_report" where
  "user_ubsan_handle_negate_overflow_abort n env info operand u =
     user_then_abort env (user_ubsan_handle_negate_overflow n env info operand u)"

definition user_ubsan_handle_divrem_overflow :: "nat \<Rightarrow> ('a ksys_scheme) uenv \<Rightarrow> overflow_info \<Rightarrow> u64 \<Rightarrow> u64 \<Rightarrow> 'a ksys_scheme uproc \<Rightarrow> 'a user_report" where
  "user_ubsan_handle_divrem_overflow n env info lhs rhs u =
     user_report n env (ovi_location info) ''Division overflow''
       [if is_signed (ovi_type info) \<and> rhs = - 1
        then (''%d / -1 can't be represented in type %s'', [U_int lhs, U_cstr (ty_name (ovi_type info))])
        else if rhs = 0 then (''division by zero'', [])
        else (''%u / %u can't be represented in type %s'', [U_int lhs, U_int rhs, U_cstr (ty_name (ovi_type info))])] u"

definition user_ubsan_handle_divrem_overflow_abort :: "nat \<Rightarrow> ('a ksys_scheme) uenv \<Rightarrow> overflow_info \<Rightarrow> u64 \<Rightarrow> u64 \<Rightarrow> 'a ksys_scheme uproc \<Rightarrow> 'a user_report" where
  "user_ubsan_handle_divrem_overflow_abort n env info lhs rhs u =
     user_then_abort env (user_ubsan_handle_divrem_overflow n env info lhs rhs u)"

definition user_ubsan_handle_shift_out_of_bounds :: "nat \<Rightarrow> ('a ksys_scheme) uenv \<Rightarrow> shift_out_of_bounds_info \<Rightarrow> u64 \<Rightarrow> u64 \<Rightarrow> 'a ksys_scheme uproc \<Rightarrow> 'a user_report" where
  "user_ubsan_handle_shift_out_of_bounds n env info lhs rhs u =
     user_report n env (soi_location info) ''Shift out of bounds''
       [if is_signed (soi_rhs_type info) \<and> rhs <s 0 then (''shift exponent %d is negative'', [U_int rhs])
        else if rhs \<ge> int_width (soi_lhs_type info)
        then (''shift exponent %d is too large for type %s'', [U_int rhs, U_cstr (ty_name (soi_lhs_type info))])
        else if is_signed (soi_lhs_type info) \<and> lhs <s 0
        then (''left shift of negative type %s'', [U_cstr (ty_name (soi_lhs_type info))])
        else (''left shift of %u by %u places cannot be represented in type %s'',
              [U_int lhs, U_int rhs, U_cstr (ty_name (soi_lhs_type info))])] u"

definition user_ubsan_handle_shift_out_of_bounds_abort :: "nat \<Rightarrow> ('a ksys_scheme) uenv \<Rightarrow> shift_out_of_bounds_info \<Rightarrow> u64 \<Rightarrow> u64 \<Rightarrow> 'a ksys_scheme uproc \<Rightarrow> 'a user_report" where
  "user_ubsan_handle_shift_out_of_bounds_abort n env info lhs rhs u =
     user_then_abort env (user_ubsan_handle_shift_out_of_bounds n env info lhs rhs u)"

definition user_ubsan_handle_out_of_bounds :: "nat \<Rightarrow> ('a ksys_scheme) uenv \<Rightarrow> out_of_bounds_info \<Rightarrow> u64 \<Rightarrow> 'a ksys_scheme uproc \<Rightarrow> 'a user_report" where
  "user_ubsan_handle_out_of_bounds n env info index u =
     user_report n env (obi_location info) ''Out of bounds''
       [if is_signed (obi_index_type info)
        then (''index %d out of bounds for type %s'', [U_int index, U_cstr (ty_name (obi_array_type info))])
        else (''index %u out of bounds for type %s'', [U_int index, U_cstr (ty_name (obi_array_type info))])] u"

definition user_ubsan_handle_out_of_bounds_abort :: "nat \<Rightarrow> ('a ksys_scheme) uenv \<Rightarrow> out_of_bounds_info \<Rightarrow> u64 \<Rightarrow> 'a ksys_scheme uproc \<Rightarrow> 'a user_report" where
  "user_ubsan_handle_out_of_bounds_abort n env info index u =
     user_then_abort env (user_ubsan_handle_out_of_bounds n env info index u)"

definition user_ubsan_handle_builtin_unreachable :: "nat \<Rightarrow> ('a ksys_scheme) uenv \<Rightarrow> unreachable_info \<Rightarrow> 'a ksys_scheme uproc \<Rightarrow> 'a user_report" where
  "user_ubsan_handle_builtin_unreachable n env info u =
     user_then_abort env (
     user_report n env (uri_location info) ''Unreachable'' [(''Execution reached an unreachable code path'', [])] u)"

definition user_ubsan_handle_nonnull_arg :: "nat \<Rightarrow> ('a ksys_scheme) uenv \<Rightarrow> nonnull_arg_info \<Rightarrow> 'a ksys_scheme uproc \<Rightarrow> 'a user_report" where
  "user_ubsan_handle_nonnull_arg n env info u =
     user_report n env (nai_location info) ''Non-null argument''
       [(''parameter %u at %s:%u:%u is declared as non-null but null was passed'',
         [U_int (scast (nai_param_index info)), U_cstr (loc_filename (nai_param_location info)),
          U_int (ucast (loc_line (nai_param_location info))), U_int (ucast (loc_column (nai_param_location info)))])] u"

definition user_ubsan_handle_nonnull_arg_abort :: "nat \<Rightarrow> ('a ksys_scheme) uenv \<Rightarrow> nonnull_arg_info \<Rightarrow> 'a ksys_scheme uproc \<Rightarrow> 'a user_report" where
  "user_ubsan_handle_nonnull_arg_abort n env info u =
     user_then_abort env (user_ubsan_handle_nonnull_arg n env info u)"

definition user_ubsan_handle_nonnull_return :: "nat \<Rightarrow> ('a ksys_scheme) uenv \<Rightarrow> nonnull_return_info \<Rightarrow> 'a ksys_scheme uproc \<Rightarrow> 'a user_report" where
  "user_ubsan_handle_nonnull_return n env info u =
     user_report n env (nri_location info) ''Non-null return''
       [(''function at %s:%u:%u is declared as non-null returning but returned null'',
         [U_cstr (loc_filename (nri_ret_location info)), U_int (ucast (loc_line (nri_ret_location info))),
          U_int (ucast (loc_column (nri_ret_location info)))])] u"

definition user_ubsan_handle_nonnull_return_abort :: "nat \<Rightarrow> ('a ksys_scheme) uenv \<Rightarrow> nonnull_return_info \<Rightarrow> 'a ksys_scheme uproc \<Rightarrow> 'a user_report" where
  "user_ubsan_handle_nonnull_return_abort n env info u =
     user_then_abort env (user_ubsan_handle_nonnull_return n env info u)"

definition user_ubsan_handle_nonnull_return_v1 :: "nat \<Rightarrow> ('a ksys_scheme) uenv \<Rightarrow> nonnull_return_info \<Rightarrow> 'a ksys_scheme uproc \<Rightarrow> 'a user_report" where
  "user_ubsan_handle_nonnull_return_v1 n env info u =
     user_ubsan_handle_nonnull_return n env info u"

definition user_ubsan_handle_nonnull_return_v1_abort :: "nat \<Rightarrow> ('a ksys_scheme) uenv \<Rightarrow> nonnull_return_info \<Rightarrow> 'a ksys_scheme uproc \<Rightarrow> 'a user_report" where
  "user_ubsan_handle_nonnull_return_v1_abort n env info u =
     user_ubsan_handle_nonnull_return_abort n env info u"

definition user_ubsan_handle_load_invalid_value :: "nat \<Rightarrow> ('a ksys_scheme) uenv \<Rightarrow> invalid_value_info \<Rightarrow> u64 \<Rightarrow> 'a ksys_scheme uproc \<Rightarrow> 'a user_report" where
  "user_ubsan_handle_load_invalid_value n env info v u =
     user_report n env (ivi_location info) ''Invalid value''
       [if is_int (ivi_type info)
        then (if is_signed (ivi_type info)
          then (''load of value %d, which is not a valid value for type %s'', [U_int v, U_cstr (ty_name (ivi_type info))])
          else (''load of value %u, which is not a valid value for type %s'', [U_int v, U_cstr (ty_name (ivi_type info))]))
        else (''load of value, which is not a valid value for type %s'', [U_cstr (ty_name (ivi_type info))])] u"

definition user_ubsan_handle_load_invalid_value_abort :: "nat \<Rightarrow> ('a ksys_scheme) uenv \<Rightarrow> invalid_value_info \<Rightarrow> u64 \<Rightarrow> 'a ksys_scheme uproc \<Rightarrow> 'a user_report" where
  "user_ubsan_handle_load_invalid_value_abort n env info v u =
     user_then_abort env (user_ubsan_handle_load_invalid_value n env info v u)"

definition user_ubsan_handle_vla_bound_not_positive :: "nat \<Rightarrow> ('a ksys_scheme) uenv \<Rightarrow> vla_bound_info \<Rightarrow> u64 \<Rightarrow> 'a ksys_scheme uproc \<Rightarrow> 'a user_report" where
  "user_ubsan_handle_vla_bound_not_positive n env info bound u =
     user_report n env (vbi_location info) ''Variable length array bound not positive''
       [(''variable length array bound %d is not positive'', [U_int bound])] u"

definition user_ubsan_handle_vla_bound_not_positive_abort :: "nat \<Rightarrow> ('a ksys_scheme) uenv \<Rightarrow> vla_bound_info \<Rightarrow> u64 \<Rightarrow> 'a ksys_scheme uproc \<Rightarrow> 'a user_report" where
  "user_ubsan_handle_vla_bound_not_positive_abort n env info bound u =
     user_then_abort env (user_ubsan_handle_vla_bound_not_positive n env info bound u)"

definition user_ubsan_handle_function_type_mismatch :: "nat \<Rightarrow> ('a ksys_scheme) uenv \<Rightarrow> function_type_mismatch_info \<Rightarrow> u64 \<Rightarrow> 'a ksys_scheme uproc \<Rightarrow> 'a user_report" where
  "user_ubsan_handle_function_type_mismatch n env info func_ptr u =
     user_report n env (fti_location info) ''Function type mismatch''
       [(''call through function pointer %p to incorrect function type %s'', [U_int func_ptr, U_cstr (ty_name (fti_type info))])] u"

definition user_ubsan_handle_function_type_mismatch_abort :: "nat \<Rightarrow> ('a ksys_scheme) uenv \<Rightarrow> function_type_mismatch_info \<Rightarrow> u64 \<Rightarrow> 'a ksys_scheme uproc \<Rightarrow> 'a user_report" where
  "user_ubsan_handle_function_type_mismatch_abort n env info func_ptr u =
     user_then_abort env (user_ubsan_handle_function_type_mismatch n env info func_ptr u)"

end
