(* ===== verification/User_Ubsan_Props.thy ===== *)
theory User_Ubsan_Props
  imports User_Ubsan Ubsan_Props Userland_Props
begin

section \<open>What a report in a user program does\<close>

subsection \<open>A report is its lines\<close>

lemma user_ub_lines_Exited: "user_ub_lines n env ls (Exited s) = Inr (Some (Exited s))"
  by (cases ls) auto

lemma user_then_simps [simp]: "user_then (Inl e) f = Inl e" "user_then (Inr None) f = Inr None" "user_then (Inr (Some u)) f = f u"
  by (simp_all add: user_then_def)

lemma rbind_user_then: "rbind x (\<lambda>u. user_then (f u) g) = user_then (rbind x f) g"
  by (cases x) simp_all

lemma user_ub_lines_append: "user_ub_lines n env (ls @ ls') u = user_then (user_ub_lines n env ls u) (user_ub_lines n env ls')"
proof (induction ls arbitrary: u)
  case (Cons l ls)
  obtain fmt args where l: "l = (fmt, args)" by (cases l)
  show ?case
  proof (cases u)
    case (Runs f s)
    have ih: "user_ub_lines n env (ls @ ls') = (\<lambda>u. user_then (user_ub_lines n env ls u) (user_ub_lines n env ls'))"
      using Cons.IH by (simp add: fun_eq_iff)
    show ?thesis by (cases "ub_arg_values (user_ub_env env s) args"; simp add: l Runs ih rbind_user_then split: option.splits)
  qed (simp add: l user_ub_lines_Exited)
qed simp

lemma user_report_eq: "user_report n env loc d body u = user_ub_lines n env (ub_report loc d body) u"
  by (simp add: user_report_def user_report_begin_def user_report_end_def ub_report_def user_ub_lines_append[abs_def])

subsection \<open>The handlers\<close>

definition user_ub_entry :: "nat \<Rightarrow> ('a ksys_scheme) uenv \<Rightarrow> ub_call \<Rightarrow> 'a ksys_scheme uproc \<Rightarrow> 'a user_report" where
  "user_ub_entry n e c u =
     (case c of
        UB_type_mismatch info ptr \<Rightarrow> user_ubsan_handle_type_mismatch n e info ptr u
      | UB_type_mismatch_v1 info ptr \<Rightarrow> user_ubsan_handle_type_mismatch_v1 n e info ptr u
      | UB_pointer_overflow info from to \<Rightarrow> user_ubsan_handle_pointer_overflow n e info from to u
      | UB_invalid_builtin info \<Rightarrow> user_ubsan_handle_invalid_builtin n e info u
      | UB_add_overflow info lhs rhs \<Rightarrow> user_ubsan_handle_add_overflow n e info lhs rhs u
      | UB_sub_overflow info lhs rhs \<Rightarrow> user_ubsan_handle_sub_overflow n e info lhs rhs u
      | UB_mul_overflow info lhs rhs \<Rightarrow> user_ubsan_handle_mul_overflow n e info lhs rhs u
      | UB_negate_overflow info operand \<Rightarrow> user_ubsan_handle_negate_overflow n e info operand u
      | UB_divrem_overflow info lhs rhs \<Rightarrow> user_ubsan_handle_divrem_overflow n e info lhs rhs u
      | UB_shift_out_of_bounds info lhs rhs \<Rightarrow> user_ubsan_handle_shift_out_of_bounds n e info lhs rhs u
      | UB_out_of_bounds info index \<Rightarrow> user_ubsan_handle_out_of_bounds n e info index u
      | UB_builtin_unreachable info \<Rightarrow> user_ubsan_handle_builtin_unreachable n e info u
      | UB_nonnull_arg info \<Rightarrow> user_ubsan_handle_nonnull_arg n e info u
      | UB_nonnull_return info \<Rightarrow> user_ubsan_handle_nonnull_return n e info u
      | UB_nonnull_return_v1 info \<Rightarrow> user_ubsan_handle_nonnull_return_v1 n e info u
      | UB_load_invalid_value info v \<Rightarrow> user_ubsan_handle_load_invalid_value n e info v u
      | UB_vla_bound_not_positive info bound \<Rightarrow> user_ubsan_handle_vla_bound_not_positive n e info bound u
      | UB_function_type_mismatch info func_ptr \<Rightarrow> user_ubsan_handle_function_type_mismatch n e info func_ptr u)"

definition user_ub_entry_abort :: "nat \<Rightarrow> ('a ksys_scheme) uenv \<Rightarrow> ub_call \<Rightarrow> 'a ksys_scheme uproc \<Rightarrow> 'a user_report" where
  "user_ub_entry_abort n e c u =
     (case c of
        UB_type_mismatch info ptr \<Rightarrow> user_ubsan_handle_type_mismatch_abort n e info ptr u
      | UB_type_mismatch_v1 info ptr \<Rightarrow> user_ubsan_handle_type_mismatch_v1_abort n e info ptr u
      | UB_pointer_overflow info from to \<Rightarrow> user_ubsan_handle_pointer_overflow_abort n e info from to u
      | UB_invalid_builtin info \<Rightarrow> user_ubsan_handle_invalid_builtin_abort n e info u
      | UB_add_overflow info lhs rhs \<Rightarrow> user_ubsan_handle_add_overflow_abort n e info lhs rhs u
      | UB_sub_overflow info lhs rhs \<Rightarrow> user_ubsan_handle_sub_overflow_abort n e info lhs rhs u
      | UB_mul_overflow info lhs rhs \<Rightarrow> user_ubsan_handle_mul_overflow_abort n e info lhs rhs u
      | UB_negate_overflow info operand \<Rightarrow> user_ubsan_handle_negate_overflow_abort n e info operand u
      | UB_divrem_overflow info lhs rhs \<Rightarrow> user_ubsan_handle_divrem_overflow_abort n e info lhs rhs u
      | UB_shift_out_of_bounds info lhs rhs \<Rightarrow> user_ubsan_handle_shift_out_of_bounds_abort n e info lhs rhs u
      | UB_out_of_bounds info index \<Rightarrow> user_ubsan_handle_out_of_bounds_abort n e info index u
      | UB_builtin_unreachable info \<Rightarrow> user_ubsan_handle_builtin_unreachable n e info u
      | UB_nonnull_arg info \<Rightarrow> user_ubsan_handle_nonnull_arg_abort n e info u
      | UB_nonnull_return info \<Rightarrow> user_ubsan_handle_nonnull_return_abort n e info u
      | UB_nonnull_return_v1 info \<Rightarrow> user_ubsan_handle_nonnull_return_v1_abort n e info u
      | UB_load_invalid_value info v \<Rightarrow> user_ubsan_handle_load_invalid_value_abort n e info v u
      | UB_vla_bound_not_positive info bound \<Rightarrow> user_ubsan_handle_vla_bound_not_positive_abort n e info bound u
      | UB_function_type_mismatch info func_ptr \<Rightarrow> user_ubsan_handle_function_type_mismatch_abort n e info func_ptr u)"

lemmas user_ub_handlers = user_report_type_mismatch_nullptr_def user_report_type_mismatch_alignment_def
  user_report_type_mismatch_objsize_def user_report_int_overflow_def user_ubsan_handle_type_mismatch_def
  user_ubsan_handle_type_mismatch_abort_def user_ubsan_handle_type_mismatch_v1_def user_ubsan_handle_type_mismatch_v1_abort_def
  user_ubsan_handle_pointer_overflow_def user_ubsan_handle_pointer_overflow_abort_def user_ubsan_handle_invalid_builtin_def
  user_ubsan_handle_invalid_builtin_abort_def user_ubsan_handle_add_overflow_def user_ubsan_handle_add_overflow_abort_def
  user_ubsan_handle_sub_overflow_def user_ubsan_handle_sub_overflow_abort_def user_ubsan_handle_mul_overflow_def
  user_ubsan_handle_mul_overflow_abort_def user_ubsan_handle_negate_overflow_def user_ubsan_handle_negate_overflow_abort_def
  user_ubsan_handle_divrem_overflow_def user_ubsan_handle_divrem_overflow_abort_def user_ubsan_handle_shift_out_of_bounds_def
  user_ubsan_handle_shift_out_of_bounds_abort_def user_ubsan_handle_out_of_bounds_def user_ubsan_handle_out_of_bounds_abort_def
  user_ubsan_handle_builtin_unreachable_def user_ubsan_handle_nonnull_arg_def user_ubsan_handle_nonnull_arg_abort_def
  user_ubsan_handle_nonnull_return_def user_ubsan_handle_nonnull_return_abort_def user_ubsan_handle_nonnull_return_v1_def
  user_ubsan_handle_nonnull_return_v1_abort_def user_ubsan_handle_load_invalid_value_def
  user_ubsan_handle_load_invalid_value_abort_def user_ubsan_handle_vla_bound_not_positive_def
  user_ubsan_handle_vla_bound_not_positive_abort_def user_ubsan_handle_function_type_mismatch_def
  user_ubsan_handle_function_type_mismatch_abort_def


lemma user_ub_entry_eq:
  "user_ub_entry n env c u =
     (case c of
        UB_builtin_unreachable info \<Rightarrow> user_then_abort env (user_ub_lines n env (ub_call_report c) u)
      | _ \<Rightarrow> user_ub_lines n env (ub_call_report c) u)"
  "user_ub_entry_abort n env c u = user_then_abort env (user_ub_lines n env (ub_call_report c) u)"
proof -
  note d = user_ub_entry_def user_ub_entry_abort_def ub_call_report_def user_ub_handlers ub_bodies user_report_eq
  show "user_ub_entry n env c u =
     (case c of
        UB_builtin_unreachable info \<Rightarrow> user_then_abort env (user_ub_lines n env (ub_call_report c) u)
      | _ \<Rightarrow> user_ub_lines n env (ub_call_report c) u)"
    by (cases c) (simp_all add: d)
  show "user_ub_entry_abort n env c u = user_then_abort env (user_ub_lines n env (ub_call_report c) u)"
    by (cases c) (simp_all add: d)
qed

subsection \<open>The text of a report\<close>

definition ub_pieces :: "ub_env \<Rightarrow> ub_line list \<Rightarrow> chunk list" where
  "ub_pieces e ls =
     concat (map (\<lambda>(fmt, as). case fmt_chunks (map ch fmt) (map (ub_val e) as) of Inl _ \<Rightarrow> [] | Inr cs \<Rightarrow> cs) ls)"

lemma user_ub_env_written [simp]: "user_ub_env env (written k n bs s) = user_ub_env env s"
  by (simp add: user_ub_env_def)

lemma text_of_append: "text_of m (cs @ ds) = text_of m cs @ text_of m ds"
  by (induction cs) simp_all

lemma user_ub_lines_written:
  assumes "env_calls (ue_sys env) = kernel_calls"
  shows "has_console a k s \<Longrightarrow> list_all (\<lambda>(fmt, as). ub_fits fmt as) ls \<Longrightarrow> ub_lines_ok (user_ub_env env s) ls \<Longrightarrow>
    \<forall>c \<in> set (ub_pieces (user_ub_env env s) ls). sendable env (mem (km s)) c \<Longrightarrow>
    \<exists>frame'. user_ub_lines (Suc n) env ls (Runs frame s) =
      Inr (Some (Runs frame' (written k (length (ub_pieces (user_ub_env env s) ls)) (text_of (mem (km s)) (ub_pieces (user_ub_env env s) ls)) s)))"
proof (induction ls arbitrary: frame s)
  case Nil
  show ?case by (simp add: ub_pieces_def written_0)
next
  case (Cons l ls)
  obtain fmt as where l: "l = (fmt, as)" by (cases l)
  let ?e = "user_ub_env env s"
  have fit: "ub_fits fmt as" and ok: "list_all (ub_arg_ok ?e) as" using Cons.prems(2,3) l by (auto simp: ub_lines_ok_def)
  obtain cs where cs: "fmt_chunks (map ch fmt) (map (ub_val ?e) as) = Inr cs" using fmt_fits_chunks[OF ub_fits_fmt[OF fit]] by blast
  have p: "ub_pieces ?e (l # ls) = cs @ ub_pieces ?e ls" by (simp add: ub_pieces_def l cs)
  let ?s = "written k (length cs) (text_of (mem (km s)) cs) s"
  obtain f where f: "print (Suc n) env fmt (map (ub_val ?e) as) (Runs frame s) = Inr (Runs f ?s)"
    using print_written[OF Cons.prems(1) assms cs, where n = n and frame = frame] Cons.prems(4) p by auto
  obtain f' where "user_ub_lines (Suc n) env ls (Runs f ?s) =
      Inr (Some (Runs f' (written k (length (ub_pieces ?e ls)) (text_of (mem (km s)) (ub_pieces ?e ls)) ?s)))"
    using Cons.IH[of ?s f] Cons.prems p by (auto simp: ub_lines_ok_def)
  then show ?case by (simp add: l f ub_arg_values_ok[OF ok] p[unfolded l] written_written add.commute text_of_append)
qed


text \<open>The demonstration program with an array whose bound, 8, is reported as not positive; the file's name is the byte 255.\<close>

definition user_vla_demo :: ub_call where
  "user_vla_demo = UB_vla_bound_not_positive
     \<lparr>vbi_location = \<lparr>loc_filename = 0x6000FF, loc_line = 8, loc_column = 8\<rparr>, vbi_type = \<lparr>ty_kind = 0, ty_info = 13, ty_name = 0x6000FF\<rparr>\<rparr> 8"

lemma user_vla_name: "strlen_loop user_mem 0x6000FF 0 = Some 1"
  by (simp add: strlen_loop.simps user_mem_def)

lemma digits_8: "conversion (ch CHR ''u'') (VA_int 8 # r) = Inr ([Local [56]], r)" "conversion (ch CHR ''d'') (VA_int 8 # r) = Inr ([Local [56]], r)"
proof -
  have "digits 8 10 = Inr (Local [56])" by code_simp
  then show "conversion (ch CHR ''u'') (VA_int 8 # r) = Inr ([Local [56]], r)" "conversion (ch CHR ''d'') (VA_int 8 # r) = Inr ([Local [56]], r)"
    by (simp_all add: conversion_def va_int_def word_sless_alt)
qed

lemma user_vla_pieces:
  "c \<in> set (ub_pieces (user_ub_env uenv_demo user_demo) (ub_call_report user_vla_demo)) \<Longrightarrow>
   (\<exists>b. c = Local [b]) \<or> c = Passed (ulit uenv_demo ''Variable length array bound not positive'') \<or>
   c = Passed \<lparr>s_data = 0x6000FF, s_length = 1, s_capacity = 2, s_owned = False\<rparr>"
  by (auto simp: ub_pieces_def ub_call_report_def user_vla_demo_def report_vla_bound_not_positive_def ub_report_def report_begin_def report_end_def
      ub_val_def user_ub_env_def ub_literal_def ulit_def user_vla_name fmt_chunks_plain conversion_other digits_8)


end
