(* ===== verification/Scratch.thy ===== *)
theory Scratch
  imports Alloc Dllist
begin

section \<open>The scratch allocator (ulibc/src/mem/scratch.c, ulibc/src/mem/alloc.c)\<close>

text \<open>
  A scratch allocator passes every request on to another allocator, with a header of 24 bytes in front that links all live blocks, so that
  \<^verbatim>\<open>scratch_deinit\<close> can give all of them back. The links are in the byte memory. \<open>scr_state\<close> is what the \<^verbatim>\<open>udata\<close> of the other
  allocator points to; it outlives the scratch allocator. The checked wrappers \<open>allocate\<close>, \<open>reallocate\<close> and \<open>deallocate\<close> of ulibc
  are the same text as those of klibc, and its allocators have no aligned allocation.
\<close>

subsection \<open>The default allocator\<close>

text \<open>\<^verbatim>\<open>malloc\<close>, \<^verbatim>\<open>realloc\<close> and \<^verbatim>\<open>free\<close> of the third-party liballoc are the parameters.\<close>

definition default_allocator :: "(usize \<Rightarrow> 's \<times> memory \<Rightarrow> (uptr \<times> 's \<times> memory) outcome) \<Rightarrow>
    (uptr \<Rightarrow> usize \<Rightarrow> 's \<times> memory \<Rightarrow> (uptr \<times> 's \<times> memory) outcome) \<Rightarrow> (uptr \<Rightarrow> 's \<times> memory \<Rightarrow> ('s \<times> memory) outcome) \<Rightarrow> 's allocator" where
  "default_allocator malloc realloc free =
     \<lparr>al_allocate = Some malloc, al_allocate_aligned = None, al_reallocate = Some (\<lambda>ptr oldsz newsz. realloc ptr newsz),
      al_deallocate = Some (\<lambda>ptr sz. free ptr)\<rparr>"

subsection \<open>Headers\<close>

definition SCRATCH_HDR :: usize where "SCRATCH_HDR = 24"

definition sh_prev :: "uptr \<Rightarrow> uptr" where "sh_prev h = h"
definition sh_next :: "uptr \<Rightarrow> uptr" where "sh_next h = h + 8"
definition sh_size :: "uptr \<Rightarrow> uptr" where "sh_size h = h + 16"
definition sh_data :: "uptr \<Rightarrow> uptr" where "sh_data h = h + 24"

record 's scratch =
  scr_a :: "'s allocator"
  scr_state :: 's
  scr_head :: uptr

definition scratch_init :: "'s allocator \<Rightarrow> 's scratch \<Rightarrow> 's scratch" where
  "scratch_init a self = self\<lparr>scr_a := a, scr_head := 0\<rparr>"

definition hdr_from_ptr :: "uptr \<Rightarrow> uptr outcome" where
  "hdr_from_ptr ptr = check (ptr \<noteq> 0) (Inr (ptr - SCRATCH_HDR))"

subsection \<open>The operations\<close>

definition scratch_allocate :: "usize \<Rightarrow> 's scratch \<times> memory \<Rightarrow> (uptr \<times> 's scratch \<times> memory) outcome" where
  "scratch_allocate sz st =
     (case st of (self, m) \<Rightarrow>
        rbind (allocate (scr_a self) (SCRATCH_HDR + sz) (scr_state self, m)) (\<lambda>(hdr, s, m).
        let self = self\<lparr>scr_state := s\<rparr>; m = store64 (sh_size hdr) sz m in
        if scr_head self = 0 then Inr (sh_data hdr, self\<lparr>scr_head := hdr\<rparr>, m)
        else
          let m = store64 (sh_next hdr) (scr_head self) m;
              m = store64 (sh_prev (load64 m (sh_next hdr))) hdr m in
          Inr (sh_data hdr, self\<lparr>scr_head := hdr\<rparr>, m)))"

text \<open>A link to the place of a header, written in its neighbours or in the head.\<close>

definition scratch_relink :: "uptr \<Rightarrow> uptr \<Rightarrow> uptr \<Rightarrow> uptr \<Rightarrow> 's scratch \<times> memory \<Rightarrow> 's scratch \<times> memory" where
  "scratch_relink prev next nx pv st =
     (case st of (self, m) \<Rightarrow>
        let (self, m) = (if prev \<noteq> 0 then (self, store64 (sh_next prev) nx m) else (self\<lparr>scr_head := nx\<rparr>, m)) in
        (self, if next \<noteq> 0 then store64 (sh_prev next) pv m else m))"

definition scratch_reallocate :: "uptr \<Rightarrow> usize \<Rightarrow> usize \<Rightarrow> 's scratch \<times> memory \<Rightarrow> (uptr \<times> 's scratch \<times> memory) outcome" where
  "scratch_reallocate ptr old_size new_size st =
     (case st of (self, m) \<Rightarrow>
        rbind (hdr_from_ptr ptr) (\<lambda>hdr.
        check (load64 m (sh_size hdr) = old_size)
        (let prev = load64 m (sh_prev hdr); next = load64 m (sh_next hdr);
             hdr_osize = SCRATCH_HDR + old_size; hdr_nsize = SCRATCH_HDR + new_size in
         rbind (reallocate (scr_a self) hdr hdr_osize hdr_nsize (scr_state self, m)) (\<lambda>(hdr, s, m).
         if hdr = 0 then Inl NullDeref
         else
           let m = store64 (sh_size hdr) new_size m;
               (self, m) = scratch_relink prev next hdr hdr (self\<lparr>scr_state := s\<rparr>, m) in
           Inr (sh_data hdr, self, m)))))"

definition scratch_deallocate :: "uptr \<Rightarrow> usize \<Rightarrow> 's scratch \<times> memory \<Rightarrow> ('s scratch \<times> memory) outcome" where
  "scratch_deallocate ptr sz st =
     (case st of (self, m) \<Rightarrow>
        rbind (hdr_from_ptr ptr) (\<lambda>hdr.
        check (load64 m (sh_size hdr) = sz)
        (let prev = load64 m (sh_prev hdr); next = load64 m (sh_next hdr) in
         rbind (deallocate (scr_a self) hdr (SCRATCH_HDR + sz) (scr_state self, m)) (\<lambda>(s, m).
         Inr (scratch_relink prev next next prev (self\<lparr>scr_state := s\<rparr>, m))))))"

text \<open>The loop of \<^verbatim>\<open>scratch_deinit\<close>; it need not end if the links form a cycle.\<close>

partial_function (option) scratch_deinit_loop :: "'s allocator \<Rightarrow> uptr \<Rightarrow> 's \<times> memory \<Rightarrow> (('s \<times> memory) outcome) option" where
  "scratch_deinit_loop a current st =
     (if current = 0 then Some (Inr st)
      else
        let m = snd st; next = load64 m (sh_next current) in
        case deallocate a current (SCRATCH_HDR + load64 m (sh_size current)) st of
          Inl e \<Rightarrow> Some (Inl e)
        | Inr st \<Rightarrow> scratch_deinit_loop a next st)"

definition scratch_deinit :: "'s scratch \<times> memory \<Rightarrow> (('s scratch \<times> memory) outcome) option" where
  "scratch_deinit st =
     (case st of (self, m) \<Rightarrow>
        map_option (\<lambda>r. rbind r (\<lambda>(s, m).
          Inr (\<lparr>scr_a = \<lparr>al_allocate = None, al_allocate_aligned = None, al_reallocate = None, al_deallocate = None\<rparr>,
                scr_state = s, scr_head = 0\<rparr>, m)))
          (scratch_deinit_loop (scr_a self) (scr_head self) (scr_state self, m)))"

definition scratch_as_allocator :: "('s scratch) allocator" where
  "scratch_as_allocator = \<lparr>al_allocate = Some scratch_allocate, al_allocate_aligned = None,
     al_reallocate = Some scratch_reallocate, al_deallocate = Some scratch_deallocate\<rparr>"

end
