(* ===== verification/Scratch_Props.thy ===== *)
theory Scratch_Props
  imports Scratch
begin

section \<open>Nothing is lost in a scratch allocator\<close>

text \<open>
  The locale \<open>block_alloc\<close> is what a scratch allocator needs of the allocator below it: \<open>ok s L\<close> says that in state \<open>s\<close> the blocks
  \<open>L\<close> are handed out, and the operations add, move and remove blocks without touching the bytes of the others. Inside it, every operation of the
  scratch allocator is shown to keep its list of headers, and \<^verbatim>\<open>scratch_deinit\<close> to give back every block exactly once. It is interpreted on
  the arena.
\<close>

subsection \<open>Stores in blocks\<close>

lemma load64_store64_disj:
  assumes "unat a + 8 \<le> unat b \<or> unat b + 8 \<le> unat a" "unat a + 8 \<le> 2 ^ 64" "unat b + 8 \<le> 2 ^ 64"
  shows "load64 (store64 a v m) b = load64 m b"
proof (cases "unat a + 8 \<le> unat b")
  case True
  then have "a \<le> b" by (simp add: word_le_nat_alt)
  then have d: "unat (b - a) = unat b - unat a" by (rule unat_sub_u64)
  have ne: "a \<noteq> b" using True by auto
  then have "unat (a - b) = 2 ^ 64 - unat (b - a)" by (rule unat_diff_swap)
  then show ?thesis using d True assms(3) by (intro load64_store64_far) simp_all
next
  case False
  then have l: "unat b + 8 \<le> unat a" using assms(1) by simp
  then have "b \<le> a" by (simp add: word_le_nat_alt)
  then have d: "unat (a - b) = unat a - unat b" by (rule unat_sub_u64)
  have ne: "b \<noteq> a" using l by auto
  then have "unat (b - a) = 2 ^ 64 - unat (a - b)" by (rule unat_diff_swap)
  then show ?thesis using d l assms(2) by (intro load64_store64_far) simp_all
qed

text \<open>The bytes of a block.\<close>

definition same_in :: "memory \<Rightarrow> memory \<Rightarrow> uptr \<Rightarrow> usize \<Rightarrow> bool" where
  "same_in m m' p sz \<longleftrightarrow> (\<forall>x. unat x \<in> block p sz \<longrightarrow> m' x = m x)"

definition same_on :: "memory \<Rightarrow> memory \<Rightarrow> (uptr \<times> usize) set \<Rightarrow> bool" where
  "same_on m m' L \<longleftrightarrow> (\<forall>(p, sz) \<in> L. same_in m m' p sz)"

lemma same_in_refl [simp]: "same_in m m p sz" and same_on_refl [simp]: "same_on m m L"
  by (auto simp: same_in_def same_on_def)

lemma same_in_trans: "same_in m m1 p sz \<Longrightarrow> same_in m1 m2 p sz \<Longrightarrow> same_in m m2 p sz"
  by (auto simp: same_in_def)

lemma same_on_trans: "same_on m m1 L \<Longrightarrow> same_on m1 m2 L \<Longrightarrow> same_on m m2 L"
  by (fastforce simp: same_on_def intro: same_in_trans)

lemma same_onD: "same_on m m' L \<Longrightarrow> (p, sz) \<in> L \<Longrightarrow> same_in m m' p sz"
  by (auto simp: same_on_def)

lemma same_on_mono: "same_on m m' L \<Longrightarrow> K \<subseteq> L \<Longrightarrow> same_on m m' K"
  by (auto simp: same_on_def)

lemma same_on_Un: "same_on m m' (A \<union> B) \<longleftrightarrow> same_on m m' A \<and> same_on m m' B"
  by (auto simp: same_on_def)

lemma same_in_load64:
  assumes "same_in m m' p sz" "unat p \<le> unat a" "unat a + 8 \<le> unat p + unat sz" "unat p + unat sz \<le> 2 ^ 64"
  shows "load64 m' a = load64 m a"
proof (rule load64_cong)
  fix k :: nat assume k: "k < 8"
  have "unat (a + of_nat k) = unat a + k" using assms(3,4) k by (subst unat_add_u64) (simp_all add: unat_of_nat_u64)
  then have "unat (a + of_nat k) \<in> block p sz" using assms(2,3) k by (simp add: block_def)
  then show "m' (a + of_nat k) = m (a + of_nat k)" using assms(1) by (simp add: same_in_def)
qed

lemma same_in_store64:
  assumes "{unat a ..< unat a + 8} \<inter> block p sz = {}" "unat a + 8 \<le> 2 ^ 64"
  shows "same_in m (store64 a v m) p sz"
  unfolding same_in_def
proof (intro allI impI)
  fix x :: uptr assume x: "unat x \<in> block p sz"
  have "\<not> unat (x - a) < 8"
  proof
    assume l: "unat (x - a) < 8"
    then have "unat (a + (x - a)) = unat a + unat (x - a)" using assms(2) by (subst unat_add_u64) simp_all
    then have "unat x = unat a + unat (x - a)" by simp
    then have "unat x \<in> {unat a ..< unat a + 8}" using l by simp
    then show False using x assms(1) by blast
  qed
  then show "store64 a v m x = m x" by (simp add: store64_def)
qed

subsection \<open>The list of headers\<close>

definition ptr_ref :: "uptr \<Rightarrow> ref" where "ptr_ref v = (if v = 0 then None else Some (unat v))"

definition scr_p :: "memory \<Rightarrow> nat \<Rightarrow> ref" where "scr_p m x = ptr_ref (load64 m (sh_prev (of_nat x)))"
definition scr_n :: "memory \<Rightarrow> nat \<Rightarrow> ref" where "scr_n m x = ptr_ref (load64 m (sh_next (of_nat x)))"

lemma ptr_ref_simps [simp]: "ptr_ref 0 = None" "ptr_ref v = None \<longleftrightarrow> v = 0" "ptr_ref v = Some n \<longleftrightarrow> v \<noteq> 0 \<and> unat v = n"
  by (auto simp: ptr_ref_def)

lemma scr_links [simp]: "scr_p m (unat h) = ptr_ref (load64 m (sh_prev h))" "scr_n m (unat h) = ptr_ref (load64 m (sh_next h))"
  by (simp_all add: scr_p_def scr_n_def)

text \<open>Each block with its whole size, newest first.\<close>

definition hdr_ids :: "(uptr \<times> usize) list \<Rightarrow> nat list" where "hdr_ids hs = map (\<lambda>(h, sz). unat h) hs"

definition scratch_list :: "'s scratch \<Rightarrow> memory \<Rightarrow> (uptr \<times> usize) list \<Rightarrow> bool" where
  "scratch_list self m hs \<longleftrightarrow>
     (\<forall>(h, sz) \<in> set hs. 24 \<le> unat sz \<and> load64 m (sh_size h) = sz - 24) \<and>
     (\<exists>t. dll (scr_p m) (scr_n m) (ptr_ref (scr_head self)) t (hdr_ids hs))"

text \<open>What the caller sees of a block: the bytes behind the header.\<close>

definition data_of :: "uptr \<times> usize \<Rightarrow> uptr \<times> usize" where "data_of b = (fst b + 24, snd b - 24)"

definition hdr_apart :: "uptr \<Rightarrow> uptr \<Rightarrow> bool" where
  "hdr_apart h k \<longleftrightarrow> unat h + 24 \<le> unat k \<or> unat k + 24 \<le> unat h"

lemma hdr_fields:
  assumes "unat h + 24 \<le> 2 ^ 64"
  shows "unat (sh_prev h) = unat h" "unat (sh_next h) = unat h + 8" "unat (sh_size h) = unat h + 16"
  using assms by (simp_all add: sh_prev_def sh_next_def sh_size_def unat_add_u64)

lemma hdr_fields_neq [simp]:
  "sh_prev h \<noteq> sh_next h" "sh_next h \<noteq> sh_prev h" "sh_prev h \<noteq> sh_size h" "sh_size h \<noteq> sh_prev h" "sh_next h \<noteq> sh_size h" "sh_size h \<noteq> sh_next h"
  by (simp_all add: sh_prev_def sh_next_def sh_size_def)

lemma hdr_store_other:
  assumes "hdr_apart h k" "unat h + 24 \<le> 2 ^ 64" "unat k + 24 \<le> 2 ^ 64"
    and "f \<in> {sh_prev, sh_next, sh_size}" "g \<in> {sh_prev, sh_next, sh_size}"
  shows "load64 (store64 (f h) v m) (g k) = load64 m (g k)"
  using assms hdr_fields[OF assms(2)] hdr_fields[OF assms(3)] by (intro load64_store64_disj) (auto simp: hdr_apart_def)

lemma hdr_store_same:
  assumes "unat h + 24 \<le> 2 ^ 64"
  shows "load64 (store64 (sh_prev h) v m) (sh_next h) = load64 m (sh_next h)" "load64 (store64 (sh_prev h) v m) (sh_size h) = load64 m (sh_size h)"
    "load64 (store64 (sh_next h) v m) (sh_prev h) = load64 m (sh_prev h)" "load64 (store64 (sh_next h) v m) (sh_size h) = load64 m (sh_size h)"
    "load64 (store64 (sh_size h) v m) (sh_prev h) = load64 m (sh_prev h)" "load64 (store64 (sh_size h) v m) (sh_next h) = load64 m (sh_next h)"
  using assms hdr_fields[OF assms] by (auto intro!: load64_store64_disj)

lemma same_in_hdr:
  assumes "same_in m m' h sz" "24 \<le> unat sz" "unat h + unat sz \<le> 2 ^ 64"
  shows "load64 m' (sh_prev h) = load64 m (sh_prev h)" "load64 m' (sh_next h) = load64 m (sh_next h)" "load64 m' (sh_size h) = load64 m (sh_size h)"
  using assms hdr_fields[of h] by (auto intro!: same_in_load64[OF assms(1)])

lemma data_block:
  assumes "24 \<le> unat sz" "unat h + unat sz \<le> 2 ^ 64"
  shows "block (h + 24) (sz - 24) = {unat h + 24 ..< unat h + unat sz}"
proof (cases "unat sz = 24")
  case True
  then have "sz = 24" by (simp add: word_eq_iff_unat)
  then show ?thesis by (simp add: block_def)
next
  case False
  then have "unat (h + 24) = unat h + 24" using assms by (subst unat_add_u64) simp_all
  moreover have "unat (sz - 24) = unat sz - 24" using assms(1) unat_sub_u64[of 24 sz] by (simp add: word_le_nat_alt)
  ultimately show ?thesis using assms(1) by (simp add: block_def)
qed

lemma same_in_data: "same_in m m' h sz \<Longrightarrow> 24 \<le> unat sz \<Longrightarrow> unat h + unat sz \<le> 2 ^ 64 \<Longrightarrow> same_in m m' (h + 24) (sz - 24)"
  by (simp add: same_in_def data_block) (simp add: block_def)

text \<open>A store in a header leaves the callers' bytes and all bytes of other blocks.\<close>

lemma hdr_store_same_in:
  assumes "f \<in> {sh_prev, sh_next, sh_size}" "unat h + 24 \<le> 2 ^ 64" "{unat h ..< unat h + 24} \<inter> block p sz = {}"
  shows "same_in m (store64 (f h) v m) p sz"
proof (rule same_in_store64)
  have "{unat (f h) ..< unat (f h) + 8} \<subseteq> {unat h ..< unat h + 24}" using assms(1) hdr_fields[OF assms(2)] by auto
  then show "{unat (f h) ..< unat (f h) + 8} \<inter> block p sz = {}" using assms(3) by blast
  show "unat (f h) + 8 \<le> 2 ^ 64" using assms(1,2) hdr_fields[OF assms(2)] by auto
qed

subsection \<open>The allocator below\<close>

locale block_alloc =
  fixes a :: "'s allocator"
    and fa :: "usize \<Rightarrow> 's \<times> memory \<Rightarrow> (uptr \<times> 's \<times> memory) outcome"
    and fr :: "uptr \<Rightarrow> usize \<Rightarrow> usize \<Rightarrow> 's \<times> memory \<Rightarrow> (uptr \<times> 's \<times> memory) outcome"
    and fd :: "uptr \<Rightarrow> usize \<Rightarrow> 's \<times> memory \<Rightarrow> ('s \<times> memory) outcome"
    and ok :: "'s \<Rightarrow> (uptr \<times> usize) set \<Rightarrow> bool"
    and usable :: "usize \<Rightarrow> bool"
  assumes impl: "al_allocate a = Some fa" "al_reallocate a = Some fr" "al_deallocate a = Some fd"
    and ok_block: "ok s L \<Longrightarrow> (p, sz) \<in> L \<Longrightarrow> p \<noteq> 0 \<and> unat p + unat sz \<le> 2 ^ 64"
    and ok_apart: "ok s L \<Longrightarrow> b \<in> L \<Longrightarrow> c \<in> L \<Longrightarrow> b \<noteq> c \<Longrightarrow> block (fst b) (snd b) \<inter> block (fst c) (snd c) = {}"
    and law_alloc: "ok s L \<Longrightarrow> sz > 0 \<Longrightarrow> usable sz \<Longrightarrow> fa sz (s, m) = Inr (p, s', m') \<Longrightarrow> p \<noteq> 0 \<Longrightarrow>
      ok s' (insert (p, sz) L) \<and> (p, sz) \<notin> L \<and> same_on m m' L"
    and law_dealloc: "ok s (insert (p, sz) L) \<Longrightarrow> (p, sz) \<notin> L \<Longrightarrow> \<exists>s' m'. fd p sz (s, m) = Inr (s', m') \<and> ok s' L \<and> same_on m m' L"
    and law_realloc: "ok s (insert (p, sz) L) \<Longrightarrow> (p, sz) \<notin> L \<Longrightarrow> tz > 0 \<Longrightarrow> usable tz \<Longrightarrow>
      fr p sz tz (s, m) = Inr (q, s', m') \<Longrightarrow> q \<noteq> 0 \<Longrightarrow>
      ok s' (insert (q, tz) L) \<and> (q, tz) \<notin> L \<and> same_on m m' L \<and> (\<forall>k < min (unat sz) (unat tz). m' (q + of_nat k) = m (p + of_nat k))"
begin

lemma apart:
  assumes "ok s L" "(h, sz) \<in> L" "(k, tz) \<in> L" "h \<noteq> k" "24 \<le> unat sz" "24 \<le> unat tz"
  shows "hdr_apart h k"
proof (rule ccontr)
  assume n: "\<not> hdr_apart h k"
  let ?x = "max (unat h) (unat k)"
  have "?x \<in> block h sz \<inter> block k tz" using n assms(5,6) by (auto simp: hdr_apart_def block_def)
  then show False using ok_apart[OF assms(1-3)] assms(4) by auto
qed

text \<open>Blocks whose headers are at one address are one block.\<close>

lemma block_unique:
  assumes "ok s L" "(h, sz) \<in> L" "(h, tz) \<in> L" "0 < unat sz" "0 < unat tz"
  shows "sz = tz"
proof (rule ccontr)
  assume "sz \<noteq> tz"
  then have "block h sz \<inter> block h tz = {}" using ok_apart[OF assms(1-3)] by auto
  moreover have "unat h \<in> block h sz \<inter> block h tz" using assms(4,5) by (simp add: block_def)
  ultimately show False by blast
qed

lemma dealloc_step:
  assumes "ok s (insert (p, sz) L)" "(p, sz) \<notin> L"
  shows "\<exists>s' m'. deallocate a p sz (s, m) = Inr (s', m') \<and> ok s' L \<and> same_on m m' L"
  using law_dealloc[OF assms] ok_block[OF assms(1), of p sz] by (simp add: deallocate_def fn_def impl)

lemma deinit_loop:
  "ok s (set hs \<union> R) \<Longrightarrow> set hs \<inter> R = {} \<Longrightarrow> distinct hs \<Longrightarrow> \<forall>(h, sz) \<in> set hs. 24 \<le> unat sz \<and> load64 m (sh_size h) = sz - 24 \<Longrightarrow>
   seg (scr_p m) (scr_n m) pr (hdr_ids hs) None \<Longrightarrow> ptr_ref cur = first_of (hdr_ids hs) None \<Longrightarrow>
   \<exists>s' m'. scratch_deinit_loop a cur (s, m) = Some (Inr (s', m')) \<and> ok s' R \<and> same_on m m' R"
proof (induction hs arbitrary: s m pr cur)
  case Nil
  then show ?case by (simp add: scratch_deinit_loop.simps hdr_ids_def)
next
  case (Cons b hs)
  obtain h sz where b: "b = (h, sz)" by (cases b)
  let ?L = "set hs \<union> R"
  have L: "ok s (insert (h, sz) ?L)" "(h, sz) \<notin> ?L" using Cons.prems(1-3) b by auto
  have cur: "cur \<noteq> 0" "cur = h" using Cons.prems(6) b by (auto simp: hdr_ids_def word_eq_iff_unat)
  have sz: "SCRATCH_HDR + load64 m (sh_size h) = sz" using Cons.prems(4) b by (simp add: SCRATCH_HDR_def)
  obtain s1 m1 where d: "deallocate a h sz (s, m) = Inr (s1, m1)" "ok s1 ?L" "same_on m m1 ?L" using dealloc_step[OF L] by blast
  have keep: "load64 m1 (f k) = load64 m (f k)" if "(k, tz) \<in> set hs" "f \<in> {sh_prev, sh_next, sh_size}" for k tz f
  proof -
    have "24 \<le> unat tz" "unat k + unat tz \<le> 2 ^ 64" using Cons.prems(4) that(1) ok_block[OF d(2)] by fastforce+
    then show ?thesis using same_in_hdr[OF same_onD[OF d(3)], of k tz] that by auto
  qed
  have "seg (scr_p m1) (scr_n m1) (Some (unat h)) (hdr_ids hs) None = seg (scr_p m) (scr_n m) (Some (unat h)) (hdr_ids hs) None"
    by (intro seg_cong) (auto simp: hdr_ids_def keep)
  then have "seg (scr_p m1) (scr_n m1) (Some (unat h)) (hdr_ids hs) None" "ptr_ref (load64 m (sh_next h)) = first_of (hdr_ids hs) None"
    using Cons.prems(5) b by (auto simp: hdr_ids_def)
  then obtain s' m' where "scratch_deinit_loop a (load64 m (sh_next h)) (s1, m1) = Some (Inr (s', m'))" "ok s' R" "same_on m1 m' R"
    using Cons.IH[of s1 m1 "Some (unat h)" "load64 m (sh_next h)"] Cons.prems(2-4) d(2) keep by force
  then show ?case using d cur sz by (subst scratch_deinit_loop.simps) (auto intro: same_on_trans same_on_mono)
qed

text \<open>The headers of the list, and what a change of the links leaves.\<close>

definition hdrs_in :: "'s \<Rightarrow> (uptr \<times> usize) list \<Rightarrow> (uptr \<times> usize) set \<Rightarrow> bool" where
  "hdrs_in s hs R \<longleftrightarrow> ok s (set hs \<union> R) \<and> set hs \<inter> R = {} \<and> (\<forall>(h, sz) \<in> set hs. 24 \<le> unat sz)"

lemma hdr_end: "hdrs_in s hs R \<Longrightarrow> (h, sz) \<in> set hs \<Longrightarrow> h \<noteq> 0 \<and> unat h + 24 \<le> 2 ^ 64 \<and> unat h + unat sz \<le> 2 ^ 64 \<and> 24 \<le> unat sz"
  using ok_block[of s "set hs \<union> R" h sz] by (fastforce simp: hdrs_in_def)

lemma hdr_far: "hdrs_in s hs R \<Longrightarrow> (h, sz) \<in> set hs \<Longrightarrow> (k, tz) \<in> set hs \<Longrightarrow> h \<noteq> k \<Longrightarrow> hdr_apart h k"
  using apart[of s "set hs \<union> R" h sz k tz] by (fastforce simp: hdrs_in_def)

lemma hdr_keeps:
  assumes "hdrs_in s hs R" "(h, sz) \<in> set hs" "f \<in> {sh_prev, sh_next, sh_size}"
  shows "same_on m (store64 (f h) v m) (R \<union> data_of ` set hs)"
proof -
  note e = hdr_end[OF assms(1,2)]
  have o: "ok s (set hs \<union> R)" using assms(1) by (simp add: hdrs_in_def)
  have sub: "{unat h ..< unat h + 24} \<subseteq> block h sz" using e by (auto simp: block_def)
  have "same_in m (store64 (f h) v m) p tz" if b: "(p, tz) \<in> R" for p tz
  proof -
    have "block h sz \<inter> block p tz = {}" using ok_apart[OF o, of "(h, sz)" "(p, tz)"] assms(1,2) b by (auto simp: hdrs_in_def)
    then show ?thesis using sub e by (intro hdr_store_same_in[OF assms(3)]) auto
  qed
  moreover have "same_in m (store64 (f h) v m) (k + 24) (tz - 24)" if k: "(k, tz) \<in> set hs" for k tz
  proof -
    note ek = hdr_end[OF assms(1) k]
    have "{unat h ..< unat h + 24} \<inter> {unat k + 24 ..< unat k + unat tz} = {}"
    proof (cases "h = k")
      case False
      then have "block h sz \<inter> block k tz = {}" using ok_apart[OF o, of "(h, sz)" "(k, tz)"] assms(2) k by auto
      then show ?thesis using sub by (auto simp: block_def)
    qed auto
    then show ?thesis using e ek by (intro hdr_store_same_in[OF assms(3)]) (simp_all add: data_block)
  qed
  ultimately show ?thesis by (auto simp: same_on_def data_of_def)
qed

lemma hdr_same:
  assumes "hdrs_in s hs R" "same_on m m' (set hs)" "(h, sz) \<in> set hs" "f \<in> {sh_prev, sh_next, sh_size}"
  shows "load64 m' (f h) = load64 m (f h)"
  using same_in_hdr[OF same_onD[OF assms(2,3)]] hdr_end[OF assms(1,3)] assms(4) by auto

lemma data_same:
  assumes "hdrs_in s hs R" "set ks \<subseteq> set hs" "same_on m m' (set ks)"
  shows "same_on m m' (data_of ` set ks)"
proof -
  have "same_in m m' (h + 24) (sz - 24)" if "(h, sz) \<in> set ks" for h sz
    using same_in_data[OF same_onD[OF assms(3) that]] hdr_end[OF assms(1) subsetD[OF assms(2) that]] by simp
  then show ?thesis by (auto simp: same_on_def data_of_def)
qed

lemma hdr_store:
  assumes "hdrs_in s hs R" "(h, sz) \<in> set hs" "(k, tz) \<in> set hs" "f \<in> {sh_prev, sh_next, sh_size}" "g \<in> {sh_prev, sh_next, sh_size}"
    and "h \<noteq> k \<or> f h \<noteq> g h"
  shows "load64 (store64 (f h) v m) (g k) = load64 m (g k)"
proof (cases "h = k")
  case True
  then show ?thesis using assms hdr_store_same[of h] hdr_end[OF assms(1,2)] by auto
next
  case False
  then show ?thesis using hdr_store_other[OF hdr_far[OF assms(1-3)], of f g] assms(4,5) hdr_end[OF assms(1,2)] hdr_end[OF assms(1,3)] by blast
qed

text \<open>A new block: its header is pushed in front of the list.\<close>

lemma scratch_list_head:
  "scratch_list self m hs \<Longrightarrow> ptr_ref (scr_head self) = first_of (hdr_ids hs) None"
  by (auto simp: scratch_list_def dll_def)

lemma push_list:
  assumes i: "hdrs_in s' ((h, tz) # hs) R" "(h, tz) \<notin> set hs" "scratch_list self m hs"
    and h: "load64 m' (sh_prev h) = 0" "load64 m' (sh_next h) = scr_head self" "load64 m' (sh_size h) = tz - 24"
    and k: "\<And>k kz. (k, kz) \<in> set hs \<Longrightarrow> load64 m' (sh_next k) = load64 m (sh_next k) \<and> load64 m' (sh_size k) = load64 m (sh_size k) \<and>
      load64 m' (sh_prev k) = (if k = scr_head self then h else load64 m (sh_prev k))"
  shows "scratch_list (self\<lparr>scr_state := s', scr_head := h\<rparr>) m' ((h, tz) # hs)"
proof -
  have hz: "h \<noteq> 0" using hdr_end[OF i(1)] by auto
  obtain t where t: "dll (scr_p m) (scr_n m) (ptr_ref (scr_head self)) t (hdr_ids hs)" using i(3) by (auto simp: scratch_list_def)
  have new: "unat h \<notin> set (hdr_ids hs)"
  proof
    assume "unat h \<in> set (hdr_ids hs)"
    then obtain sz where sz: "(h, sz) \<in> set hs" by (auto simp: hdr_ids_def word_eq_iff_unat[symmetric])
    then have "sz = tz" using block_unique[of s' _ h sz tz] hdr_end[OF i(1), of h sz] hdr_end[OF i(1), of h tz] i(1) by (auto simp: hdrs_in_def)
    then show False using sz i(2) by simp
  qed
  have "dll (scr_p m') (scr_n m') (Some (unat h)) (if t = None then Some (unat h) else t) (unat h # hdr_ids hs)"
  proof (rule dll_push_front[OF t new])
    fix z assume "z \<in> set (hdr_ids hs)"
    then obtain k kz where z: "z = unat k" "(k, kz) \<in> set hs" by (auto simp: hdr_ids_def)
    then have "k \<noteq> 0" using hdr_end[OF i(1), of k kz] by simp
    then show "scr_n m' z = scr_n m z" "scr_p m' z = (if ptr_ref (scr_head self) = Some z then Some (unat h) else scr_p m z)"
      using k[OF z(2)] z(1) hz by (auto simp: word_eq_iff_unat[symmetric])
  qed (simp_all add: h)
  then have "\<exists>t. dll (scr_p m') (scr_n m') (ptr_ref h) t (hdr_ids ((h, tz) # hs))" using hz by (auto simp: ptr_ref_def hdr_ids_def)
  then show ?thesis using i k h by (auto simp: scratch_list_def hdrs_in_def)
qed

lemma alloc_zeroed:
  assumes "ok s L" "usable sz" "sz > 0" "fa sz (s, m) = Inr (p, s', m1)" "p \<noteq> 0"
  shows "\<exists>m2. allocate a sz (s, m) = Inr (p, s', m2) \<and> ok s' (insert (p, sz) L) \<and> (p, sz) \<notin> L \<and> same_on m m2 L \<and>
    (\<forall>x. unat x \<in> block p sz \<longrightarrow> m2 x = 0)"
proof -
  have l: "ok s' (insert (p, sz) L)" "(p, sz) \<notin> L" "same_on m m1 L" using law_alloc[OF assms(1,3,2,4,5)] by auto
  have e: "unat p + unat sz \<le> 2 ^ 64" using ok_block[OF l(1), of p sz] by simp
  let ?m2 = "\<lambda>x. if in_range p (unat sz) x then 0 else m1 x"
  have "same_in m1 ?m2 q tz" if "(q, tz) \<in> L" for q tz
  proof -
    have "block p sz \<inter> block q tz = {}" using ok_apart[OF l(1), of "(p, sz)" "(q, tz)"] l(2) that by auto
    then show ?thesis using in_range_block[OF e] by (auto simp: same_in_def)
  qed
  then have "same_on m ?m2 L" using l(3) by (auto simp: same_on_def intro: same_in_trans)
  moreover have "allocate a sz (s, m) = Inr (p, s', ?m2)" using assms by (simp add: allocate_def fn_def impl zeroed_eq)
  ultimately show ?thesis using l(1,2) in_range_block[OF e] by (intro exI[of _ ?m2]) simp
qed

lemma allocate_ok:
  assumes i: "hdrs_in (scr_state self) hs R" "scratch_list self m hs" "scr_a self = a"
    and n: "unat sz + 24 < 2 ^ 64" "usable (24 + sz)" "fa (24 + sz) (scr_state self, m) = Inr (h, s', m1)" "h \<noteq> 0"
  shows "\<exists>m'. let self' = self\<lparr>scr_state := s', scr_head := h\<rparr>; hs' = (h, 24 + sz) # hs in
    scratch_allocate sz (self, m) = Inr (h + 24, self', m') \<and> hdrs_in s' hs' R \<and> (h, 24 + sz) \<notin> set hs \<and> scratch_list self' m' hs' \<and>
    same_on m m' (R \<union> data_of ` set hs) \<and> (\<forall>x. unat x \<in> block (h + 24) sz \<longrightarrow> m' x = 0)"
proof -
  have u: "unat (24 + sz) = 24 + unat sz" using n(1) by (subst unat_add_u64) simp_all
  then have pos: "(24 + sz) > 0" by (simp add: word_less_nat_alt)
  have o: "ok (scr_state self) (set hs \<union> R)" using i(1) by (simp add: hdrs_in_def)
  obtain m2 where m2: "allocate a (24 + sz) (scr_state self, m) = Inr (h, s', m2)" "ok s' (insert (h, 24 + sz) (set hs \<union> R))"
    "(h, 24 + sz) \<notin> set hs \<union> R" "same_on m m2 (set hs \<union> R)" "\<forall>x. unat x \<in> block h (24 + sz) \<longrightarrow> m2 x = 0"
    using alloc_zeroed[OF o n(2) pos n(3,4)] by blast
  let ?hs = "(h, 24 + sz) # hs"
  have I: "hdrs_in s' ?hs R" using i(1) m2(2,3) u by (auto simp: hdrs_in_def)
  have hin: "(h, 24 + sz) \<in> set ?hs" by simp
  note e = hdr_end[OF I hin]
  have z: "load64 m2 (f h) = 0" if "f \<in> {sh_prev, sh_next, sh_size}" for f
  proof (rule load64_zero)
    fix k :: nat assume "k < 8"
    then have "unat (f h + of_nat k) \<in> block h (24 + sz)"
      using that e hdr_fields[of h] u by (auto simp: block_def unat_add_u64 unat_of_nat_u64)
    then show "m2 (f h + of_nat k) = 0" using m2(5) by blast
  qed
  have old: "load64 m2 (f k) = load64 m (f k)" if "(k, kz) \<in> set hs" "f \<in> {sh_prev, sh_next, sh_size}" for k kz f
    using hdr_same[OF i(1) _ that] same_on_mono[OF m2(4)] by blast
  have kh: "k \<noteq> h" if "(k, kz) \<in> set hs" for k kz
    using block_unique[OF m2(2), of h kz "24 + sz"] that m2(3) hdr_end[OF I, of k kz] e by auto
  let ?m3 = "store64 (sh_size h) sz m2"
  let ?m5 = "if scr_head self = 0 then ?m3 else store64 (sh_prev (scr_head self)) h (store64 (sh_next h) (scr_head self) ?m3)"
  have call: "scratch_allocate sz (self, m) = Inr (h + 24, self\<lparr>scr_state := s', scr_head := h\<rparr>, ?m5)"
    by (simp add: scratch_allocate_def SCRATCH_HDR_def m2(1) i(3) sh_data_def Let_def load64_store64_same)
  have S: "load64 (store64 (f x) v m') (g y) = load64 m' (g y)"
    if "(x, xz) \<in> set ?hs" "(y, yz) \<in> set ?hs" "f \<in> {sh_prev, sh_next, sh_size}" "g \<in> {sh_prev, sh_next, sh_size}" "x \<noteq> y \<or> f x \<noteq> g x"
    for x y xz yz f g v m' using hdr_store[OF I that] .
  have l3: "load64 ?m3 (sh_size h) = sz" "load64 ?m3 (sh_prev h) = 0" "load64 ?m3 (sh_next h) = 0"
    using S[OF hin hin, of sh_size sh_prev] S[OF hin hin, of sh_size sh_next] z by (simp_all add: load64_store64_same)
  have k3: "load64 ?m3 (f k) = load64 m (f k)" if "(k, kz) \<in> set hs" "f \<in> {sh_prev, sh_next, sh_size}" for k kz f
    using S[OF hin _ _ that(2), of k kz sh_size] kh[OF that(1)] that old[OF that] by auto
  have s3: "same_on m2 ?m3 (R \<union> data_of ` set ?hs)" by (rule hdr_keeps[OF I hin]) simp
  have "scratch_list (self\<lparr>scr_state := s', scr_head := h\<rparr>) ?m5 ?hs \<and> same_on m2 ?m5 (R \<union> data_of ` set ?hs)"
  proof (cases "scr_head self = 0")
    case True
    then have "hs = []" using scratch_list_head[OF i(2)] by (simp add: hdr_ids_def)
    then show ?thesis using True s3 push_list[OF I _ i(2), of ?m3] m2(3) l3 by simp
  next
    case False
    let ?k = "scr_head self"
    obtain k kz hs1 where hs: "hs = (k, kz) # hs1"
      using scratch_list_head[OF i(2)] False by (cases hs) (auto simp: hdr_ids_def)
    then have "?k = k" using scratch_list_head[OF i(2)] False by (simp add: hdr_ids_def word_eq_iff_unat)
    with hs have kz: "(?k, kz) \<in> set hs" by simp
    then have kin: "(?k, kz) \<in> set ?hs" by simp
    let ?m4 = "store64 (sh_next h) ?k ?m3"
    let ?m = "store64 (sh_prev ?k) h ?m4"
    have l5: "load64 ?m (sh_prev x) = (if x = ?k then h else load64 ?m3 (sh_prev x))"
        "load64 ?m (sh_next x) = (if x = h then ?k else load64 ?m3 (sh_next x))"
        "load64 ?m (sh_size x) = load64 ?m3 (sh_size x)" if "(x, xz) \<in> set ?hs" for x xz
    proof -
      note P = S[OF kin that, of sh_prev _ h ?m4]
      note N = S[OF hin that, of sh_next _ ?k ?m3]
      show "load64 ?m (sh_prev x) = (if x = ?k then h else load64 ?m3 (sh_prev x))"
        using P[of sh_prev] N[of sh_prev] by (simp add: load64_store64_same)
      show "load64 ?m (sh_next x) = (if x = h then ?k else load64 ?m3 (sh_next x))"
        using P[of sh_next] N[of sh_next] by (simp add: load64_store64_same)
      show "load64 ?m (sh_size x) = load64 ?m3 (sh_size x)" using P[of sh_size] N[of sh_size] by simp
    qed
    have "scratch_list (self\<lparr>scr_state := s', scr_head := h\<rparr>) ?m ?hs"
    proof (rule push_list[OF I _ i(2)])
      show "(h, 24 + sz) \<notin> set hs" using m2(3) by simp
      show "load64 ?m (sh_prev h) = 0" "load64 ?m (sh_next h) = ?k" "load64 ?m (sh_size h) = 24 + sz - 24"
        using l5[OF hin] l3 kh[OF kz] by simp_all
    next
      fix k kz assume k: "(k, kz) \<in> set hs"
      then have kin: "(k, kz) \<in> set ?hs" by simp
      show "load64 ?m (sh_next k) = load64 m (sh_next k) \<and> load64 ?m (sh_size k) = load64 m (sh_size k) \<and>
        load64 ?m (sh_prev k) = (if k = ?k then h else load64 m (sh_prev k))"
        using l5[OF kin] k3[OF k] kh[OF k] by simp
    qed
    moreover have "same_on m2 ?m (R \<union> data_of ` set ?hs)"
      using same_on_trans[OF s3 same_on_trans[OF hdr_keeps[OF I hin] hdr_keeps[OF I kin]], of sh_next sh_prev] by simp
    ultimately show ?thesis using False by simp
  qed
  note L = conjunct1[OF this] and Z = conjunct2[OF this]
  have "same_on m m2 (R \<union> data_of ` set hs)"
    using same_on_mono[OF m2(4), of R] data_same[OF i(1) subset_refl same_on_mono[OF m2(4), of "set hs"]] by (simp add: same_on_Un)
  moreover have "same_on m2 ?m5 (R \<union> data_of ` set hs)" by (rule same_on_mono[OF Z]) auto
  ultimately have keep: "same_on m ?m5 (R \<union> data_of ` set hs)" by (rule same_on_trans)
  have "same_in m2 ?m5 (h + 24) sz" using same_onD[OF Z, of "h + 24" sz] by (force simp: data_of_def)
  moreover have "block (h + 24) sz \<subseteq> block h (24 + sz)" using data_block[of "24 + sz" h] e u by (auto simp: block_def)
  ultimately have "\<forall>x. unat x \<in> block (h + 24) sz \<longrightarrow> ?m5 x = 0" using m2(5) by (auto simp: same_in_def)
  then show ?thesis using call I m2(3) L keep by (intro exI[of _ ?m5]) (simp only: Let_def, simp)
qed

text \<open>Relinking the neighbours of a header.\<close>

lemma relink_effect:
  assumes i: "hdrs_in s hs R" "prev \<noteq> 0 \<longrightarrow> (prev, pz) \<in> set hs" "next \<noteq> 0 \<longrightarrow> (next, nz) \<in> set hs"
    and r: "scratch_relink prev next nx pv (self, m) = (self', m')"
  shows "self' = (if prev \<noteq> 0 then self else self\<lparr>scr_head := nx\<rparr>)"
    and "(x, xz) \<in> set hs \<Longrightarrow> load64 m' (sh_next x) = (if prev \<noteq> 0 \<and> x = prev then nx else load64 m (sh_next x))"
    and "(x, xz) \<in> set hs \<Longrightarrow> load64 m' (sh_prev x) = (if next \<noteq> 0 \<and> x = next then pv else load64 m (sh_prev x))"
    and "(x, xz) \<in> set hs \<Longrightarrow> load64 m' (sh_size x) = load64 m (sh_size x)"
    and "same_on m m' (R \<union> data_of ` set hs)"
proof -
  let ?m1 = "if prev \<noteq> 0 then store64 (sh_next prev) nx m else m"
  have e: "self' = (if prev \<noteq> 0 then self else self\<lparr>scr_head := nx\<rparr>)" "m' = (if next \<noteq> 0 then store64 (sh_prev next) pv ?m1 else ?m1)"
    using r by (auto simp: scratch_relink_def Let_def split: if_splits)
  show "self' = (if prev \<noteq> 0 then self else self\<lparr>scr_head := nx\<rparr>)" by (rule e(1))
  show "same_on m m' (R \<union> data_of ` set hs)"
  proof (rule same_on_trans[of _ ?m1])
    show "same_on m ?m1 (R \<union> data_of ` set hs)" using hdr_keeps[OF i(1), of prev pz sh_next] i(2) by simp
    show "same_on ?m1 m' (R \<union> data_of ` set hs)" using hdr_keeps[OF i(1), of "next" nz sh_prev] i(3) by (simp add: e(2))
  qed
  assume x: "(x, xz) \<in> set hs"
  have S: "load64 (store64 (f h) v m) (g x) = load64 m (g x)"
    if "(h, hz) \<in> set hs" "f \<in> {sh_prev, sh_next, sh_size}" "g \<in> {sh_prev, sh_next, sh_size}" "h \<noteq> x \<or> f h \<noteq> g h" for h hz f g v m
    using hdr_store[OF i(1) that(1) x that(2-4)] .
  show "load64 m' (sh_next x) = (if prev \<noteq> 0 \<and> x = prev then nx else load64 m (sh_next x))"
    using S[of prev pz sh_next sh_next] S[of "next" nz sh_prev sh_next] i(2,3) by (auto simp: e(2) load64_store64_same)
  show "load64 m' (sh_prev x) = (if next \<noteq> 0 \<and> x = next then pv else load64 m (sh_prev x))"
    using S[of prev pz sh_next sh_prev] S[of "next" nz sh_prev sh_prev] i(2,3) by (auto simp: e(2) load64_store64_same)
  show "load64 m' (sh_size x) = load64 m (sh_size x)"
    using S[of prev pz sh_next sh_size] S[of "next" nz sh_prev sh_size] i(2,3) by (auto simp: e(2))
qed

text \<open>The neighbours of a header are headers of the list.\<close>

lemma neighbours:
  assumes "scratch_list self m (xs @ (h, tz) # ys)"
  shows "load64 m (sh_prev h) \<noteq> 0 \<Longrightarrow> \<exists>z. (load64 m (sh_prev h), z) \<in> set (xs @ ys)"
    and "load64 m (sh_next h) \<noteq> 0 \<Longrightarrow> \<exists>z. (load64 m (sh_next h), z) \<in> set (xs @ ys)"
proof -
  obtain t where t: "dll (scr_p m) (scr_n m) (ptr_ref (scr_head self)) t (hdr_ids (xs @ (h, tz) # ys))"
    using assms by (auto simp: scratch_list_def)
  have i: "unat h \<in> set (hdr_ids (xs @ (h, tz) # ys))" by (simp add: hdr_ids_def)
  have nbr: "\<exists>z. (v, z) \<in> set (xs @ ys)" if "unat v \<in> set (hdr_ids (xs @ (h, tz) # ys))" "unat v \<noteq> unat h" for v
    using that by (auto simp: hdr_ids_def word_eq_iff_unat[symmetric])
  show "load64 m (sh_prev h) \<noteq> 0 \<Longrightarrow> \<exists>z. (load64 m (sh_prev h), z) \<in> set (xs @ ys)"
    using dll_links_in(1)[OF t i] nbr by simp
  show "load64 m (sh_next h) \<noteq> 0 \<Longrightarrow> \<exists>z. (load64 m (sh_next h), z) \<in> set (xs @ ys)"
    using dll_links_in(2)[OF t i] nbr by simp
qed

lemma deallocate_ok:
  assumes i: "hdrs_in (scr_state self) (xs @ (h, tz) # ys) R" "scratch_list self m (xs @ (h, tz) # ys)" "scr_a self = a" "h + 24 \<noteq> 0"
  shows "\<exists>self' m'. scratch_deallocate (h + 24) (tz - 24) (self, m) = Inr (self', m') \<and> scr_a self' = a \<and> hdrs_in (scr_state self') (xs @ ys) R \<and>
    scratch_list self' m' (xs @ ys) \<and> same_on m m' (R \<union> data_of ` set (xs @ ys))"
proof -
  let ?p = "load64 m (sh_prev h)" and ?n = "load64 m (sh_next h)" and ?hs = "xs @ ys" and ?s = "scr_state self"
  obtain t where t: "dll (scr_p m) (scr_n m) (ptr_ref (scr_head self)) t (hdr_ids xs @ unat h # hdr_ids ys)"
    using i(2) by (auto simp: scratch_list_def hdr_ids_def)
  have dist: "(h, tz) \<notin> set ?hs" using t by (force simp: dll_def hdr_ids_def)
  have o: "ok ?s (insert (h, tz) (set ?hs \<union> R))" "(h, tz) \<notin> set ?hs \<union> R" using i(1) dist by (auto simp: hdrs_in_def)
  obtain s' m1 where d: "deallocate a h tz (?s, m) = Inr (s', m1)" "ok s' (set ?hs \<union> R)" "same_on m m1 (set ?hs \<union> R)"
    using dealloc_step[OF o] by blast
  have I0: "hdrs_in ?s (xs @ (h, tz) # ys) R" by (rule i(1))
  have I: "hdrs_in s' ?hs R" using i(1) d(2) by (auto simp: hdrs_in_def)
  have sub: "set ?hs \<subseteq> set (xs @ (h, tz) # ys)" by auto
  have old: "load64 m1 (f k) = load64 m (f k)" if "(k, kz) \<in> set ?hs" "f \<in> {sh_prev, sh_next, sh_size}" for k kz f
    using same_in_hdr[OF same_onD[OF d(3)], of k kz] hdr_end[OF I that(1)] that by auto
  obtain pz nz where nb: "?p \<noteq> 0 \<longrightarrow> (?p, pz) \<in> set ?hs" "?n \<noteq> 0 \<longrightarrow> (?n, nz) \<in> set ?hs" using neighbours[OF i(2)] by blast
  obtain self' m' where r: "scratch_relink ?p ?n ?n ?p (self\<lparr>scr_state := s'\<rparr>, m1) = (self', m')" by (cases "scratch_relink ?p ?n ?n ?p (self\<lparr>scr_state := s'\<rparr>, m1)")
  note E = relink_effect[OF I nb r]
  have sz: "24 + (tz - 24) = tz" "load64 m (sh_size h) = tz - 24" using i(2) by (auto simp: scratch_list_def)
  have call: "scratch_deallocate (h + 24) (tz - 24) (self, m) = Inr (self', m')"
    using i(3,4) d(1) sz r by (simp add: scratch_deallocate_def hdr_from_ptr_def SCRATCH_HDR_def Let_def)
  have "dll (scr_p m') (scr_n m') (ptr_ref (scr_head self')) (if scr_n m (unat h) = None then scr_p m (unat h) else t) (hdr_ids xs @ hdr_ids ys)"
  proof (rule dll_unlink[OF t])
    fix z assume "z \<in> set (hdr_ids xs) \<union> set (hdr_ids ys)"
    then obtain k kz where k: "z = unat k" "(k, kz) \<in> set ?hs" by (auto simp: hdr_ids_def)
    then show "scr_p m' z = (if scr_n m (unat h) = Some z then scr_p m (unat h) else scr_p m z)"
        "scr_n m' z = (if scr_p m (unat h) = Some z then scr_n m (unat h) else scr_n m z)"
      using E(2,3)[OF k(2)] old[OF k(2)] by (auto simp: word_eq_iff_unat[symmetric])
  qed (auto simp: E(1))
  moreover have "load64 m' (sh_size k) = kz - 24" "24 \<le> unat kz" if "(k, kz) \<in> set ?hs" for k kz
    using E(4)[OF that] old[OF that] i(2) that by (auto simp: scratch_list_def)
  ultimately have L: "scratch_list self' m' ?hs" by (auto simp: scratch_list_def hdr_ids_def)
  have "same_on m m1 (R \<union> data_of ` set ?hs)"
    using same_on_mono[OF d(3), of R] data_same[OF I subset_refl same_on_mono[OF d(3), of "set ?hs"]] by (simp add: same_on_Un)
  then have "same_on m m' (R \<union> data_of ` set ?hs)" using E(5) by (rule same_on_trans)
  then show ?thesis using call I L E(1) i(3) by auto
qed

text \<open>Changing the size of a block, which may move it.\<close>

lemma realloc_zeroed:
  assumes "ok s (insert (p, sz) L)" "(p, sz) \<notin> L" "tz > 0" "usable tz" "fr p sz tz (s, m) = Inr (q, s', m1)" "q \<noteq> 0"
  shows "\<exists>m2. reallocate a p sz tz (s, m) = Inr (q, s', m2) \<and> ok s' (insert (q, tz) L) \<and> (q, tz) \<notin> L \<and> same_on m m2 L \<and>
    (\<forall>k < min (unat sz) (unat tz). m2 (q + of_nat k) = m (p + of_nat k)) \<and> (\<forall>k. unat sz \<le> k \<and> k < unat tz \<longrightarrow> m2 (q + of_nat k) = 0)"
proof -
  have l: "ok s' (insert (q, tz) L)" "(q, tz) \<notin> L" "same_on m m1 L" "\<forall>k < min (unat sz) (unat tz). m1 (q + of_nat k) = m (p + of_nat k)"
    using law_realloc[OF assms] by auto
  have e: "unat q + unat tz \<le> 2 ^ 64" using ok_block[OF l(1), of q tz] by simp
  show ?thesis
  proof (cases "sz < tz")
    case False
    then show ?thesis using l assms(5,6) by (intro exI[of _ m1]) (auto simp: reallocate_def fn_def impl word_less_nat_alt)
  next
    case True
    then have g: "unat sz < unat tz" by (simp add: word_less_nat_alt)
    have q: "unat (q + sz) = unat q + unat sz" using e g by (subst unat_add_u64) simp_all
    have d: "unat (tz - sz) = unat tz - unat sz" using g by (simp add: unat_sub_u64 word_le_nat_alt)
    let ?m2 = "\<lambda>x. if in_range (q + sz) (unat (tz - sz)) x then 0 else m1 x"
    have r: "in_range (q + sz) (unat (tz - sz)) x \<longleftrightarrow> unat q + unat sz \<le> unat x \<and> unat x < unat q + unat tz" for x
      using in_range_block[of "q + sz" "tz - sz" x] e g by (auto simp: block_def q d)
    have nz: "q + sz \<noteq> 0" using q assms(6) by (metis add_is_0 unat_0 word_eq_iff_unat)
    have c: "reallocate a p sz tz (s, m) = Inr (q, s', ?m2)"
      using assms(5,6) True memset_eq[OF nz, of 0 "tz - sz" m1] by (simp add: reallocate_def fn_def impl cong: if_cong)
    have "same_in m1 ?m2 k kz" if "(k, kz) \<in> L" for k kz
    proof -
      have "block q tz \<inter> block k kz = {}" using ok_apart[OF l(1), of "(q, tz)" "(k, kz)"] l(2) that by auto
      then show ?thesis by (auto simp: same_in_def r block_def)
    qed
    then have s: "same_on m ?m2 L" using l(3) by (auto simp: same_on_def intro: same_in_trans)
    have at: "unat (q + of_nat k) = unat q + k" if "k < unat tz" for k
      using that e unat_lt_u64[of tz] by (subst unat_add_u64) (simp_all add: unat_of_nat_u64)
    have "?m2 (q + of_nat k) = m (p + of_nat k)" if "k < min (unat sz) (unat tz)" for k
      using at[of k] l(4) that by (simp add: r)
    moreover have "?m2 (q + of_nat k) = 0" if "unat sz \<le> k \<and> k < unat tz" for k
      using at[of k] that by (simp add: r)
    ultimately show ?thesis using c l(1,2) s by blast
  qed
qed

lemma reallocate_ok:
  assumes i: "hdrs_in (scr_state self) (xs @ (h, tz) # ys) R" "scratch_list self m (xs @ (h, tz) # ys)" "scr_a self = a" "h + 24 \<noteq> 0"
    and n: "unat sz + 24 < 2 ^ 64" "usable (24 + sz)" "fr h tz (24 + sz) (scr_state self, m) = Inr (q, s', m1)" "q \<noteq> 0"
  shows "\<exists>self' m'. scratch_reallocate (h + 24) (tz - 24) sz (self, m) = Inr (q + 24, self', m') \<and> scr_a self' = a \<and> scr_state self' = s' \<and>
    hdrs_in s' (xs @ (q, 24 + sz) # ys) R \<and> scratch_list self' m' (xs @ (q, 24 + sz) # ys) \<and> same_on m m' (R \<union> data_of ` set (xs @ ys)) \<and>
    (\<forall>k < unat sz. m' (q + 24 + of_nat k) = (if k < unat (tz - 24) then m (h + 24 + of_nat k) else 0))"
proof -
  let ?p = "load64 m (sh_prev h)" and ?n = "load64 m (sh_next h)" and ?hs = "xs @ ys" and ?s = "scr_state self"
  let ?hs' = "xs @ (q, 24 + sz) # ys"
  have u: "unat (24 + sz) = 24 + unat sz" using n(1) by (subst unat_add_u64) simp_all
  then have pos: "(24 + sz) > 0" by (simp add: word_less_nat_alt)
  obtain t where t: "dll (scr_p m) (scr_n m) (ptr_ref (scr_head self)) t (hdr_ids xs @ unat h # hdr_ids ys)"
    using i(2) by (auto simp: scratch_list_def hdr_ids_def)
  have dist: "(h, tz) \<notin> set ?hs" using t by (force simp: dll_def hdr_ids_def)
  have o: "ok ?s (insert (h, tz) (set ?hs \<union> R))" "(h, tz) \<notin> set ?hs \<union> R" using i(1) dist by (auto simp: hdrs_in_def)
  obtain m2 where d: "reallocate a h tz (24 + sz) (?s, m) = Inr (q, s', m2)" "ok s' (insert (q, 24 + sz) (set ?hs \<union> R))" "(q, 24 + sz) \<notin> set ?hs \<union> R"
    "same_on m m2 (set ?hs \<union> R)" "\<forall>k < min (unat tz) (unat (24 + sz)). m2 (q + of_nat k) = m (h + of_nat k)"
    "\<forall>k. unat tz \<le> k \<and> k < unat (24 + sz) \<longrightarrow> m2 (q + of_nat k) = 0"
    using realloc_zeroed[OF o pos n(2,3,4)] by blast
  have I: "hdrs_in s' ?hs' R" using i(1) d(2,3) u by (auto simp: hdrs_in_def)
  have qin: "(q, 24 + sz) \<in> set ?hs'" by simp
  have tz: "24 \<le> unat tz" "24 + (tz - 24) = tz" "load64 m (sh_size h) = tz - 24" using i(2) by (auto simp: scratch_list_def)
  have sub: "(k, kz) \<in> set ?hs \<Longrightarrow> (k, kz) \<in> set ?hs'" for k kz by auto
  have q: "k \<noteq> q" if "(k, kz) \<in> set ?hs" for k kz
    using block_unique[OF d(2), of q kz "24 + sz"] that d(3) hdr_end[OF I sub[OF that]] hdr_end[OF I qin] by auto
  have old: "load64 m2 (f k) = load64 m (f k)" if "(k, kz) \<in> set ?hs" "f \<in> {sh_prev, sh_next, sh_size}" for k kz f
    using same_in_hdr[OF same_onD[OF d(4)], of k kz] hdr_end[OF I sub[OF that(1)]] that by auto
  have moved: "load64 m2 (sh_prev q) = ?p" "load64 m2 (sh_next q) = ?n"
  proof -
    have "load64 m2 (q + of_nat j) = load64 m (h + of_nat j)" if "j + 8 \<le> 24" for j
    proof -
      have "m2 (q + of_nat (j + k)) = m (h + of_nat (j + k))" if "k < 8" for k
        using d(5)[rule_format, of "j + k"] that \<open>j + 8 \<le> 24\<close> tz(1) u by simp
      then have "map (\<lambda>k. m2 (q + of_nat j + of_nat k)) [0..<8] = map (\<lambda>k. m (h + of_nat j + of_nat k)) [0..<8]" by (simp add: add.assoc)
      then show ?thesis unfolding load64_def by (rule arg_cong)
    qed
    from this[of 0] this[of 8] show "load64 m2 (sh_prev q) = ?p" "load64 m2 (sh_next q) = ?n" by (simp_all add: sh_prev_def sh_next_def)
  qed
  let ?m3 = "store64 (sh_size q) sz m2"
  obtain pz nz where nbx: "?p \<noteq> 0 \<longrightarrow> (?p, pz) \<in> set ?hs" "?n \<noteq> 0 \<longrightarrow> (?n, nz) \<in> set ?hs" using neighbours[OF i(2)] by blast
  then have nb: "?p \<noteq> 0 \<longrightarrow> (?p, pz) \<in> set ?hs'" "?n \<noteq> 0 \<longrightarrow> (?n, nz) \<in> set ?hs'" by auto
  obtain self' m' where r: "scratch_relink ?p ?n q q (self\<lparr>scr_state := s'\<rparr>, ?m3) = (self', m')"
    by (cases "scratch_relink ?p ?n q q (self\<lparr>scr_state := s'\<rparr>, ?m3)")
  note E = relink_effect[OF I nb r]
  have call: "scratch_reallocate (h + 24) (tz - 24) sz (self, m) = Inr (q + 24, self', m')"
    using i(3,4) d(1) tz(2,3) r n(4) by (simp add: scratch_reallocate_def hdr_from_ptr_def SCRATCH_HDR_def sh_data_def Let_def)
  have m3: "load64 ?m3 (f k) = (if k = q \<and> f = sh_size then sz else load64 m2 (f k))"
    if "(k, kz) \<in> set ?hs'" "f = sh_prev \<or> f = sh_next \<or> f = sh_size" for k kz f
    using hdr_store[OF I qin that(1), of sh_size f sz m2] that(2) by (auto simp: load64_store64_same)
  have Lq: "load64 m' (sh_prev q) = ?p" "load64 m' (sh_next q) = ?n" "load64 m' (sh_size q) = sz"
    using E(2-4)[OF qin] m3[OF qin] moved nbx q by (auto simp: fun_eq_iff)
  have Lk: "load64 m' (sh_next k) = (if ?p \<noteq> 0 \<and> k = ?p then q else load64 m (sh_next k))"
    "load64 m' (sh_prev k) = (if ?n \<noteq> 0 \<and> k = ?n then q else load64 m (sh_prev k))" "load64 m' (sh_size k) = load64 m (sh_size k)"
    if "(k, kz) \<in> set ?hs" for k kz
    using E(2-4)[OF sub[OF that]] m3[OF sub[OF that]] old[OF that] q[OF that] by auto
  have "dll (scr_p m') (scr_n m') (ptr_ref (scr_head self')) (if scr_n m (unat h) = None then Some (unat q) else t) (hdr_ids xs @ unat q # hdr_ids ys)"
  proof (rule dll_replace[OF t])
    show "unat q \<notin> set (hdr_ids xs) \<union> set (hdr_ids ys)" using q by (force simp: hdr_ids_def word_eq_iff_unat[symmetric])
    show "scr_p m' (unat q) = scr_p m (unat h)" "scr_n m' (unat q) = scr_n m (unat h)" by (simp_all add: Lq)
    show "ptr_ref (scr_head self') = (if scr_p m (unat h) = None then Some (unat q) else ptr_ref (scr_head self))"
      using n(4) by (simp add: E(1) ptr_ref_def)
  next
    fix z assume "z \<in> set (hdr_ids xs) \<union> set (hdr_ids ys)"
    then obtain k kz where k: "z = unat k" "(k, kz) \<in> set ?hs" by (auto simp: hdr_ids_def)
    then show "scr_p m' z = (if scr_n m (unat h) = Some z then Some (unat q) else scr_p m z)"
        "scr_n m' z = (if scr_p m (unat h) = Some z then Some (unat q) else scr_n m z)"
      using Lk[OF k(2)] n(4) by (auto simp: word_eq_iff_unat[symmetric])
  qed simp
  moreover have "load64 m' (sh_size k) = kz - 24" "24 \<le> unat kz" if "(k, kz) \<in> set ?hs" for k kz
    using Lk(3)[OF that] i(2) that by (auto simp: scratch_list_def)
  ultimately have L: "scratch_list self' m' ?hs'" using Lq(3) u by (auto simp: scratch_list_def hdr_ids_def)
  have k3: "same_on m2 m' (R \<union> data_of ` set ?hs')"
    using same_on_trans[OF hdr_keeps[OF I qin, where f = sh_size and v = sz and m = m2] E(5)] by simp
  have "set ?hs \<subseteq> set ?hs'" by auto
  then have "same_on m m2 (R \<union> data_of ` set ?hs)"
    using same_on_mono[OF d(4), of R] data_same[OF I, of ?hs] same_on_mono[OF d(4), of "set ?hs"] by (simp add: same_on_Un)
  moreover have "same_on m2 m' (R \<union> data_of ` set ?hs)" by (rule same_on_mono[OF k3]) auto
  ultimately have keep: "same_on m m' (R \<union> data_of ` set ?hs)" by (rule same_on_trans)
  have data: "m' (q + 24 + of_nat k) = (if k < unat (tz - 24) then m (h + 24 + of_nat k) else 0)" if k: "k < unat sz" for k
  proof -
    have e: "unat q + unat (24 + sz) \<le> 2 ^ 64" using hdr_end[OF I qin] by simp
    have w: "unat (of_nat (24 + k) :: u64) = 24 + k" using e u k by (intro unat_of_nat_u64) simp
    have "unat (q + of_nat (24 + k)) = unat q + (24 + k)" using unat_add_u64[of q "of_nat (24 + k)"] w e u k by simp
    moreover have "block (q + 24) sz = {unat q + 24 ..< unat q + unat (24 + sz)}" using data_block[of "24 + sz" q] e u by simp
    ultimately have "unat (q + of_nat (24 + k)) \<in> block (q + 24) sz" using k u by simp
    moreover have "same_in m2 m' (q + 24) sz" using same_onD[OF k3, of "q + 24" sz] by (force simp: data_of_def)
    ultimately have "m' (q + of_nat (24 + k)) = m2 (q + of_nat (24 + k))" by (simp only: same_in_def)
    moreover have "unat (tz - 24) = unat tz - 24" using tz(1) unat_sub_u64[of 24 tz] by (simp add: word_le_nat_alt)
    ultimately show ?thesis using d(5)[rule_format, of "24 + k"] d(6)[rule_format, of "24 + k"] k u by (auto simp: add.assoc)
  qed
  show ?thesis using call E(1) i(3) I L keep data by (intro exI[of _ self'] exI[of _ m']) simp
qed

lemma deinit_ok:
  assumes "ok (scr_state self) (set hs \<union> R)" "set hs \<inter> R = {}" "scratch_list self m hs" "scr_a self = a"
  shows "\<exists>self' m'. scratch_deinit (self, m) = Some (Inr (self', m')) \<and> scr_head self' = 0 \<and> ok (scr_state self') R \<and> same_on m m' R"
proof -
  obtain t where t: "dll (scr_p m) (scr_n m) (ptr_ref (scr_head self)) t (hdr_ids hs)" using assms(3) by (auto simp: scratch_list_def)
  have "distinct hs" using t distinct_map[of "\<lambda>(h, sz). unat h" hs] by (simp add: dll_def hdr_ids_def)
  then obtain s' m' where "scratch_deinit_loop a (scr_head self) (scr_state self, m) = Some (Inr (s', m'))" "ok s' R" "same_on m m' R"
    using deinit_loop[OF assms(1,2), of m None "scr_head self"] t assms(3) by (auto simp: scratch_list_def dll_def)
  then show ?thesis by (simp add: scratch_deinit_def assms(4))
qed

end

subsection \<open>The arena keeps the contract\<close>

text \<open>The arena of ulibc, which has no aligned allocation. It never takes a block back.\<close>

definition user_arena_allocator :: "arena allocator" where
  "user_arena_allocator = \<lparr>al_allocate = Some arena_allocate, al_allocate_aligned = None,
     al_reallocate = Some arena_reallocate, al_deallocate = Some arena_deallocate\<rparr>"

definition arena_live :: "arena \<Rightarrow> (uptr \<times> usize) set \<Rightarrow> bool" where
  "arena_live r L \<longleftrightarrow> arena_inv r \<and> (\<forall>(p, sz) \<in> L. p \<noteq> 0 \<and> unat p + unat sz \<le> 2 ^ 64 \<and> block p sz \<subseteq> arena_used r) \<and>
     (\<forall>b \<in> L. \<forall>c \<in> L. b \<noteq> c \<longrightarrow> block (fst b) (snd b) \<inter> block (fst c) (snd c) = {})"

lemma arena_live_add:
  assumes "arena_live r L" "sz > 0" "unat sz \<le> 2 ^ 64 - 16" "arena_allocate sz (r, m) = Inr (p, r', m')" "p \<noteq> 0"
  shows "arena_live r' (insert (p, sz) L)" "(p, sz) \<notin> L" "m' = m" "block p sz \<inter> arena_used r = {}" "unat p + unat sz \<le> 2 ^ 64"
proof -
  have f: "arena_inv r'" "m' = m" "block p sz \<inter> arena_used r = {}" "arena_used r \<union> block p sz \<subseteq> arena_used r'" "unat p + unat sz \<le> 2 ^ 64"
    using arena.fresh_block[OF _ assms(2,3,4)] assms(1) by (auto simp: arena_live_def)
  show "m' = m" "block p sz \<inter> arena_used r = {}" "unat p + unat sz \<le> 2 ^ 64" by (fact f)+
  have ne: "block p sz \<noteq> {}" using assms(2) by (auto simp: block_def word_gt_0 unat_gt_0)
  have d: "block (fst c) (snd c) \<inter> block p sz = {}" if "c \<in> L" for c
  proof -
    have "block (fst c) (snd c) \<subseteq> arena_used r" using assms(1) that by (cases c) (auto simp: arena_live_def)
    then show ?thesis using f(3) by blast
  qed
  show "(p, sz) \<notin> L" using d[of "(p, sz)"] ne by auto
  have "\<forall>(q, tz) \<in> insert (p, sz) L. q \<noteq> 0 \<and> unat q + unat tz \<le> 2 ^ 64 \<and> block q tz \<subseteq> arena_used r'"
  proof -
    have "q \<noteq> 0 \<and> unat q + unat tz \<le> 2 ^ 64 \<and> block q tz \<subseteq> arena_used r" if "(q, tz) \<in> L" for q tz
      using assms(1) that by (auto simp: arena_live_def)
    then show ?thesis using assms(5) f(4,5) by auto
  qed
  moreover have "\<forall>b \<in> insert (p, sz) L. \<forall>c \<in> insert (p, sz) L. b \<noteq> c \<longrightarrow> block (fst b) (snd b) \<inter> block (fst c) (snd c) = {}"
    using assms(1) d by (auto simp: arena_live_def)
  ultimately show "arena_live r' (insert (p, sz) L)" using f(1) by (simp add: arena_live_def)
qed

interpretation sa: block_alloc user_arena_allocator arena_allocate arena_reallocate arena_deallocate arena_live "\<lambda>sz. unat sz \<le> 2 ^ 64 - 16"
proof
  show "al_allocate user_arena_allocator = Some arena_allocate" "al_reallocate user_arena_allocator = Some arena_reallocate"
    "al_deallocate user_arena_allocator = Some arena_deallocate" by (simp_all add: user_arena_allocator_def)
next
  fix r L p sz assume "arena_live r L" "(p, sz) \<in> L"
  then show "p \<noteq> 0 \<and> unat p + unat sz \<le> 2 ^ 64" by (auto simp: arena_live_def)
next
  fix r L b c assume "arena_live r L" "b \<in> L" "c \<in> L" "b \<noteq> c"
  then show "block (fst b) (snd b) \<inter> block (fst c) (snd c) = {}" by (simp add: arena_live_def)
next
  fix r L sz m p r' m'
  assume "arena_live r L" "(0 :: usize) < sz" "unat sz \<le> 2 ^ 64 - 16" "arena_allocate sz (r, m) = Inr (p, r', m')" "p \<noteq> 0"
  from arena_live_add[OF this] show "arena_live r' (insert (p, sz) L) \<and> (p, sz) \<notin> L \<and> same_on m m' L" by simp
next
  fix r p sz L m assume "arena_live r (insert (p, sz) L)" "(p, sz) \<notin> L"
  then show "\<exists>r' m'. arena_deallocate p sz (r, m) = Inr (r', m') \<and> arena_live r' L \<and> same_on m m' L"
    by (auto simp: arena_deallocate_def arena_live_def)
next
  fix r p sz L tz m q r' m'
  assume h: "arena_live r (insert (p, sz) L)" "(p, sz) \<notin> L" "(0 :: usize) < tz" "unat tz \<le> 2 ^ 64 - 16"
    "arena_reallocate p sz tz (r, m) = Inr (q, r', m')" "q \<noteq> 0"
  have p: "p \<noteq> 0" "unat p + unat sz \<le> 2 ^ 64" "block p sz \<subseteq> arena_used r" using h(1) by (auto simp: arena_live_def)
  let ?n = "if sz < tz then sz else tz"
  have n: "unat ?n = min (unat sz) (unat tz)" by (simp add: word_less_nat_alt)
  obtain m1 where al: "arena_allocate tz (r, m) = Inr (q, r', m1)" "memcpy q p ?n m1 = Inr (q, m')"
    using h(3,5) p(1) by (auto simp: arena_reallocate_def outcome_simps memcpy_def split: if_splits)
  note A = arena_live_add[OF h(1,3,4) al(1) h(6)]
  have far: "p + of_nat j \<noteq> q + of_nat i" if "i < unat ?n" "j < unat ?n" for i j
  proof -
    have "unat (p + of_nat j) = unat p + j" "unat (q + of_nat i) = unat q + i"
      using that n p(2) A(5) by (auto simp: unat_add_u64 unat_of_nat_u64)
    moreover have "unat p + j \<in> block p sz" "unat q + i \<in> block q tz" using that n by (simp_all add: block_def)
    ultimately show ?thesis using A(4) p(3) by (metis IntI empty_iff subsetD)
  qed
  have c: "m' = copied m q p (unat ?n)" using memcpy_eq[of q p ?n m1] h(6) p(1) far al(2) A(3) by simp
  show "arena_live r' (insert (q, tz) L) \<and> (q, tz) \<notin> L \<and> same_on m m' L \<and> (\<forall>k < min (unat sz) (unat tz). m' (q + of_nat k) = m (p + of_nat k))"
  proof (intro conjI)
    show "arena_live r' (insert (q, tz) L)"
      using A(1) unfolding arena_live_def by blast
    show "(q, tz) \<notin> L" using A(2) by simp
    show "same_on m m' L" unfolding same_on_def same_in_def
    proof (intro ballI, clarify)
      fix k kz and x :: uptr assume k: "(k, kz) \<in> L" "unat x \<in> block k kz"
      have "unat x \<in> arena_used r" using h(1) k by (auto simp: arena_live_def)
      then have "unat x \<notin> block q tz" using A(4) by blast
      then have "\<not> in_range q (unat ?n) x" using in_range_block[of q tz x] A(5) n by (auto simp: in_range_def)
      then show "m' x = m x" by (simp add: c copied_def)
    qed
    show "\<forall>k < min (unat sz) (unat tz). m' (q + of_nat k) = m (p + of_nat k)"
    proof (intro allI impI)
      fix k assume "k < min (unat sz) (unat tz)"
      then have "unat (of_nat k :: u64) < unat ?n" using n unat_lt_u64[of sz] by (simp add: unat_of_nat_u64)
      then show "m' (q + of_nat k) = m (p + of_nat k)" by (simp add: c copied_def in_range_def)
    qed
  qed
qed

subsection \<open>The operations, for any allocator below\<close>

text \<open>
  The scratch allocator \<open>st\<close> over \<open>a\<close> has the live blocks \<open>hs\<close>, newest first; \<open>R\<close> are the blocks \<open>a\<close> has handed out to others.
\<close>

definition scr_holds :: "'s allocator \<Rightarrow> ('s \<Rightarrow> (uptr \<times> usize) set \<Rightarrow> bool) \<Rightarrow> (uptr \<times> usize) list \<Rightarrow> (uptr \<times> usize) set \<Rightarrow> 's scratch \<times> memory \<Rightarrow> bool" where
  "scr_holds a ok hs R st \<longleftrightarrow> scr_a (fst st) = a \<and> ok (scr_state (fst st)) (set hs \<union> R) \<and> set hs \<inter> R = {} \<and> scratch_list (fst st) (snd st) hs"

lemma scr_holds_hdrs:
  assumes "block_alloc a fa fr fd ok usable"
  shows "scr_holds a ok hs R (self, m) \<longleftrightarrow> scr_a self = a \<and> block_alloc.hdrs_in ok (scr_state self) hs R \<and> scratch_list self m hs"
  by (auto simp: scr_holds_def block_alloc.hdrs_in_def[OF assms] scratch_list_def)

lemma scratch_allocate_ok:
  assumes "block_alloc a fa fr fd ok usable" "scr_holds a ok hs R (self, m)"
    and "unat sz + 24 < 2 ^ 64" "usable (24 + sz)" "fa (24 + sz) (scr_state self, m) = Inr (h, s', m1)" "h \<noteq> 0"
  shows "\<exists>st'. scratch_allocate sz (self, m) = Inr (h + 24, st') \<and> scr_state (fst st') = s' \<and> scr_holds a ok ((h, 24 + sz) # hs) R st' \<and>
    same_on m (snd st') (R \<union> data_of ` set hs) \<and> (\<forall>x. unat x \<in> block (h + 24) sz \<longrightarrow> snd st' x = 0)"
proof -
  have i: "block_alloc.hdrs_in ok (scr_state self) hs R" "scratch_list self m hs" "scr_a self = a" using assms(2) by (simp_all add: scr_holds_hdrs[OF assms(1)])
  from block_alloc.allocate_ok[OF assms(1) i assms(3-6)] obtain m' where
    "scratch_allocate sz (self, m) = Inr (h + 24, self\<lparr>scr_state := s', scr_head := h\<rparr>, m')"
    "block_alloc.hdrs_in ok s' ((h, 24 + sz) # hs) R" "scratch_list (self\<lparr>scr_state := s', scr_head := h\<rparr>) m' ((h, 24 + sz) # hs)"
    "same_on m m' (R \<union> data_of ` set hs)" "\<forall>x. unat x \<in> block (h + 24) sz \<longrightarrow> m' x = 0"
    unfolding Let_def by blast
  then show ?thesis using i(3) by (intro exI[of _ "(self\<lparr>scr_state := s', scr_head := h\<rparr>, m')"]) (simp add: scr_holds_hdrs[OF assms(1)])
qed

lemma scratch_deallocate_ok:
  assumes "block_alloc a fa fr fd ok usable" "scr_holds a ok (xs @ (h, tz) # ys) R (self, m)" "h + 24 \<noteq> 0"
  shows "\<exists>st'. scratch_deallocate (h + 24) (tz - 24) (self, m) = Inr st' \<and> scr_holds a ok (xs @ ys) R st' \<and>
    same_on m (snd st') (R \<union> data_of ` set (xs @ ys))"
proof -
  have i: "block_alloc.hdrs_in ok (scr_state self) (xs @ (h, tz) # ys) R" "scratch_list self m (xs @ (h, tz) # ys)" "scr_a self = a"
    using assms(2) by (simp_all add: scr_holds_hdrs[OF assms(1)])
  from block_alloc.deallocate_ok[OF assms(1) i assms(3)] obtain self' m' where
    "scratch_deallocate (h + 24) (tz - 24) (self, m) = Inr (self', m')" "scr_a self' = a" "block_alloc.hdrs_in ok (scr_state self') (xs @ ys) R"
    "scratch_list self' m' (xs @ ys)" "same_on m m' (R \<union> data_of ` set (xs @ ys))" by blast
  then show ?thesis by (intro exI[of _ "(self', m')"]) (simp add: scr_holds_hdrs[OF assms(1)])
qed

text \<open>
  C40: Changing the size of a live block, wherever the allocator below moves it, leaves it at its place in the list of live
  blocks, keeps its bytes up to the smaller size, fills the rest with zeros and leaves the bytes of every other block.
\<close>

theorem scratch_reallocate_keeps:
  assumes "block_alloc a fa fr fd ok usable" "scr_holds a ok (xs @ (h, tz) # ys) R (self, m)" "h + 24 \<noteq> 0"
    and "unat sz + 24 < 2 ^ 64" "usable (24 + sz)" "fr h tz (24 + sz) (scr_state self, m) = Inr (q, s', m1)" "q \<noteq> 0"
  shows "\<exists>st'. scratch_reallocate (h + 24) (tz - 24) sz (self, m) = Inr (q + 24, st') \<and> scr_holds a ok (xs @ (q, 24 + sz) # ys) R st' \<and>
    same_on m (snd st') (R \<union> data_of ` set (xs @ ys)) \<and>
    (\<forall>k < unat sz. snd st' (q + 24 + of_nat k) = (if k < unat (tz - 24) then m (h + 24 + of_nat k) else 0))"
proof -
  have i: "block_alloc.hdrs_in ok (scr_state self) (xs @ (h, tz) # ys) R" "scratch_list self m (xs @ (h, tz) # ys)" "scr_a self = a"
    using assms(2) by (simp_all add: scr_holds_hdrs[OF assms(1)])
  from block_alloc.reallocate_ok[OF assms(1) i assms(3-7)] obtain self' m' where
    "scratch_reallocate (h + 24) (tz - 24) sz (self, m) = Inr (q + 24, self', m')" "scr_a self' = a" "scr_state self' = s'"
    "block_alloc.hdrs_in ok s' (xs @ (q, 24 + sz) # ys) R" "scratch_list self' m' (xs @ (q, 24 + sz) # ys)" "same_on m m' (R \<union> data_of ` set (xs @ ys))"
    "\<forall>k < unat sz. m' (q + 24 + of_nat k) = (if k < unat (tz - 24) then m (h + 24 + of_nat k) else 0)" by blast
  then show ?thesis by (intro exI[of _ "(self', m')"]) (simp add: scr_holds_hdrs[OF assms(1)])
qed

text \<open>
  C39: Nothing is lost and nothing is given back twice: \<^verbatim>\<open>scratch_deinit\<close> returns, afterwards the allocator below has exactly the blocks it had handed out to others,
  and their bytes are as before.
\<close>

theorem scratch_deinit_frees_all:
  assumes "block_alloc a fa fr fd ok usable" "scr_holds a ok hs R (self, m)"
  shows "\<exists>self' m'. scratch_deinit (self, m) = Some (Inr (self', m')) \<and> scr_head self' = 0 \<and> ok (scr_state self') R \<and> same_on m m' R"
  using block_alloc.deinit_ok[OF assms(1), of self hs R m] assms(2) by (simp add: scr_holds_def)

subsection \<open>Over an arena\<close>

text \<open>An arena of a page at 1 MB, and a scratch allocator with one block of 40 bytes that is then made 8 bytes long.\<close>

definition arena_demo :: arena where
  "arena_demo = \<lparr>ar_memory = \<lparr>span_data = 0x100000, span_size = 0x1000\<rparr>, ar_offset = 0\<rparr>"

definition scratch_demo :: "arena scratch" where
  "scratch_demo = scratch_init user_arena_allocator \<lparr>scr_a = user_arena_allocator, scr_state = arena_demo, scr_head = 7\<rparr>"

definition dirty :: memory where "dirty = (\<lambda>_. 0xAA)"

lemma arena_demo_alloc: "arena_allocate 64 (arena_demo, m) = Inr (0x100000, arena_demo\<lparr>ar_offset := 64\<rparr>, m)"
  by (simp add: arena_allocate_def arena_demo_def align_size_up_def is_alignment_valid_def)

lemma scratch_demo_holds: "scr_holds user_arena_allocator arena_live [] {} (scratch_demo, m)"
  by (simp add: scr_holds_def scratch_demo_def scratch_init_def scratch_list_def hdr_ids_def arena_live_def arena_inv_def arena_demo_def)

lemma scratch_demo_block:
  "\<exists>self m. scratch_allocate 40 (scratch_demo, dirty) = Inr (0x100018, self, m) \<and>
    scr_holds user_arena_allocator arena_live [(0x100000, 64)] {} (self, m) \<and> scr_state self = arena_demo\<lparr>ar_offset := 64\<rparr> \<and>
    (\<forall>x. unat x \<in> block 0x100018 40 \<longrightarrow> m x = 0)"
proof -
  have a: "arena_allocate (24 + 40) (scr_state scratch_demo, dirty) = Inr (0x100000, arena_demo\<lparr>ar_offset := 64\<rparr>, dirty)"
    using arena_demo_alloc by (simp add: scratch_demo_def scratch_init_def)
  from scratch_allocate_ok[OF sa.block_alloc_axioms scratch_demo_holds _ _ a] show ?thesis
    by auto
qed

theorem scratch_deinit_frees_all_witness:
  "\<exists>self m self' m'. scratch_allocate 40 (scratch_demo, dirty) = Inr (0x100018, self, m) \<and> scr_head self \<noteq> 0 \<and>
    scratch_deinit (self, m) = Some (Inr (self', m')) \<and> scr_head self' = 0"
proof -
  obtain self m where s: "scratch_allocate 40 (scratch_demo, dirty) = Inr (0x100018, self, m)"
    "scr_holds user_arena_allocator arena_live [(0x100000, 64)] {} (self, m)" using scratch_demo_block by blast
  moreover have "scr_head self \<noteq> 0" using s(2) sa.scratch_list_head[of self m "[(0x100000, 64)]"] by (auto simp: scr_holds_def hdr_ids_def)
  ultimately show ?thesis using scratch_deinit_frees_all[OF sa.block_alloc_axioms s(2)] by blast
qed

theorem scratch_reallocate_keeps_witness:
  "\<exists>st st'. scratch_allocate 40 (scratch_demo, dirty) = Inr (0x100018, st) \<and> scratch_reallocate 0x100018 40 8 st = Inr (0x100058, st') \<and>
    scr_holds user_arena_allocator arena_live [(0x100040, 32)] {} st' \<and> snd st' 0x100058 = 0"
proof -
  obtain self m where s: "scratch_allocate 40 (scratch_demo, dirty) = Inr (0x100018, self, m)"
    "scr_holds user_arena_allocator arena_live ([] @ (0x100000, 64) # []) {} (self, m)" "scr_state self = arena_demo\<lparr>ar_offset := 64\<rparr>"
    "\<forall>x. unat x \<in> block 0x100018 40 \<longrightarrow> m x = 0" using scratch_demo_block by auto
  have al: "arena_allocate 32 (arena_demo\<lparr>ar_offset := 64\<rparr>, m) = Inr (0x100040, arena_demo\<lparr>ar_offset := 96\<rparr>, m)"
    by (simp add: arena_allocate_def arena_demo_def align_size_up_def is_alignment_valid_def)
  have "(0x100000 + of_nat j :: uptr) \<noteq> 0x100040 + of_nat i" if "i < 32" "j < 32" for i j
  proof -
    have u: "unat (0x100000 + of_nat j :: uptr) = 0x100000 + j" "unat (0x100040 + of_nat i :: uptr) = 0x100040 + i"
      using that by (simp_all add: unat_add_u64 unat_of_nat_u64)
    have "0x100000 + j \<noteq> 0x100040 + i" using that by simp
    then show ?thesis using u by metis
  qed
  then have "memcpy 0x100040 0x100000 32 m = Inr (0x100040, copied m 0x100040 0x100000 32)" using memcpy_eq[of "0x100040" "0x100000" 32 m] by simp
  then have r: "arena_reallocate 0x100000 64 (24 + 8) (scr_state self, m) = Inr (0x100040, arena_demo\<lparr>ar_offset := 96\<rparr>, copied m 0x100040 0x100000 32)"
    by (simp add: arena_reallocate_def s(3) al)
  obtain st' where st': "scratch_reallocate 0x100018 40 8 (self, m) = Inr (0x100058, st')" "scr_holds user_arena_allocator arena_live [(0x100040, 32)] {} st'"
    "\<forall>k < 8. snd st' (0x100058 + of_nat k) = m (0x100018 + of_nat k)"
    using scratch_reallocate_keeps[OF sa.block_alloc_axioms s(2) _ _ _ r] by auto
  from st'(3)[rule_format, of 0] s(4) have "snd st' 0x100058 = 0" by (simp add: block_def)
  then show ?thesis using s(1) st'(1,2) by blast
qed

end
