(* ===== verification/Boot.thy ===== *)
theory Boot
  imports Mp Segments Pic Acpi Heap Scheduler Syscall
begin

section \<open>The order of the boot (kernel/main.c)\<close>

text \<open>
  What the bootstrap CPU does before the first task, and what every other CPU does from \<^verbatim>\<open>ap_start\<close> to its idle loop. The state adds the
  static variables of the heap and of the firmware tables, the segment tables of the per-CPU data, and the registers of the running CPU
  that name tables. The segment functions find the per-CPU data through the segment base: NULL is no data, the address of an element is this
  element, and another address is an error. What the other CPUs do while \<^verbatim>\<open>bootstrap\<close> waits is the list of \<open>syncpoint_wait\<close>. Addresses
  of the program and the responses of the boot loader and of the hardware are the record \<open>boot_env\<close>. Interrupts that arrive
  after \<^verbatim>\<open>sti\<close> are not part of these functions.
\<close>

subsection \<open>Data\<close>

record bootsys = mpsys +
  bs_heap :: heap
  bs_sdt :: uptr
  bs_gdts :: "gdt_gate list list"
  bs_gdtr :: "u16 \<times> u64"
  bs_tr :: u16
  bs_idtr :: "u16 \<times> u64"
  bs_if :: bool

record boot_env =
  be_dev :: io_device
  be_stubs :: stub_syms
  be_code :: code_syms
  be_acpi :: "acpi_response option"
  be_idt_gates :: u64
  be_gdt_bootstrap :: u64
  be_syscall_stub :: u64
  be_kernel_end :: u64

text \<open>Where the tables are in the per-CPU data, and the number of \<^verbatim>\<open>ap_start\<close> as a function.\<close>

definition PERCPU_GDT :: u64 where "PERCPU_GDT = 160"
definition PERCPU_TSS :: u64 where "PERCPU_TSS = 248"
definition AP_START :: nat where "AP_START = 2"

subsection \<open>The segment functions on the whole state\<close>

definition seg_view :: "cpu_segs option \<Rightarrow> 'a bootsys_scheme \<Rightarrow> seg_state" where
  "seg_view c s = \<lparr>sg_percpu = c, gdtr_limit = fst (bs_gdtr s), gdtr_base = snd (bs_gdtr s), task_reg = bs_tr s\<rparr>"

definition seg_regs :: "seg_state \<Rightarrow> 'a bootsys_scheme \<Rightarrow> 'a bootsys_scheme" where
  "seg_regs g s = s\<lparr>bs_gdtr := (gdtr_limit g, gdtr_base g), bs_tr := task_reg g\<rparr>"

definition cpu_seg :: "nat \<Rightarrow> 'a bootsys_scheme \<Rightarrow> cpu_segs" where
  "cpu_seg j s = \<lparr>cs_gdt = bs_gdts s ! j, cs_gdt_addr = item_addr (cpus_items s) j + PERCPU_GDT,
     cs_tss_addr = item_addr (cpus_items s) j + PERCPU_TSS\<rparr>"

definition on_segs :: "(seg_state \<Rightarrow> seg_state outcome) \<Rightarrow> 'a bootsys_scheme \<Rightarrow> 'a bootsys_scheme outcome" where
  "on_segs f s =
     (let seg = percpu_get_segment (cpu_msrs s) in
      if seg = 0 then rbind (f (seg_view None s)) (\<lambda>g. Inr (seg_regs g s))
      else (case item_index (cpus_items s) (length (cpus s)) seg of
          None \<Rightarrow> Inl OutOfBounds
        | Some j \<Rightarrow> rbind (f (seg_view (Some (cpu_seg j s)) s)) (\<lambda>g.
            Inr (seg_regs g (case sg_percpu g of None \<Rightarrow> s | Some c \<Rightarrow> s\<lparr>bs_gdts := (bs_gdts s)[j := cs_gdt c]\<rparr>)))))"

subsection \<open>Static variables\<close>

definition init_static_globals :: "boot_env \<Rightarrow> 'a bootsys_scheme \<Rightarrow> 'a bootsys_scheme outcome" where
  "init_static_globals e s =
     (let s = s\<lparr>log_lock := klogger_init (log_lock s)\<rparr> in
      rbind (idt_init (be_stubs e) (idt_gates s)) (\<lambda>gates.
      let s = isr_init (s\<lparr>idt_gates := gates\<rparr>); s = irq_init s; s = exc_init s in
      rbind (on_km pmm_init s) (\<lambda>s.
      let s = s\<lparr>km := vmm_init (km s)\<rparr>; s = s\<lparr>bs_heap := heap_init (bs_heap s)\<rparr> in
      rbind (mp_init s) (\<lambda>s.
      let s = seg_regs (gdt_init (be_gdt_bootstrap e) (seg_view None s)) s in
      Inr (scheduler_init s)))))"

subsection \<open>The other CPUs\<close>

definition ap_start :: "boot_env \<Rightarrow> ('a bootsys_ext mpsys_ext isys_ext ksys_ext) release_fn \<Rightarrow> 'a bootsys_scheme \<Rightarrow> 'a bootsys_scheme outcome" where
  "ap_start e rel s =
     (let s = s\<lparr>bs_idtr := idt_load (be_idt_gates e) (bs_idtr s)\<rparr>; s = s\<lparr>io := pic_load (be_dev e) (io s)\<rparr> in
      rbind (on_segs (\<lambda>g. Inr (gdt_load g)) s) (\<lambda>s.
      rbind (on_segs tss_load s) (\<lambda>s.
      rbind (lapic_configure_timer (be_stubs e) s) (\<lambda>s.
      rbind (scheduler_load (be_code e) rel s) (\<lambda>s.
      let s = s\<lparr>cpu_msrs := syscall_load (be_syscall_stub e) (cpu_msrs s)\<rparr>; s = s\<lparr>bs_if := True\<rparr> in
      rbind (syncpoint_notify (mp_get_syncpoint s)) (\<lambda>sync. Inr (s\<lparr>current_syncpoint := sync\<rparr>)))))))"

subsection \<open>The bootstrap CPU\<close>

text \<open>\<^verbatim>\<open>bootstrap\<close> up to the interrupt controller, up to \<^verbatim>\<open>syscall_load\<close>, and from \<^verbatim>\<open>sti\<close> on.\<close>

definition bootstrap_memory :: "boot_env \<Rightarrow> 'a bootsys_scheme \<Rightarrow> 'a bootsys_scheme outcome" where
  "bootstrap_memory e s =
     (let s = s\<lparr>bs_idtr := idt_load (be_idt_gates e) (bs_idtr s)\<rparr>; s = s\<lparr>io := pic_load (be_dev e) (io s)\<rparr> in
      rbind (on_km pmm_load s) (\<lambda>s.
      rbind (check (paging_mode_resp (km s) \<noteq> None) (exc_set_callback (of_nat EXC_PAGE_FAULT) (Some 1) s)) (\<lambda>s.
      rbind (on_km vmm_load s) (\<lambda>s.
      rbind (heap_load (be_kernel_end e) (bs_heap s) (km s)) (\<lambda>(h, m).
      let s = s\<lparr>bs_heap := h, km := m\<rparr> in
      rbind (mp_load s) (\<lambda>s.
      let s = s\<lparr>bs_gdts := replicate (length (cpus s)) (replicate 11 null_gate)\<rparr> in
      rbind (on_segs (\<lambda>g. Inr (gdt_load g)) s) (\<lambda>s.
      rbind (on_segs tss_load s) (\<lambda>s.
      rbind (acpi_load (be_acpi e) (km s)) (\<lambda>sdt.
      let s = s\<lparr>bs_sdt := sdt\<rparr> in
      rbind (madt_mmio_load (be_acpi e) (bs_sdt s) (km s)) (\<lambda>va.
      Inr (s\<lparr>madt_lapic_mmio := va\<rparr>)))))))))))"

definition bootstrap_load :: "boot_env \<Rightarrow> ('a bootsys_ext mpsys_ext isys_ext ksys_ext) release_fn \<Rightarrow> 'a bootsys_scheme \<Rightarrow> 'a bootsys_scheme outcome" where
  "bootstrap_load e rel s =
     rbind (bootstrap_memory e s) (\<lambda>s.
     rbind (lapic_calibrate (be_dev e) s) (\<lambda>s.
     rbind (lapic_configure_timer (be_stubs e) s) (\<lambda>s.
     rbind (scheduler_load (be_code e) rel s) (\<lambda>s.
     Inr (s\<lparr>cpu_msrs := syscall_load (be_syscall_stub e) (cpu_msrs s)\<rparr>)))))"

text \<open>\<^verbatim>\<open>mp_ap_jump\<close> on the whole state, while the others have not left their loops.\<close>

definition ap_view :: "mp_response \<Rightarrow> 'a bootsys_scheme \<Rightarrow> ap_sys" where
  "ap_view r s = \<lparr>ap_infos = mp_cpus r, ap_fns = map current_fn (cpus s), ap_todo = [], ap_pcs = (\<lambda>_. Parked), ap_msrs = (\<lambda>_. cpu_msrs s)\<rparr>"

definition boot_ap_jump :: "nat \<Rightarrow> 'a bootsys_scheme \<Rightarrow> 'a bootsys_scheme outcome" where
  "boot_ap_jump g s =
     (case mp_resp s of
        None \<Rightarrow> Inl NullDeref
      | Some r \<Rightarrow>
          let t = mp_ap_jump (cpus_items s) g (ap_view r s) in
          Inr (s\<lparr>mp_resp := Some (r\<lparr>mp_cpus := ap_infos t\<rparr>), cpus := map (\<lambda>(c, f). c\<lparr>current_fn := f\<rparr>) (zip (cpus s) (ap_fns t))\<rparr>))"

definition bootstrap_launch :: "nat list \<Rightarrow> 'a bootsys_scheme \<Rightarrow> (nat option \<times> 'a bootsys_scheme) outcome" where
  "bootstrap_launch turns s =
     (let s = s\<lparr>bs_if := True\<rparr> in
      rbind (syncpoint_set (mp_get_cpu_count s - 1) (mp_get_syncpoint s)) (\<lambda>sync.
      let s = s\<lparr>current_syncpoint := sync\<rparr> in
      rbind (boot_ap_jump AP_START s) (\<lambda>s.
      rbind (syncpoint_wait turns (mp_get_syncpoint s)) (\<lambda>(r, sync).
      Inr (r, s\<lparr>current_syncpoint := sync\<rparr>)))))"

definition bootstrap :: "boot_env \<Rightarrow> ('a bootsys_ext mpsys_ext isys_ext ksys_ext) release_fn \<Rightarrow> nat list \<Rightarrow> 'a bootsys_scheme \<Rightarrow>
    (nat option \<times> 'a bootsys_scheme) outcome" where
  "bootstrap e rel turns s = rbind (bootstrap_load e rel s) (bootstrap_launch turns)"

end
