(* ===== verification/Boot_Props.thy ===== *)
theory Boot_Props
  imports Boot Mp_Props Irq_Props Sched_Props
begin

section \<open>The order of the boot: properties\<close>

subsection \<open>The tables of a CPU\<close>

text \<open>A CPU with its number, its per-CPU data and the segment that points to it.\<close>

definition boot_cpu :: "nat \<Rightarrow> 'a bootsys_scheme \<Rightarrow> bool" where
  "boot_cpu i s \<longleftrightarrow> this_cpu (km s) = i \<and> i < length (cpus s) \<and> length (bs_gdts s) = length (cpus s) \<and> length (cpus s) * 16736 < 2 ^ 64 \<and>
     percpu_get_segment (cpu_msrs s) = item_addr (cpus_items s) i \<and> item_addr (cpus_items s) i \<noteq> 0"

lemma on_segs_eq:
  assumes "boot_cpu i s"
  shows "on_segs f s = rbind (f (seg_view (Some (cpu_seg i s)) s)) (\<lambda>g.
    Inr (seg_regs g (case sg_percpu g of None \<Rightarrow> s | Some c \<Rightarrow> s\<lparr>bs_gdts := (bs_gdts s)[i := cs_gdt c]\<rparr>)))"
  using assms item_index_addr[of "length (cpus s)" i "cpus_items s"] by (simp add: on_segs_def boot_cpu_def)

text \<open>The table of a CPU after \<^verbatim>\<open>gdt_load\<close> and \<^verbatim>\<open>tss_load\<close>: its own, with the descriptor of its own task state segment.\<close>

definition tables_loaded :: "uptr \<Rightarrow> gdt_gate list \<Rightarrow> u16 \<times> u64 \<Rightarrow> u16 \<Rightarrow> bool" where
  "tables_loaded item g gdtr tr \<longleftrightarrow> snd gdtr = item + PERCPU_GDT \<and> unat (fst gdtr) + 1 = 8 * length g \<and>
     sys_base (selected tr g) (selected (tr + 8) g) = item + PERCPU_TSS \<and> seg_present (selected tr g) \<and> sys_type (selected tr g) = 9 \<and>
     (\<forall>i < 9. g ! i = gdt_bootstrap_descriptors ! i)"

lemma segs_loaded:
  assumes "boot_cpu i s"
  shows "\<exists>s1 g gdtr tr. on_segs (\<lambda>g. Inr (gdt_load g)) s = Inr s1 \<and>
      on_segs tss_load s1 = Inr (s\<lparr>bs_gdts := (bs_gdts s)[i := g], bs_gdtr := gdtr, bs_tr := tr\<rparr>) \<and>
      tables_loaded (item_addr (cpus_items s) i) g gdtr tr"
proof -
  let ?c = "cpu_seg i s"
  let ?v = "seg_view (Some ?c) s"
  let ?s1 = "seg_regs (gdt_load ?v) (s\<lparr>bs_gdts := (bs_gdts s)[i := gdt_bootstrap_descriptors]\<rparr>)"
  have i: "i < length (bs_gdts s)" using assms by (simp add: boot_cpu_def)
  have g: "on_segs (\<lambda>g. Inr (gdt_load g)) s = Inr ?s1" using on_segs_eq[OF assms, of "\<lambda>g. Inr (gdt_load g)"] by (simp add: gdt_load_def seg_view_def)
  have b1: "boot_cpu i ?s1" using assms by (simp add: boot_cpu_def seg_regs_def)
  have v: "seg_view (Some (cpu_seg i ?s1)) ?s1 = gdt_load ?v" using i by (simp add: seg_view_def seg_regs_def cpu_seg_def gdt_load_def)
  obtain t h where t: "tss_load (gdt_load ?v) = Inr t" "sg_percpu t = Some (?c\<lparr>cs_gdt := h\<rparr>)" "gdtr_base t = cs_gdt_addr ?c"
      "unat (gdtr_limit t) + 1 = 8 * length h" "sys_base (selected (task_reg t) h) (selected (task_reg t + 8) h) = cs_tss_addr ?c"
      "seg_present (selected (task_reg t) h)" "sys_type (selected (task_reg t) h) = 9" "\<forall>i < 9. h ! i = gdt_bootstrap_descriptors ! i"
    using tss_load_roundtrip[of ?v ?c] by (auto simp: seg_view_def)
  have "on_segs tss_load ?s1 = Inr (s\<lparr>bs_gdts := (bs_gdts s)[i := h], bs_gdtr := (gdtr_limit t, gdtr_base t), bs_tr := task_reg t\<rparr>)"
    unfolding on_segs_eq[OF b1] v using t(1,2) by (simp add: seg_regs_def)
  then show ?thesis using g t(3-8)
    by (intro exI[of _ ?s1] exI[of _ h] exI[of _ "(gdtr_limit t, gdtr_base t)"] exI[of _ "task_reg t"]) (simp add: tables_loaded_def cpu_seg_def)
qed

subsection \<open>The idle task\<close>

definition idle_desc :: "code_syms \<Rightarrow> u32 \<Rightarrow> usize \<Rightarrow> task_desc" where
  "idle_desc syms tid pid = \<lparr>td_task_id = tid, td_kstack_size = 16 * 1024, td_ustack_size = 0, td_fn = idle_task_fn syms, td_arg = 0,
     td_pin = \<lparr>pin_enabled = True, pin_processor_id = pid\<rparr>, td_flags = TH_TASK_FLAG_KERNEL OR TH_TASK_FLAG_DETACHED, td_uid = 0, td_gid = 0\<rparr>"

text \<open>What \<^verbatim>\<open>scheduler_load\<close> takes from the allocators: the task \<open>t\<close>, and for it what a kernel task takes.\<close>

definition idle_resources :: "code_syms \<Rightarrow> 'a ksys_scheme \<Rightarrow> nat \<Rightarrow> uptr \<Rightarrow> nat \<Rightarrow> nat \<Rightarrow> bool" where
  "idle_resources syms s t p q c \<longleftrightarrow> scheduler_lock s = unlocked \<and> malloc_obj s SIZEOF_TASK (live s) = Some t \<and>
     task_resources (idle_desc syms (next_task_id s) (processor_id (cpus s ! this_cpu (km s)))) (s\<lparr>live := insert t (live s)\<rparr>) p q c"

lemma scheduler_load_ok:
  assumes i: "i = this_cpu (km s)" "i < length (cpus s)" and res: "idle_resources syms s t p q c"
  shows "\<exists>s' b. scheduler_load syms rel s = Inr s' \<and> ksys.more s' = ksys.more s \<and> km s' = (km s)\<lparr>mem := b\<rparr> \<and>
    length (cpus s') = length (cpus s) \<and> (\<forall>j. j \<noteq> i \<longrightarrow> cpus s' ! j = cpus s ! j) \<and>
    next_task_id s' = next_task_id s + 1 \<and> scheduler_lock s' = unlocked \<and>
    sc_current (sched i s') = Some t \<and> sc_idle (sched i s') = Some t \<and> rq_holds (sc_tasks (sched i s')) s' [] \<and>
    rq_holds (sc_cleanup (sched i s')) s' [] \<and> sll_holds (sc_sleepers (sched i s')) s' [] \<and>
    t_id (tasks s' t) = next_task_id s \<and> t_state (tasks s' t) = TH_TASK_STATE_READY \<and> refcount (tasks s' t) = 1 \<and>
    t_pin (tasks s' t) = \<lparr>pin_enabled = True, pin_processor_id = processor_id (cpus s ! i)\<rparr>"
proof -
  note R = res[unfolded idle_resources_def]
  let ?f = "\<lambda>c. c\<lparr>sc_tasks := runqueue_init (sc_tasks c), sc_cleanup := runqueue_init (sc_cleanup c),
           sc_sleepers := sleeperlist_init (sc_sleepers c), sc_current := None, sc_idle := None\<rparr>"
  let ?s1 = "upd_sched i ?f s"
  let ?s2 = "?s1\<lparr>live := insert t (live s), next_task_id := next_task_id s + 1, scheduler_lock := unlocked\<rparr>"
  let ?d = "idle_desc syms (next_task_id s) (processor_id (cpus s ! i))"
  have a: "allocate_obj SIZEOF_TASK ?s1 = Inr (t, ?s1\<lparr>live := insert t (live s)\<rparr>)"
    using allocate_obj_eq[of ?s1 SIZEOF_TASK t] R by (simp add: SIZEOF_TASK_def upd_sched_def)
  have K: "has_flag (td_flags ?d) TH_TASK_FLAG_KERNEL" "td_ustack_size ?d = 0"
    by (simp_all add: idle_desc_def has_flag_def TH_TASK_FLAG_KERNEL_def TH_TASK_FLAG_DETACHED_def)
  have r: "task_resources ?d ?s2 p q c" using R i(1) by (simp add: task_resources_def upd_sched_def upd_cpu_def)
  obtain s3 b where ti: "task_init syms rel (Some t) ?d ?s2 = Inr s3" and f: "cpus s3 = cpus ?s1" "km s3 = (km s)\<lparr>mem := b\<rparr>" "ksys.more s3 = ksys.more s"
    "next_task_id s3 = next_task_id s + 1" "scheduler_lock s3 = unlocked" "t_id (tasks s3 t) = next_task_id s" "refcount (tasks s3 t) = 1"
    "t_pin (tasks s3 t) = \<lparr>pin_enabled = True, pin_processor_id = processor_id (cpus s ! i)\<rparr>"
    using task_init_kernel[OF K r, of syms rel t] by (auto simp: Let_def idle_desc_def upd_sched_def)
  let ?s4 = "ready t s3"
  let ?s5 = "upd_sched i (\<lambda>c. c\<lparr>sc_idle := Some t, sc_current := Some t\<rparr>) ?s4"
  have "scheduler_load syms rel s = Inr ?s5"
    using i a R ti by (simp add: scheduler_load_def mp_get_percpu_data_def Let_def idle_desc_def upd_sched_def)
  moreover have "sched i ?s5 = (?f (sched i s))\<lparr>sc_idle := Some t, sc_current := Some t\<rparr>"
    using i(2) f(1) by (simp add: upd_sched_def)
  ultimately show ?thesis using i(2) f
    by (intro exI[of _ ?s5] exI[of _ b]) (simp add: runqueue_init_holds sleeperlist_init_holds, simp add: upd_sched_def)
qed

subsection \<open>The other CPUs\<close>

text \<open>The fields above the scheduler's are those of before.\<close>

lemma boot_frame:
  fixes s s' :: "'a bootsys_scheme"
  assumes "ksys.more s' = ksys.more s"
  shows "current_syncpoint s' = current_syncpoint s" "cpu_msrs s' = cpu_msrs s" "idt_gates s' = idt_gates s" "bs_gdts s' = bs_gdts s"
    "bs_gdtr s' = bs_gdtr s" "bs_tr s' = bs_tr s" "bs_idtr s' = bs_idtr s"
  using assms by (cases s; cases s'; simp)+

lemma lapic_configure_timer_frame:
  "lapic_configure_timer syms s = Inr s' \<Longrightarrow> \<exists>g tr m. s' = s\<lparr>idt_gates := g, cpu_msrs := m, io := tr\<rparr>"
  unfolding lapic_configure_timer_def lapic_enable_sw_def lapic_program_timer_periodic_def lapic_write_def madt_lapic_base_def Let_def
  by (clarsimp simp: outcome_simps split del: if_split) (intro exI, rule refl)

text \<open>The gates of the local interrupt controller.\<close>

definition timer_gates :: "stub_syms \<Rightarrow> idt_gate list \<Rightarrow> bool" where
  "timer_gates syms g \<longleftrightarrow> gate_ok (lapic_timer_stub syms) 1 (g ! 0xE0) \<and> gate_ok (lapic_panic_stub syms) 1 (g ! 0xFE) \<and>
     gate_ok (lapic_spurious_stub syms) 1 (g ! 0xFF) \<and> gate_ok (lapic_tlb_flush_stub syms) 1 (g ! 0xFD)"

lemma lapic_configure_timer_ok:
  assumes "length (idt_gates s) = 256" "madt_lapic_mmio s \<noteq> 0"
  shows "\<exists>g tr m. lapic_configure_timer syms s = Inr (s\<lparr>idt_gates := g, cpu_msrs := m, io := tr\<rparr>) \<and> timer_gates syms g"
proof -
  obtain s' a b c d where l: "lapic_configure_timer syms s = Inr s'" "idt_gates s' = (idt_gates s)[0xE0 := a, 0xFE := b, 0xFF := c, 0xFD := d]"
    "gate_ok (lapic_timer_stub syms) 1 a" "gate_ok (lapic_panic_stub syms) 1 b" "gate_ok (lapic_spurious_stub syms) 1 c"
    "gate_ok (lapic_tlb_flush_stub syms) 1 d" using lapic_configure_timer_gates[OF assms, of syms] by blast
  obtain g tr m where s': "s' = s\<lparr>idt_gates := g, cpu_msrs := m, io := tr\<rparr>" using lapic_configure_timer_frame[OF l(1)] by blast
  have "timer_gates syms g" using l(2-6) s' assms(1) by (simp add: timer_gates_def nth_list_update)
  then show ?thesis using l(1) s' by blast
qed


subsection \<open>Launching the others\<close>

lemma ap_jump_stored:
  fixes s :: ap_sys
  assumes "k \<le> length (ap_infos s)" "length (ap_fns s) = length (ap_infos s)"
  shows "let t = fold (do_store b g) (mp_ap_jump_stores k) s in
    length (ap_infos t) = length (ap_infos s) \<and> length (ap_fns t) = length (ap_infos s) \<and>
    (\<forall>i < k. ap_fns t ! i = Some g \<and> ap_infos t ! i = (ap_infos s ! i)\<lparr>goto_address := Some AP_FN_WRAPPER, extra_argument := item_addr b i\<rparr>) \<and>
    (\<forall>i \<ge> k. i < length (ap_infos s) \<longrightarrow> ap_infos t ! i = ap_infos s ! i)"
  using assms
proof (induction k)
  case 0
  then show ?case by (simp add: mp_ap_jump_stores_def)
next
  case (Suc k)
  then show ?case by (simp add: stores_Suc do_store_def Let_def nth_list_update less_Suc_eq)
qed

lemma boot_ap_jump_ok:
  assumes "mp_resp s = Some r" "length (mp_cpus r) = n" "length (cpus s) = n"
  shows "\<exists>infos cs. boot_ap_jump g s = Inr (s\<lparr>mp_resp := Some (r\<lparr>mp_cpus := infos\<rparr>), cpus := cs\<rparr>) \<and>
    (\<forall>i < n. infos ! i = (mp_cpus r ! i)\<lparr>goto_address := Some AP_FN_WRAPPER, extra_argument := item_addr (cpus_items s) i\<rparr> \<and>
       cs ! i = (cpus s ! i)\<lparr>current_fn := Some g\<rparr>)"
proof -
  let ?t = "mp_ap_jump (cpus_items s) g (ap_view r s)"
  have "length (ap_fns ?t) = n \<and> (\<forall>i < n. ap_fns ?t ! i = Some g \<and>
      ap_infos ?t ! i = (mp_cpus r ! i)\<lparr>goto_address := Some AP_FN_WRAPPER, extra_argument := item_addr (cpus_items s) i\<rparr>)"
    using ap_jump_stored[of n "ap_view r s" "cpus_items s" g] assms(2,3) by (simp add: mp_ap_jump_def ap_view_def Let_def)
  then show ?thesis using assms(1,3)
    by (intro exI[of _ "ap_infos ?t"] exI[of _ "map (\<lambda>(c, f). c\<lparr>current_fn := f\<rparr>) (zip (cpus s) (ap_fns ?t))"]) (simp add: boot_ap_jump_def Let_def)
qed

text \<open>
  C4: The last part of \<^verbatim>\<open>bootstrap\<close> announces to every CPU the entry point, its own per-CPU data and \<^verbatim>\<open>ap_start\<close>, and then waits for exactly
  the others: it returns as soon as they have all passed the barrier, whatever the order, and does not return while one is missing.
\<close>

theorem bootstrap_launch_waits:
  assumes r: "mp_resp s = Some r" "length (mp_cpus r) = n" "length (cpus s) = n" "0 < n" "n < 2 ^ 64" "mp_get_cpu_count s = of_nat n"
    and "sp_lock (current_syncpoint s) = unlocked"
  shows "\<exists>o' s' infos. bootstrap_launch turns s = Inr (o', s') \<and> bs_if s' \<and> (o' \<noteq> None \<longleftrightarrow> n - 1 \<le> sum_list turns) \<and>
    mp_resp s' = Some (r\<lparr>mp_cpus := infos\<rparr>) \<and>
    (\<forall>i < n. infos ! i = (mp_cpus r ! i)\<lparr>goto_address := Some AP_FN_WRAPPER, extra_argument := item_addr (cpus_items s) i\<rparr> \<and>
       cpus s' ! i = (cpus s ! i)\<lparr>current_fn := Some AP_START\<rparr>)"
proof -
  let ?sp = "(current_syncpoint s)\<lparr>remaining := mp_get_cpu_count s - 1\<rparr>"
  let ?s1 = "s\<lparr>bs_if := True, current_syncpoint := ?sp\<rparr>"
  have "syncpoint_set (mp_get_cpu_count s - 1) (current_syncpoint s) = Inr ?sp"
    using assms(7) by (cases "current_syncpoint s") (simp add: syncpoint_set_def Let_def)
  then have set: "syncpoint_set (mp_get_cpu_count (s\<lparr>bs_if := True\<rparr>) - 1) (mp_get_syncpoint (s\<lparr>bs_if := True\<rparr>)) = Inr ?sp"
    by (simp add: mp_get_syncpoint_def mp_get_cpu_count_def)
  have c: "unat (remaining ?sp) = n - 1" "sp_lock ?sp = unlocked"
    using r(4-6) assms(7) unat_of_nat_u64[of "n - 1"] by (simp_all add: of_nat_diff)
  obtain infos cs where j: "boot_ap_jump AP_START ?s1 = Inr (?s1\<lparr>mp_resp := Some (r\<lparr>mp_cpus := infos\<rparr>), cpus := cs\<rparr>)" (is "_ = Inr ?s2")
    "\<forall>i < n. infos ! i = (mp_cpus r ! i)\<lparr>goto_address := Some AP_FN_WRAPPER, extra_argument := item_addr (cpus_items s) i\<rparr> \<and>
       cs ! i = (cpus s ! i)\<lparr>current_fn := Some AP_START\<rparr>"
    using boot_ap_jump_ok[of ?s1 r n AP_START] r(1-3) by auto
  have "\<exists>o' sp. syncpoint_wait turns ?sp = Inr (o', sp) \<and> (o' \<noteq> None \<longleftrightarrow> n - 1 \<le> sum_list turns)"
    using syncpoint_wait_enough[OF c(2), of turns] syncpoint_wait_too_few[OF c(2), of turns] c(1)
    by (cases "n - 1 \<le> sum_list turns") auto
  then obtain o' sp where w: "syncpoint_wait turns ?sp = Inr (o', sp)" "o' \<noteq> None \<longleftrightarrow> n - 1 \<le> sum_list turns" by blast
  have "bootstrap_launch turns s = Inr (o', ?s2\<lparr>current_syncpoint := sp\<rparr>)"
    using set j(1) w(1) by (simp add: bootstrap_launch_def Let_def) (simp add: mp_get_syncpoint_def)
  then show ?thesis using w(2) j(2) by (intro exI[of _ o'] exI[of _ "?s2\<lparr>current_syncpoint := sp\<rparr>"] exI[of _ infos]) simp
qed

subsection \<open>The timer chip\<close>

text \<open>
  On a timer chip that works as specified the kernel does not start: the calibration closes the gate of the counter it waits for, so
  whatever the firmware and the boot loader provide, \<^verbatim>\<open>bootstrap\<close> fails before a second CPU is started.
\<close>

theorem bootstrap_stops_on_closed_gate:
  assumes "pit_chip (be_dev e)"
  shows "\<exists>f. bootstrap e rel turns s = Inl f"
proof -
  have "\<exists>f. lapic_calibrate (be_dev e) t = Inl f" for t :: "'a bootsys_scheme"
  proof (cases "madt_lapic_mmio t = 0")
    case True
    then show ?thesis by (simp add: lapic_calibrate_def Let_def lapic_write_def madt_lapic_base_def)
  next
    case False
    then show ?thesis using lapic_calibrate_gate_closed[OF assms] by blast
  qed
  then have "\<exists>f. rbind (bootstrap_memory e s) (\<lambda>t. rbind (lapic_calibrate (be_dev e) t) k) = Inl f"
    for k :: "'a bootsys_scheme \<Rightarrow> 'a bootsys_scheme outcome"
    by (cases "bootstrap_memory e s") (simp_all, metis rbind_Inl)
  then show ?thesis unfolding bootstrap_def bootstrap_load_def by (metis rbind_Inl)
qed

subsection \<open>Static variables\<close>

text \<open>
  The first part of the boot returns exactly if the boot loader gave a list of the CPUs. Afterwards every lock of the kernel is free, the
  barrier is open, the interrupt table is complete, and the CPU uses the kernel's segment table.
\<close>

theorem init_static_globals_frees_locks:
  "case mp_resp s of
     None \<Rightarrow> init_static_globals e s = Inl AssertFail
   | Some r \<Rightarrow> \<exists>s'. init_static_globals e s = Inr s' \<and>
      log_lock s' = unlocked \<and> irq_lock s' = unlocked \<and> exc_lock s' = unlocked \<and> pmm_lock (pmm_inst (km s')) = unlocked \<and>
      vmm_lock (km s') = unlocked \<and> tlb_shootdown_lock (km s') = unlocked \<and> heap_lock (bs_heap s') = unlocked \<and>
      scheduler_lock s' = unlocked \<and> sp_lock (current_syncpoint s') = unlocked \<and> remaining (current_syncpoint s') = 0 \<and>
      length (idt_gates s') = 256 \<and> isr_table s' = isr_table (isr_init s) \<and> bs_gdtr s' = (87, be_gdt_bootstrap e)"
proof -
  obtain g where g: "idt_init (be_stubs e) (idt_gates s) = Inr g" "length g = 256" using idt_init_gates by blast
  obtain m where m: "pmm_init (km s) = Inr m" "pmm_lock (pmm_inst m) = unlocked"
    by (simp add: pmm_init_def Let_def bitmap_init_def span_null_def)
  show ?thesis
    using g m by (cases "mp_resp s") (simp_all add: init_static_globals_def isr_init_def irq_init_def exc_init_def on_km_def Let_def mp_init_def
        klogger_init_def vmm_init_def heap_init_def syncpoint_init_def scheduler_init_def gdt_init_def seg_view_def seg_regs_def
        SIZEOF_GDT_def GDT_NUM_DESCRIPTORS_def GDT_SEG_IDX_TSS_def)
qed

subsection \<open>Instances\<close>

text \<open>Two CPUs of which the second one is the bootstrap CPU; the first one starts.\<close>

definition env_demo :: boot_env where
  "env_demo = \<lparr>be_dev = pit_demo, be_stubs = stubs_demo, be_code = syms_demo, be_acpi = None, be_idt_gates = 0x700000, be_gdt_bootstrap = 0x800000,
     be_syscall_stub = 0x900000, be_kernel_end = 0\<rparr>"

definition ap_cpu_demo :: bootsys where
  "ap_cpu_demo = mpsys.extend (mp_demo\<lparr>cpus := [percpu_demo, percpu_demo], live := {},
       malloc_obj := (\<lambda>_ U. if U = {} then Some 0 else if U = {0} then Some 1 else if U = {0, 1} then Some 2 else None),
       cpu_msrs := percpu_set_segment 0x50000000 (\<lambda>_. 0), madt_lapic_mmio := 0xFEE00000, cpus_items := 0x50000000,
       current_syncpoint := \<lparr>sp_lock = unlocked, remaining = 1\<rparr>\<rparr>)
     (bootsys.fields \<lparr>heap_lock = unlocked, heap_start = 0, heap_end = 0, heap_map = \<lparr>bm_buffer = span_null\<rparr>\<rparr> 0
       (replicate 2 (replicate 11 null_gate)) (0, 0) 0 (0, 0) False)"

lemma ap_cpu_demo_simps [simp]:
  "km ap_cpu_demo = vm_demo" "cpus ap_cpu_demo = [percpu_demo, percpu_demo]" "idt_gates ap_cpu_demo = replicate 256 empty_gate"
  "madt_lapic_mmio ap_cpu_demo = 0xFEE00000" "current_syncpoint ap_cpu_demo = \<lparr>sp_lock = unlocked, remaining = 1\<rparr>"
  "cpus_items ap_cpu_demo = 0x50000000" "percpu_get_segment (cpu_msrs ap_cpu_demo) = 0x50000000" "length (bs_gdts ap_cpu_demo) = 2"
  "live ap_cpu_demo = {}" "malloc_raw ap_cpu_demo = malloc_raw ksys_demo" "raw_live ap_cpu_demo = raw_live ksys_demo"
  "malloc_obj ap_cpu_demo = (\<lambda>_ U. if U = {} then Some 0 else if U = {0} then Some 1 else if U = {0, 1} then Some 2 else None)"
  "scheduler_lock ap_cpu_demo = scheduler_lock ksys_demo" "mp_resp ap_cpu_demo = mp_resp mp_demo" "next_task_id ap_cpu_demo = next_task_id ksys_demo"
  by (simp_all add: ap_cpu_demo_def mp_demo_def isys_demo_def exit_demo_def ksys_demo_def ksys.defs isys.defs mpsys.defs bootsys.defs percpu_segment_roundtrip)


theorem bootstrap_launch_waits_witness:
  "\<exists>k s'. bootstrap_launch [0, 1] (ap_cpu_demo\<lparr>km := vm_demo\<lparr>cpu_count := 2\<rparr>\<rparr>) = Inr (Some k, s') \<and> current_fn (cpus s' ! 0) = Some AP_START"
  using bootstrap_launch_waits[of "ap_cpu_demo\<lparr>km := vm_demo\<lparr>cpu_count := 2\<rparr>\<rparr>" _ 2 "[0, 1]"]
  by (auto simp: mp_demo_def isys_demo_def ksys.defs isys.defs mpsys.defs mp_get_cpu_count_def)

theorem bootstrap_stops_on_closed_gate_witness:
  "\<exists>f. bootstrap env_demo (\<lambda>_ _. Inr) [1] ap_cpu_demo = Inl f"
  by (rule bootstrap_stops_on_closed_gate) (simp add: env_demo_def pit_demo_chip)

end
