(* ===== verification/Spec2Isabelle.thy ===== *)
theory Spec2Isabelle
  imports Align Bytes Span Bitmap Lock Pmm Pmm_Load Cpu PageTable Vmm Vmm_Tables Vmm_Map Vmm_Read Vmm_Props
    Dllist WaitQueue Mutex Semaphore Objects Capabilities Cap_Ops Cap_Props
    Alloc Timer Task RunQueue Sleeper Task_Mem Mmap_Props
    Task_Init Task_Boot Scheduler Sched_Queues Sched_Props Sched_Tick Task_Api Task_Props Msr Syscall Syscall_Props
    Heap Heap_Props Conv Str Format Format_Props VfsPath VfsPath_Props
    Ports Pic Serial Segments Segments_Props Interrupts Klog Interrupts_Props Irq_Props Acpi Acpi_Props
    Console_Cap Userland Userland_Props Mp Mp_Props Ubsan Ubsan_Props User_Ubsan User_Ubsan_Props Scratch Scratch_Props
    Boot Boot_Props
begin

text \<open>
  A verification development for slightx, an operating system kernel for x86-64 in C with a small user library. All paths are below
  \<^verbatim>\<open>src/sources\<close>: \<^verbatim>\<open>kernel\<close> (boot, memory, processors, processes),
  \<^verbatim>\<open>klibc\<close> (the library of the kernel), \<^verbatim>\<open>ulibc\<close> (the library of user programs),
  \<^verbatim>\<open>libs/vfs\<close> (paths) and \<^verbatim>\<open>apps/dummy\<close> (a program). The code is translated function by
  function into executable definitions, under the names of the source, and the theorems are proved about these definitions.

  \<^bold>\<open>How the program works.\<close> The boot loader hands over a memory map, an offset at which all physical memory is mapped,
  the firmware tables, the list of CPUs and some program files. The page allocator takes the free pages from the memory map; the virtual
  memory layer builds page tables in pages it gets from there; the heap backs its range with such pages and serves everything else that is
  allocated. Each CPU has its own data, found through a segment register, with a scheduler: a run queue, a list of sleepers and the current
  task. A task has an address space, a table of capabilities and a stack. It enters the kernel by the system call instruction or by an
  interrupt; a timer interrupt makes the scheduler switch. Tasks wait in wait queues (mutexes, semaphores, joins) and are woken through
  function pointers stored there. All text goes to a console driver, which user programs reach through a capability.

  \<^bold>\<open>State and effects.\<close> A function of the source takes the state it works on and returns it updated. The states are
  records that extend each other: \<open>machine\<close> (byte memory, boot loader responses, page allocator), \<open>vmachine\<close>
  (kernel page map, locks, the shootdown variables), \<open>ksys\<close> (kernel objects by number, tasks, CPUs, with a
  \<open>vmachine\<close> inside), \<open>isys\<close> (interrupt tables, console, trace of device accesses), \<open>mpsys\<close> (boot
  loader's CPU list), \<open>bootsys\<close> (table registers of the running CPU, segment tables). Integers are words of their width. A failed assertion, a panic, a NULL dereference, an access outside an array, a
  division by zero or a wait that cannot end is a value of \<open>fault\<close> in the left of an \<open>outcome\<close>. The model is that
  of the Debug build, in which both assertion macros are active. Where the end of a handler matters, \<open>ending\<close> says whether it
  returns or halts the CPU.

  \<^bold>\<open>Theories.\<close>
  \<^item> \<open>Prelude\<close>: outcomes, the theorem collections \<open>outcome_simps\<close>, \<open>word_arith\<close> and
    \<open>mem_simps\<close>, counting loops with their rules, byte memory. \<open>Dllist\<close>: doubly linked lists threaded through
    objects, the updates the code makes on them, and the queue contract \<open>fifo\<close>.
  \<^item> klibc: \<open>Align\<close>, \<open>Bytes\<close>, \<open>Span\<close>, \<open>Bitmap\<close>, \<open>Alloc\<close> (the checked
    wrappers and the arena), \<open>Conv\<close> and \<open>Str\<close>, \<open>Format\<close> and \<open>Format_Props\<close> (the
    formatter and the log), \<open>Lock\<close> (spinlocks and syncpoints, also as steps of several CPUs), \<open>WaitQueue\<close>,
    \<open>Mutex\<close> (with condition variables), \<open>Semaphore\<close>, \<open>Timer\<close>, \<open>Ubsan\<close> and
    \<open>Ubsan_Props\<close> (the reports of the compiler's checks).
  \<^item> Memory: \<open>Pmm\<close> and \<open>Pmm_Load\<close> (\<^verbatim>\<open>kernel/src/mem/pmm.c\<close>,
    \<^verbatim>\<open>hhdm.c\<close>); \<open>Cpu\<close> (\<^verbatim>\<open>cpuid.c\<close>); \<open>PageTable\<close>,
    \<open>Vmm\<close>, \<open>Vmm_Tables\<close>, \<open>Vmm_Map\<close>, \<open>Vmm_Read\<close>, \<open>Vmm_Props\<close>
    (\<^verbatim>\<open>vmm.c\<close>); \<open>Heap\<close>, \<open>Heap_Props\<close> (\<^verbatim>\<open>heap.c\<close>).
  \<^item> Processes: \<open>Objects\<close>, \<open>Capabilities\<close>, \<open>Cap_Ops\<close>, \<open>Cap_Props\<close>
    (\<^verbatim>\<open>capabilities.c\<close>); \<open>Task\<close>, \<open>Task_Mem\<close>, \<open>Mmap_Props\<close>,
    \<open>Task_Init\<close>, \<open>Task_Boot\<close>, \<open>Task_Api\<close>, \<open>Task_Props\<close>
    (\<^verbatim>\<open>task.c\<close>, \<^verbatim>\<open>spawn.c\<close>); \<open>RunQueue\<close>, \<open>Sleeper\<close>,
    \<open>Scheduler\<close>, \<open>Sched_Queues\<close>, \<open>Sched_Props\<close>, \<open>Sched_Tick\<close>
    (\<^verbatim>\<open>scheduler/\<close> and \<^verbatim>\<open>task-switch.asm\<close>); \<open>Msr\<close>, \<open>Syscall\<close>,
    \<open>Syscall_Props\<close> (\<^verbatim>\<open>syscall.c\<close>); \<open>Console_Cap\<close>
    (\<^verbatim>\<open>capabilities/console.c\<close>).
  \<^item> Processors and interrupts: \<open>Ports\<close>, \<open>Pic\<close>, \<open>Serial\<close>, \<open>Segments\<close>,
    \<open>Segments_Props\<close> (\<^verbatim>\<open>gdt.c\<close>, \<^verbatim>\<open>tss.c\<close>, \<^verbatim>\<open>idt.c\<close>),
    \<open>Interrupts\<close>, \<open>Interrupts_Props\<close>, \<open>Irq_Props\<close> (\<^verbatim>\<open>isr.c\<close>,
    \<^verbatim>\<open>irq.c\<close>, \<^verbatim>\<open>exc.c\<close>, \<^verbatim>\<open>lapic.c\<close>,
    \<^verbatim>\<open>panic.c\<close>, \<^verbatim>\<open>drivers/console.c\<close> and the page-fault handler of
    \<^verbatim>\<open>vmm.c\<close>), \<open>Klog\<close> (the log over that console), \<open>Acpi\<close>, \<open>Acpi_Props\<close>
    (\<^verbatim>\<open>acpi.c\<close>, \<^verbatim>\<open>madt.c\<close>), \<open>Mp\<close>, \<open>Mp_Props\<close>
    (\<^verbatim>\<open>mp.c\<close>), \<open>Boot\<close>, \<open>Boot_Props\<close>
    (\<^verbatim>\<open>main.c\<close>, the order in which the parts are set up on each CPU).
  \<^item> User space: \<open>Userland\<close>, \<open>Userland_Props\<close> (the system call wrappers, printing, assertions, start-up
    code, the program \<^verbatim>\<open>dummy\<close>), \<open>User_Ubsan\<close>, \<open>User_Ubsan_Props\<close>
    (\<^verbatim>\<open>ulibc/src/ubsan.c\<close>), \<open>Scratch\<close>, \<open>Scratch_Props\<close>
    (\<^verbatim>\<open>ulibc/src/mem/scratch.c\<close>), \<open>VfsPath\<close>, \<open>VfsPath_Props\<close>.

  \<^bold>\<open>Interfaces.\<close> Five contracts are locales, each interpreted on the definitions of the component that provides it:
  \<open>bit_array\<close> (bitmaps, used by the page allocator and the heap), \<open>alloc_laws\<close> (a new block is disjoint from what
  was handed out; the arena), \<open>block_alloc\<close> (live blocks are added, moved and removed without touching the others; the arena of
  ulibc, used by the scratch allocator), \<open>cap_space\<close> (a capability table is a partial map with fresh ids) and
  \<open>fifo\<close> (objects leave a queue in the order they entered; wait queues and run queues).

  \<^bold>\<open>What is shown.\<close>
  \<^item> Memory: the page allocator is first fit, keeps its invariant from the memory map on and never hands out a page twice. Mapping and
    unmapping change exactly the translation they should, for the code's own walk and for that of the hardware. A shootdown returns only
    when every CPU has invalidated the range. The heap search is first fit; a chunk's header leads back to its block, and reallocation keeps
    the data. Arena blocks are disjoint; a scratch allocator gives back every block once.
  \<^item> Synchronisation: mutual exclusion of spinlocks and mutexes, the barrier of syncpoints, the bound on the permits of a semaphore.
  \<^item> Processes: capability tables refine partial maps, deleted ids stay invalid, rights are checked; mappings of a task stay disjoint
    and in user space, and the search for a free range finds the lowest; yields go round robin, ticks wake exactly the due sleepers; exits
    and page faults end exactly the task they should and wake its joiners; system calls reject every range outside user space.
  \<^item> Interrupts and processors: the interrupt table and the dispatch table fit together; which lines are delivered; when a panic ends;
    the calibration ends; the walk over a firmware table stays inside it; in every interleaving of the start of the CPUs each runs with its
    own data or with none; a CPU that starts on its own data is set up completely and passes the barrier, for which the bootstrap CPU waits.
  \<^item> Text: numbers, formats and paths have the text a short specification gives; a program's output goes through all layers to the
    serial port unchanged; each compiler check writes its report and stops as asked.
  \<^item> Several theorems state what the code does where this is not what it means to do: a 1 GB translation loses part of the offset,
    page maps with user pages cannot be cloned, a blocked task cannot be joined, any caller unlocks a mutex, an empty string ends the
    program that prints it, a CPU can start before its argument is stored, and
    on a timer chip that honours its gate the boot fails.

  \<^bold>\<open>Loops and bounds.\<close> Counting loops are \<open>for_r\<close>; other loops are functions with a measure. Loops that
  follow pointers in memory, compare until a zero byte or search the address space are \<open>partial_function (option)\<close>, where
  \<open>None\<close> is not returning, and the theorems that use them prove that they return. \<^verbatim>\<open>panic\<close> is one as
  well, since the assertion inside it may call it again. The calibration loop has the bound of the source, two million polls. Fuel is used
  in one place: \<open>puts\<close> in the user library, whose failing assertion prints and so calls it again; depth 2 is enough unless the
  message of the assertion itself cannot be printed. A lock that is taken when nobody else can release it is \<open>Inl Deadlock\<close>;
  other CPUs appear where the code waits for them: as explicit lists of answers (shootdown, syncpoint) or as step relations (spinlock, start
  of the CPUs).

  \<^bold>\<open>Parameters.\<close> Code outside the repository is never defined here: \<^verbatim>\<open>malloc\<close>,
  \<^verbatim>\<open>realloc\<close> and \<^verbatim>\<open>free\<close> of liballoc, the terminal library flanterm, the responses of the
  boot loader limine, what devices and \<^verbatim>\<open>cpuid\<close> answer, the addresses the linker chooses and the structures the
  compiler passes to its checks. What the code relies on is a hypothesis of the theorem (\<open>malloc_ok\<close>: an allocation is not a
  live object), with a witness in which a concrete function satisfies it.

  \<^bold>\<open>Not modelled.\<close>
  \<^item> \<^verbatim>\<open>kmain\<close>, which calls the two halves of the boot, prints the boot loader's responses and starts a task per
    module; each function it calls is modelled. Interrupts that arrive during the boot. \<^verbatim>\<open>halt.c\<close>, an endless loop of
    two instructions.
  \<^item> The files of ulibc that have the text of klibc files of the same name (conversion, formatter, strings, bytes, spans, alignment,
    arena); the definitions of those stand for both.
  \<^item> The assembly entry points, which save and restore registers around the handlers, except the context switch.
  \<^item> The message declarations of \<^verbatim>\<open>libs/vfs\<close>, which no code builds or reads yet; the idle loop, which repeats
    \<^verbatim>\<open>scheduler_yield\<close>.
  \<^item> The memory of user programs is read at the address given, in the one byte memory, and not through the page tables of the task;
    caches and the reordering of memory accesses by the hardware.
\<close>

end
